(* ===== verification/Prelude.thy ===== *)
theory Prelude
  imports Complex_Main "HOL-Library.List_Lexorder" "HOL-Library.Char_ord" "HOL-Library.Sublist"
begin

text \<open>
  Shared vocabulary of the development. A Rust \<^verbatim>\<open>String\<close> or \<^verbatim>\<open>&str\<close> is the list of its
  UTF-8 bytes, so equality, concatenation, \<^verbatim>\<open>starts_with\<close>, \<^verbatim>\<open>split\<close> on an ASCII character and the
  byte order used by RocksDB are the list operations and the lexicographic order of
  \<open>List_Lexorder\<close>. A fallible function returns \<open>err + 'a\<close>; \<open>rbind\<close> is the
  \<^verbatim>\<open>?\<close> operator. Decimal printing and parsing of unsigned integers follow \<^verbatim>\<open>to_string\<close> and
  \<^verbatim>\<open>str::parse\<close>.
\<close>

named_theorems key_simps \<open>injectivity and disjointness of storage keys\<close>

section \<open>Errors as values\<close>

text \<open>An \<^verbatim>\<open>anyhow::Error\<close> is kept by its outermost context message.\<close>

datatype err = Err string

type_synonym 'a res = "err + 'a"

fun rbind :: "'a res \<Rightarrow> ('a \<Rightarrow> 'b res) \<Rightarrow> 'b res" where
  "rbind (Inl e) f = Inl e"
| "rbind (Inr x) f = f x"

fun is_ok :: "'a res \<Rightarrow> bool" where
  "is_ok (Inl e) = False"
| "is_ok (Inr x) = True"

definition ensure :: "bool \<Rightarrow> string \<Rightarrow> unit res" where
  "ensure b msg = (if b then Inr () else Inl (Err msg))"

lemma rbind_Inr_iff [simp]: "rbind m f = Inr y \<longleftrightarrow> (\<exists>x. m = Inr x \<and> f x = Inr y)"
  by (cases m) auto

lemma rbind_assoc: "rbind (rbind m f) g = rbind m (\<lambda>x. rbind (f x) g)"
  by (cases m) auto

lemma rbind_split: "P (rbind m f) \<longleftrightarrow> ((\<forall>e. m = Inl e \<longrightarrow> P (Inl e)) \<and> (\<forall>x. m = Inr x \<longrightarrow> P (f x)))"
  by (cases m) auto

lemma ensure_Inr [simp]: "ensure b msg = Inr u \<longleftrightarrow> b"
  by (simp add: ensure_def)

lemma ensure_simps [simp]: "ensure True msg = Inr ()" "ensure False msg = Inl (Err msg)"
  by (simp_all add: ensure_def)

lemma is_ok_iff: "is_ok r \<longleftrightarrow> (\<exists>x. r = Inr x)"
  by (cases r) auto

text \<open>The same with a component's own error type.\<close>

fun ebind :: "'e + 'a \<Rightarrow> ('a \<Rightarrow> 'e + 'b) \<Rightarrow> 'e + 'b" where
  "ebind (Inl e) f = Inl e"
| "ebind (Inr x) f = f x"

lemma ebind_Inr_iff [simp]: "ebind m f = Inr y \<longleftrightarrow> (\<exists>x. m = Inr x \<and> f x = Inr y)"
  by (cases m) auto

lemma ebind_Inl_iff: "ebind m f = Inl e \<longleftrightarrow> m = Inl e \<or> (\<exists>x. m = Inr x \<and> f x = Inl e)"
  by (cases m) auto

section \<open>Machine integers as bounded naturals\<close>

abbreviation u64_max :: nat where "u64_max \<equiv> 18446744073709551615"
abbreviation u32_max :: nat where "u32_max \<equiv> 4294967295"

definition sat_add64 :: "nat \<Rightarrow> nat \<Rightarrow> nat" where
  "sat_add64 a b = min (a + b) u64_max"

definition sat_mul64 :: "nat \<Rightarrow> nat \<Rightarrow> nat" where
  "sat_mul64 a b = min (a * b) u64_max"

text \<open>\<^verbatim>\<open>fetch_add\<close> and \<^verbatim>\<open>wrapping_add\<close> on \<^verbatim>\<open>u64\<close>.\<close>

definition wrap64 :: "nat \<Rightarrow> nat" where
  "wrap64 a = a mod (u64_max + 1)"

lemma wrap64_id [simp]: "a \<le> u64_max \<Longrightarrow> wrap64 a = a"
  by (simp add: wrap64_def)

section \<open>Strings\<close>

abbreviation starts_with :: "string \<Rightarrow> string \<Rightarrow> bool" where
  "starts_with s p \<equiv> prefix p s"

abbreviation ends_with :: "string \<Rightarrow> string \<Rightarrow> bool" where
  "ends_with s p \<equiv> suffix p s"

fun strip_prefix :: "string \<Rightarrow> string \<Rightarrow> string option" where
  "strip_prefix [] s = Some s"
| "strip_prefix (p # ps) [] = None"
| "strip_prefix (p # ps) (c # cs) = (if p = c then strip_prefix ps cs else None)"

lemma strip_prefix_append [simp]: "strip_prefix p (p @ s) = Some s"
  by (induction p) auto

lemma strip_prefix_Some: "strip_prefix p s = Some r \<longleftrightarrow> s = p @ r"
  by (induction p s rule: strip_prefix.induct) auto

text \<open>\<^verbatim>\<open>split(char)\<close>: the pieces between separators, at least one.\<close>

fun split_on :: "char \<Rightarrow> string \<Rightarrow> string list" where
  "split_on d [] = [[]]"
| "split_on d (c # cs) =
     (if c = d then [] # split_on d cs
      else (case split_on d cs of [] \<Rightarrow> [[c]] | p # ps \<Rightarrow> (c # p) # ps))"

fun join :: "string \<Rightarrow> string list \<Rightarrow> string" where
  "join d [] = []"
| "join d [x] = x"
| "join d (x # y # ys) = x @ d @ join d (y # ys)"

lemma split_on_not_Nil [simp]: "split_on d s \<noteq> []"
  by (cases s) (auto split: list.splits)

lemma split_on_no_sep: "d \<notin> set s \<Longrightarrow> split_on d s = [s]"
  by (induction s) auto

lemma split_on_append: "d \<notin> set p \<Longrightarrow> split_on d (p @ d # s) = p # split_on d s"
  by (induction p) auto

lemma split_on_join:
  "xs \<noteq> [] \<Longrightarrow> \<forall>x \<in> set xs. d \<notin> set x \<Longrightarrow> split_on d (join [d] xs) = xs"
  by (induction "[d]" xs rule: join.induct) (auto simp: split_on_no_sep split_on_append)

lemma join_split_on: "join [d] (split_on d s) = s"
proof (induction s)
  case Nil
  show ?case by simp
next
  case (Cons c s)
  then show ?case
    by (cases "split_on d s"; cases "tl (split_on d s)") (auto simp: neq_Nil_conv)
qed

text \<open>\<^verbatim>\<open>splitn(3, c)\<close>: at most three pieces, the last one unsplit.\<close>

fun split_once :: "char \<Rightarrow> string \<Rightarrow> (string \<times> string) option" where
  "split_once d [] = None"
| "split_once d (c # cs) =
     (if c = d then Some ([], cs)
      else map_option (\<lambda>(a, b). (c # a, b)) (split_once d cs))"

lemma split_once_append: "d \<notin> set p \<Longrightarrow> split_once d (p @ d # s) = Some (p, s)"
  by (induction p) auto

lemma split_once_None: "split_once d s = None \<longleftrightarrow> d \<notin> set s"
  by (induction s) auto

text \<open>\<^verbatim>\<open>rfind\<close> of a character, as the text before and after its last occurrence.\<close>

definition rsplit_once :: "char \<Rightarrow> string \<Rightarrow> (string \<times> string) option" where
  "rsplit_once d s = map_option (\<lambda>(a, b). (rev b, rev a)) (split_once d (rev s))"

lemma rsplit_once_append: "d \<notin> set t \<Longrightarrow> rsplit_once d (s @ d # t) = Some (s, t)"
  by (simp add: rsplit_once_def split_once_append [of d "rev t" "rev s"])

section \<open>Decimal numbers\<close>

definition digit_char :: "nat \<Rightarrow> char" where
  "digit_char n = char_of (48 + n)"

fun show_nat :: "nat \<Rightarrow> string" where
  "show_nat n = (if n < 10 then [digit_char n] else show_nat (n div 10) @ [digit_char (n mod 10)])"

declare show_nat.simps [simp del]

definition is_digit :: "char \<Rightarrow> bool" where
  "is_digit c \<longleftrightarrow> 48 \<le> (of_char c :: nat) \<and> (of_char c :: nat) \<le> 57"

definition digit_val :: "char \<Rightarrow> nat" where
  "digit_val c = (of_char c :: nat) - 48"

definition digits_value :: "string \<Rightarrow> nat" where
  "digits_value s = foldl (\<lambda>n c. 10 * n + digit_val c) 0 s"

text \<open>\<^verbatim>\<open>str::parse::<u64>\<close>: an optional plus sign, at least one digit, no overflow.\<close>

definition parse_digits :: "nat \<Rightarrow> string \<Rightarrow> nat option" where
  "parse_digits bound s =
     (if s \<noteq> [] \<and> list_all is_digit s \<and> digits_value s \<le> bound then Some (digits_value s) else None)"

fun parse_uint :: "nat \<Rightarrow> string \<Rightarrow> nat option" where
  "parse_uint bound [] = None"
| "parse_uint bound (c # cs) = parse_digits bound (if c = CHR ''+'' then cs else c # cs)"

definition show_int :: "int \<Rightarrow> string" where
  "show_int i = (if i < 0 then CHR ''-'' # show_nat (nat (- i)) else show_nat (nat i))"

lemma of_char_digit: "n < 10 \<Longrightarrow> (of_char (digit_char n) :: nat) = 48 + n"
  by (simp add: digit_char_def)

lemma digit_char_props: "n < 10 \<Longrightarrow> is_digit (digit_char n) \<and> digit_val (digit_char n) = n"
  by (simp add: is_digit_def digit_val_def of_char_digit)

lemma show_nat_digits: "list_all is_digit (show_nat n)"
proof (induction n rule: show_nat.induct)
  case (1 n)
  then show ?case
    by (cases "n < 10") (auto simp: show_nat.simps [of n] digit_char_props)
qed

lemma show_nat_not_Nil [simp]: "show_nat n \<noteq> []"
  by (subst show_nat.simps) simp

lemma digits_value_show [simp]: "digits_value (show_nat n) = n"
proof (induction n rule: show_nat.induct)
  case (1 n)
  then show ?case
    by (cases "n < 10") (auto simp: show_nat.simps [of n] digits_value_def digit_char_props)
qed

lemma show_nat_inj [simp]: "show_nat m = show_nat n \<longleftrightarrow> m = n"
  by (metis digits_value_show)

lemma non_digit_not_in_show_nat: "\<not> is_digit c \<Longrightarrow> c \<notin> set (show_nat n)"
  using show_nat_digits [of n] by (auto simp: list_all_iff)

lemma parse_uint_show: "n \<le> bound \<Longrightarrow> parse_uint bound (show_nat n) = Some n"
proof -
  assume n: "n \<le> bound"
  have plus: "CHR ''+'' \<notin> set (show_nat n)"
    by (rule non_digit_not_in_show_nat) (simp add: is_digit_def)
  obtain c cs where s: "show_nat n = c # cs"
    by (meson neq_Nil_conv show_nat_not_Nil)
  with plus have "c \<noteq> CHR ''+''" by auto
  then have "parse_uint bound (show_nat n) = parse_digits bound (show_nat n)"
    by (simp add: s)
  then show ?thesis
    using n show_nat_digits [of n] by (simp add: parse_digits_def)
qed

lemma show_nat_head: "is_digit (hd (show_nat n))"
  by (metis hd_in_set list_all_iff show_nat_digits show_nat_not_Nil)

lemma minus_show_nat [simp]: "CHR ''-'' # s \<noteq> show_nat n"
proof
  assume "CHR ''-'' # s = show_nat n"
  then have "is_digit CHR ''-''"
    by (metis list.sel(1) show_nat_head)
  then show False by (simp add: is_digit_def)
qed

lemma show_int_inj [simp]: "show_int i = show_int j \<longleftrightarrow> i = j"
  by (auto simp: show_int_def minus_show_nat [symmetric] split: if_splits)

section \<open>Graph traversal\<close>

text \<open>
  The nodes a worklist traversal reaches from \<open>S\<close> when the nodes of \<open>V\<close> count as visited
  already. The two equations are the two branches of the loop body, whatever order the worklist
  has.
\<close>

inductive_set reach_av :: "('a \<Rightarrow> 'a set) \<Rightarrow> 'a set \<Rightarrow> 'a set \<Rightarrow> 'a set" for succs V S where
  start: "x \<in> S \<Longrightarrow> x \<notin> V \<Longrightarrow> x \<in> reach_av succs V S"
| step: "x \<in> reach_av succs V S \<Longrightarrow> y \<in> succs x \<Longrightarrow> y \<notin> V \<Longrightarrow> y \<in> reach_av succs V S"

lemma reach_av_visited: "x \<in> V \<Longrightarrow> reach_av succs V (insert x S) = reach_av succs V S"
proof (intro equalityI subsetI)
  fix y assume "y \<in> reach_av succs V (insert x S)" and "x \<in> V"
  then show "y \<in> reach_av succs V S"
    by (induction rule: reach_av.induct) (auto intro: reach_av.intros)
next
  fix y assume "y \<in> reach_av succs V S"
  then show "y \<in> reach_av succs V (insert x S)"
    by (induction rule: reach_av.induct) (auto intro: reach_av.intros)
qed

lemma reach_av_visit:
  assumes "x \<notin> V"
  shows "reach_av succs V (insert x S) = insert x (reach_av succs (insert x V) (succs x \<union> S))"
proof (intro equalityI subsetI)
  fix y assume "y \<in> reach_av succs V (insert x S)"
  then show "y \<in> insert x (reach_av succs (insert x V) (succs x \<union> S))"
    by (induction rule: reach_av.induct) (auto intro: reach_av.intros)
next
  fix y assume y: "y \<in> insert x (reach_av succs (insert x V) (succs x \<union> S))"
  have x: "x \<in> reach_av succs V (insert x S)" using assms by (auto intro: reach_av.start)
  have "z \<in> reach_av succs V (insert x S)" if "z \<in> reach_av succs (insert x V) (succs x \<union> S)" for z
    using that
    by (induction rule: reach_av.induct) (use x in \<open>auto intro: reach_av.intros\<close>)
  with x y show "y \<in> reach_av succs V (insert x S)" by blast
qed

lemma reach_av_empty [simp]: "reach_av succs V {} = {}"
proof -
  have "False" if "x \<in> reach_av succs V {}" for x
    using that by (induction rule: reach_av.induct) auto
  then show ?thesis by auto
qed

lemma reach_av_rtrancl:
  "reach_av succs {} {r} = {y. (r, y) \<in> {(x, y). y \<in> succs x}\<^sup>*}"
proof (intro equalityI subsetI)
  fix y assume "y \<in> reach_av succs {} {r}"
  then show "y \<in> {y. (r, y) \<in> {(x, y). y \<in> succs x}\<^sup>*}"
    by (induction rule: reach_av.induct) (auto intro: rtrancl_into_rtrancl)
next
  fix y assume "y \<in> {y. (r, y) \<in> {(x, y). y \<in> succs x}\<^sup>*}"
  then have "(r, y) \<in> {(x, y). y \<in> succs x}\<^sup>*" by simp
  then show "y \<in> reach_av succs {} {r}"
    by (induction rule: rtrancl_induct) (auto intro: reach_av.intros)
qed

end
