(* ===== verification/IntentLog.thy ===== *)
theory IntentLog
  imports Prelude "HOL-Library.AList" "HOL-Library.Product_Lexorder"
begin

text \<open>
  The write-ahead intent log (\<^verbatim>\<open>loomem-core/src/intent_log.rs\<close>): numbered intents appended to
  \<^verbatim>\<open>current.log\<close>, rotation into \<^verbatim>\<open>wal_<ts>_<rot>.log\<close> archives, the scan for intents that were
  never committed, and the garbage collection of archives. A log file is the list of its lines;
  the directory is the association list of its other files. The clock (\<^verbatim>\<open>now_millis\<close>) and the
  byte length of a serialised line are arguments. Disk failures of the operating system are not
  modelled; torn, unparseable and unreadable lines are.
\<close>

section \<open>Data\<close>

datatype op_type = Store | Delete | Purge | PurgeChunk | Consolidate

datatype op_status = Pending | Committed

record intent_entry =
  e_seq :: nat
  e_ts :: nat
  e_op :: op_type
  e_id :: string
  e_status :: op_status

text \<open>
  A line of a log file: a parsed entry, a blank line, a complete line that is not a valid entry, a
  line whose bytes cannot be read as text, or the unterminated fragment a crash left at the end.
\<close>

datatype log_line = Entry intent_entry | Blank | Unparseable | Unreadable | Torn

record intent_log_config =
  cfg_max_size_mb :: nat
  cfg_sync_on_write :: bool
  cfg_archive_max_age_days :: nat

record intent_log =
  log_dir :: "(string \<times> log_line list) list"
  log_current :: "log_line list"
  log_file_size :: nat
  log_next_seq :: nat
  log_rotate_counter :: nat
  log_max_size_bytes :: nat
  log_sync_on_write :: bool
  log_archive_max_age_ms :: nat

definition default_config :: intent_log_config where
  "default_config = \<lparr>cfg_max_size_mb = 10, cfg_sync_on_write = False,
     cfg_archive_max_age_days = 7\<rparr>"

section \<open>Archive names\<close>

definition archive_name :: "nat \<Rightarrow> nat \<Rightarrow> string" where
  "archive_name ts rot = ''wal_'' @ show_nat ts @ ''_'' @ show_nat rot @ ''.log''"

definition is_archive_name :: "string \<Rightarrow> bool" where
  "is_archive_name n \<longleftrightarrow> starts_with n ''wal_'' \<and> ends_with n ''.log''"

text \<open>\<^verbatim>\<open>Path::file_stem\<close> of a name ending in \<^verbatim>\<open>.log\<close>.\<close>

definition file_stem :: "string \<Rightarrow> string" where
  "file_stem n = take (length n - 4) n"

definition archive_parts :: "string \<Rightarrow> string list" where
  "archive_parts n =
     (case strip_prefix ''wal_'' (file_stem n) of None \<Rightarrow> [[]] | Some r \<Rightarrow> split_on (CHR ''_'') r)"

definition parse_part :: "string list \<Rightarrow> nat \<Rightarrow> nat option" where
  "parse_part ps i = (if i < length ps then parse_uint u64_max (ps ! i) else None)"

definition archive_order :: "string \<Rightarrow> nat \<times> nat" where
  "archive_order n =
     (let ps = archive_parts n
      in (case parse_part ps 0 of None \<Rightarrow> 0 | Some t \<Rightarrow> t,
          case parse_part ps 1 of None \<Rightarrow> 0 | Some r \<Rightarrow> r))"

definition archive_age_ms :: "string \<Rightarrow> nat \<Rightarrow> nat option" where
  "archive_age_ms n now =
     (case strip_prefix ''wal_'' (file_stem n) of None \<Rightarrow> None
      | Some r \<Rightarrow> map_option (\<lambda>ts. now - ts) (parse_part (split_on (CHR ''_'') r) 0))"

definition archived_logs :: "intent_log \<Rightarrow> (string \<times> log_line list) list" where
  "archived_logs l = filter (\<lambda>(n, _). is_archive_name n) (log_dir l)"

section \<open>Scanning\<close>

type_synonym scan_state = "(nat \<times> intent_entry) list \<times> nat set"

fun scan_line :: "scan_state \<Rightarrow> log_line \<Rightarrow> scan_state" where
  "scan_line (p, c) (Entry e) =
     (if e_status e = Pending \<and> e_seq e \<notin> c then (AList.update (e_seq e) e p, c)
      else if e_status e = Committed then (AList.delete (e_seq e) p, insert (e_seq e) c)
      else (p, c))"
| "scan_line (p, c) Blank = (p, c)"
| "scan_line (p, c) Unparseable = (p, c)"
| "scan_line (p, c) Unreadable = (p, c)"
| "scan_line (p, c) Torn = (p, c)"

definition scan_file :: "log_line list \<Rightarrow> scan_state \<Rightarrow> scan_state" where
  "scan_file ls st = foldl scan_line st ls"

text \<open>Archives in the order of their names' numbers, then the current file.\<close>

definition scan_sequence :: "intent_log \<Rightarrow> log_line list list" where
  "scan_sequence l =
     map snd (sort_key (\<lambda>(n, _). archive_order n) (archived_logs l)) @ [log_current l]"

definition scan_pending :: "intent_log \<Rightarrow> intent_entry list" where
  "scan_pending l =
     sort_key e_seq (map snd (fst (foldl (\<lambda>st ls. scan_file ls st) ([], {}) (scan_sequence l))))"

text \<open>\<^verbatim>\<open>scan_max_seq\<close> fails on a line it cannot read, unlike \<^verbatim>\<open>scan_file\<close>, which skips it.\<close>

fun scan_max_seq :: "log_line list \<Rightarrow> nat \<Rightarrow> nat res" where
  "scan_max_seq [] m = Inr m"
| "scan_max_seq (Entry e # ls) m = scan_max_seq ls (if e_seq e > m then e_seq e else m)"
| "scan_max_seq (Unreadable # ls) m = Inl (Err ''Failed to read log file'')"
| "scan_max_seq (_ # ls) m = scan_max_seq ls m"

fun scan_directory_max_seq :: "(string \<times> log_line list) list \<Rightarrow> nat \<Rightarrow> nat res" where
  "scan_directory_max_seq [] m = Inr m"
| "scan_directory_max_seq ((n, ls) # fs) m =
     (if n = ''current.log'' \<or> is_archive_name n
      then rbind (scan_max_seq ls 0) (\<lambda>k. scan_directory_max_seq fs (max m k))
      else scan_directory_max_seq fs m)"

section \<open>Operations\<close>

definition open_log ::
  "(log_line \<Rightarrow> nat) \<Rightarrow> (string \<times> log_line list) list \<Rightarrow> log_line list \<Rightarrow> intent_log_config
     \<Rightarrow> intent_log res" where
  "open_log llen dir cur cfg =
     rbind (scan_directory_max_seq (dir @ [(''current.log'', cur)]) 0) (\<lambda>existing.
       if existing + 1 > u64_max then Inl (Err ''Intent sequence exhausted'')
       else Inr \<lparr>log_dir = dir, log_current = cur, log_file_size = sum_list (map llen cur),
              log_next_seq = existing + 1, log_rotate_counter = 0,
              log_max_size_bytes = wrap64 (cfg_max_size_mb cfg * 1024 * 1024),
              log_sync_on_write = cfg_sync_on_write cfg,
              log_archive_max_age_ms =
                sat_mul64 (cfg_archive_max_age_days cfg) (24 * 60 * 60 * 1000)\<rparr>)"

lemma archive_name_inj_rot: "archive_name ts r = archive_name ts r' \<longleftrightarrow> r = r'"
  by (simp add: archive_name_def)

text \<open>The first free rotation number from the counter on; each probe consumes a number.\<close>

function find_rot :: "nat \<Rightarrow> string list \<Rightarrow> nat \<Rightarrow> nat" where
  "find_rot ts names r =
     (if archive_name ts r \<in> set names then find_rot ts names (Suc r) else r)"
  by pat_completeness auto

termination
proof (relation "measure (\<lambda>(ts, names, r). card {n \<in> set names. \<exists>k\<ge>r. n = archive_name ts k})")
  fix ts names r
  assume mem: "archive_name ts r \<in> set names"
  let ?A = "\<lambda>r. {n \<in> set names. \<exists>k\<ge>r. n = archive_name ts k}"
  have "?A (Suc r) \<subset> ?A r"
  proof
    show "?A (Suc r) \<subseteq> ?A r" by (auto intro: Suc_leD)
    show "?A (Suc r) \<noteq> ?A r"
    proof -
      have "archive_name ts r \<in> ?A r" using mem by auto
      moreover have "archive_name ts r \<notin> ?A (Suc r)" by (auto simp: archive_name_inj_rot)
      ultimately show ?thesis by blast
    qed
  qed
  then have "card (?A (Suc r)) < card (?A r)"
    by (intro psubset_card_mono) auto
  then show "((ts, names, Suc r), ts, names, r)
      \<in> measure (\<lambda>(ts, names, r). card {n \<in> set names. \<exists>k\<ge>r. n = archive_name ts k})"
    by simp
qed simp

declare find_rot.simps [simp del]

definition maybe_rotate :: "nat \<Rightarrow> intent_log \<Rightarrow> intent_log" where
  "maybe_rotate now l =
     (if log_file_size l < log_max_size_bytes l then l
      else let r = find_rot now (map fst (log_dir l)) (log_rotate_counter l)
           in l\<lparr>log_dir := log_dir l @ [(archive_name now r, log_current l)],
                log_current := [], log_file_size := 0, log_rotate_counter := Suc r\<rparr>)"

text \<open>
  Appending to a file that ends in an unterminated fragment completes that fragment: the two form
  one line that does not parse.
\<close>

definition append_line :: "log_line list \<Rightarrow> intent_entry \<Rightarrow> log_line list" where
  "append_line ls e =
     (if ls \<noteq> [] \<and> last ls = Torn then butlast ls @ [Unparseable] else ls @ [Entry e])"

definition write_entry :: "(log_line \<Rightarrow> nat) \<Rightarrow> nat \<Rightarrow> intent_entry \<Rightarrow> intent_log \<Rightarrow> intent_log" where
  "write_entry llen now e l =
     maybe_rotate now (l\<lparr>log_current := append_line (log_current l) e,
                         log_file_size := wrap64 (log_file_size l + llen (Entry e))\<rparr>)"

definition append_pending ::
  "(log_line \<Rightarrow> nat) \<Rightarrow> nat \<Rightarrow> op_type \<Rightarrow> string \<Rightarrow> intent_log \<Rightarrow> nat \<times> intent_log" where
  "append_pending llen now op cid l =
     (let s = log_next_seq l;
          e = \<lparr>e_seq = s, e_ts = now, e_op = op, e_id = cid, e_status = Pending\<rparr>
      in (s, write_entry llen now e (l\<lparr>log_next_seq := wrap64 (Suc s)\<rparr>)))"

definition mark_committed ::
  "(log_line \<Rightarrow> nat) \<Rightarrow> nat \<Rightarrow> nat \<Rightarrow> op_type \<Rightarrow> string \<Rightarrow> intent_log \<Rightarrow> intent_log" where
  "mark_committed llen now s op cid l =
     write_entry llen now
       \<lparr>e_seq = s, e_ts = now, e_op = op, e_id = cid, e_status = Committed\<rparr> l"

definition count_pending_in_archive :: "log_line list \<Rightarrow> nat" where
  "count_pending_in_archive ls =
     length (filter (\<lambda>x. case x of Entry e \<Rightarrow> e_status e = Pending | _ \<Rightarrow> False) ls)"

definition gc_removes :: "intent_log \<Rightarrow> nat \<Rightarrow> string \<times> log_line list \<Rightarrow> bool" where
  "gc_removes l now f =
     (is_archive_name (fst f) \<and>
      (count_pending_in_archive (snd f) = 0 \<or>
       (log_archive_max_age_ms l > 0 \<and>
        (case archive_age_ms (fst f) now of None \<Rightarrow> False
         | Some age \<Rightarrow> age > log_archive_max_age_ms l))))"

definition gc_old_logs :: "nat \<Rightarrow> intent_log \<Rightarrow> nat \<times> intent_log" where
  "gc_old_logs now l =
     (length (filter (gc_removes l now) (log_dir l)),
      l\<lparr>log_dir := filter (\<lambda>f. \<not> gc_removes l now f) (log_dir l)\<rparr>)"

section \<open>What a scan returns\<close>

definition committed_seqs :: "log_line list \<Rightarrow> nat set" where
  "committed_seqs ls = {e_seq e | e. Entry e \<in> set ls \<and> e_status e = Committed}"

definition pending_lines :: "log_line list \<Rightarrow> intent_entry set" where
  "pending_lines ls = {e. Entry e \<in> set ls \<and> e_status e = Pending}"

fun last_pending :: "log_line list \<Rightarrow> nat \<Rightarrow> intent_entry option" where
  "last_pending [] s = None"
| "last_pending (x # xs) s =
     (case last_pending xs s of Some e \<Rightarrow> Some e
      | None \<Rightarrow> (case x of Entry e \<Rightarrow> if e_status e = Pending \<and> e_seq e = s then Some e else None
                 | _ \<Rightarrow> None))"

lemma last_pending_snoc:
  "last_pending (xs @ [x]) s =
     (case x of Entry e \<Rightarrow> if e_status e = Pending \<and> e_seq e = s then Some e else last_pending xs s
      | _ \<Rightarrow> last_pending xs s)"
  by (induction xs) (auto split: log_line.splits option.splits)

lemma last_pending_Some: "last_pending ls s = Some e \<Longrightarrow> e \<in> pending_lines ls \<and> e_seq e = s"
  by (induction ls) (auto simp: pending_lines_def split: option.splits log_line.splits if_splits)

lemma last_pending_None: "last_pending ls s = None \<longleftrightarrow> (\<forall>e \<in> pending_lines ls. e_seq e \<noteq> s)"
  by (induction ls) (auto simp: pending_lines_def split: option.splits log_line.splits if_splits)

lemma committed_seqs_simps [simp]:
  "committed_seqs [] = {}"
  "committed_seqs (Entry e # ls) =
     (if e_status e = Committed then insert (e_seq e) (committed_seqs ls) else committed_seqs ls)"
  "committed_seqs (Blank # ls) = committed_seqs ls"
  "committed_seqs (Unparseable # ls) = committed_seqs ls"
  "committed_seqs (Unreadable # ls) = committed_seqs ls"
  "committed_seqs (Torn # ls) = committed_seqs ls"
  "committed_seqs (xs @ ys) = committed_seqs xs \<union> committed_seqs ys"
  by (auto simp: committed_seqs_def)

lemma pending_lines_simps [simp]:
  "pending_lines [] = {}"
  "pending_lines (Entry e # ls) =
     (if e_status e = Pending then insert e (pending_lines ls) else pending_lines ls)"
  "pending_lines (Blank # ls) = pending_lines ls"
  "pending_lines (Unparseable # ls) = pending_lines ls"
  "pending_lines (Unreadable # ls) = pending_lines ls"
  "pending_lines (Torn # ls) = pending_lines ls"
  "pending_lines (xs @ ys) = pending_lines xs \<union> pending_lines ys"
  by (auto simp: pending_lines_def)

text \<open>The scan keeps exactly the last pending line of every number with no commit anywhere.\<close>

lemma scan_file_spec:
  "case scan_file ls ([], {}) of (p, c) \<Rightarrow>
     distinct (map fst p) \<and> c = committed_seqs ls \<and>
     map_of p = (\<lambda>s. if s \<in> committed_seqs ls then None else last_pending ls s)"
proof (induction ls rule: rev_induct)
  case Nil
  show ?case by (auto simp: scan_file_def)
next
  case (snoc x xs)
  obtain p c where st: "scan_file xs ([], {}) = (p, c)" by force
  have snoc': "scan_file (xs @ [x]) ([], {}) = scan_line (p, c) x"
    using st by (simp add: scan_file_def)
  show ?case
  proof (cases x)
    case (Entry e)
    then show ?thesis
      using snoc.IH st snoc'
      by (cases "e_status e")
        (auto simp: last_pending_snoc update_conv' delete_conv' AList.distinct_update
            AList.distinct_delete fun_eq_iff)
  qed (use snoc.IH st snoc' in \<open>auto simp: last_pending_snoc\<close>)
qed

lemma foldl_scan_file: "foldl (\<lambda>st ls. scan_file ls st) st lss = scan_file (concat lss) st"
  by (induction lss arbitrary: st) (auto simp: scan_file_def)

definition all_lines :: "intent_log \<Rightarrow> log_line list" where
  "all_lines l = concat (map snd (archived_logs l)) @ log_current l"

definition scan_lines :: "intent_log \<Rightarrow> log_line list" where
  "scan_lines l = concat (scan_sequence l)"

lemma set_scan_lines [simp]: "set (scan_lines l) = set (all_lines l)"
  by (simp add: scan_lines_def all_lines_def scan_sequence_def)

lemma scan_lines_eqs [simp]:
  "committed_seqs (scan_lines l) = committed_seqs (all_lines l)"
  "pending_lines (scan_lines l) = pending_lines (all_lines l)"
  by (simp_all add: committed_seqs_def pending_lines_def)

lemma set_scan_pending:
  "set (scan_pending l) =
     {e. e_seq e \<notin> committed_seqs (all_lines l) \<and> last_pending (scan_lines l) (e_seq e) = Some e}"
proof -
  obtain p c where st: "scan_file (scan_lines l) ([], {}) = (p, c)" by force
  have sp: "distinct (map fst p)"
    "map_of p = (\<lambda>s. if s \<in> committed_seqs (all_lines l) then None else last_pending (scan_lines l) s)"
    using scan_file_spec [of "scan_lines l"] st by auto
  have "set (scan_pending l) = snd ` set p"
    using st by (simp add: scan_pending_def foldl_scan_file scan_lines_def)
  also have "\<dots> = {e. \<exists>s. map_of p s = Some e}"
    using sp(1) by (force simp: map_of_eq_Some_iff)
  finally show ?thesis
    using sp(2) by (auto dest: last_pending_Some split: if_splits)
qed

lemma scan_pending_sorted: "sorted (map e_seq (scan_pending l))"
  by (simp add: scan_pending_def)

lemma scan_pending_distinct: "distinct (map e_seq (scan_pending l))"
proof -
  obtain p c where st: "scan_file (scan_lines l) ([], {}) = (p, c)" by force
  have sp: "distinct (map fst p)"
    "map_of p = (\<lambda>s. if s \<in> committed_seqs (all_lines l) then None else last_pending (scan_lines l) s)"
    using scan_file_spec [of "scan_lines l"] st by auto
  have "map e_seq (map snd p) = map fst p"
  proof -
    have "e_seq (snd q) = fst q" if "q \<in> set p" for q
    proof -
      have "map_of p (fst q) = Some (snd q)" using that sp(1) by (simp add: map_of_eq_Some_iff)
      then show ?thesis by (auto simp: sp(2) dest: last_pending_Some split: if_splits)
    qed
    then show ?thesis by simp
  qed
  then have "distinct (map e_seq (map snd p))" using sp(1) by argo
  then have "distinct (map e_seq (sort_key e_seq (map snd p)))"
    by (metis distinct_map distinct_sort set_sort)
  then show ?thesis
    using st by (simp add: scan_pending_def foldl_scan_file scan_lines_def)
qed

section \<open>Well-formed logs\<close>

definition issued :: "intent_log \<Rightarrow> nat set" where
  "issued l = {e_seq e | e. Entry e \<in> set (all_lines l)}"

definition log_wf :: "intent_log \<Rightarrow> bool" where
  "log_wf l \<longleftrightarrow> (\<forall>s \<in> issued l. s < log_next_seq l) \<and> inj_on e_seq (pending_lines (all_lines l))"

definition torn :: "intent_log \<Rightarrow> bool" where
  "torn l \<longleftrightarrow> log_current l \<noteq> [] \<and> last (log_current l) = Torn"

text \<open>The intents that still have to be replayed, as a set: the abstract state of the log.\<close>

definition open_intents :: "intent_log \<Rightarrow> intent_entry set" where
  "open_intents l = {e \<in> pending_lines (all_lines l). e_seq e \<notin> committed_seqs (all_lines l)}"

lemma wf_scan_pending: "log_wf l \<Longrightarrow> set (scan_pending l) = open_intents l"
proof -
  assume wf: "log_wf l"
  have "last_pending (scan_lines l) (e_seq e) = Some e" if e: "e \<in> pending_lines (all_lines l)" for e
  proof -
    obtain e' where e': "last_pending (scan_lines l) (e_seq e) = Some e'"
      using e last_pending_None [of "scan_lines l" "e_seq e"] by fastforce
    then have "e' \<in> pending_lines (all_lines l)" "e_seq e' = e_seq e"
      using last_pending_Some [OF e'] by auto
    with e wf have "e' = e" by (auto simp: log_wf_def inj_on_def)
    with e' show ?thesis by simp
  qed
  then show ?thesis
    by (auto simp: set_scan_pending open_intents_def dest: last_pending_Some)
qed

lemma all_lines_maybe_rotate [simp]: "set (all_lines (maybe_rotate now l)) = set (all_lines l)"
  by (auto simp: maybe_rotate_def all_lines_def archived_logs_def Let_def is_archive_name_def
      archive_name_def suffix_def)

lemma maybe_rotate_next_seq [simp]: "log_next_seq (maybe_rotate now l) = log_next_seq l"
  by (simp add: maybe_rotate_def Let_def)

lemma set_eq_lines:
  assumes "set xs = set ys"
  shows "committed_seqs xs = committed_seqs ys" "pending_lines xs = pending_lines ys"
  using assms by (simp_all add: committed_seqs_def pending_lines_def)

lemma lines_write_entry:
  "\<not> torn l \<Longrightarrow> set (all_lines (write_entry llen now e l)) = insert (Entry e) (set (all_lines l))"
proof -
  assume t: "\<not> torn l"
  let ?l = "l\<lparr>log_current := append_line (log_current l) e,
             log_file_size := wrap64 (log_file_size l + llen (Entry e))\<rparr>"
  have "set (all_lines (write_entry llen now e l)) = set (all_lines ?l)"
    unfolding write_entry_def by (rule all_lines_maybe_rotate)
  also have "\<dots> = insert (Entry e) (set (all_lines l))"
    using t by (auto simp: append_line_def torn_def all_lines_def archived_logs_def)
  finally show ?thesis .
qed

lemma committed_write:
  "\<not> torn l \<Longrightarrow> committed_seqs (all_lines (write_entry llen now e l)) =
     (if e_status e = Committed then insert (e_seq e) (committed_seqs (all_lines l))
      else committed_seqs (all_lines l))"
  using lines_write_entry [of l llen now e] by (auto simp: committed_seqs_def)

lemma pending_write:
  "\<not> torn l \<Longrightarrow> pending_lines (all_lines (write_entry llen now e l)) =
     (if e_status e = Pending then insert e (pending_lines (all_lines l))
      else pending_lines (all_lines l))"
  using lines_write_entry [of l llen now e] by (auto simp: pending_lines_def)

lemma issued_write:
  "\<not> torn l \<Longrightarrow> issued (write_entry llen now e l) = insert (e_seq e) (issued l)"
  using lines_write_entry [of l llen now e] by (auto simp: issued_def)

lemma write_next_seq [simp]: "log_next_seq (write_entry llen now e l) = log_next_seq l"
  by (simp add: write_entry_def)

lemma next_seq_update [simp]:
  "all_lines (l\<lparr>log_next_seq := n\<rparr>) = all_lines l"
  "torn (l\<lparr>log_next_seq := n\<rparr>) = torn l"
  "issued (l\<lparr>log_next_seq := n\<rparr>) = issued l"
  by (simp_all add: all_lines_def archived_logs_def torn_def issued_def)

lemmas write_facts = committed_write pending_write issued_write

lemma seq_bounds:
  "e \<in> pending_lines (all_lines l) \<Longrightarrow> e_seq e \<in> issued l"
  "s \<in> committed_seqs (all_lines l) \<Longrightarrow> s \<in> issued l"
  by (auto simp: pending_lines_def committed_seqs_def issued_def)

lemma append_pending_wf:
  assumes "log_wf l" "\<not> torn l" "log_next_seq l < u64_max"
  shows "log_wf (snd (append_pending llen now op cid l))"
  using assms seq_bounds(1) [of _ l]
  by (fastforce simp: append_pending_def Let_def log_wf_def write_facts inj_on_def less_Suc_eq)

lemma mark_committed_wf:
  assumes "log_wf l" "\<not> torn l" "s < log_next_seq l"
  shows "log_wf (mark_committed llen now s op cid l)"
  using assms by (auto simp: mark_committed_def log_wf_def write_facts)

lemma append_pending_open:
  assumes "log_wf l" "\<not> torn l" "log_next_seq l < u64_max"
  shows "open_intents (snd (append_pending llen now op cid l)) =
     insert \<lparr>e_seq = log_next_seq l, e_ts = now, e_op = op, e_id = cid, e_status = Pending\<rparr>
       (open_intents l)"
  using assms seq_bounds(2) [of _ l]
  by (fastforce simp: append_pending_def Let_def log_wf_def write_facts open_intents_def)

lemma mark_committed_open:
  assumes "\<not> torn l"
  shows "open_intents (mark_committed llen now s op cid l) = {e \<in> open_intents l. e_seq e \<noteq> s}"
  using assms by (auto simp: mark_committed_def write_facts open_intents_def)

lemma gc_lines_subset: "set (all_lines (snd (gc_old_logs now l))) \<subseteq> set (all_lines l)"
  by (auto simp: all_lines_def gc_old_logs_def archived_logs_def)

lemma gc_wf: "log_wf l \<Longrightarrow> log_wf (snd (gc_old_logs now l))"
proof -
  assume wf: "log_wf l"
  have "issued (snd (gc_old_logs now l)) \<subseteq> issued l"
    using gc_lines_subset [of now l] by (auto simp: issued_def)
  moreover have "pending_lines (all_lines (snd (gc_old_logs now l))) \<subseteq> pending_lines (all_lines l)"
    using gc_lines_subset [of now l] by (auto simp: pending_lines_def)
  moreover have "log_next_seq (snd (gc_old_logs now l)) = log_next_seq l"
    by (simp add: gc_old_logs_def)
  ultimately show ?thesis
    using wf by (auto simp: log_wf_def intro: inj_on_subset)
qed

lemma count_pending_0: "count_pending_in_archive ls = 0 \<longleftrightarrow> pending_lines ls = {}"
  by (auto simp: count_pending_in_archive_def pending_lines_def filter_empty_conv
      split: log_line.splits)

lemma gc_pending_kept:
  assumes "log_archive_max_age_ms l = 0"
  shows "pending_lines (all_lines (snd (gc_old_logs now l))) = pending_lines (all_lines l)"
proof -
  have "x \<in> set (all_lines (snd (gc_old_logs now l)))"
    if x: "x = Entry e" "e_status e = Pending" "x \<in> set (all_lines l)" for x e
  proof (cases "x \<in> set (log_current l)")
    case True
    then show ?thesis by (simp add: all_lines_def gc_old_logs_def)
  next
    case False
    with x(3) obtain f where f: "f \<in> set (log_dir l)" "is_archive_name (fst f)" "x \<in> set (snd f)"
      by (auto simp: all_lines_def archived_logs_def)
    then have "count_pending_in_archive (snd f) \<noteq> 0"
      using x by (auto simp: count_pending_0 pending_lines_def)
    with assms have "\<not> gc_removes l now f" by (simp add: gc_removes_def)
    with f show ?thesis
      by (force simp: all_lines_def archived_logs_def gc_old_logs_def)
  qed
  then show ?thesis
    using gc_lines_subset [of now l] by (auto simp: pending_lines_def)
qed

lemma torn_write:
  assumes "torn l"
  shows "committed_seqs (all_lines (write_entry llen now e l)) = committed_seqs (all_lines l)"
    "pending_lines (all_lines (write_entry llen now e l)) = pending_lines (all_lines l)"
    "issued (write_entry llen now e l) = issued l"
proof -
  obtain ls where ls: "log_current l = ls @ [Torn]"
    using assms by (metis append_butlast_last_id torn_def)
  let ?l = "l\<lparr>log_current := append_line (log_current l) e,
             log_file_size := wrap64 (log_file_size l + llen (Entry e))\<rparr>"
  have eq: "set (all_lines (write_entry llen now e l)) = set (all_lines ?l)"
    unfolding write_entry_def by (rule all_lines_maybe_rotate)
  show "committed_seqs (all_lines (write_entry llen now e l)) = committed_seqs (all_lines l)"
    and "pending_lines (all_lines (write_entry llen now e l)) = pending_lines (all_lines l)"
    and "issued (write_entry llen now e l) = issued l"
    using eq ls by (auto simp: committed_seqs_def pending_lines_def issued_def all_lines_def
        archived_logs_def append_line_def)
qed

lemma append_pending_torn_wf:
  assumes "log_wf l" "log_next_seq l < u64_max"
  shows "log_wf (snd (append_pending llen now op cid l))"
proof (cases "torn l")
  case True
  with assms show ?thesis
    by (auto simp: append_pending_def Let_def log_wf_def torn_write)
qed (use assms append_pending_wf in blast)

lemma mark_committed_torn_wf:
  assumes "log_wf l" "s < log_next_seq l"
  shows "log_wf (mark_committed llen now s op cid l)"
proof (cases "torn l")
  case True
  with assms show ?thesis by (auto simp: mark_committed_def log_wf_def torn_write)
qed (use assms mark_committed_wf in blast)

lemma scan_max_seq_bound:
  "scan_max_seq ls m = Inr k \<Longrightarrow> m \<le> k \<and> (\<forall>e. Entry e \<in> set ls \<longrightarrow> e_seq e \<le> k)"
  by (induction ls m rule: scan_max_seq.induct) (fastforce split: if_splits)+

lemma scan_directory_bound:
  "scan_directory_max_seq fs m = Inr k \<Longrightarrow>
     m \<le> k \<and> (\<forall>(n, ls) \<in> set fs. n = ''current.log'' \<or> is_archive_name n \<longrightarrow>
        (\<forall>e. Entry e \<in> set ls \<longrightarrow> e_seq e \<le> k))"
proof (induction fs m rule: scan_directory_max_seq.induct)
  case (2 n ls fs m)
  show ?case
  proof (cases "n = ''current.log'' \<or> is_archive_name n")
    case True
    with "2.prems" obtain j where j: "scan_max_seq ls 0 = Inr j"
      "scan_directory_max_seq fs (max m j) = Inr k" by auto
    from "2.IH"(1) [OF True] j have "max m j \<le> k \<and> (\<forall>(n, ls) \<in> set fs.
        n = ''current.log'' \<or> is_archive_name n \<longrightarrow> (\<forall>e. Entry e \<in> set ls \<longrightarrow> e_seq e \<le> k))"
      by blast
    with scan_max_seq_bound [OF j(1)] show ?thesis by fastforce
  qed (use 2 in auto)
qed simp

lemma open_log_seqs:
  assumes "open_log llen dir cur cfg = Inr l"
  shows "\<forall>s \<in> issued l. s < log_next_seq l"
    and "log_next_seq l \<le> u64_max" and "log_dir l = dir" and "log_current l = cur"
proof -
  obtain k where k: "scan_directory_max_seq (dir @ [(''current.log'', cur)]) 0 = Inr k"
    and l: "log_dir l = dir" "log_current l = cur" "log_next_seq l = Suc k" "Suc k \<le> u64_max"
    using assms by (auto simp: open_log_def split: if_splits)
  have "e_seq e \<le> k" if "Entry e \<in> set (all_lines l)" for e
    using scan_directory_bound [OF k] that l
    by (fastforce simp: all_lines_def archived_logs_def)
  with l show "\<forall>s \<in> issued l. s < log_next_seq l"
    and "log_next_seq l \<le> u64_max" and "log_dir l = dir" and "log_current l = cur"
    by (auto simp: issued_def less_Suc_eq_le)
qed

section \<open>The log as a state machine\<close>

text \<open>
  One rule per thing that can happen to the log: it is opened in an empty directory, an intent is
  appended, an issued number is committed, the garbage collector runs, and the process stops
  (possibly leaving a torn line) and opens the same directory again.
\<close>

inductive log_reach :: "(log_line \<Rightarrow> nat) \<Rightarrow> intent_log \<Rightarrow> bool" for llen where
  fresh: "open_log llen [] [] cfg = Inr l \<Longrightarrow> log_reach llen l"
| append: "log_reach llen l \<Longrightarrow> log_next_seq l < u64_max \<Longrightarrow>
     log_reach llen (snd (append_pending llen now op cid l))"
| commit: "log_reach llen l \<Longrightarrow> s < log_next_seq l \<Longrightarrow>
     log_reach llen (mark_committed llen now s op cid l)"
| gc: "log_reach llen l \<Longrightarrow> log_reach llen (snd (gc_old_logs now l))"
| reopen: "log_reach llen l \<Longrightarrow> cur = log_current l \<or> cur = log_current l @ [Torn] \<Longrightarrow>
     open_log llen (log_dir l) cur cfg = Inr l' \<Longrightarrow> log_reach llen l'"

lemma log_reach_wf: "log_reach llen l \<Longrightarrow> log_wf l"
proof (induction rule: log_reach.induct)
  case (fresh cfg l)
  then show ?case
    using open_log_seqs [OF fresh]
    by (auto simp: log_wf_def all_lines_def archived_logs_def)
next
  case (reopen l cur cfg l')
  have "pending_lines (all_lines l') = pending_lines (all_lines l)"
    using reopen.hyps(2) open_log_seqs(3,4) [OF reopen.hyps(3)]
    by (auto simp: all_lines_def archived_logs_def)
  with reopen.IH open_log_seqs(1) [OF reopen.hyps(3)] show ?case
    by (simp add: log_wf_def)
qed (simp_all add: append_pending_torn_wf mark_committed_torn_wf gc_wf)

section \<open>Properties\<close>


definition w_llen :: "log_line \<Rightarrow> nat" where
  "w_llen x = 64"

definition w_log0 :: intent_log where
  "w_log0 = \<lparr>log_dir = [], log_current = [], log_file_size = 0, log_next_seq = 1,
     log_rotate_counter = 0, log_max_size_bytes = 10485760, log_sync_on_write = False,
     log_archive_max_age_ms = 604800000\<rparr>"

lemma w_log0_reach: "log_reach w_llen w_log0"
proof (rule log_reach.fresh)
  show "open_log w_llen [] [] default_config = Inr w_log0"
    by (simp add: open_log_def default_config_def w_log0_def sat_mul64_def)
qed




text \<open>With age-based retention off, garbage collection loses no intent that recovery would
  replay.\<close>

theorem gc_keeps_open_intents:
  assumes "log_reach llen l" "log_archive_max_age_ms l = 0"
  shows "set (scan_pending l) \<subseteq> set (scan_pending (snd (gc_old_logs now l)))"
proof -
  have wf: "log_wf l" "log_wf (snd (gc_old_logs now l))"
    using assms log_reach_wf gc_wf by auto
  have "committed_seqs (all_lines (snd (gc_old_logs now l))) \<subseteq> committed_seqs (all_lines l)"
    using gc_lines_subset [of now l] by (auto simp: committed_seqs_def)
  then show ?thesis
    using gc_pending_kept [OF assms(2)] wf by (auto simp: wf_scan_pending open_intents_def)
qed

definition w_cfg0 :: intent_log_config where
  "w_cfg0 = \<lparr>cfg_max_size_mb = 0, cfg_sync_on_write = False, cfg_archive_max_age_days = 0\<rparr>"

definition w_log1 :: intent_log where
  "w_log1 = \<lparr>log_dir = [], log_current = [], log_file_size = 0, log_next_seq = 1,
     log_rotate_counter = 0, log_max_size_bytes = 0, log_sync_on_write = False,
     log_archive_max_age_ms = 0\<rparr>"

lemma w_log1_reach: "log_reach w_llen w_log1"
proof (rule log_reach.fresh)
  show "open_log w_llen [] [] w_cfg0 = Inr w_log1"
    by (simp add: open_log_def w_cfg0_def w_log1_def sat_mul64_def)
qed

theorem gc_keeps_open_intents_witness:
  "set (scan_pending w_log1) \<subseteq> set (scan_pending (snd (gc_old_logs 9 w_log1)))"
  by (rule gc_keeps_open_intents [OF w_log1_reach]) (simp add: w_log1_def)

lemma is_archive_archive_name [simp]: "is_archive_name (archive_name ts r)"
  by (simp add: is_archive_name_def archive_name_def suffix_def)

lemma singleton_by_set: "distinct (map f xs) \<Longrightarrow> set xs = {x} \<Longrightarrow> xs = [x]"
  by (cases xs; cases "tl xs") (auto simp: neq_Nil_conv)

lemmas rotation_facts = append_pending_def mark_committed_def write_entry_def maybe_rotate_def
  append_line_def w_log1_def all_lines_def archived_logs_def Let_def

text \<open>Garbage collection can bring a committed intent back. When a rotation falls between the
  pending line and its commit line, the archive that holds only the commit line counts as fully
  committed and is removed, and the next recovery scan reports the intent as pending again.\<close>

theorem gc_resurrects_committed_intent:
  "\<exists>l. log_reach w_llen l \<and> scan_pending l = [] \<and>
     scan_pending (snd (gc_old_logs 7 l)) =
       [\<lparr>e_seq = 1, e_ts = 5, e_op = Purge, e_id = ''s'', e_status = Pending\<rparr>]"
proof -
  let ?a = "snd (append_pending w_llen 5 Purge ''s'' w_log1)"
  let ?l = "mark_committed w_llen 6 1 Purge ''s'' ?a"
  have a: "log_reach w_llen ?a"
    by (rule log_reach.append [OF w_log1_reach]) (simp add: w_log1_def)
  have "log_reach w_llen ?l"
    by (rule log_reach.commit [OF a]) (simp add: append_pending_def w_log1_def)
  moreover have "scan_pending ?l = []"
    using log_reach_wf [OF \<open>log_reach w_llen ?l\<close>]
    by (simp add: wf_scan_pending open_intents_def rotation_facts flip: set_empty)
  moreover have "scan_pending (snd (gc_old_logs 7 ?l)) =
      [\<lparr>e_seq = 1, e_ts = 5, e_op = Purge, e_id = ''s'', e_status = Pending\<rparr>]"
  proof (rule singleton_by_set [OF scan_pending_distinct])
    have "log_wf (snd (gc_old_logs 7 ?l))"
      using gc_wf [OF log_reach_wf [OF \<open>log_reach w_llen ?l\<close>]] .
    then show "set (scan_pending (snd (gc_old_logs 7 ?l))) =
        {\<lparr>e_seq = 1, e_ts = 5, e_op = Purge, e_id = ''s'', e_status = Pending\<rparr>}"
      by (simp add: wf_scan_pending open_intents_def rotation_facts gc_old_logs_def gc_removes_def
          count_pending_in_archive_def)
  qed
  ultimately show ?thesis by blast
qed

text \<open>A rotation never overwrites an existing file: the archive name it picks is new in the
  directory, it is the first free one from the counter on, and no line is lost.\<close>

theorem rotation_is_fresh:
  "archive_name ts (find_rot ts names r) \<notin> set names \<and> r \<le> find_rot ts names r \<and>
   (\<forall>k. r \<le> k \<and> k < find_rot ts names r \<longrightarrow> archive_name ts k \<in> set names) \<and>
   set (all_lines (maybe_rotate ts l)) = set (all_lines l)"
proof -
  have "archive_name ts (find_rot ts names r) \<notin> set names \<and> r \<le> find_rot ts names r \<and>
     (\<forall>k. r \<le> k \<and> k < find_rot ts names r \<longrightarrow> archive_name ts k \<in> set names)"
  proof (induction ts names r rule: find_rot.induct)
    case (1 ts names r)
    show ?case
    proof (cases "archive_name ts r \<in> set names")
      case True
      with 1 show ?thesis
        by (auto simp: find_rot.simps [of ts names r]) (metis Suc_leI le_neq_implies_less)
    next
      case False
      then show ?thesis by (auto simp: find_rot.simps [of ts names r])
    qed
  qed
  then show ?thesis by simp
qed

theorem rotation_is_fresh_witness:
  "archive_name 5 (find_rot 5 [archive_name 5 0] 0) \<notin> set [archive_name 5 0]"
  using rotation_is_fresh [of 5 "[archive_name 5 0]" 0 w_log1] by blast

end
