(* ===== verification/KV.thy ===== *)
theory KV
  imports Prelude
begin

text \<open>
  The contract of the embedded key-value store. RocksDB is not part of the repository: the code
  relies on a finite map from byte strings to values with point reads, writes and deletes, on
  atomic write batches, and on iteration in byte order. The locale states that contract, its
  lemmas (what a batch leaves at a key, what a prefix scan returns) are proved once, and it is
  interpreted on the ordered association list that represents the state of a column family.
\<close>

section \<open>The contract\<close>

datatype 'v batch_op = BPut string 'v | BDel string

locale kv_store =
  fixes rd :: "'d \<Rightarrow> string \<Rightarrow> 'v option"
    and wr :: "string \<Rightarrow> 'v \<Rightarrow> 'd \<Rightarrow> 'd"
    and del :: "string \<Rightarrow> 'd \<Rightarrow> 'd"
    and rows :: "'d \<Rightarrow> (string \<times> 'v) list"
    and inv :: "'d \<Rightarrow> bool"
  assumes rd_wr: "rd (wr k v d) = (rd d)(k \<mapsto> v)"
    and rd_del: "rd (del k d) = (rd d)(k := None)"
    and rd_rows: "inv d \<Longrightarrow> rd d k = Some v \<longleftrightarrow> (k, v) \<in> set (rows d)"
    and rows_sorted: "inv d \<Longrightarrow> sorted_wrt (<) (map fst (rows d))"
    and inv_wr: "inv d \<Longrightarrow> inv (wr k v d)"
    and inv_del: "inv d \<Longrightarrow> inv (del k d)"
begin

fun run_op :: "'v batch_op \<Rightarrow> 'd \<Rightarrow> 'd" where
  "run_op (BPut k v) d = wr k v d"
| "run_op (BDel k) d = del k d"

fun op_effect :: "'v batch_op \<Rightarrow> (string \<Rightarrow> 'v option) \<Rightarrow> string \<Rightarrow> 'v option" where
  "op_effect (BPut k v) m = m(k \<mapsto> v)"
| "op_effect (BDel k) m = m(k := None)"

lemma rd_run_op: "rd (run_op b d) = op_effect b (rd d)"
  by (cases b) (simp_all add: rd_wr rd_del)

lemma rd_batch: "rd (fold run_op bs d) = fold op_effect bs (rd d)"
  by (induction bs arbitrary: d) (simp_all add: rd_run_op)

lemma inv_batch: "inv d \<Longrightarrow> inv (fold run_op bs d)"
proof (induction bs arbitrary: d)
  case (Cons b bs)
  then show ?case by (cases b) (auto simp: inv_wr inv_del)
qed simp

lemma batch_untouched:
  "(\<forall>b \<in> set bs. case b of BPut k' v \<Rightarrow> k' \<noteq> k | BDel k' \<Rightarrow> k' \<noteq> k) \<Longrightarrow>
     rd (fold run_op bs d) k = rd d k"
proof (induction bs arbitrary: d)
  case (Cons b bs)
  then show ?case by (cases b) (auto simp: rd_wr rd_del)
qed simp

lemma batch_deletes:
  "(\<forall>b \<in> set bs. case b of BPut k' v \<Rightarrow> k' \<noteq> k | BDel k' \<Rightarrow> True) \<Longrightarrow>
     rd (fold run_op bs d) k = (if BDel k \<in> set bs then None else rd d k)"
proof (induction bs arbitrary: d)
  case (Cons b bs)
  then show ?case by (cases b) (auto simp: rd_wr rd_del)
qed simp

lemma batch_puts:
  "(\<forall>b \<in> set bs. case b of BPut k' v' \<Rightarrow> k' = k \<longrightarrow> v' = v | BDel k' \<Rightarrow> k' \<noteq> k) \<Longrightarrow>
     rd (fold run_op bs d) k = (if BPut k v \<in> set bs then Some v else rd d k)"
proof (induction bs arbitrary: d)
  case (Cons b bs)
  have IH: "rd (fold run_op bs (run_op b d)) k = (if BPut k v \<in> set bs then Some v else rd (run_op b d) k)"
    by (rule Cons.IH) (use Cons.prems in simp)
  show ?case
  proof (cases b)
    case (BPut k' v')
    then have "k' = k \<Longrightarrow> v' = v" using Cons.prems by simp
    then show ?thesis using IH BPut by (cases "k' = k") (simp_all add: rd_wr)
  next
    case (BDel k')
    then have "k' \<noteq> k" using Cons.prems by simp
    then show ?thesis using IH BDel by (simp add: rd_del)
  qed
qed simp

lemma scan_complete: "inv d \<Longrightarrow> (k, v) \<in> set (filter (\<lambda>r. P (fst r)) (rows d)) \<longleftrightarrow> P k \<and> rd d k = Some v"
  by (auto simp: rd_rows)

end

section \<open>The state of a column family\<close>

type_synonym 'v cf = "(string \<times> 'v) list"

abbreviation kv_get :: "'v cf \<Rightarrow> string \<Rightarrow> 'v option" where
  "kv_get d \<equiv> map_of d"

fun kv_put :: "string \<Rightarrow> 'v \<Rightarrow> 'v cf \<Rightarrow> 'v cf" where
  "kv_put k v [] = [(k, v)]"
| "kv_put k v ((k', v') # d) =
     (if k < k' then (k, v) # (k', v') # d
      else if k = k' then (k, v) # d else (k', v') # kv_put k v d)"

definition kv_delete :: "string \<Rightarrow> 'v cf \<Rightarrow> 'v cf" where
  "kv_delete k d = filter (\<lambda>(k', _). k' \<noteq> k) d"

definition kv_sorted :: "'v cf \<Rightarrow> bool" where
  "kv_sorted d \<longleftrightarrow> sorted_wrt (<) (map fst d)"

definition kv_prefix :: "string \<Rightarrow> 'v cf \<Rightarrow> 'v cf" where
  "kv_prefix p d = filter (\<lambda>(k, _). starts_with k p) d"

text \<open>
  \<^verbatim>\<open>prefix_iterator\<close> on a database with no prefix extractor starts at the first key not below the
  prefix and runs to the end; callers that want the prefix only stop by themselves.
\<close>

definition kv_from :: "string \<Rightarrow> 'v cf \<Rightarrow> 'v cf" where
  "kv_from p d = filter (\<lambda>(k, _). p \<le> k) d"

lemma map_of_kv_put: "map_of (kv_put k v d) = (map_of d)(k \<mapsto> v)"
  by (induction k v d rule: kv_put.induct) (auto simp: fun_eq_iff)

lemma map_of_kv_delete: "map_of (kv_delete k d) = (map_of d)(k := None)"
  by (induction d) (auto simp: kv_delete_def fun_eq_iff)

lemma set_kv_put: "fst ` set (kv_put k v d) = insert k (fst ` set d)"
  by (induction k v d rule: kv_put.induct) auto

lemma kv_sorted_put: "kv_sorted d \<Longrightarrow> kv_sorted (kv_put k v d)"
proof (induction k v d rule: kv_put.induct)
  case (2 k v k' v' d)
  have "fst ` set (kv_put k v d) = insert k (fst ` set d)" by (rule set_kv_put)
  with 2 show ?case
    by (fastforce simp: kv_sorted_def)
qed (simp add: kv_sorted_def)

lemma kv_sorted_delete: "kv_sorted d \<Longrightarrow> kv_sorted (kv_delete k d)"
  by (induction d) (auto simp: kv_sorted_def kv_delete_def)

lemma kv_get_rows: "kv_sorted d \<Longrightarrow> kv_get d k = Some v \<longleftrightarrow> (k, v) \<in> set d"
  by (simp add: kv_sorted_def map_of_eq_Some_iff strict_sorted_iff)

interpretation rocks: kv_store map_of kv_put kv_delete "\<lambda>d. d" kv_sorted
  by unfold_locales
    (auto simp: map_of_kv_put map_of_kv_delete kv_get_rows kv_sorted_put kv_sorted_delete,
     simp add: kv_sorted_def)

text \<open>A write batch is applied in order, all of it or nothing.\<close>

abbreviation kv_batch :: "'v batch_op list \<Rightarrow> 'v cf \<Rightarrow> 'v cf" where
  "kv_batch bs d \<equiv> fold rocks.run_op bs d"

lemma kv_prefix_get: "kv_sorted d \<Longrightarrow> (k, v) \<in> set (kv_prefix p d) \<longleftrightarrow> starts_with k p \<and> kv_get d k = Some v"
  using rocks.scan_complete [of d k v "\<lambda>k. starts_with k p"]
  by (simp add: kv_prefix_def case_prod_beta')

end
