(* ===== verification/ScanLog.thy ===== *)
theory ScanLog
  imports Prelude
begin

text \<open>
  Decode-failure accounting of chunk scans (\<^verbatim>\<open>loomem-core/src/storage/scan_log.rs\<close>): the
  classification of a decode error by its context chain and the per-scan accumulator. The log
  lines themselves are not modelled; the level the summary is logged at is.
\<close>

datatype decode_fail_stage = Envelope | Decrypt | Payload

record scan_summary =
  ss_scan :: string
  ss_scanned :: nat
  ss_undecodable :: nat
  ss_envelope :: nat
  ss_decrypt :: nat
  ss_payload :: nat
  ss_first_error :: "string option"
  ss_at_unix :: nat

record scan_decode_log =
  sl_scan :: string
  sl_scanned :: nat
  sl_envelope :: nat
  sl_decrypt :: nat
  sl_payload :: nat
  sl_first_error :: "string option"

definition contains_str :: "string \<Rightarrow> string \<Rightarrow> bool" where
  "contains_str s sub \<longleftrightarrow> list_ex (prefix sub) (suffixes s)"

definition envelope_msg :: string where "envelope_msg = ''Failed to deserialize chunk envelope''"
definition decrypt_msg :: string where "decrypt_msg = ''Failed to decrypt chunk payload''"
definition payload_msg :: string where "payload_msg = ''Failed to deserialize chunk payload''"

definition classify_decode_error :: "err \<Rightarrow> decode_fail_stage" where
  "classify_decode_error e =
     (case e of Err chain \<Rightarrow>
        if contains_str chain envelope_msg then Envelope
        else if contains_str chain decrypt_msg then Decrypt
        else Payload)"

definition first_error_cap :: nat where "first_error_cap = 300"

definition canonical_full_scan :: string where "canonical_full_scan = ''get_all_chunks''"

definition clean_scan_logs_at_info :: "string \<Rightarrow> bool" where
  "clean_scan_logs_at_info scan \<longleftrightarrow> scan = canonical_full_scan"

definition new_scan :: "string \<Rightarrow> scan_decode_log" where
  "new_scan scan = \<lparr>sl_scan = scan, sl_scanned = 0, sl_envelope = 0, sl_decrypt = 0,
     sl_payload = 0, sl_first_error = None\<rparr>"

definition saw_row :: "scan_decode_log \<Rightarrow> scan_decode_log" where
  "saw_row l = l\<lparr>sl_scanned := Suc (sl_scanned l)\<rparr>"

definition record_failure :: "scan_decode_log \<Rightarrow> err \<Rightarrow> scan_decode_log" where
  "record_failure l e =
     (let l1 = (case classify_decode_error e of
                  Envelope \<Rightarrow> l\<lparr>sl_envelope := Suc (sl_envelope l)\<rparr>
                | Decrypt \<Rightarrow> l\<lparr>sl_decrypt := Suc (sl_decrypt l)\<rparr>
                | Payload \<Rightarrow> l\<lparr>sl_payload := Suc (sl_payload l)\<rparr>)
      in if sl_first_error l1 = None
         then l1\<lparr>sl_first_error := (case e of Err chain \<Rightarrow> Some (take first_error_cap chain))\<rparr>
         else l1)"

definition undecodable :: "scan_decode_log \<Rightarrow> nat" where
  "undecodable l = sl_envelope l + sl_decrypt l + sl_payload l"

definition finish_scan :: "nat \<Rightarrow> scan_decode_log \<Rightarrow> scan_summary" where
  "finish_scan now l =
     \<lparr>ss_scan = sl_scan l, ss_scanned = sl_scanned l, ss_undecodable = undecodable l,
      ss_envelope = sl_envelope l, ss_decrypt = sl_decrypt l, ss_payload = sl_payload l,
      ss_first_error = sl_first_error l, ss_at_unix = now\<rparr>"

text \<open>One scan over decode results: every row is seen, every failure recorded.\<close>

fun scan_rows :: "'a res list \<Rightarrow> scan_decode_log \<Rightarrow> scan_decode_log" where
  "scan_rows [] l = l"
| "scan_rows (Inr x # rs) l = scan_rows rs (saw_row l)"
| "scan_rows (Inl e # rs) l = scan_rows rs (record_failure (saw_row l) e)"

lemma record_failure_counts [simp]:
  "undecodable (record_failure l e) = Suc (undecodable l)"
  "sl_scanned (record_failure l e) = sl_scanned l"
  "sl_scan (record_failure l e) = sl_scan l"
  by (auto simp: record_failure_def undecodable_def Let_def split: decode_fail_stage.splits)

lemma saw_row_counts [simp]:
  "undecodable (saw_row l) = undecodable l"
  "sl_scanned (saw_row l) = Suc (sl_scanned l)"
  by (simp_all add: saw_row_def undecodable_def)

lemma scan_rows_counts:
  "sl_scanned (scan_rows rs l) = sl_scanned l + length rs"
  "undecodable (scan_rows rs l) = undecodable l + length (filter (\<lambda>r. \<not> is_ok r) rs)"
  by (induction rs l rule: scan_rows.induct) auto

text \<open>The three context strings of the decoder are told apart.\<close>

lemma classify_messages:
  "classify_decode_error (Err envelope_msg) = Envelope"
  "classify_decode_error (Err decrypt_msg) = Decrypt"
  "classify_decode_error (Err payload_msg) = Payload"
  by code_simp+

end
