(* ===== verification/Chunks.thy ===== *)
theory Chunks
  imports KV ScanLog
begin

text \<open>
  The data of the store (\<^verbatim>\<open>loomem-core/src/storage.rs\<close>, \<^verbatim>\<open>source_tag.rs\<close>,
  \<^verbatim>\<open>storage/provenance_role.rs\<close>, \<^verbatim>\<open>fragments/mod.rs\<close>): the chunk record with its metadata, and the
  on-disk envelope with the single decode and encode chokepoints. Floating-point fields are exact
  rationals: the store only copies, compares and clamps them. The encryption provider and the
  serialisation library are fields of the store, as the provider is in the code.
\<close>

section \<open>Chunk data\<close>

datatype json =
    JNull
  | JBool bool
  | JNum int
  | JFloat rat
  | JStr string
  | JArr "json list"
  | JObj "(string \<times> json) list"

fun json_get :: "json \<Rightarrow> string \<Rightarrow> json option" where
  "json_get (JObj fs) k = map_of fs k"
| "json_get _ k = None"

fun json_as_u64 :: "json \<Rightarrow> nat option" where
  "json_as_u64 (JNum i) = (if 0 \<le> i \<and> nat i \<le> u64_max then Some (nat i) else None)"
| "json_as_u64 _ = None"

fun json_as_str :: "json \<Rightarrow> string option" where
  "json_as_str (JStr s) = Some s"
| "json_as_str _ = None"

datatype provenance_role = Claim | Evidence | Cue

datatype fact_type = PreferenceOrDecision | ProjectState | Fact | Event | Experience

record source_tag =
  tag_agent :: string
  tag_session :: "string option"
  tag_channel :: "string option"

definition from_agent :: "string \<Rightarrow> source_tag" where
  "from_agent a = \<lparr>tag_agent = a, tag_session = None, tag_channel = None\<rparr>"

definition show_tag :: "source_tag \<Rightarrow> string" where
  "show_tag t = tag_agent t
     @ (case tag_channel t of None \<Rightarrow> [] | Some ch \<Rightarrow> ''/'' @ ch)
     @ (case tag_session t of None \<Rightarrow> [] | Some s \<Rightarrow> ''@'' @ s)"

text \<open>The three shapes the field was ever written in, beside its absence.\<close>

datatype source_compat = CompatTag source_tag | CompatLegacy string | CompatNull

fun deserialize_source_compat :: "source_compat option \<Rightarrow> source_tag option" where
  "deserialize_source_compat None = None"
| "deserialize_source_compat (Some (CompatTag t)) = Some t"
| "deserialize_source_compat (Some (CompatLegacy s)) = (if s = [] then None else Some (from_agent s))"
| "deserialize_source_compat (Some CompatNull) = None"

record fragment_meta =
  fm_source_id :: string
  fm_byte_start :: nat
  fm_byte_end :: nat
  fm_turn_index :: nat
  fm_role :: "string option"
  fm_conversation_date :: "string option"

record extraction_meta =
  em_fact_type :: fact_type
  em_subject :: "string option"
  em_event_date :: "string option"
  em_event_date_context :: "string option"
  em_supersedes :: "string option"
  em_superseded_by :: "string option"
  em_confidence :: rat
  em_extracted_from :: "string option"
  em_extraction_model :: "string option"
  em_original_content :: "string option"
  em_topic :: "string option"
  em_attributed_to :: "string option"

record chunk =
  ch_id :: string
  ch_content :: string
  ch_stream :: string
  ch_level :: int
  ch_score :: rat
  ch_timestamp :: nat
  ch_consolidated :: bool
  ch_dormant :: bool
  ch_in_progress :: bool
  ch_prompt_version :: "nat option"
  ch_source_ids :: "string list option"
  ch_last_decay :: "nat option"
  ch_metadata :: "json option"
  ch_importance :: "rat option"
  ch_persistent :: bool
  ch_last_implicit_boost :: "nat option"
  ch_access_count :: nat
  ch_source :: "source_tag option"
  ch_created_by :: "string option"
  ch_updated_at :: "nat option"
  ch_valid_from :: "nat option"
  ch_valid_until :: "nat option"
  ch_is_latest :: bool
  ch_superseded_by :: "string option"
  ch_supersedes_id :: "string option"
  ch_root_memory_id :: "string option"
  ch_version :: nat
  ch_memory_type :: "string option"
  ch_extraction_meta :: "extraction_meta option"
  ch_deleted_at :: "nat option"
  ch_trust_level :: "string option"
  ch_ingester_user_id :: "string option"
  ch_alpha :: rat
  ch_beta :: rat
  ch_harmful_count :: nat
  ch_n_ratings :: nat
  ch_last_rated_at :: "int option"
  ch_provenance_role :: provenance_role
  ch_fragment :: "fragment_meta option"

definition derive_trust_level :: "string option \<Rightarrow> string" where
  "derive_trust_level src =
     (case src of
        None \<Rightarrow> ''a1''
      | Some s \<Rightarrow>
          if s \<in> {''api'', ''user_direct'', ''confirmed_preference'', ''first_party_doc''} then ''a1''
          else if s \<in> {''mcp'', ''mcp-ingest'', ''assistant_generated''} then ''a2''
          else ''b'')"

section \<open>The store\<close>

text \<open>
  The payload that is encrypted together: content, metadata and extraction metadata. A stored
  chunk row is the plaintext envelope with the encrypted payload (empty for plaintext rows); every
  other row of the default column family is a byte string.
\<close>

type_synonym payload = "string \<times> json option \<times> extraction_meta option"

record stored_chunk =
  sc_chunk :: chunk
  sc_payload :: string

datatype row = VChunk stored_chunk | VBytes string

record provider =
  pv_enabled :: bool
  pv_encrypt :: "string \<Rightarrow> string \<Rightarrow> string res"
  pv_decrypt :: "string \<Rightarrow> string \<Rightarrow> string res"
  pv_ser :: "payload \<Rightarrow> string"
  pv_de :: "string \<Rightarrow> payload option"
  pv_is_encrypted :: "string \<Rightarrow> bool"

record store =
  st_db :: "row cf"
  st_emb :: "nat list cf"
  st_prov :: provider
  st_last_scan :: "scan_summary option"
  st_at_rest_key_present :: bool

definition clear_payload :: "chunk \<Rightarrow> chunk" where
  "clear_payload c = c\<lparr>ch_content := [], ch_metadata := None, ch_extraction_meta := None\<rparr>"

definition decode_chunk :: "provider \<Rightarrow> row \<Rightarrow> chunk res" where
  "decode_chunk pv r =
     (case r of
        VBytes b \<Rightarrow> Inl (Err envelope_msg)
      | VChunk sc \<Rightarrow>
          if sc_payload sc = [] then Inr (sc_chunk sc)
          else (case pv_decrypt pv (ch_stream (sc_chunk sc)) (sc_payload sc) of
                  Inl e \<Rightarrow> Inl (Err decrypt_msg)
                | Inr p \<Rightarrow>
                    (case pv_de pv p of
                       None \<Rightarrow> Inl (Err payload_msg)
                     | Some (content, metadata, em) \<Rightarrow>
                         Inr ((sc_chunk sc)\<lparr>ch_content := content, ch_metadata := metadata,
                                            ch_extraction_meta := em\<rparr>))))"

definition encode_chunk :: "provider \<Rightarrow> chunk \<Rightarrow> row res" where
  "encode_chunk pv c =
     (if pv_enabled pv
      then (case pv_encrypt pv (ch_stream c)
                  (pv_ser pv (ch_content c, ch_metadata c, ch_extraction_meta c)) of
              Inl e \<Rightarrow> Inl (Err ''Failed to encrypt chunk payload'')
            | Inr blob \<Rightarrow> Inr (VChunk \<lparr>sc_chunk = clear_payload c, sc_payload = blob\<rparr>))
      else Inr (VChunk \<lparr>sc_chunk = c, sc_payload = []\<rparr>))"

definition chunk_key :: "int \<Rightarrow> string \<Rightarrow> string" where
  "chunk_key level i = ''chunk:L'' @ show_int level @ '':'' @ i"

definition generation_key :: "string \<Rightarrow> string" where
  "generation_key i = ''embedding_generation:'' @ i"

definition entity_key :: "string \<Rightarrow> string" where
  "entity_key i = ''entity:'' @ i"

definition rel_key :: "string \<Rightarrow> string" where
  "rel_key i = ''rel:'' @ i"

definition llm_entities_key :: "string \<Rightarrow> string" where
  "llm_entities_key i = ''llm_entities:'' @ i"

fun get_chunk_levels :: "int list \<Rightarrow> store \<Rightarrow> string \<Rightarrow> chunk option res" where
  "get_chunk_levels [] st i = Inr None"
| "get_chunk_levels (lv # lvs) st i =
     (case kv_get (st_db st) (chunk_key lv i) of
        Some r \<Rightarrow> rbind (decode_chunk (st_prov st) r) (\<lambda>c. Inr (Some c))
      | None \<Rightarrow> get_chunk_levels lvs st i)"

definition get_chunk :: "store \<Rightarrow> string \<Rightarrow> chunk option res" where
  "get_chunk st i = get_chunk_levels [0, 1, 2] st i"

definition get_chunk_scoped :: "store \<Rightarrow> string \<Rightarrow> string \<Rightarrow> chunk option res" where
  "get_chunk_scoped st i stream =
     rbind (get_chunk st i) (\<lambda>co.
       case co of
         Some c \<Rightarrow> if ch_stream c = stream then Inr (Some c) else Inr None
       | None \<Rightarrow> Inr None)"

definition is_chunk :: "store \<Rightarrow> string \<Rightarrow> bool" where
  "is_chunk st i \<longleftrightarrow> (\<exists>lv \<in> {0, 1, 2}. kv_get (st_db st) (chunk_key lv i) \<noteq> None)"

section \<open>Keys\<close>

lemma show_int_no_colon: "CHR '':'' \<notin> set (show_int i)"
proof -
  have "CHR '':'' \<notin> set (show_nat n)" for n
    by (rule non_digit_not_in_show_nat) (simp add: is_digit_def)
  then show ?thesis by (simp add: show_int_def)
qed

lemma chunk_key_inj [simp, key_simps]: "chunk_key l i = chunk_key l' i' \<longleftrightarrow> l = l' \<and> i = i'"
proof
  assume "chunk_key l i = chunk_key l' i'"
  then have eq: "show_int l @ CHR '':'' # i = show_int l' @ CHR '':'' # i'"
    by (simp add: chunk_key_def)
  have "Some (show_int l, i) = split_once (CHR '':'') (show_int l @ CHR '':'' # i)"
    by (simp only: split_once_append [OF show_int_no_colon])
  also have "\<dots> = split_once (CHR '':'') (show_int l' @ CHR '':'' # i')"
    by (simp only: eq)
  also have "\<dots> = Some (show_int l', i')"
    by (simp only: split_once_append [OF show_int_no_colon])
  finally show "l = l' \<and> i = i'" by (simp del: show_int_inj) (metis show_int_inj)
qed simp

lemma side_keys_inj [simp, key_simps]:
  "generation_key i = generation_key j \<longleftrightarrow> i = j"
  "entity_key i = entity_key j \<longleftrightarrow> i = j"
  "rel_key i = rel_key j \<longleftrightarrow> i = j"
  "llm_entities_key i = llm_entities_key j \<longleftrightarrow> i = j"
  by (simp_all add: generation_key_def entity_key_def rel_key_def llm_entities_key_def)

lemma keys_disjoint [simp, key_simps]:
  "chunk_key l i \<noteq> generation_key j" "generation_key j \<noteq> chunk_key l i"
  "chunk_key l i \<noteq> entity_key j" "entity_key j \<noteq> chunk_key l i"
  "chunk_key l i \<noteq> rel_key j" "rel_key j \<noteq> chunk_key l i"
  "chunk_key l i \<noteq> llm_entities_key j" "llm_entities_key j \<noteq> chunk_key l i"
  "generation_key i \<noteq> entity_key j" "entity_key j \<noteq> generation_key i"
  "generation_key i \<noteq> rel_key j" "rel_key j \<noteq> generation_key i"
  "generation_key i \<noteq> llm_entities_key j" "llm_entities_key j \<noteq> generation_key i"
  "entity_key i \<noteq> rel_key j" "rel_key j \<noteq> entity_key i"
  "entity_key i \<noteq> llm_entities_key j" "llm_entities_key j \<noteq> entity_key i"
  "rel_key i \<noteq> llm_entities_key j" "llm_entities_key j \<noteq> rel_key i"
  by (simp_all add: chunk_key_def generation_key_def entity_key_def rel_key_def llm_entities_key_def)

section \<open>Encryption contract and the envelope\<close>

text \<open>
  What the code relies on from the provider and the serialiser: decryption under the same stream
  inverts encryption, ciphertext is never empty, deserialisation inverts serialisation.
\<close>

definition provider_ok :: "provider \<Rightarrow> bool" where
  "provider_ok pv \<longleftrightarrow>
     (pv_enabled pv \<longrightarrow>
        (\<forall>s p b. pv_encrypt pv s p = Inr b \<longrightarrow> pv_decrypt pv s b = Inr p \<and> b \<noteq> []) \<and>
        (\<forall>x. pv_de pv (pv_ser pv x) = Some x))"

lemma decode_encode:
  assumes "provider_ok pv" "encode_chunk pv c = Inr r"
  shows "decode_chunk pv r = Inr c"
  using assms
  by (auto simp: encode_chunk_def decode_chunk_def clear_payload_def provider_ok_def
      split: sum.splits if_splits)

end
