(* ===== verification/Lineage.thy ===== *)
theory Lineage
  imports Chunks
begin

text \<open>
  Ingest lineage (\<^verbatim>\<open>loomem-core/src/storage/ingest_lineage.rs\<close>): the shapes of server-owned
  sources, facts and fragments, the admission check every chunk write passes, the ancestry walk it
  uses, and the atomic tombstoning of a source with its same-stream descendants.
\<close>

section \<open>Shapes\<close>

definition marker_kind :: "chunk \<Rightarrow> string option" where
  "marker_kind c =
     Option.bind (ch_metadata c) (\<lambda>md. Option.bind (json_get md ''_loomem_ingest'') (\<lambda>marker.
       Option.bind (Option.bind (json_get marker ''version'') json_as_u64) (\<lambda>v.
         if v = 1 then Option.bind (json_get marker ''kind'') json_as_str else None)))"

definition agent_of :: "chunk \<Rightarrow> string option" where
  "agent_of c = map_option tag_agent (ch_source c)"

definition source_flags :: "chunk \<Rightarrow> bool" where
  "source_flags c \<longleftrightarrow> ch_level c = 0 \<and> ch_persistent c \<and> ch_consolidated c \<and> \<not> ch_dormant c"

definition is_ingest_source :: "chunk \<Rightarrow> bool" where
  "is_ingest_source c \<longleftrightarrow>
     marker_kind c = Some ''source'' \<and> ch_provenance_role c = Evidence \<and>
     ch_trust_level c = Some ''a2'' \<and> agent_of c = Some ''mcp-ingest-source'' \<and> source_flags c"

definition is_ingest_fact :: "chunk \<Rightarrow> bool" where
  "is_ingest_fact c \<longleftrightarrow> marker_kind c = Some ''fact'' \<and> agent_of c = Some ''mcp-ingest''"

text \<open>A string that parses as a UUID and prints back as itself: lowercase hyphenated form.\<close>

definition is_lower_hex :: "char \<Rightarrow> bool" where
  "is_lower_hex ch \<longleftrightarrow> is_digit ch \<or> (97 \<le> (of_char ch :: nat) \<and> (of_char ch :: nat) \<le> 102)"

definition canonical_uuid :: "string \<Rightarrow> bool" where
  "canonical_uuid s \<longleftrightarrow>
     map length (split_on (CHR ''-'') s) = [8, 4, 4, 4, 12] \<and>
     list_all (list_all is_lower_hex) (split_on (CHR ''-'') s)"

definition fact_links :: "chunk \<Rightarrow> string list option" where
  "fact_links c =
     Option.bind (ch_source_ids c) (\<lambda>ids.
       Option.bind (Option.bind (ch_extraction_meta c) em_extracted_from) (\<lambda>ex.
         if ids \<noteq> [] \<and> ex \<in> set ids \<and> list_all canonical_uuid ids then Some ids else None))"

definition is_ingest_fact_shape :: "chunk \<Rightarrow> bool" where
  "is_ingest_fact_shape c \<longleftrightarrow>
     is_ingest_fact c \<and> ch_provenance_role c = Claim \<and> ch_trust_level c = Some ''a2'' \<and>
     fact_links c \<noteq> None"

definition has_fragment_marker :: "chunk \<Rightarrow> bool" where
  "has_fragment_marker c \<longleftrightarrow> marker_kind c = Some ''fragment'' \<and> agent_of c = Some ''mcp-ingest''"

definition fragment_link :: "chunk \<Rightarrow> string option" where
  "fragment_link c =
     Option.bind (ch_fragment c) (\<lambda>f.
       Option.bind (ch_source_ids c) (\<lambda>ids.
         if ids = [fm_source_id f] \<and> canonical_uuid (fm_source_id f) \<and>
            starts_with (ch_id c) (fm_source_id f @ '':f'')
         then Some (fm_source_id f) else None))"

definition is_ingest_fragment :: "chunk \<Rightarrow> bool" where
  "is_ingest_fragment c \<longleftrightarrow>
     has_fragment_marker c \<and> ch_level c = 0 \<and> ch_consolidated c \<and> \<not> ch_dormant c \<and>
     ch_extraction_meta c = None \<and> fragment_link c \<noteq> None"

definition is_owned :: "chunk \<Rightarrow> bool" where
  "is_owned c \<longleftrightarrow> is_ingest_source c \<or> is_ingest_fact c \<or> is_ingest_fragment c"

definition parents :: "chunk \<Rightarrow> string list" where
  "parents c =
     (case ch_source_ids c of None \<Rightarrow> [] | Some ids \<Rightarrow> ids) @
     (case Option.bind (ch_extraction_meta c) em_extracted_from of
        None \<Rightarrow> []
      | Some from \<Rightarrow> if ch_source_ids c = None \<or> CHR '','' \<notin> set from then [from] else [])"

text \<open>The fields an owned chunk may never change, compared as one value.\<close>

definition immutable_provenance where
  "immutable_provenance c =
     (ch_content c, ch_stream c, ch_metadata c, ch_source c, ch_provenance_role c, ch_trust_level c,
      ch_source_ids c, ch_valid_from c, ch_extraction_meta c, ch_level c, ch_persistent c,
      ch_timestamp c,
      (if is_ingest_source c then Some (ch_consolidated c, ch_dormant c) else None),
      ch_fragment c)"

section \<open>The ancestry walk\<close>

definition known_ids :: "store \<Rightarrow> string set" where
  "known_ids st = {x. \<exists>lv \<in> {0, 1, 2}. chunk_key lv x \<in> fst ` set (st_db st)}"

lemma finite_known_ids [simp]: "finite (known_ids st)"
proof -
  have "finite ((chunk_key lv) -` (fst ` set (st_db st)))" for lv
    by (rule finite_vimageI) (auto simp: inj_on_def)
  then have "finite (\<Union>lv \<in> {0, 1, 2}. (chunk_key lv) -` (fst ` set (st_db st)))" by blast
  then show ?thesis by (rule rev_finite_subset) (auto simp: known_ids_def)
qed

lemma get_chunk_known: "get_chunk st x = Inr (Some c) \<Longrightarrow> x \<in> known_ids st"
  by (auto simp: get_chunk_def known_ids_def image_iff split: option.splits
      dest!: map_of_SomeD) force+

lemma card_known_less:
  "get_chunk st x = Inr (Some c) \<Longrightarrow> x \<notin> vis \<Longrightarrow>
     card (known_ids st - insert x vis) < card (known_ids st - vis)"
  using get_chunk_known [of st x c] by (intro psubset_card_mono) auto

lemma card_known_le: "card (known_ids st - insert x vis) \<le> card (known_ids st - vis)"
  by (intro card_mono) auto

function ancestry_loop ::
  "store \<Rightarrow> string \<Rightarrow> string list \<Rightarrow> string set \<Rightarrow> bool \<Rightarrow> bool \<Rightarrow> (bool \<times> bool) res" where
  "ancestry_loop st stream [] vis owned invalid = Inr (owned, invalid)"
| "ancestry_loop st stream (x # ps) vis owned invalid =
     (if x \<in> vis then ancestry_loop st stream ps vis owned invalid
      else (case get_chunk st x of
              Inl e \<Rightarrow> Inl e
            | Inr None \<Rightarrow> ancestry_loop st stream ps (insert x vis) owned True
            | Inr (Some p) \<Rightarrow>
                ancestry_loop st stream (rev (parents p) @ ps) (insert x vis)
                  (owned \<or> is_owned p)
                  (invalid \<or> ch_deleted_at p \<noteq> None \<or> ch_stream p \<noteq> stream)))"
  by pat_completeness auto
termination
  by (relation "measures [\<lambda>(st, stream, ps, vis, r). card (known_ids st - vis),
                          \<lambda>(st, stream, ps, r). length ps]")
    (auto simp: card_known_less, metis card_known_le le_neq_implies_less)

text \<open>The walk pops from the end of a vector: the head of the list here is its last element.\<close>

definition ingest_ancestry :: "store \<Rightarrow> chunk \<Rightarrow> (bool \<times> bool) res" where
  "ingest_ancestry st c =
     ancestry_loop st (ch_stream c) (rev (parents c))
       (if is_owned c then {} else {ch_id c}) (is_owned c) False"

section \<open>Admission\<close>

definition require_live_source :: "store \<Rightarrow> chunk \<Rightarrow> string \<Rightarrow> unit res" where
  "require_live_source st c i =
     rbind (get_chunk st i) (\<lambda>so. case so of
       None \<Rightarrow> Inl (Err ''ingest source does not exist'')
     | Some s \<Rightarrow>
         rbind (ensure (is_ingest_source s) ''ingest parent is not a recognized source'') (\<lambda>_.
         rbind (ensure (ch_stream s = ch_stream c) ''ingest source stream mismatch'') (\<lambda>_.
         ensure (ch_deleted_at s = None) ''ingest source is deleted'')))"

fun require_all :: "store \<Rightarrow> chunk \<Rightarrow> string list \<Rightarrow> unit res" where
  "require_all st c [] = Inr ()"
| "require_all st c (i # is) = rbind (require_live_source st c i) (\<lambda>_. require_all st c is)"

definition validate_fact_sources :: "store \<Rightarrow> chunk \<Rightarrow> unit res" where
  "validate_fact_sources st c =
     rbind (ensure (is_ingest_fact_shape c) ''invalid ingest fact shape'') (\<lambda>_.
       case fact_links c of
         None \<Rightarrow> Inl (Err ''invalid ingest fact lineage'')
       | Some ids \<Rightarrow> require_all st c ids)"

definition validate_fragment_source :: "store \<Rightarrow> chunk \<Rightarrow> unit res" where
  "validate_fragment_source st c =
     rbind (ensure (is_ingest_fragment c) ''invalid ingest fragment shape'') (\<lambda>_.
       case fragment_link c of
         None \<Rightarrow> Inl (Err ''invalid ingest fragment lineage'')
       | Some i \<Rightarrow> require_live_source st c i)"

definition validate_live_ancestry :: "store \<Rightarrow> chunk \<Rightarrow> unit res" where
  "validate_live_ancestry st c =
     rbind (ingest_ancestry st c) (\<lambda>(owned, invalid).
     rbind (get_chunk st (ch_id c)) (\<lambda>oo.
       let legacy_unchanged =
             (case oo of None \<Rightarrow> False
              | Some old \<Rightarrow> ch_deleted_at old = None \<and> \<not> owned \<and> parents old = parents c)
       in ensure (\<not> invalid \<or> legacy_unchanged)
            ''lineage ancestor is missing, deleted, or cross-stream''))"

definition validate_owned_update :: "store \<Rightarrow> chunk \<Rightarrow> unit res" where
  "validate_owned_update st c =
     rbind (get_chunk st (ch_id c)) (\<lambda>oo. case oo of
       None \<Rightarrow> Inr ()
     | Some old \<Rightarrow>
         rbind (ingest_ancestry st old) (\<lambda>(owned, invalid).
           if \<not> owned then Inr ()
           else rbind (ensure (immutable_provenance old = immutable_provenance c)
                        ''ingest content and provenance are immutable; delete and re-ingest corrections'') (\<lambda>_.
                ensure (ch_deleted_at old = None \<or> ch_deleted_at c \<noteq> None)
                  ''cannot revive deleted ingest lineage'')))"

definition validate_ingest_admission :: "store \<Rightarrow> chunk \<Rightarrow> unit res" where
  "validate_ingest_admission st c =
     rbind (validate_owned_update st c) (\<lambda>_.
       if ch_deleted_at c \<noteq> None then Inr ()
       else rbind (validate_live_ancestry st c) (\<lambda>_.
            rbind (if is_ingest_fact c then validate_fact_sources st c else Inr ()) (\<lambda>_.
            if has_fragment_marker c then validate_fragment_source st c else Inr ())))"

section \<open>Tombstoning a source with its descendants\<close>

fun decode_rows :: "provider \<Rightarrow> row cf \<Rightarrow> (string \<times> chunk) list res" where
  "decode_rows pv [] = Inr []"
| "decode_rows pv ((k, r) # rs) =
     (case decode_chunk pv r of
        Inl e \<Rightarrow> Inl (Err ''decode ingest lineage'')
      | Inr c \<Rightarrow> rbind (decode_rows pv rs) (\<lambda>cs. Inr ((k, c) # cs)))"

definition lineage_rows :: "store \<Rightarrow> (string \<times> chunk) list res" where
  "lineage_rows st = decode_rows (st_prov st) (kv_prefix ''chunk:'' (st_db st))"

text \<open>The reverse index: one entry per row of the stream and occurrence of the parent.\<close>

definition children_of :: "(string \<times> chunk) list \<Rightarrow> string \<Rightarrow> string \<Rightarrow> string list" where
  "children_of rows stream i =
     concat (map (\<lambda>(_, c). map (\<lambda>_. ch_id c) (filter (\<lambda>p. p = i) (parents c)))
       (filter (\<lambda>(_, c). ch_stream c = stream) rows))"

definition row_ids :: "(string \<times> chunk) list \<Rightarrow> string set" where
  "row_ids rows = (\<lambda>(_, c). ch_id c) ` set rows"

lemma children_in_rows: "set (children_of rows stream i) \<subseteq> row_ids rows"
  by (force simp: children_of_def row_ids_def)

function descend ::
  "(string \<times> chunk) list \<Rightarrow> string \<Rightarrow> string list \<Rightarrow> string set \<Rightarrow> string set" where
  "descend rows stream [] vis = vis"
| "descend rows stream (x # queue) vis =
     (if x \<in> vis then descend rows stream queue vis
      else descend rows stream (queue @ children_of rows stream x) (insert x vis))"
  by pat_completeness auto
termination
proof (relation "measures [\<lambda>(rows, stream, q, vis). card ((row_ids rows \<union> set q) - vis),
                           \<lambda>(rows, stream, q, vis). length q]")
  fix rows stream x queue vis
  assume x: "x \<notin> (vis :: string set)"
  have "finite (row_ids rows \<union> set (x # queue) - vis)" by (simp add: row_ids_def)
  then have "card (row_ids rows \<union> set (queue @ children_of rows stream x) - insert x vis)
      < card (row_ids rows \<union> set (x # queue) - vis)"
    using x children_in_rows [of rows stream x] by (intro psubset_card_mono) auto
  then show "((rows, stream, queue @ children_of rows stream x, insert x vis),
      rows, stream, x # queue, vis) \<in> measures [\<lambda>(rows, stream, q, vis).
        card ((row_ids rows \<union> set q) - vis), \<lambda>(rows, stream, q, vis). length q]"
    by simp
next
  fix rows stream x queue vis
  assume "x \<in> (vis :: string set)"
  then have "(row_ids rows \<union> set (x # queue)) - vis = (row_ids rows \<union> set queue) - vis" by auto
  then show "((rows, stream, queue, vis), rows, stream, x # queue, vis)
      \<in> measures [\<lambda>(rows, stream, q, vis). card ((row_ids rows \<union> set q) - vis),
           \<lambda>(rows, stream, q, vis). length q]" by simp
qed simp

definition descendant_ids :: "(string \<times> chunk) list \<Rightarrow> string \<Rightarrow> string \<Rightarrow> string set" where
  "descendant_ids rows root_id stream = descend rows stream [root_id] {}"

text \<open>\<open>us\<close> gives the fresh UUID drawn for each chunk id during the call.\<close>

fun tombstone_batch ::
  "provider \<Rightarrow> (string \<times> chunk) list \<Rightarrow> string \<Rightarrow> string set \<Rightarrow> nat \<Rightarrow> (string \<Rightarrow> string)
     \<Rightarrow> row batch_op list res" where
  "tombstone_batch pv [] stream ids t us = Inr []"
| "tombstone_batch pv ((k, c) # rows) stream ids t us =
     (if ch_stream c \<noteq> stream \<or> ch_id c \<notin> ids \<or> ch_deleted_at c \<noteq> None
      then tombstone_batch pv rows stream ids t us
      else rbind (encode_chunk pv (c\<lparr>ch_deleted_at := Some t\<rparr>)) (\<lambda>r.
           rbind (tombstone_batch pv rows stream ids t us) (\<lambda>bs.
             Inr (BPut k r # BPut (generation_key (ch_id c)) (VBytes (us (ch_id c))) # bs))))"

definition write_lineage_tombstones ::
  "store \<Rightarrow> (string \<times> chunk) list \<Rightarrow> string \<Rightarrow> string set \<Rightarrow> nat \<Rightarrow> (string \<Rightarrow> string) \<Rightarrow> store res" where
  "write_lineage_tombstones st rows stream ids t us =
     rbind (tombstone_batch (st_prov st) rows stream ids t us) (\<lambda>bs.
       Inr (st\<lparr>st_db := kv_batch bs (st_db st)\<rparr>))"

definition tombstone_ingest_source ::
  "store \<Rightarrow> string \<Rightarrow> nat \<Rightarrow> (string \<Rightarrow> string) \<Rightarrow> (string list option \<times> store) res" where
  "tombstone_ingest_source st i t us =
     rbind (get_chunk st i) (\<lambda>so. case so of
       None \<Rightarrow> Inr (None, st)
     | Some source \<Rightarrow>
         if \<not> is_ingest_source source then Inr (None, st)
         else rbind (lineage_rows st) (\<lambda>rows.
              let ids = descendant_ids rows i (ch_stream source)
              in rbind (write_lineage_tombstones st rows (ch_stream source) ids t us) (\<lambda>st'.
                   Inr (Some (sorted_list_of_set ids), st'))))"

definition ingest_chunks_for_index_repair :: "store \<Rightarrow> chunk list res" where
  "ingest_chunks_for_index_repair st =
     rbind (lineage_rows st) (\<lambda>rows.
       Inr (filter (\<lambda>c. is_ingest_source c \<or> is_ingest_fact_shape c \<or> is_ingest_fragment c)
              (map snd rows)))"

end
