(* ===== verification/Utf8.thy ===== *)
theory Utf8
  imports Prelude
begin

text \<open>
  UTF-8 text as the byte list of a Rust string: well-formedness, character boundaries, the
  characters with the Unicode \<^verbatim>\<open>White_Space\<close> property, and \<^verbatim>\<open>trim\<close> in its variants.
\<close>

abbreviation byte :: "char \<Rightarrow> nat" where
  "byte c \<equiv> of_char c"

definition is_cont :: "char \<Rightarrow> bool" where
  "is_cont c \<longleftrightarrow> 128 \<le> byte c \<and> byte c < 192"

text \<open>The number of continuation bytes a leading byte announces.\<close>

definition tail_len :: "char \<Rightarrow> nat option" where
  "tail_len c =
     (if byte c < 128 then Some 0
      else if 194 \<le> byte c \<and> byte c < 224 then Some 1
      else if 224 \<le> byte c \<and> byte c < 240 then Some 2
      else if 240 \<le> byte c \<and> byte c < 245 then Some 3
      else None)"

text \<open>
  After four leading bytes the second byte has a smaller range: no overlong forms, no surrogates,
  nothing above the last code point.
\<close>

fun second_ok :: "char \<Rightarrow> string \<Rightarrow> bool" where
  "second_ok c [] = True"
| "second_ok c (d # ds) \<longleftrightarrow>
     (byte c = 224 \<longrightarrow> 160 \<le> byte d) \<and> (byte c = 237 \<longrightarrow> byte d < 160) \<and>
     (byte c = 240 \<longrightarrow> 144 \<le> byte d) \<and> (byte c = 244 \<longrightarrow> byte d < 144)"

text \<open>Text split into the byte groups of its characters; \<open>None\<close> when it is not well formed.\<close>

function chars_of :: "string \<Rightarrow> string list option" where
  "chars_of [] = Some []"
| "chars_of (c # cs) =
     (case tail_len c of
        None \<Rightarrow> None
      | Some n \<Rightarrow>
          if n \<le> length cs \<and> list_all is_cont (take n cs) \<and> second_ok c cs
          then map_option (\<lambda>r. (c # take n cs) # r) (chars_of (drop n cs))
          else None)"
  by pat_completeness auto
termination by (relation "measure length") (auto simp: less_Suc_eq_le)

definition valid_utf8 :: "string \<Rightarrow> bool" where
  "valid_utf8 s \<longleftrightarrow> chars_of s \<noteq> None"

text \<open>
  \<^verbatim>\<open>String::from_utf8_lossy\<close>: every maximal part that starts like a character but does not end as one is
  replaced by the replacement character.
\<close>

definition good_tail :: "char \<Rightarrow> nat \<Rightarrow> string \<Rightarrow> nat" where
  "good_tail c n cs =
     (case cs of
        [] \<Rightarrow> 0
      | d # ds \<Rightarrow>
          if n = 0 \<or> \<not> is_cont d \<or> \<not> second_ok c [d] then 0
          else Suc (length (takeWhile is_cont (take (n - 1) ds))))"

definition replacement :: string where
  "replacement = [char_of (239 :: nat), char_of (191 :: nat), char_of (189 :: nat)]"

function from_utf8_lossy :: "string \<Rightarrow> string" where
  "from_utf8_lossy [] = []"
| "from_utf8_lossy (c # cs) =
     (case tail_len c of
        None \<Rightarrow> replacement @ from_utf8_lossy cs
      | Some n \<Rightarrow>
          if good_tail c n cs = n then (c # take n cs) @ from_utf8_lossy (drop n cs)
          else replacement @ from_utf8_lossy (drop (good_tail c n cs) cs))"
  by pat_completeness auto
termination by (relation "measure length") (auto simp: less_Suc_eq_le)

definition char_count :: "string \<Rightarrow> nat" where
  "char_count s = length (filter (\<lambda>c. \<not> is_cont c) s)"

definition is_char_boundary :: "string \<Rightarrow> nat \<Rightarrow> bool" where
  "is_char_boundary s i \<longleftrightarrow> i = length s \<or> (i < length s \<and> \<not> is_cont (s ! i))"

text \<open>\<^verbatim>\<open>str::get(a..b)\<close>.\<close>

definition str_get :: "string \<Rightarrow> nat \<Rightarrow> nat \<Rightarrow> string option" where
  "str_get s a b =
     (if a \<le> b \<and> b \<le> length s \<and> is_char_boundary s a \<and> is_char_boundary s b
      then Some (take (b - a) (drop a s)) else None)"

text \<open>The length in bytes of the white-space character a text starts with, 0 if there is none.\<close>

definition ws_len :: "string \<Rightarrow> nat" where
  "ws_len s =
     (case map byte (take 3 s) of
        [] \<Rightarrow> 0
      | a # r \<Rightarrow>
          if (9 \<le> a \<and> a \<le> 13) \<or> a = 32 then 1
          else if a = 194 \<and> r \<noteq> [] \<and> (hd r = 133 \<or> hd r = 160) then 2
          else if length r = 2 \<and>
             (let b = hd r; d = hd (tl r) in
                (a = 225 \<and> b = 154 \<and> d = 128) \<or>
                (a = 226 \<and> b = 128 \<and> ((128 \<le> d \<and> d \<le> 138) \<or> d = 168 \<or> d = 169 \<or> d = 175)) \<or>
                (a = 226 \<and> b = 129 \<and> d = 159) \<or>
                (a = 227 \<and> b = 128 \<and> d = 128)) then 3
          else 0)"

function trim_start :: "string \<Rightarrow> string" where
  "trim_start s = (if ws_len s = 0 \<or> s = [] then s else trim_start (drop (ws_len s) s))"
  by pat_completeness auto
termination by (relation "measure length") auto

declare trim_start.simps [simp del]

text \<open>The white-space character a text ends with is the last one, two or three bytes.\<close>

definition ws_len_end :: "string \<Rightarrow> nat" where
  "ws_len_end s =
     (let n = length s
      in if 1 \<le> n \<and> ws_len (drop (n - 1) s) = 1 then 1
         else if 2 \<le> n \<and> ws_len (drop (n - 2) s) = 2 then 2
         else if 3 \<le> n \<and> ws_len (drop (n - 3) s) = 3 then 3 else 0)"

function trim_end :: "string \<Rightarrow> string" where
  "trim_end s =
     (if ws_len_end s = 0 then s else trim_end (take (length s - ws_len_end s) s))"
  by pat_completeness auto
termination
  by (relation "measure length") (auto simp: ws_len_end_def Let_def split: if_splits)

declare trim_end.simps [simp del]

definition trim :: "string \<Rightarrow> string" where
  "trim s = trim_end (trim_start s)"

definition is_ascii_upper :: "char \<Rightarrow> bool" where
  "is_ascii_upper c \<longleftrightarrow> 65 \<le> byte c \<and> byte c \<le> 90"

definition ascii_lower :: "char \<Rightarrow> char" where
  "ascii_lower c = (if is_ascii_upper c then char_of (byte c + 32) else c)"

definition to_ascii_lowercase :: "string \<Rightarrow> string" where
  "to_ascii_lowercase s = map ascii_lower s"

definition is_ascii_alpha :: "char \<Rightarrow> bool" where
  "is_ascii_alpha c \<longleftrightarrow> is_ascii_upper c \<or> (97 \<le> byte c \<and> byte c \<le> 122)"

section \<open>Lemmas\<close>

lemma ws_len_le: "ws_len s \<le> length s"
proof (cases s)
  case (Cons a s1)
  then show ?thesis
    by (cases s1; cases "tl s1") (auto simp: ws_len_def Let_def split: if_splits)
qed (simp add: ws_len_def)

lemma ws_len_le3: "ws_len s \<le> 3"
  by (auto simp: ws_len_def Let_def split: list.splits)

lemma trim_start_suffix: "suffix (trim_start s) s"
proof (induction s rule: trim_start.induct)
  case (1 s)
  show ?case
  proof (cases "ws_len s = 0 \<or> s = []")
    case True
    then show ?thesis by (simp add: trim_start.simps [of s])
  next
    case False
    with 1 have "suffix (trim_start (drop (ws_len s) s)) (drop (ws_len s) s)" by simp
    then have "suffix (trim_start (drop (ws_len s) s)) s"
      using suffix_drop suffix_order.trans by blast
    with False show ?thesis by (simp add: trim_start.simps [of s])
  qed
qed

lemma length_trim_start: "length (trim_start s) \<le> length s"
  using trim_start_suffix by (rule suffix_length_le)

lemma trim_start_drop: "trim_start s = drop (length s - length (trim_start s)) s"
proof -
  obtain zs where "s = zs @ trim_start s"
    using trim_start_suffix [of s] by (auto simp: suffix_def)
  then show ?thesis
    by (metis add_diff_cancel_right' append_eq_conv_conj length_append)
qed

lemma ws_len_digits: "list_all is_digit s \<Longrightarrow> ws_len s = 0"
  by (cases s) (auto simp: ws_len_def is_digit_def Let_def)

lemma trim_digits:
  assumes "list_all is_digit s"
  shows "trim s = s"
proof -
  have "ws_len (drop n s) = 0" for n
    by (rule ws_len_digits) (use assms in \<open>auto simp: list_all_iff dest: in_set_dropD\<close>)
  then have "ws_len_end s = 0" by (simp add: ws_len_end_def Let_def)
  then show ?thesis
    using ws_len_digits [OF assms] by (simp add: trim_def trim_start.simps [of s] trim_end.simps [of s])
qed

section \<open>Characters and boundaries\<close>

lemma valid_Nil [simp]: "valid_utf8 []"
  by (simp add: valid_utf8_def)

lemma valid_Cons:
  "valid_utf8 (c # cs) \<longleftrightarrow>
     (\<exists>n. tail_len c = Some n \<and> n \<le> length cs \<and> list_all is_cont (take n cs) \<and> second_ok c cs \<and> valid_utf8 (drop n cs))"
  by (auto simp: valid_utf8_def split: option.split)

lemma second_ok_ascii: "byte c < 128 \<Longrightarrow> second_ok c s"
  by (cases s) auto

lemma second_ok_take: "second_ok c cs \<Longrightarrow> second_ok c (take j cs)"
  by (cases cs; cases j) auto

lemma second_ok_append:
  "tail_len c = Some n \<Longrightarrow> n \<le> length cs \<Longrightarrow> second_ok c cs \<Longrightarrow> second_ok c (cs @ b)"
  by (cases cs) (auto simp: tail_len_def second_ok_ascii split: if_splits)

lemma good_tail_full:
  assumes "tail_len c = Some n" "n \<le> length cs" "list_all is_cont (take n cs)" "second_ok c cs"
  shows "good_tail c n cs = n"
proof (cases cs)
  case Nil
  with assms show ?thesis by (simp add: good_tail_def)
next
  case (Cons d ds)
  show ?thesis
  proof (cases n)
    case (Suc m)
    with assms Cons have "list_all is_cont (take m ds)" "is_cont d" "m \<le> length ds" by simp_all
    then have "takeWhile is_cont (take m ds) = take m ds" unfolding takeWhile_eq_all_conv list_all_iff by blast
    then have "length (takeWhile is_cont (take m ds)) = m" using \<open>m \<le> length ds\<close> by (simp only: length_take min_absorb2)
    with assms Suc Cons \<open>is_cont d\<close> show ?thesis by (simp add: good_tail_def)
  qed (simp add: good_tail_def Cons)
qed

lemma from_utf8_lossy_valid: "valid_utf8 s \<Longrightarrow> from_utf8_lossy s = s"
proof (induction s rule: from_utf8_lossy.induct)
  case (2 c cs)
  then obtain n where n: "tail_len c = Some n" "n \<le> length cs" "list_all is_cont (take n cs)"
    "second_ok c cs" "valid_utf8 (drop n cs)" by (auto simp: valid_Cons)
  note g = good_tail_full [OF n(1-4)]
  with 2 n show ?case by simp
qed simp

lemma tail_len_not_cont: "tail_len c = Some n \<Longrightarrow> \<not> is_cont c"
  by (auto simp: tail_len_def is_cont_def split: if_splits)

lemma valid_head: "valid_utf8 (c # cs) \<Longrightarrow> \<not> is_cont c"
  using tail_len_not_cont by (auto simp: valid_Cons)

lemma boundary_drop:
  "i \<le> j \<Longrightarrow> j \<le> length s \<Longrightarrow> is_char_boundary (drop i s) (j - i) \<longleftrightarrow> is_char_boundary s j"
  by (auto simp: is_char_boundary_def)

lemma boundary_take:
  "j \<le> i \<Longrightarrow> i \<le> length s \<Longrightarrow> is_char_boundary s j \<Longrightarrow> is_char_boundary (take i s) j"
  by (auto simp: is_char_boundary_def)

lemma boundary_take_iff:
  "j < i \<Longrightarrow> i \<le> length s \<Longrightarrow> is_char_boundary (take i s) j \<longleftrightarrow> is_char_boundary s j"
  by (auto simp: is_char_boundary_def)

lemma boundary_end [simp]: "is_char_boundary s (length s)"
  by (simp add: is_char_boundary_def)

lemma boundary_0 [simp]: "valid_utf8 s \<Longrightarrow> is_char_boundary s 0"
  using valid_head by (cases s) (auto simp: is_char_boundary_def)

text \<open>A text is cut into well-formed texts at its boundaries.\<close>

lemma valid_split:
  "valid_utf8 s \<Longrightarrow> i \<le> length s \<Longrightarrow> is_char_boundary s i \<Longrightarrow>
     valid_utf8 (take i s) \<and> valid_utf8 (drop i s)"
proof (induction s arbitrary: i rule: chars_of.induct)
  case (2 c cs)
  then obtain n where n: "tail_len c = Some n" "n \<le> length cs" "list_all is_cont (take n cs)"
    "second_ok c cs" "valid_utf8 (drop n cs)" by (auto simp: valid_Cons)
  show ?case
  proof (cases i)
    case 0
    then show ?thesis using 2 by simp
  next
    case (Suc j)
    have "n \<le> j"
    proof (rule ccontr)
      assume "\<not> n \<le> j"
      then have "j < length (take n cs)" "take n cs ! j = cs ! j" using n(2) by simp_all
      then have "cs ! j \<in> set (take n cs)" using nth_mem by metis
      then have "is_cont (cs ! j)" using n(3) by (simp add: list_all_iff)
      moreover have "j < length cs" using \<open>\<not> n \<le> j\<close> n by simp
      ultimately show False using 2(4) Suc by (auto simp: is_char_boundary_def)
    qed
    have "is_char_boundary cs j" using 2(4) Suc by (simp add: is_char_boundary_def)
    then have "is_char_boundary (drop n cs) (j - n)"
      using \<open>n \<le> j\<close> 2(3) Suc by (simp add: boundary_drop)
    then have "valid_utf8 (take (j - n) (drop n cs)) \<and> valid_utf8 (drop (j - n) (drop n cs))"
      using 2(1) [OF n(1), of "j - n"] n 2(3) Suc \<open>n \<le> j\<close> by (auto simp: list_all_iff)
    moreover have "valid_utf8 (take i (c # cs))"
      unfolding Suc take_Suc_Cons valid_Cons
      using n \<open>n \<le> j\<close> 2(3) Suc calculation second_ok_take by (auto simp: min_def drop_take take_take)
    ultimately show ?thesis using Suc \<open>n \<le> j\<close> by simp
  qed
qed simp

lemma valid_append: "valid_utf8 a \<Longrightarrow> valid_utf8 b \<Longrightarrow> valid_utf8 (a @ b)"
proof (induction a rule: chars_of.induct)
  case (2 c cs)
  then obtain n where n: "tail_len c = Some n" "n \<le> length cs" "list_all is_cont (take n cs)"
    "second_ok c cs" "valid_utf8 (drop n cs)" by (auto simp: valid_Cons)
  then have "valid_utf8 (drop n cs @ b)" using 2 by auto
  with n second_ok_append [OF n(1,2,4)] show ?case unfolding append_Cons valid_Cons by auto
qed simp

lemma valid_ascii: "list_all (\<lambda>c. byte c < 128) s \<Longrightarrow> valid_utf8 s"
  by (induction s) (simp_all add: valid_Cons tail_len_def second_ok_ascii)

lemma valid_ascii_Cons: "byte c < 128 \<Longrightarrow> valid_utf8 (c # s) \<longleftrightarrow> valid_utf8 s"
  by (simp add: valid_Cons tail_len_def second_ok_ascii)

lemma valid_piece:
  assumes "valid_utf8 s" "str_get s a b = Some p"
  shows "valid_utf8 p \<and> length p = b - a \<and> a \<le> b \<and> b \<le> length s"
proof -
  have ab: "a \<le> b" "b \<le> length s" "is_char_boundary s a" "is_char_boundary s b"
    and p: "p = take (b - a) (drop a s)"
    using assms(2) by (auto simp: str_get_def split: if_splits)
  have "valid_utf8 (drop a s)" using valid_split [OF assms(1) _ ab(3)] ab by simp
  moreover have "is_char_boundary (drop a s) (b - a)" using ab by (simp add: boundary_drop)
  ultimately have "valid_utf8 p" using valid_split [of "drop a s" "b - a"] ab p by simp
  then show ?thesis using p ab by simp
qed

text \<open>After an ASCII byte there is a boundary.\<close>

lemma boundary_after_ascii:
  assumes "valid_utf8 s" "i < length s" "byte (s ! i) < 128"
  shows "is_char_boundary s (Suc i)"
proof -
  have "is_char_boundary s i" using assms by (simp add: is_char_boundary_def is_cont_def)
  then have v: "valid_utf8 (drop i s)" using valid_split [OF assms(1)] assms(2) by simp
  have d: "drop i s = s ! i # drop (Suc i) s" using assms(2) by (simp add: Cons_nth_drop_Suc)
  have "valid_utf8 (drop (Suc i) s)"
    using v unfolding d valid_Cons using assms(3) by (auto simp: tail_len_def)
  then have "is_char_boundary (drop (Suc i) s) 0" by simp
  then show ?thesis using boundary_drop [of "Suc i" "Suc i" s] assms(2) by simp
qed

lemma ws_len_cases:
  "ws_len (c # cs) = 0 \<or> (ws_len (c # cs) = 1 \<and> byte c < 128) \<or> (ws_len (c # cs) = 2 \<and> byte c = 194) \<or>
   (ws_len (c # cs) = 3 \<and> 224 \<le> byte c \<and> byte c < 240)"
proof -
  obtain r where r: "map byte (take 3 (c # cs)) = byte c # r" by simp
  show ?thesis
    unfolding ws_len_def r list.case Let_def
    by (simp split del: if_split) (simp split: if_split, linarith)
qed

lemma ws_len_tail: "ws_len s \<noteq> 0 \<Longrightarrow> s \<noteq> [] \<and> tail_len (hd s) = Some (ws_len s - 1)"
proof (cases s)
  case Nil
  then show "ws_len s \<noteq> 0 \<Longrightarrow> ?thesis" by (simp add: ws_len_def)
next
  case (Cons c cs)
  assume "ws_len s \<noteq> 0"
  with ws_len_cases [of c cs] Cons show ?thesis by (auto simp: tail_len_def)
qed

lemma valid_after_ws:
  assumes "valid_utf8 s"
  shows "valid_utf8 (drop (ws_len s) s)"
proof (cases "ws_len s = 0")
  case True
  with assms show ?thesis by simp
next
  case False
  from ws_len_tail [OF this] obtain c cs where s: "s = c # cs" "tail_len c = Some (ws_len s - 1)"
    by (cases s) auto
  moreover have "drop (ws_len s) s = drop (ws_len s - 1) cs" using False s(1) by (cases "ws_len s") auto
  ultimately show ?thesis using assms unfolding s(1) valid_Cons by auto
qed

lemma valid_trim_start: "valid_utf8 s \<Longrightarrow> valid_utf8 (trim_start s)"
proof (induction s rule: trim_start.induct)
  case (1 s)
  then show ?case
    by (cases "ws_len s = 0 \<or> s = []") (auto simp: trim_start.simps [of s] valid_after_ws)
qed

lemma boundary_trim_start:
  assumes "valid_utf8 s"
  shows "is_char_boundary s (length s - length (trim_start s))"
proof -
  let ?k = "length s - length (trim_start s)"
  have "is_char_boundary (drop ?k s) 0"
    using valid_trim_start [OF assms] trim_start_drop [of s] by (metis boundary_0)
  then show ?thesis using boundary_drop [of ?k ?k s] by simp
qed

text \<open>\<^verbatim>\<open>char_indices\<close>: the byte groups of the characters with their offsets.\<close>

fun char_offsets :: "nat \<Rightarrow> string list \<Rightarrow> (nat \<times> string) list" where
  "char_offsets i [] = []"
| "char_offsets i (g # gs) = (i, g) # char_offsets (i + length g) gs"

definition char_indices :: "string \<Rightarrow> (nat \<times> string) list" where
  "char_indices s = (case chars_of s of None \<Rightarrow> [] | Some gs \<Rightarrow> char_offsets 0 gs)"

lemma char_offsets_boundary:
  "chars_of s = Some gs \<Longrightarrow> (j, g) \<in> set (char_offsets i gs) \<Longrightarrow>
     i \<le> j \<and> j - i < length s \<and> is_char_boundary s (j - i)"
proof (induction s arbitrary: i gs rule: chars_of.induct)
  case (2 c cs)
  then obtain n gs' where n: "tail_len c = Some n" "n \<le> length cs" "list_all is_cont (take n cs)"
    "second_ok c cs" and gs': "chars_of (drop n cs) = Some gs'" and gs: "gs = (c # take n cs) # gs'"
    by (auto split: option.splits if_splits)
  have "\<not> is_cont c" using n(1) by (rule tail_len_not_cont)
  then have b0: "is_char_boundary (c # cs) 0" by (simp add: is_char_boundary_def)
  show ?case
  proof (cases "j = i \<and> g = c # take n cs")
    case True
    with b0 show ?thesis by simp
  next
    case False
    then have "(j, g) \<in> set (char_offsets (i + Suc n) gs')" using 2(3) n(2) by (auto simp: gs min_absorb2)
    from 2(1) [OF n(1) _ gs' this] n
    have IH: "i + Suc n \<le> j" "j - (i + Suc n) < length (drop n cs)"
      "is_char_boundary (drop n cs) (j - (i + Suc n))" by auto
    have "is_char_boundary (drop (Suc n) (c # cs)) ((j - i) - Suc n)" using IH(1,3) by simp
    then have "is_char_boundary (c # cs) (j - i)"
      using IH n by (subst (asm) boundary_drop) auto
    with IH show ?thesis by auto
  qed
qed auto

lemma char_indices_boundary:
  assumes "(j, g) \<in> set (char_indices s)"
  shows "j < length s \<and> is_char_boundary s j"
proof -
  obtain gs where "chars_of s = Some gs" "(j, g) \<in> set (char_offsets 0 gs)"
    using assms by (cases "chars_of s") (auto simp: char_indices_def)
  from char_offsets_boundary [OF this] show ?thesis by simp
qed

end
