(* ===== verification/Lifecycle.thy ===== *)
theory Lifecycle
  imports Lineage Utf8
begin

text \<open>
  The chunk lifecycle (\<^verbatim>\<open>loomem-core/src/storage/lifecycle.rs\<close> and its submodules): storing,
  soft and hard deletion, purging a stream, and the conditional publication of embeddings guarded
  by a generation that changes with every content change. Each operation runs under the lifecycle
  mutex, so it is one function of the store. Freshly drawn UUIDs and the clock are arguments.
\<close>

section \<open>Storing a chunk\<close>

definition invalidate_changed_source :: "chunk \<Rightarrow> chunk option \<Rightarrow> row batch_op list" where
  "invalidate_changed_source c prev =
     (case prev of
        None \<Rightarrow> []
      | Some old \<Rightarrow>
          if ch_content old \<noteq> ch_content c \<or> ch_stream old \<noteq> ch_stream c
          then [BDel (entity_key (ch_id c)), BDel (rel_key (ch_id c)),
                BDel (llm_entities_key (ch_id c))]
          else [])"

definition chunk_changed :: "chunk \<Rightarrow> chunk option \<Rightarrow> bool" where
  "chunk_changed c prev =
     (case prev of
        None \<Rightarrow> True
      | Some old \<Rightarrow> ch_content old \<noteq> ch_content c \<or> ch_stream old \<noteq> ch_stream c \<or>
                   ch_version old \<noteq> ch_version c \<or> ch_deleted_at old \<noteq> ch_deleted_at c)"

definition store_batch :: "chunk \<Rightarrow> chunk option \<Rightarrow> row \<Rightarrow> string \<Rightarrow> row batch_op list" where
  "store_batch c prev r u =
     invalidate_changed_source c prev @ [BPut (chunk_key (ch_level c) (ch_id c)) r] @
     (if chunk_changed c prev then [BPut (generation_key (ch_id c)) (VBytes u)] else [])"

definition store_chunk_locked :: "store \<Rightarrow> chunk \<Rightarrow> string \<Rightarrow> store res" where
  "store_chunk_locked st c u =
     rbind (validate_ingest_admission st c) (\<lambda>_.
     rbind (get_chunk st (ch_id c)) (\<lambda>prev.
     rbind (encode_chunk (st_prov st) c) (\<lambda>r.
       Inr (st\<lparr>st_db := kv_batch (store_batch c prev r u) (st_db st),
               st_emb := (if chunk_changed c prev \<and> ch_deleted_at c = None
                          then kv_delete (ch_id c) (st_emb st) else st_emb st)\<rparr>))))"

definition store_chunk :: "store \<Rightarrow> chunk \<Rightarrow> string \<Rightarrow> store res" where
  "store_chunk st c u = store_chunk_locked st c u"

section \<open>Embeddings\<close>

record embedding_target =
  et_id :: string
  et_content :: string
  et_generation :: "row option"

definition embedding_target_of :: "store \<Rightarrow> string \<Rightarrow> string \<Rightarrow> embedding_target option res" where
  "embedding_target_of st i expected =
     rbind (get_chunk st i) (\<lambda>co. case co of
       None \<Rightarrow> Inr None
     | Some c \<Rightarrow>
         if ch_deleted_at c \<noteq> None \<or> ch_content c \<noteq> expected then Inr None
         else Inr (Some \<lparr>et_id = i, et_content = expected,
                         et_generation = kv_get (st_db st) (generation_key i)\<rparr>))"

definition write_embedding :: "store \<Rightarrow> string \<Rightarrow> nat list \<Rightarrow> store" where
  "write_embedding st i v = st\<lparr>st_emb := kv_put i v (st_emb st)\<rparr>"

definition store_embedding_if_current ::
  "store \<Rightarrow> embedding_target \<Rightarrow> nat list \<Rightarrow> (bool \<times> store) res" where
  "store_embedding_if_current st t v =
     rbind (get_chunk st (et_id t)) (\<lambda>co. case co of
       None \<Rightarrow> Inr (False, st)
     | Some c \<Rightarrow>
         if ch_deleted_at c \<noteq> None \<or> ch_content c \<noteq> et_content t \<or>
            kv_get (st_db st) (generation_key (et_id t)) \<noteq> et_generation t
         then Inr (False, st)
         else Inr (True, write_embedding st (et_id t) v))"

section \<open>Deletion\<close>

definition delete_by_id :: "store \<Rightarrow> string \<Rightarrow> nat \<Rightarrow> string \<Rightarrow> (bool \<times> store) res" where
  "delete_by_id st i now u =
     rbind (get_chunk st i) (\<lambda>co. case co of
       None \<Rightarrow> Inr (False, st)
     | Some c \<Rightarrow>
         rbind (store_chunk_locked st (c\<lparr>ch_deleted_at := Some now\<rparr>) u) (\<lambda>st'. Inr (True, st')))"

text \<open>The deletes of a chunk in the default column family; its embedding goes in the same batch.\<close>

definition chunk_delete_ops :: "string \<Rightarrow> row batch_op list" where
  "chunk_delete_ops i =
     [BDel (chunk_key 0 i), BDel (chunk_key 1 i), BDel (chunk_key 2 i),
      BDel (entity_key i), BDel (rel_key i), BDel (llm_entities_key i), BDel (generation_key i)]"

definition paired_chunk_id :: "string \<Rightarrow> string \<Rightarrow> string option" where
  "paired_chunk_id key p =
     Option.bind (strip_prefix p key) (\<lambda>r. map_option snd (split_once (CHR '':'') r))"

definition sidecar_ops_for :: "string \<Rightarrow> string set \<Rightarrow> row cf \<Rightarrow> row batch_op list" where
  "sidecar_ops_for p ids db =
     map (\<lambda>(k, _). BDel k)
       (filter (\<lambda>(k, _). case paired_chunk_id k p of None \<Rightarrow> False | Some i \<Rightarrow> i \<in> ids)
          (kv_prefix p db))"

definition graph_sidecar_deletes :: "string set \<Rightarrow> row cf \<Rightarrow> row batch_op list" where
  "graph_sidecar_deletes ids db =
     sidecar_ops_for ''graph:labels:'' ids db @ sidecar_ops_for ''graph:edge_labels:'' ids db"

definition append_graph_sidecar_deletes :: "string set \<Rightarrow> row cf \<Rightarrow> row batch_op list res" where
  "append_graph_sidecar_deletes ids db =
     rbind (ensure (list_all (\<lambda>(k, _). valid_utf8 k)
              (kv_prefix ''graph:labels:'' db @ kv_prefix ''graph:edge_labels:'' db))
              ''invalid graph sidecar key encoding'') (\<lambda>_.
       Inr (graph_sidecar_deletes ids db))"

definition hard_delete_by_id :: "store \<Rightarrow> string \<Rightarrow> (bool \<times> store) res" where
  "hard_delete_by_id st i =
     rbind (append_graph_sidecar_deletes {i} (st_db st)) (\<lambda>ops.
       Inr (is_chunk st i,
            st\<lparr>st_db := kv_batch (chunk_delete_ops i @ ops) (st_db st),
               st_emb := kv_delete i (st_emb st)\<rparr>))"

fun purge_ids :: "provider \<Rightarrow> row cf \<Rightarrow> string \<Rightarrow> string list res" where
  "purge_ids pv [] stream = Inr []"
| "purge_ids pv ((k, r) # rs) stream =
     (case decode_chunk pv r of
        Inl e \<Rightarrow> Inl (Err ''decode chunk during purge'')
      | Inr c \<Rightarrow> rbind (purge_ids pv rs stream) (\<lambda>is.
          Inr (if ch_stream c = stream then ch_id c # is else is)))"

definition purge_namespace :: "store \<Rightarrow> string \<Rightarrow> bool \<Rightarrow> (string list \<times> store) res" where
  "purge_namespace st stream dry_run =
     rbind (purge_ids (st_prov st) (kv_prefix ''chunk:'' (st_db st)) stream) (\<lambda>ids.
     rbind (append_graph_sidecar_deletes (set ids) (st_db st)) (\<lambda>ops.
       Inr (ids,
            if dry_run then st
            else st\<lparr>st_db := kv_batch (concat (map chunk_delete_ops ids) @ ops) (st_db st),
                    st_emb := fold kv_delete ids (st_emb st)\<rparr>)))"

fun legacy_marker_ops :: "store \<Rightarrow> row cf \<Rightarrow> row batch_op list res" where
  "legacy_marker_ops st [] = Inr []"
| "legacy_marker_ops st ((k, r) # rs) =
     rbind (ensure (valid_utf8 (drop (length ''llm_entities:'') k))
              ''invalid extraction completion hint ID'') (\<lambda>_.
     rbind (if r \<noteq> VBytes ''1'' then Inr True
            else rbind (get_chunk st (drop (length ''llm_entities:'') k)) (\<lambda>co. Inr (co = None)))
       (\<lambda>stale. rbind (legacy_marker_ops st rs) (\<lambda>bs.
          Inr (if stale then BDel k # bs else bs))))"

definition cleanup_legacy_entity_markers :: "store \<Rightarrow> (nat \<times> store) res" where
  "cleanup_legacy_entity_markers st =
     rbind (legacy_marker_ops st (kv_prefix ''llm_entities:'' (st_db st))) (\<lambda>bs.
       Inr (length bs, st\<lparr>st_db := kv_batch bs (st_db st)\<rparr>))"

end
