(* ===== verification/StoreOps.thy ===== *)
theory StoreOps
  imports Lifecycle Utf8
begin

text \<open>
  The remaining operations of the chunk store (\<^verbatim>\<open>loomem-core/src/storage.rs\<close>,
  \<^verbatim>\<open>storage/consolidation.rs\<close>): flag updates, scans, boosts, retention and the embedding
  dimension guard. Every read-modify-write goes through \<^verbatim>\<open>store_chunk_locked\<close>, so each of them is
  subject to the lineage admission check.
\<close>

section \<open>Read-modify-write\<close>

definition modify_chunk :: "store \<Rightarrow> string \<Rightarrow> (chunk \<Rightarrow> chunk) \<Rightarrow> string \<Rightarrow> store res" where
  "modify_chunk st i f u =
     rbind (get_chunk st i) (\<lambda>co. case co of
       None \<Rightarrow> Inr st
     | Some c \<Rightarrow> store_chunk_locked st (f c) u)"

fun modify_all :: "store \<Rightarrow> string list \<Rightarrow> (chunk \<Rightarrow> chunk) \<Rightarrow> string \<Rightarrow> store res" where
  "modify_all st [] f u = Inr st"
| "modify_all st (i # is) f u = rbind (modify_chunk st i f u) (\<lambda>st'. modify_all st' is f u)"

definition mark_consolidated :: "store \<Rightarrow> string list \<Rightarrow> string \<Rightarrow> store res" where
  "mark_consolidated st ids u =
     modify_all st ids (\<lambda>c. c\<lparr>ch_consolidated := True, ch_in_progress := False\<rparr>) u"

definition mark_in_progress :: "store \<Rightarrow> string list \<Rightarrow> string \<Rightarrow> store res" where
  "mark_in_progress st ids u = modify_all st ids (\<lambda>c. c\<lparr>ch_in_progress := True\<rparr>) u"

definition clear_in_progress :: "store \<Rightarrow> string list \<Rightarrow> string \<Rightarrow> store res" where
  "clear_in_progress st ids u = modify_all st ids (\<lambda>c. c\<lparr>ch_in_progress := False\<rparr>) u"

definition update_score :: "store \<Rightarrow> string \<Rightarrow> rat \<Rightarrow> nat \<Rightarrow> string \<Rightarrow> store res" where
  "update_score st i new_score ts u =
     modify_chunk st i (\<lambda>c. c\<lparr>ch_score := new_score, ch_last_decay := Some ts\<rparr>) u"

definition mark_dormant :: "store \<Rightarrow> string \<Rightarrow> string \<Rightarrow> store res" where
  "mark_dormant st i u = modify_chunk st i (\<lambda>c. c\<lparr>ch_dormant := True\<rparr>) u"

definition mark_persistent :: "store \<Rightarrow> string \<Rightarrow> string \<Rightarrow> store res" where
  "mark_persistent st i u =
     rbind (get_chunk st i) (\<lambda>co. case co of
       None \<Rightarrow> Inr st
     | Some c \<Rightarrow> if ch_persistent c then Inr st
                else store_chunk_locked st (c\<lparr>ch_persistent := True\<rparr>) u)"

definition boost_score :: "store \<Rightarrow> string \<Rightarrow> string \<Rightarrow> store res" where
  "boost_score st i u = modify_chunk st i (\<lambda>c. c\<lparr>ch_score := 1\<rparr>) u"

definition boost_importance :: "store \<Rightarrow> string \<Rightarrow> string \<Rightarrow> store res" where
  "boost_importance st i u =
     modify_chunk st i (\<lambda>c. c\<lparr>ch_importance := Some (3 / 2), ch_score := 1\<rparr>) u"

definition increment_access_count :: "store \<Rightarrow> string \<Rightarrow> string \<Rightarrow> store res" where
  "increment_access_count st i u =
     modify_chunk st i (\<lambda>c. c\<lparr>ch_access_count := min (Suc (ch_access_count c)) u32_max\<rparr>) u"

text \<open>The cooldown subtracts two \<^verbatim>\<open>u64\<close> values in release mode, where it wraps.\<close>

definition wrapping_sub64 :: "nat \<Rightarrow> nat \<Rightarrow> nat" where
  "wrapping_sub64 a b = (if b \<le> a then a - b else a + (u64_max + 1) - b)"

definition implicit_boost ::
  "store \<Rightarrow> string \<Rightarrow> rat \<Rightarrow> rat \<Rightarrow> nat \<Rightarrow> nat \<Rightarrow> string \<Rightarrow> (bool \<times> store) res" where
  "implicit_boost st i delta max_importance cooldown now u =
     rbind (get_chunk st i) (\<lambda>co. case co of
       None \<Rightarrow> Inr (False, st)
     | Some c \<Rightarrow>
         if (case ch_last_implicit_boost c of None \<Rightarrow> False
             | Some boosted_at \<Rightarrow> wrapping_sub64 now boosted_at < cooldown)
         then Inr (False, st)
         else
           let current = (case ch_importance c of None \<Rightarrow> 1 | Some x \<Rightarrow> x)
           in rbind (store_chunk_locked st
                (c\<lparr>ch_importance := Some (min (current + delta) max_importance),
                   ch_last_implicit_boost := Some now\<rparr>) u)
              (\<lambda>st'. Inr (True, st')))"

section \<open>Scans\<close>

definition eligible :: "chunk \<Rightarrow> nat \<Rightarrow> nat \<Rightarrow> bool" where
  "eligible c now min_age \<longleftrightarrow>
     \<not> ch_consolidated c \<and> \<not> ch_in_progress c \<and> \<not> ch_dormant c \<and> ch_is_latest c \<and>
     ch_deleted_at c = None \<and> ch_timestamp c \<le> now \<and> min_age \<le> now - ch_timestamp c"

fun scan_l0_loop :: "provider \<Rightarrow> nat \<Rightarrow> nat \<Rightarrow> nat \<Rightarrow> row cf \<Rightarrow> chunk list \<Rightarrow> chunk list" where
  "scan_l0_loop pv now min_age limit [] acc = acc"
| "scan_l0_loop pv now min_age limit ((k, r) # rs) acc =
     (if limit \<le> length acc then acc
      else scan_l0_loop pv now min_age limit rs
        (case decode_chunk pv r of
           Inr c \<Rightarrow> if eligible c now min_age then acc @ [c] else acc
         | Inl e \<Rightarrow> acc))"

definition scan_l0_unconsolidated :: "store \<Rightarrow> nat \<Rightarrow> nat \<Rightarrow> nat \<Rightarrow> chunk list" where
  "scan_l0_unconsolidated st min_age limit now =
     scan_l0_loop (st_prov st) now min_age limit (kv_prefix ''chunk:L0:'' (st_db st)) []"

text \<open>The rows of levels 0 and 1 in scan order, and the chunks that decode.\<close>

definition level_rows :: "store \<Rightarrow> row cf" where
  "level_rows st = kv_prefix ''chunk:L0:'' (st_db st) @ kv_prefix ''chunk:L1:'' (st_db st)"

definition decoded :: "provider \<Rightarrow> row cf \<Rightarrow> chunk list" where
  "decoded pv rs =
     List.map_filter (\<lambda>(k, r). case decode_chunk pv r of Inr c \<Rightarrow> Some c | Inl e \<Rightarrow> None) rs"

definition scan_for_decay :: "store \<Rightarrow> rat \<Rightarrow> chunk list" where
  "scan_for_decay st min_score =
     filter (\<lambda>c. \<not> ch_dormant c \<and> ch_deleted_at c = None \<and> ch_score c > min_score)
       (decoded (st_prov st) (level_rows st))"

definition get_all_chunks :: "store \<Rightarrow> nat \<Rightarrow> chunk list \<times> store" where
  "get_all_chunks st now =
     (let results = map (\<lambda>(k, r). decode_chunk (st_prov st) r) (level_rows st);
          summary = finish_scan now (scan_rows results (new_scan canonical_full_scan))
      in (filter (\<lambda>c. ch_deleted_at c = None) (decoded (st_prov st) (level_rows st)),
          if st_at_rest_key_present st \<and> \<not> pv_enabled (st_prov st) then st
          else st\<lparr>st_last_scan := Some summary\<rparr>))"

definition list_active_streams :: "store \<Rightarrow> string list" where
  "list_active_streams st =
     sorted_list_of_set
       (ch_stream ` set (filter (\<lambda>c. ch_deleted_at c = None)
          (decoded (st_prov st) (level_rows st))))"

fun store_each :: "store \<Rightarrow> chunk list \<Rightarrow> string \<Rightarrow> store res" where
  "store_each st [] u = Inr st"
| "store_each st (c # cs) u = rbind (store_chunk_locked st c u) (\<lambda>st'. store_each st' cs u)"

text \<open>Both loops iterate over a snapshot of the rows while writing the changed chunks back.\<close>

definition recover_orphaned_chunks :: "store \<Rightarrow> string \<Rightarrow> (nat \<times> store) res" where
  "recover_orphaned_chunks st u =
     (let orphans = filter (\<lambda>c. ch_deleted_at c = None \<and> ch_in_progress c)
                      (decoded (st_prov st) (level_rows st))
      in rbind (store_each st (map (\<lambda>c. c\<lparr>ch_in_progress := False\<rparr>) orphans) u)
           (\<lambda>st'. Inr (length orphans, st')))"

definition reset_all_importance :: "store \<Rightarrow> string \<Rightarrow> (nat \<times> store) res" where
  "reset_all_importance st u =
     (let boosted = filter (\<lambda>c. ch_importance c \<noteq> None \<or> ch_last_implicit_boost c \<noteq> None)
                      (decoded (st_prov st) (level_rows st))
      in rbind (store_each st
           (map (\<lambda>c. c\<lparr>ch_importance := None, ch_last_implicit_boost := None\<rparr>) boosted) u)
           (\<lambda>st'. Inr (length boosted, st')))"

definition expired_in :: "provider \<Rightarrow> nat \<Rightarrow> row cf \<Rightarrow> string list" where
  "expired_in pv cutoff rs =
     map ch_id (filter (\<lambda>c. case ch_deleted_at c of None \<Rightarrow> False | Some d \<Rightarrow> d \<le> cutoff)
       (decoded pv rs))"

definition find_expired_soft_deleted :: "store \<Rightarrow> nat \<Rightarrow> nat \<Rightarrow> string list" where
  "find_expired_soft_deleted st retention_days now =
     (let cutoff = now - wrap64 (retention_days * 86400)
      in concat (map (\<lambda>lv. expired_in (st_prov st) cutoff
           (kv_from (''chunk:L'' @ show_int lv @ '':'') (st_db st))) [0, 1, 2]))"

section \<open>Embedding dimension and flags\<close>

definition stored_embedding_dim :: "store \<Rightarrow> nat option" where
  "stored_embedding_dim st =
     (case kv_get (st_db st) ''meta:embedding_dim'' of
        Some (VBytes b) \<Rightarrow> parse_uint u64_max (trim b)
      | _ \<Rightarrow> None)"

definition set_embedding_dim :: "nat \<Rightarrow> store \<Rightarrow> store" where
  "set_embedding_dim d st =
     st\<lparr>st_db := kv_put ''meta:embedding_dim'' (VBytes (show_nat d)) (st_db st)\<rparr>"

definition sampled_embedding_dim :: "store \<Rightarrow> nat option" where
  "sampled_embedding_dim st = (case st_emb st of [] \<Rightarrow> None | (k, v) # _ \<Rightarrow> Some (length v))"

definition validate_and_record_embedding_dim ::
  "store \<Rightarrow> nat \<Rightarrow> store res" where
  "validate_and_record_embedding_dim st configured =
     (let existing = (case stored_embedding_dim st of
                        Some d \<Rightarrow> Some d | None \<Rightarrow> sampled_embedding_dim st)
      in case existing of
           Some d \<Rightarrow> if d = configured then Inr (set_embedding_dim configured st)
                     else Inl (Err ''embedding dimension mismatch'')
         | None \<Rightarrow> Inr (set_embedding_dim configured st))"

definition get_schema_version :: "store \<Rightarrow> nat res" where
  "get_schema_version st =
     (case kv_get (st_db st) ''meta:schema_version'' of
        Some (VBytes b) \<Rightarrow> (case parse_uint u32_max b of Some v \<Rightarrow> Inr v
                           | None \<Rightarrow> Inl (Err ''Failed to parse schema version''))
      | Some (VChunk sc) \<Rightarrow> Inl (Err ''Failed to parse schema version'')
      | None \<Rightarrow> Inr 1)"

definition set_schema_version :: "nat \<Rightarrow> store \<Rightarrow> store" where
  "set_schema_version v st =
     st\<lparr>st_db := kv_put ''meta:schema_version'' (VBytes (show_nat v)) (st_db st)\<rparr>"

definition get_tantivy_rebuild_needed :: "store \<Rightarrow> bool" where
  "get_tantivy_rebuild_needed st =
     (case kv_get (st_db st) ''meta:tantivy_rebuild_needed'' of
        Some (VBytes b) \<Rightarrow> b = ''1'' | _ \<Rightarrow> False)"

definition set_tantivy_rebuild_needed :: "bool \<Rightarrow> store \<Rightarrow> store" where
  "set_tantivy_rebuild_needed needed st =
     st\<lparr>st_db := kv_put ''meta:tantivy_rebuild_needed''
          (VBytes (if needed then ''1'' else ''0'')) (st_db st)\<rparr>"

end
