(* ===== verification/StoreProps.thy ===== *)
theory StoreProps
  imports StoreOps
begin

text \<open>
  What the store guarantees. The first part relates the lineage walks to reachability in the parent
  graph, the second gives the effect of each lifecycle operation key by key, the third shows the
  well-formedness of the database is an invariant of all of them, and the last proves the
  properties: what admission guarantees, what deletion removes, and that an embedding computed for
  a chunk that has changed since is never published.
\<close>

section \<open>Lineage walks are reachability\<close>

definition ancestors_step :: "store \<Rightarrow> string \<Rightarrow> string set" where
  "ancestors_step st x =
     (case get_chunk st x of Inr (Some p) \<Rightarrow> set (parents p) | _ \<Rightarrow> {})"

definition bad_ancestor :: "store \<Rightarrow> string \<Rightarrow> string \<Rightarrow> bool" where
  "bad_ancestor st stream x \<longleftrightarrow>
     (case get_chunk st x of
        Inr (Some p) \<Rightarrow> ch_deleted_at p \<noteq> None \<or> ch_stream p \<noteq> stream
      | _ \<Rightarrow> True)"

definition owned_id :: "store \<Rightarrow> string \<Rightarrow> bool" where
  "owned_id st x \<longleftrightarrow> (case get_chunk st x of Inr (Some p) \<Rightarrow> is_owned p | _ \<Rightarrow> False)"

lemma ancestry_loop_reach:
  "ancestry_loop st stream ps vis ow iv = Inr (ow', iv') \<Longrightarrow>
     (ow' \<longleftrightarrow> ow \<or> (\<exists>x \<in> reach_av (ancestors_step st) vis (set ps). owned_id st x)) \<and>
     (iv' \<longleftrightarrow> iv \<or> (\<exists>x \<in> reach_av (ancestors_step st) vis (set ps). bad_ancestor st stream x))"
proof (induction st stream ps vis ow iv rule: ancestry_loop.induct)
  case (1 st stream vis ow iv)
  then show ?case by simp
next
  case (2 st stream x ps vis ow iv)
  show ?case
  proof (cases "x \<in> vis")
    case True
    with 2 show ?thesis by (simp add: reach_av_visited)
  next
    case False
    note visit = reach_av_visit [OF False, of "ancestors_step st" "set ps"]
    from 2(4) False obtain po where g: "get_chunk st x = Inr po" by (auto split: sum.splits)
    show ?thesis
    proof (cases po)
      case None
      have x: "ancestors_step st x = {}" "bad_ancestor st stream x" "\<not> owned_id st x"
        using g None by (simp_all add: ancestors_step_def bad_ancestor_def owned_id_def)
      from 2(2) [OF False g None] 2(4) False g None show ?thesis
        by (simp add: visit x)
    next
      case (Some p)
      have x: "ancestors_step st x = set (parents p)"
        "bad_ancestor st stream x \<longleftrightarrow> ch_deleted_at p \<noteq> None \<or> ch_stream p \<noteq> stream"
        "owned_id st x \<longleftrightarrow> is_owned p"
        using g Some by (simp_all add: ancestors_step_def bad_ancestor_def owned_id_def)
      from 2(3) [OF False g Some] 2(4) False g Some show ?thesis
        by (simp add: visit x disj_assoc)
    qed
  qed
qed

lemma descend_reach:
  "descend rows stream q vis = vis \<union> reach_av (\<lambda>x. set (children_of rows stream x)) vis (set q)"
proof (induction rows stream q vis rule: descend.induct)
  case (2 rows stream x queue vis)
  show ?case
  proof (cases "x \<in> vis")
    case True
    with 2 show ?thesis by (simp add: reach_av_visited)
  next
    case False
    with 2 show ?thesis
      by (simp add: reach_av_visit [OF False] Un_commute)
  qed
qed simp

definition child_rel :: "(string \<times> chunk) list \<Rightarrow> string \<Rightarrow> (string \<times> string) set" where
  "child_rel rows stream =
     {(p, ch_id c) | p c k. (k, c) \<in> set rows \<and> ch_stream c = stream \<and> p \<in> set (parents c)}"

lemma children_rel: "{(x, y). y \<in> set (children_of rows stream x)} = child_rel rows stream"
proof -
  have "y \<in> set (children_of rows stream x) \<longleftrightarrow>
      (\<exists>(k, c) \<in> set rows. ch_stream c = stream \<and> x \<in> set (parents c) \<and> y = ch_id c)" for x y
    unfolding children_of_def by (induction rows) auto
  then show ?thesis unfolding child_rel_def by blast
qed

lemma descendant_ids_closure:
  "descendant_ids rows i stream = {y. (i, y) \<in> (child_rel rows stream)\<^sup>*}"
  by (simp add: descendant_ids_def descend_reach reach_av_rtrancl children_rel)

section \<open>Effects, key by key\<close>

lemma get_chunk_cong:
  assumes "st_prov st' = st_prov st"
    and "\<And>lv. kv_get (st_db st') (chunk_key lv i) = kv_get (st_db st) (chunk_key lv i)"
  shows "get_chunk st' i = get_chunk st i"
  using assms(1) by (simp add: get_chunk_def assms(2) split: option.split)

lemma store_chunk_lockedE:
  assumes "store_chunk_locked st c u = Inr st'"
  obtains prev r where "validate_ingest_admission st c = Inr ()"
    "get_chunk st (ch_id c) = Inr prev" "encode_chunk (st_prov st) c = Inr r"
    "st' = st\<lparr>st_db := kv_batch (store_batch c prev r u) (st_db st),
               st_emb := (if chunk_changed c prev \<and> ch_deleted_at c = None
                          then kv_delete (ch_id c) (st_emb st) else st_emb st)\<rparr>"
  using assms by (auto simp: store_chunk_locked_def split: sum.splits)

lemma store_batch_get:
  "kv_get (kv_batch (store_batch c prev r u) db) k =
     (if k = generation_key (ch_id c) \<and> chunk_changed c prev then Some (VBytes u)
      else if k = chunk_key (ch_level c) (ch_id c) then Some r
      else if invalidate_changed_source c prev \<noteq> [] \<and>
              k \<in> {entity_key (ch_id c), rel_key (ch_id c), llm_entities_key (ch_id c)} then None
      else kv_get db k)"
  by (auto simp: store_batch_def invalidate_changed_source_def map_of_kv_put map_of_kv_delete
      split: option.splits)


lemma decode_rows_set:
  "decode_rows pv rs = Inr rows \<Longrightarrow>
     (k, c) \<in> set rows \<longleftrightarrow> (\<exists>r. (k, r) \<in> set rs \<and> decode_chunk pv r = Inr c)"
proof (induction rs arbitrary: rows)
  case (Cons x rs)
  obtain k' r' where x: "x = (k', r')" by force
  obtain c' rows' where d: "decode_chunk pv r' = Inr c'" and i: "decode_rows pv rs = Inr rows'"
    and rows: "rows = (k', c') # rows'"
    using Cons.prems by (auto simp: x split: sum.splits)
  show ?case using Cons.IH [OF i] d by (auto simp: x rows)
qed simp

lemma decode_rows_total:
  "decode_rows pv rs = Inr rows \<Longrightarrow> (k, r) \<in> set rs \<Longrightarrow> \<exists>c. decode_chunk pv r = Inr c \<and> (k, c) \<in> set rows"
  by (induction rs arbitrary: rows) (auto split: sum.splits)

definition to_tombstone :: "string \<Rightarrow> string set \<Rightarrow> chunk \<Rightarrow> bool" where
  "to_tombstone stream ids c \<longleftrightarrow> ch_stream c = stream \<and> ch_id c \<in> ids \<and> ch_deleted_at c = None"

lemma tombstone_batch_mem:
  "tombstone_batch pv rows stream ids t us = Inr bs \<Longrightarrow>
     b \<in> set bs \<longleftrightarrow> (\<exists>k c r. (k, c) \<in> set rows \<and> to_tombstone stream ids c \<and>
       encode_chunk pv (c\<lparr>ch_deleted_at := Some t\<rparr>) = Inr r \<and>
       (b = BPut k r \<or> b = BPut (generation_key (ch_id c)) (VBytes (us (ch_id c)))))"
proof (induction rows arbitrary: bs)
  case (Cons row rows)
  obtain k c where row: "row = (k, c)" by force
  show ?case
  proof (cases "to_tombstone stream ids c")
    case False
    then have "tombstone_batch pv rows stream ids t us = Inr bs"
      using Cons.prems by (simp add: row to_tombstone_def split: if_splits)
    from Cons.IH [OF this] show ?thesis using False by (simp add: row) blast
  next
    case True
    then obtain r bs' where r: "encode_chunk pv (c\<lparr>ch_deleted_at := Some t\<rparr>) = Inr r"
      and bs': "tombstone_batch pv rows stream ids t us = Inr bs'"
      and bs: "bs = BPut k r # BPut (generation_key (ch_id c)) (VBytes (us (ch_id c))) # bs'"
      using Cons.prems by (auto simp: row to_tombstone_def)
    show ?thesis
      unfolding bs row set_simps insert_iff Cons.IH [OF bs'] using True r
      by (auto simp del: split_paired_Ex)
  qed
qed simp

lemma tombstone_batch_total:
  "tombstone_batch pv rows stream ids t us = Inr bs \<Longrightarrow> (k, c) \<in> set rows \<Longrightarrow>
     to_tombstone stream ids c \<Longrightarrow> \<exists>r. encode_chunk pv (c\<lparr>ch_deleted_at := Some t\<rparr>) = Inr r"
  by (induction rows arbitrary: bs) (auto simp: to_tombstone_def split: if_splits)

lemma purge_ids_set:
  "purge_ids pv rs stream = Inr ids \<Longrightarrow>
     i \<in> set ids \<longleftrightarrow> (\<exists>k r c. (k, r) \<in> set rs \<and> decode_chunk pv r = Inr c \<and> ch_stream c = stream \<and> ch_id c = i)"
proof (induction rs arbitrary: ids)
  case (Cons x rs)
  obtain k r where x: "x = (k, r)" by force
  obtain c ids' where d: "decode_chunk pv r = Inr c" and i: "purge_ids pv rs stream = Inr ids'"
    and ids: "ids = (if ch_stream c = stream then ch_id c # ids' else ids')"
    using Cons.prems by (auto simp: x split: sum.splits)
  show ?case using Cons.IH [OF i] d by (auto simp: x ids)
qed simp

lemma fold_kv_delete:
  "map_of (fold kv_delete ids d) k = (if k \<in> set ids then None else map_of d k)"
  by (induction ids arbitrary: d) (auto simp: map_of_kv_delete)

lemma kv_sorted_fold_delete: "kv_sorted d \<Longrightarrow> kv_sorted (fold kv_delete ids d)"
  by (induction ids arbitrary: d) (auto simp: kv_sorted_delete)

text \<open>The keys that belong to a chunk id besides its graph sidecars.\<close>

definition derived_keys :: "string \<Rightarrow> string set" where
  "derived_keys i = {chunk_key 0 i, chunk_key 1 i, chunk_key 2 i, entity_key i, rel_key i,
     llm_entities_key i, generation_key i}"

definition sidecar_key :: "string set \<Rightarrow> string \<Rightarrow> bool" where
  "sidecar_key ids k \<longleftrightarrow> (\<exists>p \<in> {''graph:labels:'', ''graph:edge_labels:''}.
     starts_with k p \<and> (\<exists>i \<in> ids. paired_chunk_id k p = Some i))"

lemma sidecar_ops_mem:
  "b \<in> set (sidecar_ops_for p ids db) \<longleftrightarrow>
     (\<exists>k. b = BDel k \<and> k \<in> fst ` set db \<and> starts_with k p \<and> (\<exists>i \<in> ids. paired_chunk_id k p = Some i))"
  by (force simp: sidecar_ops_for_def kv_prefix_def split: option.splits)

lemma sidecar_key_other [simp]:
  "sidecar_key ids k \<Longrightarrow> k \<noteq> chunk_key lv i" "sidecar_key ids k \<Longrightarrow> k \<noteq> generation_key i"
  by (auto simp: sidecar_key_def chunk_key_def generation_key_def)

lemma delete_batch_get:
  "kv_get (kv_batch (concat (map chunk_delete_ops ids) @ graph_sidecar_deletes (set ids) db) db) k =
     (if (\<exists>i \<in> set ids. k \<in> derived_keys i) \<or> sidecar_key (set ids) k then None else kv_get db k)"
  (is "kv_get (kv_batch ?bs db) k = _")
proof -
  have "kv_get (kv_batch ?bs db) k = (if BDel k \<in> set ?bs then None else kv_get db k)"
    by (rule rocks.batch_deletes)
      (auto simp: chunk_delete_ops_def graph_sidecar_deletes_def sidecar_ops_mem)
  moreover have "BDel k \<in> set ?bs \<longleftrightarrow> (\<exists>i \<in> set ids. k \<in> derived_keys i) \<or>
      (k \<in> fst ` set db \<and> sidecar_key (set ids) k)"
    by (auto simp: chunk_delete_ops_def derived_keys_def graph_sidecar_deletes_def sidecar_ops_mem
        sidecar_key_def)
  moreover have "kv_get db k = None" if "k \<notin> fst ` set db"
    using that by (simp add: map_of_eq_None_iff)
  ultimately show ?thesis by auto
qed

section \<open>Well-formed stores\<close>

text \<open>
  Rows are ordered, the provider keeps its contract, and a chunk row that decodes stands under the
  key of the chunk it decodes to.
\<close>

definition row_keyed :: "provider \<Rightarrow> string \<Rightarrow> row \<Rightarrow> bool" where
  "row_keyed pv k r \<longleftrightarrow>
     (\<forall>c. starts_with k ''chunk:'' \<longrightarrow> decode_chunk pv r = Inr c \<longrightarrow> k = chunk_key (ch_level c) (ch_id c))"

definition store_ok :: "store \<Rightarrow> bool" where
  "store_ok st \<longleftrightarrow> kv_sorted (st_db st) \<and> kv_sorted (st_emb st) \<and> provider_ok (st_prov st) \<and>
     (\<forall>k r. kv_get (st_db st) k = Some r \<longrightarrow> row_keyed (st_prov st) k r)"

lemma chunk_key_prefix [simp]: "starts_with (chunk_key lv i) ''chunk:''"
  by (simp add: chunk_key_def)

lemma generation_key_no_chunk [simp]: "\<not> starts_with (generation_key i) ''chunk:''"
  by (simp add: generation_key_def)

lemma keyed_batch:
  assumes "\<forall>k r. kv_get db k = Some r \<longrightarrow> row_keyed pv k r"
    and "\<forall>b \<in> set bs. case b of BPut k r \<Rightarrow> row_keyed pv k r | BDel k \<Rightarrow> True"
  shows "\<forall>k r. kv_get (kv_batch bs db) k = Some r \<longrightarrow> row_keyed pv k r"
  using assms
proof (induction bs arbitrary: db)
  case (Cons b bs)
  show ?case
  proof (cases b)
    case (BPut k r)
    have "\<forall>k' r'. kv_get (kv_put k r db) k' = Some r' \<longrightarrow> row_keyed pv k' r'"
      using Cons.prems BPut by (simp add: map_of_kv_put)
    from Cons.IH [OF this] show ?thesis using Cons.prems(2) BPut by simp
  next
    case (BDel k)
    have "\<forall>k' r'. kv_get (kv_delete k db) k' = Some r' \<longrightarrow> row_keyed pv k' r'"
      using Cons.prems by (simp add: map_of_kv_delete)
    from Cons.IH [OF this] show ?thesis using Cons.prems(2) BDel by simp
  qed
qed simp

lemma row_keyed_encode:
  "provider_ok pv \<Longrightarrow> encode_chunk pv c = Inr r \<Longrightarrow> row_keyed pv (chunk_key (ch_level c) (ch_id c)) r"
  by (simp add: row_keyed_def decode_encode)

lemma row_keyed_generation [simp]: "row_keyed pv (generation_key i) r"
  by (simp add: row_keyed_def)

lemma store_ok_db:
  assumes "store_ok st" "st' = st\<lparr>st_db := kv_batch bs (st_db st), st_emb := e\<rparr>" "kv_sorted e"
    and "\<forall>b \<in> set bs. case b of BPut k r \<Rightarrow> row_keyed (st_prov st) k r | BDel k \<Rightarrow> True"
  shows "store_ok st'"
  using assms keyed_batch [of "st_db st" "st_prov st" bs]
  by (simp add: store_ok_def rocks.inv_batch)

lemma get_chunk_found:
  assumes "get_chunk st i = Inr (Some c)"
  shows "\<exists>lv r. lv \<in> {0, 1, 2} \<and> kv_get (st_db st) (chunk_key lv i) = Some r \<and>
    decode_chunk (st_prov st) r = Inr c"
  using assms by (auto simp: get_chunk_def split: option.splits)

lemma get_chunk_id:
  assumes "store_ok st" "get_chunk st i = Inr (Some c)"
  shows "ch_id c = i \<and> ch_level c \<in> {0, 1, 2}"
proof -
  obtain lv r where r: "lv \<in> {0, 1, 2}" "kv_get (st_db st) (chunk_key lv i) = Some r"
    "decode_chunk (st_prov st) r = Inr c"
    using get_chunk_found [OF assms(2)] by blast
  then have "row_keyed (st_prov st) (chunk_key lv i) r"
    using assms(1) unfolding store_ok_def by blast
  with r(3) have "chunk_key lv i = chunk_key (ch_level c) (ch_id c)"
    unfolding row_keyed_def by simp
  with r(1) show ?thesis by auto
qed

lemma lineage_rows_mem:
  assumes "store_ok st" "lineage_rows st = Inr rows"
  shows "(k, c) \<in> set rows \<longleftrightarrow> starts_with k ''chunk:'' \<and>
    (\<exists>r. kv_get (st_db st) k = Some r \<and> decode_chunk (st_prov st) r = Inr c)"
  using decode_rows_set [of "st_prov st" "kv_prefix ''chunk:'' (st_db st)" rows k c] assms
  by (auto simp: lineage_rows_def store_ok_def kv_prefix_get)

lemma lineage_rows_keyed:
  assumes "store_ok st" "lineage_rows st = Inr rows" "(k, c) \<in> set rows"
  shows "k = chunk_key (ch_level c) (ch_id c)"
proof -
  obtain r where r: "starts_with k ''chunk:''" "kv_get (st_db st) k = Some r"
    "decode_chunk (st_prov st) r = Inr c"
    using assms lineage_rows_mem by blast
  then have "row_keyed (st_prov st) k r" using assms(1) unfolding store_ok_def by blast
  with r show ?thesis unfolding row_keyed_def by blast
qed

section \<open>Steps of the store\<close>

datatype life_op =
    OStore chunk string
  | ODelete string nat string
  | OTombstone string nat "string \<Rightarrow> string"
  | OHardDelete string
  | OPurge string bool
  | OEmbed embedding_target "nat list"

text \<open>A failing operation changes nothing.\<close>

fun life_step :: "life_op \<Rightarrow> store \<Rightarrow> store" where
  "life_step (OStore c u) st = (case store_chunk st c u of Inl e \<Rightarrow> st | Inr st' \<Rightarrow> st')"
| "life_step (ODelete i now u) st = (case delete_by_id st i now u of Inl e \<Rightarrow> st | Inr (b, st') \<Rightarrow> st')"
| "life_step (OTombstone i t us) st =
     (case tombstone_ingest_source st i t us of Inl e \<Rightarrow> st | Inr (r, st') \<Rightarrow> st')"
| "life_step (OHardDelete i) st = (case hard_delete_by_id st i of Inl e \<Rightarrow> st | Inr (b, st') \<Rightarrow> st')"
| "life_step (OPurge s dry) st = (case purge_namespace st s dry of Inl e \<Rightarrow> st | Inr (r, st') \<Rightarrow> st')"
| "life_step (OEmbed t v) st =
     (case store_embedding_if_current st t v of Inl e \<Rightarrow> st | Inr (b, st') \<Rightarrow> st')"

lemma store_locked_prov: "store_chunk_locked st c u = Inr st' \<Longrightarrow> st_prov st' = st_prov st"
  by (erule store_chunk_lockedE) simp

lemma store_locked_ok:
  assumes "store_ok st" "store_chunk_locked st c u = Inr st'"
  shows "store_ok st'"
  using assms(2)
proof (rule store_chunk_lockedE)
  fix prev r
  let ?e = "if chunk_changed c prev \<and> ch_deleted_at c = None then kv_delete (ch_id c) (st_emb st)
    else st_emb st"
  assume r: "encode_chunk (st_prov st) c = Inr r"
    and st': "st' = st\<lparr>st_db := kv_batch (store_batch c prev r u) (st_db st), st_emb := ?e\<rparr>"
  have "kv_sorted ?e" using assms(1) by (simp add: store_ok_def kv_sorted_delete)
  moreover have "row_keyed (st_prov st) (chunk_key (ch_level c) (ch_id c)) r"
    using assms(1) r by (simp add: row_keyed_encode store_ok_def)
  ultimately show ?thesis
    by (intro store_ok_db [OF assms(1) st'])
      (auto simp: store_batch_def invalidate_changed_source_def split: option.splits)
qed

lemma hard_deleteE:
  assumes "hard_delete_by_id st i = Inr (b, st')"
  shows "b = is_chunk st i \<and>
    st' = st\<lparr>st_db := kv_batch (concat (map chunk_delete_ops [i]) @ graph_sidecar_deletes (set [i]) (st_db st))
                (st_db st), st_emb := kv_delete i (st_emb st)\<rparr>"
  using assms by (auto simp: hard_delete_by_id_def append_graph_sidecar_deletes_def)

lemma hard_delete_ok:
  assumes "store_ok st" "hard_delete_by_id st i = Inr (b, st')"
  shows "store_ok st'"
  by (rule store_ok_db [OF assms(1) conjunct2 [OF hard_deleteE [OF assms(2)]]])
    (use assms(1) in \<open>auto simp: store_ok_def kv_sorted_delete chunk_delete_ops_def
       graph_sidecar_deletes_def sidecar_ops_mem\<close>)

lemma purge_ok:
  assumes "store_ok st" "purge_namespace st s dry = Inr (ids, st')"
  shows "store_ok st'"
proof (cases dry)
  case True
  with assms show ?thesis by (auto simp: purge_namespace_def)
next
  case False
  then have st': "st' = st\<lparr>st_db := kv_batch (concat (map chunk_delete_ops ids) @
      graph_sidecar_deletes (set ids) (st_db st)) (st_db st), st_emb := fold kv_delete ids (st_emb st)\<rparr>"
    using assms(2) by (auto simp: purge_namespace_def append_graph_sidecar_deletes_def)
  show ?thesis
    by (rule store_ok_db [OF assms(1) st'])
      (use assms(1) in \<open>auto simp: store_ok_def kv_sorted_fold_delete chunk_delete_ops_def
         graph_sidecar_deletes_def sidecar_ops_mem\<close>)
qed

lemma tombstone_cases:
  assumes "tombstone_ingest_source st i t us = Inr (res, st')"
  obtains "res = None" "st' = st"
    "\<forall>source. get_chunk st i = Inr (Some source) \<longrightarrow> \<not> is_ingest_source source"
  | source rows bs where "get_chunk st i = Inr (Some source)" "is_ingest_source source"
      "lineage_rows st = Inr rows"
      "tombstone_batch (st_prov st) rows (ch_stream source)
         (descendant_ids rows i (ch_stream source)) t us = Inr bs"
      "st' = st\<lparr>st_db := kv_batch bs (st_db st)\<rparr>"
      "res = Some (sorted_list_of_set (descendant_ids rows i (ch_stream source)))"
proof -
  obtain so where so: "get_chunk st i = Inr so"
    using assms by (auto simp: tombstone_ingest_source_def)
  show thesis
  proof (cases so)
    case None
    with assms so show ?thesis by (intro that(1)) (simp_all add: tombstone_ingest_source_def)
  next
    case (Some source)
    show ?thesis
    proof (cases "is_ingest_source source")
      case False
      with assms so Some show ?thesis by (intro that(1)) (simp_all add: tombstone_ingest_source_def)
    next
      case True
      with assms so Some obtain rows where rows: "lineage_rows st = Inr rows"
        by (auto simp: tombstone_ingest_source_def)
      let ?ids = "descendant_ids rows i (ch_stream source)"
      have w: "rbind (write_lineage_tombstones st rows (ch_stream source) ?ids t us)
          (\<lambda>st'. Inr (Some (sorted_list_of_set ?ids), st')) = Inr (res, st')"
        using assms unfolding tombstone_ingest_source_def so Some rbind.simps option.case rows Let_def
        by (simp only: True simp_thms if_False)
      then obtain bs where "tombstone_batch (st_prov st) rows (ch_stream source) ?ids t us = Inr bs"
        unfolding write_lineage_tombstones_def by fastforce
      with w so Some True rows show ?thesis
        by (intro that(2)) (auto simp: write_lineage_tombstones_def)
    qed
  qed
qed

lemma tombstone_ok:
  assumes ok: "store_ok st" and t: "tombstone_ingest_source st i t us = Inr (res, st')"
  shows "store_ok st'"
  using t
proof (cases rule: tombstone_cases)
  case 1
  with ok show ?thesis by simp
next
  case (2 source rows bs)
  have "row_keyed (st_prov st) k r" if mem: "BPut k r \<in> set bs" for k r
  proof -
    obtain k0 c r0 where c: "(k0, c) \<in> set rows"
      and r0: "encode_chunk (st_prov st) (c\<lparr>ch_deleted_at := Some t\<rparr>) = Inr r0"
      and b: "BPut k r = BPut k0 r0 \<or> BPut k r = BPut (generation_key (ch_id c)) (VBytes (us (ch_id c)))"
      using tombstone_batch_mem [OF 2(4), of "BPut k r"] mem by blast
    have "k0 = chunk_key (ch_level c) (ch_id c)" by (rule lineage_rows_keyed [OF ok 2(3) c])
    moreover have "row_keyed (st_prov st) (chunk_key (ch_level c) (ch_id c)) r0"
      using row_keyed_encode [OF _ r0] ok by (simp add: store_ok_def)
    ultimately show ?thesis using b by auto
  qed
  then have *: "\<forall>b \<in> set bs. case b of BPut k r \<Rightarrow> row_keyed (st_prov st) k r | BDel k \<Rightarrow> True"
    by (auto split: batch_op.splits)
  have "st' = st\<lparr>st_db := kv_batch bs (st_db st), st_emb := st_emb st\<rparr>" using 2(5) by simp
  from store_ok_db [OF ok this _ *] ok show ?thesis by (simp add: store_ok_def)
qed

lemma life_step_ok:
  assumes ok: "store_ok st"
  shows "store_ok (life_step x st)"
proof (cases x)
  case (OStore c u)
  show ?thesis
    by (cases "store_chunk st c u")
      (auto simp: OStore ok store_chunk_def intro: store_locked_ok [OF ok])
next
  case (ODelete i now u)
  have "store_ok st'" if d: "delete_by_id st i now u = Inr (b, st')" for b st'
  proof -
    obtain co where co: "get_chunk st i = Inr co" using d by (auto simp: delete_by_id_def)
    show ?thesis
      using d ok store_locked_ok [OF ok] by (cases co) (auto simp: delete_by_id_def co)
  qed
  then show ?thesis by (auto simp: ODelete ok split: sum.split prod.split)
next
  case (OTombstone i t us)
  show ?thesis
    using tombstone_ok [OF ok] by (auto simp: OTombstone ok split: sum.split prod.split)
next
  case (OHardDelete i)
  with hard_delete_ok [OF ok] ok show ?thesis by (auto split: sum.split prod.split)
next
  case (OPurge s dry)
  show ?thesis using purge_ok [OF ok] by (auto simp: OPurge ok split: sum.split prod.split)
next
  case (OEmbed t v)
  have "store_ok (write_embedding st (et_id t) v)"
    using ok by (simp add: write_embedding_def store_ok_def kv_sorted_put)
  then have "store_ok st'" if "store_embedding_if_current st t v = Inr (b, st')" for b st'
    using that ok by (auto simp: store_embedding_if_current_def split: option.splits if_splits)
  then show ?thesis by (auto simp: OEmbed ok split: sum.split prod.split)
qed

section \<open>What a step does to one chunk\<close>

definition gen :: "store \<Rightarrow> string \<Rightarrow> row option" where
  "gen st i = kv_get (st_db st) (generation_key i)"

fun draws_fresh :: "row option \<Rightarrow> life_op \<Rightarrow> bool" where
  "draws_fresh g (OStore c u) \<longleftrightarrow> g \<noteq> Some (VBytes u)"
| "draws_fresh g (ODelete i now u) \<longleftrightarrow> g \<noteq> Some (VBytes u)"
| "draws_fresh g (OTombstone i t us) \<longleftrightarrow> (\<forall>j. g \<noteq> Some (VBytes (us j)))"
| "draws_fresh g _ \<longleftrightarrow> True"

text \<open>The four ways in which a step can leave a chunk.\<close>

definition step_view :: "row option \<Rightarrow> string \<Rightarrow> store \<Rightarrow> store \<Rightarrow> bool" where
  "step_view g i st st' \<longleftrightarrow>
     (gen st' i = gen st i \<and> get_chunk st' i = get_chunk st i) \<or>
     (gen st' i \<noteq> g \<and> gen st' i \<noteq> None) \<or>
     get_chunk st' i = Inr None \<or>
     (gen st' i = gen st i \<and> (\<exists>c c'. get_chunk st i = Inr (Some c) \<and> get_chunk st' i = Inr (Some c') \<and>
        \<not> chunk_changed c' (Some c)))"

lemma step_view_refl: "step_view g i st st"
  by (simp add: step_view_def)

lemma get_chunk_put:
  assumes "get_chunk st i = Inr (Some old)" "st_prov st' = st_prov st"
    and "decode_chunk (st_prov st) r = Inr c"
    and "\<And>lv. kv_get (st_db st') (chunk_key lv i) =
      (if lv = l then Some r else kv_get (st_db st) (chunk_key lv i))"
  shows "get_chunk st' i = Inr (Some c) \<or> get_chunk st' i = Inr (Some old)"
  using assms(1) by (auto simp: get_chunk_def assms(2-4) split: option.splits)

lemma store_view:
  assumes ok: "store_ok st" and s: "store_chunk_locked st c u = Inr st'"
    and u: "g \<noteq> Some (VBytes u)"
  shows "step_view g i st st'"
  using s
proof (rule store_chunk_lockedE)
  fix prev r
  assume prev: "get_chunk st (ch_id c) = Inr prev" and r: "encode_chunk (st_prov st) c = Inr r"
    and st': "st' = st\<lparr>st_db := kv_batch (store_batch c prev r u) (st_db st),
               st_emb := (if chunk_changed c prev \<and> ch_deleted_at c = None
                          then kv_delete (ch_id c) (st_emb st) else st_emb st)\<rparr>"
  have gens: "gen st' j = (if j = ch_id c \<and> chunk_changed c prev then Some (VBytes u) else gen st j)" for j
    by (simp add: gen_def st' store_batch_get)
  have rows: "kv_get (st_db st') (chunk_key lv j) =
      (if lv = ch_level c \<and> j = ch_id c then Some r else kv_get (st_db st) (chunk_key lv j))" for lv j
    by (simp add: st' store_batch_get)
  have pv: "st_prov st' = st_prov st" by (simp add: st')
  show ?thesis
  proof (cases "i = ch_id c")
    case False
    then have "get_chunk st' i = get_chunk st i" by (intro get_chunk_cong) (simp_all add: pv rows)
    with False show ?thesis by (simp add: step_view_def gens)
  next
    case True
    show ?thesis
    proof (cases "chunk_changed c prev")
      case True
      with \<open>i = ch_id c\<close> u show ?thesis by (auto simp: step_view_def gens)
    next
      case False
      then obtain old where old: "prev = Some old" by (auto simp: chunk_changed_def split: option.splits)
      have dec: "decode_chunk (st_prov st) r = Inr c"
        using ok r by (simp add: decode_encode store_ok_def)
      have prev': "get_chunk st i = Inr (Some old)" using prev old \<open>i = ch_id c\<close> by simp
      from get_chunk_put [OF prev' pv dec, of "ch_level c"]
      have "get_chunk st' i = Inr (Some c) \<or> get_chunk st' i = Inr (Some old)"
        using \<open>i = ch_id c\<close> by (simp add: rows)
      moreover have "gen st' i = gen st i" using False by (simp add: gens)
      ultimately show ?thesis
        using prev' False old unfolding step_view_def by auto
    qed
  qed
qed

lemma tombstone_batch_gen:
  assumes "tombstone_batch pv rows stream ids t us = Inr bs" "\<forall>(k, c) \<in> set rows. starts_with k ''chunk:''"
  shows "kv_get (kv_batch bs db) (generation_key i) =
    (if \<exists>(k, c) \<in> set rows. ch_id c = i \<and> to_tombstone stream ids c then Some (VBytes (us i))
     else kv_get db (generation_key i))"
proof -
  note mem = tombstone_batch_mem [OF assms(1)]
  have ne: "k \<noteq> generation_key i" if "(k, c) \<in> set rows" for k c
    using assms(2) that generation_key_no_chunk [of i] by auto
  have "kv_get (kv_batch bs db) (generation_key i) =
      (if BPut (generation_key i) (VBytes (us i)) \<in> set bs then Some (VBytes (us i))
       else kv_get db (generation_key i))"
    by (rule rocks.batch_puts) (use ne in \<open>auto simp: mem\<close>)
  moreover have "BPut (generation_key i) (VBytes (us i)) \<in> set bs \<longleftrightarrow>
      (\<exists>(k, c) \<in> set rows. ch_id c = i \<and> to_tombstone stream ids c)"
    unfolding mem using ne tombstone_batch_total [OF assms(1)] by fastforce
  ultimately show ?thesis by simp
qed

lemma tombstone_batch_row:
  assumes "tombstone_batch pv rows stream ids t us = Inr bs"
    and keyed: "\<forall>(k, c) \<in> set rows. k = chunk_key (ch_level c) (ch_id c)"
    and once: "\<forall>c'. (k, c') \<in> set rows \<longrightarrow> c' = c"
    and here: "(k, c) \<in> set rows"
  shows "kv_get (kv_batch bs db) k =
    (if to_tombstone stream ids c
     then (case encode_chunk pv (c\<lparr>ch_deleted_at := Some t\<rparr>) of Inl e \<Rightarrow> None | Inr r \<Rightarrow> Some r)
     else kv_get db k)"
proof -
  note mem = tombstone_batch_mem [OF assms(1)]
  have k: "k = chunk_key (ch_level c) (ch_id c)" using keyed here by auto
  then have kg: "k \<noteq> generation_key j" "generation_key j \<noteq> k" for j by simp_all
  show ?thesis
  proof (cases "to_tombstone stream ids c")
    case True
    then obtain r where r: "encode_chunk pv (c\<lparr>ch_deleted_at := Some t\<rparr>) = Inr r"
      using tombstone_batch_total [OF assms(1) here] by blast
    have "kv_get (kv_batch bs db) k = (if BPut k r \<in> set bs then Some r else kv_get db k)"
      by (rule rocks.batch_puts) (use once r kg in \<open>fastforce simp: mem\<close>)
    moreover have "BPut k r \<in> set bs" unfolding mem using here True r by blast
    ultimately show ?thesis using True r by simp
  next
    case False
    have "kv_get (kv_batch bs db) k = kv_get db k"
      by (rule rocks.batch_untouched) (use once False kg in \<open>fastforce simp: mem\<close>)
    with False show ?thesis by simp
  qed
qed

lemma tombstone_row_decodes:
  assumes ok: "store_ok st" and rows: "lineage_rows st = Inr rows"
    and bs: "tombstone_batch (st_prov st) rows stream ids t us = Inr bs" and c: "(k, c) \<in> set rows"
  shows "\<exists>r. kv_get (kv_batch bs (st_db st)) k = Some r \<and> decode_chunk (st_prov st) r =
    Inr (if to_tombstone stream ids c then c\<lparr>ch_deleted_at := Some t\<rparr> else c)"
proof -
  note mem = lineage_rows_mem [OF ok rows]
  have keyed: "\<forall>(k, c) \<in> set rows. k = chunk_key (ch_level c) (ch_id c)"
    using lineage_rows_keyed [OF ok rows] by blast
  have pv: "provider_ok (st_prov st)" using ok by (simp add: store_ok_def)
  have once: "\<forall>c'. (k, c') \<in> set rows \<longrightarrow> c' = c" using c by (auto simp: mem)
  note row = tombstone_batch_row [OF bs keyed once c, of "st_db st"]
  obtain r0 where r0: "kv_get (st_db st) k = Some r0" "decode_chunk (st_prov st) r0 = Inr c"
    using c mem by blast
  show ?thesis
  proof (cases "to_tombstone stream ids c")
    case True
    then obtain r where r: "encode_chunk (st_prov st) (c\<lparr>ch_deleted_at := Some t\<rparr>) = Inr r"
      using tombstone_batch_total [OF bs c] by blast
    with row True decode_encode [OF pv r] show ?thesis by simp
  next
    case False
    with row r0 show ?thesis by simp
  qed
qed

text \<open>A chunk that is live after the cascade was there before, unchanged.\<close>

lemma tombstone_get:
  assumes ok: "store_ok st" and t: "tombstone_ingest_source st i0 t us = Inr (res, st')"
    and g: "get_chunk st' i = Inr (Some c')" "ch_deleted_at c' = None"
  shows "get_chunk st i = Inr (Some c')"
  using t
proof (cases rule: tombstone_cases)
  case 1
  with g show ?thesis by simp
next
  case (2 source rows bs)
  have pv: "st_prov st' = st_prov st" and db: "st_db st' = kv_batch bs (st_db st)" using 2(5) by simp_all
  have level: "(kv_get (st_db st) (chunk_key lv i) = None \<and> kv_get (st_db st') (chunk_key lv i) = None) \<or>
      (\<exists>r r' c. kv_get (st_db st) (chunk_key lv i) = Some r \<and> kv_get (st_db st') (chunk_key lv i) = Some r' \<and>
         decode_chunk (st_prov st) r = Inr c \<and>
         (decode_chunk (st_prov st) r' = Inr c \<or> decode_chunk (st_prov st) r' = Inr (c\<lparr>ch_deleted_at := Some t\<rparr>)))" for lv
  proof (cases "kv_get (st_db st) (chunk_key lv i)")
    case None
    have "kv_get (kv_batch bs (st_db st)) (chunk_key lv i) = kv_get (st_db st) (chunk_key lv i)"
      by (rule rocks.batch_untouched)
        (use None lineage_rows_mem [OF ok 2(3)] in \<open>auto simp: tombstone_batch_mem [OF 2(4)]\<close>)
    with None show ?thesis by (simp add: db)
  next
    case (Some r)
    then have "(chunk_key lv i, r) \<in> set (kv_prefix ''chunk:'' (st_db st))"
      using ok by (simp add: store_ok_def kv_prefix_get)
    moreover have "decode_rows (st_prov st) (kv_prefix ''chunk:'' (st_db st)) = Inr rows"
      using 2(3) by (simp add: lineage_rows_def)
    ultimately obtain c where c: "decode_chunk (st_prov st) r = Inr c" "(chunk_key lv i, c) \<in> set rows"
      using decode_rows_total by blast
    show ?thesis using tombstone_row_decodes [OF ok 2(3,4) c(2)] c(1) Some by (auto simp: db)
  qed
  have "get_chunk_levels lvs st' i = Inr (Some c') \<Longrightarrow> get_chunk_levels lvs st i = Inr (Some c')" for lvs
  proof (induction lvs)
    case (Cons lv lvs)
    from level [of lv] show ?case
    proof (elim disjE conjE exE)
      assume "kv_get (st_db st) (chunk_key lv i) = None" "kv_get (st_db st') (chunk_key lv i) = None"
      with Cons show ?thesis by simp
    qed (use Cons.prems g(2) in \<open>simp_all add: pv\<close>, auto)
  qed simp
  with g(1) show ?thesis by (simp only: get_chunk_def)
qed

lemma tombstone_view:
  assumes ok: "store_ok st" and t: "tombstone_ingest_source st i0 t us = Inr (res, st')"
    and u: "\<forall>j. g \<noteq> Some (VBytes (us j))"
  shows "step_view g i st st'"
  using t
proof (cases rule: tombstone_cases)
  case 1
  then show ?thesis by (simp add: step_view_refl)
next
  case (2 source rows bs)
  let ?ids = "descendant_ids rows i0 (ch_stream source)"
  have pre: "\<forall>(k, c) \<in> set rows. starts_with k ''chunk:''"
    using lineage_rows_mem [OF ok 2(3)] by auto
  note g = tombstone_batch_gen [OF 2(4) pre, of "st_db st" i]
  show ?thesis
  proof (cases "\<exists>(k, c) \<in> set rows. ch_id c = i \<and> to_tombstone (ch_stream source) ?ids c")
    case True
    then have "gen st' i = Some (VBytes (us i))" by (simp add: gen_def 2(5) g)
    moreover have "Some (VBytes (us i)) \<noteq> g" using u by metis
    ultimately show ?thesis unfolding step_view_def by simp
  next
    case False
    then have "gen st' i = gen st i" by (simp add: gen_def 2(5) g)
    moreover have "kv_get (st_db st') (chunk_key lv i) = kv_get (st_db st) (chunk_key lv i)" for lv
    proof -
      have "BPut (chunk_key lv i) r \<notin> set bs" for r
        using False lineage_rows_keyed [OF ok 2(3)]
        unfolding tombstone_batch_mem [OF 2(4)] by fastforce
      moreover have "BDel k \<notin> set bs" for k unfolding tombstone_batch_mem [OF 2(4)] by blast
      ultimately show ?thesis
        using rocks.batch_untouched [of bs "chunk_key lv i" "st_db st"]
        by (fastforce simp: 2(5) split: batch_op.split)
    qed
    then have "get_chunk st' i = get_chunk st i" by (intro get_chunk_cong) (simp_all add: 2(5))
    ultimately show ?thesis by (simp add: step_view_def)
  qed
qed

lemma get_chunk_none:
  "(\<And>lv. lv \<in> {0, 1, 2} \<Longrightarrow> kv_get (st_db st) (chunk_key lv i) = None) \<Longrightarrow> get_chunk st i = Inr None"
  by (simp add: get_chunk_def)

lemma delete_view:
  assumes "st' = st\<lparr>st_db := kv_batch (concat (map chunk_delete_ops ids) @
      graph_sidecar_deletes (set ids) (st_db st)) (st_db st), st_emb := e\<rparr>"
  shows "step_view g i st st'"
proof -
  have db: "kv_get (st_db st') k =
      (if (\<exists>i \<in> set ids. k \<in> derived_keys i) \<or> sidecar_key (set ids) k then None
       else kv_get (st_db st) k)" for k
    unfolding delete_batch_get [symmetric] by (simp add: assms)
  show ?thesis
  proof (cases "i \<in> set ids")
    case True
    have "get_chunk st' i = Inr None"
      by (rule get_chunk_none) (unfold db, use True in \<open>auto simp: derived_keys_def\<close>)
    then show ?thesis by (simp add: step_view_def)
  next
    case False
    have out: "chunk_key lv i \<notin> derived_keys j" "generation_key i \<notin> derived_keys j"
      if "j \<in> set ids" for j lv
      using that False by (auto simp: derived_keys_def)
    have nsc: "\<not> sidecar_key (set ids) (chunk_key lv i)" "\<not> sidecar_key (set ids) (generation_key i)" for lv
      using sidecar_key_other by blast+
    have "kv_get (st_db st') (chunk_key lv i) = kv_get (st_db st) (chunk_key lv i)" for lv
      using out nsc unfolding db by auto
    then have "get_chunk st' i = get_chunk st i"
      by (intro get_chunk_cong) (simp_all add: assms)
    moreover have "gen st' i = gen st i"
      using out nsc unfolding gen_def db by auto
    ultimately show ?thesis by (simp add: step_view_def)
  qed
qed

lemma life_step_view:
  assumes ok: "store_ok st" and fresh: "draws_fresh g x"
  shows "step_view g i st (life_step x st)"
proof (cases x)
  case (OStore c u)
  with fresh store_view [OF ok, of c u] show ?thesis
    by (cases "store_chunk st c u") (auto simp: store_chunk_def step_view_refl)
next
  case (ODelete j now u)
  have "step_view g i st st'" if d: "delete_by_id st j now u = Inr (b, st')" for b st'
  proof -
    obtain co where co: "get_chunk st j = Inr co" using d by (auto simp: delete_by_id_def)
    show ?thesis
      using d fresh store_view [OF ok] by (cases co) (auto simp: delete_by_id_def co ODelete step_view_refl)
  qed
  then show ?thesis by (auto simp: ODelete step_view_refl split: sum.split prod.split)
next
  case (OTombstone j t us)
  with fresh tombstone_view [OF ok, of j t us] show ?thesis
    by (auto simp: step_view_refl split: sum.split prod.split)
next
  case (OHardDelete j)
  have "step_view g i st st'" if "hard_delete_by_id st j = Inr (b, st')" for b st'
    by (rule delete_view [OF conjunct2 [OF hard_deleteE [OF that]]])
  then show ?thesis by (auto simp: OHardDelete step_view_refl split: sum.split prod.split)
next
  case (OPurge s dry)
  have "step_view g i st st'" if p: "purge_namespace st s dry = Inr (ids, st')" for ids st'
  proof (cases dry)
    case True
    with p show ?thesis by (auto simp: purge_namespace_def step_view_refl)
  next
    case False
    with p show ?thesis by (intro delete_view [of _ _ ids]) (auto simp: purge_namespace_def append_graph_sidecar_deletes_def)
  qed
  then show ?thesis by (auto simp: OPurge step_view_refl split: sum.split prod.split)
next
  case (OEmbed t v)
  have "get_chunk (write_embedding st j v) i = get_chunk st i" for j
    by (rule get_chunk_cong) (simp_all add: write_embedding_def)
  then have "step_view g i st (write_embedding st j v)" for j
    by (simp add: write_embedding_def step_view_def gen_def)
  then show ?thesis
    by (auto simp: OEmbed store_embedding_if_current_def step_view_refl
        split: sum.split prod.split option.split)
qed

section \<open>Properties of lineage\<close>

text \<open>The ancestry walk of a chunk, cycles included, returns and computes reachability: the chunk
  is owned when it or an ancestor is a managed ingest chunk, and invalid when some ancestor is
  missing, deleted or in another stream.\<close>

theorem ancestry_is_reachability:
  assumes "ingest_ancestry st c = Inr (owned, invalid)"
  shows "(owned \<longleftrightarrow> is_owned c \<or> (\<exists>x \<in> reach_av (ancestors_step st) {ch_id c} (set (parents c)). owned_id st x)) \<and>
    (invalid \<longleftrightarrow> (\<exists>x \<in> reach_av (ancestors_step st) (if is_owned c then {} else {ch_id c}) (set (parents c)).
       bad_ancestor st (ch_stream c) x))"
  using ancestry_loop_reach [OF assms [unfolded ingest_ancestry_def]] by auto

lemma owned_update_rejected:
  assumes "validate_owned_update st c = Inr ()" "get_chunk st (ch_id c) = Inr (Some old)"
    and "ingest_ancestry st old = Inr (True, iv)"
  shows "immutable_provenance old = immutable_provenance c \<and>
    (ch_deleted_at old \<noteq> None \<longrightarrow> ch_deleted_at c \<noteq> None)"
  using assms by (auto simp: validate_owned_update_def)

lemma admission_update: "validate_ingest_admission st c = Inr () \<Longrightarrow> validate_owned_update st c = Inr ()"
  by (simp add: validate_ingest_admission_def)

lemma ancestry_loop_owned:
  "ancestry_loop st s ps vis True iv = Inr (ow, iv') \<Longrightarrow> ow"
  using ancestry_loop_reach by blast

text \<open>C11. Whatever a store call writes over a chunk of a managed lineage, the content, the stream, the
  metadata, the source, the role, the trust level, the parent links, the validity start, the extraction
  data, the level, the persistence, the timestamp, the fragment data and, for a recognised source, the two
  consolidation marks stay what they were, and a tombstone stays a tombstone.\<close>

theorem owned_lineage_immutable:
  assumes "store_chunk st c u = Inr st'" "get_chunk st (ch_id c) = Inr (Some old)"
    and "is_owned old \<or> (\<exists>x \<in> reach_av (ancestors_step st) {ch_id old} (set (parents old)). owned_id st x)"
  shows "ch_content c = ch_content old \<and> ch_stream c = ch_stream old \<and> ch_metadata c = ch_metadata old \<and>
    ch_source c = ch_source old \<and> ch_provenance_role c = ch_provenance_role old \<and>
    ch_trust_level c = ch_trust_level old \<and> ch_source_ids c = ch_source_ids old \<and>
    ch_valid_from c = ch_valid_from old \<and> ch_extraction_meta c = ch_extraction_meta old \<and>
    ch_level c = ch_level old \<and> ch_persistent c = ch_persistent old \<and>
    ch_timestamp c = ch_timestamp old \<and> ch_fragment c = ch_fragment old \<and>
    (is_ingest_source old \<longrightarrow> ch_consolidated c = ch_consolidated old \<and> ch_dormant c = ch_dormant old) \<and>
    (ch_deleted_at old \<noteq> None \<longrightarrow> ch_deleted_at c \<noteq> None)"
proof -
  have v: "validate_owned_update st c = Inr ()"
    using assms(1) unfolding store_chunk_def by (rule store_chunk_lockedE) (rule admission_update)
  then obtain ow iv where a: "ingest_ancestry st old = Inr (ow, iv)"
    using assms(2) by (auto simp: validate_owned_update_def)
  have "ow" using ancestry_loop_reach [OF a [unfolded ingest_ancestry_def]] assms(3)
    by (auto split: if_splits)
  with owned_update_rejected [OF v assms(2)] a show ?thesis
    by (simp add: immutable_provenance_def split: if_splits)
qed

lemma require_allE: "require_all st c ids = Inr () \<Longrightarrow> i \<in> set ids \<Longrightarrow> require_live_source st c i = Inr ()"
  by (induction ids) auto

lemma require_live_sourceE:
  assumes "require_live_source st c i = Inr ()"
  shows "\<exists>s. get_chunk st i = Inr (Some s) \<and> is_ingest_source s \<and> ch_stream s = ch_stream c \<and>
    ch_deleted_at s = None"
  using assms by (auto simp: require_live_source_def split: option.splits)

lemma marker_immutable:
  "immutable_provenance a = immutable_provenance b \<Longrightarrow> marker_kind a = marker_kind b"
  by (simp add: immutable_provenance_def marker_kind_def)

lemma not_over_source:
  assumes "validate_owned_update st c = Inr ()" "get_chunk st (ch_id c) = Inr (Some s)"
    and "is_ingest_source s"
  shows "marker_kind c = Some ''source''"
proof -
  obtain ow iv where a: "ingest_ancestry st s = Inr (ow, iv)"
    using assms by (auto simp: validate_owned_update_def)
  have "ow" using a assms(3) ancestry_loop_owned by (auto simp: ingest_ancestry_def is_owned_def)
  with owned_update_rejected [OF assms(1,2)] a have "immutable_provenance s = immutable_provenance c"
    by simp
  from marker_immutable [OF this] assms(3) show ?thesis by (simp add: is_ingest_source_def)
qed

lemma store_other:
  assumes "store_chunk_locked st c u = Inr st'" "i \<noteq> ch_id c"
  shows "get_chunk st' i = get_chunk st i"
  using assms(1)
proof (rule store_chunk_lockedE)
  fix prev r
  assume st': "st' = st\<lparr>st_db := kv_batch (store_batch c prev r u) (st_db st),
               st_emb := (if chunk_changed c prev \<and> ch_deleted_at c = None
                          then kv_delete (ch_id c) (st_emb st) else st_emb st)\<rparr>"
  show ?thesis
    by (rule get_chunk_cong) (use assms(2) in \<open>simp_all add: st' store_batch_get\<close>)
qed

text \<open>A live ingest fact is only ever stored with sources: after the call each of the ids it names is
  the id of a live, recognised ingest source of the same stream.\<close>

theorem stored_fact_has_live_sources:
  assumes "store_chunk st c u = Inr st'" "is_ingest_fact c" "ch_deleted_at c = None"
  shows "\<exists>ids. ch_source_ids c = Some ids \<and> ids \<noteq> [] \<and>
    (\<forall>i \<in> set ids. \<exists>s. get_chunk st' i = Inr (Some s) \<and> is_ingest_source s \<and>
       ch_stream s = ch_stream c \<and> ch_deleted_at s = None)"
proof -
  from assms(1) have v: "validate_ingest_admission st c = Inr ()"
    unfolding store_chunk_def by (rule store_chunk_lockedE)
  then have f: "validate_fact_sources st c = Inr ()"
    using assms by (auto simp: validate_ingest_admission_def)
  then obtain ids where ids: "fact_links c = Some ids" and req: "require_all st c ids = Inr ()"
    by (auto simp: validate_fact_sources_def split: option.splits)
  have "\<exists>s. get_chunk st' i = Inr (Some s) \<and> is_ingest_source s \<and> ch_stream s = ch_stream c \<and>
      ch_deleted_at s = None" if i: "i \<in> set ids" for i
  proof -
    obtain s where s: "get_chunk st i = Inr (Some s)" "is_ingest_source s" "ch_stream s = ch_stream c"
      "ch_deleted_at s = None"
      using require_live_sourceE [OF require_allE [OF req i]] by blast
    have "i \<noteq> ch_id c"
      using not_over_source [OF admission_update [OF v], of s] s assms(2)
      by (auto simp: is_ingest_fact_def)
    with store_other assms(1) s show ?thesis by (auto simp: store_chunk_def)
  qed
  moreover have "ch_source_ids c = Some ids \<and> ids \<noteq> []"
    using ids by (auto simp: fact_links_def split: bind_splits if_splits)
  ultimately show ?thesis by blast
qed

text \<open>The descendants that a source deletion collects are exactly the chunks of its stream that
  are linked to it through any number of parent links, the source included.\<close>

theorem descendants_are_closure:
  "descendant_ids rows i stream =
     {y. (i, y) \<in> {(p, ch_id c) | p c k. (k, c) \<in> set rows \<and> ch_stream c = stream \<and> p \<in> set (parents c)}\<^sup>*}"
  using descendant_ids_closure by (simp add: child_rel_def)

lemma finite_descendants: "finite (descendant_ids rows i stream)"
proof -
  have "finite vis \<Longrightarrow> finite (descend rows stream q vis)" for q vis
    by (induction rows stream q vis rule: descend.induct) simp_all
  then show ?thesis by (simp add: descendant_ids_def)
qed

text \<open>
  Descent, stated on the rows of the database alone: a chunk row of the stream descends from \<open>i\<close>
  when it names a descendant among its sources or as what it was extracted from. (A row that has
  sources does not use an extraction link that is a comma-separated list.)
\<close>

definition chunk_row :: "store \<Rightarrow> string \<Rightarrow> chunk \<Rightarrow> bool" where
  "chunk_row st k c \<longleftrightarrow> starts_with k ''chunk:'' \<and>
     (\<exists>r. kv_get (st_db st) k = Some r \<and> decode_chunk (st_prov st) r = Inr c)"

definition names_parent :: "chunk \<Rightarrow> string \<Rightarrow> bool" where
  "names_parent c p \<longleftrightarrow> (\<exists>ids. ch_source_ids c = Some ids \<and> p \<in> set ids) \<or>
     (\<exists>m. ch_extraction_meta c = Some m \<and> em_extracted_from m = Some p \<and>
        (ch_source_ids c = None \<or> CHR '','' \<notin> set p))"

inductive descends :: "store \<Rightarrow> string \<Rightarrow> string \<Rightarrow> string \<Rightarrow> bool" for st stream i where
  root: "descends st stream i i"
| child: "descends st stream i p \<Longrightarrow> chunk_row st k c \<Longrightarrow> ch_stream c = stream \<Longrightarrow> names_parent c p \<Longrightarrow>
     descends st stream i (ch_id c)"

lemma names_parent_iff: "names_parent c p \<longleftrightarrow> p \<in> set (parents c)"
  by (auto simp: names_parent_def parents_def split: option.splits)

lemma descends_iff:
  assumes "store_ok st" "lineage_rows st = Inr rows"
  shows "descends st stream i j \<longleftrightarrow> j \<in> descendant_ids rows i stream"
proof -
  have row: "(k, c) \<in> set rows \<longleftrightarrow> chunk_row st k c" for k c
    unfolding chunk_row_def by (rule lineage_rows_mem [OF assms])
  have to: "(i, j) \<in> (child_rel rows stream)\<^sup>*" if "descends st stream i j"
    using that
  proof induction
    case (child p k c)
    then have "(p, ch_id c) \<in> child_rel rows stream"
      unfolding child_rel_def row names_parent_iff by blast
    with child.IH show ?case by (rule rtrancl_into_rtrancl)
  qed simp
  have "descends st stream i j" if "(i, j) \<in> (child_rel rows stream)\<^sup>*"
    using that
  proof (induction rule: rtrancl_induct)
    case base
    show ?case by (rule descends.root)
  next
    case (step p q)
    then obtain k c where "(k, c) \<in> set rows" "ch_stream c = stream" "p \<in> set (parents c)" "q = ch_id c"
      unfolding child_rel_def by blast
    with step.IH show ?case
      using descends.child [of st stream i p k c] by (simp add: row names_parent_iff)
  qed
  with to show ?thesis by (auto simp: descendant_ids_closure)
qed

lemma tombstone_rows:
  assumes ok: "store_ok st" and t: "tombstone_ingest_source st i t us = Inr (Some ids, st')"
    and s: "get_chunk st i = Inr (Some source)"
  obtains rows bs where "lineage_rows st = Inr rows" "set ids = descendant_ids rows i (ch_stream source)"
    "tombstone_batch (st_prov st) rows (ch_stream source) (set ids) t us = Inr bs"
    "st' = st\<lparr>st_db := kv_batch bs (st_db st)\<rparr>" "is_ingest_source source"
  using t
proof (cases rule: tombstone_cases)
  case (2 source' rows bs)
  with s that [of rows bs] show ?thesis by (simp add: finite_descendants)
qed simp

lemma pair_bex: "(\<exists>(k, c) \<in> A. P k c) \<longleftrightarrow> (\<exists>k c. (k, c) \<in> A \<and> P k c)"
  by auto

text \<open>C10. Deleting an ingest source tombstones, in one batch, exactly the live chunks of its stream that
  descend from it and reports the ids of the whole closure. Every other chunk row decodes as before, a
  tombstoned chunk gets a fresh embedding generation, and no other row of the database, no chunk key that
  was absent and no embedding changes.\<close>

theorem tombstone_marks_closure:
  assumes ok: "store_ok st" and t: "tombstone_ingest_source st i t us = Inr (Some ids, st')"
    and s: "get_chunk st i = Inr (Some source)"
  shows "set ids = {j. descends st (ch_stream source) i j} \<and>
    (\<forall>k c. chunk_row st k c \<longrightarrow> chunk_row st' k
       (if ch_stream c = ch_stream source \<and> descends st (ch_stream source) i (ch_id c) \<and> ch_deleted_at c = None
        then c\<lparr>ch_deleted_at := Some t\<rparr> else c)) \<and>
    (\<forall>j. kv_get (st_db st') (generation_key j) =
       (if \<exists>k c. chunk_row st k c \<and> ch_id c = j \<and> ch_stream c = ch_stream source \<and>
           descends st (ch_stream source) i j \<and> ch_deleted_at c = None
        then Some (VBytes (us j)) else kv_get (st_db st) (generation_key j))) \<and>
    (\<forall>k. (\<nexists>c. chunk_row st k c) \<and> (\<nexists>j. k = generation_key j) \<longrightarrow> kv_get (st_db st') k = kv_get (st_db st) k) \<and>
    st_emb st' = st_emb st"
proof -
  obtain rows bs where rows: "lineage_rows st = Inr rows"
    and ids: "set ids = descendant_ids rows i (ch_stream source)"
    and bs: "tombstone_batch (st_prov st) rows (ch_stream source) (set ids) t us = Inr bs"
    and st': "st' = st\<lparr>st_db := kv_batch bs (st_db st)\<rparr>"
    by (rule tombstone_rows [OF ok t s])
  have d: "j \<in> set ids \<longleftrightarrow> descends st (ch_stream source) i j" for j
    unfolding ids by (rule descends_iff [OF ok rows, symmetric])
  have row: "(k, c) \<in> set rows \<longleftrightarrow> chunk_row st k c" for k c
    unfolding chunk_row_def by (rule lineage_rows_mem [OF ok rows])
  have "chunk_row st' k (if to_tombstone (ch_stream source) (set ids) c then c\<lparr>ch_deleted_at := Some t\<rparr> else c)"
    if "chunk_row st k c" for k c
    using tombstone_row_decodes [OF ok rows bs, of k c] that unfolding row
    by (simp add: chunk_row_def st' split del: if_split)
  moreover
  have starts: "\<forall>(k, c) \<in> set rows. starts_with k ''chunk:''"
    using lineage_rows_mem [OF ok rows] by blast
  have "kv_get (st_db st') (generation_key j) =
      (if \<exists>k c. (k, c) \<in> set rows \<and> ch_id c = j \<and> to_tombstone (ch_stream source) (set ids) c
       then Some (VBytes (us j)) else kv_get (st_db st) (generation_key j))" for j
    using tombstone_batch_gen [OF bs, of "st_db st" j] starts by (simp add: st' pair_bex)
  moreover have "kv_get (st_db st') k = kv_get (st_db st) k"
    if "\<nexists>c. chunk_row st k c" "\<nexists>j. k = generation_key j" for k
  proof -
    have "kv_get (kv_batch bs (st_db st)) k = kv_get (st_db st) k"
    proof (rule rocks.batch_untouched, intro ballI)
      fix b assume "b \<in> set bs"
      then show "case b of BPut k' v \<Rightarrow> k' \<noteq> k | BDel k' \<Rightarrow> k' \<noteq> k"
        using that unfolding tombstone_batch_mem [OF bs] row by auto
    qed
    then show ?thesis by (simp add: st')
  qed
  moreover have "st_emb st' = st_emb st" by (simp add: st')
  moreover have "set ids = {j. descends st (ch_stream source) i j}" using d by blast
  moreover have "(\<exists>k c. (k, c) \<in> set rows \<and> ch_id c = j \<and> to_tombstone (ch_stream source) (set ids) c) \<longleftrightarrow>
      (\<exists>k c. chunk_row st k c \<and> ch_id c = j \<and> ch_stream c = ch_stream source \<and>
           descends st (ch_stream source) i j \<and> ch_deleted_at c = None)" for j
    unfolding to_tombstone_def d row by blast
  ultimately show ?thesis unfolding to_tombstone_def d by simp
qed

section \<open>Properties of the lifecycle\<close>

lemma store_ok_run: "store_ok st \<Longrightarrow> store_ok (fold life_step ops st)"
  by (induction ops arbitrary: st) (simp_all add: life_step_ok)

text \<open>C12. Well-formedness of the database (ordered rows, every chunk under the key made from its level
  and id) is kept by every sequence of lifecycle operations, failing ones included.\<close>

theorem store_ok_invariant:
  assumes "store_ok st"
  shows "store_ok (fold life_step ops st)"
  using assms by (rule store_ok_run)

definition same_version :: "chunk \<Rightarrow> chunk \<Rightarrow> bool" where
  "same_version a b \<longleftrightarrow> \<not> chunk_changed a (Some b)"

lemma same_version_iff:
  "same_version a b \<longleftrightarrow> ch_content a = ch_content b \<and> ch_stream a = ch_stream b \<and>
     ch_version a = ch_version b \<and> ch_deleted_at a = ch_deleted_at b"
  by (auto simp: same_version_def chunk_changed_def)

definition current :: "row option \<Rightarrow> string \<Rightarrow> chunk \<Rightarrow> store \<Rightarrow> bool" where
  "current g i c0 st \<longleftrightarrow> gen st i = g \<and> (\<exists>c. get_chunk st i = Inr (Some c) \<and> same_version c c0)"

definition stale :: "row option \<Rightarrow> string \<Rightarrow> store \<Rightarrow> bool" where
  "stale g i st \<longleftrightarrow> gen st i \<noteq> g \<or> get_chunk st i = Inr None"

lemma stale_step:
  assumes "store_ok st" "draws_fresh g x" "stale g i st"
  shows "stale g i (life_step x st)"
  using life_step_view [OF assms(1,2), of i] assms(3) unfolding step_view_def stale_def by auto

lemma current_step:
  assumes "store_ok st" "draws_fresh g x" "current g i c0 st"
  shows "current g i c0 (life_step x st) \<or> stale g i (life_step x st)"
  using life_step_view [OF assms(1,2), of i] assms(3)
  unfolding step_view_def stale_def current_def
  by (auto simp: same_version_iff chunk_changed_def)

lemma stale_run:
  "store_ok st \<Longrightarrow> list_all (draws_fresh g) xs \<Longrightarrow> stale g i st \<Longrightarrow> stale g i (fold life_step xs st)"
  by (induction xs arbitrary: st) (simp_all add: life_step_ok stale_step)

lemma current_run:
  "store_ok st \<Longrightarrow> list_all (draws_fresh g) xs \<Longrightarrow> current g i c0 st \<Longrightarrow>
     current g i c0 (fold life_step xs st) \<or> stale g i (fold life_step xs st)"
proof (induction xs arbitrary: st)
  case (Cons x xs)
  have ok: "store_ok (life_step x st)" using Cons.prems(1) by (rule life_step_ok)
  have xs: "list_all (draws_fresh g) xs" using Cons.prems(2) by simp
  have "current g i c0 (life_step x st) \<or> stale g i (life_step x st)"
    using current_step Cons.prems by simp
  then show ?case using Cons.IH [OF ok xs] stale_run [OF ok xs] by auto
qed simp

text \<open>C9. An embedding is published only for the version it was computed for: once the chunk was
  deleted, purged, or rewritten with another content, stream, version or tombstone, the target
  taken before never publishes again, even if the old content comes back in between.\<close>

theorem stale_embedding_never_published:
  assumes ok: "store_ok st" and t: "embedding_target_of st i content = Inr (Some t)"
    and c0: "get_chunk st i = Inr (Some c0)"
    and s1: "s1 = fold life_step xs st"
    and moved: "\<nexists>c. get_chunk s1 i = Inr (Some c) \<and> same_version c c0"
    and fresh: "list_all (draws_fresh (et_generation t)) (xs @ ys)"
    and p: "store_embedding_if_current (fold life_step ys s1) t v = Inr (b, s3)"
  shows "\<not> b \<and> s3 = fold life_step ys s1"
proof -
  let ?g = "et_generation t"
  have g: "?g = gen st i" "et_id t = i"
    using t c0 by (auto simp: embedding_target_of_def gen_def split: if_splits)
  have "current ?g i c0 st" using c0 g by (simp add: current_def same_version_iff)
  from current_run [OF ok _ this, of xs] fresh s1 have "current ?g i c0 s1 \<or> stale ?g i s1" by simp
  moreover have "\<not> current ?g i c0 s1" using moved by (auto simp: current_def)
  ultimately have "stale ?g i s1" by blast
  moreover have "store_ok s1" using store_ok_run [OF ok] s1 by simp
  ultimately have "stale ?g i (fold life_step ys s1)" using stale_run fresh by simp
  then show ?thesis
    using p g by (auto simp: store_embedding_if_current_def stale_def gen_def split: option.splits if_splits)
qed

lemma store_get:
  assumes ok: "store_ok st" and s: "store_chunk_locked st c u = Inr st'"
    and lv: "ch_level c = 0 \<or> (ch_level c = 1 \<and> kv_get (st_db st) (chunk_key 0 (ch_id c)) = None)"
  shows "get_chunk st' (ch_id c) = Inr (Some c)"
  using s
proof (rule store_chunk_lockedE)
  fix prev r
  assume r: "encode_chunk (st_prov st) c = Inr r"
    and st': "st' = st\<lparr>st_db := kv_batch (store_batch c prev r u) (st_db st),
               st_emb := (if chunk_changed c prev \<and> ch_deleted_at c = None
                          then kv_delete (ch_id c) (st_emb st) else st_emb st)\<rparr>"
  have "decode_chunk (st_prov st) r = Inr c" using ok r by (simp add: decode_encode store_ok_def)
  then show ?thesis using lv by (auto simp: get_chunk_def st' store_batch_get)
qed

text \<open>A stored chunk reads back as it was written, field for field, when no row of a lower level
  shadows it, and no other chunk is affected; derived entity rows go when content or stream
  changed.\<close>

theorem stored_chunk_reads_back:
  assumes ok: "store_ok st" and s: "store_chunk st c u = Inr st'"
    and lv: "ch_level c = 0 \<or> (ch_level c = 1 \<and> kv_get (st_db st) (chunk_key 0 (ch_id c)) = None)"
  shows "get_chunk st' j = (if j = ch_id c then Inr (Some c) else get_chunk st j) \<and>
    (\<exists>prev. get_chunk st (ch_id c) = Inr prev \<and>
       (case prev of None \<Rightarrow> True | Some old \<Rightarrow>
          (ch_content old = ch_content c \<and> ch_stream old = ch_stream c) \<or>
          kv_get (st_db st') (entity_key (ch_id c)) = None \<and>
          kv_get (st_db st') (rel_key (ch_id c)) = None))"
  using s unfolding store_chunk_def
proof (rule store_chunk_lockedE)
  fix prev r
  assume prev: "get_chunk st (ch_id c) = Inr prev" and r: "encode_chunk (st_prov st) c = Inr r"
    and st': "st' = st\<lparr>st_db := kv_batch (store_batch c prev r u) (st_db st),
               st_emb := (if chunk_changed c prev \<and> ch_deleted_at c = None
                          then kv_delete (ch_id c) (st_emb st) else st_emb st)\<rparr>"
  have db: "st_db st' = kv_batch (store_batch c prev r u) (st_db st)" "st_prov st' = st_prov st"
    by (simp_all add: st')
  have "get_chunk st' (ch_id c) = Inr (Some c)"
    using store_get [OF ok _ lv] s by (simp add: store_chunk_def)
  moreover have "get_chunk st' j = get_chunk st j" if "j \<noteq> ch_id c"
    using s that unfolding store_chunk_def by (rule store_other)
  moreover have "case prev of None \<Rightarrow> True | Some old \<Rightarrow>
      (ch_content old = ch_content c \<and> ch_stream old = ch_stream c) \<or>
      kv_get (st_db st') (entity_key (ch_id c)) = None \<and> kv_get (st_db st') (rel_key (ch_id c)) = None"
    by (auto simp: db store_batch_get invalidate_changed_source_def split: option.split)
  ultimately show ?thesis using prev by auto
qed

lemma hard_delete_get:
  assumes "hard_delete_by_id st i = Inr (b, st')"
  shows "kv_get (st_db st') k = (if k \<in> derived_keys i \<or> sidecar_key {i} k then None else kv_get (st_db st) k)"
    and "get_chunk st' i = Inr None"
proof -
  note st' = conjunct2 [OF hard_deleteE [OF assms]]
  show db: "kv_get (st_db st') k =
      (if k \<in> derived_keys i \<or> sidecar_key {i} k then None else kv_get (st_db st) k)" for k
    using delete_batch_get [of "[i]" "st_db st" k] unfolding st' by simp
  show "get_chunk st' i = Inr None"
    by (rule get_chunk_none) (unfold db, auto simp: derived_keys_def)
qed

text \<open>Hard deletion removes every row of the chunk on all levels, its entity, relation, marker,
  generation and graph label rows and its embedding, changes nothing else, and reports whether the
  chunk was there.\<close>

theorem hard_delete_exact:
  assumes "hard_delete_by_id st i = Inr (b, st')"
  shows "b = is_chunk st i \<and> get_chunk st' i = Inr None \<and>
    (\<forall>k. kv_get (st_db st') k = (if k \<in> derived_keys i \<or> sidecar_key {i} k then None else kv_get (st_db st) k)) \<and>
    (\<forall>j. kv_get (st_emb st') j = (if j = i then None else kv_get (st_emb st) j))"
  using hard_delete_get [OF assms] hard_deleteE [OF assms] by (simp add: map_of_kv_delete)

text \<open>What a purge leaves, key by key.\<close>

lemma purge_effect:
  assumes ok: "store_ok st" and p: "purge_namespace st stream False = Inr (ids, st')"
  shows "(\<forall>k. kv_get (st_db st') k =
      (if (\<exists>i \<in> set ids. k \<in> derived_keys i) \<or> sidecar_key (set ids) k then None else kv_get (st_db st) k)) \<and>
    (\<forall>i. kv_get (st_emb st') i = (if i \<in> set ids then None else kv_get (st_emb st) i)) \<and>
    (\<nexists>i c. get_chunk st' i = Inr (Some c) \<and> ch_stream c = stream)"
proof -
  have st': "st' = st\<lparr>st_db := kv_batch (concat (map chunk_delete_ops ids) @
      graph_sidecar_deletes (set ids) (st_db st)) (st_db st), st_emb := fold kv_delete ids (st_emb st)\<rparr>"
    and ids: "purge_ids (st_prov st) (kv_prefix ''chunk:'' (st_db st)) stream = Inr ids"
    using p by (auto simp: purge_namespace_def append_graph_sidecar_deletes_def)
  have db: "kv_get (st_db st') k =
      (if (\<exists>i \<in> set ids. k \<in> derived_keys i) \<or> sidecar_key (set ids) k then None else kv_get (st_db st) k)" for k
    unfolding delete_batch_get [symmetric] by (simp add: st')
  have "False" if g: "get_chunk st' i = Inr (Some c)" and s: "ch_stream c = stream" for i c
  proof -
    obtain lv r where r: "lv \<in> {0, 1, 2}" "kv_get (st_db st') (chunk_key lv i) = Some r"
      "decode_chunk (st_prov st) r = Inr c"
      using get_chunk_found [OF g] by (auto simp: st')
    have old: "kv_get (st_db st) (chunk_key lv i) = Some r" using r(2) by (simp add: db split: if_splits)
    then have "row_keyed (st_prov st) (chunk_key lv i) r" using ok unfolding store_ok_def by blast
    with r(3) have "chunk_key lv i = chunk_key (ch_level c) (ch_id c)" by (simp add: row_keyed_def)
    then have i: "i = ch_id c" by simp
    have "(chunk_key lv i, r) \<in> set (kv_prefix ''chunk:'' (st_db st))"
      using ok old by (simp add: kv_prefix_get store_ok_def)
    with purge_ids_set [OF ids, of i] r(3) s i have "i \<in> set ids" by blast
    then have "chunk_key lv i \<in> derived_keys i \<and> i \<in> set ids" using r(1) by (auto simp: derived_keys_def)
    with r(2) db show False by (auto split: if_splits)
  qed
  moreover have "kv_get (st_emb st') i = (if i \<in> set ids then None else kv_get (st_emb st) i)" for i
    by (simp add: st' fold_kv_delete)
  ultimately show ?thesis using db by blast
qed


section \<open>Witnesses\<close>

text \<open>A plain chunk, an ingest source and a fact drawn from it, and the store that holds the source,
  under the pass-through provider.\<close>

definition w_provider :: provider where
  "w_provider = \<lparr>pv_enabled = False, pv_encrypt = (\<lambda>s p. Inr p), pv_decrypt = (\<lambda>s b. Inr b),
     pv_ser = (\<lambda>x. []), pv_de = (\<lambda>b. None), pv_is_encrypted = (\<lambda>b. False)\<rparr>"

definition w_chunk :: "string \<Rightarrow> chunk" where
  "w_chunk i = \<lparr>ch_id = i, ch_content = ''text'', ch_stream = ''s'', ch_level = 0, ch_score = 1,
     ch_timestamp = 0, ch_consolidated = False, ch_dormant = False, ch_in_progress = False,
     ch_prompt_version = None, ch_source_ids = None, ch_last_decay = None, ch_metadata = None,
     ch_importance = None, ch_persistent = False, ch_last_implicit_boost = None, ch_access_count = 0,
     ch_source = None, ch_created_by = None, ch_updated_at = None, ch_valid_from = None,
     ch_valid_until = None, ch_is_latest = True, ch_superseded_by = None, ch_supersedes_id = None,
     ch_root_memory_id = None, ch_version = 1, ch_memory_type = None, ch_extraction_meta = None,
     ch_deleted_at = None, ch_trust_level = Some ''a2'', ch_ingester_user_id = None, ch_alpha = 1,
     ch_beta = 1, ch_harmful_count = 0, ch_n_ratings = 0, ch_last_rated_at = None,
     ch_provenance_role = Claim, ch_fragment = None\<rparr>"

definition w_id :: string where "w_id = ''11111111-1111-1111-1111-111111111111''"

definition w_marker :: "string \<Rightarrow> json" where
  "w_marker kind = JObj [(''_loomem_ingest'', JObj [(''version'', JNum 1), (''kind'', JStr kind)])]"

definition w_source :: chunk where
  "w_source = (w_chunk w_id)\<lparr>ch_metadata := Some (w_marker ''source''), ch_provenance_role := Evidence,
     ch_source := Some (from_agent ''mcp-ingest-source''), ch_persistent := True, ch_consolidated := True\<rparr>"

definition w_em :: extraction_meta where
  "w_em = \<lparr>em_fact_type = Fact, em_subject = None, em_event_date = None, em_event_date_context = None,
     em_supersedes = None, em_superseded_by = None, em_confidence = 1, em_extracted_from = Some w_id,
     em_extraction_model = None, em_original_content = None, em_topic = None, em_attributed_to = None\<rparr>"

definition w_fact :: chunk where
  "w_fact = (w_chunk ''fact'')\<lparr>ch_metadata := Some (w_marker ''fact''),
     ch_source := Some (from_agent ''mcp-ingest''), ch_source_ids := Some [w_id],
     ch_extraction_meta := Some w_em\<rparr>"

definition w_store :: "chunk \<Rightarrow> store" where
  "w_store c = \<lparr>st_db = [(chunk_key (ch_level c) (ch_id c), VChunk \<lparr>sc_chunk = c, sc_payload = []\<rparr>)],
     st_emb = [], st_prov = w_provider, st_last_scan = None, st_at_rest_key_present = False\<rparr>"

lemma w_store_ok [simp]: "store_ok (w_store c)"
  unfolding store_ok_def w_store_def kv_sorted_def provider_ok_def w_provider_def
  by (simp add: row_keyed_def decode_chunk_def)

lemma w_get [simp]:
  "get_chunk (w_store c) i =
     Inr (if i = ch_id c \<and> (ch_level c = 0 \<or> ch_level c = 1 \<or> ch_level c = 2) then Some c else None)"
proof -
  have row: "kv_get (st_db (w_store c)) (chunk_key lv j) =
      (if lv = ch_level c \<and> j = ch_id c then Some (VChunk \<lparr>sc_chunk = c, sc_payload = []\<rparr>) else None)" for lv j
    unfolding w_store_def by auto
  show ?thesis
    by (cases "i = ch_id c"; cases "ch_level c = 0"; cases "ch_level c = 1"; cases "ch_level c = 2")
      (simp_all add: get_chunk_def row decode_chunk_def)
qed

lemmas w_defs = w_source_def w_fact_def w_chunk_def w_marker_def w_em_def from_agent_def
  is_ingest_source_def is_ingest_fact_def is_ingest_fact_shape_def has_fragment_marker_def marker_kind_def
  agent_of_def source_flags_def parents_def is_owned_def fact_links_def

lemma w_uuid: "canonical_uuid w_id"
  by (simp add: canonical_uuid_def w_id_def is_lower_hex_def is_digit_def)

lemma w_source_props [simp]:
  "is_ingest_source w_source" "ch_id w_source = w_id" "ch_level w_source = 0" "parents w_source = []"
  "ch_stream w_source = ''s''" "ch_deleted_at w_source = None" "is_owned w_source"
  by (simp_all add: w_defs)

lemma w_fact_props [simp]:
  "is_ingest_fact w_fact" "is_ingest_fact_shape w_fact" "fact_links w_fact = Some [w_id]"
  "ch_id w_fact = ''fact''" "ch_level w_fact = 0" "parents w_fact = [w_id, w_id]"
  "ch_stream w_fact = ''s''" "ch_deleted_at w_fact = None" "is_owned w_fact" "\<not> has_fragment_marker w_fact"
  by (simp_all add: w_defs w_uuid) (simp_all add: w_id_def)

lemma w_ids [simp]: "w_id \<noteq> ''fact''" "''fact'' \<noteq> w_id"
  by (simp_all add: w_id_def)

lemma w_prov [simp]: "st_prov (w_store c) = w_provider"
  by (simp add: w_store_def)

lemma w_decode [simp]: "decode_chunk w_provider (VChunk \<lparr>sc_chunk = c, sc_payload = []\<rparr>) = Inr c"
  by (simp add: decode_chunk_def)

lemma w_encode [simp]: "encode_chunk w_provider c = Inr (VChunk \<lparr>sc_chunk = c, sc_payload = []\<rparr>)"
  by (simp add: encode_chunk_def w_provider_def)

lemma w_walk: "ingest_ancestry (w_store w_source) w_fact = Inr (True, False)"
  by (simp add: ingest_ancestry_def)

theorem ancestry_is_reachability_witness:
  "ingest_ancestry (w_store w_source) w_fact = Inr (True, False) \<and>
     (\<nexists>x. x \<in> reach_av (ancestors_step (w_store w_source)) {} {w_id} \<and> bad_ancestor (w_store w_source) ''s'' x)"
  using ancestry_is_reachability [OF w_walk] w_walk by auto

lemma w_store_fact: "\<exists>st'. store_chunk (w_store w_source) w_fact u = Inr st'"
  by (simp add: store_chunk_def store_chunk_locked_def validate_ingest_admission_def
      validate_owned_update_def validate_live_ancestry_def w_walk validate_fact_sources_def
      require_live_source_def)

theorem stored_fact_has_live_sources_witness:
  "\<exists>st' s. store_chunk (w_store w_source) w_fact ''u'' = Inr st' \<and>
     get_chunk st' w_id = Inr (Some s) \<and> is_ingest_source s \<and> ch_deleted_at s = None"
proof -
  obtain st' where st': "store_chunk (w_store w_source) w_fact ''u'' = Inr st'"
    using w_store_fact by blast
  have "ch_source_ids w_fact = Some [w_id]" by (simp add: w_fact_def)
  with stored_fact_has_live_sources [OF st'] st' show ?thesis by auto
qed

lemma w_self: "ingest_ancestry (w_store w_source) (w_source\<lparr>ch_access_count := n\<rparr>) = Inr (True, False)"
  by (simp add: ingest_ancestry_def w_defs)

lemma w_self0: "ingest_ancestry (w_store w_source) w_source = Inr (True, False)"
  using w_self [of 0] by (simp add: w_defs)

lemma w_touch: "\<exists>st'. store_chunk (w_store w_source) (w_source\<lparr>ch_access_count := 5\<rparr>) ''u'' = Inr st'"
  by (simp add: store_chunk_def store_chunk_locked_def validate_ingest_admission_def
      validate_owned_update_def validate_live_ancestry_def w_self w_self0)
    (simp add: immutable_provenance_def w_defs)

theorem owned_lineage_immutable_witness:
  "\<exists>st'. store_chunk (w_store w_source) (w_source\<lparr>ch_access_count := 5\<rparr>) ''u'' = Inr st' \<and>
     ch_content (w_source\<lparr>ch_access_count := 5\<rparr>) = ch_content w_source"
proof -
  obtain st' where st': "store_chunk (w_store w_source) (w_source\<lparr>ch_access_count := 5\<rparr>) ''u'' = Inr st'"
    using w_touch by blast
  from owned_lineage_immutable [OF this, of w_source] st' show ?thesis by auto
qed

lemma w_rows: "lineage_rows (w_store w_source) = Inr [(chunk_key 0 w_id, w_source)]"
  by (simp add: lineage_rows_def kv_prefix_def w_store_def)

text \<open>The source together with the fact drawn from it.\<close>

definition w_family :: store where
  "w_family = \<lparr>st_db = [(chunk_key 0 w_id, VChunk \<lparr>sc_chunk = w_source, sc_payload = []\<rparr>),
       (chunk_key 0 ''fact'', VChunk \<lparr>sc_chunk = w_fact, sc_payload = []\<rparr>)],
     st_emb = [], st_prov = w_provider, st_last_scan = None, st_at_rest_key_present = False\<rparr>"

lemma w_family_row: "kv_get (st_db w_family) (chunk_key lv j) =
    (if lv = 0 \<and> j = ''fact'' then Some (VChunk \<lparr>sc_chunk = w_fact, sc_payload = []\<rparr>)
     else if lv = 0 \<and> j = w_id then Some (VChunk \<lparr>sc_chunk = w_source, sc_payload = []\<rparr>) else None)"
  by (simp add: w_family_def)

lemma w_family_get [simp]:
  "get_chunk w_family ''fact'' = Inr (Some w_fact)" "get_chunk w_family w_id = Inr (Some w_source)"
  by (simp_all add: get_chunk_def w_family_row decode_chunk_def)

lemma less_append_left: "(xs @ ys < xs @ zs) = (ys < (zs :: string))"
  by (induction xs) simp_all

lemma w_family_ok: "store_ok w_family"
  unfolding store_ok_def w_family_def kv_sorted_def provider_ok_def w_provider_def
  by (simp add: row_keyed_def decode_chunk_def) (simp add: chunk_key_def w_id_def less_append_left)

lemma w_family_rows: "lineage_rows w_family = Inr [(chunk_key 0 w_id, w_source), (chunk_key 0 ''fact'', w_fact)]"
  by (simp add: lineage_rows_def kv_prefix_def w_family_def)

lemma w_family_tombstone: "\<exists>ids st'. tombstone_ingest_source w_family w_id t us = Inr (Some ids, st')"
  by (simp add: tombstone_ingest_source_def w_family_rows write_lineage_tombstones_def Let_def)
    (simp add: w_family_def)

lemma w_fact_row: "chunk_row w_family (chunk_key 0 ''fact'') w_fact"
  by (simp add: chunk_row_def w_family_row) (simp add: w_family_def decode_chunk_def)

lemma w_fact_descends: "descends w_family ''s'' w_id ''fact''"
  using descends.child [OF descends.root w_fact_row, of "''s''" w_id] by (simp add: names_parent_iff)

theorem tombstone_marks_closure_witness:
  "\<exists>ids st'. tombstone_ingest_source w_family w_id 7 (\<lambda>j. ''u'') = Inr (Some ids, st') \<and>
     ''fact'' \<in> set ids \<and> chunk_row st' (chunk_key 0 ''fact'') (w_fact\<lparr>ch_deleted_at := Some 7\<rparr>)"
proof -
  obtain ids st' where t: "tombstone_ingest_source w_family w_id 7 (\<lambda>j. ''u'') = Inr (Some ids, st')"
    using w_family_tombstone by blast
  note r = tombstone_marks_closure [OF w_family_ok t w_family_get(2)]
  have "''fact'' \<in> set ids" using r w_fact_descends by simp
  moreover have "chunk_row st' (chunk_key 0 ''fact'') (w_fact\<lparr>ch_deleted_at := Some 7\<rparr>)"
    using conjunct1 [OF conjunct2 [OF r], rule_format, OF w_fact_row] w_fact_descends by simp
  ultimately show ?thesis using t by blast
qed

theorem store_ok_invariant_witness:
  "store_ok (fold life_step [OHardDelete w_id, OStore w_source ''u'', OPurge ''s'' False] (w_store w_source))"
  by (rule store_ok_invariant) simp

lemma w_hard_delete: "\<exists>st'. hard_delete_by_id (w_store w_source) w_id = Inr (True, st')"
  by (simp add: hard_delete_by_id_def append_graph_sidecar_deletes_def kv_prefix_def w_store_def
      chunk_key_def is_chunk_def)

theorem hard_delete_exact_witness:
  "\<exists>st'. hard_delete_by_id (w_store w_source) w_id = Inr (True, st') \<and> get_chunk st' w_id = Inr None"
proof -
  obtain st' where "hard_delete_by_id (w_store w_source) w_id = Inr (True, st')" using w_hard_delete by blast
  with hard_delete_exact [OF this] show ?thesis by blast
qed

theorem stale_embedding_never_published_witness:
  "\<exists>t. embedding_target_of (w_store w_source) w_id ''text'' = Inr (Some t) \<and>
     store_embedding_if_current (fold life_step [] (fold life_step [OHardDelete w_id] (w_store w_source))) t [1]
       = Inr (False, fold life_step [] (fold life_step [OHardDelete w_id] (w_store w_source)))"
proof -
  let ?s1 = "fold life_step [OHardDelete w_id] (w_store w_source)"
  obtain t where t: "embedding_target_of (w_store w_source) w_id ''text'' = Inr (Some t)"
    by (simp add: embedding_target_of_def w_source_def w_chunk_def)
  obtain st' where d: "hard_delete_by_id (w_store w_source) w_id = Inr (True, st')"
    using w_hard_delete by blast
  have none: "get_chunk ?s1 w_id = Inr None"
    using hard_delete_get(2) [OF d] d by simp
  have "et_id t = w_id" using t by (simp add: embedding_target_of_def split: if_splits) auto
  then have p: "store_embedding_if_current (fold life_step [] ?s1) t [1] = Inr (False, fold life_step [] ?s1)"
    using none by (simp add: store_embedding_if_current_def)
  have "\<nexists>c. get_chunk ?s1 w_id = Inr (Some c) \<and> same_version c w_source" using none by simp
  from stale_embedding_never_published [OF w_store_ok t _ refl this _ p] t p show ?thesis by simp
qed

theorem stored_chunk_reads_back_witness:
  "\<exists>st'. store_chunk (w_store w_source) w_fact ''u'' = Inr st' \<and> get_chunk st' ''fact'' = Inr (Some w_fact)"
proof -
  obtain st' where st': "store_chunk (w_store w_source) w_fact ''u'' = Inr st'"
    using w_store_fact by blast
  from stored_chunk_reads_back [OF w_store_ok st', of "''fact''"] st' show ?thesis by simp
qed


end
