(* ===== verification/StoreScans.thy ===== *)
theory StoreScans
  imports StoreProps
begin

text \<open>
  Properties of the store-wide scans and of the boosts: what a full scan returns and counts, that
  startup recovery leaves no chunk in progress, what retention collects, the bound and cooldown of
  the implicit boost, and the guard on the embedding dimension.
\<close>

section \<open>Rows and decoded chunks\<close>

lemma decoded_set:
  "c \<in> set (decoded pv rs) \<longleftrightarrow> (\<exists>k r. (k, r) \<in> set rs \<and> decode_chunk pv r = Inr c)"
  by (force simp: decoded_def map_filter_def split: sum.splits)

lemma decoded_Cons:
  "decoded pv ((k, r) # rs) =
     (case decode_chunk pv r of Inr c \<Rightarrow> c # decoded pv rs | Inl e \<Rightarrow> decoded pv rs)"
  by (auto simp: decoded_def map_filter_def split: sum.split)

lemma distinct_decoded:
  assumes "distinct (map fst rs)"
    and "\<forall>(k, r) \<in> set rs. \<forall>c. decode_chunk pv r = Inr c \<longrightarrow> k = chunk_key (ch_level c) (ch_id c)"
  shows "distinct (map (\<lambda>c. chunk_key (ch_level c) (ch_id c)) (decoded pv rs))"
  using assms
proof (induction rs)
  case (Cons x rs)
  obtain k r where x: "x = (k, r)" by force
  have IH: "distinct (map (\<lambda>c. chunk_key (ch_level c) (ch_id c)) (decoded pv rs))"
    using Cons by simp
  show ?case
  proof (cases "decode_chunk pv r")
    case (Inl e)
    with IH show ?thesis by (simp add: x decoded_Cons)
  next
    case (Inr c)
    have k: "k = chunk_key (ch_level c) (ch_id c)" using Cons.prems(2) Inr by (simp add: x)
    have "chunk_key (ch_level d) (ch_id d) \<in> fst ` set rs" if "d \<in> set (decoded pv rs)" for d
    proof -
      obtain k' r' where kr: "(k', r') \<in> set rs" "decode_chunk pv r' = Inr d"
        using \<open>d \<in> set (decoded pv rs)\<close> unfolding decoded_set by blast
      then have "k' = chunk_key (ch_level d) (ch_id d)" using Cons.prems(2) by auto
      with kr(1) show ?thesis by force
    qed
    moreover have "k \<notin> fst ` set rs" using Cons.prems(1) by (simp add: x)
    ultimately show ?thesis
      using IH unfolding k by (auto simp: x decoded_Cons Inr simp del: chunk_key_inj)
  qed
qed (simp add: decoded_def map_filter_def)

lemma level_rows_mem:
  assumes "store_ok st"
  shows "(k, r) \<in> set (level_rows st) \<longleftrightarrow>
    (starts_with k ''chunk:L0:'' \<or> starts_with k ''chunk:L1:'') \<and> kv_get (st_db st) k = Some r"
  using assms by (auto simp: level_rows_def store_ok_def kv_prefix_get)

lemma distinct_prefix_rows: "kv_sorted d \<Longrightarrow> distinct (map fst (kv_prefix p d))"
  by (simp add: kv_sorted_def kv_prefix_def strict_sorted_iff distinct_map_filter)

lemma level_prefix_disjoint: "starts_with k ''chunk:L0:'' \<Longrightarrow> \<not> starts_with k ''chunk:L1:''"
  by (auto simp: prefix_def)

lemma distinct_level_rows: "store_ok st \<Longrightarrow> distinct (map fst (level_rows st))"
  using level_prefix_disjoint distinct_prefix_rows [of "st_db st"]
  unfolding level_rows_def store_ok_def map_append distinct_append
  by (auto simp: kv_prefix_def)

lemma level_rows_keyed:
  assumes "store_ok st" "(k, r) \<in> set (level_rows st)" "decode_chunk (st_prov st) r = Inr c"
  shows "k = chunk_key (ch_level c) (ch_id c)"
proof -
  have "starts_with k ''chunk:''" using assms level_rows_mem by (auto simp: prefix_def)
  moreover have "row_keyed (st_prov st) k r" using assms level_rows_mem unfolding store_ok_def by blast
  ultimately show ?thesis using assms(3) by (simp add: row_keyed_def)
qed

lemma store_locked_row:
  assumes "store_ok st" "store_chunk_locked st c u = Inr st'"
  shows "(\<exists>r. kv_get (st_db st') (chunk_key (ch_level c) (ch_id c)) = Some r \<and>
      decode_chunk (st_prov st) r = Inr c) \<and>
    (\<forall>lv i. kv_get (st_db st') (chunk_key lv i) =
      (if lv = ch_level c \<and> i = ch_id c then kv_get (st_db st') (chunk_key lv i)
       else kv_get (st_db st) (chunk_key lv i)))"
  using assms(2)
proof (rule store_chunk_lockedE)
  fix prev r
  assume r: "encode_chunk (st_prov st) c = Inr r"
    and st': "st' = st\<lparr>st_db := kv_batch (store_batch c prev r u) (st_db st),
               st_emb := (if chunk_changed c prev \<and> ch_deleted_at c = None
                          then kv_delete (ch_id c) (st_emb st) else st_emb st)\<rparr>"
  show ?thesis
    using assms(1) decode_encode [OF _ r] by (simp add: st' store_batch_get store_ok_def)
qed

lemma store_each_rows:
  "store_ok st \<Longrightarrow> distinct (map (\<lambda>c. chunk_key (ch_level c) (ch_id c)) cs) \<Longrightarrow>
     store_each st cs u = Inr st' \<Longrightarrow>
     store_ok st' \<and> st_prov st' = st_prov st \<and>
     (\<forall>c \<in> set cs. \<exists>r. kv_get (st_db st') (chunk_key (ch_level c) (ch_id c)) = Some r \<and>
        decode_chunk (st_prov st) r = Inr c) \<and>
     (\<forall>lv i. (\<forall>c \<in> set cs. lv \<noteq> ch_level c \<or> i \<noteq> ch_id c) \<longrightarrow>
        kv_get (st_db st') (chunk_key lv i) = kv_get (st_db st) (chunk_key lv i))"
proof (induction cs arbitrary: st)
  case (Cons c cs)
  obtain st1 where s1: "store_chunk_locked st c u = Inr st1" and rest: "store_each st1 cs u = Inr st'"
    using Cons.prems(3) by auto
  have ok1: "store_ok st1" and pv: "st_prov st1 = st_prov st"
    using store_locked_ok [OF Cons.prems(1) s1] store_locked_prov [OF s1] by auto
  have d: "distinct (map (\<lambda>c. chunk_key (ch_level c) (ch_id c)) cs)" using Cons.prems(2) by simp
  have new: "\<forall>c' \<in> set cs. ch_level c \<noteq> ch_level c' \<or> ch_id c \<noteq> ch_id c'"
    using Cons.prems(2) by auto
  note IH = Cons.IH [OF ok1 d rest]
  note row = store_locked_row [OF Cons.prems(1) s1]
  have "kv_get (st_db st') (chunk_key (ch_level c) (ch_id c)) = kv_get (st_db st1) (chunk_key (ch_level c) (ch_id c))"
    using IH new by blast
  moreover have "kv_get (st_db st') (chunk_key lv i) = kv_get (st_db st) (chunk_key lv i)"
    if "\<forall>c' \<in> set (c # cs). lv \<noteq> ch_level c' \<or> i \<noteq> ch_id c'" for lv i
  proof -
    have "kv_get (st_db st') (chunk_key lv i) = kv_get (st_db st1) (chunk_key lv i)"
      using IH that by simp
    also have "\<dots> = kv_get (st_db st) (chunk_key lv i)"
      using row that by (metis list.set_intros(1))
    finally show ?thesis .
  qed
  ultimately show ?case using IH row pv by auto
qed simp

section \<open>Properties\<close>

text \<open>After startup recovery succeeds no live chunk of the two lower levels is in progress, every
  chunk that was is written back unchanged otherwise, and the count says how many.\<close>

theorem recovery_clears_in_progress:
  assumes ok: "store_ok st" and r: "recover_orphaned_chunks st u = Inr (n, st')"
  shows "(\<nexists>c. c \<in> set (decoded (st_prov st') (level_rows st')) \<and> ch_deleted_at c = None \<and> ch_in_progress c) \<and>
    (\<nexists>c. c \<in> set (decoded (st_prov st) (level_rows st)) \<and> ch_deleted_at c = None \<and> ch_in_progress c \<and>
       c\<lparr>ch_in_progress := False\<rparr> \<notin> set (decoded (st_prov st') (level_rows st'))) \<and>
    n = length (filter (\<lambda>c. ch_deleted_at c = None \<and> ch_in_progress c) (decoded (st_prov st) (level_rows st)))"
proof -
  let ?P = "\<lambda>c. ch_deleted_at c = None \<and> ch_in_progress c"
  let ?old = "decoded (st_prov st) (level_rows st)"
  let ?fix = "\<lambda>c. c\<lparr>ch_in_progress := False\<rparr>"
  have s: "store_each st (map ?fix (filter ?P ?old)) u = Inr st'" and n: "n = length (filter ?P ?old)"
    using r by (auto simp: recover_orphaned_chunks_def Let_def)
  have "distinct (map (\<lambda>c. chunk_key (ch_level c) (ch_id c)) ?old)"
    using distinct_decoded [OF distinct_level_rows [OF ok]] level_rows_keyed [OF ok] by blast
  then have "distinct (map (\<lambda>c. chunk_key (ch_level c) (ch_id c)) (map ?fix (filter ?P ?old)))"
    using distinct_map_filter [of "\<lambda>c. chunk_key (ch_level c) (ch_id c)" ?old ?P] by (simp add: comp_def)
  note e = store_each_rows [OF ok this s]
  then have ok': "store_ok st'" and pv: "st_prov st' = st_prov st" by auto
  have level: "starts_with (chunk_key lv i) ''chunk:L0:'' \<or> starts_with (chunk_key lv i) ''chunk:L1:''"
    if "(chunk_key lv i, r) \<in> set (level_rows st)" for lv i r
    using that level_rows_mem [OF ok] by blast
  have one: "ch_in_progress c = False"
    if c: "c \<in> set (decoded (st_prov st') (level_rows st'))" and live: "ch_deleted_at c = None" for c
  proof (rule ccontr)
    assume "ch_in_progress c \<noteq> False"
    then have p: "?P c" using live by simp
    obtain k r where kr: "(k, r) \<in> set (level_rows st')" "decode_chunk (st_prov st) r = Inr c"
      using c by (auto simp: decoded_set pv)
    have k: "k = chunk_key (ch_level c) (ch_id c)" using level_rows_keyed [OF ok' kr(1)] kr(2) pv by simp
    have g: "kv_get (st_db st') k = Some r" using kr(1) level_rows_mem [OF ok'] by blast
    show False
    proof (cases "\<exists>c' \<in> set (filter ?P ?old). ch_level c = ch_level c' \<and> ch_id c = ch_id c'")
      case True
      then obtain c' where c': "c' \<in> set (filter ?P ?old)" "ch_level c = ch_level c'" "ch_id c = ch_id c'"
        by blast
      then have "?fix c' \<in> set (map ?fix (filter ?P ?old))" by simp
      then obtain r' where "kv_get (st_db st') (chunk_key (ch_level c') (ch_id c')) = Some r'"
        "decode_chunk (st_prov st) r' = Inr (?fix c')" using e by fastforce
      then have "c = ?fix c'" using g k kr(2) c' by simp
      then have "\<not> ch_in_progress c" by (metis chunk.select_convs(9) chunk.surjective chunk.update_convs(9))
      with p show False by simp
    next
      case False
      then have "kv_get (st_db st') k = kv_get (st_db st) k" using e by (fastforce simp: k)
      then have "(k, r) \<in> set (level_rows st)"
        using g kr(1) level_rows_mem [OF ok'] level_rows_mem [OF ok] by simp
      then have "c \<in> set ?old" using kr(2) by (auto simp: decoded_set)
      with p False show False by auto
    qed
  qed
  have two: "?fix c \<in> set (decoded (st_prov st') (level_rows st'))" if c: "c \<in> set ?old" "?P c" for c
  proof -
    have "?fix c \<in> set (map ?fix (filter ?P ?old))" using c by simp
    then obtain r' where r': "kv_get (st_db st') (chunk_key (ch_level c) (ch_id c)) = Some r'"
      "decode_chunk (st_prov st) r' = Inr (?fix c)" using e by fastforce
    obtain k r where kr: "(k, r) \<in> set (level_rows st)" "decode_chunk (st_prov st) r = Inr c"
      using c by (auto simp: decoded_set)
    have "k = chunk_key (ch_level c) (ch_id c)" by (rule level_rows_keyed [OF ok kr])
    then have "(chunk_key (ch_level c) (ch_id c), r') \<in> set (level_rows st')"
      using r'(1) kr(1) level_rows_mem [OF ok] level_rows_mem [OF ok'] by simp
    with r'(2) show ?thesis by (auto simp: decoded_set pv)
  qed
  show ?thesis using one two n by blast
qed

lemma w_level_rows:
  assumes "ch_level c = 0"
  shows "level_rows (w_store c) = st_db (w_store c)"
proof -
  have "show_int 0 = ''0''" by code_simp
  with assms show ?thesis
    by (simp add: level_rows_def w_store_def kv_prefix_def chunk_key_def)
qed

lemma w_decoded: "ch_level c = 0 \<Longrightarrow> decoded w_provider (level_rows (w_store c)) = [c]"
  by (simp only: w_level_rows) (simp add: w_store_def decoded_Cons, simp add: decoded_def map_filter_def)

definition w_busy :: chunk where "w_busy = (w_chunk ''x'')\<lparr>ch_in_progress := True\<rparr>"

lemma w_busy_props [simp]:
  "ch_level w_busy = 0" "ch_deleted_at w_busy = None" "ch_in_progress w_busy" "ch_id w_busy = ''x''"
  "parents w_busy = []" "\<not> is_owned w_busy" "parents (w_busy\<lparr>ch_in_progress := False\<rparr>) = []"
  "\<not> is_owned (w_busy\<lparr>ch_in_progress := False\<rparr>)" "\<not> is_ingest_fact (w_busy\<lparr>ch_in_progress := False\<rparr>)"
  "\<not> has_fragment_marker (w_busy\<lparr>ch_in_progress := False\<rparr>)"
  by (simp_all add: w_busy_def w_defs is_ingest_fragment_def)

lemma w_recover:
  "\<exists>st'. recover_orphaned_chunks (w_store w_busy) ''u'' = Inr (1, st')"
  by (simp add: recover_orphaned_chunks_def Let_def w_decoded store_chunk_locked_def
      validate_ingest_admission_def validate_owned_update_def validate_live_ancestry_def
      ingest_ancestry_def)

theorem recovery_clears_in_progress_witness:
  "\<exists>st'. recover_orphaned_chunks (w_store w_busy) ''u'' = Inr (1, st') \<and>
     (\<nexists>c. c \<in> set (decoded (st_prov st') (level_rows st')) \<and> ch_deleted_at c = None \<and> ch_in_progress c)"
proof -
  obtain st' where "recover_orphaned_chunks (w_store w_busy) ''u'' = Inr (1, st')"
    using w_recover by blast
  with recovery_clears_in_progress [OF w_store_ok this] show ?thesis by blast
qed

lemma scan_ok_count: "length (filter is_ok (map (\<lambda>(k, r). decode_chunk pv r) rs)) = length (decoded pv rs)"
  by (induction rs) (auto simp: decoded_Cons split: sum.splits, simp add: decoded_def map_filter_def)

text \<open>A full scan returns the live chunks of the rows that decode, in row order, and accounts for
  every row: decoded or counted in exactly one of the three failure classes. Before the provider is
  attached to an encrypted store the summary of the previous scan stays.\<close>

theorem full_scan_accounts_for_rows:
  assumes "get_all_chunks st now = (cs, st')"
  shows "cs = filter (\<lambda>c. ch_deleted_at c = None) (decoded (st_prov st) (level_rows st)) \<and>
    (if st_at_rest_key_present st \<and> \<not> pv_enabled (st_prov st) then st' = st
     else \<exists>s. st' = st\<lparr>st_last_scan := Some s\<rparr> \<and> ss_scanned s = length (level_rows st) \<and>
       ss_scanned s = length (decoded (st_prov st) (level_rows st)) + ss_undecodable s \<and>
       ss_undecodable s = ss_envelope s + ss_decrypt s + ss_payload s)"
proof -
  let ?rs = "map (\<lambda>(k, r). decode_chunk (st_prov st) r) (level_rows st)"
  let ?l = "scan_rows ?rs (new_scan canonical_full_scan)"
  have new: "sl_scanned (new_scan canonical_full_scan) = 0" "undecodable (new_scan canonical_full_scan) = 0"
    by (simp_all add: new_scan_def undecodable_def)
  have "sl_scanned ?l = length (level_rows st)" "undecodable ?l = length (filter (\<lambda>r. \<not> is_ok r) ?rs)"
    by (simp_all only: scan_rows_counts new length_map add_0)
  moreover have "length ?rs = length (filter is_ok ?rs) + length (filter (\<lambda>r. \<not> is_ok r) ?rs)"
    by (simp only: sum_length_filter_compl)
  ultimately have "sl_scanned ?l = length (decoded (st_prov st) (level_rows st)) + undecodable ?l"
    by (simp only: scan_ok_count length_map)
  then show ?thesis
    using assms \<open>sl_scanned ?l = length (level_rows st)\<close>
    by (auto simp: get_all_chunks_def Let_def finish_scan_def undecodable_def)
qed

theorem full_scan_accounts_for_rows_witness:
  "fst (get_all_chunks (w_store (w_chunk ''x'')) 0) = [w_chunk ''x'']"
proof -
  obtain cs st' where g: "get_all_chunks (w_store (w_chunk ''x'')) 0 = (cs, st')" by force
  have "ch_level (w_chunk ''x'') = 0" "ch_deleted_at (w_chunk ''x'') = None" by (simp_all add: w_chunk_def)
  with full_scan_accounts_for_rows [OF g] g show ?thesis by (simp add: w_decoded)
qed

text \<open>The implicit boost caps the importance and stamps the time, is refused within the cooldown of
  the last one, and an unknown chunk changes nothing. A stamp in the future makes the unsigned
  difference wrap, so that the cooldown does not apply.\<close>

theorem implicit_boost_bounded:
  assumes ok: "store_ok st" and b: "implicit_boost st i delta cap cooldown now u = Inr (done', st')"
    and c: "get_chunk st i = Inr (Some c)" and low: "ch_level c = 0"
  shows "if done'
    then (\<exists>c' imp. get_chunk st' i = Inr (Some c') \<and> ch_importance c' = Some imp \<and> imp \<le> cap \<and>
            ch_last_implicit_boost c' = Some now \<and> ch_content c' = ch_content c) \<and>
         (case ch_last_implicit_boost c of None \<Rightarrow> True
          | Some l \<Rightarrow> now < l \<and> cooldown \<le> now + (u64_max + 1) - l \<or> l \<le> now \<and> cooldown \<le> now - l)
    else st' = st"
proof (cases done')
  case False
  with b c show ?thesis by (auto simp: implicit_boost_def Let_def split: if_splits option.splits)
next
  case True
  have i: "ch_id c = i" using get_chunk_id [OF ok c] by simp
  let ?imp = "min ((case ch_importance c of None \<Rightarrow> 1 | Some x \<Rightarrow> x) + delta) cap"
  let ?c = "c\<lparr>ch_importance := Some ?imp, ch_last_implicit_boost := Some now\<rparr>"
  have cool: "\<not> (case ch_last_implicit_boost c of None \<Rightarrow> False
      | Some l \<Rightarrow> wrapping_sub64 now l < cooldown)"
    and s: "store_chunk_locked st ?c u = Inr st'"
    using b c True by (auto simp: implicit_boost_def Let_def split: if_splits)
  have "get_chunk st' i = Inr (Some ?c)"
    using store_get [OF ok s] low i by simp
  then have "\<exists>c' imp. get_chunk st' i = Inr (Some c') \<and> ch_importance c' = Some imp \<and> imp \<le> cap \<and>
            ch_last_implicit_boost c' = Some now \<and> ch_content c' = ch_content c"
    by auto
  moreover have "case ch_last_implicit_boost c of None \<Rightarrow> True
          | Some l \<Rightarrow> now < l \<and> cooldown \<le> now + (u64_max + 1) - l \<or> l \<le> now \<and> cooldown \<le> now - l"
    using cool by (auto simp: wrapping_sub64_def split: option.splits if_splits)
  ultimately show ?thesis using True by simp
qed

text \<open>Once a vector dimension is recorded or visible in the stored vectors, startup accepts no other
  one; with none it records the configured one, so the next start accepts exactly that.\<close>

theorem embedding_dim_guard:
  assumes "d \<le> u64_max"
  shows "case validate_and_record_embedding_dim st d of
      Inl e \<Rightarrow> (case stored_embedding_dim st of Some d' \<Rightarrow> d' \<noteq> d
               | None \<Rightarrow> \<exists>d'. sampled_embedding_dim st = Some d' \<and> d' \<noteq> d)
    | Inr st' \<Rightarrow> stored_embedding_dim st' = Some d \<and>
        is_ok (validate_and_record_embedding_dim st' d') = (d' = d)"
proof -
  have "trim (show_nat d) = show_nat d" by (rule trim_digits) (rule show_nat_digits)
  then have set: "stored_embedding_dim (set_embedding_dim d st) = Some d"
    using parse_uint_show [OF assms]
    by (simp add: stored_embedding_dim_def set_embedding_dim_def map_of_kv_put)
  have again: "is_ok (validate_and_record_embedding_dim (set_embedding_dim d st) d') = (d' = d)"
    by (auto simp: validate_and_record_embedding_dim_def set)
  show ?thesis
  proof (cases "case stored_embedding_dim st of Some x \<Rightarrow> Some x | None \<Rightarrow> sampled_embedding_dim st")
    case None
    then have "validate_and_record_embedding_dim st d = Inr (set_embedding_dim d st)"
      by (simp add: validate_and_record_embedding_dim_def Let_def)
    with set again show ?thesis by simp
  next
    case (Some x)
    show ?thesis
    proof (cases "x = d")
      case True
      with Some have "validate_and_record_embedding_dim st d = Inr (set_embedding_dim d st)"
        by (simp add: validate_and_record_embedding_dim_def Let_def)
      with set again show ?thesis by simp
    next
      case False
      with Some show ?thesis
        by (auto simp: validate_and_record_embedding_dim_def Let_def split: option.splits)
    qed
  qed
qed

theorem embedding_dim_guard_witness:
  "\<exists>st'. validate_and_record_embedding_dim (w_store w_busy) 384 = Inr st' \<and> stored_embedding_dim st' = Some 384"
proof -
  have "stored_embedding_dim (w_store w_busy) = None"
    by (auto simp: stored_embedding_dim_def w_store_def chunk_key_def)
  moreover have "sampled_embedding_dim (w_store w_busy) = None"
    by (simp add: sampled_embedding_dim_def w_store_def)
  ultimately have "\<exists>st'. validate_and_record_embedding_dim (w_store w_busy) 384 = Inr st'"
    by (simp add: validate_and_record_embedding_dim_def)
  with embedding_dim_guard [of 384 "w_store w_busy" 384] show ?thesis by auto
qed

theorem implicit_boost_bounded_witness:
  "implicit_boost (w_store w_busy) ''y'' 1 2 10 100 ''u'' = Inr (False, w_store w_busy) \<and>
     (\<exists>st' c' imp. implicit_boost (w_store w_busy) ''x'' 1 (3/2) 10 100 ''u'' = Inr (True, st') \<and>
        get_chunk st' ''x'' = Inr (Some c') \<and> ch_importance c' = Some imp \<and> imp \<le> 3/2)"
proof -
  have "implicit_boost (w_store w_busy) ''y'' 1 2 10 100 ''u'' = Inr (False, w_store w_busy)"
    by (simp add: implicit_boost_def)
  moreover obtain st' where b: "implicit_boost (w_store w_busy) ''x'' 1 (3/2) 10 100 ''u'' = Inr (True, st')"
    by (auto simp: implicit_boost_def store_chunk_locked_def validate_ingest_admission_def
      validate_owned_update_def validate_live_ancestry_def ingest_ancestry_def w_busy_def w_defs
      is_ingest_fragment_def)
  have "get_chunk (w_store w_busy) ''x'' = Inr (Some w_busy)" by simp
  from implicit_boost_bounded [OF w_store_ok b this] b calculation show ?thesis by auto
qed

end
