(* ===== verification/Crypto.thy ===== *)
theory Crypto
  imports KV Utf8 "HOL-Library.AList" "HOL-Library.Word"
begin

unbundle bit_operations_syntax

text \<open>
  Encryption at rest (\<^verbatim>\<open>loomem-core/src/crypto/at_rest.rs\<close>, \<^verbatim>\<open>crypto/provider.rs\<close>): the blob
  format, the wrapping of per-scope data keys, the provider with its key rows and bounded
  first-in-first-out cache, and the hand-written base64 decoder of the master key. AES-256-GCM is
  not part of the repository: the type \<open>aead\<close> holds the pairs of functions that have its documented
  behaviour (opening inverts sealing, the tag adds 16 bytes). Nonces and generated keys are
  arguments.
\<close>

section \<open>The cipher\<close>

definition aead_law ::
  "(string \<Rightarrow> string \<Rightarrow> string \<Rightarrow> string option) \<times> (string \<Rightarrow> string \<Rightarrow> string \<Rightarrow> string option) \<Rightarrow> bool" where
  "aead_law f \<longleftrightarrow>
     (\<forall>k n p c. fst f k n p = Some c \<longrightarrow> snd f k n c = Some p \<and> length c = length p + 16)"

typedef aead = "{f. aead_law f}"
proof
  show "(\<lambda>k n p. None, \<lambda>k n c. None) \<in> {f. aead_law f}"
    by (simp add: aead_law_def)
qed

setup_lifting type_definition_aead

lift_definition aead_seal :: "aead \<Rightarrow> string \<Rightarrow> string \<Rightarrow> string \<Rightarrow> string option" is fst .
lift_definition aead_open :: "aead \<Rightarrow> string \<Rightarrow> string \<Rightarrow> string \<Rightarrow> string option" is snd .

lemma aead_open_seal: "aead_seal A k n p = Some c \<Longrightarrow> aead_open A k n c = Some p"
  by transfer (simp add: aead_law_def)

lemma aead_seal_length: "aead_seal A k n p = Some c \<Longrightarrow> length c = length p + 16"
  by transfer (simp add: aead_law_def)

section \<open>Blobs\<close>

datatype crypto_error =
    LegacyPlaintext
  | InvalidMagic
  | BlobTooShort nat nat
  | UnsupportedVersion nat
  | DecryptionFailed
  | EncryptionFailed
  | KeySizeMismatch nat nat

definition MAGIC :: string where
  "MAGIC = map char_of [255, 76, 79, 79 :: nat]"

definition NONCE_SIZE :: nat where "NONCE_SIZE = 12"
definition TAG_SIZE :: nat where "TAG_SIZE = 16"
definition DEK_SIZE :: nat where "DEK_SIZE = 32"
definition HEADER_SIZE :: nat where "HEADER_SIZE = 4 + 1 + 4 + NONCE_SIZE"
definition MIN_BLOB_SIZE :: nat where "MIN_BLOB_SIZE = HEADER_SIZE + TAG_SIZE"

definition is_encrypted :: "string \<Rightarrow> bool" where
  "is_encrypted blob \<longleftrightarrow> length blob > 4 \<and> take 4 blob = MAGIC"

definition u32_le :: "nat \<Rightarrow> string" where
  "u32_le n = map char_of [n mod 256, n div 256 mod 256, n div 65536 mod 256, n div 16777216 mod 256]"

definition from_le :: "string \<Rightarrow> nat" where
  "from_le bs = foldr (\<lambda>b n. byte b + 256 * n) bs 0"

definition read_dek_id :: "string \<Rightarrow> crypto_error + nat" where
  "read_dek_id blob =
     (if length blob < HEADER_SIZE then Inl (BlobTooShort (length blob) MIN_BLOB_SIZE)
      else if take 4 blob \<noteq> MAGIC then Inl InvalidMagic
      else Inr (from_le (take 4 (drop 5 blob))))"

definition encrypt_blob ::
  "aead \<Rightarrow> string \<Rightarrow> nat \<Rightarrow> string \<Rightarrow> string \<Rightarrow> crypto_error + string" where
  "encrypt_blob A dek dek_id nonce plaintext =
     (case aead_seal A dek nonce plaintext of
        None \<Rightarrow> Inl EncryptionFailed
      | Some ct \<Rightarrow> Inr (MAGIC @ [char_of (1::nat)] @ u32_le dek_id @ nonce @ ct))"

definition decrypt_blob :: "aead \<Rightarrow> string \<Rightarrow> string \<Rightarrow> crypto_error + string" where
  "decrypt_blob A dek blob =
     (if \<not> is_encrypted blob then Inl LegacyPlaintext
      else if length blob < MIN_BLOB_SIZE then Inl (BlobTooShort (length blob) MIN_BLOB_SIZE)
      else if byte (blob ! 4) \<noteq> 1 then Inl (UnsupportedVersion (byte (blob ! 4)))
      else (case aead_open A dek (take NONCE_SIZE (drop 9 blob)) (drop (9 + NONCE_SIZE) blob) of
              None \<Rightarrow> Inl DecryptionFailed
            | Some p \<Rightarrow> Inr p))"

record wrapped_dek =
  wd_dek_id :: nat
  wd_master_key_version :: nat
  wd_wrapped_blob :: string
  wd_wrap_nonce :: string
  wd_wrap_tag :: string
  wd_created_at :: int

definition wrap_dek ::
  "aead \<Rightarrow> string \<Rightarrow> string \<Rightarrow> nat \<Rightarrow> nat \<Rightarrow> string \<Rightarrow> int \<Rightarrow> crypto_error + wrapped_dek" where
  "wrap_dek A master dek dek_id version nonce now =
     (case aead_seal A master nonce dek of
        None \<Rightarrow> Inl EncryptionFailed
      | Some ct \<Rightarrow>
          if length ct \<noteq> DEK_SIZE + TAG_SIZE then Inl EncryptionFailed
          else Inr \<lparr>wd_dek_id = dek_id, wd_master_key_version = version,
                    wd_wrapped_blob = take DEK_SIZE ct, wd_wrap_nonce = nonce,
                    wd_wrap_tag = drop DEK_SIZE ct, wd_created_at = now\<rparr>)"

definition unwrap_dek :: "aead \<Rightarrow> string \<Rightarrow> wrapped_dek \<Rightarrow> crypto_error + string" where
  "unwrap_dek A master w =
     (case aead_open A master (wd_wrap_nonce w) (wd_wrapped_blob w @ wd_wrap_tag w) of
        None \<Rightarrow> Inl DecryptionFailed
      | Some raw \<Rightarrow> if length raw \<noteq> DEK_SIZE then Inl (KeySizeMismatch (length raw) DEK_SIZE)
                    else Inr raw)"

section \<open>The provider\<close>

text \<open>
  The \<^verbatim>\<open>keys\<close> column family maps a scope's row to its wrapped key; \<open>None\<close> stands for a row
  that does not deserialise.
\<close>

record mk_provider =
  mk_master :: string
  mk_keys :: "wrapped_dek option cf"
  mk_cache :: "(string \<times> string \<times> nat) list"
  mk_order :: "string list"

definition CACHE_CAP :: nat where "CACHE_CAP = 100"

definition dek_row_key :: "string \<Rightarrow> string" where
  "dek_row_key scope = ''scope:'' @ scope"

definition new_provider :: "string \<Rightarrow> wrapped_dek option cf \<Rightarrow> mk_provider" where
  "new_provider master keys =
     \<lparr>mk_master = master, mk_keys = keys, mk_cache = [], mk_order = []\<rparr>"

definition flush_cache :: "mk_provider \<Rightarrow> mk_provider" where
  "flush_cache st = st\<lparr>mk_cache := [], mk_order := []\<rparr>"

definition dek_count :: "mk_provider \<Rightarrow> nat" where
  "dek_count st = length (mk_keys st)"

definition cache_get :: "mk_provider \<Rightarrow> string \<Rightarrow> (string \<times> nat) option" where
  "cache_get st scope = map_of (mk_cache st) scope"

fun evict :: "(string \<times> string \<times> nat) list \<Rightarrow> string list \<Rightarrow> (string \<times> string \<times> nat) list \<times> string list" where
  "evict m [] = (m, [])"
| "evict m (x # xs) = (if length m < CACHE_CAP then (m, x # xs) else evict (AList.delete x m) xs)"

definition cache_put :: "mk_provider \<Rightarrow> string \<Rightarrow> string \<Rightarrow> nat \<Rightarrow> mk_provider" where
  "cache_put st scope dek dek_id =
     (if map_of (mk_cache st) scope \<noteq> None then st
      else let (m, q) = evict (mk_cache st) (mk_order st)
           in st\<lparr>mk_cache := (scope, dek, dek_id) # m, mk_order := q @ [scope]\<rparr>)"

definition load_dek ::
  "aead \<Rightarrow> mk_provider \<Rightarrow> string \<Rightarrow> crypto_error + ((string \<times> nat) option \<times> mk_provider)" where
  "load_dek A st scope =
     (case cache_get st scope of
        Some hit \<Rightarrow> Inr (Some hit, st)
      | None \<Rightarrow>
          (case kv_get (mk_keys st) (dek_row_key scope) of
             None \<Rightarrow> Inr (None, st)
           | Some None \<Rightarrow> Inl DecryptionFailed
           | Some (Some w) \<Rightarrow>
               (case unwrap_dek A (mk_master st) w of
                  Inl e \<Rightarrow> Inl e
                | Inr dek \<Rightarrow> Inr (Some (dek, wd_dek_id w), cache_put st scope dek (wd_dek_id w)))))"

definition get_dek_for_decrypt ::
  "aead \<Rightarrow> mk_provider \<Rightarrow> string \<Rightarrow> crypto_error + ((string \<times> nat) \<times> mk_provider)" where
  "get_dek_for_decrypt A st scope =
     (case load_dek A st scope of
        Inl e \<Rightarrow> Inl e
      | Inr (None, st') \<Rightarrow> Inl DecryptionFailed
      | Inr (Some d, st') \<Rightarrow> Inr (d, st'))"

text \<open>
  \<open>dek\<close> and \<open>nonce\<close> are the key and nonce drawn if the scope has no row yet. The second load under
  the creation lock finds nothing new in a sequential run; concurrent creators are steps that
  happen before this one.
\<close>

definition get_or_create_dek ::
  "aead \<Rightarrow> mk_provider \<Rightarrow> string \<Rightarrow> string \<Rightarrow> string \<Rightarrow> int
     \<Rightarrow> crypto_error + ((string \<times> nat) \<times> mk_provider)" where
  "get_or_create_dek A st scope dek nonce now =
     (case load_dek A st scope of
        Inl e \<Rightarrow> Inl e
      | Inr (Some d, st') \<Rightarrow> Inr (d, st')
      | Inr (None, st') \<Rightarrow>
          (case wrap_dek A (mk_master st') dek 1 1 nonce now of
             Inl e \<Rightarrow> Inl e
           | Inr w \<Rightarrow>
               Inr ((dek, 1),
                    cache_put (st'\<lparr>mk_keys := kv_put (dek_row_key scope) (Some w) (mk_keys st')\<rparr>)
                      scope dek 1)))"

text \<open>The randomness one encryption may draw: a data key, the wrap nonce, the blob nonce.\<close>

record draws =
  dr_dek :: string
  dr_wrap_nonce :: string
  dr_nonce :: string
  dr_now :: int

definition draws_ok :: "draws \<Rightarrow> bool" where
  "draws_ok r \<longleftrightarrow> length (dr_dek r) = DEK_SIZE \<and> length (dr_wrap_nonce r) = NONCE_SIZE \<and>
     length (dr_nonce r) = NONCE_SIZE"

definition mk_encrypt ::
  "aead \<Rightarrow> draws \<Rightarrow> mk_provider \<Rightarrow> string \<Rightarrow> string \<Rightarrow> crypto_error + (string \<times> mk_provider)" where
  "mk_encrypt A r st scope plaintext =
     (case get_or_create_dek A st scope (dr_dek r) (dr_wrap_nonce r) (dr_now r) of
        Inl e \<Rightarrow> Inl e
      | Inr ((dek, dek_id), st') \<Rightarrow>
          (case encrypt_blob A dek dek_id (dr_nonce r) plaintext of
             Inl e \<Rightarrow> Inl e
           | Inr blob \<Rightarrow> Inr (blob, st')))"

definition mk_decrypt ::
  "aead \<Rightarrow> mk_provider \<Rightarrow> string \<Rightarrow> string \<Rightarrow> crypto_error + (string \<times> mk_provider)" where
  "mk_decrypt A st scope blob =
     (case get_dek_for_decrypt A st scope of
        Inl e \<Rightarrow> Inl e
      | Inr ((dek, dek_id), st') \<Rightarrow>
          (case decrypt_blob A dek blob of Inl e \<Rightarrow> Inl e | Inr p \<Rightarrow> Inr (p, st')))"

text \<open>The pass-through provider.\<close>

definition noop_encrypt :: "'s \<Rightarrow> string \<Rightarrow> string \<Rightarrow> crypto_error + (string \<times> 's)" where
  "noop_encrypt st scope plaintext = Inr (plaintext, st)"

definition noop_decrypt :: "'s \<Rightarrow> string \<Rightarrow> string \<Rightarrow> crypto_error + (string \<times> 's)" where
  "noop_decrypt st scope blob = Inr (blob, st)"

section \<open>Base64\<close>

definition b64_sextet :: "char \<Rightarrow> nat option" where
  "b64_sextet c =
     (let b = byte c
      in if 65 \<le> b \<and> b \<le> 90 then Some (b - 65)
         else if 97 \<le> b \<and> b \<le> 122 then Some (b - 97 + 26)
         else if 48 \<le> b \<and> b \<le> 57 then Some (b - 48 + 52)
         else if b = 43 \<or> b = 45 then Some 62
         else if b = 47 \<or> b = 95 then Some 63
         else None)"

text \<open>The accumulator is a \<^verbatim>\<open>u32\<close>: shifting drops the high bits.\<close>

fun b64_loop :: "string \<Rightarrow> 32 word \<Rightarrow> nat \<Rightarrow> string \<Rightarrow> string res" where
  "b64_loop [] acc nbits out = Inr out"
| "b64_loop (c # cs) acc nbits out =
     (case b64_sextet c of
        None \<Rightarrow> Inl (Err ''invalid base64 byte'')
      | Some v \<Rightarrow>
          let acc' = push_bit 6 acc OR of_nat v
          in if nbits + 6 \<ge> 8
             then b64_loop cs acc' (nbits + 6 - 8)
                    (out @ [char_of (unat (drop_bit (nbits + 6 - 8) acc' AND 255))])
             else b64_loop cs acc' (nbits + 6) out)"

definition decode_base64_standard :: "string \<Rightarrow> string res" where
  "decode_base64_standard input =
     b64_loop (rev (dropWhile (\<lambda>c. c = CHR ''='') (rev (trim input)))) 0 0 []"

definition decode_master_key :: "string \<Rightarrow> string res" where
  "decode_master_key b64 =
     (case decode_base64_standard b64 of
        Inl e \<Rightarrow> Inl (Err ''base64 decode failed'')
      | Inr raw \<Rightarrow> if length raw = 32 then Inr raw
                    else Inl (Err ''must decode to exactly 32 bytes''))"

section \<open>The provider contract\<close>

text \<open>
  What the storage layer needs: whatever one scope encrypts, a provider in any later state decrypts
  to the same bytes. \<open>le\<close> relates a state to the later ones. The client lemma runs an arbitrary
  sequence of further operations in between.
\<close>

datatype 'r provider_op = OpEncrypt 'r string string | OpDecrypt string string

locale encryption_provider =
  fixes encrypt :: "'r \<Rightarrow> 's \<Rightarrow> string \<Rightarrow> string \<Rightarrow> crypto_error + (string \<times> 's)"
    and decrypt :: "'s \<Rightarrow> string \<Rightarrow> string \<Rightarrow> crypto_error + (string \<times> 's)"
    and inv :: "'s \<Rightarrow> bool"
    and fresh :: "'r \<Rightarrow> bool"
    and le :: "'s \<Rightarrow> 's \<Rightarrow> bool"
  assumes le_refl: "le s s"
    and le_trans: "le s t \<Longrightarrow> le t u \<Longrightarrow> le s u"
    and encrypt_inv: "inv s \<Longrightarrow> fresh r \<Longrightarrow> encrypt r s sc p = Inr (b, s') \<Longrightarrow> inv s' \<and> le s s'"
    and decrypt_inv: "inv s \<Longrightarrow> decrypt s sc b = Inr (p, s') \<Longrightarrow> inv s' \<and> le s s'"
    and decrypt_later: "inv s \<Longrightarrow> fresh r \<Longrightarrow> encrypt r s sc p = Inr (b, s') \<Longrightarrow> inv t \<Longrightarrow> le s' t \<Longrightarrow>
      \<exists>t'. decrypt t sc b = Inr (p, t')"
begin

fun run1 :: "'r provider_op \<Rightarrow> 's \<Rightarrow> 's" where
  "run1 (OpEncrypt r sc p) s = (case encrypt r s sc p of Inl e \<Rightarrow> s | Inr (b, s') \<Rightarrow> s')"
| "run1 (OpDecrypt sc b) s = (case decrypt s sc b of Inl e \<Rightarrow> s | Inr (p, s') \<Rightarrow> s')"

fun op_fresh :: "'r provider_op \<Rightarrow> bool" where
  "op_fresh (OpEncrypt r sc p) = fresh r"
| "op_fresh (OpDecrypt sc b) = True"

lemma run1_le: "inv s \<Longrightarrow> op_fresh x \<Longrightarrow> inv (run1 x s) \<and> le s (run1 x s)"
  by (cases x) (auto simp: le_refl split: sum.splits prod.splits dest: encrypt_inv decrypt_inv)

lemma run_le: "inv s \<Longrightarrow> list_all op_fresh xs \<Longrightarrow> inv (fold run1 xs s) \<and> le s (fold run1 xs s)"
proof (induction xs arbitrary: s)
  case Nil
  then show ?case by (simp add: le_refl)
next
  case (Cons x xs)
  then have "inv (run1 x s) \<and> le s (run1 x s)" using run1_le by simp
  with Cons show ?case using le_trans by fastforce
qed

lemma survives:
  assumes "inv s" "fresh r" "encrypt r s sc p = Inr (b, s')" "list_all op_fresh xs"
  shows "\<exists>t. decrypt (fold run1 xs s') sc b = Inr (p, t)"
  using assms encrypt_inv [OF assms(1-3)] run_le [of s' xs] decrypt_later by blast

end

section \<open>The master-key provider meets the contract\<close>

definition cached_ok :: "aead \<Rightarrow> mk_provider \<Rightarrow> bool" where
  "cached_ok A st \<longleftrightarrow>
     (\<forall>sc d i. map_of (mk_cache st) sc = Some (d, i) \<longrightarrow>
        (\<exists>w. kv_get (mk_keys st) (dek_row_key sc) = Some (Some w) \<and>
             unwrap_dek A (mk_master st) w = Inr d \<and> wd_dek_id w = i))"

definition cache_shape :: "(string \<times> string \<times> nat) list \<Rightarrow> string list \<Rightarrow> bool" where
  "cache_shape m q \<longleftrightarrow> distinct (map fst m) \<and> distinct q \<and> set q = fst ` set m"

definition mk_inv :: "aead \<Rightarrow> mk_provider \<Rightarrow> bool" where
  "mk_inv A st \<longleftrightarrow> cached_ok A st \<and> cache_shape (mk_cache st) (mk_order st) \<and>
     length (mk_cache st) \<le> CACHE_CAP"

definition mk_le :: "mk_provider \<Rightarrow> mk_provider \<Rightarrow> bool" where
  "mk_le s t \<longleftrightarrow> mk_master t = mk_master s \<and> map_of (mk_keys s) \<subseteq>\<^sub>m map_of (mk_keys t)"

lemma evict_shape:
  "cache_shape m q \<Longrightarrow> evict m q = (m', q') \<Longrightarrow>
     cache_shape m' q' \<and> set m' \<subseteq> set m \<and> map_of m' \<subseteq>\<^sub>m map_of m \<and> length m' < CACHE_CAP"
proof (induction m q rule: evict.induct)
  case (1 m)
  then show ?case by (auto simp: cache_shape_def CACHE_CAP_def)
next
  case (2 m x xs)
  show ?case
  proof (cases "length m < CACHE_CAP")
    case True
    with 2 show ?thesis by auto
  next
    case False
    have shape: "cache_shape (AList.delete x m) xs"
    proof -
      have d: "distinct (map fst m)" "x \<notin> set xs" "distinct xs" "insert x (set xs) = fst ` set m"
        using "2.prems"(1) unfolding cache_shape_def by auto
      have "set xs = fst ` set m - {x}" using d by blast
      moreover have "fst ` set (AList.delete x m) = fst ` set m - {x}"
        by (auto simp: AList.delete_eq image_iff)
      ultimately show ?thesis
        using d unfolding cache_shape_def by (simp add: AList.delete_eq distinct_map_filter)
    qed
    have sub: "map_of (AList.delete x m) \<subseteq>\<^sub>m map_of m"
      by (auto simp: map_le_def delete_conv')
    have sub': "set (AList.delete x m) \<subseteq> set m" by (auto simp: AList.delete_eq)
    from "2.IH" [OF False shape] False "2.prems"(2)
    have "cache_shape m' q' \<and> set m' \<subseteq> set (AList.delete x m) \<and>
        map_of m' \<subseteq>\<^sub>m map_of (AList.delete x m) \<and> length m' < CACHE_CAP" by simp
    with sub sub' show ?thesis using map_le_trans by blast
  qed
qed

lemma cache_put_fields [simp]:
  "mk_master (cache_put st sc d i) = mk_master st"
  "mk_keys (cache_put st sc d i) = mk_keys st"
  by (auto simp: cache_put_def split: prod.splits)

lemma cache_put_inv:
  assumes "mk_inv A st" "kv_get (mk_keys st) (dek_row_key sc) = Some (Some w)"
    "unwrap_dek A (mk_master st) w = Inr d"
  shows "mk_inv A (cache_put st sc d (wd_dek_id w))"
proof (cases "map_of (mk_cache st) sc")
  case (Some h)
  then show ?thesis using assms by (simp add: cache_put_def)
next
  case None
  obtain m q where e: "evict (mk_cache st) (mk_order st) = (m, q)" by force
  from assms(1) e have ev: "cache_shape m q" "set m \<subseteq> set (mk_cache st)"
    "map_of m \<subseteq>\<^sub>m map_of (mk_cache st)" "length m < CACHE_CAP"
    using evict_shape unfolding mk_inv_def by blast+
  have "sc \<notin> fst ` set m" using None ev(2) by (auto simp: map_of_eq_None_iff)
  then have shape: "cache_shape ((sc, d, wd_dek_id w) # m) (q @ [sc])"
    using ev(1) by (auto simp: cache_shape_def)
  have "map_of (mk_cache st) s = Some v" if "map_of m s = Some v" for s v
    using ev(3) that by (auto simp: map_le_def dom_def)
  then have "cached_ok A (cache_put st sc d (wd_dek_id w))"
    using assms None e by (auto simp: mk_inv_def cached_ok_def cache_put_def)
  then show ?thesis
    using shape None e ev(4) by (simp add: mk_inv_def cache_put_def)
qed

lemma cache_hit:
  assumes "mk_inv A st" "cache_get st sc = Some (d, i)"
  shows "\<exists>w. kv_get (mk_keys st) (dek_row_key sc) = Some (Some w) \<and>
    unwrap_dek A (mk_master st) w = Inr d \<and> wd_dek_id w = i"
  using assms unfolding mk_inv_def cached_ok_def cache_get_def by blast

lemma load_dek_facts:
  assumes "mk_inv A st" "load_dek A st sc = Inr (r, st')"
  shows "mk_inv A st' \<and> mk_master st' = mk_master st \<and> mk_keys st' = mk_keys st \<and>
    (case r of None \<Rightarrow> st' = st \<and> kv_get (mk_keys st) (dek_row_key sc) = None
     | Some (d, i) \<Rightarrow> \<exists>w. kv_get (mk_keys st) (dek_row_key sc) = Some (Some w) \<and>
         unwrap_dek A (mk_master st) w = Inr d \<and> wd_dek_id w = i)"
proof (cases "cache_get st sc")
  case (Some h)
  obtain d i where h: "h = (d, i)" by force
  have "r = Some (d, i)" "st' = st" using assms(2) Some h by (simp_all add: load_dek_def)
  then show ?thesis using assms(1) cache_hit [OF assms(1), of sc d i] Some h by simp
next
  case None
  then show ?thesis using assms
    by (auto simp: load_dek_def cache_put_inv split: option.splits sum.splits)
qed

lemma load_dek_present:
  assumes "mk_inv A st" "kv_get (mk_keys st) (dek_row_key sc) = Some (Some w)"
    "unwrap_dek A (mk_master st) w = Inr d"
  shows "\<exists>i st'. load_dek A st sc = Inr (Some (d, i), st')"
proof (cases "cache_get st sc")
  case (Some h)
  obtain d' i where h: "h = (d', i)" by force
  with cache_hit [OF assms(1), of sc d' i] Some assms(2,3) have "d' = d" by auto
  with Some h show ?thesis by (simp add: load_dek_def)
next
  case None
  with assms show ?thesis by (simp add: load_dek_def)
qed

lemma unwrap_wrap:
  assumes "wrap_dek A master dek i v nonce now = Inr w" "length dek = DEK_SIZE"
  shows "unwrap_dek A master w = Inr dek \<and> wd_dek_id w = i"
  using assms by (auto simp: wrap_dek_def unwrap_dek_def aead_open_seal split: option.splits if_splits)

lemma decrypt_encrypt_blob:
  assumes "encrypt_blob A dek i nonce p = Inr b" "length nonce = NONCE_SIZE"
  shows "decrypt_blob A dek b = Inr p"
proof -
  obtain ct where ct: "aead_seal A dek nonce p = Some ct"
    and b: "b = MAGIC @ [char_of (1::nat)] @ u32_le i @ nonce @ ct"
    using assms(1) by (auto simp: encrypt_blob_def split: option.splits)
  show ?thesis
    using aead_open_seal [OF ct] aead_seal_length [OF ct] assms(2)
    by (simp add: b decrypt_blob_def is_encrypted_def MAGIC_def u32_le_def NONCE_SIZE_def
        MIN_BLOB_SIZE_def HEADER_SIZE_def TAG_SIZE_def)
qed

text \<open>A scope's key is fixed by its row, which no operation changes once it exists.\<close>

lemma get_or_create_facts:
  assumes inv: "mk_inv A st" and len: "length dek = DEK_SIZE"
    and g: "get_or_create_dek A st sc dek nonce now = Inr ((d, i), st')"
  shows "mk_inv A st' \<and> mk_le st st' \<and>
    (\<exists>w. kv_get (mk_keys st') (dek_row_key sc) = Some (Some w) \<and> unwrap_dek A (mk_master st') w = Inr d)"
proof -
  obtain r st1 where l: "load_dek A st sc = Inr (r, st1)"
    using g by (auto simp: get_or_create_dek_def split: sum.splits)
  note f = load_dek_facts [OF inv l]
  show ?thesis
  proof (cases r)
    case (Some h)
    with g l f show ?thesis by (auto simp: get_or_create_dek_def mk_le_def)
  next
    case None
    then have st1: "st1 = st" using f by simp
    have g': "(case wrap_dek A (mk_master st) dek 1 1 nonce now of
        Inl e \<Rightarrow> Inl e
      | Inr w \<Rightarrow> Inr ((dek, 1::nat),
          cache_put (st\<lparr>mk_keys := kv_put (dek_row_key sc) (Some w) (mk_keys st)\<rparr>) sc dek 1)) =
        Inr ((d, i), st')"
      using g unfolding get_or_create_dek_def l None st1 sum.case prod.case option.case .
    obtain w where w: "wrap_dek A (mk_master st) dek 1 1 nonce now = Inr w"
      using g' by (cases "wrap_dek A (mk_master st) dek 1 1 nonce now") simp_all
    have st': "st' = cache_put (st\<lparr>mk_keys := kv_put (dek_row_key sc) (Some w) (mk_keys st)\<rparr>) sc dek 1"
      and d: "d = dek"
      using g' unfolding w sum.case by blast+
    note u = unwrap_wrap [OF w len]
    let ?st = "st\<lparr>mk_keys := kv_put (dek_row_key sc) (Some w) (mk_keys st)\<rparr>"
    have none: "kv_get (mk_keys st) (dek_row_key sc) = None" using f None by simp
    have inv1: "mk_inv A ?st"
    proof -
      have "s \<noteq> sc" if "map_of (mk_cache st) s = Some v" for s v
        using inv none that unfolding mk_inv_def cached_ok_def by (cases v) fastforce
      then show ?thesis
        using inv unfolding mk_inv_def cached_ok_def
        by (simp add: map_of_kv_put dek_row_key_def)
    qed
    have "mk_inv A (cache_put ?st sc dek (wd_dek_id w))"
      by (rule cache_put_inv [OF inv1]) (simp_all add: map_of_kv_put u)
    moreover have "mk_le st st'"
      using none by (auto simp: mk_le_def st' map_of_kv_put map_le_def)
    ultimately show ?thesis
      using u by (simp add: st' d map_of_kv_put)
  qed
qed

lemma mk_encrypt_facts:
  assumes "mk_inv A st" "draws_ok r" "mk_encrypt A r st sc p = Inr (b, st')"
  shows "mk_inv A st' \<and> mk_le st st' \<and>
    (\<exists>w d. kv_get (mk_keys st') (dek_row_key sc) = Some (Some w) \<and>
       unwrap_dek A (mk_master st') w = Inr d \<and> decrypt_blob A d b = Inr p)"
proof -
  obtain d i where g: "get_or_create_dek A st sc (dr_dek r) (dr_wrap_nonce r) (dr_now r) = Inr ((d, i), st')"
    and b: "encrypt_blob A d i (dr_nonce r) p = Inr b"
    using assms(3) by (auto simp: mk_encrypt_def split: sum.splits)
  have "decrypt_blob A d b = Inr p"
    by (rule decrypt_encrypt_blob [OF b]) (use assms(2) in \<open>simp add: draws_ok_def\<close>)
  moreover have "length (dr_dek r) = DEK_SIZE" using assms(2) by (simp add: draws_ok_def)
  note get_or_create_facts [OF assms(1) this g]
  ultimately show ?thesis by blast
qed

lemma mk_decrypt_facts:
  assumes "mk_inv A st" "mk_decrypt A st sc b = Inr (p, st')"
  shows "mk_inv A st' \<and> mk_master st' = mk_master st \<and> mk_keys st' = mk_keys st"
proof -
  obtain h where "load_dek A st sc = Inr (Some h, st')"
    using assms(2)
    by (auto simp: mk_decrypt_def get_dek_for_decrypt_def split: sum.splits option.splits prod.splits)
  from load_dek_facts [OF assms(1) this] show ?thesis by simp
qed

lemma mk_decrypt_later:
  assumes "mk_inv A t" "kv_get (mk_keys t) (dek_row_key sc) = Some (Some w)"
    "unwrap_dek A (mk_master t) w = Inr d" "decrypt_blob A d b = Inr p"
  shows "\<exists>t'. mk_decrypt A t sc b = Inr (p, t')"
  using load_dek_present [OF assms(1-3)] assms(4)
  by (auto simp: mk_decrypt_def get_dek_for_decrypt_def)

interpretation mk: encryption_provider "mk_encrypt A" "mk_decrypt A" "mk_inv A" draws_ok mk_le for A
proof unfold_locales
  show "mk_le s s" for s by (simp add: mk_le_def)
  show "mk_le s t \<Longrightarrow> mk_le t u \<Longrightarrow> mk_le s u" for s t u
    using map_le_trans by (fastforce simp: mk_le_def)
  show "mk_inv A s' \<and> mk_le s s'"
    if "mk_inv A s" "draws_ok r" "mk_encrypt A r s sc p = Inr (b, s')" for s r sc p b s'
    using mk_encrypt_facts [OF that] by blast
  show "mk_inv A s' \<and> mk_le s s'" if "mk_inv A s" "mk_decrypt A s sc b = Inr (p, s')" for s sc b p s'
    using mk_decrypt_facts [OF that] by (simp add: mk_le_def)
  show "\<exists>t'. mk_decrypt A t sc b = Inr (p, t')"
    if h: "mk_inv A s" "draws_ok r" "mk_encrypt A r s sc p = Inr (b, s')" "mk_inv A t" "mk_le s' t"
    for s r sc p b s' t
  proof -
    obtain w d where w: "kv_get (mk_keys s') (dek_row_key sc) = Some (Some w)"
      "unwrap_dek A (mk_master s') w = Inr d" "decrypt_blob A d b = Inr p"
      using mk_encrypt_facts [OF h(1-3)] by blast
    have "kv_get (mk_keys t) (dek_row_key sc) = Some (Some w)"
      using w(1) h(5) by (auto simp: mk_le_def map_le_def dom_def)
    moreover have "mk_master t = mk_master s'" using h(5) by (simp add: mk_le_def)
    ultimately show ?thesis using mk_decrypt_later [OF h(4)] w by simp
  qed
qed

interpretation noop: encryption_provider "\<lambda>(r::unit). noop_encrypt" noop_decrypt "\<lambda>s. True" "\<lambda>r. True"
  "\<lambda>s t. True"
  by unfold_locales (auto simp: noop_encrypt_def noop_decrypt_def)

section \<open>Properties\<close>

text \<open>C14. Whatever the provider encrypts for a scope is decrypted to the same bytes after any
  further encryptions and decryptions, a cache flush or a restart on the same key rows, however
  often the scope's key was evicted from the cache.\<close>

theorem encrypted_data_survives:
  assumes "mk_inv A st" "draws_ok r" "mk_encrypt A r st sc p = Inr (b, st')"
    and "list_all mk.op_fresh ops" and "t = fold (mk.run1 A) ops st'"
  shows "(\<exists>u. mk_decrypt A t sc b = Inr (p, u)) \<and>
    (\<exists>u. mk_decrypt A (flush_cache t) sc b = Inr (p, u)) \<and>
    (\<exists>u. mk_decrypt A (new_provider (mk_master t) (mk_keys t)) sc b = Inr (p, u))"
proof -
  have st': "mk_inv A st'" "mk_le st st'" using mk.encrypt_inv assms(1-3) by blast+
  have t: "mk_inv A t" "mk_le st' t" using mk.run_le [OF st'(1) assms(4)] assms(5) by simp_all
  have fresh_ok: "mk_inv A u \<and> mk_le st' u"
    if "mk_master u = mk_master t" "mk_keys u = mk_keys t" "mk_cache u = []" "mk_order u = []" for u
    using t(2) that by (simp add: mk_inv_def cached_ok_def cache_shape_def mk_le_def)
  have "mk_inv A (flush_cache t) \<and> mk_le st' (flush_cache t)"
    by (rule fresh_ok) (simp_all add: flush_cache_def)
  moreover have "mk_inv A (new_provider (mk_master t) (mk_keys t)) \<and>
      mk_le st' (new_provider (mk_master t) (mk_keys t))"
    by (rule fresh_ok) (simp_all add: new_provider_def)
  ultimately show ?thesis using mk.decrypt_later [OF assms(1-3)] t by blast
qed

lift_definition w_aead :: aead is
  "(\<lambda>k n p. Some (p @ replicate 16 (CHR ''t'')), \<lambda>k n c. Some (take (length c - 16) c))"
  by (simp add: aead_law_def)

definition w_draws :: draws where
  "w_draws = \<lparr>dr_dek = replicate 32 (CHR ''k''), dr_wrap_nonce = replicate 12 (CHR ''n''),
     dr_nonce = replicate 12 (CHR ''m''), dr_now = 0\<rparr>"

lemma w_seal [simp]: "aead_seal w_aead k n p = Some (p @ replicate 16 (CHR ''t''))"
  by transfer simp

lemma w_encrypt:
  "\<exists>b st'. mk_encrypt w_aead w_draws (new_provider ''m'' []) ''s'' ''hello'' = Inr (b, st')"
  by (simp add: mk_encrypt_def get_or_create_dek_def load_dek_def cache_get_def new_provider_def
      wrap_dek_def w_draws_def DEK_SIZE_def TAG_SIZE_def encrypt_blob_def)

lemma w_inv: "mk_inv A (new_provider m ks)" "draws_ok w_draws"
  by (simp_all add: mk_inv_def cached_ok_def cache_shape_def new_provider_def draws_ok_def
      w_draws_def DEK_SIZE_def NONCE_SIZE_def)

theorem encrypted_data_survives_witness:
  "\<exists>b st' u. mk_encrypt w_aead w_draws (new_provider ''m'' []) ''s'' ''hello'' = Inr (b, st') \<and>
     mk_decrypt w_aead (flush_cache st') ''s'' b = Inr (''hello'', u)"
proof -
  obtain b st' where e:
    "mk_encrypt w_aead w_draws (new_provider ''m'' []) ''s'' ''hello'' = Inr (b, st')"
    using w_encrypt by blast
  have "\<exists>u. mk_decrypt w_aead (flush_cache st') ''s'' b = Inr (''hello'', u)"
    using encrypted_data_survives [OF w_inv e, of "[]" st'] by simp
  with e show ?thesis by blast
qed

text \<open>Decryption never creates a key: for a scope with no key row it fails and the key rows stay
  as they are, and in every case it leaves the key rows unchanged.\<close>

theorem decrypt_creates_no_key:
  assumes "mk_inv A st"
  shows "(map_of (mk_keys st) (dek_row_key sc) = None \<longrightarrow> mk_decrypt A st sc b = Inl DecryptionFailed) \<and>
    (\<forall>p st'. mk_decrypt A st sc b = Inr (p, st') \<longrightarrow> mk_keys st' = mk_keys st \<and> length (mk_cache st') \<le> CACHE_CAP)"
proof -
  have "cache_get st sc = None" if "map_of (mk_keys st) (dek_row_key sc) = None"
  proof (rule ccontr)
    assume "cache_get st sc \<noteq> None"
    then obtain d i where "cache_get st sc = Some (d, i)" by auto
    from cache_hit [OF assms this] that show False by simp
  qed
  then have "map_of (mk_keys st) (dek_row_key sc) = None \<longrightarrow> mk_decrypt A st sc b = Inl DecryptionFailed"
    by (auto simp: mk_decrypt_def get_dek_for_decrypt_def load_dek_def)
  then show ?thesis using mk_decrypt_facts [OF assms] by (auto simp: mk_inv_def)
qed

theorem decrypt_creates_no_key_witness:
  "mk_decrypt w_aead (new_provider ''m'' []) ''s'' ''x'' = Inl DecryptionFailed"
proof -
  have "mk_inv w_aead (new_provider ''m'' [])" by (rule w_inv)
  from decrypt_creates_no_key [OF this, of "''s''" "''x''"] show ?thesis
    by (simp add: new_provider_def)
qed

end
