(* ===== verification/Fragments.thy ===== *)
theory Fragments
  imports Lineage Utf8
begin

text \<open>
  Source fragments (\<^verbatim>\<open>loomem-core/src/fragments\<close>: \<^verbatim>\<open>mod.rs\<close>, \<^verbatim>\<open>split.rs\<close>, \<^verbatim>\<open>turns.rs\<close>, \<^verbatim>\<open>config.rs\<close>): turn
  detection in transcripts, bisection of long turns to a token budget, and the fragments with their
  invariant check. The token counter is an argument, as in the code; so is the JSON parser.
\<close>

section \<open>Data\<close>

datatype fragment_error = InvalidConfig | Tokenizer string | Invariant string

datatype token_counter_kind = Approx | Tiktoken | Embedder

record fragments_config =
  fc_enabled :: bool
  fc_max_fragment_tokens :: nat
  fc_prefix_reserve_tokens :: nat
  fc_provenance_role :: provenance_role
  fc_token_counter :: token_counter_kind

definition default_fragments_config :: fragments_config where
  "default_fragments_config = \<lparr>fc_enabled = False, fc_max_fragment_tokens = 400,
     fc_prefix_reserve_tokens = 16, fc_provenance_role = Claim, fc_token_counter = Embedder\<rparr>"

definition window_tokens :: "fragments_config \<Rightarrow> nat" where
  "window_tokens cfg = sat_add64 (fc_max_fragment_tokens cfg) (fc_prefix_reserve_tokens cfg)"

definition validate_fragments_config :: "fragments_config \<Rightarrow> bool \<Rightarrow> unit res" where
  "validate_fragments_config cfg local_provider =
     rbind (ensure (fc_max_fragment_tokens cfg > 0) ''fragments.max_fragment_tokens must be positive'') (\<lambda>_.
     rbind (ensure (\<not> (fc_enabled cfg \<and> fc_token_counter cfg = Embedder) \<or> local_provider)
              ''embedder counter requires the local provider'') (\<lambda>_.
     if local_provider
     then ensure (window_tokens cfg \<le> 512) ''window exceeded'' else Inr ()))"

record canonical_source =
  cs_id :: string
  cs_text :: string
  cs_conversation_date :: "string option"

record source_fragment =
  sf_id :: string
  sf_source_id :: string
  sf_index :: nat
  sf_byte_start :: nat
  sf_byte_end :: nat
  sf_turn_index :: nat
  sf_role :: "string option"
  sf_conversation_date :: "string option"
  sf_text :: string

definition fragment_meta_of :: "source_fragment \<Rightarrow> fragment_meta" where
  "fragment_meta_of f = \<lparr>fm_source_id = sf_source_id f, fm_byte_start = sf_byte_start f,
     fm_byte_end = sf_byte_end f, fm_turn_index = sf_turn_index f, fm_role = sf_role f,
     fm_conversation_date = sf_conversation_date f\<rparr>"

type_synonym token_counter = "string \<Rightarrow> fragment_error + nat"

definition approx_counter :: token_counter where
  "approx_counter t = Inr ((char_count t + 2) div 3)"

section \<open>Turn detection\<close>

record turn =
  tu_start :: nat
  tu_end :: nat
  tu_role :: "string option"

definition ROLE_WORDS :: "string list" where
  "ROLE_WORDS = [''user'', ''assistant'', ''human'', ''ai'', ''system'']"

definition normalize_role :: "string \<Rightarrow> string" where
  "normalize_role raw =
     (let lower = to_ascii_lowercase (trim raw)
      in if lower = ''human'' then ''user'' else if lower = ''ai'' then ''assistant'' else lower)"

definition newline :: char where "newline = char_of (10::nat)"
definition carriage :: char where "carriage = char_of (13::nat)"

text \<open>\<^verbatim>\<open>split_inclusive('\n')\<close>: lines with their newline.\<close>

fun split_inclusive :: "string \<Rightarrow> string list" where
  "split_inclusive [] = []"
| "split_inclusive (c # cs) =
     (if c = newline then [c] # split_inclusive cs
      else (case split_inclusive cs of [] \<Rightarrow> [[c]] | l # ls \<Rightarrow> (c # l) # ls))"

definition trim_end_char :: "char \<Rightarrow> string \<Rightarrow> string" where
  "trim_end_char c s = rev (dropWhile (\<lambda>x. x = c) (rev s))"

fun offsets_from :: "nat \<Rightarrow> string list \<Rightarrow> (nat \<times> string) list" where
  "offsets_from i [] = []"
| "offsets_from i (raw # raws) =
     (i, trim_end_char carriage (trim_end_char newline raw)) # offsets_from (i + length raw) raws"

definition lines_with_offsets :: "string \<Rightarrow> (nat \<times> string) list" where
  "lines_with_offsets text = offsets_from 0 (split_inclusive text)"

definition json_line_role :: "(string \<Rightarrow> json option) \<Rightarrow> string \<Rightarrow> string option" where
  "json_line_role parse trimmed =
     Option.bind (parse trimmed) (\<lambda>v.
       case v of
         JObj fs \<Rightarrow>
           Option.bind (Option.bind (json_get v ''role'') json_as_str) (\<lambda>role.
             if json_get v ''content'' = None then None else Some role)
       | _ \<Rightarrow> None)"

fun jsonl_loop :: "(string \<Rightarrow> json option) \<Rightarrow> (nat \<times> string) list \<Rightarrow> (nat \<times> string) list option" where
  "jsonl_loop parse [] = Some []"
| "jsonl_loop parse ((off, line) # ls) =
     (if trim line = [] then jsonl_loop parse ls
      else Option.bind (json_line_role parse (trim line)) (\<lambda>role.
        map_option (\<lambda>r. (off, normalize_role role) # r) (jsonl_loop parse ls)))"

definition jsonl_turn_starts :: "(string \<Rightarrow> json option) \<Rightarrow> string \<Rightarrow> (nat \<times> string) list option" where
  "jsonl_turn_starts parse text =
     Option.bind (jsonl_loop parse (lines_with_offsets text)) (\<lambda>starts.
       if starts = [] then None else Some starts)"

fun find_sub :: "string \<Rightarrow> string \<Rightarrow> nat option" where
  "find_sub p [] = (if p = [] then Some 0 else None)"
| "find_sub p (c # cs) = (if starts_with (c # cs) p then Some 0 else map_option Suc (find_sub p cs))"

definition split_once_str :: "string \<Rightarrow> string \<Rightarrow> (string \<times> string) option" where
  "split_once_str p s = map_option (\<lambda>i. (take i s, drop (i + length p) s)) (find_sub p s)"

definition bold_marker_word :: "string \<Rightarrow> string option" where
  "bold_marker_word inner =
     Option.bind (split_once_str ''**'' inner) (\<lambda>(word, rest).
       if ends_with word '':'' then Some (butlast word)
       else if starts_with rest '':'' then Some word else None)"

definition em_dash :: string where "em_dash = map char_of [226, 128, 148 :: nat]"
definition en_dash :: string where "en_dash = map char_of [226, 128, 147 :: nat]"

definition dash_follows :: "string \<Rightarrow> bool" where
  "dash_follows rest =
     (let trimmed = dropWhile (\<lambda>c. c = CHR '' '') rest
      in starts_with trimmed em_dash \<or> starts_with trimmed en_dash)"

definition plain_marker_word :: "string \<Rightarrow> string option" where
  "plain_marker_word line =
     (let word = takeWhile is_ascii_alpha line;
          rest = drop (length word) line
      in if starts_with rest '':'' \<or> dash_follows rest then Some word else None)"

definition marker_word :: "string \<Rightarrow> string option" where
  "marker_word line =
     (case strip_prefix ''**'' line of
        Some inner \<Rightarrow> bold_marker_word inner
      | None \<Rightarrow>
          (case strip_prefix ''['' line of
             Some inner \<Rightarrow> map_option fst (split_once (CHR '']'') inner)
           | None \<Rightarrow> plain_marker_word line))"

definition marker_role :: "string \<Rightarrow> string option" where
  "marker_role line =
     Option.bind (marker_word line) (\<lambda>word.
       let lower = to_ascii_lowercase (trim word)
       in if lower \<in> set ROLE_WORDS then Some (normalize_role lower) else None)"

definition marker_turn_starts :: "string \<Rightarrow> (nat \<times> string) list" where
  "marker_turn_starts text =
     (let starts = List.map_filter (\<lambda>(off, line). map_option (\<lambda>role. (off, role)) (marker_role line))
                     (lines_with_offsets text)
      in if 2 \<le> length starts \<and> list_ex (\<lambda>(_, role). role = ''user'') starts then starts else [])"

text \<open>The loop of \<^verbatim>\<open>build_turns\<close> with its accumulator.\<close>

fun turn_loop :: "nat \<Rightarrow> (nat \<times> string) list \<Rightarrow> turn list \<Rightarrow> turn list" where
  "turn_loop len [] turns = turns"
| "turn_loop len ((off, role) # rest) turns =
     turn_loop len rest
       (turns @ [\<lparr>tu_start = (if turns = [] then 0 else off),
                  tu_end = (case rest of [] \<Rightarrow> len | (next_off, _) # _ \<Rightarrow> next_off),
                  tu_role = Some role\<rparr>])"

definition build_turns :: "string \<Rightarrow> (nat \<times> string) list \<Rightarrow> turn list" where
  "build_turns text starts =
     (case starts of
        [] \<Rightarrow> [\<lparr>tu_start = 0, tu_end = length text, tu_role = None\<rparr>]
      | (first, _) # _ \<Rightarrow>
          let leading = (case str_get text 0 first of None \<Rightarrow> [] | Some l \<Rightarrow> l)
          in turn_loop (length text) starts
               (if 0 < first \<and> trim leading \<noteq> []
                then [\<lparr>tu_start = 0, tu_end = first, tu_role = None\<rparr>] else []))"

definition detect_turns :: "(string \<Rightarrow> json option) \<Rightarrow> string \<Rightarrow> turn list" where
  "detect_turns parse text =
     build_turns text
       (case jsonl_turn_starts parse text of None \<Rightarrow> marker_turn_starts text | Some s \<Rightarrow> s)"

section \<open>Splitting to a budget\<close>

text \<open>\<^verbatim>\<open>match_indices\<close>: offsets of the non-overlapping occurrences.\<close>

function match_indices :: "string \<Rightarrow> nat \<Rightarrow> string \<Rightarrow> nat list" where
  "match_indices d i s =
     (if s = [] \<or> d = [] then []
      else if starts_with s d then i # match_indices d (i + length d) (drop (length d) s)
      else match_indices d (Suc i) (tl s))"
  by pat_completeness auto
termination by (relation "measure (\<lambda>(d, i, s). length s)") auto

declare match_indices.simps [simp del]

definition skip_whitespace :: "string \<Rightarrow> nat \<Rightarrow> nat" where
  "skip_whitespace piece p =
     (case str_get piece p (length piece) of
        None \<Rightarrow> p
      | Some rest \<Rightarrow> p + (length rest - length (trim_start rest)))"

definition delimiter_candidates :: "string \<Rightarrow> string list \<Rightarrow> nat list" where
  "delimiter_candidates piece delims =
     remdups (sort (map (skip_whitespace piece)
       (concat (map (\<lambda>d. map (\<lambda>i. i + length d) (match_indices d 0 piece)) delims))))"

fun ws_loop :: "(nat \<times> string) list \<Rightarrow> bool \<Rightarrow> nat list" where
  "ws_loop [] prev_ws = []"
| "ws_loop ((i, g) # gs) prev_ws =
     (if prev_ws \<and> ws_len g = 0 then i # ws_loop gs (ws_len g \<noteq> 0) else ws_loop gs (ws_len g \<noteq> 0))"

definition whitespace_candidates :: "string \<Rightarrow> nat list" where
  "whitespace_candidates piece = ws_loop (char_indices piece) False"

definition abs_diff :: "nat \<Rightarrow> nat \<Rightarrow> nat" where
  "abs_diff a b = (if a \<le> b then b - a else a - b)"

fun first_min :: "(nat \<Rightarrow> nat) \<Rightarrow> nat \<Rightarrow> nat list \<Rightarrow> nat" where
  "first_min f best [] = best"
| "first_min f best (x # xs) = first_min f (if f x < f best then x else best) xs"

definition nearest :: "nat list \<Rightarrow> nat \<Rightarrow> nat \<Rightarrow> nat \<Rightarrow> nat option" where
  "nearest cands mid mn len =
     (case filter (\<lambda>p. mn \<le> p \<and> p < len) cands of
        [] \<Rightarrow> None
      | x # xs \<Rightarrow> Some (first_min (\<lambda>p. abs_diff p mid) x xs))"

fun down_loop :: "string \<Rightarrow> nat \<Rightarrow> nat" where
  "down_loop s 0 = 0"
| "down_loop s (Suc n) = (if n = 0 \<or> is_char_boundary s (Suc n) then Suc n else down_loop s n)"

definition hard_split :: "string \<Rightarrow> nat \<Rightarrow> nat option" where
  "hard_split piece mid =
     (case find (is_char_boundary piece) [max mid 1..<length piece] of
        Some up \<Rightarrow> Some up
      | None \<Rightarrow>
          let down = down_loop piece (min mid (length piece))
          in if 1 \<le> down \<and> down < length piece \<and> is_char_boundary piece down then Some down else None)"

definition two_newlines :: string where "two_newlines = [newline, newline]"

definition split_point :: "string \<Rightarrow> nat option" where
  "split_point piece =
     (let mid = length piece div 2;
          mn = length piece - length (trim_start piece) + 1;
          len = length piece
      in case nearest (delimiter_candidates piece [two_newlines]) mid mn len of
           Some p \<Rightarrow> Some p
         | None \<Rightarrow>
             (case nearest (delimiter_candidates piece [''. '', ''? '', ''! '', [newline]]) mid mn len of
                Some p \<Rightarrow> Some p
              | None \<Rightarrow>
                  (case nearest (whitespace_candidates piece) mid mn len of
                     Some p \<Rightarrow> Some p
                   | None \<Rightarrow> hard_split piece mid)))"

lemma first_min_mem: "first_min f b xs = b \<or> first_min f b xs \<in> set xs"
  by (induction f b xs rule: first_min.induct) (auto split: if_splits)

lemma nearest_mem:
  assumes "nearest cands mid mn len = Some p"
  shows "p \<in> set cands \<and> mn \<le> p \<and> p < len"
proof -
  obtain x xs where x: "filter (\<lambda>p. mn \<le> p \<and> p < len) cands = x # xs"
    and p: "p = first_min (\<lambda>p. abs_diff p mid) x xs"
    using assms by (auto simp: nearest_def split: list.splits)
  have "p \<in> set (x # xs)" using p first_min_mem [of "\<lambda>p. abs_diff p mid" x xs] by auto
  then show ?thesis unfolding x [symmetric] by simp
qed

lemma hard_split_bounds:
  "hard_split piece mid = Some p \<Longrightarrow> 0 < p \<and> p < length piece \<and> is_char_boundary piece p"
  by (auto simp: hard_split_def find_Some_iff Let_def split: option.splits if_splits)

lemma split_point_bounds:
  assumes "split_point piece = Some p"
  shows "0 < p \<and> p < length piece"
  using assms nearest_mem hard_split_bounds unfolding split_point_def Let_def
  by (fastforce split: option.splits)

lemma split_point_piece:
  assumes "str_get text s e = Some piece" "split_point piece = Some p"
  shows "0 < p \<and> s + p < e"
  using split_point_bounds [OF assms(2)] assms(1) by (auto simp: str_get_def split: if_splits)

function split_loop ::
  "string \<Rightarrow> nat \<Rightarrow> token_counter \<Rightarrow> (nat \<times> nat) list \<Rightarrow> (nat \<times> nat) list
     \<Rightarrow> fragment_error + (nat \<times> nat) list" where
  "split_loop text mx counter [] out = Inr out"
| "split_loop text mx counter ((s, e) # stack) out =
     (case str_get text s e of
        None \<Rightarrow> Inl (Invariant ''range is not on char boundaries'')
      | Some piece \<Rightarrow>
          (case counter piece of
             Inl er \<Rightarrow> Inl er
           | Inr n \<Rightarrow>
               if n \<le> mx then split_loop text mx counter stack (out @ [(s, e)])
               else (case split_point piece of
                       Some p \<Rightarrow> split_loop text mx counter ((s, s + p) # (s + p, e) # stack) out
                     | None \<Rightarrow> split_loop text mx counter stack (out @ [(s, e)]))))"
  by pat_completeness auto
termination
  by (relation "measures [\<lambda>(text, mx, counter, stack, out). sum_list (map (\<lambda>(s, e). 2 * (e - s) - 1) stack),
                          \<lambda>(text, mx, counter, stack, out). length stack]")
    (auto dest: split_point_piece)

definition split_to_budget ::
  "string \<Rightarrow> nat \<Rightarrow> nat \<Rightarrow> nat \<Rightarrow> token_counter \<Rightarrow> fragment_error + (nat \<times> nat) list" where
  "split_to_budget text start en mx counter = split_loop text mx counter [(start, en)] []"

section \<open>Segmentation\<close>

definition fragment_id :: "string \<Rightarrow> nat \<Rightarrow> string" where
  "fragment_id source_id index = source_id @ '':f'' @ show_nat index"

definition index_u32 :: "nat \<Rightarrow> fragment_error + nat" where
  "index_u32 i = (if i \<le> u32_max then Inr i else Inl (Invariant ''index does not fit u32''))"

definition build_fragment ::
  "canonical_source \<Rightarrow> nat \<times> nat \<Rightarrow> nat \<Rightarrow> nat \<Rightarrow> string option \<Rightarrow> fragment_error + source_fragment" where
  "build_fragment source rg index turn_index role =
     (case str_get (cs_text source) (fst rg) (snd rg) of
        None \<Rightarrow> Inl (Invariant ''range is not on char boundaries'')
      | Some text \<Rightarrow>
          Inr \<lparr>sf_id = fragment_id (cs_id source) index, sf_source_id = cs_id source, sf_index = index,
               sf_byte_start = fst rg, sf_byte_end = snd rg, sf_turn_index = turn_index,
               sf_role = role, sf_conversation_date = cs_conversation_date source, sf_text = text\<rparr>)"

fun build_ranges ::
  "canonical_source \<Rightarrow> nat \<Rightarrow> string option \<Rightarrow> (nat \<times> nat) list \<Rightarrow> source_fragment list
     \<Rightarrow> fragment_error + source_fragment list" where
  "build_ranges source turn_index role [] fs = Inr fs"
| "build_ranges source turn_index role (r # rs) fs =
     ebind (index_u32 (length fs)) (\<lambda>index.
     ebind (build_fragment source r index turn_index role) (\<lambda>f.
       build_ranges source turn_index role rs (fs @ [f])))"

fun segment_turns ::
  "canonical_source \<Rightarrow> fragments_config \<Rightarrow> token_counter \<Rightarrow> nat \<Rightarrow> turn list \<Rightarrow> source_fragment list
     \<Rightarrow> fragment_error + source_fragment list" where
  "segment_turns source cfg counter k [] fs = Inr fs"
| "segment_turns source cfg counter k (t # ts) fs =
     ebind (index_u32 k) (\<lambda>turn_index.
     ebind (split_to_budget (cs_text source) (tu_start t) (tu_end t) (fc_max_fragment_tokens cfg) counter) (\<lambda>ranges.
     ebind (build_ranges source turn_index (tu_role t) ranges fs) (\<lambda>fs'.
       segment_turns source cfg counter (Suc k) ts fs')))"

definition verify_fragment ::
  "canonical_source \<Rightarrow> source_fragment \<Rightarrow> nat \<Rightarrow> nat \<Rightarrow> fragment_error + unit" where
  "verify_fragment source f position cursor =
     ebind (index_u32 position) (\<lambda>index.
       if sf_index f \<noteq> index then Inl (Invariant ''fragment has another index'')
       else if sf_id f \<noteq> fragment_id (cs_id source) index \<or> sf_source_id f \<noteq> cs_id source
       then Inl (Invariant ''fragment has a foreign id'')
       else if sf_byte_start f \<noteq> cursor \<or> sf_byte_end f \<le> sf_byte_start f
       then Inl (Invariant ''fragment spans after cursor'')
       else if str_get (cs_text source) (sf_byte_start f) (sf_byte_end f) \<noteq> Some (sf_text f)
       then Inl (Invariant ''fragment text is not the slice of its range'')
       else Inr ())"

fun verify_loop ::
  "canonical_source \<Rightarrow> source_fragment list \<Rightarrow> nat \<Rightarrow> nat \<Rightarrow> string set \<Rightarrow> fragment_error + nat" where
  "verify_loop source [] position cursor ids = Inr cursor"
| "verify_loop source (f # fs) position cursor ids =
     ebind (verify_fragment source f position cursor) (\<lambda>_.
       if sf_id f \<in> ids then Inl (Invariant ''duplicate fragment id'')
       else verify_loop source fs (Suc position) (sf_byte_end f) (insert (sf_id f) ids))"

definition verify_invariants :: "canonical_source \<Rightarrow> source_fragment list \<Rightarrow> fragment_error + unit" where
  "verify_invariants source fragments =
     ebind (verify_loop source fragments 0 0 {}) (\<lambda>cursor.
       if cursor \<noteq> length (cs_text source) then Inl (Invariant ''fragments cover less'') else Inr ())"

definition segment_source ::
  "(string \<Rightarrow> json option) \<Rightarrow> canonical_source \<Rightarrow> fragments_config \<Rightarrow> token_counter
     \<Rightarrow> fragment_error + source_fragment list" where
  "segment_source parse source cfg counter =
     (if fc_max_fragment_tokens cfg = 0 then Inl InvalidConfig
      else if cs_text source = [] then Inr []
      else ebind (segment_turns source cfg counter 0 (detect_turns parse (cs_text source)) []) (\<lambda>fragments.
           ebind (verify_invariants source fragments) (\<lambda>_. Inr fragments)))"

definition fragment_chunk :: "source_fragment \<Rightarrow> chunk \<Rightarrow> chunk" where
  "fragment_chunk f template =
     template\<lparr>ch_id := sf_id f, ch_content := sf_text f, ch_level := 0,
              ch_source_ids := Some [sf_source_id f], ch_fragment := Some (fragment_meta_of f)\<rparr>"

end
