(* ===== verification/FragmentProps.thy ===== *)
theory FragmentProps
  imports Fragments
begin

text \<open>
  Correctness of segmentation: the turns tile the text, every cut is on a character boundary, the
  pieces of a turn tile it and fit the budget, so the invariant check of the code never fails.
\<close>

section \<open>Tiling\<close>

fun tiles :: "nat \<Rightarrow> (nat \<times> nat) list \<Rightarrow> nat \<Rightarrow> bool" where
  "tiles a [] b \<longleftrightarrow> a = b"
| "tiles a ((s, e) # rs) b \<longleftrightarrow> s = a \<and> s < e \<and> tiles e rs b"

lemma tiles_append: "tiles a (xs @ ys) b \<longleftrightarrow> (\<exists>m. tiles a xs m \<and> tiles m ys b)"
  by (induction xs arbitrary: a) auto

lemma tiles_length: "tiles a rs b \<Longrightarrow> a + length rs \<le> b"
  by (induction a rs b rule: tiles.induct) auto

lemma tiles_le: "tiles a rs b \<Longrightarrow> a \<le> b"
  using tiles_length by fastforce

definition piece_ok :: "string \<Rightarrow> nat \<times> nat \<Rightarrow> bool" where
  "piece_ok text r \<longleftrightarrow> fst r < snd r \<and> snd r \<le> length text \<and>
     is_char_boundary text (fst r) \<and> is_char_boundary text (snd r)"

lemma piece_ok_get: "piece_ok text (s, e) \<Longrightarrow> str_get text s e = Some (take (e - s) (drop s text))"
  by (simp add: piece_ok_def str_get_def)

lemma tiles_concat:
  "tiles a rs b \<Longrightarrow> b \<le> length text \<Longrightarrow>
     concat (map (\<lambda>(s, e). take (e - s) (drop s text)) rs) = take (b - a) (drop a text)"
proof (induction a rs b rule: tiles.induct)
  case (2 a s e rs b)
  then have IH: "concat (map (\<lambda>(s, e). take (e - s) (drop s text)) rs) = take (b - e) (drop e text)"
    and le: "s = a" "s < e" "e \<le> b" using tiles_le by auto
  have "take (b - a) (drop a text) = take ((e - a) + (b - e)) (drop a text)" using le by simp
  also have "\<dots> = take (e - a) (drop a text) @ take (b - e) (drop e text)"
    using le by (simp only: take_add drop_drop) (simp add: add.commute)
  finally show ?case using IH le by simp
qed simp

section \<open>Cuts are character boundaries\<close>

lemma match_indices_mem:
  "i \<in> set (match_indices d j s) \<Longrightarrow> j \<le> i \<and> d \<noteq> [] \<and> starts_with (drop (i - j) s) d"
proof (induction d j s rule: match_indices.induct)
  case (1 d j s)
  show ?case
  proof (cases "s = [] \<or> d = []")
    case True
    with 1(3) show ?thesis by (simp add: match_indices.simps [of d j s])
  next
    case ne: False
    show ?thesis
    proof (cases "starts_with s d")
      case True
      with 1(3) ne consider "i = j" | "i \<in> set (match_indices d (j + length d) (drop (length d) s))"
        by (auto simp: match_indices.simps [of d j s])
      then show ?thesis
      proof cases
        case 2
        from 1(1) [OF ne True 2] show ?thesis using ne by (auto simp: add.commute)
      qed (use True ne in simp)
    next
      case False
      with 1(3) ne have "i \<in> set (match_indices d (Suc j) (tl s))"
        by (simp add: match_indices.simps [of d j s])
      from 1(2) [OF ne False this] show ?thesis
        using ne by (cases s) (auto simp: Suc_le_eq drop_Cons' split: if_splits)
    qed
  qed
qed

lemma boundary_after_match:
  assumes v: "valid_utf8 piece" and i: "i \<in> set (match_indices d 0 piece)" and a: "byte (last d) < 128"
  shows "is_char_boundary piece (i + length d) \<and> i + length d \<le> length piece"
proof -
  have d: "d \<noteq> []" "starts_with (drop i piece) d" using match_indices_mem [OF i] by auto
  then obtain rest where r: "drop i piece = d @ rest" by (auto simp: prefix_def)
  then have len: "i + length d \<le> length piece"
    by (metis d(1) drop_all length_append length_drop le_add1 append_is_Nil_conv
        diff_le_mono nat_le_linear le_diff_conv2 add.commute not_less)
  let ?j = "i + length d - 1"
  have "piece ! ?j = drop i piece ! (length d - 1)" using d(1) len by (cases d) auto
  also have "\<dots> = last d" using d(1) by (simp add: r nth_append last_conv_nth)
  finally have "byte (piece ! ?j) < 128" using a by simp
  moreover have "?j < length piece" using d(1) len by (cases d) auto
  ultimately have "is_char_boundary piece (Suc ?j)" using boundary_after_ascii [OF v] by blast
  moreover have "Suc ?j = i + length d" using d(1) by (cases d) auto
  ultimately show ?thesis using len by simp
qed

lemma boundary_skip_whitespace:
  assumes "valid_utf8 piece" "is_char_boundary piece p"
  shows "is_char_boundary piece (skip_whitespace piece p)"
proof (cases "str_get piece p (length piece)")
  case None
  with assms show ?thesis by (simp add: skip_whitespace_def)
next
  case (Some rest)
  then have rest: "rest = drop p piece" "p \<le> length piece"
    by (auto simp: str_get_def split: if_splits)
  have "valid_utf8 rest" using valid_split [OF assms(1) rest(2) assms(2)] rest by simp
  from boundary_trim_start [OF this]
  have b: "is_char_boundary (drop p piece) (length rest - length (trim_start rest))" by (simp add: rest)
  let ?k = "p + (length rest - length (trim_start rest))"
  have "is_char_boundary piece ?k"
    using boundary_drop [of p ?k piece] b rest by auto
  then show ?thesis by (simp add: skip_whitespace_def Some)
qed

lemma boundary_delimiter:
  assumes v: "valid_utf8 piece" and p: "p \<in> set (delimiter_candidates piece ds)"
    and ds: "\<forall>d \<in> set ds. byte (last d) < 128"
  shows "is_char_boundary piece p"
proof -
  obtain d i where "d \<in> set ds" "i \<in> set (match_indices d 0 piece)" "p = skip_whitespace piece (i + length d)"
    using p by (auto simp: delimiter_candidates_def)
  with boundary_after_match [OF v, of i d] ds boundary_skip_whitespace [OF v] show ?thesis by blast
qed

lemma ws_loop_mem: "p \<in> set (ws_loop gs b) \<Longrightarrow> \<exists>g. (p, g) \<in> set gs"
  by (induction gs b rule: ws_loop.induct) (auto split: if_splits)

lemma boundary_whitespace: "p \<in> set (whitespace_candidates piece) \<Longrightarrow> is_char_boundary piece p"
  using ws_loop_mem char_indices_boundary by (fastforce simp: whitespace_candidates_def)

lemma newline_ascii [simp]: "byte newline = 10"
  by (simp add: newline_def)

lemma split_point_boundary:
  assumes v: "valid_utf8 piece" and p: "split_point piece = Some p"
  shows "is_char_boundary piece p"
proof -
  have d1: "is_char_boundary piece q" if "q \<in> set (delimiter_candidates piece [two_newlines])" for q
    using boundary_delimiter [OF v that] by (simp add: two_newlines_def)
  have d2: "is_char_boundary piece q"
    if "q \<in> set (delimiter_candidates piece [''. '', ''? '', ''! '', [newline]])" for q
    using boundary_delimiter [OF v that] by simp
  show ?thesis
    using p d1 d2 boundary_whitespace nearest_mem hard_split_bounds
    unfolding split_point_def Let_def
    by (auto split: option.splits)
qed

lemma down_loop_ge:
  "q \<le> n \<Longrightarrow> 0 < q \<Longrightarrow> is_char_boundary s q \<Longrightarrow> q \<le> down_loop s n \<and> is_char_boundary s (down_loop s n)"
proof (induction s n rule: down_loop.induct)
  case (2 s n)
  show ?case
  proof (cases "n = 0 \<or> is_char_boundary s (Suc n)")
    case True
    with 2 show ?thesis by (auto simp: le_Suc_eq)
  next
    case False
    with 2 show ?thesis by (auto simp: le_Suc_eq)
  qed
qed simp

lemma down_loop_le: "down_loop s n \<le> n"
  by (induction s n rule: down_loop.induct) auto

lemma hard_split_None:
  assumes "hard_split piece mid = None" "0 < q" "q < length piece" "mid < length piece"
  shows "\<not> is_char_boundary piece q"
proof
  assume b: "is_char_boundary piece q"
  have none: "find (is_char_boundary piece) [max mid 1..<length piece] = None"
    using assms(1) by (auto simp: hard_split_def split: option.splits)
  then have "q < mid" using b assms(2,3) by (force simp: find_None_iff)
  with down_loop_ge [of q "min mid (length piece)" piece] b assms
  have "q \<le> down_loop piece (min mid (length piece)) \<and>
      is_char_boundary piece (down_loop piece (min mid (length piece)))" by simp
  moreover have "down_loop piece (min mid (length piece)) \<le> mid"
    using down_loop_le [of piece "min mid (length piece)"] by simp
  ultimately show False using assms none by (auto simp: hard_split_def Let_def)
qed

lemma split_point_None:
  assumes "split_point piece = None" "0 < q" "q < length piece"
  shows "\<not> is_char_boundary piece q"
proof -
  have "hard_split piece (length piece div 2) = None"
    using assms(1) unfolding split_point_def Let_def by (auto split: option.splits)
  from hard_split_None [OF this assms(2,3)] assms(2,3) show ?thesis by simp
qed

section \<open>Splitting a turn\<close>

text \<open>A fragment fits the budget or is a single character.\<close>

definition fits :: "token_counter \<Rightarrow> nat \<Rightarrow> string \<Rightarrow> bool" where
  "fits counter mx t \<longleftrightarrow>
     (\<exists>n. counter t = Inr n \<and> (n \<le> mx \<or> (\<nexists>q. 0 < q \<and> q < length t \<and> is_char_boundary t q)))"

definition slice :: "string \<Rightarrow> nat \<times> nat \<Rightarrow> string" where
  "slice text r = take (snd r - fst r) (drop (fst r) text)"

lemma piece_ok_slice: "piece_ok text (s, e) \<Longrightarrow> str_get text s e = Some (slice text (s, e))"
  using piece_ok_get by (simp add: slice_def)

lemma cut_piece:
  assumes v: "valid_utf8 text" and ok: "piece_ok text (s, e)" and p: "split_point (slice text (s, e)) = Some p"
  shows "piece_ok text (s, s + p) \<and> piece_ok text (s + p, e)"
proof -
  let ?t = "slice text (s, e)"
  have vt: "valid_utf8 ?t" using valid_piece [OF v piece_ok_slice [OF ok]] by simp
  have b: "is_char_boundary ?t p" by (rule split_point_boundary [OF vt p])
  have len: "0 < p" "s + p < e" "e \<le> length text"
    using split_point_piece [OF piece_ok_slice [OF ok] p] ok by (auto simp: piece_ok_def)
  have "is_char_boundary (drop s text) p"
    using b boundary_take_iff [of p "e - s" "drop s text"] len by (simp add: slice_def)
  then have "is_char_boundary text (s + p)" using boundary_drop [of s "s + p" "text"] len by simp
  then show ?thesis using ok len by (simp add: piece_ok_def)
qed

definition split_post ::
  "string \<Rightarrow> nat \<Rightarrow> token_counter \<Rightarrow> (nat \<times> nat) list \<Rightarrow> nat \<Rightarrow> nat \<Rightarrow> fragment_error + (nat \<times> nat) list \<Rightarrow> bool" where
  "split_post text mx counter out a b res \<longleftrightarrow>
     (case res of
        Inl er \<Rightarrow> \<exists>t. counter t = Inl er
      | Inr rs \<Rightarrow> \<exists>new. rs = out @ new \<and> tiles a new b \<and>
          (\<forall>r \<in> set new. piece_ok text r \<and> fits counter mx (slice text r)))"

lemma split_post_step:
  assumes "piece_ok text (s, e)" "fits counter mx (slice text (s, e))"
    and "split_post text mx counter (out @ [(s, e)]) e b res"
  shows "split_post text mx counter out s b res"
proof (cases res)
  case (Inl er)
  with assms(3) show ?thesis by (simp add: split_post_def)
next
  case (Inr rs)
  then obtain new where "rs = out @ (s, e) # new" "tiles e new b"
    "\<forall>r \<in> set new. piece_ok text r \<and> fits counter mx (slice text r)"
    using assms(3) by (auto simp: split_post_def)
  moreover have "s < e" using assms(1) by (simp add: piece_ok_def)
  ultimately show ?thesis
    unfolding split_post_def Inr sum.case
    by (intro exI [of _ "(s, e) # new"]) (use assms(1,2) \<open>s < e\<close> in auto)
qed

lemma split_loop_tiles:
  "valid_utf8 text \<Longrightarrow> tiles a stack b \<Longrightarrow> \<forall>r \<in> set stack. piece_ok text r \<Longrightarrow>
    split_post text mx counter out a b (split_loop text mx counter stack out)"
proof (induction "text" mx counter stack out arbitrary: a rule: split_loop.induct)
  case (1 tx mx counter out)
  then show ?case by (simp add: split_post_def)
next
  case (2 "text" mx counter s e stack out)
  have ok: "piece_ok text (s, e)" and t: "s = a" "s < e" "tiles e stack b"
    and rest: "\<forall>r \<in> set stack. piece_ok text r"
    using 2(5,6) by auto
  note v = 2(4)
  note g = piece_ok_slice [OF ok]
  show ?case
  proof (cases "counter (slice text (s, e))")
    case (Inl er)
    then show ?thesis using g by (auto simp: split_post_def)
  next
    case (Inr n)
    show ?thesis
    proof (cases "n \<le> mx")
      case True
      have "split_post text mx counter (out @ [(s, e)]) e b
          (split_loop text mx counter stack (out @ [(s, e)]))"
        by (rule 2(1) [OF g Inr True v t(3) rest])
      moreover have "fits counter mx (slice text (s, e))" using Inr True by (auto simp: fits_def)
      ultimately have "split_post text mx counter out s b
          (split_loop text mx counter stack (out @ [(s, e)]))" using split_post_step [OF ok] by blast
      then show ?thesis using g Inr True t(1) by simp
    next
      case False
      show ?thesis
      proof (cases "split_point (slice text (s, e))")
        case None
        have "split_post text mx counter (out @ [(s, e)]) e b
            (split_loop text mx counter stack (out @ [(s, e)]))"
          by (rule 2(2) [OF g Inr False None v t(3) rest])
        moreover have "fits counter mx (slice text (s, e))"
          using Inr split_point_None [OF None] by (auto simp: fits_def)
        ultimately have "split_post text mx counter out s b
            (split_loop text mx counter stack (out @ [(s, e)]))" using split_post_step [OF ok] by blast
        then show ?thesis using g Inr False None t(1) by simp
      next
        case (Some p)
        have "\<forall>r \<in> set ((s, s + p) # (s + p, e) # stack). piece_ok text r"
          using cut_piece [OF v ok Some] rest by simp
        moreover have "tiles a ((s, s + p) # (s + p, e) # stack) b"
          using t split_point_piece [OF g Some] by simp
        ultimately show ?thesis using 2(3) [OF g Inr False Some v, of a] g Inr False Some by simp
      qed
    qed
  qed
qed

lemma split_to_budget_tiles:
  assumes "valid_utf8 text" "piece_ok text (a, b)"
  shows "case split_to_budget text a b mx counter of
      Inl er \<Rightarrow> \<exists>t. counter t = Inl er
    | Inr rs \<Rightarrow> tiles a rs b \<and> (\<forall>r \<in> set rs. piece_ok text r \<and> fits counter mx (slice text r))"
proof -
  have "split_post text mx counter [] a b (split_loop text mx counter [(a, b)] [])"
    by (rule split_loop_tiles) (use assms in \<open>auto simp: piece_ok_def\<close>)
  then show ?thesis by (auto simp: split_post_def split_to_budget_def split: sum.splits)
qed

section \<open>Turns\<close>

lemma concat_split_inclusive [simp]: "concat (split_inclusive s) = s"
  by (induction s) (auto split: list.splits)

lemma split_inclusive_nonempty: "l \<in> set (split_inclusive s) \<Longrightarrow> l \<noteq> []"
  by (induction s arbitrary: l) (auto split: list.splits if_splits)

lemma split_inclusive_newline: "l \<in> set (butlast (split_inclusive s)) \<Longrightarrow> last l = newline"
proof (induction s arbitrary: l)
  case (Cons c cs)
  show ?case
  proof (cases "split_inclusive cs")
    case Nil
    then show ?thesis using Cons.prems by (auto split: if_splits)
  next
    case (Cons m ms)
    have m: "m \<noteq> []" using split_inclusive_nonempty [of m cs] Cons by simp
    show ?thesis
      using Cons.prems Cons.IH [of l] Cons.IH [of m] m
      by (cases ms) (auto simp: Cons split: if_splits)
  qed
qed simp

lemma offsets_mem:
  "(o', l) \<in> set (offsets_from i raws) \<Longrightarrow>
     \<exists>pre r post. raws = pre @ r # post \<and> o' = i + length (concat pre)"
proof (induction i raws rule: offsets_from.induct)
  case (2 i raw raws)
  show ?case
  proof (cases "o' = i \<and> l = trim_end_char carriage (trim_end_char newline raw)")
    case True
    then have "raw # raws = [] @ raw # raws \<and> o' = i + length (concat [])" by simp
    then show ?thesis by blast
  next
    case False
    with 2 obtain pre r post where "raws = pre @ r # post" "o' = i + length raw + length (concat pre)"
      by auto
    then have "raw # raws = (raw # pre) @ r # post \<and> o' = i + length (concat (raw # pre))" by simp
    then show ?thesis by blast
  qed
qed simp

lemma offsets_sorted:
  "\<forall>r \<in> set raws. r \<noteq> [] \<Longrightarrow>
     sorted_wrt (<) (map fst (offsets_from i raws)) \<and> (\<forall>x \<in> set (offsets_from i raws). i \<le> fst x)"
proof (induction i raws rule: offsets_from.induct)
  case (2 i raw raws)
  then have IH: "sorted_wrt (<) (map fst (offsets_from (i + length raw) raws))"
    "\<forall>x \<in> set (offsets_from (i + length raw) raws). i + length raw \<le> fst x" by auto
  have "0 < length raw" using 2(2) by simp
  have "i < fst x" if "x \<in> set (offsets_from (i + length raw) raws)" for x
    using bspec [OF IH(2) that] \<open>0 < length raw\<close> by linarith
  with IH(1) show ?case by (auto simp: less_imp_le)
qed simp

text \<open>The line starts: strictly increasing boundaries inside the text.\<close>

definition starts_ok :: "string \<Rightarrow> nat list \<Rightarrow> bool" where
  "starts_ok text os \<longleftrightarrow> sorted_wrt (<) os \<and> (\<forall>x \<in> set os. x < length text \<and> is_char_boundary text x)"

lemma lines_starts_ok:
  assumes v: "valid_utf8 text"
  shows "starts_ok text (map fst (lines_with_offsets text))"
proof -
  have "x < length text \<and> is_char_boundary text x" if mem: "(x, l) \<in> set (lines_with_offsets text)" for x l
  proof -
    obtain pre r post where s: "split_inclusive text = pre @ r # post" and x: "x = length (concat pre)"
      using offsets_mem [of x l 0 "split_inclusive text"] mem unfolding lines_with_offsets_def by auto
    have tx: "text = concat pre @ r @ concat post"
      using concat_split_inclusive [of "text"] unfolding s by simp
    have "r \<noteq> []" using split_inclusive_nonempty [of r "text"] s by simp
    then have lt: "x < length text" using x by (simp add: tx)
    show ?thesis
    proof (cases "pre = []")
      case True
      with v x lt show ?thesis by simp
    next
      case False
      then have m: "last pre \<in> set (butlast (split_inclusive text))" by (simp add: s butlast_append)
      have "last pre \<noteq> []"
        using split_inclusive_nonempty [of "last pre" "text"] False s by simp
      then have "concat pre \<noteq> []" "last (concat pre) = newline"
        using False split_inclusive_newline [OF m]
        by (cases pre rule: rev_cases; simp)+
      then have "byte (text ! (x - 1)) < 128" "x = Suc (x - 1)"
        by (simp_all add: x tx nth_append last_conv_nth)
      with boundary_after_ascii [OF v, of "x - 1"] lt show ?thesis by simp
    qed
  qed
  then show ?thesis
    using offsets_sorted [of "split_inclusive text" 0] split_inclusive_nonempty
    by (fastforce simp: starts_ok_def lines_with_offsets_def)
qed

definition sub_starts :: "(nat \<times> string) list \<Rightarrow> (nat \<times> string) list \<Rightarrow> bool" where
  "sub_starts ls r \<longleftrightarrow> sorted_wrt (<) (map fst r) \<and> set (map fst r) \<subseteq> set (map fst ls)"

lemma sub_starts_skip: "sub_starts ls r \<Longrightarrow> sub_starts (x # ls) r"
  by (auto simp: sub_starts_def)

lemma sub_starts_take:
  assumes "sorted_wrt (<) (map fst (x # ls))" "sub_starts ls r" "fst y = fst x"
  shows "sub_starts (x # ls) (y # r)"
proof -
  have "fst x < o'" if "o' \<in> set (map fst r)" for o'
  proof -
    have "o' \<in> set (map fst ls)" using assms(2) that unfolding sub_starts_def by blast
    then show ?thesis using assms(1) by auto
  qed
  with assms show ?thesis by (auto simp: sub_starts_def)
qed

lemma sub_starts_ok:
  "starts_ok txt (map fst ls) \<Longrightarrow> sub_starts ls r \<Longrightarrow> starts_ok txt (map fst r)"
  unfolding starts_ok_def sub_starts_def by blast

lemma jsonl_loop_sub:
  "jsonl_loop parse ls = Some r \<Longrightarrow> sorted_wrt (<) (map fst ls) \<Longrightarrow> sub_starts ls r"
proof (induction parse ls arbitrary: r rule: jsonl_loop.induct)
  case (1 parse)
  then show ?case by (simp add: sub_starts_def)
next
  case (2 parse off line ls)
  have srt: "sorted_wrt (<) (map fst ls)" using 2(4) by simp
  show ?case
  proof (cases "trim line = []")
    case True
    with 2(1) [OF True _ srt] 2(3) show ?thesis by (simp add: sub_starts_skip)
  next
    case False
    then obtain role r' where j: "json_line_role parse (trim line) = Some role"
      and r': "jsonl_loop parse ls = Some r'" and r: "r = (off, normalize_role role) # r'"
      using 2(3) by (auto simp: bind_eq_Some_conv)
    from 2(2) [OF False j r' srt] show ?thesis
      unfolding r by (intro sub_starts_take [OF 2(4)]) simp_all
  qed
qed

lemma marker_sub:
  "sorted_wrt (<) (map fst ls) \<Longrightarrow>
     sub_starts ls (List.map_filter (\<lambda>(off, line). map_option (\<lambda>role. (off, role)) (f line)) ls)"
proof (induction ls)
  case Nil
  then show ?case by (simp add: map_filter_simps sub_starts_def)
next
  case (Cons x ls)
  obtain off line where x: "x = (off, line)" by force
  have IH: "sub_starts ls (List.map_filter (\<lambda>(off, line). map_option (\<lambda>role. (off, role)) (f line)) ls)"
    using Cons by simp
  show ?case
  proof (cases "f line")
    case None
    with IH show ?thesis by (simp add: x map_filter_simps sub_starts_skip)
  next
    case (Some role)
    have "sub_starts (x # ls) ((off, role) # List.map_filter (\<lambda>(off, line). map_option (\<lambda>role. (off, role)) (f line)) ls)"
      by (rule sub_starts_take [OF Cons.prems IH]) (simp add: x)
    with Some show ?thesis by (simp add: x map_filter_simps)
  qed
qed

lemma detect_starts_ok:
  assumes "valid_utf8 txt"
  shows "starts_ok txt (map fst (case jsonl_turn_starts parse txt of None \<Rightarrow> marker_turn_starts txt | Some s \<Rightarrow> s))"
proof (cases "jsonl_turn_starts parse txt")
  case None
  note l = lines_starts_ok [OF assms]
  then have "sorted_wrt (<) (map fst (lines_with_offsets txt))" by (simp add: starts_ok_def)
  note m = sub_starts_ok [OF l marker_sub [OF this, of marker_role]]
  have "starts_ok txt (map fst (marker_turn_starts txt))"
  proof (cases "marker_turn_starts txt = []")
    case True
    then show ?thesis by (simp add: starts_ok_def)
  next
    case False
    with m show ?thesis unfolding marker_turn_starts_def Let_def by (simp split: if_splits)
  qed
  then show ?thesis using None by simp
next
  case (Some s)
  note l = lines_starts_ok [OF assms]
  then have "sorted_wrt (<) (map fst (lines_with_offsets txt))" by (simp add: starts_ok_def)
  moreover have "jsonl_loop parse (lines_with_offsets txt) = Some s"
    using Some by (auto simp: jsonl_turn_starts_def bind_eq_Some_conv split: if_splits)
  ultimately show ?thesis using sub_starts_ok [OF l] jsonl_loop_sub Some by simp
qed

abbreviation turn_range :: "turn \<Rightarrow> nat \<times> nat" where
  "turn_range t \<equiv> (tu_start t, tu_end t)"

lemma turn_loop_tiles:
  assumes v: "valid_utf8 txt"
  shows "starts_ok txt (map fst starts) \<Longrightarrow> starts \<noteq> [] \<Longrightarrow>
    (acc = [] \<or> tiles 0 (map turn_range acc) (fst (hd starts))) \<Longrightarrow>
    \<forall>t \<in> set acc. piece_ok txt (turn_range t) \<Longrightarrow>
    tiles 0 (map turn_range (turn_loop (length txt) starts acc)) (length txt) \<and>
    (\<forall>t \<in> set (turn_loop (length txt) starts acc). piece_ok txt (turn_range t))"
proof (induction starts arbitrary: acc)
  case (Cons x rest)
  obtain off role where x: "x = (off, role)" by force
  let ?s = "if acc = [] then 0 else off"
  let ?e = "case rest of [] \<Rightarrow> length txt | (n, _) # _ \<Rightarrow> n"
  let ?t = "\<lparr>tu_start = ?s, tu_end = ?e, tu_role = Some role\<rparr>"
  have off: "off < length txt" "is_char_boundary txt off"
    using Cons.prems(1) by (auto simp: starts_ok_def x)
  have e: "off < ?e" "?e \<le> length txt" "is_char_boundary txt ?e"
    using Cons.prems(1) off by (auto simp: starts_ok_def x split: list.split)
  have ok: "piece_ok txt (turn_range ?t)"
    using off e v by (auto simp: piece_ok_def)
  have til: "tiles 0 (map turn_range (acc @ [?t])) ?e"
    using Cons.prems(3) e(1) by (auto simp: tiles_append x)
  have all: "\<forall>t \<in> set (acc @ [?t]). piece_ok txt (turn_range t)" using Cons.prems(4) ok by simp
  have step: "turn_loop (length txt) (x # rest) acc = turn_loop (length txt) rest (acc @ [?t])"
    by (simp add: x)
  show ?case
  proof (cases rest)
    case Nil
    then show ?thesis using til all unfolding step by simp
  next
    case (Cons y ys)
    have "starts_ok txt (map fst rest)" using Cons.prems(1) by (simp add: starts_ok_def)
    moreover have "tiles 0 (map turn_range (acc @ [?t])) (fst (hd rest))"
      using til Cons by (cases y) simp
    ultimately show ?thesis unfolding step using Cons.IH [of "acc @ [?t]"] all Cons by blast
  qed
qed simp

lemma build_turns_tiles:
  assumes v: "valid_utf8 txt" and ne: "txt \<noteq> []" and s: "starts_ok txt (map fst starts)"
  shows "tiles 0 (map turn_range (build_turns txt starts)) (length txt) \<and>
    (\<forall>t \<in> set (build_turns txt starts). piece_ok txt (turn_range t))"
proof (cases starts)
  case Nil
  then show ?thesis using v ne by (simp add: build_turns_def piece_ok_def)
next
  case (Cons x rest)
  obtain first role where x: "x = (first, role)" by force
  have f: "first < length txt" "is_char_boundary txt first" using s by (auto simp: starts_ok_def Cons x)
  let ?lead = "\<lparr>tu_start = 0, tu_end = first, tu_role = None\<rparr>"
  have "piece_ok txt (turn_range ?lead)" if "0 < first" using that f v by (simp add: piece_ok_def)
  then show ?thesis
    unfolding build_turns_def Cons x list.case prod.case Let_def
    by (intro turn_loop_tiles [OF v]) (use s Cons x in \<open>auto\<close>)
qed

lemma detect_turns_tiles:
  assumes "valid_utf8 txt" "txt \<noteq> []"
  shows "tiles 0 (map turn_range (detect_turns parse txt)) (length txt) \<and>
    (\<forall>t \<in> set (detect_turns parse txt). piece_ok txt (turn_range t))"
  unfolding detect_turns_def by (rule build_turns_tiles [OF assms detect_starts_ok [OF assms(1)]])

section \<open>Segmentation\<close>

abbreviation frag_range :: "source_fragment \<Rightarrow> nat \<times> nat" where
  "frag_range f \<equiv> (sf_byte_start f, sf_byte_end f)"

definition frag_ok :: "canonical_source \<Rightarrow> nat \<Rightarrow> source_fragment \<Rightarrow> bool" where
  "frag_ok source j f \<longleftrightarrow> sf_index f = j \<and> sf_id f = fragment_id (cs_id source) j \<and>
     sf_source_id f = cs_id source \<and> piece_ok (cs_text source) (frag_range f) \<and>
     sf_text f = slice (cs_text source) (frag_range f)"

definition frags_ok :: "canonical_source \<Rightarrow> source_fragment list \<Rightarrow> nat \<Rightarrow> bool" where
  "frags_ok source fs m \<longleftrightarrow> (\<forall>j < length fs. frag_ok source j (fs ! j)) \<and> tiles 0 (map frag_range fs) m"

lemma frags_ok_snoc:
  assumes "frags_ok source fs a" "frag_ok source (length fs) f" "sf_byte_start f = a"
  shows "frags_ok source (fs @ [f]) (sf_byte_end f)"
  using assms by (auto simp: frags_ok_def nth_append tiles_append frag_ok_def piece_ok_def less_Suc_eq)

lemma build_ranges_ok:
  "frags_ok source fs a \<Longrightarrow> tiles a rs b \<Longrightarrow> \<forall>r \<in> set rs. piece_ok (cs_text source) r \<Longrightarrow>
     length (cs_text source) \<le> u32_max \<Longrightarrow> b \<le> length (cs_text source) \<Longrightarrow>
     \<exists>new. build_ranges source k role rs fs = Inr (fs @ new) \<and> frags_ok source (fs @ new) b \<and>
       map frag_range new = rs \<and> (\<forall>f \<in> set new. sf_text f = slice (cs_text source) (frag_range f))"
proof (induction rs arbitrary: fs a)
  case (Cons r rs)
  obtain s e where r: "r = (s, e)" by force
  have ok: "piece_ok (cs_text source) (s, e)" and til: "s = a" "tiles e rs b"
    using Cons.prems(2,3) by (auto simp: r)
  have ab: "a \<le> b" using tiles_le [OF Cons.prems(2)] .
  let ?f = "\<lparr>sf_id = fragment_id (cs_id source) (length fs), sf_source_id = cs_id source,
    sf_index = length fs, sf_byte_start = s, sf_byte_end = e, sf_turn_index = k, sf_role = role,
    sf_conversation_date = cs_conversation_date source, sf_text = slice (cs_text source) (s, e)\<rparr>"
  have "length fs \<le> a"
    using Cons.prems(1) tiles_length [of 0 "map frag_range fs" a] by (simp add: frags_ok_def)
  then have idx: "index_u32 (length fs) = Inr (length fs)"
    using ab Cons.prems(4,5) by (simp add: index_u32_def)
  have bf: "build_fragment source r (length fs) k role = Inr ?f"
    using piece_ok_slice [OF ok] by (simp add: build_fragment_def r)
  have f: "frag_ok source (length fs) ?f" using ok by (simp add: frag_ok_def)
  have "frags_ok source (fs @ [?f]) e" using frags_ok_snoc [OF Cons.prems(1) f] til(1) by simp
  from Cons.IH [OF this til(2) _ Cons.prems(4,5)] Cons.prems(3) obtain new where
    new: "build_ranges source k role rs (fs @ [?f]) = Inr ((fs @ [?f]) @ new)"
      "frags_ok source ((fs @ [?f]) @ new) b" "map frag_range new = rs"
      "\<forall>f \<in> set new. sf_text f = slice (cs_text source) (frag_range f)" by auto
  show ?case
    by (intro exI [of _ "?f # new"]) (use new idx bf r in \<open>simp\<close>)
qed auto

definition seg_post ::
  "canonical_source \<Rightarrow> fragments_config \<Rightarrow> token_counter \<Rightarrow> nat \<Rightarrow> fragment_error + source_fragment list \<Rightarrow> bool" where
  "seg_post source cfg counter b res \<longleftrightarrow>
     (case res of
        Inl er \<Rightarrow> \<exists>t. counter t = Inl er
      | Inr fs \<Rightarrow> frags_ok source fs b \<and> (\<forall>f \<in> set fs. fits counter (fc_max_fragment_tokens cfg) (sf_text f)))"

lemma segment_turns_ok:
  "valid_utf8 (cs_text source) \<Longrightarrow> length (cs_text source) \<le> u32_max \<Longrightarrow>
     frags_ok source fs a \<Longrightarrow> \<forall>f \<in> set fs. fits counter (fc_max_fragment_tokens cfg) (sf_text f) \<Longrightarrow>
     tiles a (map turn_range ts) b \<Longrightarrow> \<forall>t \<in> set ts. piece_ok (cs_text source) (turn_range t) \<Longrightarrow>
     b \<le> length (cs_text source) \<Longrightarrow> k \<le> a \<Longrightarrow>
     seg_post source cfg counter b (segment_turns source cfg counter k ts fs)"
proof (induction ts arbitrary: fs a k)
  case Nil
  then show ?case by (simp add: seg_post_def)
next
  case (Cons t ts)
  let ?txt = "cs_text source" and ?mx = "fc_max_fragment_tokens cfg"
  have t: "tu_start t = a" "a < tu_end t" "tiles (tu_end t) (map turn_range ts) b"
    "piece_ok ?txt (a, tu_end t)"
    using Cons.prems(5,6) by auto
  have "tu_end t \<le> b" using tiles_le [OF t(3)] .
  then have k: "index_u32 k = Inr k" "Suc k \<le> tu_end t" and e: "tu_end t \<le> length ?txt"
    using Cons.prems(2,7,8) t(2) by (auto simp: index_u32_def)
  show ?case
  proof (cases "split_to_budget ?txt a (tu_end t) ?mx counter")
    case (Inl er)
    then show ?thesis
      using split_to_budget_tiles [OF Cons.prems(1) t(4), where mx = ?mx and counter = counter] k t(1) by (simp add: seg_post_def)
  next
    case (Inr rs)
    then have rs: "tiles a rs (tu_end t)" "\<forall>r \<in> set rs. piece_ok ?txt r \<and> fits counter ?mx (slice ?txt r)"
      using split_to_budget_tiles [OF Cons.prems(1) t(4), where mx = ?mx and counter = counter] by simp_all
    obtain new where new: "build_ranges source k (tu_role t) rs fs = Inr (fs @ new)"
      "frags_ok source (fs @ new) (tu_end t)" "map frag_range new = rs"
      "\<forall>f \<in> set new. sf_text f = slice ?txt (frag_range f)"
      using build_ranges_ok [OF Cons.prems(3) rs(1) _ Cons.prems(2) e] rs(2) by blast
    have "fits counter ?mx (sf_text f)" if "f \<in> set new" for f
    proof -
      have "frag_range f \<in> set rs" using that new(3) by auto
      then show ?thesis using rs(2) new(4) that by auto
    qed
    then have all: "\<forall>f \<in> set (fs @ new). fits counter ?mx (sf_text f)" using Cons.prems(4) by auto
    have "\<forall>t \<in> set ts. piece_ok ?txt (turn_range t)" using Cons.prems(6) by simp
    from Cons.IH [OF Cons.prems(1,2) new(2) all t(3) this Cons.prems(7) k(2)]
    show ?thesis using k t(1) Inr new(1) by simp
  qed
qed

lemma fragment_id_inj: "fragment_id i j = fragment_id i k \<longleftrightarrow> j = k"
  by (simp add: fragment_id_def)

lemma verify_loop_ok:
  "\<forall>j < length fs. frag_ok source (pos + j) (fs ! j) \<Longrightarrow> tiles cursor (map frag_range fs) b \<Longrightarrow>
     ids \<subseteq> {fragment_id (cs_id source) j | j. j < pos} \<Longrightarrow> pos + length fs \<le> Suc u32_max \<Longrightarrow>
     verify_loop source fs pos cursor ids = Inr b"
proof (induction fs arbitrary: pos cursor ids)
  case (Cons f fs)
  have f: "frag_ok source pos f" using Cons.prems(1) by fastforce
  have rest: "\<forall>j < length fs. frag_ok source (Suc pos + j) (fs ! j)"
    using Cons.prems(1) by fastforce
  have ok: "piece_ok (cs_text source) (frag_range f)" using f by (simp add: frag_ok_def)
  have "verify_fragment source f pos cursor = Inr ()"
    using f Cons.prems(2,4) piece_ok_slice [OF ok]
    by (simp add: verify_fragment_def index_u32_def frag_ok_def)
  moreover have "sf_id f \<notin> ids" using f Cons.prems(3) by (auto simp: frag_ok_def fragment_id_inj)
  moreover have "insert (sf_id f) ids \<subseteq> {fragment_id (cs_id source) j | j. j < Suc pos}"
    using f Cons.prems(3) by (fastforce simp: frag_ok_def)
  moreover have "tiles (sf_byte_end f) (map frag_range fs) b" using Cons.prems(2) by simp
  ultimately show ?case
    using Cons.IH [OF rest, of "sf_byte_end f" "insert (sf_id f) ids"] Cons.prems(4) by simp
qed simp

lemma verify_ok:
  assumes "frags_ok source fs (length (cs_text source))" "length (cs_text source) \<le> u32_max"
  shows "verify_invariants source fs = Inr ()"
proof -
  have "length fs \<le> length (cs_text source)"
    using assms(1) tiles_length [of 0 "map frag_range fs"] by (fastforce simp: frags_ok_def)
  then have "verify_loop source fs 0 0 {} = Inr (length (cs_text source))"
    using assms by (intro verify_loop_ok) (auto simp: frags_ok_def)
  then show ?thesis by (simp add: verify_invariants_def)
qed

lemma frags_concat:
  assumes "frags_ok source fs (length (cs_text source))"
  shows "concat (map sf_text fs) = cs_text source"
proof -
  have "map sf_text fs = map (\<lambda>(s, e). take (e - s) (drop s (cs_text source))) (map frag_range fs)"
    using assms by (intro nth_equalityI) (auto simp: frags_ok_def frag_ok_def slice_def)
  moreover have "concat (map (\<lambda>(s, e). take (e - s) (drop s (cs_text source))) (map frag_range fs)) =
      cs_text source"
    using tiles_concat [of 0 "map frag_range fs" "length (cs_text source)" "cs_text source"] assms
    unfolding frags_ok_def by simp
  ultimately show ?thesis by presburger
qed

lemma frags_distinct: "frags_ok source fs b \<Longrightarrow> distinct (map sf_id fs)"
  by (auto simp: frags_ok_def frag_ok_def distinct_conv_nth fragment_id_inj)

lemma segment_source_ok:
  assumes "valid_utf8 (cs_text source)" "length (cs_text source) \<le> u32_max" "0 < fc_max_fragment_tokens cfg"
  shows "seg_post source cfg counter (length (cs_text source)) (segment_source parse source cfg counter)"
proof (cases "cs_text source = []")
  case True
  then show ?thesis using assms(3) by (simp add: segment_source_def seg_post_def frags_ok_def)
next
  case False
  note d = detect_turns_tiles [OF assms(1) False, of parse]
  let ?r = "segment_turns source cfg counter 0 (detect_turns parse (cs_text source)) []"
  have "seg_post source cfg counter (length (cs_text source)) ?r"
    by (rule segment_turns_ok [OF assms(1,2), of "[]" 0]) (use d in \<open>simp_all add: frags_ok_def\<close>)
  then show ?thesis
    using False assms(2,3) verify_ok by (cases ?r) (simp_all add: segment_source_def seg_post_def)
qed

text \<open>C15. On any well-formed text segmentation either returns fragments or the error of the token
  counter, never an invariant violation. The fragments concatenate to the source text byte for byte,
  have distinct ids, pass the invariant check, and each fits the token budget unless it is a single
  character.\<close>

theorem segmentation_tiles_source:
  assumes "valid_utf8 (cs_text source)" "length (cs_text source) \<le> u32_max" "0 < fc_max_fragment_tokens cfg"
  shows "case segment_source parse source cfg counter of
      Inl er \<Rightarrow> \<exists>t. counter t = Inl er
    | Inr fs \<Rightarrow> concat (map sf_text fs) = cs_text source \<and> distinct (map sf_id fs) \<and>
        verify_invariants source fs = Inr () \<and>
        list_all (\<lambda>f. \<exists>n. counter (sf_text f) = Inr n \<and> (n \<le> fc_max_fragment_tokens cfg \<or>
          (\<nexists>q. 0 < q \<and> q < length (sf_text f) \<and> is_char_boundary (sf_text f) q))) fs"
  using segment_source_ok [OF assms, of counter parse] frags_concat frags_distinct verify_ok assms(2)
  by (auto simp: seg_post_def fits_def list_all_iff split: sum.splits)

text \<open>The turns detected in a text, whether from JSON lines or from role markers, tile it: they are
  non-empty, contiguous from the first byte to the last, and start and end on character
  boundaries.\<close>

theorem turns_tile_text:
  assumes "valid_utf8 txt" "txt \<noteq> []"
  shows "tiles 0 (map (\<lambda>t. (tu_start t, tu_end t)) (detect_turns parse txt)) (length txt) \<and>
    list_all (\<lambda>t. is_char_boundary txt (tu_start t) \<and> is_char_boundary txt (tu_end t)) (detect_turns parse txt)"
  using detect_turns_tiles [OF assms, of parse] by (auto simp: list_all_iff piece_ok_def)

lemma char_count_single:
  assumes "valid_utf8 t" "\<nexists>q. 0 < q \<and> q < length t \<and> is_char_boundary t q"
  shows "char_count t \<le> 1"
proof (cases t)
  case (Cons c cs)
  have "is_cont x" if x: "x \<in> set cs" for x
  proof -
    obtain i where i: "i < length cs" "cs ! i = x" using x by (auto simp: in_set_conv_nth)
    then have "\<not> is_char_boundary t (Suc i)" using assms(2) Cons by auto
    with i show ?thesis by (auto simp: is_char_boundary_def Cons)
  qed
  then have "filter (\<lambda>x. \<not> is_cont x) cs = []" by (simp add: filter_empty_conv)
  then show ?thesis by (simp add: char_count_def Cons)
qed (simp add: char_count_def)

text \<open>
  The contract of a model-free counter: it never fails and counts a single character as at most
  one token. Segmentation with such a counter is total and keeps every fragment in the budget.
\<close>

locale total_counter =
  fixes count_tokens :: "string \<Rightarrow> nat"
  assumes single: "char_count t \<le> 1 \<Longrightarrow> count_tokens t \<le> 1"
begin

lemma segment_total:
  assumes "valid_utf8 (cs_text source)" "length (cs_text source) \<le> u32_max" "0 < fc_max_fragment_tokens cfg"
  shows "\<exists>fs. segment_source parse source cfg (\<lambda>t. Inr (count_tokens t)) = Inr fs \<and>
    list_all (\<lambda>f. count_tokens (sf_text f) \<le> fc_max_fragment_tokens cfg) fs"
proof (cases "segment_source parse source cfg (\<lambda>t. Inr (count_tokens t))")
  case (Inl er)
  with segment_source_ok [OF assms, of "\<lambda>t. Inr (count_tokens t)" parse] show ?thesis
    by (auto simp: seg_post_def)
next
  case (Inr fs)
  with segment_source_ok [OF assms, of "\<lambda>t. Inr (count_tokens t)" parse]
  have fs: "frags_ok source fs (length (cs_text source))"
    "\<forall>f \<in> set fs. fits (\<lambda>t. Inr (count_tokens t)) (fc_max_fragment_tokens cfg) (sf_text f)"
    by (simp_all add: seg_post_def)
  have "count_tokens (sf_text f) \<le> fc_max_fragment_tokens cfg" if f: "f \<in> set fs" for f
  proof -
    obtain j where "j < length fs" "fs ! j = f" using f by (auto simp: in_set_conv_nth)
    then have "piece_ok (cs_text source) (frag_range f)" "sf_text f = slice (cs_text source) (frag_range f)"
      using fs(1) by (auto simp: frags_ok_def frag_ok_def)
    then have "valid_utf8 (sf_text f)" using valid_piece [OF assms(1) piece_ok_slice] by simp
    from char_count_single [OF this] single [of "sf_text f"] fs(2) f assms(3) show ?thesis
      by (fastforce simp: fits_def)
  qed
  with Inr show ?thesis by (simp add: list_all_iff)
qed

end

interpretation approx: total_counter "\<lambda>t. (char_count t + 2) div 3"
  by unfold_locales simp

text \<open>C16. With the model-free counter segmentation always succeeds and every fragment is within the
  budget.\<close>

theorem approx_segmentation_total:
  assumes "valid_utf8 (cs_text source)" "length (cs_text source) \<le> u32_max" "0 < fc_max_fragment_tokens cfg"
  shows "\<exists>fs. segment_source parse source cfg approx_counter = Inr fs \<and>
    list_all (\<lambda>f. (char_count (sf_text f) + 2) div 3 \<le> fc_max_fragment_tokens cfg) fs"
  unfolding approx_counter_def [abs_def] by (rule approx.segment_total [OF assms])

section \<open>Witnesses\<close>

definition w_text_source :: canonical_source where
  "w_text_source = \<lparr>cs_id = ''src'', cs_text = ''user: hi. bye. assistant: ok'', cs_conversation_date = None\<rparr>"

definition w_frag_cfg :: fragments_config where
  "w_frag_cfg = default_fragments_config\<lparr>fc_max_fragment_tokens := 2\<rparr>"

lemma w_text_ok:
  "valid_utf8 (cs_text w_text_source)" "length (cs_text w_text_source) \<le> u32_max"
  "0 < fc_max_fragment_tokens w_frag_cfg" "cs_text w_text_source \<noteq> []"
  by (simp_all add: w_text_source_def w_frag_cfg_def valid_ascii)

theorem segmentation_tiles_source_witness:
  "case segment_source (\<lambda>s. None) w_text_source w_frag_cfg approx_counter of
     Inl er \<Rightarrow> False
   | Inr fs \<Rightarrow> concat (map sf_text fs) = ''user: hi. bye. assistant: ok'' \<and> distinct (map sf_id fs)"
proof -
  have "cs_text w_text_source = ''user: hi. bye. assistant: ok''" by (simp add: w_text_source_def)
  with segmentation_tiles_source [OF w_text_ok(1-3), where parse = "\<lambda>s. None" and counter = approx_counter] show ?thesis
    by (auto simp: approx_counter_def split: sum.splits)
qed

theorem turns_tile_text_witness:
  "tiles 0 (map (\<lambda>t. (tu_start t, tu_end t)) (detect_turns (\<lambda>s. None) (cs_text w_text_source)))
     (length (cs_text w_text_source))"
  using turns_tile_text [OF w_text_ok(1,4)] by simp

theorem approx_segmentation_total_witness:
  "\<exists>fs. segment_source (\<lambda>s. None) w_text_source w_frag_cfg approx_counter = Inr fs \<and>
     list_all (\<lambda>f. (char_count (sf_text f) + 2) div 3 \<le> 2) fs"
proof -
  have "fc_max_fragment_tokens w_frag_cfg = 2" by (simp add: w_frag_cfg_def)
  with approx_segmentation_total [OF w_text_ok(1-3), of "\<lambda>s. None"] show ?thesis by simp
qed

end
