(* ===== verification/AuditLog.thy ===== *)
theory AuditLog
  imports Chunks
begin

text \<open>
  The audit logs: the append-only rows of \<^verbatim>\<open>loomem-core/src/storage.rs\<close> (\<^verbatim>\<open>append_audit\<close>,
  \<^verbatim>\<open>last_audit\<close>, \<^verbatim>\<open>scan_audit\<close>, \<^verbatim>\<open>append_access\<close>, \<^verbatim>\<open>scan_access\<close>), the hash chain of \<^verbatim>\<open>audit.rs\<close> and
  the access trail of \<^verbatim>\<open>access_audit/mod.rs\<close>. JSON and SHA-256 are not part of the repository:
  \<open>audit_env\<close> holds them as functions. The process-wide sequence number and failure counter are
  explicit.
\<close>

section \<open>Rows\<close>

definition pad :: "nat \<Rightarrow> nat \<Rightarrow> string" where
  "pad w n = replicate (w - length (show_nat n)) (CHR ''0'') @ show_nat n"

definition row_suffix :: "nat \<Rightarrow> nat \<Rightarrow> string" where
  "row_suffix ts sq = pad 20 ts @ '':'' @ pad 6 sq"

definition audit_prefix :: "string \<Rightarrow> string" where
  "audit_prefix user = ''audit:'' @ user @ '':''"

definition access_prefix :: "string \<Rightarrow> string" where
  "access_prefix stream = ''access:'' @ stream @ '':''"

text \<open>Encrypt under the scope and append one row; the caller gives the prefix and the scope.\<close>

definition append_row :: "store \<Rightarrow> string \<Rightarrow> string \<Rightarrow> nat \<Rightarrow> nat \<Rightarrow> string \<Rightarrow> store res" where
  "append_row st p scope ts sq value =
     rbind (pv_encrypt (st_prov st) scope value) (\<lambda>blob.
       Inr (st\<lparr>st_db := kv_put (p @ row_suffix ts sq) (VBytes blob) (st_db st)\<rparr>))"

definition append_audit :: "store \<Rightarrow> string \<Rightarrow> nat \<Rightarrow> nat \<Rightarrow> string \<Rightarrow> store res" where
  "append_audit st user ts sq value = append_row st (audit_prefix user) user ts sq value"

definition append_access :: "store \<Rightarrow> string \<Rightarrow> nat \<Rightarrow> nat \<Rightarrow> string \<Rightarrow> store res" where
  "append_access st stream ts sq value = append_row st (access_prefix stream) stream ts sq value"

text \<open>The bytes of a row. A chunk row never stands under these prefixes.\<close>

fun row_bytes :: "row \<Rightarrow> string" where
  "row_bytes (VBytes b) = b"
| "row_bytes (VChunk c) = []"

definition bump_last :: "string \<Rightarrow> string" where
  "bump_last p = butlast p @ [char_of (Suc (of_char (last p)))]"

text \<open>The reverse seek from the prefix with its last byte incremented, one step back.\<close>

definition last_value_under_prefix :: "row cf \<Rightarrow> string \<Rightarrow> string option" where
  "last_value_under_prefix db p =
     (if p = [] \<or> (of_char (last p) :: nat) = 255
      then (case rev (kv_prefix p db) of [] \<Rightarrow> None | (k, v) # _ \<Rightarrow> Some (row_bytes v))
      else (case rev (filter (\<lambda>(k, v). k \<le> bump_last p) db) of
              [] \<Rightarrow> None
            | (k, v) # _ \<Rightarrow> if starts_with k p then Some (row_bytes v) else None))"

definition open_row :: "store \<Rightarrow> string \<Rightarrow> string \<Rightarrow> string option" where
  "open_row st scope b =
     (if pv_is_encrypted (st_prov st) b
      then (case pv_decrypt (st_prov st) scope b of Inl e \<Rightarrow> None | Inr p \<Rightarrow> Some p)
      else Some b)"

definition last_audit :: "store \<Rightarrow> string \<Rightarrow> string option" where
  "last_audit st user =
     Option.bind (last_value_under_prefix (st_db st) (audit_prefix user)) (open_row st user)"

fun scan_loop :: "store \<Rightarrow> string \<Rightarrow> row cf \<Rightarrow> string list \<Rightarrow> nat \<Rightarrow> string list \<times> nat" where
  "scan_loop st scope [] events dropped = (events, dropped)"
| "scan_loop st scope ((k, v) # rs) events dropped =
     (case open_row st scope (row_bytes v) of
        Some plain \<Rightarrow> scan_loop st scope rs (events @ [plain]) dropped
      | None \<Rightarrow> scan_loop st scope rs events (Suc dropped))"

text \<open>\<open>None\<close> is the limit \<^verbatim>\<open>usize::MAX\<close>.\<close>

definition take_opt :: "nat option \<Rightarrow> 'a list \<Rightarrow> 'a list" where
  "take_opt limit xs = (case limit of None \<Rightarrow> xs | Some n \<Rightarrow> take n xs)"

definition scan_audit :: "store \<Rightarrow> string \<Rightarrow> nat option \<Rightarrow> string list \<times> nat" where
  "scan_audit st user limit =
     scan_loop st user (take_opt limit (kv_prefix (audit_prefix user) (st_db st))) [] 0"

definition scan_access :: "store \<Rightarrow> string \<Rightarrow> nat option \<Rightarrow> string list \<times> nat" where
  "scan_access st stream limit =
     scan_loop st stream (take_opt limit (kv_prefix (access_prefix stream) (st_db st))) [] 0"

section \<open>The hash chain\<close>

record audit_event =
  ev_action :: string
  ev_actor_id :: string
  ev_actor_email :: string
  ev_timestamp :: nat
  ev_details :: json
  ev_prev_hash :: "string option"

record audit_env =
  ae_ser :: "audit_event \<Rightarrow> string option"
  ae_de :: "string \<Rightarrow> audit_event option"
  ae_hash :: "string \<Rightarrow> string"

record audit_state =
  as_store :: store
  as_seq :: nat
  as_failures :: nat

definition new_event :: "string \<Rightarrow> string \<Rightarrow> string \<Rightarrow> json \<Rightarrow> nat \<Rightarrow> audit_event" where
  "new_event action actor_id actor_email details now =
     \<lparr>ev_action = action, ev_actor_id = actor_id, ev_actor_email = actor_email, ev_timestamp = now,
      ev_details = details, ev_prev_hash = None\<rparr>"

definition system_event :: "string \<Rightarrow> json \<Rightarrow> nat \<Rightarrow> audit_event" where
  "system_event action details now = new_event action ''system'' ''system@loomem.ai'' details now"

definition chained :: "audit_env \<Rightarrow> store \<Rightarrow> string \<Rightarrow> audit_event \<Rightarrow> audit_event" where
  "chained env st user ev = ev\<lparr>ev_prev_hash := map_option (ae_hash env) (last_audit st user)\<rparr>"

text \<open>The counter is a \<^verbatim>\<open>u32\<close> that wraps. A failed append still takes a number, except when the event
  does not serialise.\<close>

definition append_event ::
  "audit_env \<Rightarrow> audit_state \<Rightarrow> string \<Rightarrow> audit_event \<Rightarrow> unit res \<times> audit_state" where
  "append_event env s user ev =
     (case ae_ser env (chained env (as_store s) user ev) of
        None \<Rightarrow> (Inl (Err ''failed to serialize AuditEvent''), s\<lparr>as_failures := Suc (as_failures s)\<rparr>)
      | Some bytes \<Rightarrow>
          let s1 = s\<lparr>as_seq := (as_seq s + 1) mod (u32_max + 1)\<rparr>
          in case append_audit (as_store s) user (ev_timestamp ev) (as_seq s) bytes of
               Inl e \<Rightarrow> (Inl e, s1\<lparr>as_failures := Suc (as_failures s)\<rparr>)
             | Inr st' \<Rightarrow> (Inr (), s1\<lparr>as_store := st'\<rparr>))"

datatype chain_status = Valid nat | Broken nat | Indeterminate nat

text \<open>\<open>prev\<close> is the blob before the current one, \<open>i\<close> the index of the current one.\<close>

fun chain_loop :: "audit_env \<Rightarrow> string \<Rightarrow> string list \<Rightarrow> nat \<Rightarrow> bool \<Rightarrow> nat \<Rightarrow> chain_status" where
  "chain_loop env prev [] i entered n = Valid n"
| "chain_loop env prev (b # bs) i entered n =
     (case ae_de env b of
        None \<Rightarrow> Broken i
      | Some cur \<Rightarrow>
          (case ev_prev_hash cur of
             None \<Rightarrow> if entered then Broken i else chain_loop env b bs (Suc i) entered n
           | Some h \<Rightarrow> if h \<noteq> ae_hash env prev then Broken i
                       else chain_loop env b bs (Suc i) True (Suc n)))"

definition verify_chain_blobs :: "audit_env \<Rightarrow> string list \<Rightarrow> chain_status" where
  "verify_chain_blobs env blobs =
     (case blobs of [] \<Rightarrow> Valid 0 | b # bs \<Rightarrow> chain_loop env b bs 1 False 0)"

definition verify_chain :: "audit_env \<Rightarrow> store \<Rightarrow> string \<Rightarrow> chain_status" where
  "verify_chain env st user =
     (let (blobs, dropped) = scan_audit st user None
      in if dropped > 0 then Indeterminate dropped else verify_chain_blobs env blobs)"

definition read_rows :: "(string \<Rightarrow> 'a option) \<Rightarrow> string list \<times> nat \<Rightarrow> nat \<Rightarrow> 'a list \<times> nat" where
  "read_rows de scan limit =
     (take limit (rev (List.map_filter de (fst scan))),
      snd scan + length (filter (\<lambda>b. de b = None) (fst scan)))"

definition list_audit :: "audit_env \<Rightarrow> store \<Rightarrow> string \<Rightarrow> nat \<Rightarrow> audit_event list \<times> nat" where
  "list_audit env st user limit = read_rows (ae_de env) (scan_audit st user None) limit"

section \<open>The access trail\<close>

datatype access_op = Search | StoreOp | FileRead

record access_record =
  ar_actor_user_id :: "string option"
  ar_stream :: string
  ar_role :: string
  ar_scope :: string
  ar_op :: access_op
  ar_target_id :: "string option"
  ar_result_count :: nat
  ar_ts :: nat

definition record_access ::
  "(access_record \<Rightarrow> string option) \<Rightarrow> audit_state \<Rightarrow> access_record \<Rightarrow> unit res \<times> audit_state" where
  "record_access ser s r =
     (case ser r of
        None \<Rightarrow> (Inl (Err ''failed to serialize AccessRecord''), s\<lparr>as_failures := Suc (as_failures s)\<rparr>)
      | Some bytes \<Rightarrow>
          let s1 = s\<lparr>as_seq := (as_seq s + 1) mod (u32_max + 1)\<rparr>
          in case append_access (as_store s) (ar_stream r) (ar_ts r) (as_seq s) bytes of
               Inl e \<Rightarrow> (Inl e, s1\<lparr>as_failures := Suc (as_failures s)\<rparr>)
             | Inr st' \<Rightarrow> (Inr (), s1\<lparr>as_store := st'\<rparr>))"

definition list_access ::
  "(string \<Rightarrow> access_record option) \<Rightarrow> store \<Rightarrow> string \<Rightarrow> nat \<Rightarrow> access_record list \<times> nat" where
  "list_access de st stream limit = read_rows de (scan_access st stream None) limit"

section \<open>Row order\<close>

lemma digits_value_foldl:
  "foldl (\<lambda>n c. 10 * n + digit_val c) a s = a * 10 ^ length s + digits_value s"
proof (induction s arbitrary: a)
  case (Cons c cs)
  have "foldl (\<lambda>n c. 10 * n + digit_val c) a (c # cs) = (10 * a + digit_val c) * 10 ^ length cs + digits_value cs"
    using Cons [of "10 * a + digit_val c"] by simp
  moreover have "digits_value (c # cs) = digit_val c * 10 ^ length cs + digits_value cs"
    using Cons [of "digit_val c"] by (simp add: digits_value_def)
  ultimately show ?case by (simp add: algebra_simps)
qed (simp add: digits_value_def)

lemma digits_value_Cons: "digits_value (c # cs) = digit_val c * 10 ^ length cs + digits_value cs"
  using digits_value_foldl [of "digit_val c" cs] by (simp add: digits_value_def)

lemma digits_value_less: "list_all is_digit s \<Longrightarrow> digits_value s < 10 ^ length s"
proof (induction s)
  case (Cons c cs)
  then have "digit_val c \<le> 9" "digits_value cs < 10 ^ length cs"
    by (auto simp: digit_val_def is_digit_def)
  then have "digit_val c * 10 ^ length cs + digits_value cs < 9 * 10 ^ length cs + 10 ^ length cs"
    by (intro add_le_less_mono mult_right_mono) auto
  then show ?case by (simp add: digits_value_Cons)
qed (simp add: digits_value_def)

lemma digit_less: "is_digit c \<Longrightarrow> is_digit d \<Longrightarrow> c < d \<longleftrightarrow> digit_val c < digit_val d"
  by (auto simp: is_digit_def digit_val_def less_char_def)

text \<open>For digit strings of one length the byte order is the numeric order.\<close>

lemma digits_order:
  "length s = length t \<Longrightarrow> list_all is_digit s \<Longrightarrow> list_all is_digit t \<Longrightarrow>
     digits_value s < digits_value t \<Longrightarrow> s < t"
proof (induction s t rule: list_induct2)
  case (Cons c s d t)
  have lt: "digits_value s < 10 ^ length s" "digits_value t < 10 ^ length t"
    using Cons.prems by (simp_all add: digits_value_less)
  consider "digit_val c < digit_val d" | "digit_val c = digit_val d" | "digit_val d < digit_val c" by linarith
  then show ?case
  proof cases
    case 1
    then show ?thesis using Cons.prems digit_less [of c d] by simp
  next
    case 2
    have "48 \<le> (of_char c :: nat)" "48 \<le> (of_char d :: nat)"
      using Cons.prems by (auto simp: is_digit_def)
    with 2 have "(of_char c :: nat) = of_char d" unfolding digit_val_def by linarith
    then have "c = d" by simp
    then show ?thesis using Cons 2 by (simp add: digits_value_Cons)
  next
    case 3
    then have "Suc (digit_val d) * 10 ^ length s \<le> digit_val c * 10 ^ length s" by (intro mult_right_mono) auto
    then have False using Cons.prems(3) lt Cons.hyps by (simp add: digits_value_Cons)
    then show ?thesis ..
  qed
qed (simp add: digits_value_def)

lemma digits_value_zeros: "digits_value (replicate k (CHR ''0'') @ s) = digits_value s"
  by (induction k) (simp_all add: digits_value_Cons digit_val_def)

lemma length_show_nat: "n < 10 ^ w \<Longrightarrow> 0 < w \<Longrightarrow> length (show_nat n) \<le> w"
proof (induction n arbitrary: w rule: show_nat.induct)
  case (1 n)
  show ?case
  proof (cases "n < 10")
    case True
    then show ?thesis using 1(3) by (simp add: show_nat.simps [of n])
  next
    case False
    then obtain w' where w: "w = Suc w'" "0 < w'" using 1(2) by (cases w; cases "w - 1") auto
    then have "n div 10 < 10 ^ w'" using 1(2) by (simp add: less_mult_imp_div_less mult.commute)
    from 1(1) [OF False this w(2)] show ?thesis using False w by (simp add: show_nat.simps [of n])
  qed
qed

lemma pad_props:
  assumes "n < 10 ^ w" "0 < w"
  shows "length (pad w n) = w" "list_all is_digit (pad w n)" "digits_value (pad w n) = n"
proof -
  show "length (pad w n) = w" using length_show_nat [OF assms] by (simp add: pad_def)
  have "is_digit (CHR ''0'')" by (simp add: is_digit_def)
  then show "list_all is_digit (pad w n)"
    using show_nat_digits [of n] by (auto simp: pad_def list_all_iff)
  show "digits_value (pad w n) = n" by (simp add: pad_def digits_value_zeros)
qed

lemma pad_less: "m < n \<Longrightarrow> n < 10 ^ w \<Longrightarrow> 0 < w \<Longrightarrow> pad w m < pad w n"
  by (rule digits_order) (simp_all add: pad_props)

lemma append_less: "(xs :: string) < ys \<Longrightarrow> length xs = length ys \<Longrightarrow> xs @ zs < ys @ ws"
  by (induction xs ys rule: List.list_induct2') auto

lemma append_less_same: "(zs :: string) < ws \<Longrightarrow> xs @ zs < xs @ ws"
  by (induction xs) auto

lemma row_suffix_less:
  assumes "t < t' \<or> (t = t' \<and> s < s')" "t' < 10 ^ 20" "s' < 10 ^ 6"
  shows "p @ row_suffix t s < p @ row_suffix t' s'"
proof (rule append_less_same)
  show "row_suffix t s < row_suffix t' s'"
  proof (cases "t < t'")
    case True
    then have "pad 20 t < pad 20 t'" "length (pad 20 t) = length (pad 20 t')"
      using assms(2) pad_less [of t t' 20] pad_props(1) [of _ 20] by simp_all
    then show ?thesis unfolding row_suffix_def by (rule append_less)
  next
    case False
    then have "t = t'" "s < s'" using assms(1) by auto
    then show ?thesis
      unfolding row_suffix_def using pad_less [of s s' 6] assms(3)
      by (simp add: append_less_same)
  qed
qed

end
