(* ===== verification/AuditProps.thy ===== *)
theory AuditProps
  imports AuditLog
begin

text \<open>
  The audit log as a client of an append-only log: the locale states what the hash chain needs of
  the storage rows, its lemma shows that chained appends verify, and the interpretation proves the
  contract for the rows in the store. Then what verification detects, and when it raises a false
  alarm.
\<close>

section \<open>Rows under a prefix\<close>

lemma kv_prefix_put_last:
  "kv_sorted db \<Longrightarrow> starts_with k p \<Longrightarrow> \<forall>(k', v') \<in> set (kv_prefix p db). k' < k \<Longrightarrow>
     kv_prefix p (kv_put k v db) = kv_prefix p db @ [(k, v)]"
proof (induction k v db rule: kv_put.induct)
  case (1 k v)
  then show ?case by (simp add: kv_prefix_def)
next
  case (2 k v k' v' db)
  have later: "\<forall>x \<in> set db. k' < fst x" and srt: "kv_sorted db"
    using 2(2) by (auto simp: kv_sorted_def)
  consider "k < k'" | "k = k'" | "k' < k" by fastforce
  then show ?case
  proof cases
    case 1
    have "\<not> starts_with k' p" using 1 2(4) by (auto simp: kv_prefix_def)
    moreover have "\<not> starts_with (fst x) p" if x: "x \<in> set db" for x
    proof
      assume "starts_with (fst x) p"
      then have "x \<in> set (kv_prefix p ((k', v') # db))" using x by (auto simp: kv_prefix_def)
      then have "fst x < k" using 2(4) by auto
      moreover have "k' < fst x" using later x by blast
      ultimately show False using 1 by (meson order.strict_trans order.irrefl)
    qed
    then have "kv_prefix p db = []" by (auto simp: kv_prefix_def filter_empty_conv)
    ultimately show ?thesis using 1 2(3) by (simp add: kv_prefix_def)
  next
    case 2
    with "2.prems" show ?thesis by (auto simp: kv_prefix_def)
  next
    case 3
    then have "kv_prefix p (kv_put k v db) = kv_prefix p db @ [(k, v)]"
      using 2(1) [OF _ _ srt 2(3)] 2(4) by (auto simp: kv_prefix_def split: if_splits)
    then show ?thesis using 3 by (auto simp: kv_prefix_def)
  qed
qed

lemma char_suc:
  assumes "(of_char c :: nat) < 255"
  shows "(d :: char) < char_of (Suc (of_char c)) \<longleftrightarrow> d < c \<or> d = c"
proof -
  have "(of_char (char_of (Suc (of_char c)) :: char) :: nat) = Suc (of_char c)" using assms by simp
  then show ?thesis by (auto simp: less_char_def less_Suc_eq)
qed

lemma upper_bound:
  assumes "(of_char c :: nat) < 255"
  shows "k \<le> q @ [char_of (Suc (of_char c))] \<longleftrightarrow>
    k < q @ [c] \<or> starts_with k (q @ [c]) \<or> k = q @ [char_of (Suc (of_char c))]"
proof (induction q arbitrary: k)
  case Nil
  have ne: "c \<noteq> char_of (Suc (of_char c))" using char_suc [OF assms, of c] by auto
  show ?case
    by (cases k) (auto simp: char_suc [OF assms] ne)
next
  case (Cons a q)
  then show ?case by (cases k) auto
qed

lemma sorted_filter_split:
  "kv_sorted db \<Longrightarrow> (\<And>k k'. P k \<Longrightarrow> Q k' \<Longrightarrow> k < k') \<Longrightarrow>
     filter (\<lambda>(k, v). P k \<or> Q k) db = filter (\<lambda>(k, v). P k) db @ filter (\<lambda>(k, v). Q k) db"
proof (induction db)
  case (Cons x db)
  obtain k v where x: "x = (k, v)" by force
  have srt: "kv_sorted db" and later: "\<forall>y \<in> set db. k < fst y" using Cons.prems(1) by (auto simp: kv_sorted_def x)
  show ?case
  proof (cases "P k")
    case True
    have "\<not> Q k" using True Cons.prems(2) [of k k] by auto
    with True Cons.IH [OF srt Cons.prems(2)] show ?thesis by (simp add: x)
  next
    case False
    have "filter (\<lambda>(k, v). P k) db = []" if "Q k"
      using that later Cons.prems(2) by (fastforce simp: filter_empty_conv)
    with False Cons.IH [OF srt Cons.prems(2)] show ?thesis by (auto simp: x)
  qed
qed simp

text \<open>The reverse seek finds the last row of the prefix scan, provided no row has the seek key
  itself.\<close>

lemma last_value_scan:
  assumes srt: "kv_sorted db" and p: "p = q @ [c]" and c: "(of_char c :: nat) < 255"
    and free: "kv_get db (bump_last p) = None"
  shows "last_value_under_prefix db p =
    (case rev (kv_prefix p db) of [] \<Rightarrow> None | (k, v) # _ \<Rightarrow> Some (row_bytes v))"
proof -
  have up: "bump_last p = q @ [char_of (Suc (of_char c))]" by (simp add: bump_last_def p)
  have "k \<noteq> bump_last p" if "(k, v) \<in> set db" for k v
    using free that by (force simp: map_of_eq_None_iff)
  then have "filter (\<lambda>(k, v). k \<le> bump_last p) db = filter (\<lambda>(k, v). k < p \<or> starts_with k p) db"
    using upper_bound [OF c, of _ q, folded up p] by (intro filter_cong) auto
  also have "\<dots> = filter (\<lambda>(k, v). k < p) db @ kv_prefix p db"
    unfolding kv_prefix_def
  proof (rule sorted_filter_split [OF srt])
    fix k k' assume "k < p" "starts_with k' p"
    moreover have "p \<le> p @ zs" for zs by (induction p) auto
    ultimately show "k < k'" by (auto simp: prefix_def intro: order.strict_trans2)
  qed
  finally have eq: "rev (filter (\<lambda>(k, v). k \<le> bump_last p) db) =
      rev (kv_prefix p db) @ rev (filter (\<lambda>(k, v). k < p) db)" by simp
  have pre: "starts_with k p" if "(k, v) \<in> set (rev (kv_prefix p db))" for k v
    using that by (auto simp: kv_prefix_def)
  have no: "\<not> starts_with k p" if "(k, v) \<in> set (rev (filter (\<lambda>(k, v). k < p) db))" "kv_prefix p db = []" for k v
    using that by (auto simp: kv_prefix_def filter_empty_conv)
  show ?thesis
  proof (cases "rev (kv_prefix p db)")
    case Nil
    show ?thesis
    proof (cases "rev (filter (\<lambda>(k, v). k < p) db)")
      case Nil
      with \<open>rev (kv_prefix p db) = []\<close> show ?thesis
        unfolding last_value_under_prefix_def eq by (simp add: p)
    next
      case (Cons x xs)
      obtain k v where x: "x = (k, v)" by force
      then have "(k, v) \<in> set (rev (filter (\<lambda>(k, v). k < p) db))" using Cons by simp
      then have "\<not> starts_with k p" using no \<open>rev (kv_prefix p db) = []\<close> by simp
      with \<open>rev (kv_prefix p db) = []\<close> Cons x c show ?thesis
        unfolding last_value_under_prefix_def eq by (simp add: p)
    qed
  next
    case (Cons x xs)
    then show ?thesis
      using pre c unfolding last_value_under_prefix_def eq by (cases x) (auto simp: p)
  qed
qed

section \<open>Scans\<close>

lemma scan_loop_split:
  "scan_loop st scope (rs @ rs') ev d =
     (case scan_loop st scope rs ev d of (ev', d') \<Rightarrow> scan_loop st scope rs' ev' d')"
  by (induction st scope rs ev d rule: scan_loop.induct) (auto split: option.split)

lemma scan_loop_acc:
  "scan_loop st scope rs ev d =
     (ev @ fst (scan_loop st scope rs [] 0), d + snd (scan_loop st scope rs [] 0))"
proof (induction rs arbitrary: ev d)
  case (Cons x rs)
  obtain k v where x: "x = (k, v)" by force
  show ?case
  proof (cases "open_row st scope (row_bytes v)")
    case None
    show ?thesis using Cons [of ev "Suc d"] Cons [of "[]" "Suc 0"] by (simp add: x None)
  next
    case (Some b)
    show ?thesis using Cons [of "ev @ [b]" d] Cons [of "[b]" 0] by (simp add: x Some)
  qed
qed simp

lemma scan_loop_cong: "st_prov st' = st_prov st \<Longrightarrow> scan_loop st' scope rs ev d = scan_loop st scope rs ev d"
  by (induction st scope rs ev d rule: scan_loop.induct) (auto simp: open_row_def split: option.split)

lemma scan_loop_all:
  "snd (scan_loop st scope rs [] 0) = 0 \<Longrightarrow>
     map Some (fst (scan_loop st scope rs [] 0)) = map (\<lambda>(k, v). open_row st scope (row_bytes v)) rs"
proof (induction rs)
  case (Cons x rs)
  obtain k v where x: "x = (k, v)" by force
  show ?case
  proof (cases "open_row st scope (row_bytes v)")
    case None
    with Cons.prems scan_loop_acc [of st scope rs "[]" "Suc 0"] show ?thesis by (simp add: x)
  next
    case (Some b)
    with Cons scan_loop_acc [of st scope rs "[b]" 0] show ?thesis by (simp add: x)
  qed
qed simp

section \<open>The append-only log\<close>

text \<open>
  What the chain needs of the rows: the newest row is the last one of the scan, and adding at a
  later slot appends one row. The client links every new blob to the newest.
\<close>

locale append_log =
  fixes rows :: "'s \<Rightarrow> string list"
    and newest :: "'s \<Rightarrow> string option"
    and add :: "'i \<Rightarrow> string \<Rightarrow> 's \<Rightarrow> 's option"
    and good :: "'s \<Rightarrow> bool"
    and later :: "'s \<Rightarrow> 'i \<Rightarrow> bool"
  assumes newest_last: "good s \<Longrightarrow> newest s = (if rows s = [] then None else Some (last (rows s)))"
    and add_appends: "good s \<Longrightarrow> later s i \<Longrightarrow> add i b s = Some s' \<Longrightarrow> rows s' = rows s @ [b] \<and> good s'"
begin

lemma chain_loop_snoc:
  assumes "ae_de env b = Some ev" "ev_prev_hash ev = Some (ae_hash env (last (prev # bs)))"
    and "chain_loop env prev bs i entered n = Valid m"
  shows "chain_loop env prev (bs @ [b]) i entered n = Valid (Suc m)"
  using assms
proof (induction env prev bs i entered n rule: chain_loop.induct)
  case (2 env prev c bs i entered n)
  then obtain cur where cur: "ae_de env c = Some cur" by (auto split: option.splits)
  with 2 show ?case by (auto split: option.splits if_splits)
qed simp

lemma linked_add:
  assumes "good s" "later s i" "add i b s = Some s'"
    and "ae_de env b = Some ev" "ev_prev_hash ev = map_option (ae_hash env) (newest s)"
    and "verify_chain_blobs env (rows s) = Valid n"
  shows "rows s' = rows s @ [b] \<and> verify_chain_blobs env (rows s') = Valid (if rows s = [] then n else Suc n)"
proof (cases "rows s")
  case Nil
  with add_appends [OF assms(1-3)] assms(6) show ?thesis by (simp add: verify_chain_blobs_def)
next
  case (Cons r rs)
  have "ev_prev_hash ev = Some (ae_hash env (last (r # rs)))"
    using newest_last [OF assms(1)] assms(5) Cons by simp
  from chain_loop_snoc [OF assms(4) this, of 1 False 0 n] add_appends [OF assms(1-3)] assms(6) Cons
  show ?thesis by (simp add: verify_chain_blobs_def)
qed

end

text \<open>What the rows need of the provider: an encrypted blob is recognised and decrypts, anything
  else was passed through.\<close>

definition row_provider_ok :: "provider \<Rightarrow> bool" where
  "row_provider_ok pv \<longleftrightarrow> (\<forall>s p b. pv_encrypt pv s p = Inr b \<longrightarrow>
     (if pv_is_encrypted pv b then pv_decrypt pv s b = Inr p else b = p))"

definition log_good :: "string \<Rightarrow> store \<Rightarrow> bool" where
  "log_good user st \<longleftrightarrow> kv_sorted (st_db st) \<and> row_provider_ok (st_prov st) \<and>
     kv_get (st_db st) (bump_last (audit_prefix user)) = None \<and> snd (scan_audit st user None) = 0"

definition log_later :: "string \<Rightarrow> store \<Rightarrow> nat \<times> nat \<Rightarrow> bool" where
  "log_later user st slot \<longleftrightarrow>
     (\<forall>(k, v) \<in> set (kv_prefix (audit_prefix user) (st_db st)). k < audit_prefix user @ row_suffix (fst slot) (snd slot))"

definition audit_add :: "string \<Rightarrow> nat \<times> nat \<Rightarrow> string \<Rightarrow> store \<Rightarrow> store option" where
  "audit_add user slot b st =
     (case append_audit st user (fst slot) (snd slot) b of Inl e \<Rightarrow> None | Inr st' \<Rightarrow> Some st')"

lemma audit_prefix_parts: "audit_prefix user = (''audit:'' @ user) @ [CHR '':'']"
  by (simp add: audit_prefix_def)

lemma suffix_not_fence: "p @ row_suffix t s \<noteq> bump_last p \<or> p = []"
proof (cases "p = []")
  case False
  have "length (p @ row_suffix t s) > length p"
    by (simp add: row_suffix_def)
  moreover have "length (bump_last p) = length p" using False by (simp add: bump_last_def)
  ultimately show ?thesis by (metis less_irrefl)
qed simp

lemma scan_audit_add:
  assumes good: "log_good user st" and later: "log_later user st (ts, sq)"
    and a: "append_audit st user ts sq b = Inr st'"
  shows "fst (scan_audit st' user None) = fst (scan_audit st user None) @ [b] \<and> log_good user st'"
proof -
  let ?p = "audit_prefix user" and ?k = "audit_prefix user @ row_suffix ts sq"
  obtain blob where blob: "pv_encrypt (st_prov st) user b = Inr blob"
    and st': "st' = st\<lparr>st_db := kv_put ?k (VBytes blob) (st_db st)\<rparr>"
    using a by (auto simp: append_audit_def append_row_def)
  have srt: "kv_sorted (st_db st)" and pv: "row_provider_ok (st_prov st)" using good by (auto simp: log_good_def)
  have rows: "kv_prefix ?p (st_db st') = kv_prefix ?p (st_db st) @ [(?k, VBytes blob)]"
    unfolding st' using kv_prefix_put_last [OF srt, of ?p ?k] later by (simp add: log_later_def)
  have "open_row st user blob = Some b"
    using pv blob unfolding row_provider_ok_def open_row_def by (fastforce split: if_splits)
  moreover have "open_row st' user blob = open_row st user blob" by (simp add: open_row_def st')
  ultimately have open_b: "open_row st' user blob = Some b" by simp
  let ?old = "scan_loop st user (kv_prefix ?p (st_db st)) [] 0"
  have "st_prov st' = st_prov st" by (simp add: st')
  note old = scan_loop_cong [OF this, of user "kv_prefix ?p (st_db st)" "[]" 0]
  have "scan_audit st' user None = (fst ?old @ [b], snd ?old)"
    unfolding scan_audit_def rows take_opt_def option.case scan_loop_split old
    by (simp add: open_b split: prod.split)
  moreover have "bump_last ?p \<noteq> ?k" using suffix_not_fence [of ?p ts sq] by (auto simp: audit_prefix_def)
  ultimately show ?thesis
    using good by (auto simp: log_good_def scan_audit_def take_opt_def st' kv_sorted_put map_of_kv_put)
qed

lemma last_audit_scan:
  assumes "log_good user st"
  shows "last_audit st user =
    (if fst (scan_audit st user None) = [] then None else Some (last (fst (scan_audit st user None))))"
proof -
  let ?rows = "kv_prefix (audit_prefix user) (st_db st)"
  have "last_value_under_prefix (st_db st) (audit_prefix user) =
      (case rev ?rows of [] \<Rightarrow> None | (k, v) # _ \<Rightarrow> Some (row_bytes v))"
    using assms by (intro last_value_scan [OF _ audit_prefix_parts]) (auto simp: log_good_def)
  moreover have "map Some (fst (scan_audit st user None)) = map (\<lambda>(k, v). open_row st user (row_bytes v)) ?rows"
    using scan_loop_all assms by (simp add: log_good_def scan_audit_def take_opt_def)
  ultimately show ?thesis
  proof (cases ?rows rule: rev_cases)
    case (snoc ys y)
    obtain k v where y: "y = (k, v)" by force
    let ?blobs = "fst (scan_audit st user None)"
    assume m: "map Some ?blobs = map (\<lambda>(k, v). open_row st user (row_bytes v)) ?rows"
      and l: "last_value_under_prefix (st_db st) (audit_prefix user) =
        (case rev ?rows of [] \<Rightarrow> None | (k, v) # _ \<Rightarrow> Some (row_bytes v))"
    have "?blobs \<noteq> []" using m snoc by auto
    then have "Some (last ?blobs) = last (map Some ?blobs)" by (simp add: last_map)
    also have "\<dots> = open_row st user (row_bytes v)" unfolding m snoc y by simp
    finally show ?thesis using l snoc y \<open>?blobs \<noteq> []\<close> by (simp add: last_audit_def)
  qed (simp add: last_audit_def)
qed

interpretation audit_rows: append_log
  "\<lambda>st. fst (scan_audit st user None)" "\<lambda>st. last_audit st user" "audit_add user" "log_good user" "log_later user"
  for user
proof unfold_locales
  show "log_good user s \<Longrightarrow> last_audit s user =
    (if fst (scan_audit s user None) = [] then None else Some (last (fst (scan_audit s user None))))" for s
    by (rule last_audit_scan)
  show "fst (scan_audit s' user None) = fst (scan_audit s user None) @ [b] \<and> log_good user s'"
    if "log_good user s" "log_later user s i" "audit_add user i b s = Some s'" for s i b s'
    using that scan_audit_add [of user s "fst i" "snd i" b s']
    by (auto simp: audit_add_def split: sum.splits)
qed

section \<open>Properties\<close>

text \<open>The rows a user's log holds, all at slots before a given one.\<close>

definition slots_before :: "string \<Rightarrow> store \<Rightarrow> nat \<Rightarrow> nat \<Rightarrow> bool" where
  "slots_before user st ts sq \<longleftrightarrow>
     (\<forall>(k, v) \<in> set (kv_prefix (audit_prefix user) (st_db st)).
        \<exists>t q. k = audit_prefix user @ row_suffix t q \<and> (t < ts \<or> t = ts \<and> q < sq))"

lemma slots_before_later:
  "slots_before user st ts sq \<Longrightarrow> ts < 10 ^ 20 \<Longrightarrow> sq < 10 ^ 6 \<Longrightarrow> log_later user st (ts, sq)"
  unfolding slots_before_def log_later_def using row_suffix_less by fastforce

definition env_ok :: "audit_env \<Rightarrow> bool" where
  "env_ok env \<longleftrightarrow> (\<forall>e b. ae_ser env e = Some b \<longrightarrow> ae_de env b = Some e)"

text \<open>While every event falls into a later second, or a higher sequence number in the same second,
  appending adds exactly the event's bytes at the end of the user's log, linked to the newest row,
  and a log that verified keeps verifying with one more link.\<close>

theorem append_keeps_chain:
  assumes "log_good user (as_store s)" "env_ok env"
    and "slots_before user (as_store s) (ev_timestamp ev) (as_seq s)"
    and "ev_timestamp ev \<le> u64_max" "as_seq s < 10 ^ 6"
    and "append_event env s user ev = (Inr (), s')"
    and "verify_chain env (as_store s) user = Valid n"
  shows "\<exists>bytes. ae_de env bytes = Some (ev\<lparr>ev_prev_hash := map_option (ae_hash env) (last_audit (as_store s) user)\<rparr>) \<and>
    scan_audit (as_store s') user None = (fst (scan_audit (as_store s) user None) @ [bytes], 0) \<and>
    verify_chain env (as_store s') user = Valid (if fst (scan_audit (as_store s) user None) = [] then n else Suc n)"
proof -
  let ?st = "as_store s"
  obtain bytes st' where ser: "ae_ser env (chained env ?st user ev) = Some bytes"
    and a: "append_audit ?st user (ev_timestamp ev) (as_seq s) bytes = Inr st'" and s': "as_store s' = st'"
    using assms(6) by (auto simp: append_event_def Let_def split: option.splits sum.splits)
  have de: "ae_de env bytes = Some (chained env ?st user ev)" using ser assms(2) by (simp add: env_ok_def)
  have add: "audit_add user (ev_timestamp ev, as_seq s) bytes ?st = Some st'" using a by (simp add: audit_add_def)
  have later: "log_later user ?st (ev_timestamp ev, as_seq s)"
    by (rule slots_before_later [OF assms(3)]) (use assms(4,5) in simp_all)
  have v: "verify_chain_blobs env (fst (scan_audit ?st user None)) = Valid n"
    using assms(1,7) by (auto simp: verify_chain_def log_good_def split: prod.splits)
  have link: "ev_prev_hash (chained env ?st user ev) = map_option (ae_hash env) (last_audit ?st user)"
    by (simp add: chained_def)
  note l = audit_rows.linked_add [OF assms(1) later add de link v]
  have "snd (scan_audit st' user None) = 0"
    using audit_rows.add_appends [OF assms(1) later add] by (simp add: log_good_def)
  with l have scan: "scan_audit st' user None = (fst (scan_audit ?st user None) @ [bytes], 0)"
    by (simp add: prod_eq_iff)
  have "verify_chain env st' user = Valid (if fst (scan_audit ?st user None) = [] then n else Suc n)"
    using l by (simp add: verify_chain_def scan)
  with scan de show ?thesis unfolding s' chained_def by blast
qed

text \<open>Every row carries the hash of the row before it.\<close>

fun linked :: "audit_env \<Rightarrow> string list \<Rightarrow> bool" where
  "linked env (a # b # cs) \<longleftrightarrow>
     (\<exists>ev. ae_de env b = Some ev \<and> ev_prev_hash ev = Some (ae_hash env a)) \<and> linked env (b # cs)"
| "linked env _ \<longleftrightarrow> True"

lemma chain_loop_full:
  "chain_loop env prev bs i entered n = Valid m \<Longrightarrow>
     m \<le> n + length bs \<and> (m = n + length bs \<longrightarrow> linked env (prev # bs))"
proof (induction env prev bs i entered n arbitrary: m rule: chain_loop.induct)
  case (2 env prev b bs i entered n)
  then obtain cur where cur: "ae_de env b = Some cur" by (auto split: option.splits)
  show ?case
  proof (cases "ev_prev_hash cur")
    case None
    then have "chain_loop env b bs (Suc i) entered n = Valid m" "\<not> entered"
      using 2(3) cur by (auto split: if_splits)
    from 2(1) [OF cur None this(2) this(1)] show ?thesis by auto
  next
    case (Some h)
    then have h: "\<not> h \<noteq> ae_hash env prev" and c: "chain_loop env b bs (Suc i) True (Suc n) = Valid m"
      using 2(3) cur by (auto split: if_splits)
    from 2(2) [OF cur Some h c] show ?thesis using cur Some h by auto
  qed
qed simp

lemma linked_snoc:
  "xs \<noteq> [] \<Longrightarrow> linked env (xs @ [z]) \<Longrightarrow>
     linked env xs \<and> (\<exists>ev. ae_de env z = Some ev \<and> ev_prev_hash ev = Some (ae_hash env (last xs)))"
proof (induction xs)
  case (Cons x xs)
  then show ?case by (cases xs) auto
qed simp

lemma linked_determined:
  "linked env xs \<Longrightarrow> linked env ys \<Longrightarrow> xs \<noteq> [] \<Longrightarrow> ys \<noteq> [] \<Longrightarrow> last xs = last ys \<Longrightarrow>
     (\<nexists>a b. a \<in> set xs \<and> b \<in> set ys \<and> a \<noteq> b \<and> ae_hash env a = ae_hash env b) \<Longrightarrow>
     suffix xs ys \<or> suffix ys xs"
proof (induction xs arbitrary: ys rule: rev_induct)
  case (snoc z xs)
  obtain ys' where ys: "ys = ys' @ [z]"
    using snoc.prems(4,5) by (metis append_butlast_last_id last_snoc)
  show ?case
  proof (cases "xs = [] \<or> ys' = []")
    case True
    then show ?thesis by (auto simp: ys suffix_def)
  next
    case False
    have x: "linked env xs" "\<exists>ev. ae_de env z = Some ev \<and> ev_prev_hash ev = Some (ae_hash env (last xs))"
      using linked_snoc [of xs env z] False snoc.prems(1) by auto
    have y: "linked env ys'" "\<exists>ev. ae_de env z = Some ev \<and> ev_prev_hash ev = Some (ae_hash env (last ys'))"
      using linked_snoc [of ys' env z] False snoc.prems(2) by (auto simp: ys)
    have "ae_hash env (last xs) = ae_hash env (last ys')" using x y by auto
    then have eq: "last xs = last ys'"
      using snoc.prems(6) False unfolding ys by (metis UnCI last_in_set set_append)
    have "suffix xs ys' \<or> suffix ys' xs"
      using snoc.IH [OF x(1) y(1) _ _ eq] False snoc.prems(6) by (auto simp: ys)
    then show ?thesis by (auto simp: ys)
  qed
qed simp

text \<open>C19. Tamper evidence: two fully chained logs that end in the same row are equal up to rows missing
  at the front, unless two different rows in them have the same hash. So no edit, insertion,
  deletion or reordering before the last row passes verification, except dropping the oldest rows.\<close>

theorem chain_determines_log:
  assumes "verify_chain_blobs env xs = Valid (length xs - 1)" "verify_chain_blobs env ys = Valid (length ys - 1)"
    and "xs \<noteq> []" "ys \<noteq> []" "last xs = last ys"
  shows "suffix xs ys \<or> suffix ys xs \<or>
    (\<exists>a b. a \<in> set xs \<and> b \<in> set ys \<and> a \<noteq> b \<and> ae_hash env a = ae_hash env b)"
proof -
  have "linked env zs" if v: "verify_chain_blobs env zs = Valid (length zs - 1)" and ne: "zs \<noteq> []" for zs
  proof (cases zs)
    case (Cons z zs')
    then show ?thesis using v chain_loop_full [of env z zs' 1 False 0] by (simp add: verify_chain_blobs_def)
  qed (use ne in simp)
  then have "linked env xs" "linked env ys" using assms by blast+
  from linked_determined [OF this assms(3-5)] show ?thesis by blast
qed

section \<open>A false alarm\<close>

definition w_env :: audit_env where
  "w_env = \<lparr>ae_ser = (\<lambda>e. Some (ev_action e @ ''|'' @ (case ev_prev_hash e of None \<Rightarrow> [] | Some h \<Rightarrow> h))),
     ae_de = (\<lambda>b. map_option (\<lambda>(a, h). \<lparr>ev_action = a, ev_actor_id = [], ev_actor_email = [], ev_timestamp = 0,
        ev_details = JNull, ev_prev_hash = (if h = [] then None else Some h)\<rparr>) (split_once (CHR ''|'') b)),
     ae_hash = takeWhile (\<lambda>c. c \<noteq> CHR ''|'')\<rparr>"

definition w_row_provider :: provider where
  "w_row_provider = \<lparr>pv_enabled = False, pv_encrypt = (\<lambda>s p. Inr p), pv_decrypt = (\<lambda>s b. Inr b),
     pv_ser = (\<lambda>x. []), pv_de = (\<lambda>b. None), pv_is_encrypted = (\<lambda>b. False)\<rparr>"

definition w_audit_state :: audit_state where
  "w_audit_state = \<lparr>as_store = \<lparr>st_db = [], st_emb = [], st_prov = w_row_provider, st_last_scan = None,
     st_at_rest_key_present = False\<rparr>, as_seq = 0, as_failures = 0\<rparr>"

definition w_event :: "string \<Rightarrow> nat \<Rightarrow> audit_event" where
  "w_event a ts = new_event a ''admin'' ''a@b'' JNull ts"

text \<open>Three honest appends: one at second 50, two at second 100 with a restart between them, which
  resets the sequence number.\<close>

definition w_restarted :: audit_state where
  "w_restarted =
     (let s1 = snd (append_event w_env w_audit_state ''u'' (w_event ''a'' 50));
          s2 = snd (append_event w_env s1 ''u'' (w_event ''b'' 100))
      in snd (append_event w_env (s2\<lparr>as_seq := 0\<rparr>) ''u'' (w_event ''c'' 100)))"

lemma w_suffixes:
  "row_suffix 50 0 = ''00000000000000000050:000000''"
  "row_suffix 100 (Suc 0) = ''00000000000000000100:000001''"
  "row_suffix 100 0 = ''00000000000000000100:000000''"
  "bump_last ''audit:u:'' = ''audit:u;''"
  by code_simp+

text \<open>After a restart within the same second honest appends break the chain: the sequence number
  starts again at zero, the new row sorts before the row it is linked to, and verification reports
  tampering.\<close>

theorem restart_breaks_chain:
  "verify_chain w_env (as_store w_restarted) ''u'' = Broken 1"
  unfolding w_restarted_def w_audit_state_def w_event_def
  by (simp add: append_event_def new_event_def Let_def chained_def last_audit_def
      last_value_under_prefix_def audit_prefix_def w_env_def append_audit_def append_row_def w_row_provider_def w_suffixes
      verify_chain_def verify_chain_blobs_def scan_audit_def take_opt_def kv_prefix_def open_row_def)

text \<open>An environment that meets the contract, restricted to the events it prints faithfully.\<close>

definition plain_event :: "audit_event \<Rightarrow> bool" where
  "plain_event e \<longleftrightarrow> CHR ''|'' \<notin> set (ev_action e) \<and> ev_actor_id e = [] \<and> ev_actor_email e = [] \<and>
     ev_timestamp e = 0 \<and> ev_details e = JNull \<and> ev_prev_hash e \<noteq> Some []"

definition w_env_ok :: audit_env where
  "w_env_ok = w_env\<lparr>ae_ser := (\<lambda>e. if plain_event e then ae_ser w_env e else None)\<rparr>"

lemma w_env_ok_law: "env_ok w_env_ok"
proof -
  have "ae_de w_env b = Some e" if "plain_event e" "ae_ser w_env e = Some b" for e b
  proof -
    have b: "b = ev_action e @ CHR ''|'' # (case ev_prev_hash e of None \<Rightarrow> [] | Some h \<Rightarrow> h)"
      using that(2) by (simp add: w_env_def)
    have "CHR ''|'' \<notin> set (ev_action e)" using that(1) by (simp add: plain_event_def)
    then have "split_once (CHR ''|'') b =
        Some (ev_action e, case ev_prev_hash e of None \<Rightarrow> [] | Some h \<Rightarrow> h)"
      unfolding b by (rule split_once_append)
    then show ?thesis using that(1)
      by (cases e) (auto simp: w_env_def plain_event_def split: option.splits)
  qed
  then show ?thesis by (auto simp: env_ok_def w_env_ok_def w_env_def split: if_splits)
qed

definition w_plain :: audit_event where "w_plain = new_event ''a'' [] [] JNull 0"

theorem append_keeps_chain_witness:
  "\<exists>s'. append_event w_env_ok w_audit_state ''u'' w_plain = (Inr (), s') \<and>
     verify_chain w_env_ok (as_store s') ''u'' = Valid 0"
proof -
  let ?st = "as_store w_audit_state"
  have last: "last_audit ?st ''u'' = None"
    by (simp add: last_audit_def last_value_under_prefix_def audit_prefix_def w_audit_state_def)
  have good: "log_good ''u'' ?st"
    by (simp add: log_good_def w_audit_state_def kv_sorted_def row_provider_ok_def w_row_provider_def
        scan_audit_def take_opt_def kv_prefix_def)
  have scan: "scan_audit ?st ''u'' None = ([], 0)"
    by (simp add: w_audit_state_def scan_audit_def take_opt_def kv_prefix_def)
  have slots: "slots_before ''u'' ?st (ev_timestamp w_plain) (as_seq w_audit_state)"
    by (simp add: slots_before_def w_audit_state_def kv_prefix_def)
  have ev: "\<exists>s'. append_event w_env_ok w_audit_state ''u'' w_plain = (Inr (), s')"
    by (simp add: append_event_def Let_def chained_def last w_env_ok_def w_env_def plain_event_def w_plain_def
        new_event_def append_audit_def append_row_def) (simp add: w_audit_state_def w_row_provider_def)
  then obtain s' where s': "append_event w_env_ok w_audit_state ''u'' w_plain = (Inr (), s')" by blast
  have v: "verify_chain w_env_ok ?st ''u'' = Valid 0"
    by (simp add: verify_chain_def scan verify_chain_blobs_def)
  have b: "ev_timestamp w_plain \<le> u64_max" "as_seq w_audit_state < 10 ^ 6"
    by (simp_all add: w_plain_def new_event_def w_audit_state_def)
  from append_keeps_chain [OF good w_env_ok_law slots b s' v] s' scan show ?thesis by auto
qed

theorem chain_determines_log_witness:
  "suffix [''a|'', ''b|a''] [''b|a''] \<or> suffix [''b|a''] [''a|'', ''b|a''] \<or>
    (\<exists>a b. a \<in> set [''a|'', ''b|a''] \<and> b \<in> set [''b|a''] \<and> a \<noteq> b \<and> ae_hash w_env a = ae_hash w_env b)"
  by (rule chain_determines_log) (simp_all add: verify_chain_blobs_def w_env_def)

end
