(* ===== verification/Users.thy ===== *)
theory Users
  imports Chunks
begin

text \<open>
  The user store (\<^verbatim>\<open>loomem-core/src/storage.rs\<close>): user rows by id and three key indices that resolve
  an API key to its user, the flags row, and the roles. A row holds the serialised user; \<open>None\<close>
  stands for a row that does not deserialise. The state here is the \<^verbatim>\<open>user:\<close> part of the default
  column family.
\<close>

section \<open>Data\<close>

datatype user_role = Reader | Writer | Admin

definition is_admin :: "user_role \<Rightarrow> bool" where "is_admin r \<longleftrightarrow> r = Admin"
definition can_write :: "user_role \<Rightarrow> bool" where "can_write r \<longleftrightarrow> r = Writer \<or> r = Admin"
definition can_delete_shared :: "user_role \<Rightarrow> bool" where "can_delete_shared r \<longleftrightarrow> r = Admin"
definition can_dream_shared :: "user_role \<Rightarrow> bool" where "can_dream_shared r \<longleftrightarrow> r = Admin"

definition from_legacy_str :: "string \<Rightarrow> user_role" where
  "from_legacy_str s =
     (if s \<in> {''global_admin'', ''tenant_admin'', ''admin''} then Admin
      else if s = ''writer'' then Writer else Reader)"

definition deserialize_role_legacy :: "json \<Rightarrow> user_role" where
  "deserialize_role_legacy v = (case json_as_str v of Some s \<Rightarrow> from_legacy_str s | None \<Rightarrow> Reader)"

record user =
  us_id :: string
  us_api_key :: "string option"
  us_shared_api_key :: "string option"
  us_private_api_key :: "string option"
  us_stream_id :: string
  us_created_at :: nat
  us_last_active :: "nat option"
  us_label :: "string option"
  us_active :: bool
  us_workspace_id :: "string option"
  us_role :: user_role
  us_email :: "string option"
  us_display_name :: "string option"
  us_external_id :: "string option"
  us_pending_first_login :: bool
  us_last_login_at :: "nat option"

definition effective_workspace :: "user \<Rightarrow> string" where
  "effective_workspace u = (case us_workspace_id u of Some w \<Rightarrow> w | None \<Rightarrow> us_stream_id u)"

type_synonym user_db = "user option cf"

section \<open>Operations\<close>

text \<open>The three indices.\<close>

datatype key_kind = LegacyKey | SharedKey | PrivateKey

fun key_prefix :: "key_kind \<Rightarrow> string" where
  "key_prefix LegacyKey = ''user:key:''"
| "key_prefix SharedKey = ''user:shared_key:''"
| "key_prefix PrivateKey = ''user:private_key:''"

fun key_of :: "key_kind \<Rightarrow> user \<Rightarrow> string option" where
  "key_of LegacyKey u = us_api_key u"
| "key_of SharedKey u = us_shared_api_key u"
| "key_of PrivateKey u = us_private_api_key u"

definition index_key :: "key_kind \<Rightarrow> string \<Rightarrow> string" where
  "index_key kind k = key_prefix kind @ k"

definition id_key :: "string \<Rightarrow> string" where
  "id_key i = ''user:id:'' @ i"

definition get_user_row :: "user_db \<Rightarrow> string \<Rightarrow> user option res" where
  "get_user_row db k =
     (case kv_get db k of
        None \<Rightarrow> Inr None
      | Some None \<Rightarrow> Inl (Err ''user row does not deserialize'')
      | Some (Some u) \<Rightarrow> Inr (Some u))"

definition get_user_by_key :: "user_db \<Rightarrow> string \<Rightarrow> user option res" where
  "get_user_by_key db k = get_user_row db (index_key LegacyKey k)"

definition get_user_by_shared_key :: "user_db \<Rightarrow> string \<Rightarrow> user option res" where
  "get_user_by_shared_key db k = get_user_row db (index_key SharedKey k)"

definition get_user_by_private_key :: "user_db \<Rightarrow> string \<Rightarrow> user option res" where
  "get_user_by_private_key db k = get_user_row db (index_key PrivateKey k)"

definition get_user_by_id :: "user_db \<Rightarrow> string \<Rightarrow> user option res" where
  "get_user_by_id db i = get_user_row db (id_key i)"

definition drop_stale :: "user \<Rightarrow> user \<Rightarrow> key_kind \<Rightarrow> user_db \<Rightarrow> user_db" where
  "drop_stale prev u kind db =
     (case key_of kind prev of
        None \<Rightarrow> db
      | Some k \<Rightarrow> if key_of kind u \<noteq> Some k then kv_delete (index_key kind k) db else db)"

definition put_index :: "user \<Rightarrow> key_kind \<Rightarrow> user_db \<Rightarrow> user_db" where
  "put_index u kind db =
     (case key_of kind u of None \<Rightarrow> db | Some k \<Rightarrow> kv_put (index_key kind k) (Some u) db)"

definition key_kinds :: "key_kind list" where
  "key_kinds = [LegacyKey, SharedKey, PrivateKey]"

definition store_user :: "user \<Rightarrow> user_db \<Rightarrow> user_db" where
  "store_user u db =
     (let cleaned = (case get_user_by_id db (us_id u) of
                       Inr (Some prev) \<Rightarrow> fold (drop_stale prev u) key_kinds db
                     | _ \<Rightarrow> db)
      in kv_put (id_key (us_id u)) (Some u) (fold (put_index u) key_kinds cleaned))"

definition list_users :: "user_db \<Rightarrow> user list" where
  "list_users db = List.map_filter snd (kv_prefix ''user:id:'' db)"

definition drop_index :: "user \<Rightarrow> key_kind \<Rightarrow> user_db \<Rightarrow> user_db" where
  "drop_index u kind db =
     (case key_of kind u of None \<Rightarrow> db | Some k \<Rightarrow> kv_delete (index_key kind k) db)"

definition delete_user :: "user_db \<Rightarrow> string \<Rightarrow> (bool \<times> user_db) res" where
  "delete_user db i =
     rbind (get_user_by_id db i) (\<lambda>uo. case uo of
       None \<Rightarrow> Inr (False, db)
     | Some u \<Rightarrow> Inr (True, kv_delete (id_key (us_id u)) (fold (drop_index u) key_kinds db)))"

text \<open>\<open>lower\<close> stands for the Unicode \<^verbatim>\<open>to_lowercase\<close>.\<close>

definition find_user_by_email :: "(string \<Rightarrow> string) \<Rightarrow> user_db \<Rightarrow> string \<Rightarrow> user option" where
  "find_user_by_email lower db email =
     find (\<lambda>u. map_option lower (us_email u) = Some (lower email)) (list_users db)"

definition find_user_by_external_id :: "user_db \<Rightarrow> string \<Rightarrow> user option" where
  "find_user_by_external_id db e = find (\<lambda>u. us_external_id u = Some e) (list_users db)"

definition flags_key :: "string \<Rightarrow> string" where
  "flags_key i = ''user_flags:'' @ i"

definition set_user_flags :: "store \<Rightarrow> string \<Rightarrow> string \<Rightarrow> store" where
  "set_user_flags st i v = st\<lparr>st_db := kv_put (flags_key i) (VBytes v) (st_db st)\<rparr>"

definition get_user_flags :: "store \<Rightarrow> string \<Rightarrow> row option" where
  "get_user_flags st i = kv_get (st_db st) (flags_key i)"

section \<open>Keys\<close>

lemma index_key_inj [simp]: "index_key a k = index_key b l \<longleftrightarrow> a = b \<and> k = l"
  by (cases a; cases b) (auto simp: index_key_def)

lemma id_key_inj [simp]: "id_key i = id_key j \<longleftrightarrow> i = j"
  by (simp add: id_key_def)

lemma index_id [simp]: "index_key a k \<noteq> id_key i" "id_key i \<noteq> index_key a k"
  by (cases a; simp add: index_key_def id_key_def)+

lemma all_kinds: "kind \<in> set key_kinds"
  by (cases kind) (simp_all add: key_kinds_def)

lemma distinct_kinds: "distinct key_kinds"
  by (simp add: key_kinds_def)

lemma fold_drop_stale:
  "distinct ks \<Longrightarrow> kv_get (fold (drop_stale prev u) ks db) r =
     (if \<exists>kind \<in> set ks. \<exists>k. key_of kind prev = Some k \<and> key_of kind u \<noteq> Some k \<and> r = index_key kind k
      then None else kv_get db r)"
proof (induction ks arbitrary: db)
  case (Cons kind ks)
  then show ?case
    by (cases "key_of kind prev") (auto simp: drop_stale_def map_of_kv_delete)
qed simp

lemma fold_put_index:
  "distinct ks \<Longrightarrow> kv_get (fold (put_index u) ks db) r =
     (if \<exists>kind \<in> set ks. \<exists>k. key_of kind u = Some k \<and> r = index_key kind k then Some (Some u) else kv_get db r)"
proof (induction ks arbitrary: db)
  case (Cons kind ks)
  then show ?case
    by (cases "key_of kind u") (auto simp: put_index_def map_of_kv_put)
qed simp

lemma fold_drop_index:
  "kv_get (fold (drop_index u) ks db) r =
     (if \<exists>kind \<in> set ks. \<exists>k. key_of kind u = Some k \<and> r = index_key kind k then None else kv_get db r)"
proof (induction ks arbitrary: db)
  case (Cons kind ks)
  then show ?case
    by (cases "key_of kind u") (auto simp: drop_index_def map_of_kv_delete)
qed simp

section \<open>The index invariant\<close>

text \<open>Every id row holds the user of that id, and an index row exists exactly for the keys users hold
  now, holding the same user.\<close>

definition users_ok :: "user_db \<Rightarrow> bool" where
  "users_ok db \<longleftrightarrow>
     (\<forall>i r. kv_get db (id_key i) = Some r \<longrightarrow> (\<exists>u. r = Some u \<and> us_id u = i)) \<and>
     (\<forall>kind k r. kv_get db (index_key kind k) = Some r \<longleftrightarrow>
        (\<exists>i u. kv_get db (id_key i) = Some (Some u) \<and> r = Some u \<and> key_of kind u = Some k))"

text \<open>No other user holds one of the keys.\<close>

definition keys_free :: "user_db \<Rightarrow> user \<Rightarrow> bool" where
  "keys_free db u \<longleftrightarrow>
     (\<forall>i v kind k. kv_get db (id_key i) = Some (Some v) \<longrightarrow> key_of kind v = Some k \<longrightarrow>
        key_of kind u = Some k \<longrightarrow> i = us_id u)"

lemma get_user_row_ok:
  "users_ok db \<Longrightarrow> get_user_row db (id_key i) = Inr (case kv_get db (id_key i) of Some (Some u) \<Rightarrow> Some u | _ \<Rightarrow> None)"
  by (fastforce simp: get_user_row_def users_ok_def split: option.split)

lemma store_user_get:
  assumes "users_ok db"
  shows "kv_get (store_user u db) (id_key i) = (if i = us_id u then Some (Some u) else kv_get db (id_key i))"
    and "kv_get (store_user u db) (index_key kind k) =
      (if key_of kind u = Some k then Some (Some u)
       else if \<exists>prev. kv_get db (id_key (us_id u)) = Some (Some prev) \<and> key_of kind prev = Some k then None
       else kv_get db (index_key kind k))"
proof -
  let ?clean = "case get_user_by_id db (us_id u) of
      Inr (Some prev) \<Rightarrow> fold (drop_stale prev u) key_kinds db | _ \<Rightarrow> db"
  have clean_id: "kv_get ?clean (id_key i) = kv_get db (id_key i)" for i
    by (auto simp: fold_drop_stale [OF distinct_kinds] split: sum.split option.split)
  have clean_ix: "kv_get ?clean (index_key kind k) =
      (if \<exists>prev. kv_get db (id_key (us_id u)) = Some (Some prev) \<and> key_of kind prev = Some k \<and> key_of kind u \<noteq> Some k
       then None else kv_get db (index_key kind k))"
    unfolding get_user_by_id_def get_user_row_ok [OF assms]
    by (auto simp: fold_drop_stale [OF distinct_kinds] all_kinds split: option.split)
  show "kv_get (store_user u db) (id_key i) = (if i = us_id u then Some (Some u) else kv_get db (id_key i))"
    unfolding store_user_def Let_def
    by (simp add: map_of_kv_put fold_put_index [OF distinct_kinds] clean_id)
  show "kv_get (store_user u db) (index_key kind k) =
      (if key_of kind u = Some k then Some (Some u)
       else if \<exists>prev. kv_get db (id_key (us_id u)) = Some (Some prev) \<and> key_of kind prev = Some k then None
       else kv_get db (index_key kind k))"
    unfolding store_user_def Let_def
    by (simp add: map_of_kv_put fold_put_index [OF distinct_kinds] clean_ix all_kinds)
qed

lemma store_user_ok:
  assumes ok: "users_ok db" and free: "keys_free db u"
  shows "users_ok (store_user u db)"
  unfolding users_ok_def store_user_get [OF ok]
proof (intro conjI allI impI)
  fix i r
  assume "(if i = us_id u then Some (Some u) else kv_get db (id_key i)) = Some r"
  then show "\<exists>u. r = Some u \<and> us_id u = i"
    using ok unfolding users_ok_def by (auto split: if_splits)
next
  fix kind k r
  have ix: "kv_get db (index_key kind k) = Some r \<longleftrightarrow>
      (\<exists>i v. kv_get db (id_key i) = Some (Some v) \<and> r = Some v \<and> key_of kind v = Some k)"
    using ok unfolding users_ok_def by blast
  show "((if key_of kind u = Some k then Some (Some u)
       else if \<exists>prev. kv_get db (id_key (us_id u)) = Some (Some prev) \<and> key_of kind prev = Some k then None
       else kv_get db (index_key kind k)) = Some r) =
      (\<exists>i v. (if i = us_id u then Some (Some u) else kv_get db (id_key i)) = Some (Some v) \<and>
         r = Some v \<and> key_of kind v = Some k)"
  proof (cases "key_of kind u = Some k")
    case True
    then show ?thesis using free unfolding keys_free_def by (auto split: if_splits)
  next
    case False
    show ?thesis
    proof (cases "\<exists>prev. kv_get db (id_key (us_id u)) = Some (Some prev) \<and> key_of kind prev = Some k")
      case held: True
      then obtain prev where prev: "kv_get db (id_key (us_id u)) = Some (Some prev)" "key_of kind prev = Some k"
        by blast
      have "i = us_id u" if "kv_get db (id_key i) = Some (Some v)" "key_of kind v = Some k" for i v
      proof -
        have "kv_get db (index_key kind k) = Some (Some v)" "kv_get db (index_key kind k) = Some (Some prev)"
          using that prev ok unfolding users_ok_def by blast+
        then have "v = prev" by simp
        then show ?thesis using that(1) prev(1) ok unfolding users_ok_def by (metis option.inject)
      qed
      then show ?thesis using False held by (auto split: if_splits)
    next
      case False
      with \<open>key_of kind u \<noteq> Some k\<close> show ?thesis
        unfolding if_not_P [OF False] if_not_P [OF \<open>key_of kind u \<noteq> Some k\<close>] ix
        by (auto split: if_splits) metis
    qed
  qed
qed

lemma delete_user_get:
  assumes "users_ok db" "get_user_by_id db i = Inr (Some u)" "delete_user db i = Inr (b, db')"
  shows "kv_get db' (id_key j) = (if j = i then None else kv_get db (id_key j))"
    and "kv_get db' (index_key kind k) = (if key_of kind u = Some k then None else kv_get db (index_key kind k))"
proof -
  have g: "kv_get db (id_key i) = Some (Some u)"
    using assms(2) by (auto simp: get_user_by_id_def get_user_row_def split: option.splits)
  then have i: "us_id u = i" using assms(1) unfolding users_ok_def by (metis option.inject)
  have db': "db' = kv_delete (id_key i) (fold (drop_index u) key_kinds db)"
    using assms(2,3) by (simp add: delete_user_def i)
  show "kv_get db' (id_key j) = (if j = i then None else kv_get db (id_key j))"
    by (simp add: db' map_of_kv_delete fold_drop_index)
  show "kv_get db' (index_key kind k) = (if key_of kind u = Some k then None else kv_get db (index_key kind k))"
    by (simp add: db' map_of_kv_delete fold_drop_index all_kinds)
qed

lemma delete_user_ok:
  assumes ok: "users_ok db" and d: "delete_user db i = Inr (b, db')"
  shows "users_ok db'"
proof (cases "kv_get db (id_key i)")
  case None
  then have "db' = db" using d by (simp add: delete_user_def get_user_by_id_def get_user_row_def)
  with ok show ?thesis by simp
next
  case (Some r)
  then obtain u where u: "r = Some u" "us_id u = i" using ok unfolding users_ok_def by blast
  have g: "get_user_by_id db i = Inr (Some u)" using Some u by (simp add: get_user_by_id_def get_user_row_def)
  have row: "kv_get db (id_key i) = Some (Some u)" using Some u by simp
  show ?thesis
    unfolding users_ok_def delete_user_get [OF ok g d]
  proof (intro conjI allI impI)
    fix j r assume "(if j = i then None else kv_get db (id_key j)) = Some r"
    then show "\<exists>u. r = Some u \<and> us_id u = j" using ok unfolding users_ok_def by (auto split: if_splits)
  next
    fix kind k r
    have ix: "\<And>r. kv_get db (index_key kind k) = Some r \<longleftrightarrow>
        (\<exists>j v. kv_get db (id_key j) = Some (Some v) \<and> r = Some v \<and> key_of kind v = Some k)"
      using ok unfolding users_ok_def by blast
    show "((if key_of kind u = Some k then None else kv_get db (index_key kind k)) = Some r) =
        (\<exists>j v. (if j = i then None else kv_get db (id_key j)) = Some (Some v) \<and> r = Some v \<and> key_of kind v = Some k)"
    proof (cases "key_of kind u = Some k")
      case True
      have "j = i" if "kv_get db (id_key j) = Some (Some v)" "key_of kind v = Some k" for j v
      proof -
        have "kv_get db (index_key kind k) = Some (Some v)" "kv_get db (index_key kind k) = Some (Some u)"
          using ix that row True by blast+
        then have "v = u" by simp
        then show ?thesis using that(1) u ok unfolding users_ok_def by (metis option.inject)
      qed
      with True show ?thesis by (auto split: if_splits)
    next
      case False
      then have "\<exists>j v. kv_get db (id_key j) = Some (Some v) \<and> r = Some v \<and> key_of kind v = Some k \<longleftrightarrow>
          (if j = i then None else kv_get db (id_key j)) = Some (Some v) \<and> r = Some v \<and> key_of kind v = Some k"
        by auto
      then show ?thesis using False row unfolding if_not_P [OF False] ix by (metis option.inject option.distinct(1))
    qed
  qed
qed

section \<open>Histories\<close>

inductive user_reach :: "user_db \<Rightarrow> bool" where
  fresh_db: "user_reach []"
| stored: "user_reach db \<Longrightarrow> keys_free db u \<Longrightarrow> user_reach (store_user u db)"
| deleted: "user_reach db \<Longrightarrow> delete_user db i = Inr (b, db') \<Longrightarrow> user_reach db'"

lemma user_reach_ok: "user_reach db \<Longrightarrow> users_ok db"
  by (induction rule: user_reach.induct) (simp_all add: store_user_ok delete_user_ok, simp add: users_ok_def)

lemma resolves_iff:
  assumes "users_ok db"
  shows "get_user_row db (index_key kind k) = Inr (Some u) \<longleftrightarrow>
    get_user_by_id db (us_id u) = Inr (Some u) \<and> key_of kind u = Some k"
proof -
  have row: "get_user_row db x = Inr (Some u) \<longleftrightarrow> kv_get db x = Some (Some u)" for x
    by (auto simp: get_user_row_def split: option.splits)
  have "kv_get db (id_key i) = Some (Some u) \<Longrightarrow> us_id u = i" for i
    using assms unfolding users_ok_def by (metis option.inject)
  moreover have "kv_get db (index_key kind k) = Some (Some u) \<longleftrightarrow>
      (\<exists>i. kv_get db (id_key i) = Some (Some u) \<and> key_of kind u = Some k)"
    using assms unfolding users_ok_def by auto
  ultimately show ?thesis unfolding row get_user_by_id_def by metis
qed

text \<open>C18. In every database built by storing and deleting users whose keys are not shared, a key
  resolves to a user exactly when that user is stored and holds the key now; in particular a rotated
  or removed key resolves to nobody.\<close>

theorem keys_resolve_to_holders:
  assumes "user_reach db"
  shows "(get_user_by_key db k = Inr (Some u) \<longleftrightarrow> get_user_by_id db (us_id u) = Inr (Some u) \<and> us_api_key u = Some k) \<and>
    (get_user_by_shared_key db k = Inr (Some u) \<longleftrightarrow> get_user_by_id db (us_id u) = Inr (Some u) \<and> us_shared_api_key u = Some k) \<and>
    (get_user_by_private_key db k = Inr (Some u) \<longleftrightarrow> get_user_by_id db (us_id u) = Inr (Some u) \<and> us_private_api_key u = Some k)"
  using resolves_iff [OF user_reach_ok [OF assms], of LegacyKey k u]
    resolves_iff [OF user_reach_ok [OF assms], of SharedKey k u]
    resolves_iff [OF user_reach_ok [OF assms], of PrivateKey k u]
  by (simp add: get_user_by_key_def get_user_by_shared_key_def get_user_by_private_key_def)

text \<open>Storing a user replaces exactly that user's row and keys: it reads back, every other user row
  stays, and a key it held before and holds no longer resolves to nobody. Deleting removes the row
  and all keys.\<close>

theorem rotation_revokes_keys:
  assumes "users_ok db" "keys_free db u" "get_user_by_id db (us_id u) = Inr (Some prev)"
    and "key_of kind prev = Some k" "key_of kind u \<noteq> Some k"
    and "delete_user (store_user u db) (us_id u) = Inr (b, db')" "key_of kind' u = Some k'"
  shows "get_user_by_id (store_user u db) (us_id u) = Inr (Some u) \<and>
    get_user_row (store_user u db) (index_key kind k) = Inr None \<and>
    get_user_row (store_user u db) (index_key kind' k') = Inr (Some u) \<and>
    get_user_by_id db' (us_id u) = Inr None \<and> get_user_row db' (index_key kind' k') = Inr None"
proof -
  let ?db = "store_user u db"
  have ok: "users_ok ?db" by (rule store_user_ok [OF assms(1,2)])
  have prev: "kv_get db (id_key (us_id u)) = Some (Some prev)"
    using assms(3) by (auto simp: get_user_by_id_def get_user_row_def split: option.splits)
  have id: "get_user_by_id ?db (us_id u) = Inr (Some u)"
    by (simp add: get_user_by_id_def get_user_row_def store_user_get [OF assms(1)])
  moreover have "get_user_row ?db (index_key kind k) = Inr None"
    using prev assms(4,5) by (auto simp: get_user_row_def store_user_get [OF assms(1)])
  moreover have "get_user_row ?db (index_key kind' k') = Inr (Some u)"
    using assms(7) by (simp add: get_user_row_def store_user_get [OF assms(1)])
  ultimately show ?thesis
    using delete_user_get [OF ok id assms(6)] assms(7)
    by (simp add: get_user_by_id_def get_user_row_def)
qed

definition w_user :: "string \<Rightarrow> user" where
  "w_user k = \<lparr>us_id = ''u1'', us_api_key = None, us_shared_api_key = Some k, us_private_api_key = None,
     us_stream_id = ''s'', us_created_at = 0, us_last_active = None, us_label = None, us_active = True,
     us_workspace_id = None, us_role = Reader, us_email = None, us_display_name = None,
     us_external_id = None, us_pending_first_login = False, us_last_login_at = None\<rparr>"

lemma w_free: "keys_free [] u" "keys_free (store_user (w_user k) []) (w_user k')"
proof -
  have "users_ok []" by (simp add: users_ok_def)
  note g = store_user_get [OF this]
  show "keys_free [] u" by (simp add: keys_free_def)
  show "keys_free (store_user (w_user k) []) (w_user k')"
    by (auto simp: keys_free_def g w_user_def split: if_splits)
qed

theorem keys_resolve_to_holders_witness:
  "get_user_by_shared_key (store_user (w_user ''new'') (store_user (w_user ''old'') [])) ''old''
     \<noteq> Inr (Some (w_user ''old''))"
proof -
  have r: "user_reach (store_user (w_user ''new'') (store_user (w_user ''old'') []))"
    by (intro stored fresh_db w_free)
  have "users_ok (store_user (w_user ''old'') [])" by (intro store_user_ok w_free) (simp add: users_ok_def)
  then have "get_user_by_id (store_user (w_user ''new'') (store_user (w_user ''old'') [])) ''u1'' = Inr (Some (w_user ''new''))"
    using store_user_get(1) [of "store_user (w_user ''old'') []" "w_user ''new''" "''u1''"]
    by (simp add: get_user_by_id_def get_user_row_def w_user_def)
  moreover have "w_user ''new'' \<noteq> w_user ''old''" by (simp add: w_user_def)
  moreover have "us_id (w_user ''old'') = ''u1''" by (simp add: w_user_def)
  ultimately show ?thesis using keys_resolve_to_holders [OF r, of "''old''" "w_user ''old''"] by auto
qed

theorem rotation_revokes_keys_witness:
  "get_user_row (store_user (w_user ''new'') (store_user (w_user ''old'') [])) (index_key SharedKey ''old'') = Inr None"
proof -
  let ?db = "store_user (w_user ''old'') []"
  have ok: "users_ok ?db" by (intro store_user_ok w_free) (simp add: users_ok_def)
  have ok2: "users_ok (store_user (w_user ''new'') ?db)" by (intro store_user_ok ok w_free)
  have id: "us_id (w_user k) = ''u1''" for k by (simp add: w_user_def)
  have "users_ok []" by (simp add: users_ok_def)
  note g = store_user_get [OF this] and g2 = store_user_get [OF ok]
  have prev: "get_user_by_id ?db (us_id (w_user ''new'')) = Inr (Some (w_user ''old''))"
    by (simp add: get_user_by_id_def get_user_row_def g id)
  have k: "key_of SharedKey (w_user ''old'') = Some ''old''" "key_of SharedKey (w_user ''new'') \<noteq> Some ''old''"
    "key_of SharedKey (w_user ''new'') = Some ''new''" by (simp_all add: w_user_def)
  obtain b db' where d: "delete_user (store_user (w_user ''new'') ?db) (us_id (w_user ''new'')) = Inr (b, db')"
    by (simp add: delete_user_def get_user_by_id_def get_user_row_def g2 id)
  from rotation_revokes_keys [OF ok w_free(2) prev k(1,2) d k(3)] show ?thesis by blast
qed

end
