(* ===== verification/QueryCache.thy ===== *)
theory QueryCache
  imports Prelude "HOL-Library.AList" "HOL-Library.Word"
begin

unbundle bit_operations_syntax

text \<open>
  The query result cache (\<^verbatim>\<open>loomem-core/src/query_cache.rs\<close>): a map from 64-bit keys to results with a
  time to live, a least-recently-used order, and a generation that every invalidation advances.
  Results are a type parameter. The clock is an argument in milliseconds; \<^verbatim>\<open>elapsed().as_secs()\<close> is
  the integer division. The key hash is not modelled.
\<close>

section \<open>State\<close>

record 'r cache_entry =
  qe_results :: 'r
  qe_inserted_at :: nat

record query_cache_config =
  qc_enabled :: bool
  qc_max_entries :: nat
  qc_ttl_secs :: nat

definition default_query_cache_config :: query_cache_config where
  "default_query_cache_config = \<lparr>qc_enabled = True, qc_max_entries = 500, qc_ttl_secs = 300\<rparr>"

record 'r query_cache =
  qc_entries :: "(64 word \<times> 'r cache_entry) list"
  qc_access_order :: "64 word list"
  qc_config :: query_cache_config
  qc_generation :: "64 word"

definition new_cache :: "query_cache_config \<Rightarrow> 'r query_cache" where
  "new_cache cfg = \<lparr>qc_entries = [], qc_access_order = [], qc_config = cfg, qc_generation = 0\<rparr>"

section \<open>Operations\<close>

definition elapsed_secs :: "nat \<Rightarrow> 'r cache_entry \<Rightarrow> nat" where
  "elapsed_secs now e = (now - qe_inserted_at e) div 1000"

definition drop_key :: "64 word \<Rightarrow> 'r query_cache \<Rightarrow> 'r query_cache" where
  "drop_key key c = c\<lparr>qc_entries := AList.delete key (qc_entries c),
     qc_access_order := filter (\<lambda>k. k \<noteq> key) (qc_access_order c)\<rparr>"

definition touch_lru :: "64 word \<Rightarrow> 'r query_cache \<Rightarrow> 'r query_cache" where
  "touch_lru key c = c\<lparr>qc_access_order := filter (\<lambda>k. k \<noteq> key) (qc_access_order c) @ [key]\<rparr>"

definition cache_get :: "nat \<Rightarrow> 64 word \<Rightarrow> 'r query_cache \<Rightarrow> 'r option \<times> 'r query_cache" where
  "cache_get now key c =
     (case map_of (qc_entries c) key of
        None \<Rightarrow> (None, c)
      | Some e \<Rightarrow>
          if qc_ttl_secs (qc_config c) \<le> elapsed_secs now e then (None, drop_key key c)
          else (map_option qe_results (map_of (qc_entries c) key), touch_lru key c))"

fun evict_lru ::
  "nat \<Rightarrow> (64 word \<times> 'r cache_entry) list \<Rightarrow> 64 word list \<Rightarrow> (64 word \<times> 'r cache_entry) list \<times> 64 word list" where
  "evict_lru mx es [] = (es, [])"
| "evict_lru mx es (oldest # order) =
     (if mx \<le> length es then evict_lru mx (AList.delete oldest es) order else (es, oldest # order))"

definition cache_insert :: "nat \<Rightarrow> 64 word \<Rightarrow> 'r \<Rightarrow> 'r query_cache \<Rightarrow> 'r query_cache" where
  "cache_insert now key r c =
     (let (es, order) = evict_lru (qc_max_entries (qc_config c)) (qc_entries c) (qc_access_order c)
      in c\<lparr>qc_entries := AList.update key \<lparr>qe_results = r, qe_inserted_at = now\<rparr> es,
           qc_access_order := filter (\<lambda>k. k \<noteq> key) order @ [key]\<rparr>)"

definition cache_clear :: "'r query_cache \<Rightarrow> 'r query_cache" where
  "cache_clear c = c\<lparr>qc_generation := qc_generation c + 1, qc_entries := [], qc_access_order := []\<rparr>"

definition cache_len :: "'r query_cache \<Rightarrow> nat" where
  "cache_len c = length (qc_entries c)"

definition is_valid :: "nat \<Rightarrow> 64 word \<Rightarrow> 'r query_cache \<Rightarrow> bool \<times> 'r query_cache" where
  "is_valid now key c =
     (case map_of (qc_entries c) key of
        None \<Rightarrow> (False, c)
      | Some e \<Rightarrow>
          if qc_ttl_secs (qc_config c) \<le> elapsed_secs now e then (False, drop_key key c) else (True, c))"

definition RERANKED_SALT :: "64 word" where
  "RERANKED_SALT = 0xDEADBEEFCAFEBABE"

definition get_best :: "nat \<Rightarrow> 64 word \<Rightarrow> 'r query_cache \<Rightarrow> (bool \<times> 'r) option \<times> 'r query_cache" where
  "get_best now key c =
     (let reranked_key = key XOR RERANKED_SALT;
          (ok, c1) = is_valid now reranked_key c
      in if ok
         then (map_option (\<lambda>e. (True, qe_results e)) (map_of (qc_entries c1) reranked_key), touch_lru reranked_key c1)
         else let (ok2, c2) = is_valid now key c1
              in if ok2
                 then (map_option (\<lambda>e. (False, qe_results e)) (map_of (qc_entries c2) key), touch_lru key c2)
                 else (None, c2))"

definition insert_reranked :: "nat \<Rightarrow> 64 word \<Rightarrow> 'r \<Rightarrow> 'r query_cache \<Rightarrow> 'r query_cache" where
  "insert_reranked now key r c = cache_insert now (key XOR RERANKED_SALT) r c"

definition insert_if_current ::
  "nat \<Rightarrow> 64 word \<Rightarrow> 64 word \<Rightarrow> 'r \<Rightarrow> 'r query_cache \<Rightarrow> bool \<times> 'r query_cache" where
  "insert_if_current now key g r c =
     (if g \<noteq> qc_generation c then (False, c) else (True, cache_insert now key r c))"

definition insert_reranked_if_current ::
  "nat \<Rightarrow> 64 word \<Rightarrow> 64 word \<Rightarrow> 'r \<Rightarrow> 'r query_cache \<Rightarrow> bool \<times> 'r query_cache" where
  "insert_reranked_if_current now key g r c =
     (if g \<noteq> qc_generation c then (False, c) else (True, insert_reranked now key r c))"

section \<open>The cache invariant\<close>

definition cache_ok :: "'r query_cache \<Rightarrow> bool" where
  "cache_ok c \<longleftrightarrow> distinct (map fst (qc_entries c)) \<and> distinct (qc_access_order c) \<and>
     set (qc_access_order c) = fst ` set (qc_entries c) \<and>
     length (qc_entries c) \<le> max 1 (qc_max_entries (qc_config c))"

lemma fst_delete: "fst ` set (AList.delete k es) = fst ` set es - {k}"
  by (auto simp: AList.delete_eq image_iff)

lemma drop_key_ok: "cache_ok c \<Longrightarrow> cache_ok (drop_key key c)"
  using length_delete_le [of key "qc_entries c"]
  by (auto simp: cache_ok_def drop_key_def fst_delete distinct_delete)

lemma touch_lru_ok: "cache_ok c \<Longrightarrow> key \<in> fst ` set (qc_entries c) \<Longrightarrow> cache_ok (touch_lru key c)"
  by (auto simp: cache_ok_def touch_lru_def)

lemma evict_lru_ok:
  "distinct (map fst es) \<Longrightarrow> distinct order \<Longrightarrow> set order = fst ` set es \<Longrightarrow> evict_lru mx es order = (es', order') \<Longrightarrow>
     distinct (map fst es') \<and> distinct order' \<and> set order' = fst ` set es' \<and>
     (length es' < mx \<or> es' = []) \<and> map_of es' \<subseteq>\<^sub>m map_of es \<and> suffix order' order"
proof (induction mx es order rule: evict_lru.induct)
  case (1 mx es)
  then show ?case by auto
next
  case (2 mx es oldest order)
  show ?case
  proof (cases "mx \<le> length es")
    case False
    then have "es' = es" "order' = oldest # order" using 2(5) by simp_all
    with 2(2-4) False show ?thesis by (auto simp del: set_simps)
  next
    case True
    have d: "distinct (map fst (AList.delete oldest es))" using 2(2) by (rule distinct_delete)
    have s: "set order = fst ` set (AList.delete oldest es)"
      unfolding fst_delete using 2(3,4) by auto
    have "map_of (AList.delete oldest es) \<subseteq>\<^sub>m map_of es" by (auto simp: map_le_def delete_conv')
    with 2(1) [OF True d _ s] 2(3,5) True show ?thesis
      using map_le_trans suffix_ConsI by (auto simp: suffix_ConsI)
  qed
qed

lemma cache_insert_facts:
  assumes ok: "cache_ok c"
  shows "cache_ok (cache_insert now key r c) \<and>
    map_of (qc_entries (cache_insert now key r c)) key = Some \<lparr>qe_results = r, qe_inserted_at = now\<rparr> \<and>
    (\<forall>k e. map_of (qc_entries (cache_insert now key r c)) k = Some e \<longrightarrow> k = key \<or> map_of (qc_entries c) k = Some e) \<and>
    last (qc_access_order (cache_insert now key r c)) = key"
proof -
  obtain es order where e: "evict_lru (qc_max_entries (qc_config c)) (qc_entries c) (qc_access_order c) = (es, order)"
    by force
  have f: "distinct (map fst es)" "distinct order" "set order = fst ` set es"
    "length es < qc_max_entries (qc_config c) \<or> es = []" "map_of es \<subseteq>\<^sub>m map_of (qc_entries c)"
    using evict_lru_ok [OF _ _ _ e] ok by (auto simp: cache_ok_def)
  let ?es = "AList.update key \<lparr>qe_results = r, qe_inserted_at = now\<rparr> es"
  have c': "cache_insert now key r c =
      c\<lparr>qc_entries := ?es, qc_access_order := filter (\<lambda>k. k \<noteq> key) order @ [key]\<rparr>"
    by (simp add: cache_insert_def e)
  have "fst ` set ?es = insert key (fst ` set es)" using dom_update [of key _ es] by (simp add: dom_map_of_conv_image_fst)
  moreover have "distinct (map fst ?es)" using f(1) by (rule distinct_update)
  moreover have "length ?es \<le> Suc (length es)" by (induction es) auto
  ultimately have "cache_ok (cache_insert now key r c)"
    using f by (auto simp: cache_ok_def c')
  moreover have "map_of (qc_entries c) k = Some x" if "map_of es k = Some x" for k x
    using f(5) that by (auto simp: map_le_def dom_def)
  ultimately show ?thesis by (auto simp: c' update_conv' split: if_splits)
qed

lemma cache_get_facts:
  assumes "cache_ok c"
  shows "cache_ok (snd (cache_get now key c)) \<and> qc_generation (snd (cache_get now key c)) = qc_generation c \<and>
    (\<forall>k e. map_of (qc_entries (snd (cache_get now key c))) k = Some e \<longrightarrow> map_of (qc_entries c) k = Some e)"
proof (cases "map_of (qc_entries c) key")
  case None
  with assms show ?thesis by (simp add: cache_get_def)
next
  case (Some e)
  then have "key \<in> fst ` set (qc_entries c)" by (force dest: map_of_SomeD)
  with Some show ?thesis
    using drop_key_ok [OF assms] touch_lru_ok [OF assms]
    by (auto simp: cache_get_def drop_key_def touch_lru_def delete_conv' split: if_splits)
qed

lemma is_valid_facts:
  assumes "cache_ok c" "is_valid now key c = (b, c')"
  shows "cache_ok c' \<and> qc_generation c' = qc_generation c \<and>
    (\<forall>k e. map_of (qc_entries c') k = Some e \<longrightarrow> map_of (qc_entries c) k = Some e) \<and>
    (b \<longrightarrow> c' = c \<and> key \<in> fst ` set (qc_entries c))"
proof (cases "map_of (qc_entries c) key")
  case None
  with assms show ?thesis by (simp add: is_valid_def)
next
  case (Some e)
  then have "key \<in> fst ` set (qc_entries c)" by (force dest: map_of_SomeD)
  with Some show ?thesis
    using assms(2) drop_key_ok [OF assms(1), of key] assms(1)
    by (auto simp: is_valid_def drop_key_def delete_conv' split: if_splits)
qed

lemma get_best_facts:
  assumes "cache_ok c"
  shows "cache_ok (snd (get_best now key c)) \<and> qc_generation (snd (get_best now key c)) = qc_generation c \<and>
    (\<forall>k e. map_of (qc_entries (snd (get_best now key c))) k = Some e \<longrightarrow> map_of (qc_entries c) k = Some e)"
proof -
  obtain b c1 where v1: "is_valid now (key XOR RERANKED_SALT) c = (b, c1)" by force
  obtain b2 c2 where v2: "is_valid now key c1 = (b2, c2)" by force
  note f1 = is_valid_facts [OF assms v1]
  then have "cache_ok c1" by simp
  note f2 = is_valid_facts [OF this v2]
  have t: "qc_entries (touch_lru k x) = qc_entries x" "qc_generation (touch_lru k x) = qc_generation x" for k and x :: "'a query_cache"
    by (simp_all add: touch_lru_def)
  show ?thesis
  proof (cases b)
    case True
    then have g: "snd (get_best now key c) = touch_lru (key XOR RERANKED_SALT) c1"
      by (simp add: get_best_def Let_def v1)
    have "cache_ok (touch_lru (key XOR RERANKED_SALT) c1)"
      using f1 True touch_lru_ok [of c1 "key XOR RERANKED_SALT"] by blast
    with f1 show ?thesis unfolding g t by blast
  next
    case nb: False
    show ?thesis
    proof (cases b2)
      case True
      with nb have g: "snd (get_best now key c) = touch_lru key c2"
        by (simp add: get_best_def Let_def v1 v2)
      have "cache_ok (touch_lru key c2)" using f2 True touch_lru_ok [of c2 key] by blast
      with f1 f2 show ?thesis unfolding g t by metis
    next
      case False
      with nb f1 f2 show ?thesis by (simp add: get_best_def Let_def v1 v2)
    qed
  qed
qed

section \<open>Histories\<close>

text \<open>A run of the cache in the server: look-ups, invalidations, and publications of results that
  were computed under a generation snapshot. Results are tagged with that snapshot.\<close>

datatype 'r cache_op =
    Get nat "64 word"
  | GetBest nat "64 word"
  | Publish nat "64 word" "64 word" 'r
  | PublishReranked nat "64 word" "64 word" 'r
  | Clear

fun cache_step :: "'r cache_op \<Rightarrow> ('r \<times> 64 word) query_cache \<Rightarrow> ('r \<times> 64 word) query_cache" where
  "cache_step (Get now k) c = snd (cache_get now k c)"
| "cache_step (GetBest now k) c = snd (get_best now k c)"
| "cache_step (Publish now k g r) c = snd (insert_if_current now k g (r, g) c)"
| "cache_step (PublishReranked now k g r) c = snd (insert_reranked_if_current now k g (r, g) c)"
| "cache_step Clear c = cache_clear c"

definition cache_run :: "query_cache_config \<Rightarrow> 'r cache_op list \<Rightarrow> ('r \<times> 64 word) query_cache" where
  "cache_run cfg xs = fold cache_step xs (new_cache cfg)"

definition fresh_entries :: "('r \<times> 64 word) query_cache \<Rightarrow> bool" where
  "fresh_entries c \<longleftrightarrow> (\<forall>k e. map_of (qc_entries c) k = Some e \<longrightarrow> snd (qe_results e) = qc_generation c)"

lemma cache_insert_fresh:
  assumes "cache_ok c" "fresh_entries c" "g = qc_generation c"
  shows "cache_ok (cache_insert now k (r, g) c) \<and> fresh_entries (cache_insert now k (r, g) c)"
proof -
  have "qc_generation (cache_insert now k (r, g) c) = qc_generation c"
    by (simp add: cache_insert_def split: prod.split)
  with cache_insert_facts [OF assms(1), of now k "(r, g)"] assms(2,3) show ?thesis
    by (fastforce simp: fresh_entries_def)
qed

lemma cache_step_ok:
  "cache_ok c \<and> fresh_entries c \<Longrightarrow> cache_ok (cache_step x c) \<and> fresh_entries (cache_step x c)"
proof (cases x)
  case (Get now k)
  moreover assume "cache_ok c \<and> fresh_entries c"
  ultimately show ?thesis using cache_get_facts [of c now k] by (fastforce simp: fresh_entries_def)
next
  case (GetBest now k)
  moreover assume "cache_ok c \<and> fresh_entries c"
  ultimately show ?thesis using get_best_facts [of c now k] by (fastforce simp: fresh_entries_def)
next
  case (Publish now k g r)
  moreover assume "cache_ok c \<and> fresh_entries c"
  ultimately show ?thesis using cache_insert_fresh [of c g now k r] by (simp add: insert_if_current_def)
next
  case (PublishReranked now k g r)
  moreover assume "cache_ok c \<and> fresh_entries c"
  ultimately show ?thesis using cache_insert_fresh [of c g now "k XOR RERANKED_SALT" r]
    by (simp add: insert_reranked_if_current_def insert_reranked_def)
next
  case Clear
  then show ?thesis by (simp add: cache_clear_def cache_ok_def fresh_entries_def)
qed

lemma cache_run_ok:
  "cache_ok (fold cache_step xs (new_cache cfg)) \<and> fresh_entries (fold cache_step xs (new_cache cfg))"
proof (induction xs rule: rev_induct)
  case Nil
  show ?case by (simp add: new_cache_def cache_ok_def fresh_entries_def)
next
  case (snoc x xs)
  with cache_step_ok show ?case by simp
qed

lemma step_config: "qc_config (cache_step x c) = qc_config c"
proof (cases x)
  case (GetBest now k)
  then show ?thesis
    by (auto simp: get_best_def is_valid_def touch_lru_def drop_key_def Let_def split: option.split prod.split)
qed (auto simp: cache_get_def touch_lru_def drop_key_def insert_if_current_def insert_reranked_if_current_def
    insert_reranked_def cache_insert_def cache_clear_def split: option.split prod.split)

lemma run_config: "qc_config (fold cache_step xs (new_cache cfg)) = cfg"
  by (induction xs rule: rev_induct) (simp_all add: step_config, simp add: new_cache_def)

text \<open>C17. In every run, whatever is looked up was computed under the generation that is current at the
  look-up: results computed before an invalidation are never served after it, through the plain or
  the reranked path, and the cache never exceeds its capacity.\<close>

theorem no_stale_results:
  "(case fst (cache_get now k (cache_run cfg xs)) of None \<Rightarrow> True | Some r \<Rightarrow> snd r = qc_generation (cache_run cfg xs)) \<and>
    (case fst (get_best now k (cache_run cfg xs)) of None \<Rightarrow> True | Some br \<Rightarrow> snd (snd br) = qc_generation (cache_run cfg xs)) \<and>
    cache_len (cache_run cfg xs) \<le> max 1 (qc_max_entries cfg) \<and>
    set (qc_access_order (cache_run cfg xs)) = fst ` set (qc_entries (cache_run cfg xs)) \<and> distinct (qc_access_order (cache_run cfg xs))"
proof -
  define c where "c = cache_run cfg xs"
  have ok: "cache_ok c" "fresh_entries c" and cfg: "qc_config c = cfg"
    unfolding c_def cache_run_def using cache_run_ok run_config by blast+
  obtain b c1 where v1: "is_valid now (k XOR RERANKED_SALT) c = (b, c1)" by force
  obtain b2 c2 where v2: "is_valid now k c1 = (b2, c2)" by force
  note f1 = is_valid_facts [OF ok(1) v1]
  then have "cache_ok c1" by simp
  note f2 = is_valid_facts [OF this v2]
  have "case fst (get_best now k c) of None \<Rightarrow> True | Some br \<Rightarrow> snd (snd br) = qc_generation c"
  proof (cases b)
    case True
    with f1 have "c1 = c" by simp
    with True ok(2) show ?thesis by (simp add: get_best_def Let_def v1 fresh_entries_def split: option.split)
  next
    case nb: False
    show ?thesis
    proof (cases b2)
      case True
      with f2 have "c2 = c1" by simp
      with f1 ok(2) have "snd (qe_results e) = qc_generation c" if "map_of (qc_entries c2) k = Some e" for e
        using that unfolding fresh_entries_def by blast
      with True nb show ?thesis by (simp add: get_best_def Let_def v1 v2 split: option.split)
    next
      case False
      with nb show ?thesis by (simp add: get_best_def Let_def v1 v2)
    qed
  qed
  moreover have "case fst (cache_get now k c) of None \<Rightarrow> True | Some r \<Rightarrow> snd r = qc_generation c"
    using ok(2) unfolding cache_get_def fresh_entries_def by (cases "map_of (qc_entries c) k") (simp, fastforce)
  ultimately show ?thesis using ok(1) cfg unfolding c_def [symmetric] by (simp add: cache_ok_def cache_len_def)
qed

text \<open>A published result is served until its time to live is over and never after, for plain and
  reranked entries alike; a reranked result takes precedence over the plain one.\<close>

theorem published_served_until_ttl:
  assumes "cache_ok c"
  shows "fst (cache_get now k (cache_insert t0 k r c)) =
      (if qc_ttl_secs (qc_config c) \<le> (now - t0) div 1000 then None else Some r) \<and>
    (if qc_ttl_secs (qc_config c) \<le> (now - t0) div 1000
     then fst (cache_get now (k XOR RERANKED_SALT) (insert_reranked t0 k r c)) = None
     else fst (get_best now k (insert_reranked t0 k r c)) = Some (True, r))"
proof -
  have cfg: "qc_config (cache_insert t0 k' r c) = qc_config c" for k'
    by (simp add: cache_insert_def split: prod.split)
  have get: "map_of (qc_entries (cache_insert t0 k' r c)) k' = Some \<lparr>qe_results = r, qe_inserted_at = t0\<rparr>" for k'
    using cache_insert_facts [OF assms] by blast
  show ?thesis
    by (simp add: cache_get_def get cfg elapsed_secs_def get_best_def is_valid_def insert_reranked_def Let_def)
qed

theorem published_served_until_ttl_witness:
  "fst (cache_get 299999 7 (cache_insert 0 7 ''r'' (new_cache default_query_cache_config))) = Some ''r''"
proof -
  have "cache_ok (new_cache default_query_cache_config :: string query_cache)"
    by (simp add: cache_ok_def new_cache_def)
  from published_served_until_ttl [OF this, of 299999 7 0 "''r''"] show ?thesis
    by (simp add: new_cache_def default_query_cache_config_def)
qed

end
