(* ===== verification/BatchQueue.thy ===== *)
theory BatchQueue
  imports Prelude "HOL-Library.Word"
begin

text \<open>
  The background queue that \<^verbatim>\<open>embedding_queue.rs\<close> and \<^verbatim>\<open>entity_extraction_queue.rs\<close> of
  \<^verbatim>\<open>loomem-core\<close> share: a bounded channel, a gauge of unsettled requests, and one worker that
  collects a batch, flushes it, and on shutdown closes the channel and drains it. Producers, the
  worker and the clients of the shared state interleave; each label is one atomic step of one of
  them. What the two queues do differently (when a batch is full, how a request is captured, what
  a flush does to the shared state) is in the configuration.
\<close>

section \<open>States and steps\<close>

text \<open>Where the worker goes on after a flush: back to collecting, to draining, or out.\<close>

datatype after = ToCollect | ToDrain | ToStop

datatype phase = Collecting | Embedding after | Settling after | Draining | Stopped

text \<open>
  The gauge is an \<^verbatim>\<open>AtomicUsize\<close>, which wraps. \<open>bq_inflight\<close> holds the requests of producers
  between \<^verbatim>\<open>fetch_add\<close> and \<^verbatim>\<open>try_send\<close>; \<open>bq_work\<close> pairs the requests of the running flush with
  their results and \<open>bq_count\<close> is its size. \<open>bq_accepted\<close> and \<open>bq_settled\<close> record the requests
  that were sent and those a flush has dealt with.
\<close>

record ('s, 'r, 'x) bq =
  bq_world :: 's
  bq_inflight :: "'r list"
  bq_chan :: "'r list"
  bq_open :: bool
  bq_senders :: bool
  bq_signal :: bool
  bq_pending :: "64 word"
  bq_batch :: "'r list"
  bq_work :: "('r \<times> 'x) list"
  bq_count :: nat
  bq_phase :: phase
  bq_accepted :: "'r list"
  bq_settled :: "'r list"

record ('s, 'r, 'x, 'y, 'o) bq_config =
  bc_capacity :: nat
  bc_interval :: nat
  bc_full :: "'r list \<Rightarrow> bool"
  bc_admit :: "'s \<Rightarrow> 'r \<Rightarrow> bool"
  bc_results :: "'r list \<Rightarrow> 'y \<Rightarrow> 'x list option"
  bc_settle :: "'r \<Rightarrow> 'x \<Rightarrow> 's \<Rightarrow> 's"
  bc_client :: "'o \<Rightarrow> 's \<Rightarrow> 's"

datatype ('r, 'y, 'o) bq_label =
    Client 'o
  | Count 'r
  | Send 'r
  | Reject 'r
  | DropHandles
  | Signal
  | Recv
  | RecvClosed
  | Timeout
  | BeginDrain
  | DrainRecv
  | DrainEnd
  | Results 'y
  | Settle
  | SettleDone

fun worker_label :: "('r, 'y, 'o) bq_label \<Rightarrow> bool" where
  "worker_label (Client op) = False"
| "worker_label (Count r) = False"
| "worker_label (Send r) = False"
| "worker_label (Reject r) = False"
| "worker_label DropHandles = False"
| "worker_label Signal = False"
| "worker_label _ = True"

fun resume :: "after \<Rightarrow> phase" where
  "resume ToCollect = Collecting"
| "resume ToDrain = Draining"
| "resume ToStop = Stopped"

definition bq_init :: "'s \<Rightarrow> ('s, 'r, 'x) bq" where
  "bq_init w = \<lparr>bq_world = w, bq_inflight = [], bq_chan = [], bq_open = True, bq_senders = True,
     bq_signal = False, bq_pending = 0, bq_batch = [], bq_work = [], bq_count = 0,
     bq_phase = Collecting, bq_accepted = [], bq_settled = []\<rparr>"

text \<open>The last flush before the worker returns: nothing to do for an empty batch.\<close>

definition final_flush :: "('s, 'r, 'x) bq \<Rightarrow> phase" where
  "final_flush s = (if bq_batch s = [] then Stopped else Embedding ToStop)"

text \<open>
  The worker polls the channel and the shutdown signal only while the batch is not full and the
  deadline is not over; with an interval of zero the deadline is over at once. \<open>Timeout\<close> leaves
  the inner loop with a batch to flush, because it is full or the deadline passed.
\<close>

definition polls :: "('s, 'r, 'x, 'y, 'o) bq_config \<Rightarrow> ('s, 'r, 'x) bq \<Rightarrow> bool" where
  "polls cfg s \<longleftrightarrow> bq_phase s = Collecting \<and> 0 < bc_interval cfg \<and> \<not> bc_full cfg (bq_batch s)"

fun bq_step ::
  "('s, 'r, 'x, 'y, 'o) bq_config \<Rightarrow> ('r, 'y, 'o) bq_label \<Rightarrow> ('s, 'r, 'x) bq \<Rightarrow> ('s, 'r, 'x) bq option" where
  "bq_step cfg (Client op) s = Some (s\<lparr>bq_world := bc_client cfg op (bq_world s)\<rparr>)"
| "bq_step cfg (Count r) s =
     (if bq_senders s \<and> bc_admit cfg (bq_world s) r
      then Some (s\<lparr>bq_inflight := bq_inflight s @ [r], bq_pending := bq_pending s + 1\<rparr>) else None)"
| "bq_step cfg (Send r) s =
     (if r \<in> set (bq_inflight s) \<and> bq_open s \<and> length (bq_chan s) < bc_capacity cfg
      then Some (s\<lparr>bq_inflight := remove1 r (bq_inflight s), bq_chan := bq_chan s @ [r],
                   bq_accepted := bq_accepted s @ [r]\<rparr>) else None)"
| "bq_step cfg (Reject r) s =
     (if r \<in> set (bq_inflight s) \<and> \<not> (bq_open s \<and> length (bq_chan s) < bc_capacity cfg)
      then Some (s\<lparr>bq_inflight := remove1 r (bq_inflight s), bq_pending := bq_pending s - 1\<rparr>) else None)"
| "bq_step cfg DropHandles s =
     (if bq_inflight s = [] then Some (s\<lparr>bq_senders := False\<rparr>) else None)"
| "bq_step cfg Signal s = (if bq_senders s then Some (s\<lparr>bq_signal := True\<rparr>) else None)"
| "bq_step cfg Recv s =
     (if polls cfg s then
        (case bq_chan s of
           [] \<Rightarrow> None
         | r # rs \<Rightarrow> Some (s\<lparr>bq_chan := rs, bq_batch := bq_batch s @ [r]\<rparr>))
      else None)"
| "bq_step cfg RecvClosed s =
     (if polls cfg s \<and> bq_chan s = [] \<and> \<not> bq_senders s then Some (s\<lparr>bq_phase := final_flush s\<rparr>) else None)"
| "bq_step cfg Timeout s =
     (if bq_phase s = Collecting \<and> bq_batch s \<noteq> [] then Some (s\<lparr>bq_phase := Embedding ToCollect\<rparr>) else None)"
| "bq_step cfg BeginDrain s =
     (if polls cfg s \<and> (bq_signal s \<or> \<not> bq_senders s)
      then Some (s\<lparr>bq_open := False, bq_phase := Draining\<rparr>) else None)"
| "bq_step cfg DrainRecv s =
     (if bq_phase s = Draining then
        (case bq_chan s of
           [] \<Rightarrow> None
         | r # rs \<Rightarrow>
             let b = bq_batch s @ [r]
             in Some (s\<lparr>bq_chan := rs, bq_batch := b,
                        bq_phase := (if bc_full cfg b then Embedding ToDrain else Draining)\<rparr>))
      else None)"
| "bq_step cfg DrainEnd s =
     (if bq_phase s = Draining \<and> bq_chan s = [] then Some (s\<lparr>bq_phase := final_flush s\<rparr>) else None)"
| "bq_step cfg (Results y) s =
     (case bq_phase s of
        Embedding k \<Rightarrow>
          (case bc_results cfg (bq_batch s) y of
             None \<Rightarrow> None
           | Some xs \<Rightarrow>
               if length (bq_batch s) \<le> length xs
               then Some (s\<lparr>bq_work := zip (bq_batch s) xs, bq_count := length (bq_batch s), bq_batch := [],
                            bq_phase := Settling k\<rparr>) else None)
      | _ \<Rightarrow> None)"
| "bq_step cfg Settle s =
     (case (bq_phase s, bq_work s) of
        (Settling k, (r, x) # ws) \<Rightarrow>
          Some (s\<lparr>bq_world := bc_settle cfg r x (bq_world s), bq_work := ws, bq_settled := bq_settled s @ [r]\<rparr>)
      | _ \<Rightarrow> None)"
| "bq_step cfg SettleDone s =
     (case (bq_phase s, bq_work s) of
        (Settling k, []) \<Rightarrow>
          Some (s\<lparr>bq_pending := bq_pending s - of_nat (bq_count s), bq_count := 0, bq_phase := resume k\<rparr>)
      | _ \<Rightarrow> None)"

fun bq_run ::
  "('s, 'r, 'x, 'y, 'o) bq_config \<Rightarrow> ('r, 'y, 'o) bq_label list \<Rightarrow> ('s, 'r, 'x) bq \<Rightarrow> ('s, 'r, 'x) bq option" where
  "bq_run cfg [] s = Some s"
| "bq_run cfg (l # ls) s = Option.bind (bq_step cfg l s) (bq_run cfg ls)"

inductive bq_reach :: "('s, 'r, 'x, 'y, 'o) bq_config \<Rightarrow> 's \<Rightarrow> ('s, 'r, 'x) bq \<Rightarrow> bool" for cfg w where
  init: "bq_reach cfg w (bq_init w)"
| step: "bq_reach cfg w s \<Longrightarrow> bq_step cfg l s = Some s' \<Longrightarrow> bq_reach cfg w s'"

lemma bq_run_reach: "bq_reach cfg w s \<Longrightarrow> bq_run cfg ls s = Some s' \<Longrightarrow> bq_reach cfg w s'"
  by (induction ls arbitrary: s) (auto split: bind_splits intro: bq_reach.step)

section \<open>The queue invariant\<close>

text \<open>No request is lost, duplicated or reordered, and the gauge counts what is not settled.\<close>

fun phase_inv :: "('s, 'r, 'x) bq \<Rightarrow> phase \<Rightarrow> bool" where
  "phase_inv s Collecting \<longleftrightarrow> bq_open s \<and> bq_work s = [] \<and> bq_count s = 0"
| "phase_inv s Draining \<longleftrightarrow> \<not> bq_open s \<and> bq_work s = [] \<and> bq_count s = 0"
| "phase_inv s Stopped \<longleftrightarrow> (bq_open s \<longrightarrow> \<not> bq_senders s) \<and> bq_chan s = [] \<and> bq_batch s = [] \<and> bq_work s = [] \<and> bq_count s = 0"
| "phase_inv s (Embedding k) \<longleftrightarrow> bq_work s = [] \<and> bq_count s = 0 \<and>
     (k = ToCollect \<longrightarrow> bq_open s) \<and> (k = ToDrain \<longrightarrow> \<not> bq_open s) \<and>
     (k = ToStop \<longrightarrow> (bq_open s \<longrightarrow> \<not> bq_senders s) \<and> bq_chan s = [])"
| "phase_inv s (Settling k) \<longleftrightarrow> bq_batch s = [] \<and> length (bq_work s) \<le> bq_count s \<and>
     (k = ToCollect \<longrightarrow> bq_open s) \<and> (k = ToDrain \<longrightarrow> \<not> bq_open s) \<and>
     (k = ToStop \<longrightarrow> (bq_open s \<longrightarrow> \<not> bq_senders s) \<and> bq_chan s = [])"

definition bq_inv :: "('s, 'r, 'x) bq \<Rightarrow> bool" where
  "bq_inv s \<longleftrightarrow>
     bq_accepted s = bq_settled s @ map fst (bq_work s) @ bq_batch s @ bq_chan s \<and>
     bq_pending s = of_nat (length (bq_inflight s) + length (bq_chan s) + length (bq_batch s) + bq_count s) \<and>
     (bq_senders s \<or> bq_inflight s = []) \<and>
     phase_inv s (bq_phase s)"

lemma bq_inv_init: "bq_inv (bq_init w)"
  by (simp add: bq_inv_def bq_init_def)

lemma length_pred_word: "r \<in> set xs \<Longrightarrow> of_nat (length xs) = (of_nat (length xs - Suc 0) + 1 :: 64 word)"
  by (cases xs) auto

lemma bq_inv_step:
  assumes "bq_inv s" "bq_step cfg l s = Some s'"
  shows "bq_inv s'"
proof (cases l)
  case (Send r)
  moreover note length_pred_word [of r "bq_inflight s"]
  ultimately show ?thesis using assms
    by (cases "bq_phase s") (auto simp: bq_inv_def length_remove1 split: if_splits)
next
  case (Reject r)
  moreover note length_pred_word [of r "bq_inflight s"]
  ultimately show ?thesis using assms
    by (cases "bq_phase s") (auto simp: bq_inv_def length_remove1 split: if_splits)
next
  case (Results y)
  then show ?thesis using assms
    by (cases "bq_phase s") (auto simp: bq_inv_def map_fst_zip_take min_def split: if_splits option.splits)
next
  case Settle
  then show ?thesis using assms
    by (cases "bq_phase s"; cases "bq_work s") (auto simp: bq_inv_def)
next
  case SettleDone
  then show ?thesis using assms
    by (cases "bq_phase s"; cases "bq_work s"; cases "case bq_phase s of Settling k \<Rightarrow> k | _ \<Rightarrow> ToStop")
      (auto simp: bq_inv_def)
qed ((use assms in \<open>cases "bq_phase s"; auto simp: bq_inv_def polls_def final_flush_def Let_def split: if_splits list.splits\<close>)+)

lemma bq_reach_inv: "bq_reach cfg w s \<Longrightarrow> bq_inv s"
  by (induction rule: bq_reach.induct) (simp_all add: bq_inv_init bq_inv_step)

lemma bq_run_inv: "bq_run cfg ls s = Some s' \<Longrightarrow> bq_inv s \<Longrightarrow> bq_inv s'"
  by (induction ls arbitrary: s) (auto simp: bq_inv_step split: bind_splits)

section \<open>Draining ends\<close>

fun phase_cost :: "phase \<Rightarrow> nat" where
  "phase_cost (Embedding ToDrain) = 6"
| "phase_cost (Settling ToDrain) = 5"
| "phase_cost Draining = 4"
| "phase_cost (Embedding ToStop) = 2"
| "phase_cost (Settling ToStop) = 1"
| "phase_cost _ = 0"

definition drain_cost :: "('s, 'r, 'x) bq \<Rightarrow> nat" where
  "drain_cost s = 4 * length (bq_chan s) + length (bq_batch s) + length (bq_work s) + phase_cost (bq_phase s)"

text \<open>Once the channel is closed every step of the worker lowers the cost and no other step raises it.\<close>

lemma drain_step:
  assumes "bq_inv s" "\<not> bq_open s" "bq_step cfg l s = Some s'"
  shows "\<not> bq_open s' \<and> drain_cost s' + (if worker_label l then 1 else 0) \<le> drain_cost s"
proof (cases l)
  case (Results y)
  then show ?thesis using assms
    by (cases "bq_phase s"; cases "case bq_phase s of Embedding k \<Rightarrow> k | _ \<Rightarrow> ToStop")
      (auto simp: bq_inv_def drain_cost_def split: if_splits option.splits)
next
  case Settle
  then show ?thesis using assms
    by (cases "bq_phase s"; cases "bq_work s") (auto simp: drain_cost_def)
next
  case SettleDone
  then show ?thesis using assms
    by (cases "bq_phase s"; cases "bq_work s"; cases "case bq_phase s of Settling k \<Rightarrow> k | _ \<Rightarrow> ToStop")
      (auto simp: bq_inv_def drain_cost_def)
qed ((use assms in \<open>cases "bq_phase s"; auto simp: bq_inv_def polls_def final_flush_def drain_cost_def Let_def split: if_splits list.splits\<close>)+)

lemma drain_run:
  "bq_run cfg ls s = Some s' \<Longrightarrow> bq_inv s \<Longrightarrow> \<not> bq_open s \<Longrightarrow>
     \<not> bq_open s' \<and> drain_cost s' + length (filter worker_label ls) \<le> drain_cost s"
proof (induction ls arbitrary: s)
  case (Cons l ls)
  then obtain t where t: "bq_step cfg l s = Some t" "bq_run cfg ls t = Some s'" by (auto split: bind_splits)
  note d = drain_step [OF Cons.prems(2,3) t(1)]
  with Cons.IH [OF t(2) bq_inv_step [OF Cons.prems(2) t(1)]] show ?case by auto
qed simp

text \<open>The worker is never stuck while the channel is closed and it has not returned.\<close>

lemma drain_progress:
  assumes inv: "bq_inv s" and closed: "\<not> bq_open s" and run: "bq_phase s \<noteq> Stopped"
    and res: "\<And>b. \<exists>y xs. bc_results cfg b y = Some xs \<and> length b \<le> length xs"
  shows "\<exists>l. worker_label l \<and> bq_step cfg l s \<noteq> None"
proof (cases "bq_phase s")
  case Collecting
  with inv closed show ?thesis by (simp add: bq_inv_def)
next
  case (Embedding k)
  from res obtain y xs where "bc_results cfg (bq_batch s) y = Some xs" "length (bq_batch s) \<le> length xs" by blast
  with Embedding show ?thesis by (intro exI [of _ "Results y"]) simp
next
  case (Settling k)
  show ?thesis
  proof (cases "bq_work s")
    case Nil
    with Settling show ?thesis by (intro exI [of _ SettleDone]) simp
  next
    case (Cons w ws)
    with Settling show ?thesis by (cases w) (auto intro!: exI [of _ Settle])
  qed
next
  case Draining
  show ?thesis
  proof (cases "bq_chan s")
    case Nil
    with Draining show ?thesis by (intro exI [of _ DrainEnd]) simp
  next
    case (Cons r rs)
    with Draining show ?thesis by (intro exI [of _ DrainRecv]) (simp add: Let_def)
  qed
next
  case Stopped
  with run show ?thesis by simp
qed

section \<open>A configuration that never polls\<close>

definition never_polls :: "('s, 'r, 'x, 'y, 'o) bq_config \<Rightarrow> bool" where
  "never_polls cfg \<longleftrightarrow> bc_interval cfg = 0 \<or> bc_full cfg []"

lemma never_polls_reach:
  "bq_reach cfg w s \<Longrightarrow> never_polls cfg \<Longrightarrow> bq_phase s = Collecting \<and> bq_batch s = [] \<and> bq_settled s = []"
proof (induction rule: bq_reach.induct)
  case init
  show ?case by (simp add: bq_init_def)
next
  case (step s l s')
  then show ?case
    by (cases l) (auto simp: never_polls_def polls_def split: if_splits)
qed

end
