(* ===== verification/EmbedQueue.thy ===== *)
theory EmbedQueue
  imports BatchQueue StoreProps
begin

text \<open>
  The embedding queue (\<^verbatim>\<open>loomem-core/src/embedding_queue.rs\<close>) as an instance of the batching queue
  over the chunk store, and the queue part of \<^verbatim>\<open>entity_extraction_queue.rs\<close>. The embedder is not
  part of the repository: an \<open>embed_outcome\<close> is what one call of it returned, and \<open>E tx v\<close> says
  that \<open>v\<close> is a vector of \<open>tx\<close>.
\<close>

section \<open>The embedding queue\<close>

type_synonym vec = "nat list"

record embed_request =
  er_target :: embedding_target
  er_chunk_id :: string
  er_content :: string

datatype embed_outcome =
    LocalBatch "vec res list"
  | LocalJoinError string
  | RemoteBatch "vec list"
  | RemoteError string

definition pad_to :: "vec res list \<Rightarrow> nat \<Rightarrow> string \<Rightarrow> vec res list" where
  "pad_to rs count reason = rs @ replicate (count - length rs) (Inl (Err reason))"

definition all_failed :: "nat \<Rightarrow> string \<Rightarrow> vec res list" where
  "all_failed count reason = pad_to [] count reason"

fun embed_all :: "embed_outcome \<Rightarrow> nat \<Rightarrow> vec res list" where
  "embed_all (LocalBatch rs) count = pad_to rs count ''local embedder returned no result''"
| "embed_all (LocalJoinError e) count = all_failed count (''embedding batch task failed to join: '' @ e)"
| "embed_all (RemoteBatch vs) count =
     pad_to (map Inr vs) count ''embedding API returned fewer vectors than requests''"
| "embed_all (RemoteError e) count = all_failed count (''batch embedding API failed: '' @ e)"

text \<open>The contract of the embedder: the vector at an index belongs to the text at that index.\<close>

fun vectors_match :: "(string \<Rightarrow> vec \<Rightarrow> bool) \<Rightarrow> string list \<Rightarrow> vec res list \<Rightarrow> bool" where
  "vectors_match E (t # ts) (Inr v # rs) \<longleftrightarrow> E t v \<and> vectors_match E ts rs"
| "vectors_match E (t # ts) (Inl e # rs) \<longleftrightarrow> vectors_match E ts rs"
| "vectors_match E _ _ \<longleftrightarrow> True"

fun outcome_ok :: "(string \<Rightarrow> vec \<Rightarrow> bool) \<Rightarrow> string list \<Rightarrow> embed_outcome \<Rightarrow> bool" where
  "outcome_ok E ts (LocalBatch rs) = vectors_match E ts rs"
| "outcome_ok E ts (RemoteBatch vs) = vectors_match E ts (map Inr vs)"
| "outcome_ok E ts _ = True"

definition request_admitted :: "store \<Rightarrow> embed_request \<Rightarrow> bool" where
  "request_admitted st r \<longleftrightarrow> embedding_target_of st (er_chunk_id r) (er_content r) = Inr (Some (er_target r))"

text \<open>What a flush does with one request: an error of the embedder or the store costs only itself.\<close>

definition settle_request :: "embed_request \<Rightarrow> vec res \<Rightarrow> store \<Rightarrow> store" where
  "settle_request r x st =
     (case x of
        Inl e \<Rightarrow> st
      | Inr v \<Rightarrow> (case store_embedding_if_current st (er_target r) v of Inl e \<Rightarrow> st | Inr (b, st') \<Rightarrow> st'))"

record embedding_queue_config =
  eqc_batch_size :: nat
  eqc_flush_interval_secs :: nat
  eqc_queue_capacity :: nat

definition default_embedding_queue_config :: embedding_queue_config where
  "default_embedding_queue_config =
     \<lparr>eqc_batch_size = 50, eqc_flush_interval_secs = 5, eqc_queue_capacity = 1000\<rparr>"

type_synonym embed_cfg = "(store, embed_request, vec res, embed_outcome, life_op) bq_config"
type_synonym embed_queue = "(store, embed_request, vec res) bq"

definition embed_worker :: "(string \<Rightarrow> vec \<Rightarrow> bool) \<Rightarrow> embedding_queue_config \<Rightarrow> embed_cfg" where
  "embed_worker E cfg =
     \<lparr>bc_capacity = eqc_queue_capacity cfg, bc_interval = eqc_flush_interval_secs cfg,
      bc_full = (\<lambda>batch. eqc_batch_size cfg \<le> length batch), bc_admit = request_admitted,
      bc_results = (\<lambda>batch out. if outcome_ok E (map er_content batch) out
                                then Some (embed_all out (length batch)) else None),
      bc_settle = settle_request, bc_client = life_step\<rparr>"

text \<open>An uninterrupted call of \<^verbatim>\<open>enqueue\<close>.\<close>

definition enqueue :: "embed_cfg \<Rightarrow> string \<Rightarrow> string \<Rightarrow> embed_queue \<Rightarrow> unit res \<times> embed_queue" where
  "enqueue cfg i content s =
     (case embedding_target_of (bq_world s) i content of
        Inl e \<Rightarrow> (Inl e, s)
      | Inr None \<Rightarrow> (Inr (), s)
      | Inr (Some t) \<Rightarrow>
          let r = \<lparr>er_target = t, er_chunk_id = i, er_content = content\<rparr>;
              s1 = s\<lparr>bq_inflight := bq_inflight s @ [r], bq_pending := bq_pending s + 1\<rparr>
          in case bq_step cfg (Send r) s1 of
               Some s2 \<Rightarrow> (Inr (), s2)
             | None \<Rightarrow> (case bq_step cfg (Reject r) s1 of
                          Some s2 \<Rightarrow> (Inl (Err ''Embedding queue full or closed''), s2)
                        | None \<Rightarrow> (Inr (), s1)))"

section \<open>The entity extraction queue\<close>

record ('t) extract_request =
  xr_chunk_id :: string
  xr_content :: string
  xr_stream :: string
  xr_dict_entities :: "(string \<times> string) list"
  xr_target :: 't

definition estimate_tokens :: "string \<Rightarrow> nat" where
  "estimate_tokens tx = length tx div 4 + 1"

record entity_extraction_config =
  xec_batch_size :: nat
  xec_flush_interval_secs :: nat
  xec_queue_capacity :: nat
  xec_max_tokens_per_batch :: nat

definition default_entity_extraction_config :: entity_extraction_config where
  "default_entity_extraction_config =
     \<lparr>xec_batch_size = 5, xec_flush_interval_secs = 10, xec_queue_capacity = 200,
      xec_max_tokens_per_batch = 2000\<rparr>"

definition batch_tokens :: "'t extract_request list \<Rightarrow> nat" where
  "batch_tokens batch = sum_list (map (\<lambda>r. estimate_tokens (xr_content r)) batch)"

definition extract_full :: "entity_extraction_config \<Rightarrow> 't extract_request list \<Rightarrow> bool" where
  "extract_full cfg batch \<longleftrightarrow>
     xec_batch_size cfg \<le> length batch \<or> xec_max_tokens_per_batch cfg \<le> batch_tokens batch"

text \<open>Capturing a graph target, the extraction and its publications are those of the given world.\<close>

definition extract_worker ::
  "('w, 't extract_request, 'x, 'y, 'o) bq_config \<Rightarrow> entity_extraction_config \<Rightarrow>
     ('w, 't extract_request, 'x, 'y, 'o) bq_config" where
  "extract_worker base cfg =
     base\<lparr>bc_capacity := xec_queue_capacity cfg, bc_interval := xec_flush_interval_secs cfg,
          bc_full := extract_full cfg\<rparr>"

section \<open>What a lifecycle step does to one embedding\<close>

definition live_content :: "store \<Rightarrow> string \<Rightarrow> string option" where
  "live_content st i =
     (case get_chunk st i of
        Inr (Some c) \<Rightarrow> if ch_deleted_at c = None then Some (ch_content c) else None
      | _ \<Rightarrow> None)"

lemma live_content_Some:
  "live_content st i = Some tx \<longleftrightarrow>
     (\<exists>c. get_chunk st i = Inr (Some c) \<and> ch_deleted_at c = None \<and> ch_content c = tx)"
  by (auto simp: live_content_def split: sum.splits option.splits)

text \<open>A vector that survives a step belongs to a chunk whose content was live before.\<close>

definition emb_view :: "string \<Rightarrow> store \<Rightarrow> store \<Rightarrow> bool" where
  "emb_view i st st' \<longleftrightarrow>
     kv_get (st_emb st') i = None \<or>
     (kv_get (st_emb st') i = kv_get (st_emb st) i \<and>
      (live_content st' i = None \<or> live_content st' i = live_content st i))"

lemma emb_view_refl [simp]: "emb_view i st st"
  by (simp add: emb_view_def)

lemma emb_view_same:
  "get_chunk st' i = get_chunk st i \<Longrightarrow> kv_get (st_emb st') i = kv_get (st_emb st) i \<Longrightarrow> emb_view i st st'"
  by (simp add: emb_view_def live_content_def)

lemma get_chunk_fresh_put:
  assumes none: "get_chunk st i = Inr None" and pv: "st_prov st' = st_prov st"
    and dec: "decode_chunk (st_prov st) r = Inr c"
    and db: "\<And>lv. kv_get (st_db st') (chunk_key lv i) =
      (if lv = l then Some r else kv_get (st_db st) (chunk_key lv i))"
  shows "get_chunk st' i = Inr None \<or> get_chunk st' i = Inr (Some c)"
  using none dec by (auto simp: get_chunk_def pv db split: option.splits)

lemma store_emb_view:
  assumes ok: "store_ok st" and s: "store_chunk_locked st c u = Inr st'"
  shows "emb_view i st st'"
  using s
proof (rule store_chunk_lockedE)
  fix prev r
  assume prev: "get_chunk st (ch_id c) = Inr prev" and r: "encode_chunk (st_prov st) c = Inr r"
    and st': "st' = st\<lparr>st_db := kv_batch (store_batch c prev r u) (st_db st),
               st_emb := (if chunk_changed c prev \<and> ch_deleted_at c = None
                          then kv_delete (ch_id c) (st_emb st) else st_emb st)\<rparr>"
  have rows: "kv_get (st_db st') (chunk_key lv j) =
      (if lv = ch_level c \<and> j = ch_id c then Some r else kv_get (st_db st) (chunk_key lv j))" for lv j
    by (simp add: st' store_batch_get)
  have pv: "st_prov st' = st_prov st" by (simp add: st')
  have dec: "decode_chunk (st_prov st) r = Inr c" using ok r by (simp add: decode_encode store_ok_def)
  show ?thesis
  proof (cases "i = ch_id c")
    case False
    then have "get_chunk st' i = get_chunk st i" by (intro get_chunk_cong) (simp_all add: pv rows)
    moreover have "kv_get (st_emb st') i = kv_get (st_emb st) i" using False by (simp add: st' map_of_kv_delete)
    ultimately show ?thesis by (rule emb_view_same)
  next
    case True
    have row: "kv_get (st_db st') (chunk_key lv i) =
        (if lv = ch_level c then Some r else kv_get (st_db st) (chunk_key lv i))" for lv
      using True rows by simp
    have emb: "kv_get (st_emb st') i = None \<or> kv_get (st_emb st') i = kv_get (st_emb st) i"
      by (simp add: st' map_of_kv_delete True)
    show ?thesis
    proof (cases prev)
      case None
      then have "get_chunk st i = Inr None" using prev True by simp
      from get_chunk_fresh_put [OF this pv dec row]
      show ?thesis using None True
        by (auto simp: emb_view_def live_content_def st' map_of_kv_delete chunk_changed_def)
    next
      case (Some old)
      then have "get_chunk st i = Inr (Some old)" using prev True by simp
      from get_chunk_put [OF this pv dec row] this
      show ?thesis using Some True emb
        by (auto simp: emb_view_def live_content_def st' map_of_kv_delete chunk_changed_def)
    qed
  qed
qed

lemma delete_emb_view:
  assumes "st' = st\<lparr>st_db := kv_batch (concat (map chunk_delete_ops ids) @
      graph_sidecar_deletes (set ids) (st_db st)) (st_db st), st_emb := fold kv_delete ids (st_emb st)\<rparr>"
  shows "emb_view i st st'"
proof (cases "i \<in> set ids")
  case True
  then show ?thesis by (simp add: emb_view_def assms fold_kv_delete)
next
  case False
  have nsc: "\<not> sidecar_key (set ids) (chunk_key lv i)" for lv using sidecar_key_other by blast
  have db: "st_db st' = kv_batch (concat (map chunk_delete_ops ids) @ graph_sidecar_deletes (set ids) (st_db st)) (st_db st)"
    by (simp add: assms)
  have "kv_get (st_db st') (chunk_key lv i) = kv_get (st_db st) (chunk_key lv i)" for lv
    unfolding db delete_batch_get using False nsc by (auto simp: derived_keys_def)
  then have "get_chunk st' i = get_chunk st i" by (intro get_chunk_cong) (simp_all add: assms)
  then show ?thesis by (rule emb_view_same) (simp add: assms fold_kv_delete False)
qed

text \<open>Every vector of a live chunk is a vector of its content.\<close>


definition vectors_current :: "(string \<Rightarrow> vec \<Rightarrow> bool) \<Rightarrow> store \<Rightarrow> bool" where
  "vectors_current E st \<longleftrightarrow>
     (\<forall>i v tx. kv_get (st_emb st) i = Some v \<longrightarrow> live_content st i = Some tx \<longrightarrow> E tx v)"

lemma vectors_current_view:
  assumes "vectors_current E st" "\<And>i. emb_view i st st'"
  shows "vectors_current E st'"
  unfolding vectors_current_def
proof (intro allI impI)
  fix i v tx
  assume "kv_get (st_emb st') i = Some v" "live_content st' i = Some tx"
  with assms show "E tx v" unfolding vectors_current_def emb_view_def by (metis option.distinct(1))
qed

lemma write_embedding_view:
  "live_content (write_embedding st j v) i = live_content st i"
  "kv_get (st_emb (write_embedding st j v)) i = (if i = j then Some v else kv_get (st_emb st) i)"
  using get_chunk_cong [of "write_embedding st j v" st i]
  by (simp_all add: write_embedding_def live_content_def map_of_kv_put)

lemma publish_vectors_current:
  assumes "vectors_current E st" "E (et_content t) v" "store_embedding_if_current st t v = Inr (b, st')"
  shows "vectors_current E st'"
proof (cases "get_chunk st (et_id t)")
  case (Inr co)
  have "live_content st (et_id t) = Some (et_content t)" if b
    using assms(3) that Inr
    by (auto simp: store_embedding_if_current_def live_content_def split: option.splits if_splits)
  then show ?thesis
    using assms Inr unfolding vectors_current_def
    by (auto simp: store_embedding_if_current_def write_embedding_view split: option.splits if_splits)
qed (use assms(3) in \<open>simp add: store_embedding_if_current_def\<close>)

lemma life_step_vectors:
  assumes ok: "store_ok st" and cur: "vectors_current E st" and e: "\<And>t v. x = OEmbed t v \<Longrightarrow> E (et_content t) v"
  shows "vectors_current E (life_step x st)"
proof (cases x)
  case (OStore c u)
  with store_emb_view [OF ok] show ?thesis
    by (auto simp: store_chunk_def split: sum.split intro: vectors_current_view [OF cur])
next
  case (ODelete j now u)
  have "emb_view i st st'" if d: "delete_by_id st j now u = Inr (b, st')" for b st' i
    using d store_emb_view [OF ok] by (auto simp: delete_by_id_def split: option.splits)
  then show ?thesis by (auto simp: ODelete cur split: sum.split intro: vectors_current_view [OF cur])
next
  case (OTombstone j t us)
  have "emb_view i st st'" if d: "tombstone_ingest_source st j t us = Inr (res, st')" for res st' i
  proof -
    have "st_emb st' = st_emb st" using d by (cases rule: tombstone_cases) simp_all
    moreover have "live_content st' i = None \<or> live_content st' i = live_content st i"
      using tombstone_get [OF ok d, of i] by (auto simp: live_content_def split: sum.splits option.splits)
    ultimately show ?thesis by (simp add: emb_view_def)
  qed
  then show ?thesis by (auto simp: OTombstone cur split: sum.split intro: vectors_current_view [OF cur])
next
  case (OHardDelete j)
  have "emb_view i st st'" if "hard_delete_by_id st j = Inr (b, st')" for b st' i
    by (rule delete_emb_view [where ids = "[j]"]) (use hard_deleteE [OF that] in simp)
  then show ?thesis by (auto simp: OHardDelete cur split: sum.split intro: vectors_current_view [OF cur])
next
  case (OPurge s dry)
  have "emb_view i st st'" if p: "purge_namespace st s dry = Inr (ids, st')" for ids st' i
  proof (cases dry)
    case True
    with p show ?thesis by (auto simp: purge_namespace_def)
  next
    case False
    with p show ?thesis
      by (intro delete_emb_view [where ids = ids]) (auto simp: purge_namespace_def append_graph_sidecar_deletes_def)
  qed
  then show ?thesis by (auto simp: OPurge cur split: sum.split intro: vectors_current_view [OF cur])
next
  case (OEmbed t v)
  with publish_vectors_current [OF cur e] show ?thesis by (auto simp: cur split: sum.split)
qed

section \<open>The queue over the store\<close>

definition request_ok :: "embed_request \<Rightarrow> bool" where
  "request_ok r \<longleftrightarrow> et_content (er_target r) = er_content r"

text \<open>Requests carry the content their target was captured with; results in work match it.\<close>

definition work_ok :: "(string \<Rightarrow> vec \<Rightarrow> bool) \<Rightarrow> embed_queue \<Rightarrow> bool" where
  "work_ok E s \<longleftrightarrow>
     (\<forall>r \<in> set (bq_inflight s) \<union> set (bq_chan s) \<union> set (bq_batch s). request_ok r) \<and>
     (\<forall>w \<in> set (bq_work s). request_ok (fst w) \<and> (\<forall>v. snd w = Inr v \<longrightarrow> E (er_content (fst w)) v))"

lemma admitted_ok: "request_admitted st r \<Longrightarrow> request_ok r"
  unfolding request_admitted_def request_ok_def embedding_target_of_def
  by (cases "get_chunk st (er_chunk_id r)")
    (simp, force dest: arg_cong [of _ _ et_content] split: option.splits if_splits)

lemma vectors_match_nth:
  "vectors_match E ts rs \<Longrightarrow> (t, Inr v) \<in> set (zip ts rs) \<Longrightarrow> E t v"
  by (induction E ts rs rule: vectors_match.induct) auto

lemma vectors_match_failed: "vectors_match E ts (replicate n (Inl e))"
proof (induction n arbitrary: ts)
  case (Suc n)
  then show ?case by (cases ts) simp_all
qed simp

lemma vectors_match_pad: "vectors_match E ts rs \<Longrightarrow> vectors_match E ts (rs @ replicate n (Inl e))"
proof (induction rs arbitrary: ts)
  case (Cons r rs)
  then show ?case by (cases ts; cases r) simp_all
qed (simp add: vectors_match_failed)

lemma embed_all_ok:
  "outcome_ok E ts out \<Longrightarrow> vectors_match E ts (embed_all out n)"
  "n \<le> length (embed_all out n)"
  by (cases out; simp add: pad_to_def all_failed_def vectors_match_pad vectors_match_failed)+


definition label_ok :: "(string \<Rightarrow> vec \<Rightarrow> bool) \<Rightarrow> (embed_request, embed_outcome, life_op) bq_label \<Rightarrow> bool" where
  "label_ok E l \<longleftrightarrow> (case l of Client (OEmbed t v) \<Rightarrow> E (et_content t) v | _ \<Rightarrow> True)"

definition system_ok :: "(string \<Rightarrow> vec \<Rightarrow> bool) \<Rightarrow> embed_queue \<Rightarrow> bool" where
  "system_ok E s \<longleftrightarrow> store_ok (bq_world s) \<and> vectors_current E (bq_world s) \<and> work_ok E s"

lemma settle_ok:
  assumes "store_ok st" "vectors_current E st" "request_ok r" "\<And>v. x = Inr v \<Longrightarrow> E (er_content r) v"
  shows "store_ok (settle_request r x st) \<and> vectors_current E (settle_request r x st)"
proof (cases x)
  case (Inr v)
  have "settle_request r x st = life_step (OEmbed (er_target r) v) st"
    by (simp add: settle_request_def Inr)
  moreover have "E (et_content (er_target r)) v" using assms(3,4) Inr by (simp add: request_ok_def)
  ultimately show ?thesis
    using life_step_ok [OF assms(1), of "OEmbed (er_target r) v"]
      life_step_vectors [OF assms(1,2), of "OEmbed (er_target r) v"] by (simp del: life_step.simps)
qed (use assms in \<open>simp add: settle_request_def\<close>)

lemma results_ok:
  assumes "work_ok E s" "outcome_ok E (map er_content (bq_batch s)) out"
    and w: "(r, x) \<in> set (zip (bq_batch s) (embed_all out n))"
  shows "request_ok r \<and> (\<forall>v. x = Inr v \<longrightarrow> E (er_content r) v)"
proof -
  have r: "r \<in> set (bq_batch s)" using w by (rule set_zip_leftD)
  have "(er_content r, x) \<in> set (zip (map er_content (bq_batch s)) (embed_all out n))"
    using w by (force simp: zip_map1)
  then have "\<forall>v. x = Inr v \<longrightarrow> E (er_content r) v"
    using vectors_match_nth [OF embed_all_ok(1) [OF assms(2)]] by blast
  with r assms(1) show ?thesis by (auto simp: work_ok_def)
qed

lemma in_remove1: "x \<in> set (remove1 r xs) \<Longrightarrow> x \<in> set xs"
  using notin_set_remove1 by fast

lemma system_step:
  assumes ok: "system_ok E s" and l: "label_ok E l" and st: "bq_step (embed_worker E cfg) l s = Some s'"
  shows "system_ok E s'"
proof (cases l)
  case (Client op)
  then have "op = OEmbed t v \<Longrightarrow> E (et_content t) v" for t v using l by (simp add: label_ok_def)
  then have "vectors_current E (life_step op (bq_world s))" using ok life_step_vectors by (simp add: system_ok_def)
  with Client ok st show ?thesis
    by (auto simp: system_ok_def work_ok_def embed_worker_def life_step_ok)
next
  case (Count r)
  with ok st show ?thesis
    by (auto simp: system_ok_def work_ok_def embed_worker_def admitted_ok split: if_splits)
next
  case (Send r)
  with ok st in_remove1 [of _ r "bq_inflight s"] show ?thesis
    by (fastforce simp: system_ok_def work_ok_def split: if_splits)
next
  case (Reject r)
  with ok st in_remove1 [of _ r "bq_inflight s"] show ?thesis
    by (fastforce simp: system_ok_def work_ok_def split: if_splits)
next
  case (Results out)
  then obtain k where k: "bq_phase s = Embedding k" using st by (cases "bq_phase s") simp_all
  with Results st have o: "outcome_ok E (map er_content (bq_batch s)) out"
    and s': "s' = s\<lparr>bq_work := zip (bq_batch s) (embed_all out (length (bq_batch s))),
      bq_count := length (bq_batch s), bq_batch := [], bq_phase := Settling k\<rparr>"
    by (simp_all add: embed_worker_def split: if_splits)
  have "\<forall>w \<in> set (bq_work s'). request_ok (fst w) \<and> (\<forall>v. snd w = Inr v \<longrightarrow> E (er_content (fst w)) v)"
    using results_ok [OF _ o] ok by (fastforce simp: s' system_ok_def)
  with ok show ?thesis by (auto simp: system_ok_def work_ok_def s')
next
  case Settle
  then obtain k r x ws where k: "bq_phase s = Settling k" "bq_work s = (r, x) # ws"
    using st by (cases "bq_phase s"; cases "bq_work s") auto
  with Settle st have s': "s' = s\<lparr>bq_world := settle_request r x (bq_world s), bq_work := ws,
      bq_settled := bq_settled s @ [r]\<rparr>" by (simp add: embed_worker_def)
  have "request_ok r" "\<And>v. x = Inr v \<Longrightarrow> E (er_content r) v"
    using ok k by (auto simp: system_ok_def work_ok_def)
  with ok settle_ok [of "bq_world s" E r x] k show ?thesis
    by (auto simp: system_ok_def work_ok_def s')
next
  case SettleDone
  with ok st show ?thesis
    by (cases "bq_phase s"; cases "bq_work s") (auto simp: system_ok_def work_ok_def)
qed (use ok st in \<open>(cases "bq_chan s"; auto simp: system_ok_def work_ok_def Let_def split: if_splits)\<close>)+

lemma system_run:
  "bq_run (embed_worker E cfg) ls s = Some s' \<Longrightarrow> list_all (label_ok E) ls \<Longrightarrow> system_ok E s \<Longrightarrow> system_ok E s'"
  by (induction ls arbitrary: s) (auto simp: system_step split: bind_splits)

section \<open>Properties\<close>

text \<open>In every interleaving of producers, worker and lifecycle operations the requests are settled
  in the order in which they were accepted, none lost or duplicated; the gauge counts the requests
  that are being sent, queued, batched or in the running flush; a worker that returned has settled
  everything.\<close>

theorem queue_conserves_requests:
  assumes "bq_reach cfg w s"
  shows "bq_accepted s = bq_settled s @ map fst (bq_work s) @ bq_batch s @ bq_chan s \<and>
    bq_pending s = of_nat (length (bq_inflight s) + length (bq_chan s) + length (bq_batch s) + bq_count s) \<and>
    length (bq_work s) \<le> bq_count s \<and>
    (bq_phase s = Stopped \<longrightarrow> bq_settled s = bq_accepted s \<and> bq_pending s = of_nat (length (bq_inflight s)))"
proof -
  have inv: "bq_inv s" using assms by (rule bq_reach_inv)
  then have "length (bq_work s) \<le> bq_count s" by (cases "bq_phase s") (simp_all add: bq_inv_def)
  with inv show ?thesis by (cases "bq_phase s") (auto simp: bq_inv_def)
qed

text \<open>C2. Shutdown ends: from any reachable state in which the worker has closed the channel, every
  continuation, whatever producers and clients do in between, has at most \<open>drain_cost\<close> further
  worker steps, and a worker that has no step left has returned with every accepted request
  settled.\<close>

theorem shutdown_drains:
  assumes "bq_reach (embed_worker E cfg) w s" "\<not> bq_open s"
    and "bq_run (embed_worker E cfg) ls s = Some s'"
  shows "length (filter worker_label ls) \<le> drain_cost s \<and>
    ((\<forall>l. worker_label l \<longrightarrow> bq_step (embed_worker E cfg) l s' = None) \<longrightarrow>
      bq_phase s' = Stopped \<and> bq_chan s' = [] \<and> bq_settled s' = bq_accepted s' \<and>
      bq_pending s' = of_nat (length (bq_inflight s')))"
proof -
  have inv: "bq_inv s" using assms(1) by (rule bq_reach_inv)
  note d = drain_run [OF assms(3) inv assms(2)]
  have inv': "bq_inv s'" using assms(3) inv by (rule bq_run_inv)
  have res: "\<exists>out xs. bc_results (embed_worker E cfg) b out = Some xs \<and> length b \<le> length xs" for b
    by (rule exI [of _ "RemoteError []"]) (simp add: embed_worker_def all_failed_def pad_to_def)
  have "bq_phase s' = Stopped" if stuck: "\<forall>l. worker_label l \<longrightarrow> bq_step (embed_worker E cfg) l s' = None"
  proof (rule ccontr)
    assume "bq_phase s' \<noteq> Stopped"
    from drain_progress [OF inv' conjunct1 [OF d] this res] stuck show False by auto
  qed
  with d inv' show ?thesis by (auto simp: bq_inv_def)
qed

text \<open>C23. Starting from a store whose vectors are current, every reachable store again has, for every
  live chunk with a vector, a vector of the chunk's present content, whatever lifecycle operations
  interleave with queueing, embedding and publishing.\<close>

theorem vectors_match_content:
  assumes "store_ok st" "vectors_current E st" "list_all (label_ok E) ls"
    and "bq_run (embed_worker E cfg) ls (bq_init st) = Some s"
    and "get_chunk (bq_world s) i = Inr (Some c)" "ch_deleted_at c = None"
    and "kv_get (st_emb (bq_world s)) i = Some v"
  shows "E (ch_content c) v"
proof -
  have "system_ok E (bq_init st)" using assms(1,2) by (simp add: system_ok_def bq_init_def work_ok_def)
  with assms(3,4) have "vectors_current E (bq_world s)" using system_run by (auto simp: system_ok_def)
  with assms(5-7) show ?thesis unfolding vectors_current_def live_content_Some by blast
qed

text \<open>An entity extraction queue configured with a batch size, a token bound or a flush interval of
  zero settles nothing: its worker never polls the channel and never sees the shutdown signal.\<close>

theorem zero_config_stalls:
  assumes "xec_batch_size cfg = 0 \<or> xec_max_tokens_per_batch cfg = 0 \<or> xec_flush_interval_secs cfg = 0"
    and "bq_reach (extract_worker base cfg) w s"
  shows "bq_settled s = [] \<and> bq_phase s = Collecting \<and>
    (\<forall>l. worker_label l \<longrightarrow> bq_step (extract_worker base cfg) l s = None)"
proof -
  have np: "never_polls (extract_worker base cfg)"
    using assms(1) by (auto simp: never_polls_def extract_worker_def extract_full_def batch_tokens_def)
  note r = never_polls_reach [OF assms(2) np]
  then have "\<not> polls (extract_worker base cfg) s" using np by (auto simp: polls_def never_polls_def)
  then have "bq_step (extract_worker base cfg) l s = None" if "worker_label l" for l
    using that r by (cases l) simp_all
  with r show ?thesis by blast
qed


text \<open>Witnesses: a queue over the store with one source chunk; its embedder measures length.\<close>

definition w_E :: "string \<Rightarrow> vec \<Rightarrow> bool" where
  "w_E t v \<longleftrightarrow> v = [length t]"

definition w_cfg :: embed_cfg where
  "w_cfg = embed_worker w_E default_embedding_queue_config"

definition w_req :: embed_request where
  "w_req = \<lparr>er_target = \<lparr>et_id = w_id, et_content = ''text'', et_generation = None\<rparr>,
     er_chunk_id = w_id, er_content = ''text''\<rparr>"

definition w_labels :: "(embed_request, embed_outcome, life_op) bq_label list" where
  "w_labels = [Count w_req, Send w_req, Recv, Timeout, Results (LocalBatch [Inr [4]]), Settle, SettleDone,
     Signal, BeginDrain]"

lemma w_req_content [simp]: "er_content w_req = ''text''"
  by (simp add: w_req_def)

lemma w_admitted: "request_admitted (w_store w_source) w_req"
proof -
  have "get_chunk (w_store w_source) w_id = Inr (Some w_source)" by simp
  moreover have "kv_get (st_db (w_store w_source)) (generation_key w_id) = None"
    by (simp add: w_store_def)
  ultimately show ?thesis
    by (simp add: request_admitted_def embedding_target_of_def w_req_def w_source_def w_chunk_def)
qed

lemma w_settle: "settle_request w_req (Inr [4]) (w_store w_source) = write_embedding (w_store w_source) w_id [4]"
proof -
  have "get_chunk (w_store w_source) w_id = Inr (Some w_source)" by simp
  moreover have "kv_get (st_db (w_store w_source)) (generation_key w_id) = None"
    by (simp add: w_store_def)
  ultimately show ?thesis
    by (simp add: settle_request_def store_embedding_if_current_def w_req_def w_source_def w_chunk_def)
qed

lemma w_run:
  "\<exists>s. bq_run w_cfg w_labels (bq_init (w_store w_source)) = Some s \<and> \<not> bq_open s \<and>
     bq_world s = write_embedding (w_store w_source) w_id [4] \<and> bq_phase s = Draining \<and>
     bq_settled s = [w_req] \<and> bq_chan s = [] \<and> drain_cost s = 4"
  by (simp add: w_labels_def w_cfg_def embed_worker_def bq_init_def w_admitted polls_def w_settle
      default_embedding_queue_config_def pad_to_def w_E_def drain_cost_def)

lemma w_reach: "bq_run w_cfg ls (bq_init (w_store w_source)) = Some s \<Longrightarrow> bq_reach w_cfg (w_store w_source) s"
  by (rule bq_run_reach [OF bq_reach.init])

theorem queue_conserves_requests_witness:
  "\<exists>s. bq_reach w_cfg (w_store w_source) s \<and> bq_accepted s = [w_req] \<and> bq_pending s = 0"
proof -
  obtain s where s: "bq_run w_cfg w_labels (bq_init (w_store w_source)) = Some s" "bq_settled s = [w_req]" "bq_chan s = []"
      "bq_phase s = Draining" "drain_cost s = 4"
    using w_run by blast
  then have "bq_batch s = []" "bq_work s = []" by (simp_all add: drain_cost_def)
  note r = w_reach [OF s(1)]
  have "bq_count s = 0" using bq_reach_inv [OF r] s(4) by (simp add: bq_inv_def)
  have "bq_inflight s = []" using s(1)
    by (auto simp: w_labels_def w_cfg_def embed_worker_def bq_init_def w_admitted polls_def w_settle
      default_embedding_queue_config_def pad_to_def w_E_def)
  with queue_conserves_requests [OF r] s r \<open>bq_batch s = []\<close> \<open>bq_work s = []\<close> \<open>bq_count s = 0\<close>
  show ?thesis by auto
qed

theorem shutdown_drains_witness:
  "\<exists>s s'. bq_reach w_cfg (w_store w_source) s \<and> bq_run w_cfg [DrainEnd] s = Some s' \<and>
     bq_phase s' = Stopped \<and> bq_settled s' = bq_accepted s'"
proof -
  obtain s where s: "bq_run w_cfg w_labels (bq_init (w_store w_source)) = Some s" "\<not> bq_open s"
      "bq_chan s = []" "bq_phase s = Draining" "drain_cost s = 4"
    using w_run by blast
  then have b: "bq_batch s = []" by (simp add: drain_cost_def)
  let ?s' = "s\<lparr>bq_phase := Stopped\<rparr>"
  have run: "bq_run w_cfg [DrainEnd] s = Some ?s'" using s b by (simp add: final_flush_def)
  have "bq_step w_cfg l ?s' = None" if "worker_label l" for l
    using that by (cases l) (simp_all add: polls_def)
  with shutdown_drains [OF _ s(2), of w_E default_embedding_queue_config "w_store w_source" "[DrainEnd]" ?s']
    w_reach [OF s(1)] run
  show ?thesis unfolding w_cfg_def by metis
qed

theorem vectors_match_content_witness:
  "\<exists>s. bq_run w_cfg w_labels (bq_init (w_store w_source)) = Some s \<and>
     kv_get (st_emb (bq_world s)) w_id = Some [4] \<and> w_E (ch_content w_source) [4]"
proof -
  obtain s where s: "bq_run w_cfg w_labels (bq_init (w_store w_source)) = Some s"
      "bq_world s = write_embedding (w_store w_source) w_id [4]"
    using w_run by blast
  have c: "get_chunk (bq_world s) w_id = Inr (Some w_source)" "ch_deleted_at w_source = None"
    using get_chunk_cong [of "bq_world s" "w_store w_source" w_id]
    by (simp_all add: s(2) write_embedding_def w_source_def w_chunk_def)
  have e: "kv_get (st_emb (bq_world s)) w_id = Some [4]" by (simp add: s(2) write_embedding_view)
  have "vectors_current w_E (w_store w_source)" by (simp add: vectors_current_def w_store_def)
  moreover have "list_all (label_ok w_E) w_labels" by (simp add: w_labels_def label_ok_def)
  ultimately show ?thesis
    using vectors_match_content [OF w_store_ok _ _ _ c e] s(1) e unfolding w_cfg_def by blast
qed

definition w_base :: "(unit, unit extract_request, unit, unit, unit) bq_config" where
  "w_base = \<lparr>bc_capacity = 1, bc_interval = 1, bc_full = (\<lambda>b. False), bc_admit = (\<lambda>w r. True),
     bc_results = (\<lambda>b y. Some (map (\<lambda>r. ()) b)), bc_settle = (\<lambda>r x w. w), bc_client = (\<lambda>op w. w)\<rparr>"

theorem zero_config_stalls_witness:
  "bq_step (extract_worker w_base (default_entity_extraction_config\<lparr>xec_batch_size := 0\<rparr>)) BeginDrain
     ((bq_init ())\<lparr>bq_signal := True\<rparr>) = None"
proof -
  let ?cfg = "default_entity_extraction_config\<lparr>xec_batch_size := 0\<rparr>"
  have "bq_reach (extract_worker w_base ?cfg) () ((bq_init ())\<lparr>bq_signal := True\<rparr>)"
    by (rule bq_reach.step [OF bq_reach.init, of _ Signal]) (simp add: bq_init_def)
  note z = zero_config_stalls [OF _ this]
  have "worker_label (BeginDrain :: (unit extract_request, unit, unit) bq_label)" by simp
  with z show ?thesis by (simp del: bq_step.simps)
qed

end
