(* ===== verification/RateLimiter.thy ===== *)
theory RateLimiter
  imports Prelude
begin

text \<open>
  The token-bucket rate limiter (\<^verbatim>\<open>loomem-server/src/rate_limiter.rs\<close>): the categories of HTTP
  requests and MCP tools, the check of one operation, and the middleware. The \<^verbatim>\<open>f64\<close> token counts
  are rationals, so rounding is not modelled. A call reads the clock twice, for the elapsed time and
  for the time of the refill; both readings are arguments, in seconds.
\<close>

section \<open>Categories\<close>

datatype op_category = Search | Store | Delete

datatype http_method = GET | POST | PUT | DELETE | OtherMethod

definition categorize_http :: "http_method \<Rightarrow> string \<Rightarrow> op_category option" where
  "categorize_http m path =
     (if m = DELETE \<and> starts_with path ''/api/memories/'' then Some Delete
      else if m \<noteq> POST then None
      else if path \<in> {''/v1/search'', ''/v1/ambient'', ''/v1/context-pack''} then Some Search
      else if path \<in> {''/v1/store'', ''/v1/associate'', ''/v1/feedback''} then Some Store
      else if path \<in> {''/v1/delete'', ''/v1/purge-namespace'', ''/v1/dream'', ''/v1/dream/trigger''} then Some Delete
      else if starts_with path ''/v1/purge/'' \<or>
              (starts_with path ''/api/namespace/'' \<and> ends_with path ''/purge'') then Some Delete
      else None)"

definition categorize_mcp_tool :: "string \<Rightarrow> op_category option" where
  "categorize_mcp_tool tool =
     (if tool \<in> {''memory_search'', ''memory_context'', ''memory_graph'', ''memory_profile'',
                 ''memory_history'', ''memory_reflect''} then Some Search
      else if tool \<in> {''memory_store'', ''memory_ingest'', ''memory_associate'', ''memory_feedback''} then Some Store
      else if tool \<in> {''memory_delete'', ''memory_dream''} then Some Delete
      else None)"

section \<open>The limiter\<close>

record bucket_state =
  bs_tokens :: rat
  bs_last_refill :: rat

record rate_limit_config =
  rl_enabled :: bool
  rl_search_rpm :: nat
  rl_store_rpm :: nat
  rl_delete_rpm :: nat

record rate_limiter =
  rl_buckets :: "string \<rightharpoonup> (string \<rightharpoonup> bucket_state)"
  rl_config :: rate_limit_config

definition default_rate_limit_config :: rate_limit_config where
  "default_rate_limit_config =
     \<lparr>rl_enabled = False, rl_search_rpm = 120, rl_store_rpm = 60, rl_delete_rpm = 10\<rparr>"

definition new_limiter :: "rate_limit_config \<Rightarrow> rate_limiter" where
  "new_limiter cfg = \<lparr>rl_buckets = Map.empty, rl_config = cfg\<rparr>"

fun limit_of :: "rate_limit_config \<Rightarrow> op_category \<Rightarrow> nat \<times> string" where
  "limit_of cfg Search = (rl_search_rpm cfg, ''search'')"
| "limit_of cfg Store = (rl_store_rpm cfg, ''store'')"
| "limit_of cfg Delete = (rl_delete_rpm cfg, ''delete'')"

text \<open>\<^verbatim>\<open>f64 as u64\<close> saturates: a limit of zero divides by zero and gives the greatest value.\<close>

definition retry_after :: "nat \<Rightarrow> rat \<Rightarrow> nat" where
  "retry_after rpm tokens =
     max 1 (if rpm = 0 then u64_max else nat \<lceil>(1 - tokens) / (of_nat rpm / 60)\<rceil>)"

definition refill :: "nat \<Rightarrow> rat \<Rightarrow> bucket_state \<Rightarrow> rat" where
  "refill rpm t b =
     min (bs_tokens b + max 0 (t - bs_last_refill b) * (of_nat rpm / 60)) (of_nat rpm)"

definition check :: "rat \<Rightarrow> rat \<Rightarrow> string \<Rightarrow> op_category \<Rightarrow> rate_limiter \<Rightarrow> (nat + unit) \<times> rate_limiter" where
  "check t t' stream op rl =
     (if \<not> rl_enabled (rl_config rl) then (Inr (), rl)
      else
        let (rpm, key) = limit_of (rl_config rl) op;
            ws = (case rl_buckets rl stream of None \<Rightarrow> Map.empty | Some m \<Rightarrow> m);
            b = (case ws key of None \<Rightarrow> \<lparr>bs_tokens = of_nat rpm, bs_last_refill = t\<rparr> | Some b \<Rightarrow> b);
            tokens = refill rpm t b;
            upd = (\<lambda>b'. rl\<lparr>rl_buckets := (rl_buckets rl)(stream \<mapsto> ws(key \<mapsto> b'))\<rparr>)
        in if 1 \<le> tokens
           then (Inr (), upd \<lparr>bs_tokens = tokens - 1, bs_last_refill = t'\<rparr>)
           else (Inl (retry_after rpm tokens), upd \<lparr>bs_tokens = tokens, bs_last_refill = t'\<rparr>))"

section \<open>The middleware\<close>

record request =
  rq_method :: http_method
  rq_path :: string
  rq_auth_stream :: "string option"

datatype limited = Forward | TooManyRequests nat

definition DEFAULT_STREAM_ID :: string where
  "DEFAULT_STREAM_ID = ''__user_default__''"

definition rate_limit_middleware :: "rat \<Rightarrow> rat \<Rightarrow> request \<Rightarrow> rate_limiter \<Rightarrow> limited \<times> rate_limiter" where
  "rate_limit_middleware t t' rq rl =
     (case categorize_http (rq_method rq) (rq_path rq) of
        None \<Rightarrow> (Forward, rl)
      | Some op \<Rightarrow>
          let stream = (case rq_auth_stream rq of None \<Rightarrow> DEFAULT_STREAM_ID | Some s \<Rightarrow> s);
              (r, rl') = check t t' stream op rl
          in case r of Inr u \<Rightarrow> (Forward, rl') | Inl secs \<Rightarrow> (TooManyRequests secs, rl'))"

section \<open>One bucket\<close>

definition bucket_of :: "rate_limiter \<Rightarrow> string \<Rightarrow> op_category \<Rightarrow> bucket_state option" where
  "bucket_of rl stream op =
     Option.bind (rl_buckets rl stream) (\<lambda>ws. ws (snd (limit_of (rl_config rl) op)))"

text \<open>The tokens a bucket has at a time; a bucket that does not exist yet is full.\<close>

definition available :: "rate_limiter \<Rightarrow> string \<Rightarrow> op_category \<Rightarrow> rat \<Rightarrow> rat" where
  "available rl stream op t =
     (let rpm = fst (limit_of (rl_config rl) op)
      in case bucket_of rl stream op of None \<Rightarrow> of_nat rpm | Some b \<Rightarrow> refill rpm t b)"

lemma limit_key_inj: "snd (limit_of cfg op) = snd (limit_of cfg op') \<longleftrightarrow> op = op'"
  by (cases op; cases op') simp_all

lemma check_config [simp]: "rl_config (snd (check t t' stream op rl)) = rl_config rl"
  by (simp add: check_def Let_def split: prod.split)

lemma check_other:
  assumes "(stream', op') \<noteq> (stream, op)"
  shows "bucket_of (snd (check t t' stream op rl)) stream' op' = bucket_of rl stream' op'"
  using assms limit_key_inj [of "rl_config rl" op' op]
  by (auto simp: check_def bucket_of_def Let_def split: prod.split option.split)

lemma check_same:
  assumes "rl_enabled (rl_config rl)"
  shows "fst (check t t' stream op rl) =
      (if 1 \<le> available rl stream op t then Inr ()
       else Inl (retry_after (fst (limit_of (rl_config rl) op)) (available rl stream op t))) \<and>
    bucket_of (snd (check t t' stream op rl)) stream op =
      Some \<lparr>bs_tokens = available rl stream op t - (if 1 \<le> available rl stream op t then 1 else 0),
            bs_last_refill = t'\<rparr>"
proof -
  obtain rpm key where l: "limit_of (rl_config rl) op = (rpm, key)" by force
  have full: "refill rpm t \<lparr>bs_tokens = of_nat rpm, bs_last_refill = t\<rparr> = of_nat rpm"
    by (simp add: refill_def)
  show ?thesis
    using assms full
    by (auto simp: check_def bucket_of_def available_def l Let_def split: option.splits)
qed

definition limiter_ok :: "rate_limiter \<Rightarrow> bool" where
  "limiter_ok rl \<longleftrightarrow> (\<forall>stream op b. bucket_of rl stream op = Some b \<longrightarrow> 0 \<le> bs_tokens b)"

lemma limiter_ok_available: "limiter_ok rl \<Longrightarrow> 0 \<le> available rl stream op t"
  by (auto simp: limiter_ok_def available_def refill_def Let_def split: option.split)

lemma limiter_ok_check:
  assumes "limiter_ok rl"
  shows "limiter_ok (snd (check t t' stream op rl))"
proof (cases "rl_enabled (rl_config rl)")
  case True
  show ?thesis
    unfolding limiter_ok_def
  proof (intro allI impI)
    fix s o' b
    assume b: "bucket_of (snd (check t t' stream op rl)) s o' = Some b"
    show "0 \<le> bs_tokens b"
    proof (cases "(s, o') = (stream, op)")
      case False
      with b check_other assms show ?thesis unfolding limiter_ok_def by metis
    next
      case same: True
      with b check_same [OF True, of t t' stream op] limiter_ok_available [OF assms, of stream op t]
      show ?thesis by auto
    qed
  qed
qed (use assms in \<open>simp add: check_def\<close>)

lemma available_le: "available rl stream op t \<le> of_nat (fst (limit_of (rl_config rl) op))"
  by (simp add: available_def refill_def Let_def split: option.split)

lemma refill_mono:
  assumes "t \<le> t'"
  shows "refill rpm t' b \<le> refill rpm t b + (t' - t) * (of_nat rpm / 60)"
proof -
  define r where "r = (of_nat rpm / 60 :: rat)"
  have "max 0 (t' - bs_last_refill b) * r \<le> (max 0 (t - bs_last_refill b) + (t' - t)) * r"
    using assms by (intro mult_right_mono) (auto simp: r_def)
  moreover have "0 \<le> (t' - t) * r" using assms by (simp add: r_def)
  ultimately show ?thesis
    unfolding refill_def r_def [symmetric] by (simp add: algebra_simps min_def)
qed

lemma available_mono:
  assumes "t \<le> t'"
  shows "available rl stream op t' \<le> available rl stream op t + (t' - t) * (of_nat (fst (limit_of (rl_config rl) op)) / 60)"
  using assms refill_mono [OF assms] by (simp add: available_def Let_def split: option.split)

section \<open>Runs\<close>

record call =
  cl_time :: rat
  cl_refill_time :: rat
  cl_stream :: string
  cl_op :: op_category

fun run_calls :: "call list \<Rightarrow> rate_limiter \<Rightarrow> (call \<times> (nat + unit)) list" where
  "run_calls [] rl = []"
| "run_calls (c # cs) rl =
     (let (r, rl') = check (cl_time c) (cl_refill_time c) (cl_stream c) (cl_op c) rl
      in (c, r) # run_calls cs rl')"

text \<open>The clock never goes back, within a call and from one call to the next.\<close>

fun in_order :: "rat \<Rightarrow> call list \<Rightarrow> rat \<Rightarrow> bool" where
  "in_order t0 [] t1 \<longleftrightarrow> t0 \<le> t1"
| "in_order t0 (c # cs) t1 \<longleftrightarrow>
     t0 \<le> cl_time c \<and> cl_time c \<le> cl_refill_time c \<and> in_order (cl_refill_time c) cs t1"

definition of_key :: "string \<Rightarrow> op_category \<Rightarrow> call \<Rightarrow> bool" where
  "of_key stream op c \<longleftrightarrow> cl_stream c = stream \<and> cl_op c = op"

definition allowed :: "string \<Rightarrow> op_category \<Rightarrow> (call \<times> (nat + unit)) list \<Rightarrow> nat" where
  "allowed stream op rs = length (filter (\<lambda>(c, r). of_key stream op c \<and> r = Inr ()) rs)"

lemma in_order_le: "in_order t0 cs t1 \<Longrightarrow> t0 \<le> t1"
  by (induction cs arbitrary: t0) (auto, fastforce)

text \<open>Right after a call its bucket holds what it held at the call, less the token of an admitted one.\<close>

lemma available_after:
  assumes "rl_enabled (rl_config rl)"
  shows "available (snd (check t t' stream op rl)) stream op t' \<le>
    available rl stream op t - (if fst (check t t' stream op rl) = Inr () then 1 else 0)"
  using check_same [OF assms, of t t' stream op]
  by (auto simp: available_def [of "snd (check t t' stream op rl)"] refill_def Let_def)

lemma available_other:
  assumes "(stream', op') \<noteq> (stream, op)"
  shows "available (snd (check t t' stream op rl)) stream' op' s = available rl stream' op' s"
  by (simp add: available_def check_other [OF assms])

lemma allowed_bound:
  "rl_enabled (rl_config rl) \<Longrightarrow> in_order t0 cs t1 \<Longrightarrow> rate = of_nat (fst (limit_of (rl_config rl) op)) / 60 \<Longrightarrow>
     of_nat (allowed stream op (run_calls cs rl)) \<le> max 0 (available rl stream op t0) + (t1 - t0) * rate"
proof (induction cs arbitrary: rl t0)
  case Nil
  then have "0 \<le> (t1 - t0) * rate" by simp
  then show ?case by (simp add: allowed_def)
next
  case (Cons c cs)
  let ?t = "cl_time c" and ?t' = "cl_refill_time c"
  obtain r rl' where ck: "check ?t ?t' (cl_stream c) (cl_op c) rl = (r, rl')" by force
  have cfg: "rl_config rl' = rl_config rl" using check_config [of ?t ?t' "cl_stream c" "cl_op c" rl] by (simp add: ck)
  have ord: "t0 \<le> ?t" "?t \<le> ?t'" "in_order ?t' cs t1" using Cons.prems(2) by simp_all
  have IH: "of_nat (allowed stream op (run_calls cs rl')) \<le> max 0 (available rl' stream op ?t') + (t1 - ?t') * rate"
    using Cons.IH [OF _ ord(3), of rl'] Cons.prems(1,3) by (simp only: cfg)
  define hit where "hit = (if of_key stream op c \<and> r = Inr () then 1 else 0 :: rat)"
  have cnt: "of_nat (allowed stream op (run_calls (c # cs) rl)) = hit + of_nat (allowed stream op (run_calls cs rl'))"
    by (simp add: allowed_def ck hit_def)
  have rate: "0 \<le> (?t' - ?t) * rate" using Cons.prems(3) ord(2) by simp
  have step: "max 0 (available rl' stream op ?t') + hit \<le> max 0 (available rl stream op ?t) + (?t' - ?t) * rate"
  proof (cases "of_key stream op c")
    case True
    then have k: "cl_stream c = stream" "cl_op c = op" by (simp_all add: of_key_def)
    note a = available_after [OF Cons.prems(1), of ?t ?t' stream op]
    have "1 \<le> available rl stream op ?t" if "r = Inr ()"
      using check_same [OF Cons.prems(1), of ?t ?t' stream op] ck k that by (auto split: if_splits)
    with a ck k rate True show ?thesis by (auto simp: hit_def)
  next
    case False
    then have "available rl' stream op ?t' = available rl stream op ?t'"
      using available_other [of stream op "cl_stream c" "cl_op c" ?t ?t' rl ?t'] ck by (auto simp: of_key_def)
    moreover have "available rl stream op ?t' \<le> available rl stream op ?t + (?t' - ?t) * rate"
      unfolding Cons.prems(3) by (rule available_mono [OF ord(2)])
    ultimately show ?thesis using False rate by (simp only: hit_def simp_thms if_False)
  qed
  have "available rl stream op ?t \<le> available rl stream op t0 + (?t - t0) * rate"
    unfolding Cons.prems(3) by (rule available_mono [OF ord(1)])
  moreover have "0 \<le> (?t - t0) * rate" using Cons.prems(3) ord(1) by simp
  ultimately have "max 0 (available rl stream op ?t) \<le> max 0 (available rl stream op t0) + (?t - t0) * rate" by simp
  with IH cnt step show ?case by (simp add: algebra_simps)
qed

lemma retry_after_enough:
  assumes "0 < rpm" "0 \<le> tokens" "tokens < 1"
  shows "1 \<le> retry_after rpm tokens \<and> retry_after rpm tokens \<le> 60 \<and>
    1 \<le> tokens + of_nat (retry_after rpm tokens) * (of_nat rpm / 60)"
proof -
  define r where "r = (of_nat rpm / 60 :: rat)"
  define w where "w = (1 - tokens) / r"
  have r: "1 / 60 \<le> r" using assms(1) by (simp add: r_def)
  then have pos: "0 < r" by (rule less_le_trans [rotated]) simp
  have w0: "0 < w" using assms(3) pos by (simp add: w_def)
  have "w \<le> 1 / r" using assms(2) pos by (simp add: w_def divide_right_mono)
  also have "\<dots> \<le> 60" using r pos by (simp add: field_simps)
  finally have "\<lceil>w\<rceil> \<le> 60" by (simp add: ceiling_le_iff)
  then have "nat \<lceil>w\<rceil> \<le> 60" by linarith
  then have "retry_after rpm tokens \<le> 60"
    using assms(1) by (simp add: retry_after_def r_def [symmetric] w_def [symmetric])
  moreover have "w \<le> of_nat (retry_after rpm tokens)"
    using assms(1) w0 by (simp add: retry_after_def r_def [symmetric] w_def [symmetric]) linarith
  then have "1 - tokens \<le> of_nat (retry_after rpm tokens) * r" using pos by (simp add: w_def divide_le_eq)
  ultimately show ?thesis by (simp add: r_def retry_after_def)
qed

lemma new_limiter_ok: "limiter_ok (new_limiter cfg)"
  by (simp add: limiter_ok_def bucket_of_def new_limiter_def)

text \<open>The limiter after a run, and what a run leaves alone.\<close>

fun final_limiter :: "call list \<Rightarrow> rate_limiter \<Rightarrow> rate_limiter" where
  "final_limiter [] rl = rl"
| "final_limiter (c # cs) rl =
     final_limiter cs (snd (check (cl_time c) (cl_refill_time c) (cl_stream c) (cl_op c) rl))"

lemma final_limiter_facts:
  "rl_config (final_limiter cs rl) = rl_config rl \<and> (limiter_ok rl \<longrightarrow> limiter_ok (final_limiter cs rl))"
  by (induction cs arbitrary: rl) (simp_all add: limiter_ok_check)

lemma final_limiter_other:
  "\<forall>c \<in> set cs. \<not> of_key stream op c \<Longrightarrow> bucket_of (final_limiter cs rl) stream op = bucket_of rl stream op"
  by (induction cs arbitrary: rl) (auto simp: of_key_def intro!: check_other)

lemma check_cong:
  assumes "rl_config rl = rl_config rl'" "bucket_of rl stream op = bucket_of rl' stream op"
  shows "fst (check t t' stream op rl) = fst (check t t' stream op rl') \<and>
    bucket_of (snd (check t t' stream op rl)) stream op = bucket_of (snd (check t t' stream op rl')) stream op"
proof (cases "rl_enabled (rl_config rl)")
  case True
  then show ?thesis
    using check_same [of rl t t' stream op] check_same [of rl' t t' stream op] assms by (simp add: available_def)
qed (use assms in \<open>simp add: check_def\<close>)

lemma run_isolated:
  "rl_config rl = rl_config rl' \<Longrightarrow> bucket_of rl stream op = bucket_of rl' stream op \<Longrightarrow>
     filter (\<lambda>cr. of_key stream op (fst cr)) (run_calls cs rl) = run_calls (filter (of_key stream op) cs) rl'"
proof (induction cs arbitrary: rl rl')
  case (Cons c cs)
  let ?ck = "check (cl_time c) (cl_refill_time c) (cl_stream c) (cl_op c)"
  show ?case
  proof (cases "of_key stream op c")
    case True
    then show ?thesis
      using Cons.IH [of "snd (?ck rl)" "snd (?ck rl')"] Cons.prems
        check_cong [OF Cons.prems, of "cl_time c" "cl_refill_time c"]
      by (auto simp: of_key_def split: prod.split)
  next
    case False
    then have "bucket_of (snd (?ck rl)) stream op = bucket_of rl stream op"
      by (intro check_other) (auto simp: of_key_def)
    with Cons.prems have b: "bucket_of (snd (?ck rl)) stream op = bucket_of rl' stream op" by simp
    have "rl_config (snd (?ck rl)) = rl_config rl'" using Cons.prems(1) by simp
    from Cons.IH [OF this b] False show ?thesis by (simp add: Let_def split_beta)
  qed
qed simp

section \<open>Properties\<close>

text \<open>C25. In every window the number of admitted operations of a stream and category is at most one
  burst of a minute plus what the rate allows in the window, whatever happened before and whatever
  other calls interleave.\<close>

theorem admissions_bounded:
  assumes "rl_enabled (rl_config rl)" "in_order t0 cs t1"
  shows "of_nat (allowed stream op (run_calls cs rl)) \<le>
    (1 + (t1 - t0) / 60) * of_nat (fst (limit_of (rl_config rl) op))"
proof -
  let ?m = "of_nat (fst (limit_of (rl_config rl) op)) :: rat"
  have "max 0 (available rl stream op t0) \<le> ?m" using available_le [of rl stream op t0] by simp
  with allowed_bound [OF assms refl, of stream op] show ?thesis by (simp add: algebra_simps)
qed

text \<open>Streams and categories do not influence each other: the answers a stream gets for a category
  are those it would get if it were alone.\<close>

theorem streams_isolated:
  "filter (\<lambda>cr. of_key stream op (fst cr)) (run_calls cs (new_limiter cfg)) =
     run_calls (filter (of_key stream op) cs) (new_limiter cfg)"
  by (rule run_isolated) simp_all

text \<open>C26. A refused call names a waiting time of 1 to 60 seconds, and the next call of its stream and
  category is admitted when it comes after that time, whatever other streams and categories do in
  between.\<close>

theorem retry_after_suffices:
  assumes "rl_enabled cfg" "0 < fst (limit_of cfg op)"
    and "rl = final_limiter cs (new_limiter cfg)" "check t t' stream op rl = (Inl secs, rl1)"
    and "\<forall>d \<in> set ds. \<not> of_key stream op d" "t' + of_nat secs \<le> u"
  shows "1 \<le> secs \<and> secs \<le> 60 \<and> fst (check u u' stream op (final_limiter ds rl1)) = Inr ()"
proof -
  have ok: "limiter_ok rl" "rl_config rl = cfg"
    unfolding assms(3) using final_limiter_facts [of cs "new_limiter cfg"] new_limiter_ok
    by (auto simp: new_limiter_def)
  let ?rpm = "fst (limit_of cfg op)" and ?a = "available rl stream op t" and ?rl2 = "final_limiter ds rl1"
  have en: "rl_enabled (rl_config rl)" using assms(1) ok by simp
  note c = check_same [OF en, of t t' stream op, unfolded assms(4) ok(2)]
  then have a: "?a < 1" "secs = retry_after ?rpm ?a" by (auto split: if_splits)
  note w = retry_after_enough [OF assms(2) limiter_ok_available [OF ok(1)] a(1)]
  have cfg2: "rl_config ?rl2 = cfg" and b2: "bucket_of ?rl2 stream op = bucket_of rl1 stream op"
    using final_limiter_other [OF assms(5)] final_limiter_facts check_config [of t t' stream op rl] assms(4) ok(2)
    by auto
  have b1: "bucket_of rl1 stream op = Some \<lparr>bs_tokens = ?a, bs_last_refill = t'\<rparr>" using c a by simp
  have "of_nat secs * (of_nat ?rpm / 60) \<le> (u - t') * (of_nat ?rpm / 60 :: rat)"
    using assms(6) by (intro mult_right_mono) auto
  also have "\<dots> \<le> max 0 (u - t') * (of_nat ?rpm / 60)" by (intro mult_right_mono) auto
  finally have "1 \<le> ?a + max 0 (u - t') * (of_nat ?rpm / 60)" using w a(2) by simp
  moreover have "(1 :: rat) \<le> of_nat ?rpm" using assms(2) by simp
  ultimately have "1 \<le> available ?rl2 stream op u"
    by (simp add: available_def [of ?rl2] b2 b1 cfg2 refill_def Let_def)
  moreover have "rl_enabled (rl_config ?rl2)" using assms(1) cfg2 by simp
  ultimately show ?thesis using check_same [of ?rl2 u u' stream op] w a(2) by simp
qed

text \<open>Witnesses.\<close>

definition w_limits :: rate_limit_config where
  "w_limits = \<lparr>rl_enabled = True, rl_search_rpm = 1, rl_store_rpm = 60, rl_delete_rpm = 10\<rparr>"

theorem admissions_bounded_witness:
  "of_nat (allowed ''s'' Search (run_calls [\<lparr>cl_time = 0, cl_refill_time = 1, cl_stream = ''s'', cl_op = Search\<rparr>]
     (new_limiter w_limits))) \<le> (1 + (30 - 0) / 60) * (1 :: rat)"
  using admissions_bounded [of "new_limiter w_limits" 0
      "[\<lparr>cl_time = 0, cl_refill_time = 1, cl_stream = ''s'', cl_op = Search\<rparr>]" 30 "''s''" Search]
  by (simp add: new_limiter_def w_limits_def)

theorem retry_after_suffices_witness:
  "\<exists>rl1. check 10 10 ''s'' Search (final_limiter [\<lparr>cl_time = 0, cl_refill_time = 0, cl_stream = ''s'', cl_op = Search\<rparr>]
       (new_limiter w_limits)) = (Inl 50, rl1) \<and> fst (check 60 60 ''s'' Search rl1) = Inr ()"
proof -
  let ?rl = "final_limiter [\<lparr>cl_time = 0, cl_refill_time = 0, cl_stream = ''s'', cl_op = Search\<rparr>] (new_limiter w_limits)"
  have "\<exists>rl1. check 10 10 ''s'' Search ?rl = (Inl 50, rl1)"
    by (simp add: check_def new_limiter_def w_limits_def refill_def retry_after_def)
  then obtain rl1 where c: "check 10 10 ''s'' Search ?rl = (Inl 50, rl1)" ..
  from retry_after_suffices [OF _ _ refl c, of "[]" 60 60] c show ?thesis by (simp add: w_limits_def)
qed

end
