(* ===== verification/Sha256.thy ===== *)
theory Sha256
  imports Prelude "HOL-Library.Word"
begin

text \<open>
  The SHA-256 and base64url routines that the OAuth layer carries itself
  (\<^verbatim>\<open>loomem-server/src/oauth.rs\<close>): 32-bit words with wrap-around, bytes as characters.
\<close>

unbundle bit_operations_syntax

section \<open>The digest\<close>

type_synonym w32 = "32 word"

text \<open>The constants of the standard; the round constants, hexadecimal in the source, are in decimal here.\<close>

definition sha_h0 :: "w32 list" where
  "sha_h0 = [0x6a09e667, 0xbb67ae85, 0x3c6ef372, 0xa54ff53a, 0x510e527f, 0x9b05688c, 0x1f83d9ab,
     0x5be0cd19]"

definition sha_k :: "w32 list" where
  "sha_k = [
     1116352408, 1899447441, 3049323471, 3921009573, 961987163, 1508970993, 2453635748,
     2870763221, 3624381080, 310598401, 607225278, 1426881987, 1925078388, 2162078206,
     2614888103, 3248222580, 3835390401, 4022224774, 264347078, 604807628, 770255983, 1249150122,
     1555081692, 1996064986, 2554220882, 2821834349, 2952996808, 3210313671, 3336571891,
     3584528711, 113926993, 338241895, 666307205, 773529912, 1294757372, 1396182291, 1695183700,
     1986661051, 2177026350, 2456956037, 2730485921, 2820302411, 3259730800, 3345764771,
     3516065817, 3600352804, 4094571909, 275423344, 430227734, 506948616, 659060556, 883997877,
     958139571, 1322822218, 1537002063, 1747873779, 1955562222, 2024104815, 2227730452,
     2361852424, 2428436474, 2756734187, 3204031479, 3329325298]"

text \<open>\<^verbatim>\<open>to_be_bytes\<close> of a word of n bytes.\<close>

definition be_bytes :: "nat \<Rightarrow> 'a::len word \<Rightarrow> string" where
  "be_bytes n w = map (\<lambda>k. char_of (unat (drop_bit (8 * k) w AND 255))) (rev [0..<n])"

lemma pad_measure:
  assumes "m < 64" "m \<noteq> 56"
  shows "(120 - (if m = 63 then 0 else Suc m)) mod 64 < (120 - m) mod (64 :: nat)"
proof (cases "m \<le> 55")
  case True
  have sub: "(64 + k) mod 64 = k" if "k < 64" for k :: nat using that by simp
  from True have e: "120 - m = 64 + (56 - m)" "120 - Suc m = 64 + (55 - m)" by arith+
  have "(120 - m) mod 64 = 56 - m" unfolding e(1) by (rule sub) simp
  moreover have "(120 - Suc m) mod 64 = 55 - m" unfolding e(2) by (rule sub) simp
  moreover have "m \<noteq> 63" using True by arith
  ultimately show ?thesis using True by (simp only: if_False)
next
  case False
  with assms show ?thesis by (cases "m = 63") simp_all
qed

function pad_zeros :: "string \<Rightarrow> string" where
  "pad_zeros msg = (if length msg mod 64 \<noteq> 56 then pad_zeros (msg @ [char_of (0 :: nat)]) else msg)"
  by pat_completeness auto

termination
proof (relation "measure (\<lambda>msg. (120 - length msg mod 64) mod 64)")
  fix msg :: string
  assume "length msg mod 64 \<noteq> 56"
  moreover have "length (msg @ [char_of (0 :: nat)]) mod 64 =
      (if length msg mod 64 = 63 then 0 else Suc (length msg mod 64))"
    by (simp add: mod_Suc)
  ultimately show "(msg @ [char_of (0 :: nat)], msg) \<in> measure (\<lambda>msg. (120 - length msg mod 64) mod 64)"
    unfolding in_measure using pad_measure [of "length msg mod 64"] by (simp only:) simp
qed simp

declare pad_zeros.simps [simp del]

definition sha_pad :: "string \<Rightarrow> string" where
  "sha_pad bytes =
     pad_zeros (bytes @ [char_of (0x80 :: nat)]) @ be_bytes 8 ((of_nat (length bytes) :: 64 word) * 8)"

definition be_word :: "string \<Rightarrow> w32" where
  "be_word bs = foldl (\<lambda>w b. push_bit 8 w OR of_char b) 0 bs"

definition block_words :: "string \<Rightarrow> w32 list" where
  "block_words b = map (\<lambda>i. be_word (take 4 (drop (4 * i) b))) [0..<16]"

definition extend_word :: "w32 list \<Rightarrow> w32" where
  "extend_word w =
     (let i = length w;
          s0 = word_rotr 7 (w ! (i - 15)) XOR word_rotr 18 (w ! (i - 15)) XOR drop_bit 3 (w ! (i - 15));
          s1 = word_rotr 17 (w ! (i - 2)) XOR word_rotr 19 (w ! (i - 2)) XOR drop_bit 10 (w ! (i - 2))
      in w ! (i - 16) + s0 + w ! (i - 7) + s1)"

fun schedule :: "nat \<Rightarrow> w32 list \<Rightarrow> w32 list" where
  "schedule 0 w = w"
| "schedule (Suc n) w = schedule n (w @ [extend_word w])"

type_synonym sha_vars = "w32 \<times> w32 \<times> w32 \<times> w32 \<times> w32 \<times> w32 \<times> w32 \<times> w32"

fun sha_round :: "w32 \<times> w32 \<Rightarrow> sha_vars \<Rightarrow> sha_vars" where
  "sha_round (ki, wi) (a, b, c, d, e, f, g, hh) =
     (let s1 = word_rotr 6 e XOR word_rotr 11 e XOR word_rotr 25 e;
          ch = (e AND f) XOR (NOT e AND g);
          temp1 = hh + s1 + ch + ki + wi;
          s0 = word_rotr 2 a XOR word_rotr 13 a XOR word_rotr 22 a;
          maj = (a AND b) XOR (a AND c) XOR (b AND c);
          temp2 = s0 + maj
      in (temp1 + temp2, a, b, c, d + temp1, e, f, g))"

fun vars_of :: "w32 list \<Rightarrow> sha_vars" where
  "vars_of [a, b, c, d, e, f, g, hh] = (a, b, c, d, e, f, g, hh)"
| "vars_of _ = (0, 0, 0, 0, 0, 0, 0, 0)"

fun add_vars :: "w32 list \<Rightarrow> sha_vars \<Rightarrow> w32 list" where
  "add_vars h (a, b, c, d, e, f, g, hh) = map2 (+) h [a, b, c, d, e, f, g, hh]"

definition sha_block :: "w32 list \<Rightarrow> string \<Rightarrow> w32 list" where
  "sha_block h b =
     add_vars h (fold sha_round (zip sha_k (schedule 48 (block_words b))) (vars_of h))"

function chunks_of :: "nat \<Rightarrow> string \<Rightarrow> string list" where
  "chunks_of n bs = (if n = 0 \<or> bs = [] then [] else take n bs # chunks_of n (drop n bs))"
  by pat_completeness auto

termination by (relation "measure (\<lambda>(n, bs). length bs)") auto

declare chunks_of.simps [simp del]

fun sha_blocks :: "w32 list \<Rightarrow> string list \<Rightarrow> w32 list" where
  "sha_blocks h [] = h"
| "sha_blocks h (b # bs) = sha_blocks (sha_block h b) bs"

definition sha256_digest :: "string \<Rightarrow> string" where
  "sha256_digest bytes = concat (map (be_bytes 4) (sha_blocks sha_h0 (chunks_of 64 (sha_pad bytes))))"

section \<open>Base64url without padding\<close>

definition b64_chars :: string where
  "b64_chars = ''ABCDEFGHIJKLMNOPQRSTUVWXYZabcdefghijklmnopqrstuvwxyz0123456789-_''"

definition encode_chunk3 :: "string \<Rightarrow> string" where
  "encode_chunk3 ch =
     (let b0 = of_char (ch ! 0) :: w32;
          b1 = (if length ch > 1 then of_char (ch ! 1) else 0 :: w32);
          b2 = (if length ch > 2 then of_char (ch ! 2) else 0 :: w32);
          n = push_bit 16 b0 OR push_bit 8 b1 OR b2;
          digit = (\<lambda>k. b64_chars ! unat (drop_bit k n AND 63))
      in [digit 18, digit 12] @
         (if length ch > 1 then [digit 6] else []) @
         (if length ch > 2 then [digit 0] else []))"

definition base64_url_encode :: "string \<Rightarrow> string" where
  "base64_url_encode bytes = concat (map encode_chunk3 (chunks_of 3 bytes))"

section \<open>Shapes\<close>

lemma be_bytes_length [simp]: "length (be_bytes n w) = n"
  by (simp add: be_bytes_def)

lemma pad_zeros_length:
  "length (pad_zeros msg) mod 64 = 56 \<and> length msg \<le> length (pad_zeros msg) \<and>
     length (pad_zeros msg) < length msg + 64"
proof (induction msg rule: pad_zeros.induct)
  case (1 msg)
  show ?case
  proof (cases "length msg mod 64 = 56")
    case True
    then show ?thesis by (simp add: pad_zeros.simps [of msg])
  next
    case False
    let ?m = "msg @ [char_of (0 :: nat)]"
    have IH: "length (pad_zeros ?m) mod 64 = 56" "length ?m \<le> length (pad_zeros ?m)"
        "length (pad_zeros ?m) < length ?m + 64"
      using 1 [OF False] by simp_all
    have eq: "pad_zeros msg = pad_zeros ?m" using False by (simp add: pad_zeros.simps [of msg])
    have "length (pad_zeros ?m) \<noteq> length msg + 64"
    proof
      assume e: "length (pad_zeros ?m) = length msg + 64"
      have "length msg mod 64 = (length msg + 64) mod 64" by simp
      then show False using IH(1) False e by simp
    qed
    with IH show ?thesis unfolding eq by simp
  qed
qed

lemma sha_pad_length: "length (sha_pad bytes) mod 64 = 0 \<and> length (sha_pad bytes) < length bytes + 73"
  using pad_zeros_length [of "bytes @ [char_of (0x80 :: nat)]"]
  by (simp add: sha_pad_def) (simp add: mod_eq_dvd_iff mod_simps mod_Suc flip: mod_add_left_eq)

lemma sha_block_length:
  assumes "length h = 8"
  shows "length (sha_block h b) = 8"
proof -
  obtain a b' c d e f g hh where "fold sha_round (zip sha_k (schedule 48 (block_words b))) (vars_of h) =
      (a, b', c, d, e, f, g, hh)" by (metis surj_pair)
  with assms show ?thesis by (simp add: sha_block_def)
qed

lemma sha256_length: "length (sha256_digest bytes) = 32"
proof -
  have "length (sha_blocks h bs) = 8" if "length h = 8" for h bs
    using that by (induction h bs rule: sha_blocks.induct) (simp_all add: sha_block_length)
  from this [of sha_h0] have "length (sha_blocks sha_h0 (chunks_of 64 (sha_pad bytes))) = 8"
    by (simp add: sha_h0_def)
  then show ?thesis by (simp add: sha256_digest_def length_concat o_def sum_list_triv)
qed

section \<open>The encoding is injective\<close>

lemma b64_chars_props: "length b64_chars = 64" "distinct b64_chars"
  by code_simp+

lemma bit_byte: "bit (of_char c :: w32) i \<longleftrightarrow> i < 8 \<and> bit (of_char c :: nat) i"
  by (cases c) (simp only: of_char_Char bit_horner_sum_bit_iff possible_bit_word possible_bit_nat, auto)

lemma byte_high: "bit (of_char c :: nat) i \<Longrightarrow> i < 8"
  by (cases c) (simp only: of_char_Char bit_horner_sum_bit_iff, simp)

lemma byte_eqI: "(\<And>i. i < 8 \<Longrightarrow> bit (of_char c :: w32) i = bit (of_char d :: w32) i) \<Longrightarrow> c = d"
proof -
  assume eq: "\<And>i. i < 8 \<Longrightarrow> bit (of_char c :: w32) i = bit (of_char d :: w32) i"
  have "bit (of_char c :: nat) i = bit (of_char d :: nat) i" for i
  proof (cases "i < 8")
    case True
    with eq [of i] show ?thesis by (simp add: bit_byte)
  next
    case False
    then show ?thesis using byte_high by blast
  qed
  then have "(of_char c :: nat) = of_char d" by (simp add: bit_eq_iff)
  then show "c = d" by simp
qed

text \<open>The three bytes of a group, as the 24 bits that are cut into four digits.\<close>

definition group_word :: "string \<Rightarrow> w32" where
  "group_word ch = push_bit 16 (of_char (ch ! 0)) OR
     push_bit 8 (if length ch > 1 then of_char (ch ! 1) else 0) OR
     (if length ch > 2 then of_char (ch ! 2) else 0)"

lemma digit_eq:
  assumes "b64_chars ! unat (drop_bit k (n :: w32) AND 63) = b64_chars ! unat (drop_bit k (m :: w32) AND 63)"
  shows "j < 6 \<Longrightarrow> k + j < 32 \<Longrightarrow> bit n (k + j) = bit m (k + j)"
proof -
  have lt: "unat (w AND 63) < 64" for w :: w32
    by (rule le_less_trans [OF word_le_nat_alt [THEN iffD1, OF word_and_le1]]) simp
  have "unat (drop_bit k n AND 63) = unat (drop_bit k m AND 63)"
    using assms nth_eq_iff_index_eq [OF b64_chars_props(2), unfolded b64_chars_props(1), OF lt lt] by (simp only:)
  then have eq: "drop_bit k n AND 63 = drop_bit k m AND 63" by (simp only: word_unat_eq_iff)
  have m: "(63 :: w32) = mask 6" by (simp add: mask_eq_exp_minus_1)
  assume "j < 6" "k + j < 32"
  then have "bit (drop_bit k n AND 63) j = bit n (k + j)" "bit (drop_bit k m AND 63) j = bit m (k + j)"
    unfolding m by (simp_all add: bit_and_iff bit_drop_bit_eq bit_mask_iff)
  with eq show "bit n (k + j) = bit m (k + j)" by simp
qed

lemma group_bits:
  "i < 8 \<Longrightarrow> bit (group_word ch) (16 + i) = bit (of_char (ch ! 0) :: w32) i"
  "i < 8 \<Longrightarrow> length ch > 1 \<Longrightarrow> bit (group_word ch) (8 + i) = bit (of_char (ch ! 1) :: w32) i"
  "i < 8 \<Longrightarrow> length ch > 2 \<Longrightarrow> bit (group_word ch) i = bit (of_char (ch ! 2) :: w32) i"
  by (auto simp: group_word_def bit_or_iff bit_push_bit_iff bit_byte)

lemma encode_chunk3_inj:
  assumes "encode_chunk3 a = encode_chunk3 b" "length a = length b" "0 < length a" "length a \<le> 3"
  shows "a = b"
proof -
  let ?d = "\<lambda>ch k. b64_chars ! unat (drop_bit k (group_word ch) AND 63)"
  have enc: "encode_chunk3 ch = [?d ch 18, ?d ch 12] @ (if length ch > 1 then [?d ch 6] else []) @
      (if length ch > 2 then [?d ch 0] else [])" for ch
    by (simp add: encode_chunk3_def group_word_def Let_def)
  have d: "?d a 18 = ?d b 18" "?d a 12 = ?d b 12" "length a > 1 \<Longrightarrow> ?d a 6 = ?d b 6"
      "length a > 2 \<Longrightarrow> ?d a 0 = ?d b 0"
    using assms(1,2) unfolding enc by (auto split: if_splits)
  have hi: "bit (group_word a) j = bit (group_word b) j" if "12 \<le> j" "j < 24" for j
    using digit_eq [OF d(1), of "j - 18"] digit_eq [OF d(2), of "j - 12"] that by (cases "j < 18") auto
  have mid: "bit (group_word a) j = bit (group_word b) j" if "length a > 1" "6 \<le> j" "j < 12" for j
    using digit_eq [OF d(3) [OF that(1)], of "j - 6"] that by auto
  have lo: "bit (group_word a) j = bit (group_word b) j" if "length a > 2" "j < 6" for j
    using digit_eq [OF d(4) [OF that(1)], of j] that by auto
  have "a ! 0 = b ! 0"
  proof (rule byte_eqI)
    fix i :: nat assume "i < 8"
    then show "bit (of_char (a ! 0) :: w32) i = bit (of_char (b ! 0) :: w32) i"
      using hi [of "16 + i"] by (simp add: group_bits(1))
  qed
  moreover have "a ! 1 = b ! 1" if l: "length a > 1"
  proof (rule byte_eqI)
    fix i :: nat assume "i < 8"
    moreover from this have "bit (group_word a) (8 + i) = bit (group_word b) (8 + i)"
      using hi [of "8 + i"] mid [OF l, of "8 + i"] by (cases "i < 4") simp_all
    ultimately show "bit (of_char (a ! 1) :: w32) i = bit (of_char (b ! 1) :: w32) i"
      using l assms(2) by (simp add: group_bits(2))
  qed
  moreover have "a ! 2 = b ! 2" if l: "length a > 2"
  proof (rule byte_eqI)
    fix i :: nat assume "i < 8"
    moreover from this have "bit (group_word a) i = bit (group_word b) i"
      using lo [OF l, of i] mid [of i] l by (cases "i < 6") simp_all
    ultimately show "bit (of_char (a ! 2) :: w32) i = bit (of_char (b ! 2) :: w32) i"
      using l assms(2) by (simp add: group_bits(3))
  qed
  ultimately have eqs: "a ! 0 = b ! 0" "1 < length a \<Longrightarrow> a ! 1 = b ! 1" "2 < length a \<Longrightarrow> a ! 2 = b ! 2"
    by blast+
  show "a = b"
  proof (rule nth_equalityI [OF assms(2)])
    fix i assume i: "i < length a"
    with assms(4) consider "i = 0" | "i = 1" | "i = 2" by linarith
    then show "a ! i = b ! i" using eqs i by cases simp_all
  qed
qed

lemma encode_chunk3_length: "length (encode_chunk3 ch) = 2 + (if length ch > 1 then 1 else 0) + (if length ch > 2 then 1 else 0)"
  by (simp add: encode_chunk3_def Let_def)

lemma base64_url_inj:
  "length a = length b \<Longrightarrow> base64_url_encode a = base64_url_encode b \<Longrightarrow> a = b"
proof (induction "3 :: nat" a arbitrary: b rule: chunks_of.induct)
  case (1 a)
  show ?case
  proof (cases "a = []")
    case True
    with 1 show ?thesis by simp
  next
    case False
    then have b: "b \<noteq> []" using 1 by auto
    have e: "base64_url_encode x = encode_chunk3 (take 3 x) @ base64_url_encode (drop 3 x)" if "x \<noteq> []" for x
      using that by (simp add: base64_url_encode_def chunks_of.simps [of 3 x])
    have "length (encode_chunk3 (take 3 a)) = length (encode_chunk3 (take 3 b))"
      using 1(2) by (simp add: encode_chunk3_length)
    with 1(3) e [OF False] e [OF b] have
      "encode_chunk3 (take 3 a) = encode_chunk3 (take 3 b)" "base64_url_encode (drop 3 a) = base64_url_encode (drop 3 b)"
      by simp_all
    moreover from this(2) have "drop 3 a = drop 3 b" using 1(1) 1(2) False by simp
    moreover from calculation(1) have "take 3 a = take 3 b"
      by (rule encode_chunk3_inj) (use 1(2) False in auto)
    ultimately show ?thesis by (metis append_take_drop_id)
  qed
qed

section \<open>The reference vector of RFC 7636\<close>

text \<open>The verifier and the challenge of appendix B.\<close>

definition rfc_verifier :: string where
  "rfc_verifier = ''dBjftJeZ4CVP-mB92K27uhbUJU1p1r_wW1gFWFOEjXk''"

definition rfc_challenge :: string where
  "rfc_challenge = ''E9Melhoa2OwvFrEMTJguCHaoeK1t8URWbuGJSstw-cM''"

text \<open>The one block of the padded verifier, its message schedule, the states after every sixteen rounds.\<close>

definition rfc_block :: "w32 list" where
  "rfc_block = [0x64426a66, 0x744a655a, 0x34435650, 0x2d6d4239, 0x324b3237, 0x75686255, 0x4a553170,
     0x31725f77, 0x57316746, 0x57464f45, 0x6a586b80, 0x00000000, 0x00000000, 0x00000000,
     0x00000000, 0x00000158]"

definition rfc_schedule :: "w32 list" where
  "rfc_schedule = [0x64426a66, 0x744a655a, 0x34435650, 0x2d6d4239, 0x324b3237, 0x75686255, 0x4a553170,
     0x31725f77, 0x57316746, 0x57464f45, 0x6a586b80, 0x00000000, 0x00000000, 0x00000000,
     0x00000000, 0x00000158, 0xdebfff1e, 0x529eb250, 0x5c17ab5f, 0x61840399, 0x0ff0f46e,
     0x9c927f20, 0x2e9fd00f, 0x601fb3c3, 0xcf74ffa5, 0xfa5f7db5, 0xabf1f284, 0x6143ca29,
     0x63cabc1a, 0xcae99c8a, 0x1a0c431f, 0xa708befd, 0x896d69b3, 0xa7065756, 0x153f345e,
     0x87b18342, 0x24df652b, 0x9814cf93, 0x9a156151, 0x5543dd87, 0x3ef201e5, 0x058dba5a,
     0x20c5a06e, 0x8842aa76, 0xcbfcc2d1, 0x9308d9c4, 0x2860b3b7, 0x8a4c7073, 0x0b1dfca2,
     0xf17b3ce3, 0xd47354e8, 0xd918b9c8, 0x809b01b9, 0xf4839538, 0xf890d1bd, 0x664309e0,
     0x7d70d392, 0x701975e9, 0xc407f962, 0x278f4fa1, 0x7162c1cf, 0x21781d6f, 0xb1a7c041,
     0x4f2c7543]"

definition rfc_state1 :: sha_vars where
  "rfc_state1 = (0x2636c9eb, 0x0f51dcfb, 0x4826cb01, 0x32aab199, 0x20439d95, 0xe3416844, 0x5d3c5179,
     0x635978c7)"

definition rfc_state2 :: sha_vars where
  "rfc_state2 = (0xa6ce96b6, 0x36c01f35, 0xb26c118a, 0x0fd1fb46, 0xab27c8f8, 0x860da135, 0xa64887f5,
     0x5d69cd54)"

definition rfc_state3 :: sha_vars where
  "rfc_state3 = (0xffd45bc1, 0xcc981851, 0x81f4b546, 0xa7cf2ecb, 0x44dc0dd1, 0x17c3c981, 0x82282f2f,
     0xba21464d)"

definition rfc_state4 :: sha_vars where
  "rfc_state4 = (0xa9c9382f, 0x5eb32a67, 0xf2a7bd9a, 0xa74838ce, 0x259a262e, 0xd2ebdbca, 0x4f5daf9f,
     0x6f902caa)"

definition rfc_final :: "w32 list" where
  "rfc_final = [0x13d31e96, 0x1a1ad8ec, 0x2f16b10c, 0x4c982e08, 0x76a878ad, 0x6df14456, 0x6ee1894a,
     0xcb70f9c3]"

lemma rfc_block_words: "map block_words (chunks_of 64 (sha_pad rfc_verifier)) = [rfc_block]"
  by code_simp

lemma rfc_schedule_words: "schedule 48 rfc_block = rfc_schedule"
  by code_simp

lemma rfc_rounds1: "fold sha_round (take 16 (zip sha_k rfc_schedule)) (vars_of sha_h0) = rfc_state1"
  by code_simp

lemma rfc_rounds2: "fold sha_round (take 16 (drop 16 (zip sha_k rfc_schedule))) (rfc_state1) = rfc_state2"
  by code_simp

lemma rfc_rounds3: "fold sha_round (take 16 (drop 32 (zip sha_k rfc_schedule))) (rfc_state2) = rfc_state3"
  by code_simp

lemma rfc_rounds4: "fold sha_round (take 16 (drop 48 (zip sha_k rfc_schedule))) (rfc_state3) = rfc_state4"
  by code_simp

lemma rfc_added: "add_vars sha_h0 rfc_state4 = rfc_final"
  by code_simp

lemma rfc_encoded: "base64_url_encode (concat (map (be_bytes 4) rfc_final)) = rfc_challenge"
  by code_simp

lemma rfc_split: "zip sha_k rfc_schedule = take 16 (zip sha_k rfc_schedule) @
    take 16 (drop 16 (zip sha_k rfc_schedule)) @ take 16 (drop 32 (zip sha_k rfc_schedule)) @
    take 16 (drop 48 (zip sha_k rfc_schedule))"
  by code_simp

lemma rfc7636_vector: "base64_url_encode (sha256_digest rfc_verifier) = rfc_challenge"
proof -
  obtain b where b: "chunks_of 64 (sha_pad rfc_verifier) = [b]" "block_words b = rfc_block"
    using rfc_block_words by auto
  have "fold sha_round (zip sha_k rfc_schedule) (vars_of sha_h0) = rfc_state4"
    by (subst rfc_split) (simp only: fold_append o_apply rfc_rounds1 rfc_rounds2 rfc_rounds3 rfc_rounds4)
  then have "sha_block sha_h0 b = rfc_final"
    by (simp only: sha_block_def b(2) rfc_schedule_words rfc_added)
  then show ?thesis by (simp only: sha256_digest_def b(1) sha_blocks.simps rfc_encoded)
qed

end
