(* ===== verification/OAuth.thy ===== *)
theory OAuth
  imports Sha256 Utf8 Chunks "HOL-Library.AList"
begin

text \<open>
  The OAuth layer of the server (\<^verbatim>\<open>loomem-server/src/oauth.rs\<close>): dynamic client registration with
  a per-source rate limit and a bounded client store, the authorization endpoint, the exchange of
  an authorization code for the user's key under PKCE, and the string helpers. The three hash maps
  are association lists in their (unspecified) iteration order; an instant is a number of
  nanoseconds; drawn UUIDs and the parsing of an IP address are arguments.
\<close>

section \<open>State\<close>

record oauth_client =
  oc_client_id :: string
  oc_client_secret :: "string option"
  oc_redirect_uris :: "string list"
  oc_confidential :: bool
  oc_last_used :: nat
  oc_application_type :: string

record pending_auth =
  pa_code :: string
  pa_client_id :: string
  pa_redirect_uri :: string
  pa_api_key :: string
  pa_code_challenge :: "string option"
  pa_code_challenge_method :: "string option"
  pa_created_at :: nat

record oauth_state =
  os_clients :: "(string \<times> oauth_client) list"
  os_pending_auths :: "(string \<times> pending_auth) list"
  os_register_hits :: "(string \<times> nat \<times> nat) list"
  os_trust_forwarded_for :: bool
  os_server_origin :: string

definition MAX_OAUTH_CLIENTS :: nat where "MAX_OAUTH_CLIENTS = 1000"
definition EVICT_MIN_AGE_SECS :: nat where "EVICT_MIN_AGE_SECS = 600"
definition REGISTER_RATE_LIMIT :: nat where "REGISTER_RATE_LIMIT = 20"
definition REGISTER_RATE_WINDOW_SECS :: nat where "REGISTER_RATE_WINDOW_SECS = 60"

definition new_oauth :: "string \<Rightarrow> bool \<Rightarrow> oauth_state" where
  "new_oauth origin trusted =
     \<lparr>os_clients = [], os_pending_auths = [], os_register_hits = [],
      os_trust_forwarded_for = trusted, os_server_origin = origin\<rparr>"

text \<open>\<^verbatim>\<open>elapsed().as_secs()\<close>: whole seconds, zero for an instant in the future.\<close>

definition elapsed_secs :: "nat \<Rightarrow> nat \<Rightarrow> nat" where
  "elapsed_secs now t = (now - t) div 1000000000"

text \<open>One round of the background task.\<close>

definition cleanup :: "nat \<Rightarrow> oauth_state \<Rightarrow> oauth_state" where
  "cleanup now st =
     st\<lparr>os_pending_auths := filter (\<lambda>(_, v). elapsed_secs now (pa_created_at v) < 600) (os_pending_auths st),
        os_register_hits :=
          filter (\<lambda>(_, start, _). elapsed_secs now start < REGISTER_RATE_WINDOW_SECS) (os_register_hits st)\<rparr>"

section \<open>Validation helpers\<close>

definition validate_and_touch :: "nat \<Rightarrow> string \<Rightarrow> string \<Rightarrow> oauth_state \<Rightarrow> bool \<times> oauth_state" where
  "validate_and_touch now client_id redirect_uri st =
     (case map_of (os_clients st) client_id of
        Some c \<Rightarrow>
          if redirect_uri \<in> set (oc_redirect_uris c)
          then (True, st\<lparr>os_clients := AList.update client_id (c\<lparr>oc_last_used := now\<rparr>) (os_clients st)\<rparr>)
          else (False, st)
      | None \<Rightarrow> (False, st))"

definition pkce_authorize_ok :: "string option \<Rightarrow> string option \<Rightarrow> bool" where
  "pkce_authorize_ok challenge meth \<longleftrightarrow>
     (case challenge of None \<Rightarrow> False | Some c \<Rightarrow> c \<noteq> []) \<and> meth = Some ''S256''"

definition pkce_s256_matches :: "string \<Rightarrow> string \<Rightarrow> bool" where
  "pkce_s256_matches verifier challenge \<longleftrightarrow> base64_url_encode (sha256_digest verifier) = challenge"

datatype oauth_response =
    AuthorizeError string
  | LoginPage "(string \<times> string) list"
  | RedirectTo string
  | TokenError string string
  | TokenIssued string
  | RegisterError nat string
  | Registered string string "string list" string string
  | NoResponse

definition verify_client_secret :: "oauth_state \<Rightarrow> string \<Rightarrow> string option \<Rightarrow> oauth_response + unit" where
  "verify_client_secret st client_id presented =
     (case map_of (os_clients st) client_id of
        None \<Rightarrow> Inl (TokenError ''invalid_client'' ''unknown client'')
      | Some client \<Rightarrow>
          if \<not> oc_confidential client then Inr ()
          else if (case presented of None \<Rightarrow> [] | Some p \<Rightarrow> p) =
                  (case oc_client_secret client of None \<Rightarrow> [] | Some e \<Rightarrow> e) then Inr ()
          else Inl (TokenError ''invalid_client'' ''client authentication failed''))"

definition touch_client :: "nat \<Rightarrow> string \<Rightarrow> oauth_state \<Rightarrow> oauth_state" where
  "touch_client now client_id st =
     (case map_of (os_clients st) client_id of
        None \<Rightarrow> st
      | Some c \<Rightarrow> st\<lparr>os_clients := AList.update client_id (c\<lparr>oc_last_used := now\<rparr>) (os_clients st)\<rparr>)"

text \<open>The counter is a 32-bit number and wraps.\<close>

definition register_rate_ok :: "nat \<Rightarrow> string \<Rightarrow> oauth_state \<Rightarrow> bool \<times> oauth_state" where
  "register_rate_ok now ip st =
     (let (start, count) =
            (case map_of (os_register_hits st) ip of None \<Rightarrow> (now, 0) | Some e \<Rightarrow> e);
          (start', count') =
            (if elapsed_secs now start \<ge> REGISTER_RATE_WINDOW_SECS then (now, 0) else (start, count));
          count'' = Suc count' mod (u32_max + 1)
      in (count'' \<le> REGISTER_RATE_LIMIT,
          st\<lparr>os_register_hits := AList.update ip (start', count'') (os_register_hits st)\<rparr>))"

text \<open>The last entry of the forwarded header, when the proxy is trusted and the entry is an address.\<close>

definition register_rate_key :: "(string \<Rightarrow> string option) \<Rightarrow> bool \<Rightarrow> string option \<Rightarrow> string \<Rightarrow> string" where
  "register_rate_key parse_ip trusted forwarded peer =
     (case (if trusted
            then Option.bind forwarded (\<lambda>v. parse_ip (trim (last (split_on (CHR '','') v))))
            else None) of
        Some ip \<Rightarrow> ip
      | None \<Rightarrow> peer)"

section \<open>String helpers\<close>

definition hex_val :: "char \<Rightarrow> nat option" where
  "hex_val c =
     (let n = byte c
      in if 48 \<le> n \<and> n \<le> 57 then Some (n - 48)
         else if 97 \<le> n \<and> n \<le> 102 then Some (n - 97 + 10)
         else if 65 \<le> n \<and> n \<le> 70 then Some (n - 65 + 10)
         else None)"

fun percent_bytes :: "string \<Rightarrow> string" where
  "percent_bytes (c # h # l # rest) =
     (if c = CHR ''%'' then
        (case (hex_val h, hex_val l) of
           (Some a, Some b) \<Rightarrow> char_of (a * 16 + b) # percent_bytes rest
         | _ \<Rightarrow> c # percent_bytes (h # l # rest))
      else c # percent_bytes (h # l # rest))"
| "percent_bytes cs = cs"

definition percent_decode :: "string \<Rightarrow> string" where
  "percent_decode component = from_utf8_lossy (percent_bytes component)"

definition redirect_has_fragment :: "string \<Rightarrow> bool" where
  "redirect_has_fragment uri \<longleftrightarrow> CHR ''#'' \<in> set uri"

text \<open>The name of a parameter: what stands before its first equals sign.\<close>

definition param_name :: "string \<Rightarrow> string" where
  "param_name pair = hd (split_on (CHR ''='') pair)"

definition redirect_embeds_iss :: "string \<Rightarrow> bool" where
  "redirect_embeds_iss uri =
     (case split_once (CHR ''?'') uri of
        None \<Rightarrow> False
      | Some (_, query) \<Rightarrow>
          list_ex (\<lambda>pair. percent_decode (param_name pair) = ''iss'') (split_on (CHR ''&'') query))"

definition replace_char :: "char \<Rightarrow> string \<Rightarrow> string \<Rightarrow> string" where
  "replace_char d r s = concat (map (\<lambda>c. if c = d then r else [c]) s)"

definition html_escape :: "string \<Rightarrow> string" where
  "html_escape s =
     replace_char (CHR 0x27) ''&#39;''
       (replace_char (CHR 0x22) ''&quot;''
         (replace_char (CHR ''>'') ''&gt;''
           (replace_char (CHR ''<'') ''&lt;''
             (replace_char (CHR ''&'') ''&amp;'' s))))"

definition unreserved :: "char \<Rightarrow> bool" where
  "unreserved c \<longleftrightarrow>
     (let n = byte c
      in 65 \<le> n \<and> n \<le> 90 \<or> 97 \<le> n \<and> n \<le> 122 \<or> 48 \<le> n \<and> n \<le> 57 \<or>
         c \<in> {CHR ''-'', CHR ''_'', CHR ''.'', CHR ''~''})"

definition hex_digit :: "nat \<Rightarrow> char" where
  "hex_digit n = char_of (if n < 10 then 48 + n else 55 + n)"

definition urlencoding :: "string \<Rightarrow> string" where
  "urlencoding s =
     concat (map (\<lambda>c. if unreserved c then [c]
                      else [CHR ''%'', hex_digit (byte c div 16), hex_digit (byte c mod 16)]) s)"

section \<open>Requests and handlers\<close>

record register_request =
  rr_redirect_uris :: "string list option"
  rr_token_endpoint_auth_method :: "string option"
  rr_application_type :: "string option"

record authorize_query =
  aq_client_id :: string
  aq_redirect_uri :: string
  aq_state :: "string option"
  aq_code_challenge :: "string option"
  aq_code_challenge_method :: "string option"

record authorize_submit = authorize_query +
  as_api_key :: string

record token_request =
  tr_grant_type :: string
  tr_code :: "string option"
  tr_redirect_uri :: "string option"
  tr_client_id :: "string option"
  tr_client_secret :: "string option"
  tr_code_verifier :: "string option"

definition authorization_server_metadata :: "string \<Rightarrow> json" where
  "authorization_server_metadata origin =
     JObj [(''issuer'', JStr origin),
       (''authorization_endpoint'', JStr (origin @ ''/oauth/authorize'')),
       (''token_endpoint'', JStr (origin @ ''/oauth/token'')),
       (''registration_endpoint'', JStr (origin @ ''/oauth/register'')),
       (''response_types_supported'', JArr [JStr ''code'']),
       (''grant_types_supported'', JArr [JStr ''authorization_code'']),
       (''token_endpoint_auth_methods_supported'', JArr [JStr ''client_secret_post'', JStr ''none'']),
       (''code_challenge_methods_supported'', JArr [JStr ''S256'']),
       (''scopes_supported'', JArr [JStr ''mcp'']),
       (''authorization_response_iss_parameter_supported'', JBool True)]"

definition protected_resource_metadata :: "string \<Rightarrow> json" where
  "protected_resource_metadata origin =
     JObj [(''resource'', JStr origin), (''authorization_servers'', JArr [JStr origin]),
       (''bearer_methods_supported'', JArr [JStr ''header''])]"

text \<open>\<^verbatim>\<open>min_by_key\<close> keeps the first of equal minima.\<close>

definition lru_client :: "(string \<times> oauth_client) list \<Rightarrow> (string \<times> oauth_client) option" where
  "lru_client cs =
     (case cs of
        [] \<Rightarrow> None
      | x # xs \<Rightarrow>
          Some (foldl (\<lambda>m y. if oc_last_used (snd y) < oc_last_used (snd m) then y else m) x xs))"

text \<open>Room in the client store, by eviction if need be.\<close>

definition make_room :: "nat \<Rightarrow> (string \<times> oauth_client) list \<Rightarrow> (string \<times> oauth_client) list option" where
  "make_room now cs =
     (if length cs \<ge> MAX_OAUTH_CLIENTS
      then (case lru_client cs of
              Some (i, c) \<Rightarrow>
                if elapsed_secs now (oc_last_used c) \<ge> EVICT_MIN_AGE_SECS then Some (AList.delete i cs)
                else None
            | None \<Rightarrow> None)
      else Some cs)"

definition register ::
  "nat \<Rightarrow> string \<Rightarrow> register_request \<Rightarrow> string \<Rightarrow> string \<Rightarrow> oauth_state \<Rightarrow> oauth_response \<times> oauth_state" where
  "register now rate_key req client_id client_secret st0 =
     (let (ok, st) = register_rate_ok now rate_key st0;
          redirect_uris = (case rr_redirect_uris req of None \<Rightarrow> [] | Some us \<Rightarrow> us);
          auth_method =
            (case rr_token_endpoint_auth_method req of None \<Rightarrow> ''client_secret_post'' | Some m \<Rightarrow> m);
          application_type = (case rr_application_type req of None \<Rightarrow> ''web'' | Some t \<Rightarrow> t)
      in if \<not> ok then (RegisterError 429 ''temporarily_unavailable'', st)
         else if redirect_uris = [] then (RegisterError 400 ''invalid_redirect_uri'', st)
         else if auth_method \<noteq> ''client_secret_post'' \<and> auth_method \<noteq> ''none''
           then (RegisterError 400 ''invalid_client_metadata'', st)
         else if application_type \<noteq> ''web'' \<and> application_type \<noteq> ''native''
           then (RegisterError 400 ''invalid_client_metadata'', st)
         else (case make_room now (os_clients st) of
                 None \<Rightarrow> (RegisterError 429 ''temporarily_unavailable'', st)
               | Some cs \<Rightarrow>
                   (Registered client_id client_secret redirect_uris auth_method application_type,
                    st\<lparr>os_clients := AList.update client_id
                         \<lparr>oc_client_id = client_id, oc_client_secret = Some client_secret,
                          oc_redirect_uris = redirect_uris, oc_confidential = (auth_method \<noteq> ''none''),
                          oc_last_used = now, oc_application_type = application_type\<rparr> cs\<rparr>)))"

text \<open>The checks of both authorization endpoints, after the client was validated.\<close>

definition authorize_checks :: "'a authorize_query_scheme \<Rightarrow> string option" where
  "authorize_checks q =
     (if \<not> pkce_authorize_ok (aq_code_challenge q) (aq_code_challenge_method q)
      then Some ''PKCE required: send a code_challenge with code_challenge_method=S256''
      else if redirect_has_fragment (aq_redirect_uri q)
      then Some ''redirect_uri must not contain a fragment component''
      else if redirect_embeds_iss (aq_redirect_uri q)
      then Some ''redirect_uri must not embed the reserved iss response parameter''
      else None)"

definition authorize_error :: "string \<Rightarrow> oauth_response" where
  "authorize_error msg = AuthorizeError (html_escape msg)"

text \<open>The values that the login form carries as hidden fields.\<close>

definition authorize_page_html :: "authorize_query \<Rightarrow> oauth_response" where
  "authorize_page_html q =
     (let text_of = (\<lambda>v. html_escape (case v of None \<Rightarrow> [] | Some s \<Rightarrow> s))
      in LoginPage [(''client_id'', html_escape (aq_client_id q)),
           (''redirect_uri'', html_escape (aq_redirect_uri q)),
           (''state'', text_of (aq_state q)), (''code_challenge'', text_of (aq_code_challenge q)),
           (''code_challenge_method'', text_of (aq_code_challenge_method q))])"

definition authorize_page :: "nat \<Rightarrow> authorize_query \<Rightarrow> oauth_state \<Rightarrow> oauth_response \<times> oauth_state" where
  "authorize_page now q st0 =
     (let (ok, st) = validate_and_touch now (aq_client_id q) (aq_redirect_uri q) st0
      in if \<not> ok then (authorize_error ''redirect_uri is not registered for this client_id'', st)
         else (case authorize_checks q of
                 Some msg \<Rightarrow> (authorize_error msg, st)
               | None \<Rightarrow> (authorize_page_html q, st)))"

definition redirect_url :: "string \<Rightarrow> string \<Rightarrow> string option \<Rightarrow> string \<Rightarrow> string" where
  "redirect_url uri code state origin =
     uri @ (if CHR ''?'' \<in> set uri then ''&'' else ''?'') @ ''code='' @ urlencoding code @
     (case state of None \<Rightarrow> [] | Some s \<Rightarrow> if s = [] then [] else ''&state='' @ urlencoding s) @
     ''&iss='' @ urlencoding origin"

definition blank_to_none :: "string option \<Rightarrow> string option" where
  "blank_to_none v = (if v = Some [] then None else v)"

definition authorize_submit ::
  "nat \<Rightarrow> authorize_submit \<Rightarrow> string \<Rightarrow> oauth_state \<Rightarrow> oauth_response \<times> oauth_state" where
  "authorize_submit now form code st0 =
     (let (ok, st) = validate_and_touch now (aq_client_id form) (aq_redirect_uri form) st0
      in if \<not> ok then (authorize_error ''redirect_uri is not registered for this client_id'', st)
         else (case authorize_checks form of
                 Some msg \<Rightarrow> (authorize_error msg, st)
               | None \<Rightarrow>
                   (RedirectTo (redirect_url (aq_redirect_uri form) code (aq_state form) (os_server_origin st)),
                    st\<lparr>os_pending_auths := AList.update code
                         \<lparr>pa_code = code, pa_client_id = aq_client_id form,
                          pa_redirect_uri = aq_redirect_uri form, pa_api_key = as_api_key form,
                          pa_code_challenge = blank_to_none (aq_code_challenge form),
                          pa_code_challenge_method = blank_to_none (aq_code_challenge_method form),
                          pa_created_at = now\<rparr> (os_pending_auths st)\<rparr>)))"

definition redeem :: "nat \<Rightarrow> token_request \<Rightarrow> pending_auth \<Rightarrow> oauth_state \<Rightarrow> oauth_response \<times> oauth_state" where
  "redeem now req pending st =
     (if elapsed_secs now (pa_created_at pending) > 600
      then (TokenError ''invalid_grant'' ''code expired'', st)
      else if tr_client_id req \<noteq> Some (pa_client_id pending)
      then (TokenError ''invalid_grant'' ''client_id does not match the authorization code'', st)
      else if tr_redirect_uri req \<noteq> Some (pa_redirect_uri pending)
      then (TokenError ''invalid_grant'' ''redirect_uri does not match the authorization code'', st)
      else (case pa_code_challenge pending of
              None \<Rightarrow> (TokenError ''invalid_grant'' ''authorization code is missing its PKCE challenge'', st)
            | Some challenge \<Rightarrow>
                (case tr_code_verifier req of
                   None \<Rightarrow> (TokenError ''invalid_request'' ''missing code_verifier'', st)
                 | Some verifier \<Rightarrow>
                     if \<not> pkce_s256_matches verifier challenge
                     then (TokenError ''invalid_grant'' ''PKCE verification failed'', st)
                     else (case verify_client_secret st (pa_client_id pending) (tr_client_secret req) of
                             Inl resp \<Rightarrow> (resp, st)
                           | Inr _ \<Rightarrow>
                               (TokenIssued (pa_api_key pending),
                                touch_client now (pa_client_id pending) st)))))"

definition token :: "nat \<Rightarrow> token_request \<Rightarrow> oauth_state \<Rightarrow> oauth_response \<times> oauth_state" where
  "token now req st =
     (if tr_grant_type req \<noteq> ''authorization_code''
      then (TokenError ''unsupported_grant_type'' [], st)
      else (case tr_code req of
              None \<Rightarrow> (TokenError ''invalid_request'' ''missing code'', st)
            | Some code \<Rightarrow>
                (let st' = st\<lparr>os_pending_auths := AList.delete code (os_pending_auths st)\<rparr>
                 in case map_of (os_pending_auths st) code of
                      None \<Rightarrow> (TokenError ''invalid_grant'' ''unknown or expired code'', st')
                    | Some pending \<Rightarrow> redeem now req pending st')))"

section \<open>Runs\<close>

datatype oauth_event =
    EvRegister string register_request string string
  | EvAuthorizePage authorize_query
  | EvAuthorizeSubmit authorize_submit string
  | EvToken token_request
  | EvCleanup

fun oauth_step :: "nat \<Rightarrow> oauth_event \<Rightarrow> oauth_state \<Rightarrow> oauth_response \<times> oauth_state" where
  "oauth_step now (EvRegister key req i sec) st = register now key req i sec st"
| "oauth_step now (EvAuthorizePage q) st = authorize_page now q st"
| "oauth_step now (EvAuthorizeSubmit form code) st = authorize_submit now form code st"
| "oauth_step now (EvToken req) st = token now req st"
| "oauth_step now EvCleanup st = (NoResponse, cleanup now st)"

definition oauth_run :: "(nat \<times> oauth_event) list \<Rightarrow> oauth_state \<Rightarrow> oauth_state" where
  "oauth_run evs st = foldl (\<lambda>st (now, ev). snd (oauth_step now ev st)) st evs"

end
