(* ===== verification/OAuthProps.thy ===== *)
theory OAuthProps
  imports OAuth
begin

text \<open>
  Properties of the OAuth layer: what a token answer proves about the requests before it, the
  bounds of the client store, the form of the redirect, and the string helpers.
\<close>

section \<open>String helpers\<close>

lemma byte_hex_digit: "n < 16 \<Longrightarrow> byte (hex_digit n) = (if n < 10 then 48 + n else 55 + n)"
  by (simp add: hex_digit_def)

lemma hex_val_digit: "n < 16 \<Longrightarrow> hex_val (hex_digit n) = Some n"
  by (simp add: hex_val_def byte_hex_digit Let_def)

lemma byte_split: "char_of (byte c div 16 * 16 + byte c mod 16) = c"
  by (simp only: div_mult_mod_eq char_of_char)

lemma byte_nibble: "byte c div 16 < 16"
proof -
  have "byte c = byte c mod 256" by simp
  also have "\<dots> < 256" by (rule mod_less_divisor) simp
  finally show ?thesis using less_mult_imp_div_less [of "byte c" 16 16] by simp
qed

lemma percent_bytes_plain: "c \<noteq> CHR ''%'' \<Longrightarrow> percent_bytes (c # s) = c # percent_bytes s"
  by (cases s; cases "tl s") auto

lemma unreserved_plain: "unreserved c \<Longrightarrow> c \<notin> {CHR ''%'', CHR ''#'', CHR ''&'', CHR ''='', CHR ''?''}"
  by (auto simp: unreserved_def Let_def)

lemma percent_bytes_urlencoding: "percent_bytes (urlencoding s) = s"
proof (induction s)
  case (Cons c s)
  show ?case
  proof (cases "unreserved c")
    case True
    then have "c \<noteq> CHR ''%''" using unreserved_plain [of c] by blast
    with True Cons show ?thesis by (simp add: urlencoding_def percent_bytes_plain)
  next
    case False
    then show ?thesis
      using Cons byte_split [of c] by (simp add: urlencoding_def hex_val_digit byte_nibble)
  qed
qed (simp add: urlencoding_def)

lemma urlencoding_round_trip: "valid_utf8 s \<Longrightarrow> percent_decode (urlencoding s) = s"
  by (simp add: percent_decode_def percent_bytes_urlencoding from_utf8_lossy_valid)

lemma hex_digit_plain: "n < 16 \<Longrightarrow> hex_digit n \<notin> {CHR ''#'', CHR ''&'', CHR ''='', CHR ''?''}"
  using byte_hex_digit [of n] by (auto split: if_splits)

lemma urlencoding_plain: "d \<in> {CHR ''#'', CHR ''&'', CHR ''='', CHR ''?''} \<Longrightarrow> d \<notin> set (urlencoding s)"
proof (induction s)
  case (Cons c s)
  have "d \<noteq> c" if "unreserved c" using unreserved_plain [OF that] Cons.prems by blast
  moreover have "d \<noteq> hex_digit (byte c div 16)" "d \<noteq> hex_digit (byte c mod 16)" "d \<noteq> CHR ''%''"
    using hex_digit_plain [OF byte_nibble [of c]] hex_digit_plain [of "byte c mod 16"] Cons.prems by auto
  ultimately show ?case using Cons by (simp add: urlencoding_def)
qed (simp add: urlencoding_def)

lemma replace_char_set: "set (replace_char d r s) \<subseteq> (set s - {d}) \<union> set r"
  by (auto simp: replace_char_def)

lemma html_escape_safe:
  "CHR ''<'' \<notin> set (html_escape s) \<and> CHR ''>'' \<notin> set (html_escape s) \<and>
   CHR 0x22 \<notin> set (html_escape s) \<and> CHR 0x27 \<notin> set (html_escape s)"
  unfolding html_escape_def
  by (intro conjI notI; drule subsetD [OF replace_char_set]; simp;
      (drule subsetD [OF replace_char_set]; simp)+)

section \<open>Maps\<close>

lemma distinct_filter_keys: "distinct (map fst xs) \<Longrightarrow> distinct (map fst (filter P xs))"
  by (induction xs) auto

lemma map_of_filter_Some:
  "distinct (map fst xs) \<Longrightarrow> map_of (filter P xs) k = Some v \<Longrightarrow> map_of xs k = Some v"
  using distinct_filter_keys [of xs P] by (simp add: map_of_eq_Some_iff)

lemma oauth_run_snoc: "oauth_run (pre @ [(t, e)]) st = snd (oauth_step t e (oauth_run pre st))"
  by (simp add: oauth_run_def)

section \<open>Where a pending code comes from\<close>

lemma validate_keeps:
  "validate_and_touch now i u st = (ok, st') \<Longrightarrow>
     os_pending_auths st' = os_pending_auths st \<and> os_server_origin st' = os_server_origin st"
  by (auto simp: validate_and_touch_def split: option.splits if_splits)

lemma rate_keeps:
  "register_rate_ok now key st = (ok, st') \<Longrightarrow>
     os_pending_auths st' = os_pending_auths st \<and> os_clients st' = os_clients st \<and>
     os_server_origin st' = os_server_origin st"
  by (auto simp: register_rate_ok_def Let_def split: prod.splits)

lemma register_pending [simp]:
  "os_pending_auths (snd (register now key req i sec st)) = os_pending_auths st"
  by (cases "register_rate_ok now key st")
    (auto simp: register_def Let_def dest: rate_keeps split: option.split)

lemma page_pending [simp]: "os_pending_auths (snd (authorize_page now q st)) = os_pending_auths st"
  by (cases "validate_and_touch now (aq_client_id q) (aq_redirect_uri q) st")
    (auto simp: authorize_page_def dest: validate_keeps split: option.split)

definition granted :: "nat \<Rightarrow> authorize_submit \<Rightarrow> string \<Rightarrow> pending_auth" where
  "granted t form code =
     \<lparr>pa_code = code, pa_client_id = aq_client_id form, pa_redirect_uri = aq_redirect_uri form,
      pa_api_key = as_api_key form, pa_code_challenge = blank_to_none (aq_code_challenge form),
      pa_code_challenge_method = blank_to_none (aq_code_challenge_method form), pa_created_at = t\<rparr>"

lemma submit_cases:
  "(\<exists>url. fst (authorize_submit now form code st) = RedirectTo url \<and>
      os_pending_auths (snd (authorize_submit now form code st)) =
        AList.update code (granted now form code) (os_pending_auths st) \<and>
      authorize_checks form = None) \<or>
   (\<exists>msg. fst (authorize_submit now form code st) = AuthorizeError msg \<and>
      os_pending_auths (snd (authorize_submit now form code st)) = os_pending_auths st)"
  by (cases "validate_and_touch now (aq_client_id form) (aq_redirect_uri form) st")
    (auto simp: authorize_submit_def authorize_error_def granted_def dest: validate_keeps split: option.split)

lemma touch_pending [simp]: "os_pending_auths (touch_client now i st) = os_pending_auths st"
  by (simp add: touch_client_def split: option.split)

lemma redeem_pending [simp]: "os_pending_auths (snd (redeem now req p st)) = os_pending_auths st"
  by (simp add: redeem_def split: option.split sum.split)

definition redeems :: "string \<Rightarrow> oauth_event \<Rightarrow> bool" where
  "redeems code ev \<longleftrightarrow>
     (case ev of EvToken req \<Rightarrow> tr_grant_type req = ''authorization_code'' \<and> tr_code req = Some code | _ \<Rightarrow> False)"

lemma token_pending:
  "os_pending_auths (snd (token now req st)) =
     (case tr_code req of
        Some code \<Rightarrow>
          if redeems code (EvToken req) then AList.delete code (os_pending_auths st) else os_pending_auths st
      | None \<Rightarrow> os_pending_auths st)"
  by (auto simp: token_def redeems_def Let_def split: option.split)

text \<open>An accepted submission for the code, and no attempt to redeem it since.\<close>

definition issued ::
  "oauth_state \<Rightarrow> (nat \<times> oauth_event) list \<Rightarrow> string \<Rightarrow> pending_auth \<Rightarrow> bool" where
  "issued st0 evs code p \<longleftrightarrow>
     (\<exists>xs t form ys. evs = xs @ (t, EvAuthorizeSubmit form code) # ys \<and> p = granted t form code \<and>
        (\<exists>url. fst (oauth_step t (EvAuthorizeSubmit form code) (oauth_run xs st0)) = RedirectTo url) \<and>
        authorize_checks form = None \<and> (\<forall>w \<in> set ys. \<not> redeems code (snd w)))"

lemma issued_snoc:
  assumes "issued st0 evs code p" "\<not> redeems code e"
  shows "issued st0 (evs @ [(t, e)]) code p"
proof -
  obtain xs t0 form ys url where i: "evs = xs @ (t0, EvAuthorizeSubmit form code) # ys" "p = granted t0 form code"
      "fst (oauth_step t0 (EvAuthorizeSubmit form code) (oauth_run xs st0)) = RedirectTo url"
      "authorize_checks form = None" "\<forall>w \<in> set ys. \<not> redeems code (snd w)"
    using assms(1) unfolding issued_def by blast
  show ?thesis
    unfolding issued_def
    by (rule exI [of _ xs], rule exI [of _ t0], rule exI [of _ form], rule exI [of _ "ys @ [(t, e)]"])
      (use i assms(2) in auto)
qed

lemma pending_issued:
  assumes "os_pending_auths st0 = []"
  shows "distinct (map fst (os_pending_auths (oauth_run evs st0))) \<and>
    (\<forall>code p. map_of (os_pending_auths (oauth_run evs st0)) code = Some p \<longrightarrow> issued st0 evs code p)"
proof (induction evs rule: rev_induct)
  case Nil
  with assms show ?case by (simp add: oauth_run_def)
next
  case (snoc w evs)
  obtain t e where w: "w = (t, e)" by force
  let ?st = "oauth_run evs st0" and ?st' = "snd (oauth_step t e (oauth_run evs st0))"
  have run: "oauth_run (evs @ [w]) st0 = ?st'" by (simp add: w oauth_run_snoc)
  have same: ?case if "os_pending_auths ?st' = os_pending_auths ?st" "\<And>code. \<not> redeems code e"
    unfolding run that(1) using snoc.IH issued_snoc that(2) by (simp add: w)
  show ?case
  proof (cases e)
    case (EvRegister key req i sec)
    then show ?thesis by (intro same) (simp_all add: redeems_def)
  next
    case (EvAuthorizePage q)
    then show ?thesis by (intro same) (simp_all add: redeems_def)
  next
    case (EvAuthorizeSubmit form code)
    have nr: "\<not> redeems c e" for c by (simp add: EvAuthorizeSubmit redeems_def)
    from submit_cases [of t form code ?st] show ?thesis
    proof (elim disjE exE conjE)
      fix url
      assume a: "fst (authorize_submit t form code ?st) = RedirectTo url" "authorize_checks form = None"
        "os_pending_auths (snd (authorize_submit t form code ?st)) =
          AList.update code (granted t form code) (os_pending_auths ?st)"
      have new: "issued st0 (evs @ [w]) code (granted t form code)"
        unfolding issued_def
        by (intro exI [of _ evs] exI [of _ t] exI [of _ form] exI [of _ "[]"]) (use a in \<open>simp add: w EvAuthorizeSubmit\<close>)
      show ?thesis
        unfolding run using snoc.IH a(3) new issued_snoc [OF _ nr]
        by (auto simp: EvAuthorizeSubmit update_conv' distinct_update w)
    qed (use same nr in \<open>simp add: EvAuthorizeSubmit\<close>)
  next
    case (EvToken req)
    show ?thesis
    proof (cases "\<exists>code. redeems code e")
      case True
      then obtain code where c: "redeems code e" by blast
      then have code: "tr_code req = Some code" by (simp add: EvToken redeems_def)
      then have only: "redeems c e \<longleftrightarrow> c = code" for c using c by (auto simp: EvToken redeems_def)
      have "os_pending_auths ?st' = AList.delete code (os_pending_auths ?st)"
        using c by (simp add: EvToken token_pending code)
      then show ?thesis
        unfolding run using snoc.IH issued_snoc only
        by (auto simp: w delete_conv' distinct_delete split: if_splits)
    next
      case False
      then show ?thesis by (intro same) (auto simp: EvToken token_pending split: option.split)
    qed
  next
    case EvCleanup
    have nr: "\<not> redeems c e" for c by (simp add: EvCleanup redeems_def)
    show ?thesis
      unfolding run using snoc.IH issued_snoc [OF _ nr]
      by (auto simp: EvCleanup cleanup_def w dest: map_of_filter_Some intro!: distinct_filter_keys)
  qed
qed

section \<open>The client store\<close>

lemma length_update_le: "length (AList.update k v al) \<le> Suc (length al)"
  by (induction al) auto

lemma length_update_in: "map_of al k \<noteq> None \<Longrightarrow> length (AList.update k v al) = length al"
  by (induction al) (auto split: if_splits)

lemma length_delete: "map_of al k \<noteq> None \<Longrightarrow> length (AList.delete k al) < length al"
  by (induction al) (auto simp: le_imp_less_Suc AList.length_delete_le)

lemma pick_least:
  "foldl (\<lambda>m y. if oc_last_used (snd y) < oc_last_used (snd m) then y else m) x xs = p \<Longrightarrow>
     p \<in> set (x # xs) \<and> (\<forall>y \<in> set (x # xs). oc_last_used (snd p) \<le> oc_last_used (snd y))"
proof (induction xs arbitrary: x)
  case (Cons y xs)
  let ?m = "if oc_last_used (snd y) < oc_last_used (snd x) then y else x"
  have "p \<in> set (?m # xs) \<and> (\<forall>z \<in> set (?m # xs). oc_last_used (snd p) \<le> oc_last_used (snd z))"
    by (rule Cons.IH) (use Cons.prems in simp)
  then show ?case by (auto split: if_splits)
qed simp

lemma lru_client_least:
  "lru_client cs = Some p \<Longrightarrow> p \<in> set cs \<and> (\<forall>y \<in> set cs. oc_last_used (snd p) \<le> oc_last_used (snd y))"
proof -
  assume l: "lru_client cs = Some p"
  then obtain x xs where cs: "cs = x # xs" by (cases cs) (simp_all add: lru_client_def)
  with l have "foldl (\<lambda>m y. if oc_last_used (snd y) < oc_last_used (snd m) then y else m) x xs = p"
    by (simp add: lru_client_def)
  from pick_least [OF this] show ?thesis unfolding cs .
qed

text \<open>What one step does to the clients: nothing, a refresh, or a registration after an eviction.\<close>

lemma validate_clients:
  "validate_and_touch now i u st = (ok, st') \<Longrightarrow>
     os_clients st' = os_clients st \<or>
     (\<exists>c. map_of (os_clients st) i = Some c \<and>
        os_clients st' = AList.update i (c\<lparr>oc_last_used := now\<rparr>) (os_clients st))"
  by (auto simp: validate_and_touch_def split: option.splits if_splits)

definition refreshed :: "nat \<Rightarrow> (string \<times> oauth_client) list \<Rightarrow> (string \<times> oauth_client) list \<Rightarrow> bool" where
  "refreshed now cs cs' \<longleftrightarrow>
     cs' = cs \<or> (\<exists>i c. map_of cs i = Some c \<and> cs' = AList.update i (c\<lparr>oc_last_used := now\<rparr>) cs)"

definition registered ::
  "nat \<Rightarrow> oauth_event \<Rightarrow> (string \<times> oauth_client) list \<Rightarrow> (string \<times> oauth_client) list \<Rightarrow> bool" where
  "registered now e cs cs' \<longleftrightarrow>
     (\<exists>key req i sec room c. e = EvRegister key req i sec \<and> make_room now cs = Some room \<and>
        cs' = AList.update i c room \<and> rr_redirect_uris req = Some (oc_redirect_uris c))"

lemma submit_clients: "refreshed now (os_clients st) (os_clients (snd (authorize_submit now form code st)))"
  by (cases "validate_and_touch now (aq_client_id form) (aq_redirect_uri form) st")
    (use validate_clients in \<open>fastforce simp: authorize_submit_def refreshed_def split: option.split\<close>)

lemma page_clients: "refreshed now (os_clients st) (os_clients (snd (authorize_page now q st)))"
  by (cases "validate_and_touch now (aq_client_id q) (aq_redirect_uri q) st")
    (use validate_clients in \<open>fastforce simp: authorize_page_def refreshed_def split: option.split\<close>)

lemma touch_clients: "refreshed now (os_clients st) (os_clients (touch_client now i st))"
  by (auto simp: touch_client_def refreshed_def split: option.split)

lemma redeem_clients: "refreshed now (os_clients st) (os_clients (snd (redeem now req p st)))"
  using touch_clients [of now st "pa_client_id p"]
  by (auto simp: redeem_def refreshed_def split: option.split sum.split)

lemma token_clients: "refreshed now (os_clients st) (os_clients (snd (token now req st)))"
proof -
  have "refreshed now cs cs" for cs by (simp add: refreshed_def)
  then show ?thesis
    using redeem_clients [of now "st\<lparr>os_pending_auths := ps\<rparr>" req for ps]
    by (auto simp: token_def Let_def split: option.split)
qed

lemma register_clients:
  "os_clients (snd (register now key req i sec st)) = os_clients st \<or>
   registered now (EvRegister key req i sec) (os_clients st) (os_clients (snd (register now key req i sec st)))"
proof -
  obtain ok st1 where r: "register_rate_ok now key st = (ok, st1)" by force
  have same: "os_clients st1 = os_clients st" using rate_keeps [OF r] by blast
  show ?thesis
  proof (cases "make_room now (os_clients st1)")
    case None
    then show ?thesis by (simp add: register_def r Let_def same)
  next
    case (Some room)
    then have m: "make_room now (os_clients st) = Some room" by (simp add: same)
    show ?thesis
    proof (cases "rr_redirect_uris req")
      case None
      then show ?thesis by (simp add: register_def r Let_def same)
    next
      case u: (Some us)
      then show ?thesis
        using m unfolding registered_def by (auto simp: register_def r Let_def same u)
    qed
  qed
qed

lemma step_clients:
  "refreshed now (os_clients st) (os_clients (snd (oauth_step now e st))) \<or>
   registered now e (os_clients st) (os_clients (snd (oauth_step now e st)))"
proof (cases e)
  case (EvRegister key req i sec)
  then show ?thesis using register_clients [of now key req i sec st] by (auto simp: refreshed_def)
next
  case EvCleanup
  then show ?thesis by (simp add: cleanup_def refreshed_def)
qed (use submit_clients page_clients token_clients in auto)

text \<open>Every client entered with a registration of the run that named its redirect URIs.\<close>

definition clients_ok :: "(nat \<times> oauth_event) list \<Rightarrow> (string \<times> oauth_client) list \<Rightarrow> bool" where
  "clients_ok evs cs \<longleftrightarrow> distinct (map fst cs) \<and> length cs \<le> MAX_OAUTH_CLIENTS \<and>
     (\<forall>i c. map_of cs i = Some c \<longrightarrow>
        (\<exists>t key req sec. (t, EvRegister key req i sec) \<in> set evs \<and> rr_redirect_uris req = Some (oc_redirect_uris c)))"

lemma make_room_ok:
  assumes "clients_ok evs cs" "make_room now cs = Some room"
  shows "clients_ok evs room \<and> length room < MAX_OAUTH_CLIENTS \<and>
    (\<forall>i c. map_of cs i = Some c \<longrightarrow> map_of room i = None \<longrightarrow>
       elapsed_secs now (oc_last_used c) \<ge> EVICT_MIN_AGE_SECS \<and>
       (\<forall>j d. map_of cs j = Some d \<longrightarrow> oc_last_used c \<le> oc_last_used d))"
proof (cases "length cs \<ge> MAX_OAUTH_CLIENTS")
  case False
  with assms show ?thesis by (auto simp: make_room_def)
next
  case True
  with assms(2) obtain i c where l: "lru_client cs = Some (i, c)"
    "elapsed_secs now (oc_last_used c) \<ge> EVICT_MIN_AGE_SECS" "room = AList.delete i cs"
    by (auto simp: make_room_def split: option.splits if_splits)
  have dist: "distinct (map fst cs)" using assms(1) by (simp add: clients_ok_def)
  have i: "map_of cs i = Some c" using lru_client_least [OF l(1)] dist by simp
  have least: "map_of cs j = Some d \<Longrightarrow> oc_last_used c \<le> oc_last_used d" for j d
    using lru_client_least [OF l(1)] by (fastforce dest: map_of_SomeD)
  have "length room < length cs" using length_delete [of cs i] i by (simp add: l(3))
  with assms(1) True have "length room < MAX_OAUTH_CLIENTS" by (simp add: clients_ok_def)
  moreover have "clients_ok evs room"
    using assms(1) \<open>length room < length cs\<close>
    by (auto simp: clients_ok_def l(3) delete_conv' distinct_delete split: if_splits)
  moreover have "j = i \<and> d = c" if "map_of cs j = Some d" "map_of room j = None" for j d
  proof -
    have "j = i" using that by (simp add: l(3) delete_conv' split: if_splits)
    with that(1) i show ?thesis by simp
  qed
  ultimately show ?thesis using least l(2) by blast
qed

lemma clients_ok_mono: "clients_ok evs cs \<Longrightarrow> clients_ok (evs @ es) cs"
  unfolding clients_ok_def set_append by (metis UnI1)

lemma clients_ok_enter:
  assumes "clients_ok evs cs" "length (AList.update i c cs) \<le> MAX_OAUTH_CLIENTS"
    "\<exists>t key req sec. (t, EvRegister key req i sec) \<in> set evs \<and> rr_redirect_uris req = Some (oc_redirect_uris c)"
  shows "clients_ok evs (AList.update i c cs)"
proof -
  have "\<exists>t key req sec. (t, EvRegister key req j sec) \<in> set evs \<and> rr_redirect_uris req = Some (oc_redirect_uris d)"
    if "map_of (AList.update i c cs) j = Some d" for j d
  proof (cases "j = i")
    case True
    with that assms(3) show ?thesis by (simp add: update_conv')
  next
    case False
    with that assms(1) show ?thesis by (simp add: update_conv' clients_ok_def)
  qed
  with assms(1,2) show ?thesis by (simp add: clients_ok_def distinct_update)
qed

lemma clients_step_ok:
  assumes "clients_ok evs (os_clients st)"
  shows "clients_ok (evs @ [(t, e)]) (os_clients (snd (oauth_step t e st)))"
  using step_clients [of t st e]
proof
  let ?cs' = "os_clients (snd (oauth_step t e st))"
  assume "refreshed t (os_clients st) ?cs'"
  then consider "?cs' = os_clients st" |
    i c where "map_of (os_clients st) i = Some c" "?cs' = AList.update i (c\<lparr>oc_last_used := t\<rparr>) (os_clients st)"
    unfolding refreshed_def by blast
  then show ?thesis
  proof cases
    case 1
    with clients_ok_mono [OF assms] show ?thesis by simp
  next
    case 2
    from assms 2(1) have "\<exists>t' key req sec. (t', EvRegister key req i sec) \<in> set evs \<and>
        rr_redirect_uris req = Some (oc_redirect_uris (c\<lparr>oc_last_used := t\<rparr>))"
      by (simp add: clients_ok_def)
    moreover have "length ?cs' \<le> MAX_OAUTH_CLIENTS"
      using assms 2 by (simp add: clients_ok_def length_update_in)
    ultimately have "clients_ok evs ?cs'" unfolding 2(2) using assms by (intro clients_ok_enter)
    then show ?thesis by (rule clients_ok_mono)
  qed
next
  assume "registered t e (os_clients st) (os_clients (snd (oauth_step t e st)))"
  then obtain key req i sec room c where r: "e = EvRegister key req i sec" "make_room t (os_clients st) = Some room"
    "os_clients (snd (oauth_step t e st)) = AList.update i c room" "rr_redirect_uris req = Some (oc_redirect_uris c)"
    unfolding registered_def by blast
  from make_room_ok [OF assms r(2)] have room: "clients_ok evs room" "length room < MAX_OAUTH_CLIENTS" by simp_all
  have "length (AList.update i c room) \<le> MAX_OAUTH_CLIENTS"
    using room(2) length_update_le [of i c room] by linarith
  then show ?thesis
    unfolding r(3) by (rule clients_ok_enter [OF clients_ok_mono [OF room(1)]]) (use r(1,4) in auto)
qed

lemma run_clients_ok: "os_clients st0 = [] \<Longrightarrow> clients_ok evs (os_clients (oauth_run evs st0))"
proof (induction evs rule: rev_induct)
  case Nil
  then show ?case by (simp add: oauth_run_def clients_ok_def)
next
  case (snoc w evs)
  then show ?case using clients_step_ok [of evs "oauth_run evs st0" "fst w" "snd w"] by (simp flip: oauth_run_snoc)
qed

section \<open>Properties\<close>

text \<open>C27. In a run from an empty state, a token answer proves the authorization it rests on: the run has
  an accepted submission of the key for exactly this code, client and redirect URI at most 600 seconds
  old, the redirect URI was registered for that client in the run, the presented verifier hashes to
  the submitted PKCE challenge, a confidential client showed its secret, and nobody has tried to
  redeem the code since the submission (codes are single use).\<close>

theorem token_bound_to_authorization:
  assumes run: "st = oauth_run evs (new_oauth origin trusted)"
    and tok: "fst (oauth_step now (EvToken req) st) = TokenIssued key"
  shows "\<exists>xs t form code ys client verifier challenge.
    evs = xs @ (t, EvAuthorizeSubmit form code) # ys \<and> tr_code req = Some code \<and> as_api_key form = key \<and>
    tr_client_id req = Some (aq_client_id form) \<and> tr_redirect_uri req = Some (aq_redirect_uri form) \<and>
    elapsed_secs now t \<le> 600 \<and>
    (\<exists>url. fst (oauth_step t (EvAuthorizeSubmit form code) (oauth_run xs (new_oauth origin trusted))) = RedirectTo url) \<and>
    aq_code_challenge form = Some challenge \<and> challenge \<noteq> [] \<and> tr_code_verifier req = Some verifier \<and>
    base64_url_encode (sha256_digest verifier) = challenge \<and>
    map_of (os_clients st) (aq_client_id form) = Some client \<and>
    (oc_confidential client \<longrightarrow> (case tr_client_secret req of None \<Rightarrow> [] | Some p \<Rightarrow> p) =
       (case oc_client_secret client of None \<Rightarrow> [] | Some s \<Rightarrow> s)) \<and>
    (\<exists>t' key' req' sec. (t', EvRegister key' req' (aq_client_id form) sec) \<in> set xs \<and>
       (\<exists>us. rr_redirect_uris req' = Some us \<and> aq_redirect_uri form \<in> set us)) \<and>
    (\<forall>w \<in> set ys. \<not> redeems code (snd w))"
proof -
  let ?st0 = "new_oauth origin trusted"
  obtain code p where code: "tr_code req = Some code" and p: "map_of (os_pending_auths st) code = Some p"
    and red: "fst (redeem now req p (st\<lparr>os_pending_auths := AList.delete code (os_pending_auths st)\<rparr>)) = TokenIssued key"
    using tok by (auto simp: token_def Let_def split: if_splits option.splits)
  have "os_pending_auths ?st0 = []" by (simp add: new_oauth_def)
  from pending_issued [OF this, of evs] p run have "issued ?st0 evs code p" by blast
  then obtain xs t form ys url where i: "evs = xs @ (t, EvAuthorizeSubmit form code) # ys" "p = granted t form code"
      "fst (oauth_step t (EvAuthorizeSubmit form code) (oauth_run xs ?st0)) = RedirectTo url"
      "authorize_checks form = None" "\<forall>w \<in> set ys. \<not> redeems code (snd w)"
    unfolding issued_def by blast
  from red obtain challenge verifier where r: "elapsed_secs now (pa_created_at p) \<le> 600"
      "tr_client_id req = Some (pa_client_id p)" "tr_redirect_uri req = Some (pa_redirect_uri p)"
      "pa_code_challenge p = Some challenge" "tr_code_verifier req = Some verifier"
      "pkce_s256_matches verifier challenge" "pa_api_key p = key"
    and sec: "verify_client_secret st (pa_client_id p) (tr_client_secret req) = Inr ()"
    by (auto simp: redeem_def verify_client_secret_def split: if_splits option.splits sum.splits)
  have ch: "aq_code_challenge form = Some challenge" "challenge \<noteq> []"
    using r(4) by (auto simp: i(2) granted_def blank_to_none_def split: if_splits)
  obtain client where client: "map_of (os_clients st) (aq_client_id form) = Some client"
      "oc_confidential client \<Longrightarrow> (case tr_client_secret req of None \<Rightarrow> [] | Some p \<Rightarrow> p) =
         (case oc_client_secret client of None \<Rightarrow> [] | Some s \<Rightarrow> s)"
    using sec by (auto simp: verify_client_secret_def i(2) granted_def split: option.splits if_splits)
  obtain ok st1 where v: "validate_and_touch t (aq_client_id form) (aq_redirect_uri form) (oauth_run xs ?st0) = (ok, st1)"
    by force
  with i(3) have "ok" by (auto simp: authorize_submit_def authorize_error_def split: if_splits)
  with v obtain c where c: "map_of (os_clients (oauth_run xs ?st0)) (aq_client_id form) = Some c"
      "aq_redirect_uri form \<in> set (oc_redirect_uris c)"
    by (auto simp: validate_and_touch_def split: option.splits if_splits)
  have "os_clients ?st0 = []" by (simp add: new_oauth_def)
  from run_clients_ok [OF this, of xs] c(1) obtain t' key' req' sec' where
    reg: "(t', EvRegister key' req' (aq_client_id form) sec') \<in> set xs" "rr_redirect_uris req' = Some (oc_redirect_uris c)"
    unfolding clients_ok_def by blast
  have f: "pa_created_at p = t" "pa_client_id p = aq_client_id form" "pa_redirect_uri p = aq_redirect_uri form"
      "pa_api_key p = as_api_key form"
    by (simp_all add: i(2) granted_def)
  show ?thesis
    by (rule exI [of _ xs], rule exI [of _ t], rule exI [of _ form], rule exI [of _ code], rule exI [of _ ys],
        rule exI [of _ client], rule exI [of _ verifier], rule exI [of _ challenge])
      (use i(1,3,5) code r ch client c(2) reg f in \<open>auto simp: pkce_s256_matches_def\<close>)
qed

text \<open>The client store never holds more than 1000 clients, and only registration removes one: a client
  that a step drops was idle for at least 600 seconds and no client was used less recently, so a
  registration flood cannot push out a client in the middle of its flow.\<close>

theorem oauth_clients_bounded:
  assumes run: "st = oauth_run evs (new_oauth origin trusted)"
  shows "length (os_clients st) \<le> 1000 \<and>
    (\<forall>i c. map_of (os_clients st) i = Some c \<longrightarrow> map_of (os_clients (snd (oauth_step now e st))) i = None \<longrightarrow>
       elapsed_secs now (oc_last_used c) \<ge> 600 \<and>
       (\<forall>j d. map_of (os_clients st) j = Some d \<longrightarrow> oc_last_used c \<le> oc_last_used d))"
proof -
  have ok: "clients_ok evs (os_clients st)" unfolding run by (rule run_clients_ok) (simp add: new_oauth_def)
  have "elapsed_secs now (oc_last_used c) \<ge> 600 \<and>
      (\<forall>j d. map_of (os_clients st) j = Some d \<longrightarrow> oc_last_used c \<le> oc_last_used d)"
    if i: "map_of (os_clients st) i = Some c" "map_of (os_clients (snd (oauth_step now e st))) i = None" for i c
    using step_clients [of now st e]
  proof
    assume "refreshed now (os_clients st) (os_clients (snd (oauth_step now e st)))"
    with i show ?thesis by (auto simp: refreshed_def update_conv' split: if_splits)
  next
    assume "registered now e (os_clients st) (os_clients (snd (oauth_step now e st)))"
    then obtain j d room where r: "make_room now (os_clients st) = Some room"
      "os_clients (snd (oauth_step now e st)) = AList.update j d room"
      unfolding registered_def by blast
    from i(2) have "map_of room i = None" by (simp add: r(2) update_conv' split: if_splits)
    with make_room_ok [OF ok r(1)] i(1) show ?thesis by (auto simp: EVICT_MIN_AGE_SECS_def)
  qed
  with ok show ?thesis by (simp add: clients_ok_def MAX_OAUTH_CLIENTS_def)
qed

lemma split_on_append_sep: "split_on d (x @ d # y) = split_on d x @ split_on d y"
  by (induction x) (auto split: list.splits)

lemma param_name_plain: "CHR ''='' \<notin> set n \<Longrightarrow> param_name (n @ CHR ''='' # v) = n"
  by (simp add: param_name_def split_on_append)

lemma percent_decode_plain: "percent_decode ''code'' = ''code''" "percent_decode ''state'' = ''state''"
    "percent_decode ''iss'' = ''iss''"
proof -
  have "percent_decode s = s" if "CHR ''%'' \<notin> set s" "list_all (\<lambda>c. byte c < 128) s" for s
  proof -
    have "percent_bytes s = s" using that(1) by (induction s) (auto simp: percent_bytes_plain)
    then show ?thesis unfolding percent_decode_def by (simp only: from_utf8_lossy_valid [OF valid_ascii [OF that(2)]])
  qed
  then show "percent_decode ''code'' = ''code''" "percent_decode ''state'' = ''state''"
    "percent_decode ''iss'' = ''iss''" by simp_all
qed

lemma split_on_urlencoding [simp]: "split_on (CHR ''&'') (urlencoding s) = [urlencoding s]"
  by (rule split_on_no_sep) (simp add: urlencoding_plain)

text \<open>The parameters that the server appends.\<close>

definition own_params :: "string \<Rightarrow> string option \<Rightarrow> string \<Rightarrow> string list" where
  "own_params code state origin =
     (''code='' @ urlencoding code) #
     (case state of None \<Rightarrow> [] | Some s \<Rightarrow> if s = [] then [] else [''state='' @ urlencoding s]) @
     [''iss='' @ urlencoding origin]"

lemma own_params_split:
  "split_on (CHR ''&'') (''code='' @ urlencoding code @
     (case state of None \<Rightarrow> [] | Some s \<Rightarrow> if s = [] then [] else ''&state='' @ urlencoding s) @
     ''&iss='' @ urlencoding origin) = own_params code state origin"
proof -
  have one: "split_on (CHR ''&'') (n @ urlencoding v) = [n @ urlencoding v]" if "CHR ''&'' \<notin> set n" for n v
    by (rule split_on_no_sep) (simp add: that urlencoding_plain)
  have two: "split_on (CHR ''&'') (n @ urlencoding v @ CHR ''&'' # r) = (n @ urlencoding v) # split_on (CHR ''&'') r"
    if "CHR ''&'' \<notin> set n" for n v r
    using split_on_append [of "CHR ''&''" "n @ urlencoding v" r] that by (simp add: urlencoding_plain)
  show ?thesis
    using one [of "''iss=''" origin] two [of "''code=''" code "''iss='' @ urlencoding origin"]
      two [of "''code=''" code "''state='' @ urlencoding s @ ''&iss='' @ urlencoding origin" for s]
      two [of "''state=''" s "''iss='' @ urlencoding origin" for s]
    by (auto simp: own_params_def split: option.split)
qed

lemma own_params_iss:
  "filter (\<lambda>pair. percent_decode (param_name pair) = ''iss'') (own_params code state origin) =
     [''iss='' @ urlencoding origin]"
proof -
  have n: "param_name (''code='' @ v) = ''code''" "param_name (''state='' @ v) = ''state''"
      "param_name (''iss='' @ v) = ''iss''" for v
    using param_name_plain [of "''code''" v] param_name_plain [of "''state''" v] param_name_plain [of "''iss''" v]
    by simp_all
  show ?thesis by (auto simp: own_params_def n [simplified] percent_decode_plain split: option.split)
qed

text \<open>An accepted submission redirects to the registered URI with the answer appended: the URL extends
  it, has no fragment, and its query has exactly one parameter whose decoded name is iss, the
  server's origin; the code and the state are among its parameters, and for UTF-8 text decoding a
  parameter gives back what was encoded.\<close>

theorem authorize_redirect_well_formed:
  assumes "fst (oauth_step now (EvAuthorizeSubmit form code) st) = RedirectTo url"
  shows "(\<exists>c. map_of (os_clients st) (aq_client_id form) = Some c \<and> aq_redirect_uri form \<in> set (oc_redirect_uris c)) \<and>
    starts_with url (aq_redirect_uri form) \<and> CHR ''#'' \<notin> set url \<and>
    (\<exists>base query. split_once (CHR ''?'') url = Some (base, query) \<and>
       filter (\<lambda>pair. percent_decode (param_name pair) = ''iss'') (split_on (CHR ''&'') query) =
         [''iss='' @ urlencoding (os_server_origin st)] \<and>
       (''code='' @ urlencoding code) \<in> set (split_on (CHR ''&'') query) \<and>
       (\<forall>s. aq_state form = Some s \<and> s \<noteq> [] \<longrightarrow>
          (''state='' @ urlencoding s) \<in> set (split_on (CHR ''&'') query))) \<and>
    (valid_utf8 v \<longrightarrow> percent_decode (urlencoding v) = v)"
proof -
  let ?u = "aq_redirect_uri form" and ?o = "os_server_origin st"
  obtain ok st1 where v: "validate_and_touch now (aq_client_id form) ?u st = (ok, st1)" by force
  with assms have acc: "ok" "authorize_checks form = None"
      "url = redirect_url ?u code (aq_state form) (os_server_origin st1)"
    by (auto simp: authorize_submit_def authorize_error_def split: if_splits option.splits)
  have o: "os_server_origin st1 = ?o" using validate_keeps [OF v] by simp
  have reg: "\<exists>c. map_of (os_clients st) (aq_client_id form) = Some c \<and> ?u \<in> set (oc_redirect_uris c)"
    using v acc(1) by (auto simp: validate_and_touch_def split: option.splits if_splits)
  have checks: "CHR ''#'' \<notin> set ?u" "\<not> redirect_embeds_iss ?u"
    using acc(2) by (auto simp: authorize_checks_def redirect_has_fragment_def split: if_splits)
  let ?tail = "''code='' @ urlencoding code @
     (case aq_state form of None \<Rightarrow> [] | Some s \<Rightarrow> if s = [] then [] else ''&state='' @ urlencoding s) @
     ''&iss='' @ urlencoding ?o"
  have url: "url = ?u @ (if CHR ''?'' \<in> set ?u then ''&'' else ''?'') @ ?tail"
    by (simp only: acc(3) o redirect_url_def)
  have own: "split_on (CHR ''&'') ?tail = own_params code (aq_state form) ?o" by (rule own_params_split)
  have frag: "CHR ''#'' \<notin> set url"
    unfolding url using checks(1) by (auto simp: urlencoding_plain split: option.split)
  have q: "\<exists>base pre. split_once (CHR ''?'') url = Some (base, pre @ ?tail) \<and>
      split_on (CHR ''&'') (pre @ ?tail) = (if pre = [] then [] else split_on (CHR ''&'') (butlast pre)) @ split_on (CHR ''&'') ?tail \<and>
      (pre \<noteq> [] \<longrightarrow> (\<forall>pair \<in> set (split_on (CHR ''&'') (butlast pre)). percent_decode (param_name pair) \<noteq> ''iss''))"
  proof (cases "CHR ''?'' \<in> set ?u")
    case False
    then have "url = ?u @ CHR ''?'' # ?tail" by (simp only: url if_False) simp
    then have "split_once (CHR ''?'') url = Some (?u, [] @ ?tail)"
      by (simp only: split_once_append [OF False] append_Nil)
    then show ?thesis by (intro exI [of _ ?u] exI [of _ "[]"]) (simp only: append_Nil if_True not_False_eq_True simp_thms)
  next
    case True
    then obtain base query where b: "split_once (CHR ''?'') ?u = Some (base, query)" "?u = base @ CHR ''?'' # query"
        "CHR ''?'' \<notin> set base"
      by (metis split_list_first split_once_append)
    have "url = base @ CHR ''?'' # (query @ ''&'') @ ?tail" using True by (simp only: url if_True) (simp add: b(2))
    then have "split_once (CHR ''?'') url = Some (base, (query @ ''&'') @ ?tail)"
      by (simp only: split_once_append [OF b(3)])
    moreover have "split_on (CHR ''&'') ((query @ ''&'') @ ?tail) = split_on (CHR ''&'') query @ split_on (CHR ''&'') ?tail"
      using split_on_append_sep [of "CHR ''&''" query ?tail] by simp
    moreover have "\<forall>pair \<in> set (split_on (CHR ''&'') query). percent_decode (param_name pair) \<noteq> ''iss''"
      using checks(2) by (simp add: redirect_embeds_iss_def b(1) list_ex_iff)
    ultimately show ?thesis by (intro exI [of _ base] exI [of _ "query @ ''&''"]) simp
  qed
  then obtain base pre where bp: "split_once (CHR ''?'') url = Some (base, pre @ ?tail)"
      "split_on (CHR ''&'') (pre @ ?tail) = (if pre = [] then [] else split_on (CHR ''&'') (butlast pre)) @ split_on (CHR ''&'') ?tail"
      "pre \<noteq> [] \<Longrightarrow> \<forall>pair \<in> set (split_on (CHR ''&'') (butlast pre)). percent_decode (param_name pair) \<noteq> ''iss''"
    by blast
  have "filter (\<lambda>pair. percent_decode (param_name pair) = ''iss'') (split_on (CHR ''&'') (pre @ ?tail)) =
      [''iss='' @ urlencoding ?o]"
    using bp(3) unfolding bp(2) own filter_append own_params_iss by (cases "pre = []") auto
  moreover have "set (own_params code (aq_state form) ?o) \<subseteq> set (split_on (CHR ''&'') (pre @ ?tail))"
    unfolding bp(2) own by auto
  moreover have "(''code='' @ urlencoding code) \<in> set (own_params code (aq_state form) ?o)"
    "aq_state form = Some s \<and> s \<noteq> [] \<Longrightarrow> (''state='' @ urlencoding s) \<in> set (own_params code (aq_state form) ?o)" for s
    by (auto simp: own_params_def)
  moreover have "starts_with url ?u" unfolding url by (rule prefixI) simp
  ultimately show ?thesis using reg frag bp(1) urlencoding_round_trip by blast
qed

text \<open>PKCE: the server's own SHA-256 and base64url accept the verifier of RFC 7636, appendix B for its
  challenge, digests are 32 bytes long, and two verifiers that match one challenge have the same digest.\<close>

theorem pkce_reference_vector:
  "pkce_s256_matches rfc_verifier rfc_challenge \<and>
   length (sha256_digest v) = 32 \<and>
   (pkce_s256_matches v challenge \<longrightarrow> pkce_s256_matches w challenge \<longrightarrow> sha256_digest v = sha256_digest w)"
proof (intro conjI impI)
  show "pkce_s256_matches rfc_verifier rfc_challenge"
    by (simp only: pkce_s256_matches_def rfc7636_vector)
  show "length (sha256_digest v) = 32" by (rule sha256_length)
  assume "pkce_s256_matches v challenge" "pkce_s256_matches w challenge"
  then have "base64_url_encode (sha256_digest v) = base64_url_encode (sha256_digest w)"
    by (simp only: pkce_s256_matches_def)
  then show "sha256_digest v = sha256_digest w"
    by (rule base64_url_inj [rotated]) (simp only: sha256_length)
qed

theorem pkce_reference_vector_witness:
  "length (sha256_digest rfc_verifier) = 32 \<and> pkce_s256_matches rfc_verifier rfc_challenge"
  using pkce_reference_vector [of rfc_verifier rfc_challenge rfc_verifier] by (elim conjE) (rule conjI)

section \<open>Witnesses\<close>

text \<open>A public client registers, its user authorizes, and the code is redeemed.\<close>

definition w_register :: register_request where
  "w_register = \<lparr>rr_redirect_uris = Some [''https://c/cb?x=1''], rr_token_endpoint_auth_method = Some ''none'',
     rr_application_type = None\<rparr>"

definition w_form :: authorize_submit where
  "w_form = \<lparr>aq_client_id = ''cid'', aq_redirect_uri = ''https://c/cb?x=1'', aq_state = Some ''s t'',
     aq_code_challenge = Some rfc_challenge,
     aq_code_challenge_method = Some ''S256'', as_api_key = ''key''\<rparr>"

definition w_token :: token_request where
  "w_token = \<lparr>tr_grant_type = ''authorization_code'', tr_code = Some ''code1'',
     tr_redirect_uri = Some ''https://c/cb?x=1'', tr_client_id = Some ''cid'', tr_client_secret = None,
     tr_code_verifier = Some rfc_verifier\<rparr>"

definition w_events :: "(nat \<times> oauth_event) list" where
  "w_events = [(0, EvRegister ''ip'' w_register ''cid'' ''sec''), (1, EvAuthorizeSubmit w_form ''code1'')]"

definition w_state :: oauth_state where
  "w_state = oauth_run w_events (new_oauth ''https://s'' False)"

lemma w_checks: "authorize_checks w_form = None"
  by (simp add: authorize_checks_def w_form_def pkce_authorize_ok_def rfc_challenge_def
      redirect_has_fragment_def) code_simp

lemma w_form_fields:
  "aq_client_id w_form = ''cid''" "aq_redirect_uri w_form = ''https://c/cb?x=1''" "aq_state w_form = Some ''s t''"
  "aq_code_challenge w_form = Some rfc_challenge" "aq_code_challenge_method w_form = Some ''S256''"
  "as_api_key w_form = ''key''"
  by (simp_all add: w_form_def)

lemmas w_eval = Let_def w_form_fields granted_def w_state_def w_events_def oauth_run_def new_oauth_def register_def w_register_def
  register_rate_ok_def elapsed_secs_def make_room_def MAX_OAUTH_CLIENTS_def REGISTER_RATE_LIMIT_def
  REGISTER_RATE_WINDOW_SECS_def authorize_submit_def validate_and_touch_def w_checks

lemma w_pending: "map_of (os_pending_auths w_state) ''code1'' = Some (granted 1 w_form ''code1'')"
  by (simp add: w_eval)

lemma w_client: "map (\<lambda>(i, c). (i, oc_confidential c)) (os_clients w_state) = [(''cid'', False)]"
  by (simp add: w_eval)

lemma w_client_uris: "map_of (os_clients w_state) ''cid'' = Some c \<Longrightarrow> oc_redirect_uris c = [''https://c/cb?x=1'']"
  by (simp add: w_eval) auto

lemma w_origin: "os_server_origin w_state = ''https://s''"
  by (simp add: w_eval)

lemma w_issued: "fst (oauth_step 2 (EvToken w_token) w_state) = TokenIssued ''key''"
proof -
  have "pkce_s256_matches rfc_verifier rfc_challenge"
    by (simp only: pkce_s256_matches_def rfc7636_vector)
  moreover have "rfc_challenge \<noteq> []" by (simp add: rfc_challenge_def)
  moreover obtain c where "map_of (os_clients w_state) ''cid'' = Some c" "\<not> oc_confidential c"
    using w_client by (auto simp: map_eq_Cons_conv)
  ultimately show ?thesis
    by (simp add: token_def w_token_def w_pending granted_def w_form_def redeem_def blank_to_none_def
        elapsed_secs_def verify_client_secret_def)
qed

theorem token_bound_to_authorization_witness:
  "\<exists>client. map_of (os_clients w_state) ''cid'' = Some client \<and>
     base64_url_encode (sha256_digest rfc_verifier) = rfc_challenge"
  using token_bound_to_authorization [OF w_state_def w_issued] by (auto simp: w_token_def rfc7636_vector)

theorem oauth_clients_bounded_witness: "length (os_clients w_state) \<le> 1000"
  using oauth_clients_bounded [OF w_state_def] by (rule conjunct1)

theorem authorize_redirect_well_formed_witness:
  "\<exists>base query. split_once (CHR ''?'') ''https://c/cb?x=1&code=code2&state=s%20t&iss=https%3A%2F%2Fs'' = Some (base, query) \<and>
     ''code=code2'' \<in> set (split_on (CHR ''&'') query)"
proof -
  obtain c where "map_of (os_clients w_state) ''cid'' = Some c"
    using w_client by (auto simp: map_eq_Cons_conv)
  moreover have "urlencoding ''code2'' = ''code2''" "urlencoding ''s t'' = ''s%20t''"
      "urlencoding ''https://s'' = ''https%3A%2F%2Fs''"
    by code_simp+
  ultimately have "fst (oauth_step 2 (EvAuthorizeSubmit w_form ''code2'') w_state) =
      RedirectTo ''https://c/cb?x=1&code=code2&state=s%20t&iss=https%3A%2F%2Fs''"
    using w_client_uris [of c]
    by (simp add: authorize_submit_def validate_and_touch_def w_checks w_form_fields w_origin redirect_url_def)
  from authorize_redirect_well_formed [OF this, of "[]"] show ?thesis
    using \<open>urlencoding ''code2'' = ''code2''\<close> by auto
qed

end
