(* ===== verification/EntityRows.thy ===== *)
theory EntityRows
  imports Chunks Utf8
begin

text \<open>
  The entity and relation rows of a chunk (\<^verbatim>\<open>store_entities\<close>, \<^verbatim>\<open>get_entities\<close>, \<^verbatim>\<open>store_relations\<close>,
  \<^verbatim>\<open>get_relations\<close> of \<^verbatim>\<open>loomem-core/src/storage.rs\<close>): comma separated text, encrypted under the
  stream of the chunk.
\<close>

section \<open>Reading and writing a row\<close>

text \<open>A chunk row never stands under these keys.\<close>

fun row_text :: "row \<Rightarrow> string" where
  "row_text (VBytes b) = b"
| "row_text (VChunk c) = []"

definition put_row :: "store \<Rightarrow> string \<Rightarrow> string \<Rightarrow> string \<Rightarrow> store res" where
  "put_row st key scope plain =
     rbind (pv_encrypt (st_prov st) scope plain) (\<lambda>b.
       Inr (st\<lparr>st_db := kv_put key (VBytes b) (st_db st)\<rparr>))"

definition open_text :: "store \<Rightarrow> string \<Rightarrow> string \<Rightarrow> string res" where
  "open_text st scope b =
     (if pv_is_encrypted (st_prov st) b
      then rbind (ensure (pv_enabled (st_prov st)) ''row is encrypted but encryption is disabled'') (\<lambda>_.
             pv_decrypt (st_prov st) scope b)
      else Inr b)"

section \<open>Entities\<close>

definition entity_text :: "string \<times> string \<Rightarrow> string" where
  "entity_text e = fst e @ '':'' @ snd e"

definition store_entities :: "store \<Rightarrow> string \<Rightarrow> string \<Rightarrow> (string \<times> string) list \<Rightarrow> store res" where
  "store_entities st i scope es = put_row st (entity_key i) scope (join '','' (map entity_text es))"

definition known_types :: "string list" where
  "known_types = [''Person'', ''Organization'', ''Project'', ''Technology'', ''Place'']"

definition strip_type :: "string \<Rightarrow> string" where
  "strip_type s =
     (case rsplit_once (CHR '':'') s of
        None \<Rightarrow> s
      | Some (name, ty) \<Rightarrow> if ty \<in> set known_types then name else s)"

definition parse_entities :: "string \<Rightarrow> string list" where
  "parse_entities s = (if s = [] then [] else map strip_type (split_on (CHR '','') s))"

definition get_entities :: "store \<Rightarrow> string \<Rightarrow> string \<Rightarrow> string list res" where
  "get_entities st i scope =
     (case kv_get (st_db st) (entity_key i) of
        None \<Rightarrow> Inr []
      | Some r \<Rightarrow> rbind (open_text st scope (row_text r)) (\<lambda>p. Inr (parse_entities (from_utf8_lossy p))))"

section \<open>Relations\<close>

definition relation_text :: "string \<times> string \<times> string \<Rightarrow> string" where
  "relation_text t = (case t of (s, r, ob) \<Rightarrow> s @ ''|'' @ r @ ''|'' @ ob)"

definition store_relations ::
  "store \<Rightarrow> string \<Rightarrow> string \<Rightarrow> (string \<times> string \<times> string) list \<Rightarrow> store res" where
  "store_relations st i scope rs = put_row st (rel_key i) scope (join '','' (map relation_text rs))"

text \<open>\<^verbatim>\<open>splitn(3, '|')\<close> with exactly three parts; other entries are dropped.\<close>

definition parse_relation :: "string \<Rightarrow> (string \<times> string \<times> string) option" where
  "parse_relation s =
     (case split_once (CHR ''|'') s of
        None \<Rightarrow> None
      | Some (a, t) \<Rightarrow>
          (case split_once (CHR ''|'') t of
             None \<Rightarrow> None
           | Some (b, c) \<Rightarrow> Some (a, b, c)))"

definition parse_relations :: "string \<Rightarrow> (string \<times> string \<times> string) list" where
  "parse_relations s = (if s = [] then [] else List.map_filter parse_relation (split_on (CHR '','') s))"

definition get_relations :: "store \<Rightarrow> string \<Rightarrow> string \<Rightarrow> (string \<times> string \<times> string) list res" where
  "get_relations st i scope =
     (case kv_get (st_db st) (rel_key i) of
        None \<Rightarrow> Inr []
      | Some r \<Rightarrow> rbind (open_text st scope (row_text r)) (\<lambda>p. Inr (parse_relations (from_utf8_lossy p))))"

section \<open>Round trips\<close>

text \<open>
  What the rows rely on from the provider: an enabled one writes recognisable ciphertext that it can
  read back, a disabled one passes plaintext through that is not taken for ciphertext.
\<close>

definition row_crypto_ok :: "provider \<Rightarrow> string \<Rightarrow> bool" where
  "row_crypto_ok pv p \<longleftrightarrow>
     (\<forall>s b. pv_encrypt pv s p = Inr b \<longrightarrow>
        (if pv_is_encrypted pv b then pv_enabled pv \<and> pv_decrypt pv s b = Inr p else b = p))"

lemma put_open:
  assumes "put_row st key scope p = Inr st'" "row_crypto_ok (st_prov st) p"
  shows "\<exists>b. kv_get (st_db st') key = Some (VBytes b) \<and> open_text st' scope b = Inr p"
proof -
  obtain b where b: "pv_encrypt (st_prov st) scope p = Inr b"
    and st': "st' = st\<lparr>st_db := kv_put key (VBytes b) (st_db st)\<rparr>"
    using assms(1) by (auto simp: put_row_def)
  then show ?thesis
    using assms(2) by (intro exI [of _ b]) (auto simp: open_text_def row_crypto_ok_def map_of_kv_put)
qed

definition plain_field :: "string \<Rightarrow> bool" where
  "plain_field s \<longleftrightarrow> valid_utf8 s \<and> CHR '','' \<notin> set s \<and> CHR ''|'' \<notin> set s"

lemma valid_join: "valid_utf8 d \<Longrightarrow> list_all valid_utf8 xs \<Longrightarrow> valid_utf8 (join d xs)"
  by (induction d xs rule: join.induct) (simp_all add: valid_append)

lemma valid_sep: "valid_utf8 '':''" "valid_utf8 ''|''" "valid_utf8 '',''"
  by (simp_all add: valid_ascii)

lemma valid_types: "t \<in> set known_types \<Longrightarrow> valid_utf8 t"
  by (intro valid_ascii) (auto simp: known_types_def)

lemma strip_known: "ty \<in> set known_types \<Longrightarrow> strip_type (entity_text (name, ty)) = name"
proof -
  assume ty: "ty \<in> set known_types"
  then have "CHR '':'' \<notin> set ty" by (auto simp: known_types_def)
  then have "rsplit_once (CHR '':'') (name @ CHR '':'' # ty) = Some (name, ty)" by (rule rsplit_once_append)
  with ty show ?thesis by (simp add: strip_type_def entity_text_def)
qed

lemma parse_entities_join:
  assumes "\<forall>(n, t) \<in> set es. CHR '','' \<notin> set n \<and> t \<in> set known_types"
  shows "parse_entities (join '','' (map entity_text es)) = map fst es"
proof (cases es)
  case (Cons e es')
  have ne: "join '','' (map entity_text es) \<noteq> []"
    unfolding Cons by (cases es') (simp_all add: entity_text_def)
  have "\<forall>x \<in> set (map entity_text es). CHR '','' \<notin> set x"
    using assms by (fastforce simp: entity_text_def known_types_def)
  then have "split_on (CHR '','') (join '','' (map entity_text es)) = map entity_text es"
    by (intro split_on_join) (simp_all add: Cons)
  moreover have "map strip_type (map entity_text es) = map fst es"
    using assms strip_known by (fastforce simp: map_eq_conv)
  ultimately show ?thesis using ne by (simp add: parse_entities_def)
qed (simp add: parse_entities_def)

lemma parse_relation_text:
  "CHR ''|'' \<notin> set s \<Longrightarrow> CHR ''|'' \<notin> set r \<Longrightarrow> parse_relation (relation_text (s, r, ob)) = Some (s, r, ob)"
  by (simp add: parse_relation_def relation_text_def split_once_append)

lemma parse_relations_join:
  assumes "\<forall>(s, r, ob) \<in> set ts. plain_field s \<and> plain_field r \<and> CHR '','' \<notin> set ob"
  shows "parse_relations (join '','' (map relation_text ts)) = ts"
proof (cases ts)
  case (Cons t ts')
  have ne: "join '','' (map relation_text ts) \<noteq> []"
    unfolding Cons by (cases ts'; cases t) (simp_all add: relation_text_def)
  have "\<forall>x \<in> set (map relation_text ts). CHR '','' \<notin> set x"
    using assms by (fastforce simp: relation_text_def plain_field_def)
  then have "split_on (CHR '','') (join '','' (map relation_text ts)) = map relation_text ts"
    by (intro split_on_join) (simp_all add: Cons)
  moreover have "List.map_filter parse_relation (map relation_text us) = us"
    if "set us \<subseteq> set ts" for us
    using that
  proof (induction us)
    case (Cons u us)
    obtain s r ob where u: "u = (s, r, ob)" by (cases u)
    with Cons.prems assms have "plain_field s" "plain_field r" by auto
    then have "parse_relation (relation_text u) = Some u"
      unfolding u by (intro parse_relation_text) (simp_all add: plain_field_def)
    with Cons show ?case by (simp add: List.map_filter_simps)
  qed (simp add: List.map_filter_simps)
  ultimately show ?thesis using ne by (simp add: parse_relations_def)
qed (simp add: parse_relations_def)



text \<open>Witness: a provider that marks ciphertext with a leading zero byte.\<close>

definition w_mark_provider :: provider where
  "w_mark_provider = \<lparr>pv_enabled = True, pv_encrypt = (\<lambda>s p. Inr (char_of (0 :: nat) # p)),
     pv_decrypt = (\<lambda>s b. Inr (tl b)), pv_ser = (\<lambda>x. []), pv_de = (\<lambda>x. None),
     pv_is_encrypted = (\<lambda>b. b \<noteq> [] \<and> hd b = char_of (0 :: nat))\<rparr>"

definition w_mark_store :: store where
  "w_mark_store = \<lparr>st_db = [], st_emb = [], st_prov = w_mark_provider, st_last_scan = None,
     st_at_rest_key_present = True\<rparr>"


end
