(* ===== verification/SearchIndex.thy ===== *)
theory SearchIndex
  imports StoreOps EntityRows
begin

text \<open>
  The full-text index at the level of documents (\<^verbatim>\<open>loomem-core/src/tantivy_index.rs\<close> with its
  submodules \<^verbatim>\<open>temporal\<close> and \<^verbatim>\<open>lifecycle\<close>). Tantivy is a library: of it the model keeps what the
  repository relies on, namely that the writer applies deletions and additions in order, that
  searches see the last commit, and that uncommitted work is lost when the process stops. Dates are
  parsed and printed by chrono, which is an argument. Query parsing and scoring are not modelled.
\<close>

section \<open>Documents\<close>

record text_document =
  td_id :: string
  td_content :: string
  td_user_id :: string
  td_app_id :: string
  td_level :: int
  td_timestamp :: int
  td_stream :: string
  td_entities :: "string option"
  td_relations :: "string option"
  td_event_date :: "int option"
  td_source_agent :: "string option"

text \<open>A document as it was added to the index.\<close>

record index_doc =
  dx_id :: string
  dx_content :: string
  dx_user_id :: string
  dx_app_id :: string
  dx_level :: int
  dx_timestamp :: int
  dx_stream :: string
  dx_event_date :: "int option"
  dx_entities :: "string option"
  dx_relations :: "string option"
  dx_source_agent :: string

record tantivy_index =
  tx_staged :: "index_doc list"
  tx_committed :: "index_doc list"

definition open_index :: "index_doc list \<Rightarrow> tantivy_index" where
  "open_index docs = \<lparr>tx_staged = docs, tx_committed = docs\<rparr>"

definition delete_id_term :: "string \<Rightarrow> tantivy_index \<Rightarrow> tantivy_index" where
  "delete_id_term i ix = ix\<lparr>tx_staged := filter (\<lambda>d. dx_id d \<noteq> i) (tx_staged ix)\<rparr>"

definition delete_stream_term :: "string \<Rightarrow> tantivy_index \<Rightarrow> tantivy_index" where
  "delete_stream_term s ix = ix\<lparr>tx_staged := filter (\<lambda>d. dx_stream d \<noteq> s) (tx_staged ix)\<rparr>"

definition commit_index :: "tantivy_index \<Rightarrow> tantivy_index" where
  "commit_index ix = ix\<lparr>tx_committed := tx_staged ix\<rparr>"

definition write_temporal_document :: "text_document \<Rightarrow> int option \<Rightarrow> tantivy_index \<Rightarrow> tantivy_index" where
  "write_temporal_document d event ix =
     ix\<lparr>tx_staged := tx_staged ix @
       [\<lparr>dx_id = td_id d, dx_content = td_content d, dx_user_id = td_user_id d, dx_app_id = td_app_id d,
         dx_level = td_level d, dx_timestamp = td_timestamp d, dx_stream = td_stream d,
         dx_event_date = event, dx_entities = td_entities d, dx_relations = td_relations d,
         dx_source_agent = (case td_source_agent d of None \<Rightarrow> ''unknown'' | Some a \<Rightarrow> a)\<rparr>]\<rparr>"

section \<open>Operations\<close>

definition index_document :: "text_document \<Rightarrow> tantivy_index \<Rightarrow> tantivy_index" where
  "index_document d ix =
     write_temporal_document d
       (Some (case td_event_date d of None \<Rightarrow> td_timestamp d | Some t \<Rightarrow> t)) ix"

definition upsert_document :: "text_document \<Rightarrow> tantivy_index \<Rightarrow> tantivy_index" where
  "upsert_document d ix = index_document d (delete_id_term (td_id d) ix)"

record chrono =
  parse_ymd :: "string \<Rightarrow> int option"
  format_ymd :: "int \<Rightarrow> string"

definition owned :: "chunk \<Rightarrow> bool" where
  "owned c \<longleftrightarrow> is_ingest_source c \<or> is_ingest_fact_shape c \<or> is_ingest_fragment c"

text \<open>Days since the epoch; midnight is a multiple of a day, noon twelve hours later.\<close>

definition event_timestamp_for_chunk :: "chrono \<Rightarrow> chunk \<Rightarrow> int option" where
  "event_timestamp_for_chunk ch c =
     (if \<not> owned c then None
      else Option.bind (ch_extraction_meta c) (\<lambda>m.
           Option.bind (em_event_date m) (\<lambda>raw.
           Option.bind (parse_ymd ch raw) (\<lambda>day.
             if format_ymd ch day \<noteq> raw then None else Some (day * 86400)))))"

definition bind_document :: "text_document \<Rightarrow> chunk \<Rightarrow> unit res" where
  "bind_document d c =
     ensure (td_id d = ch_id c \<and> td_stream d = ch_stream c) ''index document/chunk identity mismatch''"

definition index_chunk_document ::
  "chrono \<Rightarrow> text_document \<Rightarrow> chunk \<Rightarrow> tantivy_index \<Rightarrow> tantivy_index res" where
  "index_chunk_document ch d c ix =
     rbind (bind_document d c) (\<lambda>_.
       if ch_deleted_at c \<noteq> None then Inr (delete_id_term (td_id d) ix)
       else Inr (write_temporal_document d
         (if owned c then event_timestamp_for_chunk ch c
          else Some (case td_event_date d of None \<Rightarrow> td_timestamp d | Some t \<Rightarrow> t)) ix))"

definition upsert_chunk_document ::
  "chrono \<Rightarrow> text_document \<Rightarrow> chunk \<Rightarrow> tantivy_index \<Rightarrow> tantivy_index res" where
  "upsert_chunk_document ch d c ix =
     rbind (bind_document d c) (\<lambda>_. index_chunk_document ch d c (delete_id_term (td_id d) ix))"

definition delete_document :: "string \<Rightarrow> tantivy_index \<Rightarrow> tantivy_index" where
  "delete_document i ix = commit_index (delete_id_term i ix)"

definition delete_stream :: "string \<Rightarrow> tantivy_index \<Rightarrow> tantivy_index" where
  "delete_stream s ix = commit_index (delete_stream_term s ix)"

definition delete_all :: "tantivy_index \<Rightarrow> tantivy_index" where
  "delete_all ix = commit_index (ix\<lparr>tx_staged := []\<rparr>)"

definition count_docs :: "tantivy_index \<Rightarrow> nat" where
  "count_docs ix = length (tx_committed ix)"

definition count_stream :: "tantivy_index \<Rightarrow> string \<Rightarrow> nat" where
  "count_stream ix s = length (filter (\<lambda>d. dx_stream d = s) (tx_committed ix))"

section \<open>Rebuild and repair\<close>

abbreviation i64_max :: nat where "i64_max \<equiv> 9223372036854775807"

text \<open>\<^verbatim>\<open>as i64\<close> wraps, \<^verbatim>\<open>i64::try_from\<close> fails.\<close>

definition as_i64 :: "nat \<Rightarrow> int" where
  "as_i64 n = (if n \<le> i64_max then int n else int n - 18446744073709551616)"

definition try_i64 :: "string \<Rightarrow> nat \<Rightarrow> int res" where
  "try_i64 msg n = (if n \<le> i64_max then Inr (int n) else Inl (Err msg))"

text \<open>The event date of a chunk at noon, for documents of chunks that are not managed.\<close>

definition noon_of :: "chrono \<Rightarrow> chunk \<Rightarrow> int option" where
  "noon_of ch c =
     Option.bind (ch_extraction_meta c) (\<lambda>m.
     Option.bind (em_event_date m) (\<lambda>raw. map_option (\<lambda>day. day * 86400 + 43200) (parse_ymd ch raw)))"

definition rebuild_doc :: "chrono \<Rightarrow> (string \<Rightarrow> string) \<Rightarrow> store \<Rightarrow> chunk \<Rightarrow> text_document" where
  "rebuild_doc ch lower st c =
     \<lparr>td_id = ch_id c, td_content = ch_content c, td_user_id = ''default'', td_app_id = ''default'',
      td_level = ch_level c, td_timestamp = as_i64 (ch_timestamp c), td_stream = ch_stream c,
      td_entities = (case get_entities st (ch_id c) (ch_stream c) of
                       Inl e \<Rightarrow> None | Inr es \<Rightarrow> if es = [] then None else Some (join '','' es)),
      td_relations = (case get_relations st (ch_id c) (ch_stream c) of
                       Inl e \<Rightarrow> None
                     | Inr ts \<Rightarrow> if ts = [] then None
                                 else Some (join '', '' (map (\<lambda>(s, r, ob). lower s @ '' '' @ r @ '' '' @ lower ob) ts))),
      td_event_date = noon_of ch c,
      td_source_agent = map_option tag_agent (ch_source c)\<rparr>"

fun index_chunks :: "chrono \<Rightarrow> (chunk \<Rightarrow> text_document) \<Rightarrow> chunk list \<Rightarrow> tantivy_index \<Rightarrow> tantivy_index res" where
  "index_chunks ch doc [] ix = Inr ix"
| "index_chunks ch doc (c # cs) ix =
     rbind (index_chunk_document ch (doc c) c ix) (index_chunks ch doc cs)"

definition rebuild_from_rocksdb ::
  "chrono \<Rightarrow> (string \<Rightarrow> string) \<Rightarrow> nat \<Rightarrow> store \<Rightarrow> tantivy_index \<Rightarrow> (tantivy_index \<times> store) res" where
  "rebuild_from_rocksdb ch lower now st ix =
     (let (chunks, st') = get_all_chunks st now
      in rbind (index_chunks ch (rebuild_doc ch lower st') chunks (delete_all ix)) (\<lambda>ix'.
           Inr (commit_index ix', st')))"

definition repair_document :: "store \<Rightarrow> chunk \<Rightarrow> text_document res" where
  "repair_document st c =
     rbind (get_entities st (ch_id c) (ch_stream c)) (\<lambda>es.
     rbind (get_relations st (ch_id c) (ch_stream c)) (\<lambda>ts.
     rbind (try_i64 ''index repair timestamp exceeds i64'' (ch_timestamp c)) (\<lambda>t.
       Inr \<lparr>td_id = ch_id c, td_content = ch_content c, td_user_id = ''default'', td_app_id = ''default'',
            td_level = ch_level c, td_timestamp = t, td_stream = ch_stream c,
            td_entities = Some (join '','' es),
            td_relations = Some (join '', '' (map (\<lambda>(s, r, ob). s @ '' '' @ r @ '' '' @ ob) ts)),
            td_event_date = None, td_source_agent = map_option tag_agent (ch_source c)\<rparr>)))"

fun repair_chunks :: "chrono \<Rightarrow> store \<Rightarrow> chunk list \<Rightarrow> tantivy_index \<Rightarrow> tantivy_index res" where
  "repair_chunks ch st [] ix = Inr ix"
| "repair_chunks ch st (c # cs) ix =
     (if ch_deleted_at c \<noteq> None then repair_chunks ch st cs (delete_id_term (ch_id c) ix)
      else rbind (repair_document st c) (\<lambda>d.
           rbind (upsert_chunk_document ch d c ix) (repair_chunks ch st cs)))"

definition repair_ingest_event_dates ::
  "chrono \<Rightarrow> store \<Rightarrow> tantivy_index \<Rightarrow> (nat \<times> tantivy_index) res" where
  "repair_ingest_event_dates ch st ix =
     rbind (ingest_chunks_for_index_repair st) (\<lambda>cs.
     rbind (repair_chunks ch st cs ix) (\<lambda>ix'. Inr (length cs, commit_index ix')))"

section \<open>Documents of one id\<close>

definition docs_of :: "string \<Rightarrow> index_doc list \<Rightarrow> index_doc list" where
  "docs_of i ds = filter (\<lambda>d. dx_id d = i) ds"

lemma docs_of_simps [simp]:
  "docs_of i [] = []"
  "docs_of i (xs @ ys) = docs_of i xs @ docs_of i ys"
  "docs_of i (filter (\<lambda>d. dx_id d \<noteq> j) ds) = (if i = j then [] else docs_of i ds)"
  by (auto simp: docs_of_def filter_empty_conv intro: filter_cong)

lemma docs_of_stream:
  "docs_of i (filter (\<lambda>d. dx_stream d \<noteq> s) ds) = filter (\<lambda>d. dx_stream d \<noteq> s) (docs_of i ds)"
  by (auto simp: docs_of_def intro: filter_cong)

lemma upsert_chunk_docs:
  assumes "upsert_chunk_document ch d c ix = Inr ix'"
  shows "tx_committed ix' = tx_committed ix \<and>
    docs_of j (tx_staged ix') =
      (if j = ch_id c
       then (if ch_deleted_at c = None
             then docs_of j (tx_staged (write_temporal_document d
               (if owned c then event_timestamp_for_chunk ch c
                else Some (case td_event_date d of None \<Rightarrow> td_timestamp d | Some t \<Rightarrow> t)) (open_index [])))
             else [])
       else docs_of j (tx_staged ix)) \<and> td_id d = ch_id c \<and> td_stream d = ch_stream c"
  using assms
  by (auto simp: upsert_chunk_document_def index_chunk_document_def bind_document_def delete_id_term_def
      write_temporal_document_def open_index_def docs_of_def filter_empty_conv split: if_splits intro: filter_cong)

end
