(* ===== verification/Recovery.thy ===== *)
theory Recovery
  imports IntentLog SearchIndex
begin

text \<open>
  The operations that write the store and the full-text index together under the intent log, and
  the recovery that replays what a stop left open (\<^verbatim>\<open>loomem-core/src/intent_log/recovery.rs\<close>,
  \<^verbatim>\<open>storage/persist.rs\<close>, and the write paths of \<^verbatim>\<open>loomem-server/src/handlers/admin.rs\<close>,
  \<^verbatim>\<open>purge.rs\<close>, \<^verbatim>\<open>delete.rs\<close>). The process can stop between any two of their durable effects, so
  an operation is the list of its effects in program order, and a stopped operation is a prefix of
  the list. Effects on the graph and the query cache are not part of the model. A disk error of
  the index writer is a stop at the effect where the handler passes it on (the server then keeps
  running); where the handler swallows it and goes on, the outcome of the deletion is an argument.
\<close>

section \<open>The engine\<close>

record engine =
  en_store :: store
  en_index :: tantivy_index
  en_log :: intent_log

text \<open>The clocks, the date library, the length of a log line, and the UUIDs drawn by the store.\<close>

record ctx =
  cx_chrono :: chrono
  cx_llen :: "log_line \<Rightarrow> nat"
  cx_millis :: nat
  cx_secs :: nat
  cx_uuid :: "nat \<Rightarrow> string"

type_synonym step = "engine \<Rightarrow> engine res"

text \<open>A list of effects runs until one fails; what was done before stays done.\<close>

fun run_steps :: "step list \<Rightarrow> engine \<Rightarrow> unit res \<times> engine" where
  "run_steps [] e = (Inr (), e)"
| "run_steps (s # ss) e = (case s e of Inl x \<Rightarrow> (Inl x, e) | Inr e' \<Rightarrow> run_steps ss e')"

definition append_step :: "ctx \<Rightarrow> op_type \<Rightarrow> string \<Rightarrow> step" where
  "append_step cx op i e =
     Inr (e\<lparr>en_log := snd (append_pending (cx_llen cx) (cx_millis cx) op i (en_log e))\<rparr>)"

definition mark_step :: "ctx \<Rightarrow> nat \<Rightarrow> op_type \<Rightarrow> string \<Rightarrow> step" where
  "mark_step cx s op i e =
     Inr (e\<lparr>en_log := mark_committed (cx_llen cx) (cx_millis cx) s op i (en_log e)\<rparr>)"

definition store_step :: "chunk \<Rightarrow> string \<Rightarrow> step" where
  "store_step c u e =
     rbind (store_chunk (en_store e) c u) (\<lambda>st. Inr (e\<lparr>en_store := st\<rparr>))"

definition upsert_step :: "ctx \<Rightarrow> text_document \<Rightarrow> chunk \<Rightarrow> step" where
  "upsert_step cx d c e =
     rbind (upsert_chunk_document (cx_chrono cx) d c (en_index e)) (\<lambda>ix. Inr (e\<lparr>en_index := ix\<rparr>))"

definition commit_step :: step where
  "commit_step e = Inr (e\<lparr>en_index := commit_index (en_index e)\<rparr>)"

definition delete_step :: "ctx \<Rightarrow> string \<Rightarrow> string \<Rightarrow> step" where
  "delete_step cx i u e =
     rbind (delete_by_id (en_store e) i (cx_secs cx) u) (\<lambda>(found, st). Inr (e\<lparr>en_store := st\<rparr>))"

definition hard_delete_step :: "string \<Rightarrow> step" where
  "hard_delete_step i e =
     rbind (hard_delete_by_id (en_store e) i) (\<lambda>(found, st). Inr (e\<lparr>en_store := st\<rparr>))"

definition purge_step :: "string \<Rightarrow> step" where
  "purge_step s e =
     rbind (purge_namespace (en_store e) s False) (\<lambda>(ids, st). Inr (e\<lparr>en_store := st\<rparr>))"

definition delete_document_step :: "string \<Rightarrow> step" where
  "delete_document_step i e = Inr (e\<lparr>en_index := delete_document i (en_index e)\<rparr>)"

definition delete_stream_step :: "string \<Rightarrow> step" where
  "delete_stream_step s e = Inr (e\<lparr>en_index := delete_stream s (en_index e)\<rparr>)"

text \<open>
  \<^verbatim>\<open>delete_document\<close> queues a deletion and commits. When the commit or the reload of the reader
  fails, searches still see the document, and the queued deletion waits for the next commit or is
  lost. Handlers that carry on after the error are given the outcome for each id.
\<close>

datatype delete_outcome = Deleted | StillQueued | NotDeleted

definition try_delete_document :: "delete_outcome \<Rightarrow> string \<Rightarrow> tantivy_index \<Rightarrow> tantivy_index" where
  "try_delete_document oc i ix =
     (case oc of Deleted \<Rightarrow> delete_document i ix | StillQueued \<Rightarrow> delete_id_term i ix | NotDeleted \<Rightarrow> ix)"

definition tolerant_delete_step :: "(string \<Rightarrow> delete_outcome) \<Rightarrow> string \<Rightarrow> step" where
  "tolerant_delete_step oc i e = Inr (e\<lparr>en_index := try_delete_document (oc i) i (en_index e)\<rparr>)"

section \<open>The write paths\<close>

record persist_args =
  pa_chunk :: chunk
  pa_doc :: text_document
  pa_intent_log :: bool
  pa_op :: op_type

definition persist_steps :: "ctx \<Rightarrow> persist_args \<Rightarrow> nat \<Rightarrow> step list" where
  "persist_steps cx a s =
     (if pa_intent_log a then [append_step cx (pa_op a) (ch_id (pa_chunk a))] else []) @
     [store_step (pa_chunk a) (cx_uuid cx s), upsert_step cx (pa_doc a) (pa_chunk a), commit_step] @
     (if pa_intent_log a then [mark_step cx s (pa_op a) (ch_id (pa_chunk a))] else [])"

definition persist_chunk_with_index :: "ctx \<Rightarrow> persist_args \<Rightarrow> engine \<Rightarrow> unit res \<times> engine" where
  "persist_chunk_with_index cx a e = run_steps (persist_steps cx a (log_next_seq (en_log e))) e"

definition delete_handler_steps :: "ctx \<Rightarrow> string \<Rightarrow> nat \<Rightarrow> step list" where
  "delete_handler_steps cx i s =
     [append_step cx Delete i, delete_step cx i (cx_uuid cx s), delete_document_step i,
      mark_step cx s Delete i]"

text \<open>The single-chunk purge keeps an index error in its outcome and commits the intent all the same.\<close>

definition purge_memory_steps :: "ctx \<Rightarrow> string \<Rightarrow> (string \<Rightarrow> delete_outcome) \<Rightarrow> nat \<Rightarrow> step list" where
  "purge_memory_steps cx i oc s =
     [append_step cx PurgeChunk i, hard_delete_step i, tolerant_delete_step oc i,
      mark_step cx s PurgeChunk i]"

definition purge_namespace_steps :: "ctx \<Rightarrow> string \<Rightarrow> bool \<Rightarrow> nat \<Rightarrow> step list" where
  "purge_namespace_steps cx str dry_run s =
     (if dry_run then []
      else [append_step cx Purge str, purge_step str, delete_stream_step str, mark_step cx s Purge str])"

text \<open>
  The purge of a configured namespace deletes the documents of the returned ids one by one and
  ignores their errors.
\<close>

definition api_purge_namespace_steps ::
  "ctx \<Rightarrow> string \<Rightarrow> bool \<Rightarrow> (string \<Rightarrow> delete_outcome) \<Rightarrow> store \<Rightarrow> nat \<Rightarrow> step list" where
  "api_purge_namespace_steps cx str dry_run oc st s =
     (if dry_run then []
      else append_step cx Purge str # purge_step str #
        (case purge_namespace st str False of
           Inl x \<Rightarrow> []
         | Inr (ids, _) \<Rightarrow> map (tolerant_delete_step oc) ids) @
        [mark_step cx s Purge str])"

text \<open>
  \<^verbatim>\<open>delete_memory_fully\<close>, behind the REST and the MCP deletion: a recognised source goes with its
  descendants, any other chunk alone. Errors of the index are collected, not passed on. The REST
  handler logs an intent that names the requested id only; the MCP tool logs none.
\<close>

definition tombstone_step :: "ctx \<Rightarrow> string \<Rightarrow> (string \<Rightarrow> string) \<Rightarrow> step" where
  "tombstone_step cx i us e =
     rbind (tombstone_ingest_source (en_store e) i (cx_secs cx) us) (\<lambda>(r, st). Inr (e\<lparr>en_store := st\<rparr>))"

definition delete_embedding :: "store \<Rightarrow> string \<Rightarrow> store" where
  "delete_embedding st i = st\<lparr>st_emb := kv_delete i (st_emb st)\<rparr>"

definition embedding_step :: "string \<Rightarrow> step" where
  "embedding_step i e = Inr (e\<lparr>en_store := delete_embedding (en_store e) i\<rparr>)"

definition cleanup_steps :: "(string \<Rightarrow> delete_outcome) \<Rightarrow> string \<Rightarrow> step list" where
  "cleanup_steps oc i = [tolerant_delete_step oc i, embedding_step i]"

definition delete_memory_steps ::
  "ctx \<Rightarrow> string \<Rightarrow> (string \<Rightarrow> string) \<Rightarrow> (string \<Rightarrow> delete_outcome) \<Rightarrow> store \<Rightarrow> step list" where
  "delete_memory_steps cx i us oc st =
     (case tombstone_ingest_source st i (cx_secs cx) us of
        Inr (Some ids, _) \<Rightarrow> tombstone_step cx i us # concat (map (cleanup_steps oc) ids)
      | Inr (None, _) \<Rightarrow> delete_step cx i (us i) # cleanup_steps oc i
      | Inl x \<Rightarrow> [tombstone_step cx i us])"

definition api_delete_steps ::
  "ctx \<Rightarrow> string \<Rightarrow> (string \<Rightarrow> string) \<Rightarrow> (string \<Rightarrow> delete_outcome) \<Rightarrow> store \<Rightarrow> nat \<Rightarrow> step list" where
  "api_delete_steps cx i us oc st s =
     append_step cx Delete i # delete_memory_steps cx i us oc st @ [mark_step cx s Delete i]"

text \<open>The scheduled hard purge of soft-deleted chunks: it ignores every error and logs no intent.\<close>

definition hard_delete_or_skip_step :: "string \<Rightarrow> step" where
  "hard_delete_or_skip_step i e = (case hard_delete_step i e of Inl x \<Rightarrow> Inr e | Inr e' \<Rightarrow> Inr e')"

definition hard_purge_steps :: "(string \<Rightarrow> delete_outcome) \<Rightarrow> string list \<Rightarrow> step list" where
  "hard_purge_steps oc ids =
     concat (map (\<lambda>i. [tolerant_delete_step oc i, hard_delete_or_skip_step i]) ids)"

section \<open>Recovery\<close>

definition build_recovery_text_doc :: "ctx \<Rightarrow> store \<Rightarrow> chunk \<Rightarrow> text_document res" where
  "build_recovery_text_doc cx st c =
     rbind (get_entities st (ch_id c) (ch_stream c)) (\<lambda>es.
     rbind (get_relations st (ch_id c) (ch_stream c)) (\<lambda>ts.
     rbind (try_i64 ''Recovery timestamp exceeds i64'' (ch_timestamp c)) (\<lambda>t.
       Inr \<lparr>td_id = ch_id c, td_content = ch_content c, td_user_id = [], td_app_id = [],
            td_level = ch_level c, td_timestamp = t, td_stream = ch_stream c,
            td_entities = Some (join '' '' es),
            td_relations = Some (join '' '' (map (\<lambda>(s, r, ob). s @ '' '' @ r @ '' '' @ ob) ts)),
            td_event_date = noon_of (cx_chrono cx) c,
            td_source_agent = map_option tag_agent (ch_source c)\<rparr>)))"

definition replay_chunk_to_tantivy ::
  "ctx \<Rightarrow> store \<Rightarrow> tantivy_index \<Rightarrow> string \<Rightarrow> (bool \<times> tantivy_index) res" where
  "replay_chunk_to_tantivy cx st ix i =
     rbind (get_chunk st i) (\<lambda>co.
       case co of
         Some c \<Rightarrow>
           if ch_deleted_at c = None
           then rbind (build_recovery_text_doc cx st c) (\<lambda>d.
                rbind (upsert_chunk_document (cx_chrono cx) d c ix) (\<lambda>ix'. Inr (True, ix')))
           else Inr (False, delete_document i ix)
       | None \<Rightarrow> Inr (False, delete_document i ix))"

text \<open>Whether a replayed entry counts as replayed (or skipped) in the report.\<close>

definition replay_counts :: "intent_entry \<Rightarrow> store \<Rightarrow> bool" where
  "replay_counts x st =
     (if e_op x \<in> {Store, Consolidate}
      then (case get_chunk st (e_id x) of Inr (Some c) \<Rightarrow> ch_deleted_at c = None | _ \<Rightarrow> False)
      else True)"

definition replay_chunk_step :: "ctx \<Rightarrow> string \<Rightarrow> step" where
  "replay_chunk_step cx i e =
     rbind (replay_chunk_to_tantivy cx (en_store e) (en_index e) i) (\<lambda>(b, ix). Inr (e\<lparr>en_index := ix\<rparr>))"

definition replay_delete_step :: "ctx \<Rightarrow> string \<Rightarrow> string \<Rightarrow> step" where
  "replay_delete_step cx i u e =
     rbind (get_chunk (en_store e) i) (\<lambda>co.
       if co = None then Inr e else delete_step cx i u e)"

definition replay_entry :: "ctx \<Rightarrow> intent_entry \<Rightarrow> step list" where
  "replay_entry cx x =
     (case e_op x of
        Store \<Rightarrow> [replay_chunk_step cx (e_id x)]
      | Consolidate \<Rightarrow> [replay_chunk_step cx (e_id x)]
      | Delete \<Rightarrow> [replay_delete_step cx (e_id x) (cx_uuid cx (e_seq x)), delete_document_step (e_id x)]
      | PurgeChunk \<Rightarrow> [hard_delete_step (e_id x), delete_document_step (e_id x)]
      | Purge \<Rightarrow> [purge_step (e_id x), delete_stream_step (e_id x)])"

definition recovery_steps :: "ctx \<Rightarrow> step \<Rightarrow> intent_entry list \<Rightarrow> step list" where
  "recovery_steps cx commit pending =
     concat (map (replay_entry cx) pending) @ [commit] @
     map (\<lambda>x. mark_step cx (e_seq x) (e_op x) (e_id x)) pending"

fun report_from :: "ctx \<Rightarrow> intent_entry list \<Rightarrow> engine \<Rightarrow> nat \<times> nat" where
  "report_from cx [] e = (0, 0)"
| "report_from cx (x # xs) e =
     (let (replayed, skipped) = report_from cx xs (snd (run_steps (replay_entry cx x) e))
      in if replay_counts x (en_store e) then (Suc replayed, skipped) else (replayed, Suc skipped))"

definition recover_with_commit :: "ctx \<Rightarrow> step \<Rightarrow> engine \<Rightarrow> (nat \<times> nat) res \<times> engine" where
  "recover_with_commit cx commit e =
     (let pending = scan_pending (en_log e)
      in if pending = [] then (Inr (0, 0), e)
         else (case run_steps (recovery_steps cx commit pending) e of
                 (Inl x, e') \<Rightarrow> (Inl x, e')
               | (Inr _, e') \<Rightarrow> (Inr (report_from cx pending e), e')))"

definition recover :: "ctx \<Rightarrow> engine \<Rightarrow> (nat \<times> nat) res \<times> engine" where
  "recover cx e = recover_with_commit cx commit_step e"

text \<open>A stopped process loses what the index had not committed; the log and the store stay.\<close>

definition restarted :: "intent_log \<Rightarrow> engine \<Rightarrow> engine" where
  "restarted l e = e\<lparr>en_index := open_index (tx_committed (en_index e)), en_log := l\<rparr>"

section \<open>Prefixes of effects\<close>

fun safe :: "(engine \<Rightarrow> bool) \<Rightarrow> step list \<Rightarrow> engine \<Rightarrow> bool" where
  "safe P [] e \<longleftrightarrow> P e"
| "safe P (s # ss) e \<longleftrightarrow> P e \<and> (case s e of Inl x \<Rightarrow> True | Inr e' \<Rightarrow> safe P ss e')"

lemma safe_prefix: "safe P ss e \<Longrightarrow> P (snd (run_steps (take k ss) e))"
proof (induction ss arbitrary: e k)
  case (Cons s ss)
  then show ?case by (cases k) (auto split: sum.splits)
qed simp

lemma run_steps_append:
  "run_steps (xs @ ys) e =
     (case run_steps xs e of (Inl x, e') \<Rightarrow> (Inl x, e') | (Inr _, e') \<Rightarrow> run_steps ys e')"
  by (induction xs arbitrary: e) (auto split: sum.splits)

lemma safe_append:
  "safe P xs e \<Longrightarrow> (\<And>e'. run_steps xs e = (Inr (), e') \<Longrightarrow> safe P ys e') \<Longrightarrow> safe P (xs @ ys) e"
  by (induction xs arbitrary: e) (auto split: sum.splits)

lemma safe_end: "safe P ss e \<Longrightarrow> P (snd (run_steps ss e))"
  using safe_prefix [of P ss e "length ss"] by simp

lemmas effect_defs = append_step_def mark_step_def store_step_def upsert_step_def commit_step_def
  delete_step_def hard_delete_step_def purge_step_def delete_document_step_def delete_stream_step_def
  tombstone_step_def tolerant_delete_step_def embedding_step_def

end
