(* ===== verification/CrashProps.thy ===== *)
theory CrashProps
  imports Recovery StoreProps
begin

text \<open>
  Crash consistency of the store, the full-text index and the intent log, for requests that run one
  after the other and may each be stopped at any effect. The index agrees with the store at every
  chunk except those an open intent accounts for and those in an explicit set: the chunks whose
  document nothing accounts for, because the request that wrote them logged no intent for them,
  wrote it into a torn log line, or swallowed an index error. Requests that do not swallow errors
  and log an intent for what they write never enlarge the set. A completed recovery leaves no
  disagreement outside it.
\<close>

section \<open>Agreement of index and store\<close>

definition live :: "store \<Rightarrow> string \<Rightarrow> chunk option" where
  "live st i =
     (case get_chunk st i of
        Inr (Some c) \<Rightarrow> if ch_deleted_at c = None then Some c else None
      | _ \<Rightarrow> None)"

text \<open>A live chunk has one document, with its content and stream; any other id has none.\<close>

definition agree :: "store \<Rightarrow> index_doc list \<Rightarrow> string \<Rightarrow> bool" where
  "agree st docs i \<longleftrightarrow>
     (case get_chunk st i of
        Inl x \<Rightarrow> True
      | Inr co \<Rightarrow>
          (case live st i of
             None \<Rightarrow> docs_of i docs = []
           | Some c \<Rightarrow> \<exists>d. docs_of i docs = [d] \<and> dx_content d = ch_content c \<and> dx_stream d = ch_stream c))"

text \<open>What an open intent covers: its own chunk, or what is left of a purged stream in the index.\<close>

definition covered :: "intent_entry set \<Rightarrow> store \<Rightarrow> index_doc list \<Rightarrow> string \<Rightarrow> bool" where
  "covered I st docs i \<longleftrightarrow>
     (\<exists>x \<in> I. (e_op x \<noteq> Purge \<and> e_id x = i) \<or>
        (e_op x = Purge \<and> live st i = None \<and> (\<forall>d \<in> set (docs_of i docs). dx_stream d = e_id x)))"

text \<open>Agreement everywhere, up to a set of ids and up to what is covered.\<close>

definition consistent :: "intent_entry set \<Rightarrow> string set \<Rightarrow> store \<Rightarrow> index_doc list \<Rightarrow> bool" where
  "consistent I U st docs \<longleftrightarrow> (\<forall>i. i \<in> U \<or> agree st docs i \<or> covered I st docs i)"

definition single_level :: "store \<Rightarrow> bool" where
  "single_level st \<longleftrightarrow>
     (\<forall>i l l'. kv_get (st_db st) (chunk_key l i) \<noteq> None \<and> kv_get (st_db st) (chunk_key l' i) \<noteq> None \<longrightarrow> l = l')"

lemma live_cong: "get_chunk st' i = get_chunk st i \<Longrightarrow> live st' i = live st i"
  by (simp add: live_def)

lemma agree_cong:
  "get_chunk st' i = get_chunk st i \<Longrightarrow> docs_of i docs' = docs_of i docs \<Longrightarrow> agree st' docs' i = agree st docs i"
  using live_cong [of st' i st] by (simp add: agree_def cong: option.case_cong sum.case_cong)

lemma covered_cong:
  "get_chunk st' i = get_chunk st i \<Longrightarrow> docs_of i docs' = docs_of i docs \<Longrightarrow>
     covered I st' docs' i = covered I st docs i"
  using live_cong [of st' i st] by (simp add: covered_def)

lemma consistent_mono: "consistent I U st docs \<Longrightarrow> I \<subseteq> I' \<Longrightarrow> U \<subseteq> U' \<Longrightarrow> consistent I' U' st docs"
  unfolding consistent_def covered_def by blast

lemma consistent_agree:
  "consistent I U st docs \<Longrightarrow> \<forall>i \<in> A. agree st docs i \<Longrightarrow> consistent I (U - A) st docs"
  unfolding consistent_def by blast

lemma consistent_named:
  "consistent I U st docs \<Longrightarrow> x \<in> I \<Longrightarrow> e_op x \<noteq> Purge \<Longrightarrow> consistent I (U - {e_id x}) st docs"
  unfolding consistent_def covered_def by blast

text \<open>Changes at one id with an intent of its own.\<close>

lemma consistent_at:
  assumes "consistent I U st docs" "x \<in> I" "e_op x \<noteq> Purge" "e_id x = i"
    and "\<And>j. j \<noteq> i \<Longrightarrow> get_chunk st' j = get_chunk st j"
    and "\<And>j. j \<noteq> i \<Longrightarrow> docs_of j docs' = docs_of j docs"
  shows "consistent I U st' docs'"
  unfolding consistent_def
proof
  fix j
  show "j \<in> U \<or> agree st' docs' j \<or> covered I st' docs' j"
  proof (cases "j = i")
    case True
    with assms(2-4) show ?thesis unfolding covered_def by blast
  next
    case False
    with assms agree_cong covered_cong show ?thesis unfolding consistent_def by metis
  qed
qed

text \<open>An intent of one chunk is settled once index and store agree there.\<close>

lemma consistent_settle:
  assumes "consistent I U st docs" "agree st docs i"
    and "\<And>x. x \<in> I \<Longrightarrow> x \<notin> I' \<Longrightarrow> e_op x \<noteq> Purge \<and> e_id x = i"
  shows "consistent I' U st docs"
  using assms unfolding consistent_def covered_def by metis

section \<open>Purging a stream\<close>

lemma purge_get_cases:
  assumes ok: "store_ok st" and single: "single_level st"
    and p: "purge_namespace st s False = Inr (ids, st')"
  shows "get_chunk st' i = get_chunk st i \<or>
    (get_chunk st' i = Inr None \<and> (\<forall>c. live st i = Some c \<longrightarrow> ch_stream c = s))"
proof (cases "i \<in> set ids")
  case False
  then have "kv_get (st_db st') (chunk_key lv i) = kv_get (st_db st) (chunk_key lv i)" for lv
    using purge_effect [OF ok p] sidecar_key_other(1) [of "set ids" "chunk_key lv i" lv i]
    by (auto simp: derived_keys_def)
  moreover have "st_prov st' = st_prov st" using p by (auto simp: purge_namespace_def)
  ultimately show ?thesis using get_chunk_cong by blast
next
  case True
  have "purge_ids (st_prov st) (kv_prefix ''chunk:'' (st_db st)) s = Inr ids"
    using p by (auto simp: purge_namespace_def)
  from purge_ids_set [OF this, of i] True obtain k r c where r: "kv_get (st_db st) k = Some r"
      "starts_with k ''chunk:''" "decode_chunk (st_prov st) r = Inr c" "ch_stream c = s" "ch_id c = i"
    using ok by (auto simp: store_ok_def kv_prefix_get)
  then have k: "k = chunk_key (ch_level c) i"
    using ok unfolding store_ok_def row_keyed_def by blast
  have "c' = c" if "live st i = Some c'" for c'
  proof -
    from that have "get_chunk st i = Inr (Some c')" by (auto simp: live_def split: sum.splits option.splits if_splits)
    from get_chunk_found [OF this] obtain lv r' where r': "kv_get (st_db st) (chunk_key lv i) = Some r'"
        "decode_chunk (st_prov st) r' = Inr c'" by blast
    moreover have "lv = ch_level c" using single r(1) r'(1) k unfolding single_level_def by blast
    ultimately show ?thesis using r k by simp
  qed
  moreover have "get_chunk st' i = Inr None"
  proof -
    have "kv_get (st_db st') (chunk_key lv i) = None" if "lv \<in> {0, 1, 2}" for lv
      using purge_effect [OF ok p] True that by (auto simp: derived_keys_def)
    then show ?thesis by (simp add: get_chunk_def)
  qed
  ultimately show ?thesis using r(4) by blast
qed

lemma agree_gone:
  "agree st docs i \<Longrightarrow> get_chunk st i = Inr co \<Longrightarrow> (\<forall>c. live st i = Some c \<longrightarrow> ch_stream c = s) \<Longrightarrow>
     \<forall>d \<in> set (docs_of i docs). dx_stream d = s"
  by (auto simp: agree_def split: option.splits)

lemma purge_all_decode:
  assumes "store_ok st" "purge_ids (st_prov st) (kv_prefix ''chunk:'' (st_db st)) s = Inr ids"
  shows "\<exists>co. get_chunk st i = Inr co"
proof -
  have "\<exists>c. decode_chunk (st_prov st) r = Inr c" if "(k, r) \<in> set rs" "purge_ids (st_prov st) rs s = Inr ids'" for k r rs ids'
    using that by (induction rs arbitrary: ids') (auto split: sum.splits)
  then have "\<exists>c. decode_chunk (st_prov st) r = Inr c" if "kv_get (st_db st) (chunk_key lv i) = Some r" for lv r
    using assms that by (metis chunk_key_prefix kv_prefix_get store_ok_def)
  then show ?thesis by (fastforce simp: get_chunk_def split: option.split)
qed

lemma consistent_purge_store:
  assumes "store_ok st" "single_level st" "purge_namespace st s False = Inr (ids, st')"
    and "consistent I U st docs" "x \<in> I" "e_op x = Purge" "e_id x = s"
  shows "consistent I U st' docs"
  unfolding consistent_def
proof
  fix i
  have "purge_ids (st_prov st) (kv_prefix ''chunk:'' (st_db st)) s = Inr ids"
    using assms(3) by (auto simp: purge_namespace_def)
  then obtain co where co: "get_chunk st i = Inr co" using purge_all_decode [OF assms(1)] by blast
  from purge_get_cases [OF assms(1-3), of i]
  show "i \<in> U \<or> agree st' docs i \<or> covered I st' docs i"
  proof (elim disjE conjE)
    assume "get_chunk st' i = get_chunk st i"
    then show ?thesis
      using assms(4) agree_cong [of st' i st docs docs] covered_cong [of st' i st docs docs I]
      unfolding consistent_def by blast
  next
    assume gone: "get_chunk st' i = Inr None" and s: "\<forall>c. live st i = Some c \<longrightarrow> ch_stream c = s"
    have dead: "live st' i = None" using gone by (simp add: live_def)
    from assms(4) consider "i \<in> U" | "agree st docs i" | "covered I st docs i" unfolding consistent_def by blast
    then show ?thesis
    proof cases
      case 2
      from agree_gone [OF this co s] dead assms(5-7) show ?thesis unfolding covered_def by blast
    next
      case 3
      with dead show ?thesis unfolding covered_def by blast
    qed simp
  qed
qed

lemma consistent_purge_docs:
  assumes "consistent I U st docs" "\<nexists>i c. live st i = Some c \<and> ch_stream c = s"
    and I': "\<And>x. x \<in> I \<Longrightarrow> x \<notin> I' \<Longrightarrow> e_op x = Purge \<and> e_id x = s"
  shows "consistent I' U st (filter (\<lambda>d. dx_stream d \<noteq> s) docs)"
  unfolding consistent_def
proof
  fix i
  let ?docs = "filter (\<lambda>d. dx_stream d \<noteq> s) docs"
  from assms(1) consider "i \<in> U" | "agree st docs i" | "covered I st docs i" unfolding consistent_def by blast
  then show "i \<in> U \<or> agree st ?docs i \<or> covered I' st ?docs i"
  proof cases
    case 2
    then show ?thesis using assms(2) by (auto simp: agree_def docs_of_stream split: sum.splits option.splits)
  next
    case 3
    then obtain x where x: "x \<in> I" "(e_op x \<noteq> Purge \<and> e_id x = i) \<or>
        (e_op x = Purge \<and> live st i = None \<and> (\<forall>d \<in> set (docs_of i docs). dx_stream d = e_id x))"
      unfolding covered_def by blast
    show ?thesis
    proof (cases "x \<in> I'")
      case True
      with x have "covered I' st ?docs i" unfolding covered_def by (auto simp: docs_of_stream)
      then show ?thesis by blast
    next
      case False
      with I' x have "live st i = None" "\<forall>d \<in> set (docs_of i docs). dx_stream d = s" by auto
      then have "docs_of i ?docs = []" by (simp add: docs_of_stream filter_empty_conv)
      with \<open>live st i = None\<close> show ?thesis by (simp add: agree_def split: sum.split)
    qed
  qed simp
qed

section \<open>The effects one by one\<close>

lemma single_levelD:
  "single_level st \<Longrightarrow> kv_get (st_db st) (chunk_key l i) = Some r \<Longrightarrow>
     kv_get (st_db st) (chunk_key l' i) = Some r' \<Longrightarrow> l = l'"
  unfolding single_level_def by blast

lemma single_level_rows:
  assumes "single_level st" "\<And>l i. kv_get (st_db st') (chunk_key l i) \<noteq> None \<Longrightarrow> kv_get (st_db st) (chunk_key l i) \<noteq> None"
  shows "single_level st'"
  using assms unfolding single_level_def by blast

lemma store_locked_rows:
  assumes "store_chunk_locked st c u = Inr st'"
  shows "\<exists>r. encode_chunk (st_prov st) c = Inr r \<and> kv_get (st_db st') (chunk_key l i) =
    (if l = ch_level c \<and> i = ch_id c then Some r else kv_get (st_db st) (chunk_key l i))"
  using assms by (rule store_chunk_lockedE) (auto simp: store_batch_get)

lemma store_locked_effect:
  assumes ok: "store_ok st" and single: "single_level st" and s: "store_chunk_locked st c u = Inr st'"
    and lv: "ch_level c \<in> {0, 1, 2}" "\<And>l. kv_get (st_db st) (chunk_key l (ch_id c)) \<noteq> None \<Longrightarrow> l = ch_level c"
  shows "store_ok st' \<and> single_level st' \<and> get_chunk st' (ch_id c) = Inr (Some c) \<and>
    (\<forall>j. j \<noteq> ch_id c \<longrightarrow> get_chunk st' j = get_chunk st j)"
proof -
  note rows = store_locked_rows [OF s]
  obtain r where r: "encode_chunk (st_prov st) c = Inr r" using rows by blast
  have row: "kv_get (st_db st') (chunk_key l i) =
      (if l = ch_level c \<and> i = ch_id c then Some r else kv_get (st_db st) (chunk_key l i))" for l i
    using rows [of l i] r by auto
  have dec: "decode_chunk (st_prov st') r = Inr c"
    using ok r store_locked_prov [OF s] by (simp add: decode_encode store_ok_def)
  have none: "kv_get (st_db st) (chunk_key l (ch_id c)) = None" if "l \<noteq> ch_level c" for l
    using lv(2) that by blast
  have "get_chunk st' (ch_id c) = Inr (Some c)"
    using lv(1) none by (auto simp: get_chunk_def row dec)
  moreover have "single_level st'"
    using single lv(2) unfolding single_level_def row by (auto split: if_splits)
  ultimately show ?thesis using store_locked_ok [OF ok s] store_other [OF s] by blast
qed

lemma delete_effect:
  assumes ok: "store_ok st" and single: "single_level st" and d: "delete_by_id st i now u = Inr (found, st')"
  shows "store_ok st' \<and> single_level st' \<and> live st' i = None \<and> (\<exists>co. get_chunk st' i = Inr co) \<and>
    (\<forall>j. j \<noteq> i \<longrightarrow> get_chunk st' j = get_chunk st j)"
proof (cases "get_chunk st i")
  case (Inr co)
  show ?thesis
  proof (cases co)
    case None
    with Inr d ok single show ?thesis by (simp add: delete_by_id_def live_def)
  next
    case (Some c)
    with Inr d have s: "store_chunk_locked st (c\<lparr>ch_deleted_at := Some now\<rparr>) u = Inr st'"
      by (auto simp: delete_by_id_def split: sum.splits)
    have g: "get_chunk st i = Inr (Some c)" using Inr Some by simp
    have c: "ch_id c = i" "ch_level c \<in> {0, 1, 2}" using get_chunk_id [OF ok g] by auto
    from get_chunk_found [OF g] obtain lv r where r: "kv_get (st_db st) (chunk_key lv i) = Some r"
        "decode_chunk (st_prov st) r = Inr c" by blast
    then have "lv = ch_level c" using ok unfolding store_ok_def row_keyed_def by fastforce
    with r have lv: "l = ch_level c" if "kv_get (st_db st) (chunk_key l i) \<noteq> None" for l
      using single_levelD [OF single r(1)] that by blast
    have "get_chunk st' i = Inr (Some (c\<lparr>ch_deleted_at := Some now\<rparr>)) \<and> store_ok st' \<and> single_level st' \<and>
        (\<forall>j. j \<noteq> i \<longrightarrow> get_chunk st' j = get_chunk st j)"
      using store_locked_effect [OF ok single s] c lv by auto
    then show ?thesis by (simp add: live_def)
  qed
qed (use d in \<open>simp add: delete_by_id_def\<close>)

lemma hard_delete_effect:
  assumes ok: "store_ok st" and single: "single_level st" and h: "hard_delete_by_id st i = Inr (found, st')"
  shows "store_ok st' \<and> single_level st' \<and> get_chunk st' i = Inr None \<and>
    (\<forall>j. j \<noteq> i \<longrightarrow> get_chunk st' j = get_chunk st j)"
proof -
  note db = hard_delete_get(1) [OF h]
  have "get_chunk st' j = get_chunk st j" if "j \<noteq> i" for j
  proof (rule get_chunk_cong)
    show "st_prov st' = st_prov st" using h by (auto simp: hard_delete_by_id_def)
    show "kv_get (st_db st') (chunk_key lv j) = kv_get (st_db st) (chunk_key lv j)" for lv
      using that sidecar_key_other(1) [of "{i}" "chunk_key lv j" lv j] by (auto simp: db derived_keys_def)
  qed
  moreover have "single_level st'" by (rule single_level_rows [OF single]) (auto simp: db split: if_splits)
  ultimately show ?thesis using hard_delete_ok [OF ok h] hard_delete_get(2) [OF h] by blast
qed

lemma purge_effects:
  assumes ok: "store_ok st" and single: "single_level st" and p: "purge_namespace st s False = Inr (ids, st')"
  shows "store_ok st' \<and> single_level st' \<and> (\<nexists>i c. live st' i = Some c \<and> ch_stream c = s)"
proof -
  note e = purge_effect [OF ok p]
  have "single_level st'" by (rule single_level_rows [OF single]) (use e in \<open>auto split: if_splits\<close>)
  moreover have "(\<nexists>i c. live st' i = Some c \<and> ch_stream c = s)"
    using e by (auto simp: live_def split: sum.splits option.splits if_splits)
  ultimately show ?thesis using purge_ok [OF ok p] by blast
qed

lemma upsert_effect:
  assumes "upsert_chunk_document ch d c ix = Inr ix'" "get_chunk st (ch_id c) = Inr (Some c)"
    and "td_content d = ch_content c"
  shows "agree st (tx_staged ix') (ch_id c) \<and> tx_committed ix' = tx_committed ix \<and>
    (\<forall>j. j \<noteq> ch_id c \<longrightarrow> docs_of j (tx_staged ix') = docs_of j (tx_staged ix))"
  using upsert_chunk_docs [OF assms(1), of "ch_id c"] upsert_chunk_docs [OF assms(1)] assms(2,3)
  by (auto simp: agree_def live_def write_temporal_document_def open_index_def docs_of_def)

lemma delete_document_effect:
  "tx_committed (delete_document i ix) = tx_staged (delete_document i ix)"
  "docs_of i (tx_staged (delete_document i ix)) = []"
  "j \<noteq> i \<Longrightarrow> docs_of j (tx_staged (delete_document i ix)) = docs_of j (tx_staged ix)"
  by (simp_all add: delete_document_def commit_index_def delete_id_term_def)

lemma torn_write_entry: "\<not> torn l \<Longrightarrow> \<not> torn (write_entry llen now e l)"
  by (auto simp: torn_def write_entry_def maybe_rotate_def append_line_def Let_def)

section \<open>The invariant of the engine\<close>

definition holds :: "intent_entry set \<Rightarrow> string set \<Rightarrow> engine \<Rightarrow> bool" where
  "holds I U e \<longleftrightarrow> store_ok (en_store e) \<and> single_level (en_store e) \<and>
     consistent I U (en_store e) (tx_staged (en_index e)) \<and>
     consistent I U (en_store e) (tx_committed (en_index e))"

definition engine_inv :: "(log_line \<Rightarrow> nat) \<Rightarrow> string set \<Rightarrow> engine \<Rightarrow> bool" where
  "engine_inv llen U e \<longleftrightarrow> store_ok (en_store e) \<and> single_level (en_store e) \<and> log_reach llen (en_log e) \<and>
     consistent (open_intents (en_log e)) U (en_store e) (tx_staged (en_index e)) \<and>
     consistent (open_intents (en_log e)) U (en_store e) (tx_committed (en_index e))"

lemma engine_inv_holds:
  "engine_inv llen U e \<longleftrightarrow> log_reach llen (en_log e) \<and> holds (open_intents (en_log e)) U e"
  by (auto simp: engine_inv_def holds_def)

lemma engine_invI:
  assumes "engine_inv llen U e" "en_log e' = en_log e" "store_ok (en_store e')" "single_level (en_store e')"
    and "consistent (open_intents (en_log e)) U (en_store e') (tx_staged (en_index e'))"
    and "consistent (open_intents (en_log e)) U (en_store e') (tx_committed (en_index e'))"
  shows "engine_inv llen U e'"
  using assms by (simp add: engine_inv_def)

lemma holds_mono: "holds I U e \<Longrightarrow> I \<subseteq> I' \<Longrightarrow> U \<subseteq> U' \<Longrightarrow> holds I' U' e"
  unfolding holds_def using consistent_mono by blast

lemma holds_same: "holds I U e \<Longrightarrow> en_store e' = en_store e \<Longrightarrow> en_index e' = en_index e \<Longrightarrow> holds I U e'"
  by (simp add: holds_def)

lemma holds_named:
  "holds I U e \<Longrightarrow> x \<in> I \<Longrightarrow> e_op x \<noteq> Purge \<Longrightarrow> holds I (U - {e_id x}) e"
  unfolding holds_def using consistent_named by blast

text \<open>The intent that a request has written, while it runs.\<close>

definition new_intent :: "ctx \<Rightarrow> op_type \<Rightarrow> string \<Rightarrow> nat \<Rightarrow> intent_entry" where
  "new_intent cx op i s = \<lparr>e_seq = s, e_ts = cx_millis cx, e_op = op, e_id = i, e_status = Pending\<rparr>"

lemma untorn_write: "\<not> torn (write_entry llen now e l)"
  by (auto simp: torn_def write_entry_def maybe_rotate_def append_line_def Let_def)

lemma append_facts:
  assumes reach: "log_reach llen (en_log e)" and nx: "log_next_seq (en_log e) < u64_max" and cx: "cx_llen cx = llen"
    and s: "append_step cx op i e = Inr e'"
  shows "en_store e' = en_store e" "en_index e' = en_index e" "log_reach llen (en_log e')" "\<not> torn (en_log e')"
    "log_next_seq (en_log e') = Suc (log_next_seq (en_log e))"
    "open_intents (en_log e') = (if torn (en_log e) then open_intents (en_log e)
       else insert (new_intent cx op i (log_next_seq (en_log e))) (open_intents (en_log e)))"
proof -
  let ?l = "en_log e"
  let ?l' = "snd (append_pending llen (cx_millis cx) op i ?l)"
  have e': "e' = e\<lparr>en_log := ?l'\<rparr>" using s cx by (simp add: append_step_def)
  show "en_store e' = en_store e" "en_index e' = en_index e" by (simp_all add: e')
  show "log_reach llen (en_log e')" using log_reach.append [OF reach nx] by (simp add: e')
  show "\<not> torn (en_log e')" by (simp add: e' append_pending_def Let_def untorn_write)
  show "log_next_seq (en_log e') = Suc (log_next_seq (en_log e))"
    using nx by (simp add: e' append_pending_def Let_def)
  show "open_intents (en_log e') = (if torn (en_log e) then open_intents (en_log e)
       else insert (new_intent cx op i (log_next_seq (en_log e))) (open_intents (en_log e)))"
  proof (cases "torn ?l")
    case True
    then show ?thesis
      using torn_write(1,2) [of "?l\<lparr>log_next_seq := wrap64 (Suc (log_next_seq ?l))\<rparr>"]
      by (simp add: e' append_pending_def Let_def open_intents_def torn_def all_lines_def archived_logs_def)
  next
    case False
    then show ?thesis
      using append_pending_open [OF log_reach_wf [OF reach] False nx] by (simp add: e' new_intent_def)
  qed
qed

lemma mark_facts:
  assumes reach: "log_reach llen (en_log e)" and t: "\<not> torn (en_log e)" and s: "s < log_next_seq (en_log e)"
    and cx: "cx_llen cx = llen" and m: "mark_step cx s op i e = Inr e'"
  shows "en_store e' = en_store e" "en_index e' = en_index e" "log_reach llen (en_log e')"
    "open_intents (en_log e') = {x \<in> open_intents (en_log e). e_seq x \<noteq> s}"
proof -
  have e': "e' = e\<lparr>en_log := mark_committed llen (cx_millis cx) s op i (en_log e)\<rparr>"
    using m cx by (simp add: mark_step_def)
  show "en_store e' = en_store e" "en_index e' = en_index e" by (simp_all add: e')
  show "log_reach llen (en_log e')" using log_reach.commit [OF reach s] by (simp add: e')
  show "open_intents (en_log e') = {x \<in> open_intents (en_log e). e_seq x \<noteq> s}"
    using mark_committed_open [OF t] by (simp add: e')
qed

lemma open_intents_seq: "log_reach llen l \<Longrightarrow> x \<in> open_intents l \<Longrightarrow> e_seq x < log_next_seq l"
  using log_reach_wf [of llen l] seq_bounds(1) by (auto simp: open_intents_def log_wf_def)

section \<open>Runs with a condition on every state and one on the last\<close>

fun traced :: "(engine \<Rightarrow> bool) \<Rightarrow> (engine \<Rightarrow> bool) \<Rightarrow> step list \<Rightarrow> engine \<Rightarrow> bool" where
  "traced P Q [] e \<longleftrightarrow> P e \<and> Q e"
| "traced P Q (s # ss) e \<longleftrightarrow> P e \<and> (case s e of Inl x \<Rightarrow> True | Inr e' \<Rightarrow> traced P Q ss e')"

lemma traced_safe: "traced P Q ss e \<Longrightarrow> safe P ss e"
  by (induction ss arbitrary: e) (auto split: sum.splits)

lemma traced_end: "traced P Q ss e \<Longrightarrow> run_steps ss e = (Inr (), e') \<Longrightarrow> P e' \<and> Q e'"
  by (induction ss arbitrary: e) (auto split: sum.splits)

lemma traced_append:
  "traced P Q xs e \<Longrightarrow> (\<And>e'. P e' \<Longrightarrow> Q e' \<Longrightarrow> traced P R ys e') \<Longrightarrow> traced P R (xs @ ys) e"
  by (induction xs arbitrary: e) (auto split: sum.splits)

lemma traced_mono: "traced P Q ss e \<Longrightarrow> (\<And>e'. Q e' \<Longrightarrow> Q' e') \<Longrightarrow> traced P Q' ss e"
  by (induction ss arbitrary: e) (auto split: sum.splits)

lemma traced_imp:
  "traced P Q ss e \<Longrightarrow> (\<And>e'. P e' \<Longrightarrow> P' e') \<Longrightarrow> (\<And>e'. P e' \<Longrightarrow> Q e' \<Longrightarrow> Q' e') \<Longrightarrow> traced P' Q' ss e"
  by (induction ss arbitrary: e) (auto split: sum.splits)

lemma traced_Cons: "P e \<Longrightarrow> (\<And>e'. s e = Inr e' \<Longrightarrow> traced P Q ss e') \<Longrightarrow> traced P Q (s # ss) e"
  by (simp split: sum.split)

lemma traced_Nil: "P e \<Longrightarrow> Q e \<Longrightarrow> traced P Q [] e"
  by simp

lemma safe_Cons: "P e \<Longrightarrow> (\<And>e'. s e = Inr e' \<Longrightarrow> safe P ss e') \<Longrightarrow> safe P (s # ss) e"
  by (simp split: sum.split)

section \<open>What the effects of a request change\<close>

definition dead :: "string \<Rightarrow> engine \<Rightarrow> bool" where
  "dead i e \<longleftrightarrow> live (en_store e) i = None \<and> (\<exists>co. get_chunk (en_store e) i = Inr co)"

definition clean :: "string \<Rightarrow> engine \<Rightarrow> bool" where
  "clean i e \<longleftrightarrow> agree (en_store e) (tx_staged (en_index e)) i \<and> agree (en_store e) (tx_committed (en_index e)) i"

text \<open>Changes at some ids only; searches may start to see what was staged before.\<close>

definition changes :: "string set \<Rightarrow> engine \<Rightarrow> engine \<Rightarrow> bool" where
  "changes W e e' \<longleftrightarrow> en_log e' = en_log e \<and> store_ok (en_store e') \<and> single_level (en_store e') \<and>
     (\<forall>j. j \<notin> W \<longrightarrow> get_chunk (en_store e') j = get_chunk (en_store e) j \<and>
        docs_of j (tx_staged (en_index e')) = docs_of j (tx_staged (en_index e)) \<and>
        docs_of j (tx_committed (en_index e')) \<in>
          {docs_of j (tx_committed (en_index e)), docs_of j (tx_staged (en_index e))})"

text \<open>Removal of what is left of chunks that are not live.\<close>

definition prunes :: "string set \<Rightarrow> engine \<Rightarrow> engine \<Rightarrow> bool" where
  "prunes X e e' \<longleftrightarrow> en_log e' = en_log e \<and> store_ok (en_store e') \<and> single_level (en_store e') \<and>
     (\<forall>j. (get_chunk (en_store e') j = get_chunk (en_store e) j \<or>
         (j \<in> X \<and> dead j e \<and> get_chunk (en_store e') j = Inr None)) \<and>
       (docs_of j (tx_staged (en_index e')) = docs_of j (tx_staged (en_index e)) \<or>
         (j \<in> X \<and> docs_of j (tx_staged (en_index e')) = [])) \<and>
       (docs_of j (tx_committed (en_index e')) = docs_of j (tx_committed (en_index e)) \<or>
         docs_of j (tx_committed (en_index e')) = docs_of j (tx_staged (en_index e)) \<or>
         (j \<in> X \<and> docs_of j (tx_committed (en_index e')) = [])))"

lemma changes_refl: "store_ok (en_store e) \<Longrightarrow> single_level (en_store e) \<Longrightarrow> changes W e e"
  by (simp add: changes_def)

lemma changes_trans: "changes W e e1 \<Longrightarrow> changes W e1 e2 \<Longrightarrow> changes W e e2"
  unfolding changes_def by simp metis

lemma prunes_refl: "store_ok (en_store e) \<Longrightarrow> single_level (en_store e) \<Longrightarrow> prunes X e e"
  by (simp add: prunes_def)

lemma dead_cong: "get_chunk (en_store e') i = get_chunk (en_store e) i \<Longrightarrow> dead i e' = dead i e"
  using live_cong [of "en_store e'" i "en_store e"] by (simp add: dead_def)

lemma dead_None: "get_chunk (en_store e) i = Inr None \<Longrightarrow> dead i e"
  by (simp add: dead_def live_def)

lemma prunes_dead: "prunes X e e' \<Longrightarrow> dead i e \<Longrightarrow> dead i e'"
  unfolding prunes_def using dead_cong dead_None by metis

lemma prunes_mono: "prunes X e e' \<Longrightarrow> X \<subseteq> Y \<Longrightarrow> prunes Y e e'"
  unfolding prunes_def by blast

lemma docs_chain:
  "c1 = c0 \<or> c1 = s0 \<or> (p \<and> c1 = []) \<Longrightarrow> s1 = s0 \<or> (p \<and> s1 = []) \<Longrightarrow> c2 = c1 \<or> c2 = s1 \<or> (p \<and> c2 = []) \<Longrightarrow>
     c2 = c0 \<or> c2 = s0 \<or> (p \<and> c2 = [])"
  by auto

lemma prunes_trans:
  assumes p1: "prunes X e e1" and p2: "prunes X e1 e2"
  shows "prunes X e e2"
  unfolding prunes_def
proof (intro conjI allI)
  show "en_log e2 = en_log e" "store_ok (en_store e2)" "single_level (en_store e2)"
    using p1 p2 by (simp_all add: prunes_def)
  fix j
  have "get_chunk (en_store e1) j = get_chunk (en_store e) j \<Longrightarrow> dead j e1 = dead j e" by (rule dead_cong)
  moreover have "get_chunk (en_store e1) j = get_chunk (en_store e) j \<or>
      (j \<in> X \<and> dead j e \<and> get_chunk (en_store e1) j = Inr None)"
    and "get_chunk (en_store e2) j = get_chunk (en_store e1) j \<or>
      (j \<in> X \<and> dead j e1 \<and> get_chunk (en_store e2) j = Inr None)"
    using p1 p2 unfolding prunes_def by blast+
  ultimately show "get_chunk (en_store e2) j = get_chunk (en_store e) j \<or>
      (j \<in> X \<and> dead j e \<and> get_chunk (en_store e2) j = Inr None)" by auto
  have s: "docs_of j (tx_staged (en_index e1)) = docs_of j (tx_staged (en_index e)) \<or>
      (j \<in> X \<and> docs_of j (tx_staged (en_index e1)) = [])"
    "docs_of j (tx_staged (en_index e2)) = docs_of j (tx_staged (en_index e1)) \<or>
      (j \<in> X \<and> docs_of j (tx_staged (en_index e2)) = [])"
    using p1 p2 unfolding prunes_def by blast+
  then show "docs_of j (tx_staged (en_index e2)) = docs_of j (tx_staged (en_index e)) \<or>
      (j \<in> X \<and> docs_of j (tx_staged (en_index e2)) = [])" by auto
  have c: "docs_of j (tx_committed (en_index e1)) = docs_of j (tx_committed (en_index e)) \<or>
      docs_of j (tx_committed (en_index e1)) = docs_of j (tx_staged (en_index e)) \<or>
      (j \<in> X \<and> docs_of j (tx_committed (en_index e1)) = [])"
    "docs_of j (tx_committed (en_index e2)) = docs_of j (tx_committed (en_index e1)) \<or>
      docs_of j (tx_committed (en_index e2)) = docs_of j (tx_staged (en_index e1)) \<or>
      (j \<in> X \<and> docs_of j (tx_committed (en_index e2)) = [])"
    using p1 p2 unfolding prunes_def by blast+
  show "docs_of j (tx_committed (en_index e2)) = docs_of j (tx_committed (en_index e)) \<or>
      docs_of j (tx_committed (en_index e2)) = docs_of j (tx_staged (en_index e)) \<or>
      (j \<in> X \<and> docs_of j (tx_committed (en_index e2)) = [])" by (rule docs_chain [OF c(1) s(1) c(2)])
qed

lemma prunes_changes: "prunes X e e' \<Longrightarrow> changes X e e'"
  unfolding prunes_def changes_def by blast

lemma agree_dead: "get_chunk st i = Inr co \<Longrightarrow> live st i = None \<Longrightarrow> docs_of i docs = [] \<Longrightarrow> agree st docs i"
  by (simp add: agree_def)

lemma dead_agree: "dead i e \<Longrightarrow> agree (en_store e) docs i \<longleftrightarrow> docs_of i docs = []"
  by (auto simp: dead_def agree_def)

lemma holds_clean: "holds I U e \<Longrightarrow> \<forall>i \<in> A. clean i e \<Longrightarrow> holds I (U - A) e"
  unfolding holds_def clean_def using consistent_agree by blast

lemma changes_holds:
  assumes h: "holds I U e" and ch: "changes W e e'" and W: "W \<subseteq> U"
  shows "holds I U e'"
proof -
  have c: "consistent I U (en_store e) (tx_staged (en_index e))" "consistent I U (en_store e) (tx_committed (en_index e))"
    using h by (simp_all add: holds_def)
  have step: "consistent I U (en_store e') docs'"
    if docs': "\<And>j. j \<notin> W \<Longrightarrow> docs_of j docs' = docs_of j (tx_committed (en_index e)) \<or>
        docs_of j docs' = docs_of j (tx_staged (en_index e))" for docs'
    unfolding consistent_def
  proof
    fix j
    show "j \<in> U \<or> agree (en_store e') docs' j \<or> covered I (en_store e') docs' j"
    proof (cases "j \<in> W")
      case False
      then have g: "get_chunk (en_store e') j = get_chunk (en_store e) j" using ch unfolding changes_def by blast
      obtain docs where docs: "docs_of j docs' = docs_of j docs" "consistent I U (en_store e) docs"
        using docs' [OF False] c by blast
      then show ?thesis using agree_cong [OF g docs(1)] covered_cong [OF g docs(1)] unfolding consistent_def by metis
    qed (use W in blast)
  qed
  show ?thesis
    unfolding holds_def
  proof (intro conjI)
    show "store_ok (en_store e')" "single_level (en_store e')" using ch by (simp_all add: changes_def)
    show "consistent I U (en_store e') (tx_staged (en_index e'))"
      by (rule step) (use ch in \<open>auto simp: changes_def\<close>)
    show "consistent I U (en_store e') (tx_committed (en_index e'))"
      by (rule step) (use ch in \<open>auto simp: changes_def\<close>)
  qed
qed

lemma prunes_holds:
  assumes h: "holds I U e" and p: "prunes X e e'" and d: "\<forall>i \<in> X. dead i e"
  shows "holds I U e'"
proof -
  have c: "consistent I U (en_store e) (tx_staged (en_index e))" "consistent I U (en_store e) (tx_committed (en_index e))"
    using h by (simp_all add: holds_def)
  have step: "consistent I U (en_store e') docs'"
    if docs': "\<And>j. docs_of j docs' = docs_of j (tx_committed (en_index e)) \<or>
        docs_of j docs' = docs_of j (tx_staged (en_index e)) \<or> (j \<in> X \<and> docs_of j docs' = [])" for docs'
    unfolding consistent_def
  proof
    fix j
    show "j \<in> U \<or> agree (en_store e') docs' j \<or> covered I (en_store e') docs' j"
    proof (cases "j \<in> X")
      case False
      then have g: "get_chunk (en_store e') j = get_chunk (en_store e) j" using p unfolding prunes_def by blast
      obtain docs where docs: "docs_of j docs' = docs_of j docs" "consistent I U (en_store e) docs"
        using docs' [of j] c False by blast
      then show ?thesis using agree_cong [OF g docs(1)] covered_cong [OF g docs(1)] unfolding consistent_def by metis
    next
      case True
      have dj: "dead j e" "dead j e'" using d True prunes_dead [OF p] by auto
      then have lv: "live (en_store e) j = None" "live (en_store e') j = None" by (simp_all add: dead_def)
      show ?thesis
      proof (cases "docs_of j docs' = []")
        case True
        with dj show ?thesis by (simp add: dead_agree)
      next
        case False
        then obtain docs where docs: "docs_of j docs' = docs_of j docs" "consistent I U (en_store e) docs"
          using docs' [of j] c by blast
        with False dj have "j \<in> U \<or> covered I (en_store e) docs j"
          unfolding consistent_def by (metis dead_agree)
        with docs(1) lv show ?thesis unfolding covered_def by metis
      qed
    qed
  qed
  show ?thesis
    unfolding holds_def
  proof (intro conjI)
    show "store_ok (en_store e')" "single_level (en_store e')" using p by (simp_all add: prunes_def)
    show "consistent I U (en_store e') (tx_staged (en_index e'))"
      by (rule step) (use p in \<open>unfold prunes_def, blast\<close>)
    show "consistent I U (en_store e') (tx_committed (en_index e'))"
      by (rule step) (use p in \<open>unfold prunes_def, blast\<close>)
  qed
qed

lemma clean_kept:
  assumes p: "prunes X e e'" and d: "dead i e" and c: "clean i e"
  shows "clean i e'"
proof -
  have "docs_of i (tx_staged (en_index e)) = []" "docs_of i (tx_committed (en_index e)) = []"
    using c dead_agree [OF d] by (simp_all add: clean_def)
  then have "docs_of i (tx_staged (en_index e')) = []" "docs_of i (tx_committed (en_index e')) = []"
    using p unfolding prunes_def by metis+
  then show ?thesis using dead_agree [OF prunes_dead [OF p d]] by (simp add: clean_def)
qed

section \<open>The effects one by one\<close>

text \<open>Effects that touch the store at one id and leave no live chunk there.\<close>

definition removes :: "string set \<Rightarrow> step \<Rightarrow> engine \<Rightarrow> bool" where
  "removes W s e \<longleftrightarrow> (\<forall>e'. s e = Inr e' \<longrightarrow> changes W e e' \<and> e' = e\<lparr>en_store := en_store e'\<rparr> \<and> (\<forall>i \<in> W. dead i e'))"

lemma removesI:
  assumes "\<And>st. s e = Inr (e\<lparr>en_store := st\<rparr>) \<Longrightarrow> store_ok st \<and> single_level st \<and>
      (\<forall>i \<in> W. live st i = None \<and> (\<exists>co. get_chunk st i = Inr co)) \<and>
      (\<forall>j. j \<notin> W \<longrightarrow> get_chunk st j = get_chunk (en_store e) j)"
    and "\<And>e'. s e = Inr e' \<Longrightarrow> \<exists>st. e' = e\<lparr>en_store := st\<rparr>"
  shows "removes W s e"
  unfolding removes_def
proof (intro allI impI)
  fix e' assume s: "s e = Inr e'"
  then obtain st where e': "e' = e\<lparr>en_store := st\<rparr>" using assms(2) by blast
  with s assms(1) [of st] show "changes W e e' \<and> e' = e\<lparr>en_store := en_store e'\<rparr> \<and> (\<forall>i \<in> W. dead i e')"
    by (simp add: changes_def dead_def)
qed

lemma delete_removes:
  assumes "store_ok (en_store e)" "single_level (en_store e)"
  shows "removes {i} (delete_step cx i u) e"
proof (rule removesI)
  fix st assume "delete_step cx i u e = Inr (e\<lparr>en_store := st\<rparr>)"
  then obtain b where d: "delete_by_id (en_store e) i (cx_secs cx) u = Inr (b, st)"
    by (cases e) (auto simp: delete_step_def)
  from delete_effect [OF assms d] show "store_ok st \<and> single_level st \<and>
      (\<forall>i \<in> {i}. live st i = None \<and> (\<exists>co. get_chunk st i = Inr co)) \<and>
      (\<forall>j. j \<notin> {i} \<longrightarrow> get_chunk st j = get_chunk (en_store e) j)" by simp
qed (auto simp: delete_step_def)

lemma hard_delete_removes:
  assumes "store_ok (en_store e)" "single_level (en_store e)"
  shows "removes {i} (hard_delete_step i) e"
proof (rule removesI)
  fix st assume "hard_delete_step i e = Inr (e\<lparr>en_store := st\<rparr>)"
  then obtain b where d: "hard_delete_by_id (en_store e) i = Inr (b, st)"
    by (cases e) (auto simp: hard_delete_step_def)
  from hard_delete_effect [OF assms d] show "store_ok st \<and> single_level st \<and>
      (\<forall>i \<in> {i}. live st i = None \<and> (\<exists>co. get_chunk st i = Inr co)) \<and>
      (\<forall>j. j \<notin> {i} \<longrightarrow> get_chunk st j = get_chunk (en_store e) j)" by (simp add: live_def)
qed (auto simp: hard_delete_step_def)

lemma replay_delete_removes:
  assumes "store_ok (en_store e)" "single_level (en_store e)"
  shows "removes {i} (replay_delete_step cx i u) e"
proof (cases "get_chunk (en_store e) i = Inr None")
  case True
  with assms show ?thesis by (auto simp: removes_def replay_delete_step_def changes_def dead_None)
next
  case False
  have "replay_delete_step cx i u e = Inr e' \<Longrightarrow> delete_step cx i u e = Inr e'" for e'
    using False by (auto simp: replay_delete_step_def split: if_splits)
  with delete_removes [OF assms, of i cx u] show ?thesis unfolding removes_def by blast
qed

text \<open>The ids a purge names.\<close>

definition stream_ids :: "store \<Rightarrow> string \<Rightarrow> string set" where
  "stream_ids st s = {ch_id c | k c. chunk_row st k c \<and> ch_stream c = s}"

lemma purge_ids_are:
  assumes "store_ok st" "purge_namespace st s False = Inr (ids, st')"
  shows "set ids = stream_ids st s"
proof -
  have "purge_ids (st_prov st) (kv_prefix ''chunk:'' (st_db st)) s = Inr ids"
    using assms(2) by (auto simp: purge_namespace_def)
  from purge_ids_set [OF this] show ?thesis
    using assms(1) by (auto simp: stream_ids_def chunk_row_def store_ok_def kv_prefix_get) blast+
qed

lemma purge_removes:
  assumes ok: "store_ok (en_store e)" "single_level (en_store e)"
  shows "removes (stream_ids (en_store e) s) (purge_step s) e"
proof (rule removesI)
  fix st assume "purge_step s e = Inr (e\<lparr>en_store := st\<rparr>)"
  then obtain ids where p: "purge_namespace (en_store e) s False = Inr (ids, st)"
    by (cases e) (auto simp: purge_step_def)
  note ids = purge_ids_are [OF ok(1) p]
  have "get_chunk st i = Inr None" if "i \<in> set ids" for i
  proof -
    have "kv_get (st_db st) (chunk_key lv i) = None" if "lv \<in> {0, 1, 2}" for lv
      using purge_effect [OF ok(1) p] \<open>i \<in> set ids\<close> that by (auto simp: derived_keys_def)
    then show ?thesis by (simp add: get_chunk_def)
  qed
  moreover have "get_chunk st j = get_chunk (en_store e) j" if "j \<notin> set ids" for j
  proof (rule get_chunk_cong)
    show "st_prov st = st_prov (en_store e)" using p by (auto simp: purge_namespace_def)
    show "kv_get (st_db st) (chunk_key lv j) = kv_get (st_db (en_store e)) (chunk_key lv j)" for lv
      using purge_effect [OF ok(1) p] that sidecar_key_other(1) [of "set ids" "chunk_key lv j" lv j]
      by (auto simp: derived_keys_def)
  qed
  ultimately show "store_ok st \<and> single_level st \<and>
      (\<forall>i \<in> stream_ids (en_store e) s. live st i = None \<and> (\<exists>co. get_chunk st i = Inr co)) \<and>
      (\<forall>j. j \<notin> stream_ids (en_store e) s \<longrightarrow> get_chunk st j = get_chunk (en_store e) j)"
    using purge_effects [OF ok p] by (simp add: ids live_def)
qed (auto simp: purge_step_def)

text \<open>The family of a chunk: a recognised source with its descendants, any other chunk alone.\<close>

definition family :: "store \<Rightarrow> string \<Rightarrow> string set" where
  "family st i = insert i {j. \<exists>source. get_chunk st i = Inr (Some source) \<and> is_ingest_source source \<and>
     descends st (ch_stream source) i j}"

lemma get_chunk_readable:
  "(\<And>lv r. kv_get (st_db st) (chunk_key lv i) = Some r \<Longrightarrow> \<exists>c. decode_chunk (st_prov st) r = Inr c) \<Longrightarrow>
     \<exists>co. get_chunk st i = Inr co"
  by (fastforce simp: get_chunk_def split: option.split)

lemma descends_stream_row:
  "descends st s i j \<Longrightarrow> j = i \<or> (\<exists>k c. chunk_row st k c \<and> ch_id c = j \<and> ch_stream c = s)"
  by (induction rule: descends.induct) auto

lemma tombstone_effect:
  assumes ok: "store_ok st" and single: "single_level st"
    and t: "tombstone_ingest_source st i t0 us = Inr (Some ids, st')"
  shows "set ids = family st i \<and> store_ok st' \<and> single_level st' \<and>
    (\<forall>j \<in> set ids. live st' j = None \<and> (\<exists>co. get_chunk st' j = Inr co)) \<and>
    (\<forall>j. j \<notin> set ids \<longrightarrow> get_chunk st' j = get_chunk st j)"
proof -
  obtain source where s: "get_chunk st i = Inr (Some source)"
    using t by (rule tombstone_cases) auto
  obtain rows bs where rows: "lineage_rows st = Inr rows"
    and ids: "set ids = descendant_ids rows i (ch_stream source)"
    and bs: "tombstone_batch (st_prov st) rows (ch_stream source) (set ids) t0 us = Inr bs"
    and st': "st' = st\<lparr>st_db := kv_batch bs (st_db st)\<rparr>" and src: "is_ingest_source source"
    by (rule tombstone_rows [OF ok t s])
  have d: "j \<in> set ids \<longleftrightarrow> descends st (ch_stream source) i j" for j
    unfolding ids by (rule descends_iff [OF ok rows, symmetric])
  have row: "(k, c) \<in> set rows \<longleftrightarrow> chunk_row st k c" for k c
    unfolding chunk_row_def by (rule lineage_rows_mem [OF ok rows])
  have fam: "set ids = family st i"
    using s src d descends.root by (auto simp: family_def)
  have key: "k = chunk_key (ch_level c) (ch_id c)" if "chunk_row st k c" for k c
    using lineage_rows_keyed [OF ok rows] that row by blast
  have puts: "BPut k r \<in> set bs \<Longrightarrow> (\<exists>c. chunk_row st k c \<and> to_tombstone (ch_stream source) (set ids) c) \<or>
      (\<exists>j. k = generation_key j)" "BDel k \<notin> set bs" for k r
    unfolding tombstone_batch_mem [OF bs] row by blast+
  have unt: "kv_get (st_db st') k = kv_get (st_db st) k"
    if "\<nexists>c. chunk_row st k c \<and> to_tombstone (ch_stream source) (set ids) c" "\<nexists>j. k = generation_key j" for k
  proof -
    have "kv_get (kv_batch bs (st_db st)) k = kv_get (st_db st) k"
      by (rule rocks.batch_untouched) (use that puts in \<open>fastforce split: batch_op.split\<close>)
    then show ?thesis by (simp add: st')
  qed
  have dec: "\<exists>c. chunk_row st (chunk_key lv j) c \<and> ch_id c = j \<and> decode_chunk (st_prov st) r =
      Inr (if to_tombstone (ch_stream source) (set ids) c then c\<lparr>ch_deleted_at := Some t0\<rparr> else c)"
    if r: "kv_get (st_db st') (chunk_key lv j) = Some r" for lv j r
  proof -
    have "\<exists>c. chunk_row st (chunk_key lv j) c"
    proof (rule ccontr)
      assume no: "\<nexists>c. chunk_row st (chunk_key lv j) c"
      have "kv_get (st_db st) (chunk_key lv j) = Some r" using unt [of "chunk_key lv j"] no r by auto
      then have "(chunk_key lv j, r) \<in> set (kv_prefix ''chunk:'' (st_db st))"
        using ok by (simp add: store_ok_def kv_prefix_get)
      moreover have "decode_rows (st_prov st) (kv_prefix ''chunk:'' (st_db st)) = Inr rows"
        using rows by (simp add: lineage_rows_def)
      ultimately show False using no decode_rows_total row by blast
    qed
    then obtain c where c: "chunk_row st (chunk_key lv j) c" by blast
    then have "ch_id c = j" using key [OF c] by simp
    with c r tombstone_row_decodes [OF ok rows bs, of "chunk_key lv j" c] show ?thesis
      by (auto simp: row st' simp del: if_split)
  qed
  have single': "single_level st'"
  proof (rule single_level_rows [OF single])
    fix l j assume "kv_get (st_db st') (chunk_key l j) \<noteq> None"
    then obtain c where "chunk_row st (chunk_key l j) c" using dec by blast
    then show "kv_get (st_db st) (chunk_key l j) \<noteq> None" by (auto simp: chunk_row_def)
  qed
  have dead: "live st' j = None" if j: "j \<in> set ids" for j
  proof (rule ccontr)
    assume "live st' j \<noteq> None"
    then obtain c' where c': "get_chunk st' j = Inr (Some c')" "ch_deleted_at c' = None"
      by (auto simp: live_def split: sum.splits option.splits if_splits)
    from get_chunk_found [OF c'(1)] obtain lv r where r: "kv_get (st_db st') (chunk_key lv j) = Some r"
        "decode_chunk (st_prov st) r = Inr c'" by (auto simp: st')
    from dec [OF r(1)] obtain c where c0: "chunk_row st (chunk_key lv j) c" "ch_id c = j"
      and c1: "c' = (if to_tombstone (ch_stream source) (set ids) c then c\<lparr>ch_deleted_at := Some t0\<rparr> else c)"
      using r(2) by (metis sum.inject(2))
    have nt: "\<not> to_tombstone (ch_stream source) (set ids) c" using c1 c'(2) by (cases c) auto
    then have "c' = c" using c1 by simp
    with c0 nt have c: "chunk_row st (chunk_key lv j) c'" "ch_id c' = j"
        "\<not> to_tombstone (ch_stream source) (set ids) c'" by simp_all
    have uniq: "c2 = c'" if "chunk_row st k2 c2" "ch_id c2 = j" for k2 c2
    proof -
      have "k2 = chunk_key (ch_level c2) j" using key [OF that(1)] that(2) by simp
      then have "ch_level c2 = lv"
        using that(1) c(1) single_levelD [OF single] by (auto simp: chunk_row_def)
      with \<open>k2 = _\<close> that(1) c(1) show ?thesis by (auto simp: chunk_row_def)
    qed
    have "ch_stream c' = ch_stream source"
    proof -
      from descends_stream_row [of st "ch_stream source" i j] j d
      consider "j = i" | k2 c2 where "chunk_row st k2 c2" "ch_id c2 = j" "ch_stream c2 = ch_stream source" by blast
      then show ?thesis
      proof cases
        case 1
        from get_chunk_found [OF s] obtain l2 r2 where "kv_get (st_db st) (chunk_key l2 i) = Some r2"
            "decode_chunk (st_prov st) r2 = Inr source" by blast
        then have "chunk_row st (chunk_key l2 i) source" by (auto simp: chunk_row_def)
        with uniq get_chunk_id [OF ok s] 1 show ?thesis by blast
      qed (use uniq in blast)
    qed
    with c c'(2) j show False by (simp add: to_tombstone_def)
  qed
  have "\<exists>co. get_chunk st' j = Inr co" for j
    by (rule get_chunk_readable) (use dec in \<open>fastforce simp: st'\<close>)
  moreover have "get_chunk st' j = get_chunk st j" if "j \<notin> set ids" for j
  proof (rule get_chunk_cong)
    show "st_prov st' = st_prov st" by (simp add: st')
    show "kv_get (st_db st') (chunk_key lv j) = kv_get (st_db st) (chunk_key lv j)" for lv
      by (rule unt) (use that key in \<open>fastforce simp: to_tombstone_def\<close>, simp)
  qed
  ultimately show ?thesis using fam single' dead tombstone_ok [OF ok t] by blast
qed

lemma tombstone_removes:
  assumes ok: "store_ok (en_store e)" "single_level (en_store e)"
    and t: "tombstone_ingest_source (en_store e) i (cx_secs cx) us = Inr (Some ids, st')"
  shows "removes (family (en_store e) i) (tombstone_step cx i us) e" "set ids = family (en_store e) i"
proof -
  note ef = tombstone_effect [OF ok t]
  then show ids: "set ids = family (en_store e) i" by blast
  show "removes (family (en_store e) i) (tombstone_step cx i us) e"
  proof (rule removesI)
    fix st assume "tombstone_step cx i us e = Inr (e\<lparr>en_store := st\<rparr>)"
    then have "st = st'" using t by (cases e) (auto simp: tombstone_step_def)
    with ef ids show "store_ok st \<and> single_level st \<and>
      (\<forall>i \<in> family (en_store e) i. live st i = None \<and> (\<exists>co. get_chunk st i = Inr co)) \<and>
      (\<forall>j. j \<notin> family (en_store e) i \<longrightarrow> get_chunk st j = get_chunk (en_store e) j)" by simp
  qed (auto simp: tombstone_step_def)
qed

text \<open>Cleaning up after a removal.\<close>

lemma tolerant_prunes:
  assumes "store_ok (en_store e)" "single_level (en_store e)" "dead i e" "tolerant_delete_step oc i e = Inr e'"
  shows "prunes {i} e e' \<and> (oc i = Deleted \<longrightarrow> clean i e')"
proof -
  have e': "e' = e\<lparr>en_index := try_delete_document (oc i) i (en_index e)\<rparr>"
    using assms(4) by (simp add: tolerant_delete_step_def)
  have dq: "docs_of j (tx_staged (delete_id_term i ix)) = (if j = i then [] else docs_of j (tx_staged ix))" for j ix
    by (auto simp: delete_id_term_def docs_of_def intro: filter_cong)
  have "prunes {i} e e'"
    using assms(1,2)
    by (cases "oc i")
      (auto simp: prunes_def e' try_delete_document_def delete_document_def commit_index_def dq,
        simp_all add: delete_id_term_def)
  moreover have "clean i e'" if "oc i = Deleted"
    using assms(3) that
    by (auto simp: clean_def e' try_delete_document_def dead_def agree_def delete_document_effect)
  ultimately show ?thesis by blast
qed

lemma embedding_prunes:
  assumes "store_ok (en_store e)" "single_level (en_store e)" "embedding_step i e = Inr e'"
  shows "prunes X e e'"
proof -
  have e': "e' = e\<lparr>en_store := delete_embedding (en_store e) i\<rparr>" using assms(3) by (simp add: embedding_step_def)
  have "get_chunk (en_store e') j = get_chunk (en_store e) j" for j
    by (rule get_chunk_cong) (simp_all add: e' delete_embedding_def)
  then show ?thesis
    using assms(1,2) by (simp add: prunes_def e' delete_embedding_def store_ok_def kv_sorted_delete single_level_def)
qed

lemma hard_skip_prunes:
  assumes ok: "store_ok (en_store e)" "single_level (en_store e)" and d: "dead i e"
    and s: "hard_delete_or_skip_step i e = Inr e'"
  shows "prunes {i} e e'"
proof (cases "hard_delete_step i e")
  case (Inl x)
  with s ok show ?thesis by (simp add: hard_delete_or_skip_step_def prunes_refl)
next
  case (Inr f)
  then obtain b st where h: "hard_delete_by_id (en_store e) i = Inr (b, st)" and e': "e' = e\<lparr>en_store := st\<rparr>"
    using s by (auto simp: hard_delete_or_skip_step_def hard_delete_step_def)
  from hard_delete_effect [OF ok h] d show ?thesis
    by (simp add: prunes_def e') metis
qed

lemma prune_list:
  assumes g: "\<And>i e. store_ok (en_store e) \<Longrightarrow> single_level (en_store e) \<Longrightarrow> dead i e \<Longrightarrow>
      traced (prunes {i} e) (\<lambda>f. oc i = Deleted \<longrightarrow> clean i f) (g i) e"
  shows "store_ok (en_store e) \<Longrightarrow> single_level (en_store e) \<Longrightarrow> \<forall>i \<in> set xs. dead i e \<Longrightarrow>
    traced (prunes (set xs) e) (\<lambda>f. \<forall>i \<in> set xs. oc i = Deleted \<longrightarrow> clean i f) (concat (map g xs)) e"
proof (induction xs arbitrary: e)
  case Nil
  then show ?case by (simp add: prunes_refl)
next
  case (Cons x xs)
  let ?X = "set (x # xs)"
  have "traced (prunes ?X e) (\<lambda>f. prunes {x} e f \<and> (oc x = Deleted \<longrightarrow> clean x f)) (g x) e"
    by (rule traced_imp [OF g]) (use Cons.prems in \<open>auto intro: prunes_mono\<close>)
  then have "traced (prunes ?X e) (\<lambda>f. \<forall>i \<in> ?X. oc i = Deleted \<longrightarrow> clean i f) (g x @ concat (map g xs)) e"
  proof (rule traced_append)
    fix e1 assume e1: "prunes ?X e e1" "prunes {x} e e1 \<and> (oc x = Deleted \<longrightarrow> clean x e1)"
    then have ok1: "store_ok (en_store e1)" "single_level (en_store e1)" by (simp_all add: prunes_def)
    have d1: "\<forall>i \<in> ?X. dead i e1" using Cons.prems(3) prunes_dead [OF e1(1)] by blast
    show "traced (prunes ?X e) (\<lambda>f. \<forall>i \<in> ?X. oc i = Deleted \<longrightarrow> clean i f) (concat (map g xs)) e1"
    proof (rule traced_imp [OF Cons.IH [OF ok1]])
      fix f assume f: "prunes (set xs) e1 f"
      then show "prunes ?X e f" using prunes_trans [OF e1(1)] prunes_mono by (metis set_subset_Cons)
      assume "\<forall>i \<in> set xs. oc i = Deleted \<longrightarrow> clean i f"
      moreover have "oc x = Deleted \<longrightarrow> clean x f" using clean_kept [OF f] d1 e1(2) by simp
      ultimately show "\<forall>i \<in> ?X. oc i = Deleted \<longrightarrow> clean i f" by simp
    qed (use d1 in simp)
  qed
  then show ?case by simp
qed

lemma tolerant_traced:
  assumes "store_ok (en_store e)" "single_level (en_store e)" "dead i e"
  shows "traced (prunes {i} e) (\<lambda>f. oc i = Deleted \<longrightarrow> clean i f) [tolerant_delete_step oc i] e"
  by (intro traced_Cons traced_Nil) (use assms prunes_refl tolerant_prunes in blast)+

lemma cleanup_traced:
  assumes ok: "store_ok (en_store e)" "single_level (en_store e)" and d: "dead i e"
  shows "traced (prunes {i} e) (\<lambda>f. oc i = Deleted \<longrightarrow> clean i f) (cleanup_steps oc i) e"
  unfolding cleanup_steps_def
proof (intro traced_Cons traced_Nil)
  show "prunes {i} e e" using ok by (rule prunes_refl)
  fix e1 assume s1: "tolerant_delete_step oc i e = Inr e1"
  from tolerant_prunes [OF ok d s1] have p1: "prunes {i} e e1" "oc i = Deleted \<longrightarrow> clean i e1" by blast+
  then show "prunes {i} e e1" by blast
  fix e2 assume s2: "embedding_step i e1 = Inr e2"
  have p2: "prunes {i} e1 e2" by (rule embedding_prunes [OF _ _ s2]) (use p1 in \<open>simp_all add: prunes_def\<close>)
  show "prunes {i} e e2" by (rule prunes_trans [OF p1(1) p2])
  show "oc i = Deleted \<longrightarrow> clean i e2" using clean_kept [OF p2 prunes_dead [OF p1(1) d]] p1(2) by blast
qed

lemma hard_purge_traced:
  assumes ok: "store_ok (en_store e)" "single_level (en_store e)" and d: "dead i e"
  shows "traced (prunes {i} e) (\<lambda>f. oc i = Deleted \<longrightarrow> clean i f)
    [tolerant_delete_step oc i, hard_delete_or_skip_step i] e"
proof (intro traced_Cons traced_Nil)
  show "prunes {i} e e" using ok by (rule prunes_refl)
  fix e1 assume s1: "tolerant_delete_step oc i e = Inr e1"
  from tolerant_prunes [OF ok d s1] have p1: "prunes {i} e e1" "oc i = Deleted \<longrightarrow> clean i e1" by blast+
  then show "prunes {i} e e1" by blast
  note d1 = prunes_dead [OF p1(1) d]
  fix e2 assume s2: "hard_delete_or_skip_step i e1 = Inr e2"
  have p2: "prunes {i} e1 e2" by (rule hard_skip_prunes [OF _ _ d1 s2]) (use p1 in \<open>simp_all add: prunes_def\<close>)
  show "prunes {i} e e2" by (rule prunes_trans [OF p1(1) p2])
  show "oc i = Deleted \<longrightarrow> clean i e2" using clean_kept [OF p2 d1] p1(2) by blast
qed

section \<open>Requests\<close>

text \<open>
  The requests that write store and index: persisting a chunk (with or without the intent log), the
  two admin deletions, the single-chunk purge, the two namespace purges, the REST and the MCP
  deletion, and the scheduled hard purge. Handlers that swallow index errors carry the outcome of the
  deletion of each document.
\<close>

datatype request =
    RPersist persist_args
  | RDelete string
  | RPurgeMemory string "string \<Rightarrow> delete_outcome"
  | RPurgeNamespace string bool
  | RApiPurge string bool "string \<Rightarrow> delete_outcome"
  | RApiDelete string "string \<Rightarrow> string" "string \<Rightarrow> delete_outcome"
  | RMcpDelete string "string \<Rightarrow> string" "string \<Rightarrow> delete_outcome"
  | RHardPurge "string list" "string \<Rightarrow> delete_outcome"

fun request_steps :: "ctx \<Rightarrow> request \<Rightarrow> store \<Rightarrow> nat \<Rightarrow> step list" where
  "request_steps cx (RPersist a) st s = persist_steps cx a s"
| "request_steps cx (RDelete i) st s = delete_handler_steps cx i s"
| "request_steps cx (RPurgeMemory i oc) st s = purge_memory_steps cx i oc s"
| "request_steps cx (RPurgeNamespace str dry) st s = purge_namespace_steps cx str dry s"
| "request_steps cx (RApiPurge str dry oc) st s = api_purge_namespace_steps cx str dry oc st s"
| "request_steps cx (RApiDelete i us oc) st s = api_delete_steps cx i us oc st s"
| "request_steps cx (RMcpDelete i us oc) st s = delete_memory_steps cx i us oc st"
| "request_steps cx (RHardPurge ids oc) st s = hard_purge_steps oc ids"

text \<open>What a persist must bring (its document is made from its chunk), and what a hard purge is given.\<close>

definition persistable :: "persist_args \<Rightarrow> store \<Rightarrow> bool" where
  "persistable a st \<longleftrightarrow> pa_op a \<noteq> Purge \<and>
     td_content (pa_doc a) = ch_content (pa_chunk a) \<and> ch_level (pa_chunk a) \<in> {0, 1, 2} \<and>
     (\<forall>l. kv_get (st_db st) (chunk_key l (ch_id (pa_chunk a))) \<noteq> None \<longrightarrow> l = ch_level (pa_chunk a))"

fun admissible :: "request \<Rightarrow> store \<Rightarrow> bool" where
  "admissible (RPersist a) st = persistable a st"
| "admissible (RHardPurge ids oc) st =
     (\<forall>i \<in> set ids. \<exists>c. get_chunk st i = Inr (Some c) \<and> ch_deleted_at c \<noteq> None)"
| "admissible _ st = True"

text \<open>The intent a request logs.\<close>

fun intent_of :: "request \<Rightarrow> (op_type \<times> string) option" where
  "intent_of (RPersist a) = (if pa_intent_log a then Some (pa_op a, ch_id (pa_chunk a)) else None)"
| "intent_of (RDelete i) = Some (Delete, i)"
| "intent_of (RPurgeMemory i oc) = Some (PurgeChunk, i)"
| "intent_of (RPurgeNamespace str dry) = (if dry then None else Some (Purge, str))"
| "intent_of (RApiPurge str dry oc) = (if dry then None else Some (Purge, str))"
| "intent_of (RApiDelete i us oc) = Some (Delete, i)"
| "intent_of (RMcpDelete i us oc) = None"
| "intent_of (RHardPurge ids oc) = None"

text \<open>The chunks whose document may lag behind their row while the request runs.\<close>

fun written :: "request \<Rightarrow> store \<Rightarrow> string set" where
  "written (RPersist a) st = {ch_id (pa_chunk a)}"
| "written (RDelete i) st = {i}"
| "written (RPurgeMemory i oc) st = {i}"
| "written (RPurgeNamespace str dry) st = (if dry then {} else stream_ids st str)"
| "written (RApiPurge str dry oc) st = (if dry then {} else stream_ids st str)"
| "written (RApiDelete i us oc) st = family st i"
| "written (RMcpDelete i us oc) st = family st i"
| "written (RHardPurge ids oc) st = {}"

text \<open>Those of them the intent accounts for: a deletion names one id, a purge its stream.\<close>

definition named :: "request \<Rightarrow> store \<Rightarrow> string set" where
  "named r st = (case intent_of r of
      None \<Rightarrow> {} | Some (op, i) \<Rightarrow> if op = Purge then written r st else {i})"

text \<open>The chunks whose document the request has brought in step with the row when it has run to its end,
  and those it has given up on.\<close>

fun reindexed :: "request \<Rightarrow> store \<Rightarrow> string set" where
  "reindexed (RPersist a) st = {ch_id (pa_chunk a)}"
| "reindexed (RDelete i) st = {i}"
| "reindexed (RPurgeMemory i oc) st = {j \<in> {i}. oc j = Deleted}"
| "reindexed (RPurgeNamespace str dry) st = {}"
| "reindexed (RApiPurge str dry oc) st = {j \<in> (if dry then {} else stream_ids st str). oc j = Deleted}"
| "reindexed (RApiDelete i us oc) st = {j \<in> family st i. oc j = Deleted}"
| "reindexed (RMcpDelete i us oc) st = {j \<in> family st i. oc j = Deleted}"
| "reindexed (RHardPurge ids oc) st = {j \<in> set ids. oc j = Deleted}"

fun given_up :: "request \<Rightarrow> store \<Rightarrow> string set" where
  "given_up (RPurgeMemory i oc) st = {j \<in> {i}. oc j \<noteq> Deleted}"
| "given_up (RApiPurge str dry oc) st = {j \<in> (if dry then {} else stream_ids st str). oc j \<noteq> Deleted}"
| "given_up (RApiDelete i us oc) st = {j \<in> family st i. oc j \<noteq> Deleted}"
| "given_up (RMcpDelete i us oc) st = {j \<in> family st i. oc j \<noteq> Deleted}"
| "given_up _ st = {}"

text \<open>
  The chunks whose document nothing accounts for after the request has run its first \<open>k\<close> effects: at its
  end those it gave up on are added and those it has reindexed are taken away; when it stops in between,
  those it may have written and its intent does not name are added, all of them when it logged none or
  the intent went into a torn line; before its first write nothing changes.
\<close>

definition unaccounted :: "ctx \<Rightarrow> request \<Rightarrow> engine \<Rightarrow> nat \<Rightarrow> unit res \<Rightarrow> string set \<Rightarrow> string set" where
  "unaccounted cx r e k res U =
     (let st = en_store e in
      if length (request_steps cx r st (log_next_seq (en_log e))) \<le> k \<and> res = Inr ()
      then (U - reindexed r st) \<union> given_up r st
      else if k \<le> (if intent_of r = None then 0 else 1) then U
      else U \<union> (written r st - (if torn (en_log e) then {} else named r st)))"

text \<open>The effects between the intent and its commit.\<close>

fun data_steps :: "ctx \<Rightarrow> request \<Rightarrow> store \<Rightarrow> nat \<Rightarrow> step list" where
  "data_steps cx (RPersist a) st s =
     [store_step (pa_chunk a) (cx_uuid cx s), upsert_step cx (pa_doc a) (pa_chunk a), commit_step]"
| "data_steps cx (RDelete i) st s = [delete_step cx i (cx_uuid cx s), delete_document_step i]"
| "data_steps cx (RPurgeMemory i oc) st s = [hard_delete_step i, tolerant_delete_step oc i]"
| "data_steps cx (RPurgeNamespace str dry) st s = (if dry then [] else [purge_step str, delete_stream_step str])"
| "data_steps cx (RApiPurge str dry oc) st s =
     (if dry then [] else purge_step str #
        (case purge_namespace st str False of Inl x \<Rightarrow> [] | Inr (ids, _) \<Rightarrow> map (tolerant_delete_step oc) ids))"
| "data_steps cx (RApiDelete i us oc) st s = delete_memory_steps cx i us oc st"
| "data_steps cx (RMcpDelete i us oc) st s = delete_memory_steps cx i us oc st"
| "data_steps cx (RHardPurge ids oc) st s = hard_purge_steps oc ids"

lemma request_steps_split:
  "request_steps cx r st s = (case intent_of r of None \<Rightarrow> data_steps cx r st s
     | Some (op, i) \<Rightarrow> append_step cx op i # data_steps cx r st s @ [mark_step cx s op i])"
  by (cases r) (simp_all add: persist_steps_def delete_handler_steps_def purge_memory_steps_def
      purge_namespace_steps_def api_purge_namespace_steps_def api_delete_steps_def)

text \<open>What the data steps of a request do to the index and the store, whatever the log holds.\<close>

definition behaves :: "step list \<Rightarrow> string set \<Rightarrow> string set \<Rightarrow> (string set \<Rightarrow> string set) \<Rightarrow>
    (op_type \<times> string) option \<Rightarrow> engine \<Rightarrow> bool" where
  "behaves D W N F op e \<longleftrightarrow> (\<forall>I U. holds I U e \<longrightarrow>
     traced (\<lambda>f. en_log f = en_log e \<and> holds I (U \<union> W) f) (holds I (F U)) D e \<and>
     (\<forall>x \<in> I. op = Some (e_op x, e_id x) \<longrightarrow> traced (\<lambda>f. en_log f = en_log e \<and> holds I (U \<union> (W - N)) f) (\<lambda>f. True) D e))"

text \<open>A request that changes a set of ids, and leaves the cleaned ones in agreement.\<close>

lemma behaves_changes:
  assumes t: "traced (changes W e) (\<lambda>f. \<forall>i \<in> R. clean i f) D e"
    and op: "\<And>x :: intent_entry. op = Some (e_op x, e_id x) \<Longrightarrow> e_op x \<noteq> Purge \<and> N = {e_id x}"
  shows "behaves D W N (\<lambda>U. (U \<union> W) - R) op e"
  unfolding behaves_def
proof (intro allI impI)
  fix I U assume "holds I U e"
  then have h: "holds I (U \<union> W) e" by (rule holds_mono) auto
  have pre: "en_log f = en_log e \<and> holds I (U \<union> W) f" if "changes W e f" for f
    using changes_holds [OF h that] that by (simp add: changes_def)
  have *: "traced (\<lambda>f. en_log f = en_log e \<and> holds I (U \<union> W) f) (holds I ((U \<union> W) - R)) D e"
    by (rule traced_imp [OF t]) (use pre holds_clean in blast)+
  moreover have "traced (\<lambda>f. en_log f = en_log e \<and> holds I (U \<union> (W - N)) f) (\<lambda>f. True) D e"
    if x: "x \<in> I" "op = Some (e_op x, e_id x)" for x
  proof (rule traced_imp [OF *])
    fix f assume f: "en_log f = en_log e \<and> holds I (U \<union> W) f"
    have "holds I ((U \<union> W) - {e_id x}) f"
      using holds_named [OF conjunct2 [OF f] x(1)] op [OF x(2)] by blast
    then show "en_log f = en_log e \<and> holds I (U \<union> (W - N)) f"
      using f op [OF x(2)] by (auto elim!: holds_mono)
  qed simp
  ultimately show "traced (\<lambda>f. en_log f = en_log e \<and> holds I (U \<union> W) f) (holds I ((U \<union> W) - R)) D e \<and>
     (\<forall>x \<in> I. op = Some (e_op x, e_id x) \<longrightarrow>
        traced (\<lambda>f. en_log f = en_log e \<and> holds I (U \<union> (W - N)) f) (\<lambda>f. True) D e)" by blast
qed

text \<open>A removal followed by its clean-up.\<close>

lemma removal_traced:
  assumes ok: "store_ok (en_store e)" "single_level (en_store e)" and s: "removes W s e"
    and tail: "\<And>e1. s e = Inr e1 \<Longrightarrow> store_ok (en_store e1) \<Longrightarrow> single_level (en_store e1) \<Longrightarrow>
      \<forall>i \<in> W. dead i e1 \<Longrightarrow> traced (prunes W e1) Q ss e1"
  shows "traced (changes W e) Q (s # ss) e"
proof (rule traced_Cons)
  show "changes W e e" using ok by (rule changes_refl)
  fix e1 assume s1: "s e = Inr e1"
  then have c: "changes W e e1" "\<forall>i \<in> W. dead i e1" using s unfolding removes_def by blast+
  then have ok1: "store_ok (en_store e1)" "single_level (en_store e1)" by (simp_all add: changes_def)
  show "traced (changes W e) Q ss e1"
    by (rule traced_imp [OF tail [OF s1 ok1 c(2)]]) (use changes_trans [OF c(1)] prunes_changes in blast)+
qed

lemma persist_traced:
  assumes ok: "store_ok (en_store e)" "single_level (en_store e)" and a: "persistable a (en_store e)"
  shows "traced (changes {ch_id (pa_chunk a)} e) (\<lambda>f. \<forall>i \<in> {ch_id (pa_chunk a)}. clean i f)
    (data_steps cx (RPersist a) st s) e"
  unfolding data_steps.simps
proof (intro traced_Cons traced_Nil)
  let ?c = "pa_chunk a"
  let ?i = "ch_id ?c"
  show "changes {?i} e e" using ok by (rule changes_refl)
  fix e1 assume "store_step ?c (cx_uuid cx s) e = Inr e1"
  then obtain st1 where st1: "store_chunk_locked (en_store e) ?c (cx_uuid cx s) = Inr st1" and e1: "e1 = e\<lparr>en_store := st1\<rparr>"
    by (auto simp: store_step_def store_chunk_def)
  have "ch_level ?c \<in> {0, 1, 2}" "\<And>l. kv_get (st_db (en_store e)) (chunk_key l ?i) \<noteq> None \<Longrightarrow> l = ch_level ?c"
    using a unfolding persistable_def by blast+
  note ef = store_locked_effect [OF ok st1 this]
  then show c1: "changes {?i} e e1" by (simp add: changes_def e1)
  fix e2 assume "upsert_step cx (pa_doc a) ?c e1 = Inr e2"
  then obtain ix where ix: "upsert_chunk_document (cx_chrono cx) (pa_doc a) ?c (en_index e1) = Inr ix"
    and e2: "e2 = e1\<lparr>en_index := ix\<rparr>" by (auto simp: upsert_step_def)
  have "get_chunk st1 ?i = Inr (Some ?c)" "td_content (pa_doc a) = ch_content ?c"
    using ef a by (simp_all add: persistable_def)
  note u = upsert_effect [OF ix this]
  show "changes {?i} e e2" using ef u by (simp add: changes_def e2 e1)
  fix e3 assume "commit_step e2 = Inr e3"
  then have e3: "e3 = e2\<lparr>en_index := commit_index ix\<rparr>" by (simp add: commit_step_def e2)
  show "changes {?i} e e3" using ef u by (simp add: changes_def e3 e2 e1 commit_index_def)
  show "\<forall>i \<in> {?i}. clean i e3" using u by (simp add: clean_def e3 e2 e1 commit_index_def)
qed

lemma delete_memory_traced:
  assumes ok: "store_ok (en_store e)" "single_level (en_store e)"
  shows "traced (changes (family (en_store e) i) e) (\<lambda>f. \<forall>j \<in> {j \<in> family (en_store e) i. oc j = Deleted}. clean j f)
    (delete_memory_steps cx i us oc (en_store e)) e"
proof (cases "tombstone_ingest_source (en_store e) i (cx_secs cx) us")
  case (Inl x)
  then show ?thesis
    by (simp add: delete_memory_steps_def changes_refl [OF ok] tombstone_step_def)
next
  case (Inr p)
  obtain ro st where p: "p = (ro, st)" by force
  show ?thesis
  proof (cases ro)
    case None
    have "family (en_store e) i = {i}"
      using Inr p None tombstone_cases [of "en_store e" i "cx_secs cx" us None st] by (auto simp: family_def)
    moreover have "traced (changes {i} e) (\<lambda>f. oc i = Deleted \<longrightarrow> clean i f) (delete_step cx i (us i) # cleanup_steps oc i) e"
      by (rule removal_traced [OF ok delete_removes [OF ok]]) (rule cleanup_traced; simp)
    then have "traced (changes {i} e) (\<lambda>f. \<forall>j \<in> {j \<in> {i}. oc j = Deleted}. clean j f) (delete_step cx i (us i) # cleanup_steps oc i) e"
      by (rule traced_mono) simp
    ultimately show ?thesis using Inr p None by (simp add: delete_memory_steps_def)
  next
    case (Some ids)
    then have t: "tombstone_ingest_source (en_store e) i (cx_secs cx) us = Inr (Some ids, st)" using Inr p by simp
    note rm = tombstone_removes [OF ok t]
    have "traced (changes (family (en_store e) i) e) (\<lambda>f. \<forall>j \<in> set ids. oc j = Deleted \<longrightarrow> clean j f)
        (tombstone_step cx i us # concat (map (cleanup_steps oc) ids)) e"
      by (rule removal_traced [OF ok rm(1)])
        (use prune_list [where xs = ids and oc = oc and g = "cleanup_steps oc", OF cleanup_traced] in \<open>simp add: rm(2)\<close>)
    then have "traced (changes (family (en_store e) i) e) (\<lambda>f. \<forall>j \<in> {j \<in> family (en_store e) i. oc j = Deleted}. clean j f)
        (tombstone_step cx i us # concat (map (cleanup_steps oc) ids)) e"
      by (rule traced_mono) (simp add: rm(2))
    then show ?thesis using t by (simp add: delete_memory_steps_def)
  qed
qed

lemma hard_purge_behaves:
  assumes ok: "store_ok (en_store e)" "single_level (en_store e)" and d: "\<forall>i \<in> set ids. dead i e"
  shows "behaves (hard_purge_steps oc ids) {} N (\<lambda>U. U - {j \<in> set ids. oc j = Deleted}) None e"
  unfolding behaves_def
proof (intro allI impI conjI)
  fix I U assume h: "holds I U e"
  have "traced (prunes (set ids) e) (\<lambda>f. \<forall>i \<in> set ids. oc i = Deleted \<longrightarrow> clean i f) (hard_purge_steps oc ids) e"
    unfolding hard_purge_steps_def by (rule prune_list [OF hard_purge_traced ok d])
  then show "traced (\<lambda>f. en_log f = en_log e \<and> holds I (U \<union> {}) f) (holds I (U - {j \<in> set ids. oc j = Deleted}))
      (hard_purge_steps oc ids) e"
  proof (rule traced_imp)
    fix f assume f: "prunes (set ids) e f"
    then have hf: "holds I U f" by (rule prunes_holds [OF h _ d])
    with f show "en_log f = en_log e \<and> holds I (U \<union> {}) f" by (simp add: prunes_def)
    assume "\<forall>i \<in> set ids. oc i = Deleted \<longrightarrow> clean i f"
    then show "holds I (U - {j \<in> set ids. oc j = Deleted}) f" by (intro holds_clean [OF hf]) simp
  qed
qed simp

lemma purge_step_holds:
  assumes h: "holds I U e" and x: "x \<in> I" "e_op x = Purge" "e_id x = s" and p: "purge_step s e = Inr e'"
  shows "holds I U e' \<and> en_log e' = en_log e \<and> (\<nexists>i c. live (en_store e') i = Some c \<and> ch_stream c = s)"
proof -
  obtain ids st where ids: "purge_namespace (en_store e) s False = Inr (ids, st)" and e': "e' = e\<lparr>en_store := st\<rparr>"
    using p by (auto simp: purge_step_def)
  have inv: "store_ok (en_store e)" "single_level (en_store e)" using h by (simp_all add: holds_def)
  show ?thesis
    using purge_effects [OF inv ids] consistent_purge_store [OF inv ids _ x] h by (simp add: holds_def e')
qed

lemma stream_step_holds:
  assumes h: "holds I U e" and d: "\<nexists>i c. live (en_store e) i = Some c \<and> ch_stream c = s"
    and I': "\<And>y. y \<in> I \<Longrightarrow> y \<notin> I' \<Longrightarrow> e_op y = Purge \<and> e_id y = s" and s: "delete_stream_step s e = Inr e'"
  shows "holds I' U e' \<and> en_log e' = en_log e"
proof -
  have e': "e' = e\<lparr>en_index := delete_stream s (en_index e)\<rparr>" using s by (simp add: delete_stream_step_def)
  have "consistent I' U (en_store e) (filter (\<lambda>d. dx_stream d \<noteq> s) (tx_staged (en_index e)))"
    by (rule consistent_purge_docs [where I = I, OF _ d]) (use h I' in \<open>simp_all add: holds_def\<close>)
  then show ?thesis
    using h by (simp add: holds_def e' delete_stream_def commit_index_def delete_stream_term_def)
qed

lemma behaves_purge:
  assumes 1: "behaves D W N F None e"
    and 2: "\<And>I U x. holds I U e \<Longrightarrow> x \<in> I \<Longrightarrow> e_op x = Purge \<Longrightarrow> e_id x = s \<Longrightarrow>
      traced (\<lambda>f. en_log f = en_log e \<and> holds I U f) (\<lambda>f. True) D e"
  shows "behaves D W W F (Some (Purge, s)) e"
  using 1 2 unfolding behaves_def by simp

lemma purge_namespace_behaves:
  assumes ok: "store_ok (en_store e)" "single_level (en_store e)"
  shows "behaves [purge_step s, delete_stream_step s] (stream_ids (en_store e) s) (stream_ids (en_store e) s)
    (\<lambda>U. U) (Some (Purge, s)) e"
proof (rule behaves_purge)
  fix I U x assume h: "holds I U e" and x: "x \<in> I" "e_op x = Purge" "e_id x = s"
  show "traced (\<lambda>f. en_log f = en_log e \<and> holds I U f) (\<lambda>f. True) [purge_step s, delete_stream_step s] e"
  proof (intro traced_Cons traced_Nil conjI)
    fix e1 assume s1: "purge_step s e = Inr e1"
    note p1 = purge_step_holds [OF h x s1]
    then show "holds I U e1" "en_log e1 = en_log e" by blast+
    fix e2 assume s2: "delete_stream_step s e1 = Inr e2"
    have "holds I U e2 \<and> en_log e2 = en_log e1" by (rule stream_step_holds [OF _ _ _ s2]) (use p1 in auto)
    with p1 show "holds I U e2" "en_log e2 = en_log e" by simp_all
  qed (use h in simp_all)
next
  show "behaves [purge_step s, delete_stream_step s] (stream_ids (en_store e) s) {} (\<lambda>U. U) None e"
    unfolding behaves_def
  proof (intro allI impI conjI)
    fix I U assume h: "holds I U e"
    let ?W = "stream_ids (en_store e) s"
    let ?y = "\<lparr>e_seq = 0, e_ts = 0, e_op = Purge, e_id = s, e_status = Pending\<rparr> :: intent_entry"
    have hW: "holds I (U \<union> ?W) e" using h by (rule holds_mono) auto
    have hy: "holds (insert ?y I) U e" using h by (rule holds_mono) auto
    show "traced (\<lambda>f. en_log f = en_log e \<and> holds I (U \<union> ?W) f) (holds I U) [purge_step s, delete_stream_step s] e"
    proof (intro traced_Cons traced_Nil conjI)
      fix e1 assume s1: "purge_step s e = Inr e1"
      have c1: "changes ?W e e1" using purge_removes [OF ok] s1 unfolding removes_def by blast
      have p1: "holds (insert ?y I) U e1 \<and> en_log e1 = en_log e \<and>
          (\<nexists>i c. live (en_store e1) i = Some c \<and> ch_stream c = s)"
        by (rule purge_step_holds [where x = ?y, OF hy _ _ _ s1]) simp_all
      have w1: "holds I (U \<union> ?W) e1" by (rule changes_holds [OF hW c1]) simp
      then show "holds I (U \<union> ?W) e1" .
      show "en_log e1 = en_log e" using p1 by simp
      fix e2 assume s2: "delete_stream_step s e1 = Inr e2"
      have "holds I (U \<union> ?W) e2 \<and> en_log e2 = en_log e1"
        by (rule stream_step_holds [OF w1 _ _ s2]) (use p1 in auto)
      with p1 show "holds I (U \<union> ?W) e2" "en_log e2 = en_log e" by simp_all
      have "holds I U e2 \<and> en_log e2 = en_log e1"
        by (rule stream_step_holds [where I = "insert ?y I", OF _ _ _ s2]) (use p1 in auto)
      then show "holds I U e2" ..
    qed (use hW in simp_all)
  qed simp
qed

lemma api_purge_behaves:
  fixes oc s e
  defines "D \<equiv> purge_step s # (case purge_namespace (en_store e) s False of
      Inl x \<Rightarrow> [] | Inr (ids, _) \<Rightarrow> map (tolerant_delete_step oc) ids)"
    and "W \<equiv> stream_ids (en_store e) s"
  assumes ok: "store_ok (en_store e)" "single_level (en_store e)"
  shows "behaves D W W (\<lambda>U. (U \<union> W) - {j \<in> W. oc j = Deleted}) (Some (Purge, s)) e"
proof (cases "purge_namespace (en_store e) s False")
  case (Inl x)
  then have D: "D = [purge_step s]" "purge_step s e = Inl x" by (simp_all add: D_def purge_step_def)
  show ?thesis
  proof (rule behaves_purge)
    show "behaves D W {} (\<lambda>U. (U \<union> W) - {j \<in> W. oc j = Deleted}) None e"
      by (rule behaves_changes) (simp_all add: D changes_refl [OF ok])
  qed (simp add: D)
next
  case (Inr p)
  then obtain ids st where p: "purge_namespace (en_store e) s False = Inr (ids, st)" by (cases p) simp
  then have D: "D = purge_step s # map (tolerant_delete_step oc) ids" by (simp add: D_def)
  have W: "set ids = W" using purge_ids_are [OF ok(1) p] by (simp add: W_def)
  have rm: "removes W (purge_step s) e" unfolding W_def by (rule purge_removes [OF ok])
  have tail: "traced (prunes W e1) (\<lambda>f. \<forall>i \<in> W. oc i = Deleted \<longrightarrow> clean i f) (map (tolerant_delete_step oc) ids) e1"
    if "store_ok (en_store e1)" "single_level (en_store e1)" "\<forall>i \<in> W. dead i e1" for e1
    using prune_list [where xs = ids and oc = oc and g = "\<lambda>i. [tolerant_delete_step oc i]", OF tolerant_traced, of e1] that
    by (simp add: W)
  show ?thesis
  proof (rule behaves_purge)
    have "traced (changes W e) (\<lambda>f. \<forall>i \<in> W. oc i = Deleted \<longrightarrow> clean i f) D e"
      unfolding D by (rule removal_traced [OF ok rm]) (rule tail)
    then have "traced (changes W e) (\<lambda>f. \<forall>i \<in> {j \<in> W. oc j = Deleted}. clean i f) D e"
      by (rule traced_mono) simp
    then show "behaves D W {} (\<lambda>U. (U \<union> W) - {j \<in> W. oc j = Deleted}) None e"
      by (rule behaves_changes) simp
  next
    fix I U x assume h: "holds I U e" and x: "x \<in> I" "e_op x = Purge" "e_id x = s"
    show "traced (\<lambda>f. en_log f = en_log e \<and> holds I U f) (\<lambda>f. True) D e"
      unfolding D
    proof (rule traced_Cons)
      fix e1 assume s1: "purge_step s e = Inr e1"
      note p1 = purge_step_holds [OF h x s1]
      have c1: "store_ok (en_store e1)" "single_level (en_store e1)" "\<forall>i \<in> W. dead i e1"
        using rm s1 unfolding removes_def changes_def by blast+
      show "traced (\<lambda>f. en_log f = en_log e \<and> holds I U f) (\<lambda>f. True) (map (tolerant_delete_step oc) ids) e1"
      proof (rule traced_imp [OF tail [OF c1]])
        fix f assume f: "prunes W e1 f"
        have "holds I U f" by (rule prunes_holds [OF _ f c1(3)]) (use p1 in blast)
        with f p1 show "en_log f = en_log e \<and> holds I U f" by (simp add: prunes_def)
      qed simp
    qed (use h in simp)
  qed
qed

lemma behaves_F: "behaves D W N F op e \<Longrightarrow> (\<And>U. F U = F' U) \<Longrightarrow> behaves D W N F' op e"
  by (simp add: behaves_def)

lemma behaves_eq:
  "behaves D W N F op e \<Longrightarrow> D' = D \<Longrightarrow> W' = W \<Longrightarrow> N' = N \<Longrightarrow> op' = op \<Longrightarrow> (\<And>U. F U = F' U) \<Longrightarrow> behaves D' W' N' F' op' e"
  by (simp add: behaves_def)

lemma request_behaves:
  assumes ok: "store_ok (en_store e)" "single_level (en_store e)" and a: "admissible r (en_store e)"
  shows "behaves (data_steps cx r (en_store e) s) (written r (en_store e)) (named r (en_store e))
    (\<lambda>U. (U - reindexed r (en_store e)) \<union> given_up r (en_store e)) (intent_of r) e"
proof (cases r)
  case (RPersist a)
  then have p: "persistable a (en_store e)" using assms(3) by simp
  show ?thesis
    unfolding RPersist
    by (rule behaves_F [OF behaves_changes [where R = "{ch_id (pa_chunk a)}", OF _]])
      (use persist_traced [OF ok p] p in \<open>auto simp: named_def persistable_def split: if_splits\<close>)
next
  case (RDelete i)
  have "traced (changes {i} e) (\<lambda>f. \<forall>j \<in> {i}. clean j f) [delete_step cx i (cx_uuid cx s), tolerant_delete_step (\<lambda>_. Deleted) i] e"
    by (rule removal_traced [OF ok delete_removes [OF ok]])
      (use tolerant_traced [where oc = "\<lambda>_. Deleted"] in simp)
  moreover have "tolerant_delete_step (\<lambda>_. Deleted) i = delete_document_step i"
    by (simp add: fun_eq_iff tolerant_delete_step_def try_delete_document_def delete_document_step_def)
  ultimately show ?thesis
    unfolding RDelete
    by (intro behaves_F [OF behaves_changes [where R = "{i}"]]) (auto simp: named_def)
next
  case (RPurgeMemory i oc)
  have "traced (changes {i} e) (\<lambda>f. \<forall>j \<in> {j \<in> {i}. oc j = Deleted}. clean j f) [hard_delete_step i, tolerant_delete_step oc i] e"
    by (rule removal_traced [OF ok hard_delete_removes [OF ok]])
      (rule traced_mono [OF tolerant_traced [where oc = oc]]; simp)
  then show ?thesis
    unfolding RPurgeMemory
    by (intro behaves_F [OF behaves_changes [where R = "{j \<in> {i}. oc j = Deleted}"]]) (auto simp: named_def)
next
  case (RPurgeNamespace str dry)
  show ?thesis
  proof (cases dry)
    case True
    then show ?thesis using ok by (simp add: RPurgeNamespace behaves_def)
  next
    case False
    then show ?thesis
      unfolding RPurgeNamespace using purge_namespace_behaves [OF ok, of str]
      by (simp add: named_def)
  qed
next
  case (RApiPurge str dry oc)
  show ?thesis
  proof (cases dry)
    case True
    then show ?thesis using ok by (simp add: RApiPurge behaves_def)
  next
    case False
    have "behaves (data_steps cx r (en_store e) s) (stream_ids (en_store e) str) (stream_ids (en_store e) str)
        (\<lambda>U. (U \<union> stream_ids (en_store e) str) - {j \<in> stream_ids (en_store e) str. oc j = Deleted}) (Some (Purge, str)) e"
      using api_purge_behaves [OF ok, of str oc] False by (simp add: RApiPurge)
    then show ?thesis
      unfolding RApiPurge by (rule behaves_eq) (use False in \<open>auto simp: named_def\<close>)
  qed
next
  case (RApiDelete i us oc)
  show ?thesis
    unfolding RApiDelete
    by (rule behaves_F [OF behaves_changes [where R = "{j \<in> family (en_store e) i. oc j = Deleted}"]])
      (use delete_memory_traced [OF ok] in \<open>auto simp: named_def\<close>)
next
  case (RMcpDelete i us oc)
  show ?thesis
    unfolding RMcpDelete
    by (rule behaves_F [OF behaves_changes [where R = "{j \<in> family (en_store e) i. oc j = Deleted}"]])
      (use delete_memory_traced [OF ok] in \<open>auto simp: named_def\<close>)
next
  case (RHardPurge ids oc)
  have "dead i e" if "i \<in> set ids" for i
    using a that unfolding RHardPurge admissible.simps by (fastforce simp: dead_def live_def)
  then show ?thesis
    unfolding RHardPurge using hard_purge_behaves [where ids = ids and oc = oc and N = "{}", OF ok] by (simp add: named_def)
qed

lemma request_inv:
  assumes inv: "engine_inv llen U e" and cx: "cx_llen cx = llen" and nx: "log_next_seq (en_log e) < u64_max"
    and a: "admissible r (en_store e)"
    and run: "run_steps (take k (request_steps cx r (en_store e) (log_next_seq (en_log e)))) e = (res, e')"
  shows "engine_inv llen (unaccounted cx r e k res U) e'"
proof -
  let ?s = "log_next_seq (en_log e)" and ?st = "en_store e"
  let ?D = "data_steps cx r ?st ?s"
  let ?W = "written r ?st" and ?N = "named r ?st" and ?F = "(U - reindexed r ?st) \<union> given_up r ?st"
  let ?T = "U \<union> (?W - (if torn (en_log e) then {} else ?N))"
  have reach: "log_reach llen (en_log e)" and h: "holds (open_intents (en_log e)) U e"
    using inv by (simp_all add: engine_inv_holds)
  have ok: "store_ok ?st" "single_level ?st" using h by (simp_all add: holds_def)
  note split = request_steps_split [of cx r ?st ?s]
  have UT: "engine_inv llen ?T f" if "engine_inv llen U f" for f
    using that holds_mono [of _ U f _ ?T] by (auto simp: engine_inv_holds)
  show ?thesis
  proof (cases "intent_of r")
    case None
    then have steps: "request_steps cx r ?st ?s = ?D" and N: "?N = {}" by (simp_all add: split named_def)
    have b: "behaves ?D ?W ?N (\<lambda>U. (U - reindexed r ?st) \<union> given_up r ?st) None e"
      using request_behaves [OF ok a, of cx ?s] None by simp
    have t: "traced (\<lambda>f. en_log f = en_log e \<and> holds (open_intents (en_log e)) (U \<union> ?W) f)
        (holds (open_intents (en_log e)) ?F) ?D e"
      using b h unfolding behaves_def by blast
    have e': "e' = snd (run_steps (take k ?D) e)" using run by (simp add: steps)
    have mid: "engine_inv llen (U \<union> ?W) e'"
      using safe_prefix [OF traced_safe [OF t], of k] reach by (simp add: e' engine_inv_holds)
    consider "length ?D \<le> k" "res = Inr ()" | "k = 0" "\<not> (length ?D \<le> k \<and> res = Inr ())"
      | "0 < k" "\<not> (length ?D \<le> k \<and> res = Inr ())" by blast
    then show ?thesis
    proof cases
      case 1
      then have "run_steps ?D e = (Inr (), e')" using run by (simp add: steps)
      from traced_end [OF t this] reach 1 show ?thesis
        by (simp add: unaccounted_def Let_def steps engine_inv_holds)
    next
      case 2
      have "e' = e" using e' 2(1) by simp
      have "unaccounted cx r e k res U = U" using 2 None by (auto simp: unaccounted_def Let_def steps)
      then show ?thesis using inv \<open>e' = e\<close> by simp
    next
      case 3
      then show ?thesis using mid None N by (auto simp: unaccounted_def Let_def steps)
    qed
  next
    case (Some oi)
    obtain op i where oi: "oi = (op, i)" by force
    have steps: "request_steps cx r ?st ?s = append_step cx op i # ?D @ [mark_step cx ?s op i]"
      using Some oi by (simp add: split)
    have "\<exists>f. append_step cx op i e = Inr f" by (simp add: append_step_def)
    then obtain e1 where s1: "append_step cx op i e = Inr e1" ..
    note ap = append_facts [OF reach nx cx s1]
    let ?I = "open_intents (en_log e1)" and ?x = "new_intent cx op i ?s"
    have h0: "holds (open_intents (en_log e)) U e1" by (rule holds_same [OF h ap(1,2)])
    have h1: "holds ?I U e1" by (rule holds_mono [OF h0]) (auto simp: ap(6))
    have b: "behaves ?D ?W ?N (\<lambda>U. (U - reindexed r ?st) \<union> given_up r ?st) (Some (op, i)) e1"
      using request_behaves [of e1 r cx ?s] ok a Some oi by (simp add: ap(1))
    have t0: "traced (\<lambda>f. en_log f = en_log e1 \<and> holds (open_intents (en_log e)) (U \<union> ?W) f)
        (holds (open_intents (en_log e)) ?F) ?D e1"
      using b h0 unfolding behaves_def by blast
    have tT: "traced (\<lambda>f. en_log f = en_log e1 \<and> holds ?I ?T f) (\<lambda>f. True) ?D e1"
    proof (cases "torn (en_log e)")
      case True
      then show ?thesis by (intro traced_imp [OF t0]) (simp_all add: ap(6))
    next
      case False
      then have "?x \<in> ?I" "Some (op, i) = Some (e_op ?x, e_id ?x)" by (simp_all add: ap(6) new_intent_def)
      then have "traced (\<lambda>f. en_log f = en_log e1 \<and> holds ?I (U \<union> (?W - ?N)) f) (\<lambda>f. True) ?D e1"
        using b h1 unfolding behaves_def by blast
      then show ?thesis using False by simp
    qed
    have inv1: "engine_inv llen U e1" using ap h1 by (simp add: engine_inv_holds)
    consider "k = 0" | "k = 1" | j where "k = Suc (Suc j)" by (metis One_nat_def not0_implies_Suc)
    then show ?thesis
    proof cases
      case 1
      have "e' = e" using run 1 by simp
      have "unaccounted cx r e k res U = U" using 1 by (simp add: unaccounted_def Let_def steps)
      then show ?thesis using inv \<open>e' = e\<close> by simp
    next
      case 2
      then have "e' = e1" using run s1 by (simp add: steps)
      then show ?thesis using inv1 2 Some by (auto simp: unaccounted_def Let_def steps)
    next
      case (3 j)
      have run1: "run_steps (take (Suc j) (?D @ [mark_step cx ?s op i])) e1 = (res, e')"
        using run s1 3 by (simp add: steps)
      show ?thesis
      proof (cases "length ?D \<le> j \<and> res = Inr ()")
        case False
        have "engine_inv llen ?T e'"
        proof (cases "Suc j \<le> length ?D")
          case True
          then have "e' = snd (run_steps (take (Suc j) ?D) e1)" using run1 by simp
          then show ?thesis
            using safe_prefix [OF traced_safe [OF tT], of "Suc j"] ap(3) by (simp add: engine_inv_holds)
        next
          case False
          with \<open>\<not> (length ?D \<le> j \<and> res = Inr ())\<close> have "res \<noteq> Inr ()" "length ?D \<le> j" by simp_all
          then have "e' = snd (run_steps ?D e1)"
            using run1 by (auto simp: run_steps_append mark_step_def split: prod.splits sum.splits)
          then show ?thesis
            using safe_end [OF traced_safe [OF tT]] ap(3) by (simp add: engine_inv_holds)
        qed
        then show ?thesis using False 3 Some oi by (auto simp: unaccounted_def Let_def steps)
      next
        case True
        then obtain e2 where e2: "run_steps ?D e1 = (Inr (), e2)" and m: "mark_step cx ?s op i e2 = Inr e'"
          using run1 by (auto simp: run_steps_append split: prod.splits sum.splits)
        note t2 = traced_end [OF t0 e2]
        have l2: "en_log e2 = en_log e1" using t2 by blast
        have m2: "log_reach llen (en_log e2)" "\<not> torn (en_log e2)" "?s < log_next_seq (en_log e2)"
          using ap by (simp_all add: l2)
        note mk = mark_facts [OF m2 cx m]
        have "open_intents (en_log e') = open_intents (en_log e)"
          using open_intents_seq [OF reach] by (fastforce simp: mk(4) l2 ap(6) new_intent_def split: if_splits)
        moreover have "holds (open_intents (en_log e)) ?F e'" by (rule holds_same [OF _ mk(1,2)]) (use t2 in blast)
        ultimately have "engine_inv llen ?F e'" using mk(3) by (simp add: engine_inv_holds)
        then show ?thesis using True 3 by (simp add: unaccounted_def Let_def steps)
      qed
    qed
  qed
qed

section \<open>Recovery, stopped anywhere\<close>

text \<open>The state of a recovery that still has to replay the entries of a set.\<close>

definition rec_inv :: "(log_line \<Rightarrow> nat) \<Rightarrow> string set \<Rightarrow> intent_log \<Rightarrow> engine \<Rightarrow> bool" where
  "rec_inv llen U l e \<longleftrightarrow> engine_inv llen U e \<and> en_log e = l"

definition rest_ok :: "intent_entry set \<Rightarrow> string set \<Rightarrow> engine \<Rightarrow> bool" where
  "rest_ok R U e \<longleftrightarrow> consistent R U (en_store e) (tx_staged (en_index e))"

lemma index_inv:
  assumes "rec_inv llen U l e" "x \<in> open_intents l" "e_op x \<noteq> Purge" "e_id x = i" "e' = e\<lparr>en_index := ix\<rparr>"
    and staged: "\<And>j. j \<noteq> i \<Longrightarrow> docs_of j (tx_staged ix) = docs_of j (tx_staged (en_index e))"
    and comm: "tx_committed ix = tx_committed (en_index e) \<or> tx_committed ix = tx_staged ix"
    and ag: "agree (en_store e) (tx_staged ix) i" and rest: "rest_ok (insert x R) U e"
  shows "rec_inv llen U l e' \<and> rest_ok R U e'"
proof -
  have inv: "engine_inv llen U e" "en_log e = l" using assms(1) by (simp_all add: rec_inv_def)
  have st: "consistent (open_intents (en_log e)) U (en_store e) (tx_staged ix)"
    by (rule consistent_at [where i = i and x = x and docs = "tx_staged (en_index e)" and st = "en_store e"])
      (use assms inv in \<open>simp_all add: engine_inv_def\<close>)
  have "rec_inv llen U l e'"
    unfolding rec_inv_def
    by (rule conjI, rule engine_invI [OF inv(1)])
      (use st comm inv in \<open>auto simp: assms(5) engine_inv_def\<close>)
  moreover have "consistent (insert x R) U (en_store e) (tx_staged ix)"
    by (rule consistent_at [where i = i and x = x and docs = "tx_staged (en_index e)" and st = "en_store e"])
      (use assms(3,4) staged rest in \<open>simp_all add: rest_ok_def\<close>)
  then have "consistent R U (en_store e) (tx_staged ix)"
    by (rule consistent_settle [OF _ ag]) (use assms(3,4) in auto)
  ultimately show ?thesis by (simp add: rest_ok_def assms(5))
qed

lemma replay_chunk_traced:
  assumes inv: "rec_inv llen U l e" and x: "x \<in> open_intents l" "e_op x \<noteq> Purge" "e_id x = i"
    and rest: "rest_ok (insert x R) U e"
  shows "traced (rec_inv llen U l) (rest_ok R U) [replay_chunk_step cx i] e"
proof (intro traced_Cons traced_Nil)
  show "rec_inv llen U l e" by (rule inv)
  fix e' assume s: "replay_chunk_step cx i e = Inr e'"
  then obtain b ix where ix: "replay_chunk_to_tantivy cx (en_store e) (en_index e) i = Inr (b, ix)"
    and e': "e' = e\<lparr>en_index := ix\<rparr>" by (auto simp: replay_chunk_step_def)
  then obtain co where co: "get_chunk (en_store e) i = Inr co" by (auto simp: replay_chunk_to_tantivy_def)
  have ok: "store_ok (en_store e)" using inv by (simp add: rec_inv_def engine_inv_def)
  have "agree (en_store e) (tx_staged ix) i \<and>
      (tx_committed ix = tx_committed (en_index e) \<or> tx_committed ix = tx_staged ix) \<and>
      (\<forall>j. j \<noteq> i \<longrightarrow> docs_of j (tx_staged ix) = docs_of j (tx_staged (en_index e)))"
  proof (cases "live (en_store e) i")
    case None
    then have "ix = delete_document i (en_index e)"
      using co ix by (auto simp: replay_chunk_to_tantivy_def live_def split: option.splits if_splits)
    then show ?thesis using agree_dead [OF co None] by (simp add: delete_document_effect)
  next
    case (Some c)
    then have g: "get_chunk (en_store e) i = Inr (Some c)" and d: "ch_deleted_at c = None"
      using co by (auto simp: live_def split: option.splits if_splits)
    then obtain d where d: "build_recovery_text_doc cx (en_store e) c = Inr d"
      and u: "upsert_chunk_document (cx_chrono cx) d c (en_index e) = Inr ix"
      using ix by (auto simp: replay_chunk_to_tantivy_def)
    have "ch_id c = i" using get_chunk_id [OF ok g] by simp
    moreover have "td_content d = ch_content c" using d by (auto simp: build_recovery_text_doc_def)
    ultimately show ?thesis using upsert_effect [OF u, of "en_store e"] g by auto
  qed
  then show "rec_inv llen U l e'" "rest_ok R U e'"
    using index_inv [OF inv x e' _ _ _ rest] by blast+
qed

lemma replay_remove_traced:
  assumes inv: "rec_inv llen U l e" and x: "x \<in> open_intents l" "e_op x \<noteq> Purge" "e_id x = i"
    and rest: "rest_ok (insert x R) U e" and rm: "removes {i} s e"
  shows "traced (rec_inv llen U l) (rest_ok R U) [s, delete_document_step i] e"
proof (intro traced_Cons traced_Nil)
  show "rec_inv llen U l e" by (rule inv)
  have einv: "engine_inv llen U e" "en_log e = l" using inv by (simp_all add: rec_inv_def)
  fix e1 assume s1: "s e = Inr e1"
  have e1: "e1 = e\<lparr>en_store := en_store e1\<rparr>" "store_ok (en_store e1)" "single_level (en_store e1)"
      "live (en_store e1) i = None" "\<exists>co. get_chunk (en_store e1) i = Inr co"
      "\<forall>j. j \<noteq> i \<longrightarrow> get_chunk (en_store e1) j = get_chunk (en_store e) j"
    using rm s1 unfolding removes_def changes_def dead_def by blast+
  have same: "en_log e1 = en_log e" "en_index e1 = en_index e"
    using arg_cong [OF e1(1), of en_log] arg_cong [OF e1(1), of en_index] by simp_all
  have at: "consistent I U (en_store e1) docs" if "consistent I U (en_store e) docs" "x \<in> I" for I docs
    using consistent_at [OF that, of i] e1(6) x by simp
  show inv1: "rec_inv llen U l e1"
    unfolding rec_inv_def
    by (rule conjI, rule engine_invI [OF einv(1)])
      (use e1 same at x einv in \<open>simp_all add: engine_inv_def\<close>)
  have rest1: "rest_ok (insert x R) U e1" using rest at by (simp add: rest_ok_def same)
  fix e2 assume s2: "delete_document_step i e1 = Inr e2"
  then have e2: "e2 = e1\<lparr>en_index := delete_document i (en_index e1)\<rparr>" by (simp add: delete_document_step_def)
  obtain co where co: "get_chunk (en_store e1) i = Inr co" using e1(5) by blast
  show "rec_inv llen U l e2" "rest_ok R U e2"
    using index_inv [OF inv1 x e2 _ _ _ rest1] agree_dead [OF co e1(4)]
    by (simp_all add: delete_document_effect)
qed

lemma purge_step_effect:
  assumes "purge_step s e = Inr e'" "engine_inv llen U e" "x \<in> I" "e_op x = Purge" "e_id x = s"
  shows "en_log e' = en_log e \<and> en_index e' = en_index e \<and> store_ok (en_store e') \<and> single_level (en_store e') \<and>
    (\<nexists>i c. live (en_store e') i = Some c \<and> ch_stream c = s) \<and>
    (consistent I V (en_store e) docs \<longrightarrow> consistent I V (en_store e') docs)"
proof -
  obtain ids st where p: "purge_namespace (en_store e) s False = Inr (ids, st)" and e': "e' = e\<lparr>en_store := st\<rparr>"
    using assms(1) by (auto simp: purge_step_def)
  have inv: "store_ok (en_store e)" "single_level (en_store e)" using assms(2) by (simp_all add: engine_inv_def)
  show ?thesis
    using purge_effects [OF inv p] consistent_purge_store [OF inv p _ assms(3-5)] by (simp add: e')
qed

lemma replay_purge_traced:
  assumes inv: "rec_inv llen U l e" and x: "x \<in> open_intents l" "e_op x = Purge" "e_id x = str"
    and rest: "rest_ok (insert x R) U e"
  shows "traced (rec_inv llen U l) (rest_ok R U) [purge_step str, delete_stream_step str] e"
proof (intro traced_Cons traced_Nil)
  show "rec_inv llen U l e" by (rule inv)
  have einv: "engine_inv llen U e" "en_log e = l" using inv by (simp_all add: rec_inv_def)
  fix e1 assume s1: "purge_step str e = Inr e1"
  have p: "en_log e1 = en_log e \<and> en_index e1 = en_index e \<and> store_ok (en_store e1) \<and> single_level (en_store e1) \<and>
      (\<nexists>i c. live (en_store e1) i = Some c \<and> ch_stream c = str) \<and>
      (consistent I U (en_store e) docs \<longrightarrow> consistent I U (en_store e1) docs)" if "x \<in> I" for I docs
    by (rule purge_step_effect [OF s1 einv(1) that x(2,3)])
  note p0 = p [OF x(1)]
  show inv1: "rec_inv llen U l e1"
    unfolding rec_inv_def
    by (rule conjI, rule engine_invI [OF einv(1)]) (use p0 einv in \<open>simp_all add: engine_inv_def\<close>)
  have rest1: "consistent (insert x R) U (en_store e1) (tx_staged (en_index e1))"
    using p [of "insert x R"] rest by (simp add: rest_ok_def)
  have dead: "\<nexists>i c. live (en_store e1) i = Some c \<and> ch_stream c = str" using p0 by blast
  fix e2 assume s2: "delete_stream_step str e1 = Inr e2"
  then have e2: "e2 = e1\<lparr>en_index := delete_stream str (en_index e1)\<rparr>" by (simp add: delete_stream_step_def)
  have ix: "tx_committed (en_index e2) = tx_staged (en_index e2)"
      "tx_staged (en_index e2) = filter (\<lambda>d. dx_stream d \<noteq> str) (tx_staged (en_index e1))"
    by (simp_all add: e2 delete_stream_def commit_index_def delete_stream_term_def)
  have st: "consistent I' U (en_store e2) (tx_staged (en_index e2))"
    if "consistent I U (en_store e1) (tx_staged (en_index e1))" "\<And>y. y \<in> I \<Longrightarrow> y \<notin> I' \<Longrightarrow> y = x" for I I'
    unfolding ix(2) using consistent_purge_docs [OF that(1) dead, of I'] that(2) x by (auto simp: e2)
  have einv1: "engine_inv llen U e1" "en_log e1 = l" using inv1 by (simp_all add: rec_inv_def)
  have c2: "consistent (open_intents (en_log e1)) U (en_store e2) (tx_staged (en_index e2))"
    by (rule st [of "open_intents l"]) (use einv1 in \<open>simp_all add: engine_inv_def\<close>)
  show "rec_inv llen U l e2"
    unfolding rec_inv_def
    by (rule conjI, rule engine_invI [OF einv1(1)])
      (use c2 einv1 ix in \<open>simp_all add: e2 engine_inv_def\<close>)
  show "rest_ok R U e2" unfolding rest_ok_def by (rule st [OF rest1]) auto
qed

lemma replay_entry_traced:
  assumes "rec_inv llen U l e" "x \<in> open_intents l" "rest_ok (insert x R) U e"
  shows "traced (rec_inv llen U l) (rest_ok R U) (replay_entry cx x) e"
proof -
  have ok: "store_ok (en_store e)" "single_level (en_store e)"
    using assms(1) by (simp_all add: rec_inv_def engine_inv_def)
  show ?thesis
  proof (cases "e_op x")
  case Store
  then show ?thesis using replay_chunk_traced [OF assms(1,2) _ refl assms(3)] by (simp add: replay_entry_def)
next
  case Delete
  then show ?thesis
    using replay_remove_traced [OF assms(1,2) _ refl assms(3) replay_delete_removes] ok by (simp add: replay_entry_def)
next
  case Purge
  then show ?thesis using replay_purge_traced [OF assms(1,2) _ refl assms(3)] by (simp add: replay_entry_def)
next
  case PurgeChunk
  then show ?thesis
    using replay_remove_traced [OF assms(1,2) _ refl assms(3) hard_delete_removes] ok by (simp add: replay_entry_def)
next
  case Consolidate
  then show ?thesis using replay_chunk_traced [OF assms(1,2) _ refl assms(3)] by (simp add: replay_entry_def)
  qed
qed

lemma replay_all_traced:
  "rec_inv llen U l e \<Longrightarrow> set xs \<subseteq> open_intents l \<Longrightarrow> rest_ok (set xs) U e \<Longrightarrow>
     traced (rec_inv llen U l) (rest_ok {} U) (concat (map (replay_entry cx) xs)) e"
proof (induction xs arbitrary: e)
  case (Cons x xs)
  have x: "x \<in> open_intents l" "set xs \<subseteq> open_intents l" "rest_ok (insert x (set xs)) U e" using Cons.prems by simp_all
  have "traced (rec_inv llen U l) (rest_ok {} U) (replay_entry cx x @ concat (map (replay_entry cx) xs)) e"
    by (rule traced_append [OF replay_entry_traced [OF Cons.prems(1) x(1,3)]]) (rule Cons.IH [OF _ x(2)])
  then show ?case by simp
qed simp

text \<open>After the commit nothing is left to settle, and marking the intents keeps it so.\<close>

definition settled :: "(log_line \<Rightarrow> nat) \<Rightarrow> string set \<Rightarrow> engine \<Rightarrow> bool" where
  "settled llen U e \<longleftrightarrow> engine_inv llen U e \<and>
     consistent {} U (en_store e) (tx_staged (en_index e)) \<and>
     consistent {} U (en_store e) (tx_committed (en_index e))"

lemma settled_inv: "settled llen U e \<Longrightarrow> engine_inv llen U e"
  by (simp add: settled_def)

lemma mark_settled:
  assumes "settled llen U e" "s < log_next_seq (en_log e)" "cx_llen cx = llen" "mark_step cx s op i e = Inr e'"
  shows "settled llen U e' \<and> log_next_seq (en_log e') = log_next_seq (en_log e) \<and>
    (\<not> torn (en_log e) \<longrightarrow> \<not> torn (en_log e') \<and>
       open_intents (en_log e') = {x \<in> open_intents (en_log e). e_seq x \<noteq> s})"
proof -
  have e': "e' = e\<lparr>en_log := mark_committed llen (cx_millis cx) s op i (en_log e)\<rparr>"
    using assms(3,4) by (simp add: mark_step_def)
  have "log_reach llen (en_log e')"
    using assms(1,2) by (auto simp: e' settled_def engine_inv_def intro: log_reach.commit)
  moreover have "consistent I U (en_store e) docs" if "consistent {} U (en_store e) docs" for I docs
    using consistent_mono [OF that] by blast
  ultimately have "settled llen U e'"
    using assms(1) by (simp add: settled_def engine_inv_def) (simp add: e')
  then show ?thesis
    using torn_write_entry mark_committed_open [of "en_log e"] by (auto simp: e' mark_committed_def)
qed

lemma marks_settled:
  "settled llen U e \<Longrightarrow> cx_llen cx = llen \<Longrightarrow> list_all (\<lambda>x. e_seq x < log_next_seq (en_log e)) xs \<Longrightarrow>
     traced (settled llen U) (\<lambda>e'. \<not> torn (en_log e) \<longrightarrow>
         open_intents (en_log e') = {x \<in> open_intents (en_log e). e_seq x \<notin> e_seq ` set xs})
       (map (\<lambda>x. mark_step cx (e_seq x) (e_op x) (e_id x)) xs) e"
proof (induction xs arbitrary: e)
  case (Cons x xs)
  show ?case
    unfolding list.map
  proof (rule traced_Cons)
    show "settled llen U e" by (rule Cons.prems(1))
    fix e1 assume s: "mark_step cx (e_seq x) (e_op x) (e_id x) e = Inr e1"
    have m: "settled llen U e1" "log_next_seq (en_log e1) = log_next_seq (en_log e)"
        "\<not> torn (en_log e) \<Longrightarrow> \<not> torn (en_log e1)"
        "\<not> torn (en_log e) \<Longrightarrow> open_intents (en_log e1) = {y \<in> open_intents (en_log e). e_seq y \<noteq> e_seq x}"
      using mark_settled [OF Cons.prems(1) _ Cons.prems(2) s] Cons.prems(3) by simp_all
    have "traced (settled llen U) (\<lambda>e'. \<not> torn (en_log e1) \<longrightarrow>
         open_intents (en_log e') = {x \<in> open_intents (en_log e1). e_seq x \<notin> e_seq ` set xs})
       (map (\<lambda>x. mark_step cx (e_seq x) (e_op x) (e_id x)) xs) e1"
      by (rule Cons.IH [OF m(1) Cons.prems(2)]) (use Cons.prems(3) m(2) in simp)
    then show "traced (settled llen U) (\<lambda>e'. \<not> torn (en_log e) \<longrightarrow>
         open_intents (en_log e') = {y \<in> open_intents (en_log e). e_seq y \<notin> e_seq ` set (x # xs)})
       (map (\<lambda>x. mark_step cx (e_seq x) (e_op x) (e_id x)) xs) e1"
      by (rule traced_mono) (use m(3,4) in auto)
  qed
qed auto

lemma recovery_traced:
  assumes inv: "engine_inv llen U e" and cx: "cx_llen cx = llen"
  shows "safe (engine_inv llen U) (recovery_steps cx commit_step (scan_pending (en_log e))) e"
    and "run_steps (recovery_steps cx commit_step (scan_pending (en_log e))) e = (Inr (), e') \<Longrightarrow>
      settled llen U e' \<and> (\<not> torn (en_log e) \<longrightarrow> open_intents (en_log e') = {})"
proof -
  let ?l = "en_log e"
  let ?xs = "scan_pending ?l"
  let ?R = "concat (map (replay_entry cx) ?xs)"
  let ?M = "map (\<lambda>x. mark_step cx (e_seq x) (e_op x) (e_id x)) ?xs"
  have wf: "log_wf ?l" using inv by (auto simp: engine_inv_def intro: log_reach_wf)
  have xs: "set ?xs = open_intents ?l" using wf by (rule wf_scan_pending)
  have rep: "traced (rec_inv llen U ?l) (rest_ok {} U) ?R e"
    by (rule replay_all_traced) (use inv xs in \<open>simp_all add: rec_inv_def rest_ok_def engine_inv_def\<close>)
  have seqs: "list_all (\<lambda>x. e_seq x < log_next_seq ?l) ?xs"
    using wf xs seq_bounds(1) by (auto simp: list_all_iff open_intents_def log_wf_def)
  have after: "rec_inv llen U ?l e1 \<and> settled llen U e2 \<and> en_log e2 = ?l \<and>
      traced (settled llen U) (\<lambda>e'. \<not> torn ?l \<longrightarrow> open_intents (en_log e') = {}) ?M e2"
    if "run_steps ?R e = (Inr (), e1)" "commit_step e1 = Inr e2" for e1 e2
  proof -
    have e1: "rec_inv llen U ?l e1" "rest_ok {} U e1" using traced_end [OF rep that(1)] by simp_all
    have e2: "e2 = e1\<lparr>en_index := commit_index (en_index e1)\<rparr>" using that(2) by (simp add: commit_step_def)
    have "settled llen U e2"
      using e1 consistent_mono [of "{}"] by (auto simp: settled_def e2 rec_inv_def rest_ok_def engine_inv_def commit_index_def)
    moreover have log: "en_log e2 = ?l" using e1 by (simp add: e2 rec_inv_def)
    moreover have "traced (settled llen U) (\<lambda>e'. \<not> torn ?l \<longrightarrow> open_intents (en_log e') = {}) ?M e2"
      by (rule traced_mono [OF marks_settled [OF \<open>settled llen U e2\<close> cx]])
        (use seqs xs in \<open>auto simp: log\<close>)
    ultimately show ?thesis using e1 by blast
  qed
  have safe_mono: "safe P ss f \<Longrightarrow> (\<And>g. P g \<Longrightarrow> P' g) \<Longrightarrow> safe P' ss f" for P P' ss f
    by (induction ss arbitrary: f) (auto split: sum.splits)
  have "safe (engine_inv llen U) (?R @ [commit_step] @ ?M) e"
  proof (rule safe_append)
    show "safe (engine_inv llen U) ?R e"
      by (rule safe_mono [OF traced_safe [OF rep]]) (simp add: rec_inv_def)
    fix e1 assume e1: "run_steps ?R e = (Inr (), e1)"
    show "safe (engine_inv llen U) ([commit_step] @ ?M) e1"
      unfolding append.simps
    proof (rule safe_Cons)
      show "engine_inv llen U e1" using traced_end [OF rep e1] by (simp add: rec_inv_def)
      fix e2 assume "commit_step e1 = Inr e2"
      then show "safe (engine_inv llen U) ?M e2"
        using after [OF e1] by (blast intro: safe_mono [OF traced_safe] settled_inv)
    qed
  qed
  then show "safe (engine_inv llen U) (recovery_steps cx commit_step ?xs) e"
    by (simp only: recovery_steps_def)
  assume run: "run_steps (recovery_steps cx commit_step ?xs) e = (Inr (), e')"
  then obtain e1 e2 where e1: "run_steps ?R e = (Inr (), e1)" and e2: "commit_step e1 = Inr e2"
    and e': "run_steps ?M e2 = (Inr (), e')"
    by (auto simp: recovery_steps_def run_steps_append split: prod.splits sum.splits)
  show "settled llen U e' \<and> (\<not> torn ?l \<longrightarrow> open_intents (en_log e') = {})"
    using after [OF e1 e2] traced_end [OF _ e'] by blast
qed

section \<open>Histories\<close>

text \<open>The chunks whose document only a removed intent accounted for.\<close>

definition forgotten :: "engine \<Rightarrow> intent_log \<Rightarrow> string set" where
  "forgotten e l =
     {i. \<exists>x \<in> open_intents (en_log e). x \<notin> open_intents l \<and>
        ((e_op x \<noteq> Purge \<and> e_id x = i) \<or>
         (e_op x = Purge \<and> live (en_store e) i = None \<and>
          (\<exists>d \<in> set (docs_of i (tx_staged (en_index e)) @ docs_of i (tx_committed (en_index e))). dx_stream d = e_id x)))}"

text \<open>
  Requests run one after the other; each may end at any of its effects, through an error, a dropped
  connection or a stop of the process, with or without a restart before the next one. The set that a
  history carries holds the chunks whose document nothing accounts for: a request changes it as
  \<^const>\<open>unaccounted\<close> says, and a garbage collection adds what the open intents it removes accounted
  for. Requests that overlap in time are not part of a history.
\<close>

inductive history :: "(log_line \<Rightarrow> nat) \<Rightarrow> string set \<Rightarrow> engine \<Rightarrow> bool" for llen where
  start: "log_reach llen l \<Longrightarrow> open_intents l = {} \<Longrightarrow> store_ok st \<Longrightarrow> single_level st \<Longrightarrow>
     \<forall>i. agree st docs i \<Longrightarrow>
     history llen {} \<lparr>en_store = st, en_index = open_index docs, en_log = l\<rparr>"
| request: "history llen U e \<Longrightarrow> cx_llen cx = llen \<Longrightarrow> admissible r (en_store e) \<Longrightarrow>
     log_next_seq (en_log e) < u64_max \<Longrightarrow>
     run_steps (take k (request_steps cx r (en_store e) (log_next_seq (en_log e)))) e = (res, e') \<Longrightarrow>
     history llen (unaccounted cx r e k res U) e'"
| restart: "history llen U e \<Longrightarrow> cur = log_current (en_log e) \<or> cur = log_current (en_log e) @ [Torn] \<Longrightarrow>
     open_log llen (log_dir (en_log e)) cur cfg = Inr l \<Longrightarrow> history llen U (restarted l e)"
| recovery: "history llen U e \<Longrightarrow> cx_llen cx = llen \<Longrightarrow>
     history llen U (snd (run_steps (take k (recovery_steps cx commit_step (scan_pending (en_log e)))) e))"
| gc: "history llen U e \<Longrightarrow> l = snd (gc_old_logs now (en_log e)) \<Longrightarrow>
     history llen (U \<union> forgotten e l) (e\<lparr>en_log := l\<rparr>)"

lemma consistent_forget:
  assumes c: "consistent (open_intents (en_log e)) U (en_store e) docs"
    and d: "docs = tx_staged (en_index e) \<or> docs = tx_committed (en_index e)"
  shows "consistent (open_intents l) (U \<union> forgotten e l) (en_store e) docs"
  unfolding consistent_def
proof
  fix i
  from c consider "i \<in> U" | "agree (en_store e) docs i" | "covered (open_intents (en_log e)) (en_store e) docs i"
    unfolding consistent_def by blast
  then show "i \<in> U \<union> forgotten e l \<or> agree (en_store e) docs i \<or> covered (open_intents l) (en_store e) docs i"
  proof cases
    case 3
    then obtain x where x: "x \<in> open_intents (en_log e)" "(e_op x \<noteq> Purge \<and> e_id x = i) \<or>
        (e_op x = Purge \<and> live (en_store e) i = None \<and> (\<forall>d \<in> set (docs_of i docs). dx_stream d = e_id x))"
      unfolding covered_def by blast
    show ?thesis
    proof (cases "x \<in> open_intents l")
      case True
      with x show ?thesis unfolding covered_def by blast
    next
      case False
      show ?thesis
      proof (cases "e_op x = Purge \<and> docs_of i docs = []")
        case True
        with x(2) show ?thesis by (auto simp: agree_def split: sum.split)
      next
        case nonempty: False
        have "i \<in> forgotten e l"
        proof (cases "e_op x = Purge")
          case True
          with nonempty obtain d0 where "d0 \<in> set (docs_of i docs)" by (cases "docs_of i docs") auto
          with True x(2) d have "\<exists>d \<in> set (docs_of i (tx_staged (en_index e)) @ docs_of i (tx_committed (en_index e))).
              dx_stream d = e_id x" by auto
          with True x \<open>x \<notin> open_intents l\<close> show ?thesis unfolding forgotten_def by blast
        next
          case False
          with x \<open>x \<notin> open_intents l\<close> show ?thesis unfolding forgotten_def by blast
        qed
        then show ?thesis by blast
      qed
    qed
  qed blast+
qed

lemma history_inv: "history llen U e \<Longrightarrow> engine_inv llen U e"
proof (induction rule: history.induct)
  case (start l st docs)
  then show ?case by (simp add: engine_inv_def open_index_def consistent_def)
next
  case (request U e cx r k res e')
  then show ?case using request_inv by blast
next
  case (restart U e cur cfg l)
  have "pending_lines (all_lines l) = pending_lines (all_lines (en_log e))"
      "committed_seqs (all_lines l) = committed_seqs (all_lines (en_log e))"
    using restart.hyps(2) open_log_seqs(3,4) [OF restart.hyps(3)]
    by (auto simp: all_lines_def archived_logs_def)
  then have "open_intents l = open_intents (en_log e)" by (simp add: open_intents_def)
  moreover have "log_reach llen l"
    using restart by (auto simp: engine_inv_def intro: log_reach.reopen)
  ultimately show ?case
    using restart.IH by (simp add: engine_inv_def restarted_def open_index_def)
next
  case (recovery U e cx k)
  then show ?case using safe_prefix [OF recovery_traced(1)] by blast
next
  case (gc U e l now)
  then show ?case
    using consistent_forget [of e U _ l] by (auto simp: engine_inv_def intro: log_reach.gc)
qed

text \<open>A request that logs an intent into an intact line, names all it writes and gives up on nothing does
  not enlarge the set: every admin deletion and purge, the persisting of a chunk with the intent log, and a
  REST deletion of a chunk without descendants whose index deletion succeeds.\<close>

lemma unaccounted_shrinks:
  assumes "given_up r (en_store e) = {}" "\<not> torn (en_log e)" "written r (en_store e) \<subseteq> named r (en_store e)"
  shows "unaccounted cx r e k res U \<subseteq> U"
  using assms by (auto simp: unaccounted_def Let_def)

lemma protected_requests:
  "pa_intent_log a \<Longrightarrow> written (RPersist a) st \<subseteq> named (RPersist a) st"
  "written (RDelete i) st \<subseteq> named (RDelete i) st"
  "written (RPurgeMemory i oc) st \<subseteq> named (RPurgeMemory i oc) st"
  "written (RPurgeNamespace str dry) st \<subseteq> named (RPurgeNamespace str dry) st"
  "written (RApiPurge str dry oc) st \<subseteq> named (RApiPurge str dry oc) st"
  "family st i = {i} \<Longrightarrow> written (RApiDelete i us oc) st \<subseteq> named (RApiDelete i us oc) st"
  "written (RHardPurge ids oc) st \<subseteq> named (RHardPurge ids oc) st"
  by (simp_all add: named_def)

section \<open>What recovery does to the chunks\<close>

definition deletes :: "intent_entry \<Rightarrow> string \<Rightarrow> chunk \<Rightarrow> bool" where
  "deletes x i c \<longleftrightarrow> (e_op x \<in> {Delete, PurgeChunk} \<and> e_id x = i) \<or> (e_op x = Purge \<and> e_id x = ch_stream c)"

definition after_deletes :: "intent_entry set \<Rightarrow> string \<Rightarrow> chunk option \<Rightarrow> chunk option" where
  "after_deletes I i co =
     (case co of None \<Rightarrow> None | Some c \<Rightarrow> if \<exists>x \<in> I. deletes x i c then None else Some c)"

lemma after_deletes_simps [simp]:
  "after_deletes {} i co = co"
  "after_deletes I i (after_deletes {x} i co) = after_deletes (insert x I) i co"
  by (auto simp: after_deletes_def split: option.split)

lemma removes_live:
  assumes "removes {i} s e" "s e = Inr e'" "e_op x \<in> {Delete, PurgeChunk}" "e_id x = i"
  shows "live (en_store e') j = after_deletes {x} j (live (en_store e) j)"
proof -
  have "live (en_store e') i = None" "j \<noteq> i \<Longrightarrow> get_chunk (en_store e') j = get_chunk (en_store e) j"
    using assms(1,2) unfolding removes_def changes_def dead_def by blast+
  then show ?thesis
    using assms(3,4) live_cong [of "en_store e'" j "en_store e"]
    by (cases "j = i") (auto simp: after_deletes_def deletes_def split: option.split)
qed

lemma purge_live:
  assumes "engine_inv llen U e" "purge_step s e = Inr e'" "e_op x = Purge" "e_id x = s"
  shows "live (en_store e') j = after_deletes {x} j (live (en_store e) j)"
proof -
  obtain ids st where p: "purge_namespace (en_store e) s False = Inr (ids, st)" and e': "e' = e\<lparr>en_store := st\<rparr>"
    using assms(2) by (auto simp: purge_step_def)
  have inv: "store_ok (en_store e)" "single_level (en_store e)" using assms(1) by (simp_all add: engine_inv_def)
  have none: "live st j = Some c \<Longrightarrow> ch_stream c \<noteq> s" for c using purge_effects [OF inv p] by blast
  from purge_get_cases [OF inv p, of j] show ?thesis
  proof (elim disjE conjE)
    assume "get_chunk st j = get_chunk (en_store e) j"
    then have "live st j = live (en_store e) j" by (rule live_cong)
    with none assms(3,4) show ?thesis by (auto simp: e' after_deletes_def deletes_def split: option.split)
  next
    assume "get_chunk st j = Inr None" "\<forall>c. live (en_store e) j = Some c \<longrightarrow> ch_stream c = s"
    with assms(3,4) show ?thesis
      by (auto simp: e' after_deletes_def deletes_def live_def [of st] split: option.split)
  qed
qed

lemma replay_entry_live:
  assumes inv: "engine_inv llen U e" and r: "run_steps (replay_entry cx x) e = (Inr (), e')"
  shows "live (en_store e') j = after_deletes {x} j (live (en_store e) j)"
proof -
  have same: "live (en_store f') j = live (en_store f) j" if "delete_document_step i f = Inr f' \<or>
      delete_stream_step i f = Inr f' \<or> replay_chunk_step cx i f = Inr f'" for i f f'
    using that by (auto simp: delete_document_step_def delete_stream_step_def replay_chunk_step_def)
  have keep: "after_deletes {x} j co = co" if "e_op x = Store \<or> e_op x = Consolidate" for co
    using that by (auto simp: after_deletes_def deletes_def split: option.split)
  have ok: "store_ok (en_store e)" "single_level (en_store e)" using inv by (simp_all add: engine_inv_def)
  show ?thesis
  proof (cases "e_op x")
    case Store
    with r same [of "e_id x" e e'] keep show ?thesis by (auto simp: replay_entry_def split: sum.splits)
  next
    case Consolidate
    with r same [of "e_id x" e e'] keep show ?thesis by (auto simp: replay_entry_def split: sum.splits)
  next
    case Delete
    with r obtain e1 where "replay_delete_step cx (e_id x) (cx_uuid cx (e_seq x)) e = Inr e1"
      "delete_document_step (e_id x) e1 = Inr e'" by (auto simp: replay_entry_def split: sum.splits)
    then show ?thesis
      using removes_live [OF replay_delete_removes [OF ok], of _ _ _ e1 x j] same [of "e_id x" e1 e'] Delete by simp
  next
    case PurgeChunk
    with r obtain e1 where "hard_delete_step (e_id x) e = Inr e1"
      "delete_document_step (e_id x) e1 = Inr e'" by (auto simp: replay_entry_def split: sum.splits)
    then show ?thesis
      using removes_live [OF hard_delete_removes [OF ok], of _ e1 x j] same [of "e_id x" e1 e'] PurgeChunk by simp
  next
    case Purge
    with r obtain e1 where "purge_step (e_id x) e = Inr e1"
      "delete_stream_step (e_id x) e1 = Inr e'" by (auto simp: replay_entry_def split: sum.splits)
    then show ?thesis
      using purge_live [OF inv _ Purge refl, of e1 j] same [of "e_id x" e1 e'] by simp
  qed
qed

lemma replay_all_live:
  "rec_inv llen U l e \<Longrightarrow> set xs \<subseteq> open_intents l \<Longrightarrow> rest_ok (set xs) U e \<Longrightarrow>
     run_steps (concat (map (replay_entry cx) xs)) e = (Inr (), e') \<Longrightarrow>
     live (en_store e') j = after_deletes (set xs) j (live (en_store e) j)"
proof (induction xs arbitrary: e)
  case (Cons x xs)
  obtain e1 where e1: "run_steps (replay_entry cx x) e = (Inr (), e1)"
    and e': "run_steps (concat (map (replay_entry cx) xs)) e1 = (Inr (), e')"
    using Cons.prems(4) by (auto simp: run_steps_append split: prod.splits sum.splits)
  have x: "x \<in> open_intents l" "set xs \<subseteq> open_intents l" "rest_ok (insert x (set xs)) U e" using Cons.prems by simp_all
  from traced_end [OF replay_entry_traced [OF Cons.prems(1) x(1,3)] e1]
  have "live (en_store e') j = after_deletes (set xs) j (live (en_store e1) j)"
    using Cons.IH [OF _ x(2) _ e'] by blast
  moreover have "live (en_store e1) j = after_deletes {x} j (live (en_store e) j)"
    using replay_entry_live [where llen = llen and U = U, OF _ e1] Cons.prems(1) by (simp add: rec_inv_def)
  ultimately show ?case by simp
qed simp

lemma marks_keep_store:
  "run_steps (map (\<lambda>x. mark_step cx (e_seq x) (e_op x) (e_id x)) xs) e = (Inr (), e') \<Longrightarrow>
     en_store e' = en_store e \<and> en_index e' = en_index e"
  by (induction xs arbitrary: e) (auto simp: mark_step_def)

lemma recovery_live:
  assumes inv: "engine_inv llen U e"
    and run: "run_steps (recovery_steps cx commit_step (scan_pending (en_log e))) e = (Inr (), e')"
  shows "live (en_store e') j = after_deletes (open_intents (en_log e)) j (live (en_store e) j)"
proof -
  let ?l = "en_log e" and ?xs = "scan_pending (en_log e)"
  have xs: "set ?xs = open_intents ?l"
    using inv by (auto simp: engine_inv_def intro!: wf_scan_pending log_reach_wf)
  obtain e1 e2 where e1: "run_steps (concat (map (replay_entry cx) ?xs)) e = (Inr (), e1)" and e2: "commit_step e1 = Inr e2"
    and e': "run_steps (map (\<lambda>x. mark_step cx (e_seq x) (e_op x) (e_id x)) ?xs) e2 = (Inr (), e')"
    using run by (auto simp: recovery_steps_def run_steps_append split: prod.splits sum.splits)
  have "live (en_store e1) j = after_deletes (set ?xs) j (live (en_store e) j)"
    by (rule replay_all_live [OF _ _ _ e1, where l = ?l and llen = llen and U = U])
      (use inv xs in \<open>simp_all add: rec_inv_def rest_ok_def engine_inv_def\<close>)
  moreover have "en_store e' = en_store e1"
    using marks_keep_store [OF e'] e2 by (auto simp: commit_step_def)
  ultimately show ?thesis by (simp add: xs)
qed

lemma recover_cases:
  assumes "recover cx e = (Inr rep, e')"
  obtains "scan_pending (en_log e) = []" "e' = e"
  | "run_steps (recovery_steps cx commit_step (scan_pending (en_log e))) e = (Inr (), e')"
  using assms
  by (auto simp: recover_def recover_with_commit_def Let_def split: if_splits prod.splits sum.splits)

section \<open>Properties\<close>

lemma pending_open: "engine_inv llen U e \<Longrightarrow> set (scan_pending (en_log e)) = open_intents (en_log e)"
  by (auto simp: engine_inv_def intro!: wf_scan_pending log_reach_wf)



text \<open>C3. A completed recovery finishes the deletions whose intents are open and changes no other live
  chunk: a chunk is live afterwards exactly when it was live, no open deletion names it and no open
  purge names its stream. (The purge reaches every chunk the stream has at that time, also one stored
  after the purge request failed.)\<close>

theorem recovery_effect_exact:
  assumes "history llen U e" "recover cx e = (Inr rep, e')"
  shows "live (en_store e') i =
    (case live (en_store e) i of
       None \<Rightarrow> None
     | Some c \<Rightarrow> if \<exists>x \<in> set (scan_pending (en_log e)). deletes x i c then None else Some c)"
proof -
  have inv: "engine_inv llen U e" using assms(1) by (rule history_inv)
  note xs = pending_open [OF inv]
  have "live (en_store e') i = after_deletes (set (scan_pending (en_log e))) i (live (en_store e) i)"
    using assms(2)
  proof (cases rule: recover_cases)
    case 1
    then show ?thesis by simp
  next
    case 2
    from recovery_live [OF inv this] show ?thesis by (simp add: xs)
  qed
  then show ?thesis by (simp add: after_deletes_def)
qed

text \<open>What a whole \<^verbatim>\<open>delete_memory_fully\<close> leaves of the family.\<close>

lemma delete_memory_dead:
  assumes ok: "store_ok (en_store e)" "single_level (en_store e)"
    and run: "run_steps (delete_memory_steps cx i us oc (en_store e)) e = (Inr (), f)" and j: "j \<in> family (en_store e) i"
  shows "dead j f \<and> (oc j = Deleted \<longrightarrow> docs_of j (tx_committed (en_index f)) = [])"
proof -
  have dead: "traced (changes W e) (\<lambda>f. \<forall>i \<in> W. dead i f) (s # ss) e"
    if rm: "removes W s e" and tail: "\<And>e1. s e = Inr e1 \<Longrightarrow> store_ok (en_store e1) \<Longrightarrow> single_level (en_store e1) \<Longrightarrow>
      \<forall>i \<in> W. dead i e1 \<Longrightarrow> traced (prunes W e1) Q ss e1" for W s ss Q
  proof (rule removal_traced [OF ok rm])
    fix e1 assume "s e = Inr e1" "store_ok (en_store e1)" "single_level (en_store e1)" and d: "\<forall>i \<in> W. dead i e1"
    then show "traced (prunes W e1) (\<lambda>f. \<forall>i \<in> W. dead i f) ss e1"
      by (intro traced_imp [OF tail]) (auto dest: prunes_dead)
  qed
  have "dead j f"
  proof (cases "tombstone_ingest_source (en_store e) i (cx_secs cx) us")
    case (Inl x)
    with run show ?thesis by (simp add: delete_memory_steps_def tombstone_step_def)
  next
    case (Inr p)
    obtain ro st where p: "p = (ro, st)" by force
    show ?thesis
    proof (cases ro)
      case None
      have fam: "family (en_store e) i = {i}"
        using Inr p None tombstone_cases [of "en_store e" i "cx_secs cx" us None st] by (auto simp: family_def)
      have "traced (changes {i} e) (\<lambda>f. \<forall>i \<in> {i}. dead i f) (delete_step cx i (us i) # cleanup_steps oc i) e"
        by (rule dead [OF delete_removes [OF ok]]) (rule cleanup_traced; simp)
      from traced_end [OF this, of f] run Inr p None have "dead i f" by (simp add: delete_memory_steps_def)
      with fam j show ?thesis by simp
    next
      case (Some ids)
      then have t: "tombstone_ingest_source (en_store e) i (cx_secs cx) us = Inr (Some ids, st)" using Inr p by simp
      note rm = tombstone_removes [OF ok t]
      have "traced (changes (family (en_store e) i) e) (\<lambda>f. \<forall>j \<in> family (en_store e) i. dead j f)
          (tombstone_step cx i us # concat (map (cleanup_steps oc) ids)) e"
        by (rule dead [OF rm(1)])
          (use prune_list [where xs = ids and oc = oc and g = "cleanup_steps oc", OF cleanup_traced] in \<open>simp add: rm(2)\<close>)
      from traced_end [OF this] run j t show ?thesis by (simp add: delete_memory_steps_def)
    qed
  qed
  moreover have "oc j = Deleted \<longrightarrow> clean j f"
    using traced_end [OF delete_memory_traced [OF ok] run] j by blast
  ultimately show ?thesis by (simp add: clean_def dead_agree)
qed

text \<open>C4. Deleting a recognised ingest source through the REST handler is not atomic across a stop. Run to
  its end it leaves neither the source nor any of its descendants live, nor a document of them; stopped
  after its intent is written and finished by a completed recovery, it deletes the source alone, and every
  live descendant stays live although its source is gone.\<close>

theorem recovered_source_delete_is_partial:
  assumes h: "history llen U e" and cx: "cx_llen cx = llen" and log: "\<not> torn (en_log e)" "scan_pending (en_log e) = []"
      "log_next_seq (en_log e) < u64_max"
    and src: "get_chunk (en_store e) i = Inr (Some source)" "is_ingest_source source"
    and j: "descends (en_store e) (ch_stream source) i j" "j \<noteq> i" "live (en_store e) j = Some c"
    and full: "run_steps (api_delete_steps cx i us (\<lambda>_. Deleted) (en_store e) (log_next_seq (en_log e))) e = (Inr (), f)"
    and stop: "e1 = snd (run_steps (take 1 (api_delete_steps cx i us oc (en_store e) (log_next_seq (en_log e)))) e)"
    and rec: "recover cx e1 = (Inr rep, e2)"
  shows "live (en_store f) i = None \<and> live (en_store f) j = None \<and> docs_of j (tx_committed (en_index f)) = [] \<and>
    live (en_store e2) i = None \<and> live (en_store e2) j = Some c"
proof -
  have inv: "engine_inv llen U e" using h by (rule history_inv)
  then have reach: "log_reach llen (en_log e)" by (simp add: engine_inv_def)
  have s: "append_step cx Delete i e = Inr e1" using stop by (simp add: api_delete_steps_def append_step_def)
  note ap = append_facts [OF reach log(3) cx s]
  have "holds (open_intents (en_log e)) U e1"
    by (rule holds_same [OF _ ap(1,2)]) (use inv in \<open>simp add: engine_inv_holds\<close>)
  then have "holds (open_intents (en_log e1)) U e1" by (rule holds_mono) (auto simp: ap(6))
  then have inv1: "engine_inv llen U e1" using ap(3) by (simp add: engine_inv_holds)
  have "open_intents (en_log e) = {}" using pending_open [OF inv] log(2) by simp
  with ap(6) log(1) have op: "open_intents (en_log e1) = {new_intent cx Delete i (log_next_seq (en_log e))}" by simp
  have lv: "live (en_store e2) k = after_deletes (open_intents (en_log e1)) k (live (en_store e1) k)" for k
    using rec
  proof (cases rule: recover_cases)
    case 1
    then show ?thesis using pending_open [OF inv1] op by simp
  next
    case 2
    from recovery_live [OF inv1 this] show ?thesis .
  qed
  have ok1: "store_ok (en_store e1)" "single_level (en_store e1)" using inv1 by (simp_all add: engine_inv_def)
  obtain f1 where f1: "run_steps (delete_memory_steps cx i us (\<lambda>_. Deleted) (en_store e1)) e1 = (Inr (), f1)"
    and m: "mark_step cx (log_next_seq (en_log e)) Delete i f1 = Inr f"
    using full s by (auto simp: api_delete_steps_def run_steps_append ap(1) split: prod.splits sum.splits)
  have "i \<in> family (en_store e1) i" "j \<in> family (en_store e1) i" using src j(1) by (auto simp: family_def ap(1))
  note d = delete_memory_dead [OF ok1 f1 this(1)] delete_memory_dead [OF ok1 f1 this(2)]
  moreover have "en_store f = en_store f1" "en_index f = en_index f1" using m by (auto simp: mark_step_def)
  ultimately show ?thesis
    using lv [of i] lv [of j] j(2,3)
    by (auto simp: op ap(1) after_deletes_def deletes_def new_intent_def dead_def split: option.split)
qed

text \<open>A purge that swallows an index error is final: the chunk is gone from the store, its document is
  still what searches see, the intent is committed, so nothing is left for a recovery to do. The chunk had
  agreed with its document before.\<close>

theorem purge_error_leaves_document:
  assumes h: "history llen U e" and cx: "cx_llen cx = llen" and log: "\<not> torn (en_log e)" "scan_pending (en_log e) = []"
      "log_next_seq (en_log e) < u64_max"
    and i: "i \<notin> U" "live (en_store e) i = Some c" and oc: "oc i \<noteq> Deleted"
    and run: "run_steps (purge_memory_steps cx i oc (log_next_seq (en_log e))) e = (Inr (), e')"
  shows "get_chunk (en_store e') i = Inr None \<and> docs_of i (tx_committed (en_index e')) \<noteq> [] \<and>
    scan_pending (en_log e') = [] \<and> recover cx e' = (Inr (0, 0), e')"
proof -
  let ?s = "log_next_seq (en_log e)"
  have inv: "engine_inv llen U e" using h by (rule history_inv)
  then have reach: "log_reach llen (en_log e)" and ok: "store_ok (en_store e)" "single_level (en_store e)"
    by (simp_all add: engine_inv_def)
  have o0: "open_intents (en_log e) = {}" using pending_open [OF inv] log(2) by simp
  have "agree (en_store e) (tx_committed (en_index e)) i"
    using inv i(1) o0 by (auto simp: engine_inv_def consistent_def covered_def)
  moreover have "get_chunk (en_store e) i = Inr (Some c)"
    using i(2) by (auto simp: live_def split: sum.splits option.splits if_splits)
  ultimately have ag: "docs_of i (tx_committed (en_index e)) \<noteq> []" using i(2) by (auto simp: agree_def)
  obtain e1 e2 e3 where s: "append_step cx PurgeChunk i e = Inr e1" "hard_delete_step i e1 = Inr e2"
      "tolerant_delete_step oc i e2 = Inr e3" "mark_step cx ?s PurgeChunk i e3 = Inr e'"
    using run by (auto simp: purge_memory_steps_def split: sum.splits)
  note ap = append_facts [OF reach log(3) cx s(1)]
  obtain b st where hd: "hard_delete_by_id (en_store e1) i = Inr (b, st)" and e2: "e2 = e1\<lparr>en_store := st\<rparr>"
    using s(2) by (auto simp: hard_delete_step_def)
  have e3: "e3 = e2\<lparr>en_index := try_delete_document (oc i) i (en_index e2)\<rparr>"
    using s(3) by (simp add: tolerant_delete_step_def)
  have cm: "tx_committed (en_index e3) = tx_committed (en_index e)"
    using oc by (cases "oc i") (simp_all add: e3 e2 ap(2) try_delete_document_def delete_id_term_def)
  have m: "log_reach llen (en_log e3)" "\<not> torn (en_log e3)" "?s < log_next_seq (en_log e3)"
    using ap by (simp_all add: e3 e2)
  note mk = mark_facts [OF m cx s(4)]
  have "open_intents (en_log e') = {}"
    using log(1) o0 by (auto simp: mk(4) e3 e2 ap(6) new_intent_def)
  then have p: "scan_pending (en_log e') = []"
    using wf_scan_pending [OF log_reach_wf [OF mk(3)]] by simp
  moreover have "get_chunk (en_store e') i = Inr None"
    using hard_delete_get(2) [OF hd] by (simp add: mk(1) e3 e2)
  ultimately show ?thesis
    using ag by (simp add: mk(2) cm recover_def recover_with_commit_def Let_def)
qed

text \<open>Storing and deleting the same chunk at the same time can leave a deleted chunk in the index for
  good: when the deletion runs between the store write and the index write of the other request, both
  intents are committed and searches still see a document of the deleted chunk.\<close>

definition persist_around_delete :: "ctx \<Rightarrow> persist_args \<Rightarrow> nat \<Rightarrow> step list" where
  "persist_around_delete cx a s =
     take 2 (persist_steps cx a s) @ delete_handler_steps cx (ch_id (pa_chunk a)) (Suc s) @
     drop 2 (persist_steps cx a s)"

theorem delete_race_leaves_document:
  assumes h: "history llen U e" and cx: "cx_llen cx = llen" and log: "\<not> torn (en_log e)" "scan_pending (en_log e) = []"
      "Suc (log_next_seq (en_log e)) < u64_max"
    and a: "persistable a (en_store e)" "pa_intent_log a" "ch_deleted_at (pa_chunk a) = None"
    and run: "run_steps (persist_around_delete cx a (log_next_seq (en_log e))) e = (Inr (), e')"
  shows "live (en_store e') (ch_id (pa_chunk a)) = None \<and> scan_pending (en_log e') = [] \<and>
    docs_of (ch_id (pa_chunk a)) (tx_committed (en_index e')) \<noteq> []"
proof -
  let ?c = "pa_chunk a" and ?s = "log_next_seq (en_log e)"
  let ?i = "ch_id ?c"
  have inv: "engine_inv llen U e" using h by (rule history_inv)
  then have reach: "log_reach llen (en_log e)" and ok: "store_ok (en_store e)" "single_level (en_store e)"
    by (simp_all add: engine_inv_def)
  have o0: "open_intents (en_log e) = {}" using pending_open [OF inv] log(2) by simp
  obtain e1 e2 e3 e4 e5 e6 e7 e8 where
    s: "append_step cx (pa_op a) ?i e = Inr e1" "store_step ?c (cx_uuid cx ?s) e1 = Inr e2"
      "append_step cx Delete ?i e2 = Inr e3" "delete_step cx ?i (cx_uuid cx (Suc ?s)) e3 = Inr e4"
      "delete_document_step ?i e4 = Inr e5" "mark_step cx (Suc ?s) Delete ?i e5 = Inr e6"
      "upsert_step cx (pa_doc a) ?c e6 = Inr e7" "commit_step e7 = Inr e8"
      "mark_step cx ?s (pa_op a) ?i e8 = Inr e'"
    using run a(2)
    by (auto simp: persist_around_delete_def persist_steps_def delete_handler_steps_def split: sum.splits)
  have nx: "?s < u64_max" using log(3) by simp
  note a1 = append_facts [OF reach nx cx s(1)]
  obtain st2 where st2: "store_chunk_locked (en_store e1) ?c (cx_uuid cx ?s) = Inr st2" and e2: "e2 = e1\<lparr>en_store := st2\<rparr>"
    using s(2) by (auto simp: store_step_def store_chunk_def)
  have lv: "ch_level ?c \<in> {0, 1, 2}" "\<And>l. kv_get (st_db (en_store e1)) (chunk_key l ?i) \<noteq> None \<Longrightarrow> l = ch_level ?c"
    using a(1) by (auto simp: persistable_def a1(1))
  have ok1: "store_ok (en_store e1)" "single_level (en_store e1)" using ok by (simp_all add: a1(1))
  have ok2: "store_ok st2" "single_level st2" using store_locked_effect [OF ok1 st2 lv] by blast+
  have r2: "log_reach llen (en_log e2)" "log_next_seq (en_log e2) < u64_max" using a1 log(3) by (simp_all add: e2)
  note a3 = append_facts [OF r2 cx s(3)]
  obtain b st where d: "delete_by_id st2 ?i (cx_secs cx) (cx_uuid cx (Suc ?s)) = Inr (b, st)"
    and e4: "e4 = e3\<lparr>en_store := st\<rparr>"
    using s(4) by (auto simp: delete_step_def a3(1) e2)
  have dead: "live st ?i = None" using delete_effect [OF ok2 d] by blast
  have e5: "e5 = e4\<lparr>en_index := delete_document ?i (en_index e4)\<rparr>" using s(5) by (simp add: delete_document_step_def)
  have m5: "log_reach llen (en_log e5)" "\<not> torn (en_log e5)" "Suc ?s < log_next_seq (en_log e5)"
    using a1 a3 by (simp_all add: e5 e4 e2)
  note m6 = mark_facts [OF m5 cx s(6)]
  obtain ix where u: "upsert_chunk_document (cx_chrono cx) (pa_doc a) ?c (en_index e6) = Inr ix"
    and e7: "e7 = e6\<lparr>en_index := ix\<rparr>" using s(7) by (auto simp: upsert_step_def)
  have docs: "docs_of ?i (tx_staged ix) \<noteq> []"
    using upsert_chunk_docs [OF u, of ?i] a(3)
    by (simp add: write_temporal_document_def open_index_def docs_of_def)
  have e8: "e8 = e7\<lparr>en_index := commit_index ix\<rparr>" using s(8) by (simp add: commit_step_def e7)
  have l6: "en_log e6 = mark_committed llen (cx_millis cx) (Suc ?s) Delete ?i (en_log e5)"
    using s(6) cx by (auto simp: mark_step_def)
  have m8: "log_reach llen (en_log e8)" "\<not> torn (en_log e8)" "?s < log_next_seq (en_log e8)"
    using m6 a1 a3 untorn_write
    by (simp_all add: e8 e7) (simp_all add: l6 mark_committed_def e5 e4 e2)
  note m9 = mark_facts [OF m8 cx s(9)]
  have "open_intents (en_log e') = {}"
    using log(1) o0 a1(4) by (auto simp: m9(4) e8 e7 m6(4) e5 e4 a3(6) e2 a1(5,6) new_intent_def)
  then have "scan_pending (en_log e') = []" using wf_scan_pending [OF log_reach_wf [OF m9(3)]] by simp
  with dead docs show ?thesis
    by (simp add: m9(1,2) e8 e7 m6(1) e5 e4 commit_index_def)
qed

section \<open>Witnesses\<close>

text \<open>An empty store, index and log, one plain chunk, and clocks at fixed values.\<close>

definition w_engine :: engine where
  "w_engine = \<lparr>en_store = \<lparr>st_db = [], st_emb = [], st_prov = w_provider, st_last_scan = None,
       st_at_rest_key_present = False\<rparr>, en_index = open_index [], en_log = w_log0\<rparr>"

definition w_ctx :: ctx where
  "w_ctx = \<lparr>cx_chrono = \<lparr>parse_ymd = (\<lambda>s. None), format_ymd = (\<lambda>d. [])\<rparr>, cx_llen = w_llen,
     cx_millis = 5, cx_secs = 9, cx_uuid = (\<lambda>n. [])\<rparr>"

definition w_args :: persist_args where
  "w_args = \<lparr>pa_chunk = w_chunk ''c'', pa_doc = \<lparr>td_id = ''c'', td_content = ''text'', td_user_id = ''u'',
       td_app_id = ''a'', td_level = 0, td_timestamp = 0, td_stream = ''s'', td_entities = None,
       td_relations = None, td_event_date = None, td_source_agent = None\<rparr>,
     pa_intent_log = True, pa_op = Store\<rparr>"

lemma w_log0_intents: "open_intents w_log0 = {}"
  by (simp add: open_intents_def all_lines_def archived_logs_def w_log0_def)

lemma w_engine_history: "history w_llen {} w_engine"
  unfolding w_engine_def
  by (rule history.start [OF w_log0_reach w_log0_intents])
    (simp_all add: store_ok_def kv_sorted_def provider_ok_def w_provider_def single_level_def agree_def
      live_def get_chunk_def)

lemma w_persistable: "persistable w_args (en_store w_engine)" "pa_intent_log w_args"
  by (simp_all add: persistable_def w_args_def w_chunk_def w_engine_def)

lemma w_log0_ready: "\<not> torn (en_log w_engine)" "Suc (log_next_seq (en_log w_engine)) < u64_max"
    "log_next_seq (en_log w_engine) < u64_max"
  by (simp_all add: w_engine_def w_log0_def torn_def)

lemma w_ctx_llen: "cx_llen w_ctx = w_llen"
  by (simp add: w_ctx_def)

text \<open>The engine after a store request that stopped once its intent was written.\<close>

definition w_stopped :: engine where
  "w_stopped = snd (run_steps (take 1 (request_steps w_ctx (RPersist w_args) (en_store w_engine)
     (log_next_seq (en_log w_engine)))) w_engine)"

lemma w_stopped_eq:
  "w_stopped = w_engine\<lparr>en_log := w_log0\<lparr>log_current := [Entry (new_intent w_ctx Store ''c'' 1)],
     log_file_size := 64, log_next_seq := 2\<rparr>\<rparr>"
  by (simp add: w_stopped_def w_engine_def persist_steps_def w_args_def effect_defs append_pending_def
      w_log0_def write_entry_def maybe_rotate_def append_line_def w_ctx_def w_llen_def new_intent_def
      w_chunk_def)

lemma w_stopped_history: "history w_llen {} w_stopped"
proof -
  have u: "unaccounted w_ctx (RPersist w_args) w_engine (Suc 0) res {} = {}" for res
    by (simp add: unaccounted_def w_persistable persist_steps_def)
  have "run_steps (take 1 (request_steps w_ctx (RPersist w_args) (en_store w_engine)
     (log_next_seq (en_log w_engine)))) w_engine = (Inr (), w_stopped)"
    using w_persistable(2) by (simp add: w_stopped_def persist_steps_def append_step_def)
  from history.request [OF w_engine_history w_ctx_llen _ w_log0_ready(3) this] show ?thesis
    by (simp add: u w_persistable)
qed

lemma pending_one:
  "log_dir l = [] \<Longrightarrow> log_current l = [Entry x] \<Longrightarrow> e_status x = Pending \<Longrightarrow> scan_pending l = [x]"
  by (simp add: scan_pending_def scan_sequence_def scan_file_def archived_logs_def)

lemma w_stopped_pending: "scan_pending (en_log w_stopped) = [new_intent w_ctx Store ''c'' 1]"
  by (rule pending_one) (simp_all add: w_stopped_eq w_log0_def new_intent_def)

lemma recovers:
  "scan_pending (en_log e) = x # xs \<Longrightarrow> fst (run_steps (recovery_steps cx commit_step (x # xs)) e) = Inr () \<Longrightarrow>
     \<exists>rep e'. recover cx e = (Inr rep, e')"
  by (cases "run_steps (recovery_steps cx commit_step (x # xs)) e") (simp add: recover_def recover_with_commit_def Let_def)

lemma w_recovers: "\<exists>rep e'. recover w_ctx w_stopped = (Inr rep, e')"
  by (rule recovers [OF w_stopped_pending])
    (simp add: recovery_steps_def replay_entry_def
      new_intent_def replay_chunk_step_def replay_chunk_to_tantivy_def w_stopped_eq w_engine_def get_chunk_def
      commit_step_def mark_step_def)



theorem recovery_effect_exact_witness:
  "\<exists>rep e'. recover w_ctx w_stopped = (Inr rep, e') \<and> live (en_store e') ''c'' = None"
proof -
  obtain rep e' where r: "recover w_ctx w_stopped = (Inr rep, e')" using w_recovers by blast
  have "live (en_store w_stopped) ''c'' = None" by (simp add: live_def get_chunk_def w_stopped_eq w_engine_def)
  with recovery_effect_exact [OF w_stopped_history r, of "''c''"] r show ?thesis by auto
qed

lemma w_log0_pending: "scan_pending (en_log w_engine) = []"
  by (simp add: scan_pending_def scan_sequence_def scan_file_def archived_logs_def w_log0_def w_engine_def)

text \<open>An engine that holds an ingest source and the fact drawn from it, both indexed.\<close>

definition w_doc :: "chunk \<Rightarrow> index_doc" where
  "w_doc c = \<lparr>dx_id = ch_id c, dx_content = ch_content c, dx_user_id = [], dx_app_id = [], dx_level = ch_level c,
     dx_timestamp = 0, dx_stream = ch_stream c, dx_event_date = None, dx_entities = None, dx_relations = None,
     dx_source_agent = []\<rparr>"

definition w_family_engine :: engine where
  "w_family_engine = \<lparr>en_store = w_family, en_index = open_index [w_doc w_source, w_doc w_fact], en_log = w_log0\<rparr>"

lemma w_family_get_other: "i \<noteq> ''fact'' \<Longrightarrow> i \<noteq> w_id \<Longrightarrow> get_chunk w_family i = Inr None"
  by (simp add: get_chunk_def w_family_row)

lemma w_family_history: "history w_llen {} w_family_engine"
  unfolding w_family_engine_def
proof (rule history.start [OF w_log0_reach w_log0_intents w_family_ok])
  show "single_level w_family" by (auto simp: single_level_def w_family_row split: if_splits)
  show "\<forall>i. agree w_family [w_doc w_source, w_doc w_fact] i"
  proof
    fix i
    consider "i = ''fact''" | "i = w_id" | "i \<noteq> ''fact''" "i \<noteq> w_id" by blast
    then show "agree w_family [w_doc w_source, w_doc w_fact] i"
      by cases (simp_all add: agree_def live_def docs_of_def w_doc_def w_family_get_other)
  qed
qed

lemma w_family_log: "\<not> torn (en_log w_family_engine)" "scan_pending (en_log w_family_engine) = []"
    "log_next_seq (en_log w_family_engine) < u64_max"
  using w_log0_ready w_log0_pending by (simp_all add: w_family_engine_def w_engine_def)

lemma run_total: "\<forall>s \<in> set ss. \<forall>f. \<exists>f'. s f = Inr f' \<Longrightarrow> \<exists>f. run_steps ss e = (Inr (), f)"
proof (induction ss arbitrary: e)
  case (Cons s ss)
  then obtain e1 where "s e = Inr e1" by force
  with Cons show ?case by simp
qed simp

lemma w_family_deletes:
  "\<exists>f. run_steps (api_delete_steps w_ctx w_id us (\<lambda>_. Deleted) (en_store w_family_engine)
     (log_next_seq (en_log w_family_engine))) w_family_engine = (Inr (), f)"
proof -
  obtain ids st where t: "tombstone_ingest_source w_family w_id 9 us = Inr (Some ids, st)"
    using w_family_tombstone by blast
  let ?s = "log_next_seq (en_log w_family_engine)"
  have "\<exists>e1. append_step w_ctx Delete w_id w_family_engine = Inr e1 \<and> en_store e1 = w_family"
    by (simp add: append_step_def w_family_engine_def)
  then obtain e1 where e1: "append_step w_ctx Delete w_id w_family_engine = Inr e1" "en_store e1 = w_family" by blast
  have e2: "tombstone_step w_ctx w_id us e1 = Inr (e1\<lparr>en_store := st\<rparr>)"
    using t by (simp add: tombstone_step_def e1(2) w_ctx_def)
  have "\<exists>f. run_steps (concat (map (cleanup_steps (\<lambda>_. Deleted)) ids) @ [mark_step w_ctx ?s Delete w_id]) (e1\<lparr>en_store := st\<rparr>) = (Inr (), f)"
    by (rule run_total) (auto simp: cleanup_steps_def tolerant_delete_step_def embedding_step_def mark_step_def)
  moreover have "en_store w_family_engine = w_family" "cx_secs w_ctx = 9"
    by (simp_all add: w_family_engine_def w_ctx_def)
  ultimately show ?thesis using t e1 e2 by (simp add: api_delete_steps_def delete_memory_steps_def)
qed

definition w_stopped_delete :: engine where
  "w_stopped_delete = snd (run_steps (take 1 (api_delete_steps w_ctx w_id (\<lambda>j. []) (\<lambda>_. Deleted)
     (en_store w_family_engine) (log_next_seq (en_log w_family_engine)))) w_family_engine)"

lemma w_family_delete: "\<exists>b st. delete_by_id w_family w_id t u = Inr (b, st)"
proof -
  have a: "ingest_ancestry w_family w_source = Inr (True, False)" by (simp add: ingest_ancestry_def)
  have "immutable_provenance (w_source\<lparr>ch_deleted_at := Some t\<rparr>) = immutable_provenance w_source"
    by (simp add: immutable_provenance_def is_ingest_source_def marker_kind_def source_flags_def agent_of_def)
  moreover have "st_prov w_family = w_provider" by (simp add: w_family_def)
  ultimately show ?thesis
    by (simp add: delete_by_id_def store_chunk_locked_def validate_ingest_admission_def validate_owned_update_def a
      ex_bool_eq)
qed

lemma w_delete_recovers: "\<exists>rep e'. recover w_ctx w_stopped_delete = (Inr rep, e')"
proof -
  have eq: "w_stopped_delete = w_family_engine\<lparr>en_log := w_log0\<lparr>log_current := [Entry (new_intent w_ctx Delete w_id 1)],
     log_file_size := 64, log_next_seq := 2\<rparr>\<rparr>"
    by (simp add: w_stopped_delete_def w_family_engine_def api_delete_steps_def effect_defs append_pending_def
      w_log0_def write_entry_def maybe_rotate_def append_line_def w_ctx_def w_llen_def new_intent_def)
  have p: "scan_pending (en_log w_stopped_delete) = [new_intent w_ctx Delete w_id 1]"
    by (rule pending_one) (simp_all add: eq w_log0_def new_intent_def)
  obtain b st where "delete_by_id w_family w_id (cx_secs w_ctx) (cx_uuid w_ctx 1) = Inr (b, st)"
    using w_family_delete by blast
  then show ?thesis
    by (intro recovers [OF p]) (simp add: recovery_steps_def replay_entry_def new_intent_def replay_delete_step_def
      delete_document_step_def delete_step_def eq w_family_engine_def commit_step_def mark_step_def)
qed

theorem recovered_source_delete_is_partial_witness:
  "\<exists>f rep e2. run_steps (api_delete_steps w_ctx w_id (\<lambda>j. []) (\<lambda>_. Deleted) (en_store w_family_engine)
       (log_next_seq (en_log w_family_engine))) w_family_engine = (Inr (), f) \<and>
     recover w_ctx w_stopped_delete = (Inr rep, e2) \<and>
     live (en_store f) ''fact'' = None \<and> live (en_store e2) w_id = None \<and> live (en_store e2) ''fact'' = Some w_fact"
proof -
  obtain f where f: "run_steps (api_delete_steps w_ctx w_id (\<lambda>j. []) (\<lambda>_. Deleted) (en_store w_family_engine)
       (log_next_seq (en_log w_family_engine))) w_family_engine = (Inr (), f)"
    using w_family_deletes by blast
  obtain rep e2 where r: "recover w_ctx w_stopped_delete = (Inr rep, e2)" using w_delete_recovers by blast
  have st: "en_store w_family_engine = w_family" by (simp add: w_family_engine_def)
  have "get_chunk (en_store w_family_engine) w_id = Inr (Some w_source)"
      "descends (en_store w_family_engine) (ch_stream w_source) w_id ''fact''"
      "live (en_store w_family_engine) ''fact'' = Some w_fact"
    using w_fact_descends by (simp_all add: st live_def)
  from recovered_source_delete_is_partial [OF w_family_history w_ctx_llen w_family_log this(1) _ this(2) _ this(3) f
      w_stopped_delete_def r] f r show ?thesis by simp
qed

text \<open>The purge of the fact with its index deletion failing.\<close>

lemma w_family_purge:
  "\<exists>f. run_steps (purge_memory_steps w_ctx ''fact'' (\<lambda>_. NotDeleted) (log_next_seq (en_log w_family_engine)))
     w_family_engine = (Inr (), f)"
proof -
  have "\<exists>b st. hard_delete_by_id w_family ''fact'' = Inr (b, st)"
    by (simp add: hard_delete_by_id_def append_graph_sidecar_deletes_def kv_prefix_def w_family_def chunk_key_def)
  then show ?thesis
    by (auto simp: purge_memory_steps_def append_step_def hard_delete_step_def tolerant_delete_step_def mark_step_def
      w_family_engine_def)
qed

theorem purge_error_leaves_document_witness:
  "\<exists>f. run_steps (purge_memory_steps w_ctx ''fact'' (\<lambda>_. NotDeleted) (log_next_seq (en_log w_family_engine)))
     w_family_engine = (Inr (), f) \<and> get_chunk (en_store f) ''fact'' = Inr None \<and>
     docs_of ''fact'' (tx_committed (en_index f)) \<noteq> [] \<and> scan_pending (en_log f) = []"
proof -
  obtain f where f: "run_steps (purge_memory_steps w_ctx ''fact'' (\<lambda>_. NotDeleted)
      (log_next_seq (en_log w_family_engine))) w_family_engine = (Inr (), f)" using w_family_purge by blast
  have "live (en_store w_family_engine) ''fact'' = Some w_fact" by (simp add: w_family_engine_def live_def)
  from purge_error_leaves_document [OF w_family_history w_ctx_llen w_family_log _ this _ f] f show ?thesis by simp
qed

lemma w_empty_store: "\<exists>st. store_chunk (en_store w_engine) (w_chunk ''c'') u = Inr st"
  by (simp add: w_engine_def store_chunk_def store_chunk_locked_def validate_ingest_admission_def
      validate_owned_update_def validate_live_ancestry_def ingest_ancestry_def get_chunk_def w_defs)

lemma w_race_runs:
  "\<exists>e'. run_steps (persist_around_delete w_ctx w_args (log_next_seq (en_log w_engine))) w_engine = (Inr (), e')"
proof -
  obtain st where st: "store_chunk (en_store w_engine) (w_chunk ''c'') [] = Inr st" using w_empty_store by blast
  have ok: "store_ok (en_store w_engine)" using history_inv [OF w_engine_history] by (simp add: engine_inv_def)
  have g: "get_chunk st ''c'' = Inr (Some (w_chunk ''c''))"
    using store_get [OF ok, of "w_chunk ''c''" "[]" st] st by (simp add: store_chunk_def w_chunk_def)
  have pv: "st_prov st = w_provider"
    using store_locked_prov [of _ _ _ st] st by (simp add: store_chunk_def w_engine_def)
  have a: "ingest_ancestry st (w_chunk ''c'') = Inr (False, False)"
    by (simp add: ingest_ancestry_def is_ingest_fragment_def w_defs)
  have "\<exists>b st'. delete_by_id st ''c'' 9 [] = Inr (b, st')"
  proof -
    have "ch_id (w_chunk ''c'') = ''c''" by (simp add: w_chunk_def)
    with a show ?thesis
      by (simp add: delete_by_id_def g store_chunk_locked_def validate_ingest_admission_def
        validate_owned_update_def pv ex_bool_eq)
  qed
  then obtain b st' where d: "delete_by_id st ''c'' 9 [] = Inr (b, st')" by blast
  have u: "\<exists>ix'. upsert_chunk_document ch (pa_doc w_args) (w_chunk ''c'') ix = Inr ix'" for ch ix
    by (simp add: upsert_chunk_document_def index_chunk_document_def bind_document_def w_args_def w_chunk_def)
  then obtain f where "upsert_chunk_document ch (pa_doc w_args) (w_chunk ''c'') ix = Inr (f ch ix)" for ch ix
    by metis
  moreover have "pa_chunk w_args = w_chunk ''c''" "pa_intent_log w_args" "ch_id (w_chunk ''c'') = ''c''"
      "cx_uuid w_ctx n = []" "cx_secs w_ctx = 9" for n
    by (simp_all add: w_args_def w_ctx_def w_chunk_def)
  ultimately show ?thesis
    using st d
    by (simp add: persist_around_delete_def persist_steps_def delete_handler_steps_def effect_defs numeral_2_eq_2)
qed

theorem delete_race_leaves_document_witness:
  "\<exists>e'. run_steps (persist_around_delete w_ctx w_args (log_next_seq (en_log w_engine))) w_engine = (Inr (), e') \<and>
     live (en_store e') ''c'' = None \<and> docs_of ''c'' (tx_committed (en_index e')) \<noteq> []"
proof -
  obtain e' where r: "run_steps (persist_around_delete w_ctx w_args (log_next_seq (en_log w_engine))) w_engine = (Inr (), e')"
    using w_race_runs by blast
  have c: "ch_id (pa_chunk w_args) = ''c''" "ch_deleted_at (pa_chunk w_args) = None"
    by (simp_all add: w_args_def w_chunk_def)
  show ?thesis
    using delete_race_leaves_document [OF w_engine_history w_ctx_llen w_log0_ready(1) w_log0_pending
        w_log0_ready(2) w_persistable c(2) r] r by (auto simp: c)
qed


end
