(* ===== verification/RebuildProps.thy ===== *)
theory RebuildProps
  imports CrashProps
begin

text \<open>
  The full rebuild of the index from the store (\<^verbatim>\<open>TantivyIndex::rebuild_from_rocksdb\<close>): it never
  fails, and it ends in the same agreement of index and store that recovery keeps.
\<close>

section \<open>The chunks a full scan returns\<close>

lemma show_small_int: "show_int 0 = ''0''" "show_int 1 = ''1''"
  by code_simp+

lemma chunk_key_level:
  "starts_with (chunk_key l i) ''chunk:L0:'' \<longleftrightarrow> l = 0"
  "starts_with (chunk_key l i) ''chunk:L1:'' \<longleftrightarrow> l = 1"
proof -
  have sep: "l = n" if "show_int l @ CHR '':'' # i = show_int n @ CHR '':'' # r" for n r
  proof -
    have "Some (show_int l, i) = split_once (CHR '':'') (show_int l @ CHR '':'' # i)"
      by (simp only: split_once_append [OF show_int_no_colon])
    also have "\<dots> = Some (show_int n, r)"
      unfolding that by (simp only: split_once_append [OF show_int_no_colon])
    finally show ?thesis by simp
  qed
  have key: "chunk_key l i = ''chunk:L'' @ show_int l @ CHR '':'' # i" by (simp add: chunk_key_def)
  show "starts_with (chunk_key l i) ''chunk:L0:'' \<longleftrightarrow> l = 0"
    using sep [of 0] by (auto simp: key prefix_def show_small_int)
  show "starts_with (chunk_key l i) ''chunk:L1:'' \<longleftrightarrow> l = 1"
    using sep [of 1] by (auto simp: key prefix_def show_small_int)
qed

lemma decoded_one:
  assumes "distinct (map fst rs)" "starts_with K p"
    and "\<And>k r c. (k, r) \<in> set rs \<Longrightarrow> starts_with k p \<Longrightarrow> decode_chunk pv r = Inr c \<Longrightarrow> ch_id c = j \<longleftrightarrow> k = K"
  shows "filter (\<lambda>c. ch_id c = j) (decoded pv (kv_prefix p rs)) =
    (case map_of rs K of None \<Rightarrow> [] | Some r \<Rightarrow> (case decode_chunk pv r of Inl e \<Rightarrow> [] | Inr c \<Rightarrow> [c]))"
  using assms
proof (induction rs)
  case Nil
  then show ?case by (simp add: kv_prefix_def decoded_def map_filter_def)
next
  case (Cons row rs)
  obtain k r where row: "row = (k, r)" by force
  have IH: "filter (\<lambda>c. ch_id c = j) (decoded pv (kv_prefix p rs)) =
    (case map_of rs K of None \<Rightarrow> [] | Some r \<Rightarrow> (case decode_chunk pv r of Inl e \<Rightarrow> [] | Inr c \<Rightarrow> [c]))"
    by (rule Cons.IH) (use Cons.prems in auto)
  have dec: "decoded pv (kv_prefix p (row # rs)) =
      (if starts_with k p then (case decode_chunk pv r of Inl e \<Rightarrow> [] | Inr c \<Rightarrow> [c]) else []) @
      decoded pv (kv_prefix p rs)"
    by (simp add: kv_prefix_def decoded_def map_filter_simps row split: sum.split)
  have new: "map_of rs k = None" using Cons.prems(1) by (simp add: row map_of_eq_None_iff)
  have here: "decode_chunk pv r = Inr c \<Longrightarrow> starts_with k p \<Longrightarrow> ch_id c = j \<longleftrightarrow> k = K" for c
    using Cons.prems(3) [of k r c] by (simp add: row)
  have parts: "filter (\<lambda>c. ch_id c = j) (decoded pv (kv_prefix p (row # rs))) =
      filter (\<lambda>c. ch_id c = j) (if starts_with k p then (case decode_chunk pv r of Inl e \<Rightarrow> [] | Inr c \<Rightarrow> [c]) else []) @
      (case map_of rs K of None \<Rightarrow> [] | Some r \<Rightarrow> (case decode_chunk pv r of Inl e \<Rightarrow> [] | Inr c \<Rightarrow> [c]))"
    unfolding dec filter_append IH ..
  have m: "map_of (row # rs) K = (if k = K then Some r else map_of rs K)" by (simp add: row)
  show ?case
  proof (cases "k = K")
    case True
    then show ?thesis
      using here new Cons.prems(2) unfolding parts m by (cases "decode_chunk pv r") auto
  next
    case False
    then have "filter (\<lambda>c. ch_id c = j) (if starts_with k p then
        (case decode_chunk pv r of Inl e \<Rightarrow> [] | Inr c \<Rightarrow> [c]) else []) = []"
    proof (cases "decode_chunk pv r")
      case (Inr c)
      show ?thesis
      proof (cases "starts_with k p")
        case True
        then have "ch_id c \<noteq> j" using here [OF Inr] \<open>k \<noteq> K\<close> by blast
        then have "filter (\<lambda>c. ch_id c = j) [c] = []" by (simp only: filter.simps if_False)
        then show ?thesis by (simp only: Inr sum.case if_P [OF True])
      next
        case False
        show ?thesis unfolding if_not_P [OF False] by (rule filter.simps)
      qed
    qed (simp add: if_distrib)
    with False show ?thesis unfolding parts m by (simp only: append_Nil if_False)
  qed
qed

lemma scan_of_id:
  assumes ok: "store_ok st" and single: "single_level st"
    and l2: "kv_get (st_db st) (chunk_key 2 j) = None"
  shows "filter (\<lambda>c. ch_id c = j) (fst (get_all_chunks st now)) =
    (case live st j of None \<Rightarrow> [] | Some c \<Rightarrow> [c])"
proof -
  let ?pv = "st_prov st" and ?db = "st_db st"
  have dist: "distinct (map fst ?db)" using ok by (simp add: store_ok_def kv_sorted_def strict_sorted_iff)
  have keyed: "k = chunk_key (ch_level c) (ch_id c)"
    if "(k, r) \<in> set ?db" "starts_with k ''chunk:''" "decode_chunk ?pv r = Inr c" for k r c
  proof -
    have "kv_get ?db k = Some r" using that(1) dist by simp
    with ok have "row_keyed ?pv k r" by (simp add: store_ok_def)
    with that(2,3) show ?thesis by (simp add: row_keyed_def)
  qed
  have pre: "starts_with k ''chunk:''" if "starts_with k ''chunk:L0:'' \<or> starts_with k ''chunk:L1:''" for k
    using that by (auto simp: prefix_def)
  have "filter (\<lambda>c. ch_id c = j) (decoded ?pv (kv_prefix p ?db)) =
      (case kv_get ?db (chunk_key n j) of None \<Rightarrow> []
       | Some r \<Rightarrow> (case decode_chunk ?pv r of Inl e \<Rightarrow> [] | Inr c \<Rightarrow> [c]))"
    if p: "(p = ''chunk:L0:'' \<and> n = 0) \<or> (p = ''chunk:L1:'' \<and> n = 1)" for p n
  proof (rule decoded_one [OF dist])
    show "starts_with (chunk_key n j) p" using p chunk_key_level by auto
    fix k r c assume k: "(k, r) \<in> set ?db" "starts_with k p" "decode_chunk ?pv r = Inr c"
    then have "k = chunk_key (ch_level c) (ch_id c)" using keyed pre p by blast
    moreover from this have "ch_level c = n" using p k(2) chunk_key_level by auto
    ultimately show "ch_id c = j \<longleftrightarrow> k = chunk_key n j" by simp
  qed
  from this [of "''chunk:L0:''" 0] this [of "''chunk:L1:''" 1]
  have rows: "filter (\<lambda>c. ch_id c = j) (decoded ?pv (level_rows st)) =
      concat (map (\<lambda>n. case kv_get ?db (chunk_key n j) of None \<Rightarrow> []
       | Some r \<Rightarrow> (case decode_chunk ?pv r of Inl e \<Rightarrow> [] | Inr c \<Rightarrow> [c])) [0, 1])"
    by (simp add: level_rows_def decoded_def map_filter_def)
  have one: "kv_get ?db (chunk_key 1 j) = None" if "kv_get ?db (chunk_key 0 j) = Some r" for r
    using single_levelD [OF single that, of 1] by fastforce
  have "filter (\<lambda>c. ch_id c = j) (fst (get_all_chunks st now)) =
      filter (\<lambda>c. ch_deleted_at c = None) (filter (\<lambda>c. ch_id c = j) (decoded ?pv (level_rows st)))"
    by (simp add: get_all_chunks_def Let_def conj_commute)
  then show ?thesis
    using one l2 unfolding rows by (auto simp: live_def get_chunk_def split: option.split sum.split)
qed

section \<open>The rebuilt index\<close>

definition rebuilt_doc :: "chrono \<Rightarrow> (chunk \<Rightarrow> text_document) \<Rightarrow> chunk \<Rightarrow> index_doc" where
  "rebuilt_doc ch doc c =
     hd (tx_staged (write_temporal_document (doc c)
       (if owned c then event_timestamp_for_chunk ch c
        else Some (case td_event_date (doc c) of None \<Rightarrow> td_timestamp (doc c) | Some t \<Rightarrow> t)) (open_index [])))"

lemma rebuilt_doc_fields [simp]:
  "dx_id (rebuilt_doc ch doc c) = td_id (doc c)" "dx_content (rebuilt_doc ch doc c) = td_content (doc c)"
  "dx_stream (rebuilt_doc ch doc c) = td_stream (doc c)"
  by (simp_all add: rebuilt_doc_def write_temporal_document_def open_index_def)

lemma index_chunks_run:
  "\<forall>c \<in> set cs. td_id (doc c) = ch_id c \<and> td_stream (doc c) = ch_stream c \<and> ch_deleted_at c = None \<Longrightarrow>
     index_chunks ch doc cs ix = Inr (ix\<lparr>tx_staged := tx_staged ix @ map (rebuilt_doc ch doc) cs\<rparr>)"
proof (induction cs arbitrary: ix)
  case (Cons c cs)
  have "index_chunk_document ch (doc c) c ix = Inr (ix\<lparr>tx_staged := tx_staged ix @ [rebuilt_doc ch doc c]\<rparr>)"
    using Cons.prems
    by (simp add: index_chunk_document_def bind_document_def rebuilt_doc_def write_temporal_document_def open_index_def)
  with Cons show ?case by simp
qed simp

lemma docs_of_map: "docs_of j (map f cs) = map f (filter (\<lambda>c. dx_id (f c) = j) cs)"
  by (simp add: docs_of_def filter_map o_def)

text \<open>C5. Rebuilding the index from the store never fails and leaves it in agreement with the store at every
  id that has no row of level 2 (a full scan reads the levels 0 and 1 only): one document with content
  and stream of the live chunk, none for a deleted or unknown one, whatever the index held before.\<close>

theorem rebuild_restores_agreement:
  assumes ok: "store_ok st" and single: "single_level st"
    and l2: "\<forall>i. kv_get (st_db st) (chunk_key 2 i) = None"
  shows "\<exists>ix' st'. rebuild_from_rocksdb ch lower now st ix = Inr (ix', st') \<and>
    (\<forall>i. get_chunk st' i = get_chunk st i \<and> agree st' (tx_committed ix') i)"
proof -
  obtain cs st' where g: "get_all_chunks st now = (cs, st')" by force
  let ?doc = "rebuild_doc ch lower st'"
  have live: "\<forall>c \<in> set cs. td_id (?doc c) = ch_id c \<and> td_stream (?doc c) = ch_stream c \<and> ch_deleted_at c = None"
    using g by (auto simp: rebuild_doc_def get_all_chunks_def Let_def)
  have same: "get_chunk st' i = get_chunk st i" for i
    using g by (intro get_chunk_cong) (auto simp: get_all_chunks_def Let_def)
  note run = index_chunks_run [OF live, of ch "delete_all ix"]
  let ?ix = "commit_index ((delete_all ix)\<lparr>tx_staged := tx_staged (delete_all ix) @ map (rebuilt_doc ch ?doc) cs\<rparr>)"
  have "rebuild_from_rocksdb ch lower now st ix = Inr (?ix, st')"
    by (simp add: rebuild_from_rocksdb_def g run)
  moreover have "agree st' (tx_committed ?ix) i" for i
  proof -
    have ids: "td_id (?doc c) = ch_id c" for c by (simp add: rebuild_doc_def)
    have "docs_of i (tx_committed ?ix) = map (rebuilt_doc ch ?doc) (filter (\<lambda>c. ch_id c = i) cs)"
      by (simp add: commit_index_def delete_all_def docs_of_map ids)
    also have "filter (\<lambda>c. ch_id c = i) cs = (case live st i of None \<Rightarrow> [] | Some c \<Rightarrow> [c])"
      using scan_of_id [OF ok single, of i now] l2 g by simp
    finally have docs: "docs_of i (tx_committed ?ix) =
        map (rebuilt_doc ch ?doc) (case live st i of None \<Rightarrow> [] | Some c \<Rightarrow> [c])" .
    have fields: "td_content (?doc c) = ch_content c" "td_stream (?doc c) = ch_stream c" for c
      by (simp_all add: rebuild_doc_def)
    show ?thesis
      unfolding agree_def docs live_cong [OF same [of i]]
      by (auto simp: fields split: sum.split option.split)
  qed
  ultimately show ?thesis using same by blast
qed

text \<open>Witness: the store with one plain chunk and an index with a document of an unknown id.\<close>

lemma w_single: "single_level (w_store c)" "kv_get (st_db (w_store (w_chunk ''c''))) (chunk_key 2 i) = None"
  by (auto simp: single_level_def w_store_def w_chunk_def split: if_splits)

theorem rebuild_restores_agreement_witness:
  "\<exists>ix' st'. rebuild_from_rocksdb (cx_chrono w_ctx) (\<lambda>s. s) 0 (w_store (w_chunk ''c''))
       (index_document (pa_doc w_args) (open_index [])) = Inr (ix', st') \<and>
     (\<forall>i. get_chunk st' i = get_chunk (w_store (w_chunk ''c'')) i \<and> agree st' (tx_committed ix') i)"
  by (rule rebuild_restores_agreement) (simp_all add: w_single)

end
