(* ===== verification/Access.thy ===== *)
theory Access
  imports Users RateLimiter
begin

text \<open>
  Who may reach which stream: the bearer middleware and the stream checks
  (\<^verbatim>\<open>loomem-server/src/auth.rs\<close>), the scope parameter (\<^verbatim>\<open>handlers/scope.rs\<close>,
  \<^verbatim>\<open>handlers/search/request_scope.rs\<close>), and the stream resolution, role gate and rate limit in front
  of every MCP tool (\<^verbatim>\<open>mcp/dispatcher.rs\<close>). The JSON parser is an argument; the tool handlers
  behind the gate are a constructor of the outcome.
\<close>

section \<open>The caller\<close>

datatype key_scope = Shared | Private

record stream_membership =
  sm_stream_id :: string
  sm_role :: user_role
  sm_source :: key_scope

record auth_context =
  ac_stream_id :: string
  ac_user_id :: "string option"
  ac_is_admin :: bool
  ac_role :: user_role
  ac_scope :: key_scope
  ac_memberships :: "stream_membership list"

definition single_stream ::
  "string \<Rightarrow> user_role \<Rightarrow> key_scope \<Rightarrow> string option \<Rightarrow> bool \<Rightarrow> auth_context" where
  "single_stream stream role scope user admin =
     \<lparr>ac_stream_id = stream, ac_user_id = user, ac_is_admin = admin, ac_role = role, ac_scope = scope,
      ac_memberships = [\<lparr>sm_stream_id = stream, sm_role = role, sm_source = scope\<rparr>]\<rparr>"

definition admin_ctx :: auth_context where
  "admin_ctx = single_stream DEFAULT_STREAM_ID Admin Shared None True"

text \<open>
  The middleware: no configuration (outer \<open>None\<close>) and no configured token (inner \<open>None\<close>) pass
  everybody; otherwise only the bearer of the token passes. The left result is the status code.
\<close>

definition auth_middleware :: "string option option \<Rightarrow> string option \<Rightarrow> nat + auth_context" where
  "auth_middleware config authorization =
     (let bearer = Option.bind authorization (strip_prefix ''Bearer '')
      in case config of
           None \<Rightarrow> Inr admin_ctx
         | Some None \<Rightarrow> Inr admin_ctx
         | Some (Some admin_token) \<Rightarrow>
             (case bearer of
                Some token \<Rightarrow> if token = admin_token then Inr admin_ctx else Inl 401
              | None \<Rightarrow> Inl 401))"

section \<open>Stream ids\<close>

definition stream_id_char :: "char \<Rightarrow> bool" where
  "stream_id_char c \<longleftrightarrow>
     (let n = (of_char c :: nat)
      in 48 \<le> n \<and> n \<le> 57 \<or> 65 \<le> n \<and> n \<le> 90 \<or> 97 \<le> n \<and> n \<le> 122) \<or>
     c = CHR ''_'' \<or> c = CHR ''-'' \<or> c = CHR ''.'' \<or> c = CHR 0x40"

definition is_valid_stream_id :: "string \<Rightarrow> bool" where
  "is_valid_stream_id s \<longleftrightarrow> s \<noteq> [] \<and> length s \<le> 128 \<and> list_all stream_id_char s"

definition validate_stream :: "auth_context \<Rightarrow> string option \<Rightarrow> nat + string" where
  "validate_stream auth requested =
     (let stream = (case requested of None \<Rightarrow> ac_stream_id auth | Some s \<Rightarrow> s)
      in if \<not> is_valid_stream_id stream then Inl 400
         else if ac_is_admin auth then Inr stream
         else if stream = ac_stream_id auth then Inr stream
         else Inl 403)"

fun validate_each :: "auth_context \<Rightarrow> string list \<Rightarrow> nat + unit" where
  "validate_each auth [] = Inr ()"
| "validate_each auth (s # ss) = ebind (validate_stream auth (Some s)) (\<lambda>_. validate_each auth ss)"

definition validate_streams :: "auth_context \<Rightarrow> string list option \<Rightarrow> nat + string list option" where
  "validate_streams auth requested =
     (case requested of
        None \<Rightarrow> Inr (Some [ac_stream_id auth])
      | Some streams \<Rightarrow> ebind (validate_each auth streams) (\<lambda>_. Inr (Some streams)))"

section \<open>The scope parameter\<close>

datatype scope_param = ScopeShared | ScopePrivate | ScopeAll

datatype stream_source = SourceShared | SourcePrivate

datatype app_error = Internal err | BadRequest string | Forbidden string | NotFound string

definition source_for :: "(string \<times> stream_source) list \<Rightarrow> string \<Rightarrow> stream_source option" where
  "source_for streams s = map_option snd (find (\<lambda>(t, _). t = s) streams)"

fun json_as_bool :: "json \<Rightarrow> bool option" where
  "json_as_bool (JBool b) = Some b"
| "json_as_bool _ = None"

fun flag_bytes :: "row \<Rightarrow> string" where
  "flag_bytes (VBytes b) = b"
| "flag_bytes (VChunk c) = []"

definition private_flag :: "json \<Rightarrow> bool" where
  "private_flag flags =
     (Option.bind (Option.bind (json_get flags ''private_stream'') (\<lambda>p. json_get p ''active'')) json_as_bool
        = Some True)"

definition ok :: "'a res \<Rightarrow> 'a option" where
  "ok r = (case r of Inl e \<Rightarrow> None | Inr x \<Rightarrow> Some x)"

definition caller_private_stream ::
  "(string \<Rightarrow> json option) \<Rightarrow> auth_context \<Rightarrow> user_db \<Rightarrow> store \<Rightarrow> string option" where
  "caller_private_stream parse auth users st =
     Option.bind (ac_user_id auth) (\<lambda>user_id.
     Option.bind (Option.bind (ok (get_user_by_id users user_id)) id) (\<lambda>user.
     Option.bind (get_user_flags st user_id) (\<lambda>row.
     Option.bind (parse (flag_bytes row)) (\<lambda>flags.
       if private_flag flags then Some (us_stream_id user) else None))))"

definition resolve_scope ::
  "(string \<Rightarrow> json option) \<Rightarrow> scope_param \<Rightarrow> auth_context \<Rightarrow> user_db \<Rightarrow> store \<Rightarrow>
     app_error + (string \<times> stream_source) list" where
  "resolve_scope parse scope auth users st =
     (case scope of
        ScopeShared \<Rightarrow> Inr [(DEFAULT_STREAM_ID, SourceShared)]
      | ScopePrivate \<Rightarrow>
          (case caller_private_stream parse auth users st of
             Some sid \<Rightarrow> Inr [(sid, SourcePrivate)]
           | None \<Rightarrow> Inl (NotFound ''no private stream for this user''))
      | ScopeAll \<Rightarrow>
          if \<not> ac_is_admin auth then Inl (Forbidden ''scope=all requires admin'')
          else Inr ((DEFAULT_STREAM_ID, SourceShared) #
                    (case caller_private_stream parse auth users st of
                       Some sid \<Rightarrow> [(sid, SourcePrivate)]
                     | None \<Rightarrow> [])))"

record stream_request =
  sr_scope :: "scope_param option"
  sr_stream :: "string option"
  sr_streams :: "string list option"

definition validated_search_streams ::
  "(string \<Rightarrow> json option) \<Rightarrow> auth_context \<Rightarrow> user_db \<Rightarrow> store \<Rightarrow> stream_request \<Rightarrow>
     app_error + string list option" where
  "validated_search_streams parse auth users st rq =
     (case sr_scope rq of
        Some scope \<Rightarrow>
          if sr_stream rq \<noteq> None \<or> sr_streams rq \<noteq> None
          then Inl (BadRequest ''specify scope or stream/streams, not both'')
          else ebind (resolve_scope parse scope auth users st) (\<lambda>streams. Inr (Some (map fst streams)))
      | None \<Rightarrow>
          (case validate_streams auth
                  (case sr_streams rq of
                     Some ss \<Rightarrow> Some ss
                   | None \<Rightarrow> map_option (\<lambda>s. [s]) (sr_stream rq)) of
             Inl _ \<Rightarrow> Inl (BadRequest ''Access denied: cannot search this stream'')
           | Inr r \<Rightarrow> Inr r))"

section \<open>MCP tool calls\<close>

record resolved_stream =
  rs_stream_id :: string
  rs_role :: user_role
  rs_source :: key_scope

definition resolve_stream_for_call ::
  "json \<Rightarrow> string \<Rightarrow> auth_context \<Rightarrow> string + resolved_stream" where
  "resolve_stream_for_call args default_stream_id auth =
     (case Option.bind (json_get args ''stream'') json_as_str of
        None \<Rightarrow> Inr \<lparr>rs_stream_id = default_stream_id, rs_role = ac_role auth, rs_source = ac_scope auth\<rparr>
      | Some explicit \<Rightarrow>
          if explicit = []
          then Inr \<lparr>rs_stream_id = default_stream_id, rs_role = ac_role auth, rs_source = ac_scope auth\<rparr>
          else if \<not> is_valid_stream_id explicit then Inl (''Invalid stream id '' @ explicit)
          else (case find (\<lambda>m. sm_stream_id m = explicit) (ac_memberships auth) of
                  None \<Rightarrow> Inl (''Access denied: no membership on stream '' @ explicit)
                | Some m \<Rightarrow> Inr \<lparr>rs_stream_id = sm_stream_id m, rs_role = sm_role m, rs_source = sm_source m\<rparr>))"

definition gate_tool :: "string \<Rightarrow> user_role \<Rightarrow> key_scope \<Rightarrow> string option" where
  "gate_tool tool role source =
     (if source = Private then None
      else if tool \<in> {''memory_store'', ''memory_ingest'', ''memory_associate''}
        then (if can_write role then None
              else Some ''Read-only access: write operations not permitted for Reader role on shared scope.'')
      else if tool = ''memory_delete''
        then (if can_delete_shared role then None
              else Some ''Admin-only on shared scope: memory_delete requires Admin.'')
      else if tool = ''memory_dream''
        then (if can_dream_shared role then None
              else Some ''Admin-only on shared scope: memory_dream requires Admin.'')
      else None)"

definition known_tools :: "string list" where
  "known_tools =
     [''memory_store'', ''memory_search'', ''memory_context'', ''memory_profile'', ''memory_status'',
      ''memory_stats'', ''memory_reflect'', ''memory_graph'', ''memory_namespaces'', ''memory_ingest'',
      ''memory_dream'', ''memory_history'', ''memory_delete'', ''memory_associate'', ''memory_feedback'']"

text \<open>A denial is a tool result with an error text; \<open>RunTool\<close> is the call of the tool's handler.\<close>

datatype dispatch_outcome =
    Denied string
  | RunTool string string
  | UnknownTool string

definition dispatch_tool ::
  "rat \<Rightarrow> rat \<Rightarrow> string \<Rightarrow> json \<Rightarrow> string \<Rightarrow> auth_context \<Rightarrow> rate_limiter \<Rightarrow> dispatch_outcome \<times> rate_limiter" where
  "dispatch_tool t t' name args default_stream_id auth rl =
     (case resolve_stream_for_call args default_stream_id auth of
        Inl deny \<Rightarrow> (Denied deny, rl)
      | Inr resolved \<Rightarrow>
          (case gate_tool name (rs_role resolved) (rs_source resolved) of
             Some e \<Rightarrow> (Denied e, rl)
           | None \<Rightarrow>
               (let stream = rs_stream_id resolved;
                    run = (if name \<in> set known_tools then RunTool name stream else UnknownTool name)
                in case categorize_mcp_tool name of
                     None \<Rightarrow> (run, rl)
                   | Some op \<Rightarrow>
                       (case check t t' stream op rl of
                          (Inl retry, rl') \<Rightarrow>
                            (Denied (''Rate limit exceeded for '' @ name @ '' on stream '' @ stream @
                                     ''; retry in '' @ show_nat retry @ ''s.''), rl')
                        | (Inr _, rl') \<Rightarrow> (run, rl')))))"

section \<open>Streams as key components\<close>

text \<open>
  Rows of a stream stand under a prefix that ends with the stream id and a colon. Well-formed ids
  keep these ranges apart.
\<close>

lemma stream_id_no_colon: "is_valid_stream_id s \<Longrightarrow> CHR '':'' \<notin> set s"
  by (auto simp: is_valid_stream_id_def list_all_iff stream_id_char_def Let_def)

lemma stream_prefix_inj:
  assumes "is_valid_stream_id s" "is_valid_stream_id t"
    "starts_with k (p @ s @ '':'')" "starts_with k (p @ t @ '':'')"
  shows "s = t"
proof -
  from assms(3) obtain r where r: "k = (p @ s @ '':'') @ r" by (rule prefixE)
  from assms(4) obtain r' where "k = (p @ t @ '':'') @ r'" by (rule prefixE)
  with r have "s @ CHR '':'' # r = t @ CHR '':'' # r'" by simp
  then have "split_once (CHR '':'') (s @ CHR '':'' # r) = split_once (CHR '':'') (t @ CHR '':'' # r')" by simp
  then show ?thesis
    using assms(1,2) by (simp add: split_once_append stream_id_no_colon)
qed

definition caller_ok :: "auth_context \<Rightarrow> bool" where
  "caller_ok auth \<longleftrightarrow> ac_stream_id auth \<in> sm_stream_id ` set (ac_memberships auth)"

lemma single_stream_ok: "caller_ok (single_stream s r sc u a)"
  by (simp add: caller_ok_def single_stream_def)

lemma validate_stream_Inr:
  "validate_stream auth rq = Inr s \<longleftrightarrow>
     s = (case rq of None \<Rightarrow> ac_stream_id auth | Some s \<Rightarrow> s) \<and> is_valid_stream_id s \<and>
     (ac_is_admin auth \<or> s = ac_stream_id auth)"
  by (auto simp: validate_stream_def Let_def)

lemma validate_each_Inr:
  "validate_each auth ss = Inr u \<longleftrightarrow>
     (\<forall>s \<in> set ss. is_valid_stream_id s \<and> (ac_is_admin auth \<or> s = ac_stream_id auth))"
  by (induction ss) (auto simp: validate_stream_Inr)

text \<open>A caller's search covers only streams the caller may read: for one who is not an
  administrator the default stream (through a scope), the caller's own stream, or the caller's active
  private stream. A request never ends up unscoped, explicit ids are well formed, and scope=all and
  foreign streams are for administrators.\<close>

theorem search_scope_confined:
  assumes "validated_search_streams parse auth users st rq = Inr r"
  shows "\<exists>ss. r = Some ss \<and>
    (\<forall>s \<in> set ss. ac_is_admin auth \<or> s = ac_stream_id auth \<or> s = DEFAULT_STREAM_ID \<and> sr_scope rq = Some ScopeShared \<or>
        caller_private_stream parse auth users st = Some s \<and> sr_scope rq = Some ScopePrivate) \<and>
    (sr_scope rq = Some ScopeAll \<longrightarrow> ac_is_admin auth) \<and>
    (sr_scope rq = None \<longrightarrow> sr_streams rq \<noteq> None \<or> sr_stream rq \<noteq> None \<longrightarrow> list_all is_valid_stream_id ss) \<and>
    (sr_scope rq \<noteq> None \<longrightarrow> sr_stream rq = None \<and> sr_streams rq = None)"
proof (cases "sr_scope rq")
  case (Some scope)
  with assms have none: "sr_stream rq = None" "sr_streams rq = None"
    by (auto simp: validated_search_streams_def split: if_splits)
  with assms Some obtain res where "resolve_scope parse scope auth users st = Inr res" "r = Some (map fst res)"
    by (auto simp: validated_search_streams_def)
  with Some none show ?thesis
    by (cases scope) (auto simp: resolve_scope_def split: option.splits if_splits)
next
  case None
  let ?rq = "case sr_streams rq of Some ss \<Rightarrow> Some ss | None \<Rightarrow> map_option (\<lambda>s. [s]) (sr_stream rq)"
  from assms None have v: "validate_streams auth ?rq = Inr r"
    by (auto simp: validated_search_streams_def split: sum.splits)
  show ?thesis
  proof (cases ?rq)
    case rq: None
    with v have "r = Some [ac_stream_id auth]" by (simp add: validate_streams_def)
    moreover from rq have "sr_streams rq = None" "sr_stream rq = None" by (auto split: option.splits)
    ultimately show ?thesis using None by auto
  next
    case rq: (Some ss)
    with v have "r = Some ss" "validate_each auth ss = Inr ()" by (auto simp: validate_streams_def)
    then show ?thesis using None by (auto simp: validate_each_Inr list_all_iff)
  qed
qed

text \<open>C22. An MCP tool runs only on the default stream of the call or on a well-formed stream of the
  caller's memberships; on a shared stream storing, ingesting and associating need the writer role there
  and deleting and dreaming the admin role there; a limited tool runs only when its bucket admits it.\<close>

theorem tool_calls_guarded:
  assumes "dispatch_tool t t' name args default_stream auth rl = (RunTool tool stream, rl')"
  shows "tool = name \<and> name \<in> set known_tools \<and>
    (\<exists>role source.
       (stream = default_stream \<and> role = ac_role auth \<and> source = ac_scope auth \<or>
        is_valid_stream_id stream \<and> json_get args ''stream'' = Some (JStr stream) \<and>
        \<lparr>sm_stream_id = stream, sm_role = role, sm_source = source\<rparr> \<in> set (ac_memberships auth)) \<and>
       (source = Shared \<longrightarrow>
          (name \<in> {''memory_store'', ''memory_ingest'', ''memory_associate''} \<longrightarrow> role \<noteq> Reader) \<and>
          (name \<in> {''memory_delete'', ''memory_dream''} \<longrightarrow> role = Admin))) \<and>
    (case categorize_mcp_tool name of
       None \<Rightarrow> rl' = rl
     | Some op \<Rightarrow> check t t' stream op rl = (Inr (), rl'))"
proof -
  obtain rs where rs: "resolve_stream_for_call args default_stream auth = Inr rs"
      "gate_tool name (rs_role rs) (rs_source rs) = None"
    using assms by (auto simp: dispatch_tool_def split: sum.splits option.splits)
  have run: "tool = name \<and> name \<in> set known_tools \<and> stream = rs_stream_id rs \<and>
      (case categorize_mcp_tool name of None \<Rightarrow> rl' = rl | Some op \<Rightarrow> check t t' stream op rl = (Inr (), rl'))"
    using assms rs by (auto simp: dispatch_tool_def Let_def split: option.splits prod.splits sum.splits if_splits)
  have gate: "rs_source rs = Shared \<longrightarrow>
      (name \<in> {''memory_store'', ''memory_ingest'', ''memory_associate''} \<longrightarrow> rs_role rs \<noteq> Reader) \<and>
      (name \<in> {''memory_delete'', ''memory_dream''} \<longrightarrow> rs_role rs = Admin)"
    using rs(2) by (auto simp: gate_tool_def can_write_def can_delete_shared_def can_dream_shared_def split: if_splits)
  have res: "rs_stream_id rs = default_stream \<and> rs_role rs = ac_role auth \<and> rs_source rs = ac_scope auth \<or>
      is_valid_stream_id (rs_stream_id rs) \<and> json_get args ''stream'' = Some (JStr (rs_stream_id rs)) \<and>
      \<lparr>sm_stream_id = rs_stream_id rs, sm_role = rs_role rs, sm_source = rs_source rs\<rparr> \<in> set (ac_memberships auth)"
  proof (cases "Option.bind (json_get args ''stream'') json_as_str")
    case None
    with rs(1) show ?thesis by (auto simp: resolve_stream_for_call_def)
  next
    case (Some explicit)
    then have e: "json_get args ''stream'' = Some (JStr explicit)"
      by (cases "json_get args ''stream''"; cases "the (json_get args ''stream'')") auto
    show ?thesis
    proof (cases "explicit = []")
      case True
      with rs(1) Some show ?thesis by (auto simp: resolve_stream_for_call_def)
    next
      case False
      with rs(1) Some obtain m where "is_valid_stream_id explicit"
          "find (\<lambda>m. sm_stream_id m = explicit) (ac_memberships auth) = Some m"
          "rs = \<lparr>rs_stream_id = sm_stream_id m, rs_role = sm_role m, rs_source = sm_source m\<rparr>"
        by (auto simp: resolve_stream_for_call_def split: if_splits option.splits)
      moreover from this(2) have "m \<in> set (ac_memberships auth)" "sm_stream_id m = explicit"
        by (auto simp: find_Some_iff)
      moreover obtain i ro so where "m = \<lparr>sm_stream_id = i, sm_role = ro, sm_source = so\<rparr>" by (cases m)
      ultimately have "rs_stream_id rs = explicit" "is_valid_stream_id explicit"
          "\<lparr>sm_stream_id = rs_stream_id rs, sm_role = rs_role rs, sm_source = rs_source rs\<rparr> \<in> set (ac_memberships auth)"
        by simp_all
      with e show ?thesis by blast
    qed
  qed
  from run have parts: "tool = name" "name \<in> set known_tools" "stream = rs_stream_id rs"
      "case categorize_mcp_tool name of None \<Rightarrow> rl' = rl | Some op \<Rightarrow> check t t' stream op rl = (Inr (), rl')"
    by blast+
  show ?thesis
    by (intro conjI exI [of _ "rs_role rs"] exI [of _ "rs_source rs"] parts(1,2,4) gate) (use res parts(3) in simp)
qed

section \<open>Witnesses\<close>

definition w_user :: user where
  "w_user = \<lparr>us_id = ''u1'', us_api_key = None, us_shared_api_key = None, us_private_api_key = None,
     us_stream_id = ''s_u1'', us_created_at = 0, us_last_active = None, us_label = None, us_active = True,
     us_workspace_id = None, us_role = Writer, us_email = None, us_display_name = None,
     us_external_id = None, us_pending_first_login = False, us_last_login_at = None\<rparr>"

definition w_reader :: auth_context where
  "w_reader = \<lparr>ac_stream_id = ''mine'', ac_user_id = Some ''u1'', ac_is_admin = False, ac_role = Reader,
     ac_scope = Shared, ac_memberships =
       [\<lparr>sm_stream_id = ''mine'', sm_role = Reader, sm_source = Shared\<rparr>,
        \<lparr>sm_stream_id = ''team'', sm_role = Admin, sm_source = Shared\<rparr>]\<rparr>"

definition w_private_request :: stream_request where
  "w_private_request = \<lparr>sr_scope = Some ScopePrivate, sr_stream = None, sr_streams = None\<rparr>"

definition w_flags_store :: store where
  "w_flags_store = \<lparr>st_db = [(flags_key ''u1'', VBytes ''on'')], st_emb = [],
     st_prov = \<lparr>pv_enabled = False, pv_encrypt = (\<lambda>s p. Inr p), pv_decrypt = (\<lambda>s b. Inr b),
       pv_ser = (\<lambda>x. []), pv_de = (\<lambda>x. None), pv_is_encrypted = (\<lambda>b. False)\<rparr>,
     st_last_scan = None, st_at_rest_key_present = True\<rparr>"

definition w_parse :: "string \<Rightarrow> json option" where
  "w_parse b = (if b = ''on'' then Some (JObj [(''private_stream'', JObj [(''active'', JBool True)])]) else None)"

theorem search_scope_confined_witness:
  "validated_search_streams w_parse w_reader (store_user w_user []) w_flags_store w_private_request =
     Inr (Some [''s_u1'']) \<and>
   caller_private_stream w_parse w_reader (store_user w_user []) w_flags_store = Some ''s_u1''"
proof -
  have "validated_search_streams w_parse w_reader (store_user w_user []) w_flags_store w_private_request =
      Inr (Some [''s_u1''])" by code_simp
  with search_scope_confined [OF this] show ?thesis
    by (simp add: w_private_request_def w_reader_def DEFAULT_STREAM_ID_def)
qed

theorem tool_calls_guarded_witness:
  "\<exists>rl'. dispatch_tool 0 0 ''memory_delete'' (JObj [(''stream'', JStr ''team'')]) ''mine'' w_reader
     (new_limiter default_rate_limit_config) = (RunTool ''memory_delete'' ''team'', rl') \<and>
     \<lparr>sm_stream_id = ''team'', sm_role = Admin, sm_source = Shared\<rparr> \<in> set (ac_memberships w_reader)"
proof -
  have d: "dispatch_tool 0 0 ''memory_delete'' (JObj [(''stream'', JStr ''team'')]) ''mine'' w_reader
      (new_limiter default_rate_limit_config) = (RunTool ''memory_delete'' ''team'', new_limiter default_rate_limit_config)"
    by (simp add: dispatch_tool_def resolve_stream_for_call_def is_valid_stream_id_def stream_id_char_def w_reader_def
        gate_tool_def can_delete_shared_def known_tools_def categorize_mcp_tool_def check_def new_limiter_def
        default_rate_limit_config_def)
  from tool_calls_guarded [OF d] d show ?thesis by (auto simp: w_reader_def)
qed

end
