(* ===== verification/Graph.thy ===== *)
theory Graph
  imports Lifecycle EntityRows
begin

text \<open>
  The knowledge graph (\<^verbatim>\<open>loomem-core/src/graph/mod.rs\<close>, \<^verbatim>\<open>alias.rs\<close>, \<^verbatim>\<open>relation_type.rs\<close>,
  \<^verbatim>\<open>labels/legacy_links.rs\<close>). Entities, edges, their adjacency rows, the name and alias indexes of a
  stream and the index from chunks to entities are rows of the chunk store under \<^verbatim>\<open>graph:\<close>. The
  serialiser, the index token of the encryption provider, Unicode lowercasing, the digest and the
  redaction of personal data are the fields of a \<open>graph_env\<close>; the clock and drawn UUIDs are arguments.
\<close>

section \<open>Computations on the store\<close>

text \<open>A computation may fail and keeps what it wrote before it failed.\<close>

type_synonym 'a gm = "store \<Rightarrow> 'a res \<times> store"

definition gret :: "'a \<Rightarrow> 'a gm" where "gret x st = (Inr x, st)"

definition gfail :: "string \<Rightarrow> 'a gm" where "gfail msg st = (Inl (Err msg), st)"

definition gread :: "(store \<Rightarrow> 'a res) \<Rightarrow> 'a gm" where "gread f st = (f st, st)"

definition gbind :: "'a gm \<Rightarrow> ('a \<Rightarrow> 'b gm) \<Rightarrow> 'b gm" where
  "gbind m f st = (case m st of (Inl e, st') \<Rightarrow> (Inl e, st') | (Inr x, st') \<Rightarrow> f x st')"

definition gensure :: "bool \<Rightarrow> string \<Rightarrow> unit gm" where
  "gensure b msg = (if b then gret () else gfail msg)"

fun geach :: "('a \<Rightarrow> unit gm) \<Rightarrow> 'a list \<Rightarrow> unit gm" where
  "geach f [] = gret ()"
| "geach f (x # xs) = gbind (f x) (\<lambda>_. geach f xs)"

definition put_string :: "string \<Rightarrow> string \<Rightarrow> unit gm" where
  "put_string key v st = (Inr (), st\<lparr>st_db := kv_put key (VBytes v) (st_db st)\<rparr>)"

definition delete_key :: "string \<Rightarrow> unit gm" where
  "delete_key key st = (Inr (), st\<lparr>st_db := kv_delete key (st_db st)\<rparr>)"

definition get_string :: "store \<Rightarrow> string \<Rightarrow> string option" where
  "get_string st key = map_option (\<lambda>r. from_utf8_lossy (row_text r)) (kv_get (st_db st) key)"

section \<open>Data\<close>

record entity_node =
  nd_id :: string
  nd_name :: string
  nd_type :: string
  nd_aliases :: "string list"
  nd_chunks :: "string list"
  nd_stream :: string
  nd_created :: nat
  nd_updated :: nat

record graph_edge =
  ed_id :: string
  ed_source :: string
  ed_target :: string
  ed_relation :: string
  ed_chunks :: "string list"
  ed_stream :: string
  ed_created :: nat
  ed_updated :: nat

record label_claim =
  lc_name :: string
  lc_type :: string
  lc_aliases :: "string list"

record label_claims =
  lk_version :: nat
  lk_owner :: string
  lk_chunk :: string
  lk_stream :: string
  lk_fingerprint :: string
  lk_claims :: "label_claim list"

record relation_claims =
  rk_version :: nat
  rk_owner :: string
  rk_chunk :: string
  rk_stream :: string
  rk_fingerprint :: string
  rk_relations :: "string set"

text \<open>A stored entity is the node with its encrypted payload, empty for a plaintext row.\<close>

record graph_env =
  ge_node_ser :: "entity_node \<times> string \<Rightarrow> string"
  ge_node_de :: "string \<Rightarrow> (entity_node \<times> string) option"
  ge_pair_ser :: "string \<times> string list \<Rightarrow> string"
  ge_pair_de :: "string \<Rightarrow> (string \<times> string list) option"
  ge_edge_ser :: "graph_edge \<Rightarrow> string"
  ge_edge_de :: "string \<Rightarrow> graph_edge option"
  ge_ids_ser :: "string list \<Rightarrow> string"
  ge_ids_de :: "string \<Rightarrow> string list option"
  ge_labels_ser :: "label_claims \<Rightarrow> string"
  ge_labels_de :: "string \<Rightarrow> label_claims option"
  ge_rels_ser :: "relation_claims \<Rightarrow> string"
  ge_rels_de :: "string \<Rightarrow> relation_claims option"
  ge_token :: "string \<Rightarrow> string \<Rightarrow> string res"
  ge_lower :: "string \<Rightarrow> string"
  ge_hash :: "string \<Rightarrow> string"
  ge_redact :: "string \<Rightarrow> string"

definition node_key :: "string \<Rightarrow> string" where "node_key i = ''graph:entity:'' @ i"
definition edge_key :: "string \<Rightarrow> string" where "edge_key i = ''graph:edge:'' @ i"
definition adj_prefix :: "string \<Rightarrow> string" where "adj_prefix i = ''graph:adj:'' @ i @ '':''"
definition radj_prefix :: "string \<Rightarrow> string" where "radj_prefix i = ''graph:radj:'' @ i @ '':''"
definition chunk_index_key :: "string \<Rightarrow> string" where "chunk_index_key c = ''graph:chunk:'' @ c"
definition stream_prefix :: "string \<Rightarrow> string" where "stream_prefix s = ''graph:s:'' @ s @ '':''"
definition name_key :: "string \<Rightarrow> string \<Rightarrow> string" where "name_key sp tok = sp @ ''name:'' @ tok"
definition alias_key :: "string \<Rightarrow> string \<Rightarrow> string" where "alias_key sp tok = sp @ ''alias:'' @ tok"

section \<open>Reading entities and edges\<close>

definition decode_entity :: "graph_env \<Rightarrow> provider \<Rightarrow> string \<Rightarrow> entity_node res" where
  "decode_entity ge pv bytes =
     (case ge_node_de ge bytes of
        None \<Rightarrow> Inl (Err ''Failed to deserialize entity envelope'')
      | Some (e, payload) \<Rightarrow>
          if payload = [] then Inr e
          else (case pv_decrypt pv (nd_stream e) payload of
                  Inl _ \<Rightarrow> Inl (Err ''Failed to decrypt entity payload'')
                | Inr p \<Rightarrow>
                    (case ge_pair_de ge p of
                       None \<Rightarrow> Inl (Err ''Failed to deserialize entity payload'')
                     | Some (name, aliases) \<Rightarrow> Inr (e\<lparr>nd_name := name, nd_aliases := aliases\<rparr>))))"

text \<open>An entity that does not decode is treated as missing.\<close>

definition get_entity_by_id :: "graph_env \<Rightarrow> store \<Rightarrow> string \<Rightarrow> entity_node option" where
  "get_entity_by_id ge st i =
     (case kv_get (st_db st) (node_key i) of
        None \<Rightarrow> None
      | Some r \<Rightarrow>
          (case decode_entity ge (st_prov st) (row_text r) of Inl _ \<Rightarrow> None | Inr e \<Rightarrow> Some e))"

definition entity_key_present :: "store \<Rightarrow> string \<Rightarrow> bool" where
  "entity_key_present st i \<longleftrightarrow> kv_get (st_db st) (node_key i) \<noteq> None"

definition get_edge_by_id :: "graph_env \<Rightarrow> store \<Rightarrow> string \<Rightarrow> graph_edge option res" where
  "get_edge_by_id ge st i =
     (case kv_get (st_db st) (edge_key i) of
        None \<Rightarrow> Inr None
      | Some r \<Rightarrow>
          (case ge_edge_de ge (row_text r) of
             None \<Rightarrow> Inl (Err ''Failed to deserialize edge'')
           | Some e \<Rightarrow> Inr (Some e)))"

definition get_entity_by_name :: "graph_env \<Rightarrow> store \<Rightarrow> string \<Rightarrow> string \<Rightarrow> entity_node option res" where
  "get_entity_by_name ge st name stream =
     rbind (ge_token ge stream name) (\<lambda>token.
       case get_string st (name_key (stream_prefix stream) token) of
         Some i \<Rightarrow> Inr (get_entity_by_id ge st i)
       | None \<Rightarrow>
           (case get_string st (alias_key (stream_prefix stream) token) of
              Some i \<Rightarrow> Inr (get_entity_by_id ge st i)
            | None \<Rightarrow> Inr None))"

definition get_entities_for_chunk :: "graph_env \<Rightarrow> store \<Rightarrow> string \<Rightarrow> string list res" where
  "get_entities_for_chunk ge st c =
     (case kv_get (st_db st) (chunk_index_key c) of
        None \<Rightarrow> Inr []
      | Some r \<Rightarrow>
          (case ge_ids_de ge (row_text r) of
             None \<Rightarrow> Inl (Err ''Failed to deserialize chunk entity index'')
           | Some ids \<Rightarrow> Inr ids))"

text \<open>The edge ids of an adjacency scan: what follows the prefix in the decoded key.\<close>

definition scanned_ids :: "string \<Rightarrow> store \<Rightarrow> string list" where
  "scanned_ids p st =
     List.map_filter (\<lambda>(k, _). strip_prefix p (from_utf8_lossy k)) (kv_prefix p (st_db st))"

fun edges_to :: "graph_env \<Rightarrow> store \<Rightarrow> (graph_edge \<Rightarrow> string) \<Rightarrow> string list \<Rightarrow> (graph_edge \<times> entity_node) list res" where
  "edges_to ge st endpoint [] = Inr []"
| "edges_to ge st endpoint (i # is) =
     rbind (get_edge_by_id ge st i) (\<lambda>eo.
     rbind (edges_to ge st endpoint is) (\<lambda>rest.
       case eo of
         None \<Rightarrow> Inr rest
       | Some e \<Rightarrow>
           (case get_entity_by_id ge st (endpoint e) of
              None \<Rightarrow> Inr rest
            | Some n \<Rightarrow> Inr ((e, n) # rest))))"

definition get_neighbors :: "graph_env \<Rightarrow> store \<Rightarrow> string \<Rightarrow> (graph_edge \<times> entity_node) list res" where
  "get_neighbors ge st i =
     rbind (edges_to ge st ed_target (scanned_ids (adj_prefix i) st)) (\<lambda>outgoing.
     rbind (edges_to ge st ed_source (scanned_ids (radj_prefix i) st)) (\<lambda>incoming.
       Inr (outgoing @ incoming)))"

text \<open>The second hop: the neighbours of the neighbours that were not seen before.\<close>

fun second_hops :: "graph_edge \<Rightarrow> (graph_edge \<times> entity_node) list \<Rightarrow> string set \<Rightarrow>
     (graph_edge list \<times> entity_node) list \<times> string set" where
  "second_hops e1 [] seen = ([], seen)"
| "second_hops e1 ((e2, n) # rest) seen =
     (if nd_id n \<in> seen then second_hops e1 rest seen
      else (let (out, seen') = second_hops e1 rest (insert (nd_id n) seen)
            in (([e1, e2], n) # out, seen')))"

fun hop_loop :: "graph_env \<Rightarrow> store \<Rightarrow> (graph_edge \<times> entity_node) list \<Rightarrow> string set \<Rightarrow>
     (graph_edge list \<times> entity_node) list res" where
  "hop_loop ge st [] seen = Inr []"
| "hop_loop ge st ((e1, n1) # rest) seen =
     rbind (get_neighbors ge st (nd_id n1)) (\<lambda>hop2.
       let (out, seen') = second_hops e1 hop2 seen
       in rbind (hop_loop ge st rest seen') (\<lambda>more. Inr (out @ more)))"

definition get_neighbors_2hop :: "graph_env \<Rightarrow> store \<Rightarrow> string \<Rightarrow> (graph_edge list \<times> entity_node) list res" where
  "get_neighbors_2hop ge st i =
     rbind (get_neighbors ge st i) (\<lambda>hop1.
       hop_loop ge st hop1 (insert i (set (map (\<lambda>(_, n). nd_id n) hop1))))"

section \<open>Writing rows\<close>

definition store_entity :: "graph_env \<Rightarrow> entity_node \<Rightarrow> unit gm" where
  "store_entity ge e st =
     (let pv = st_prov st
      in if pv_enabled pv
         then (case pv_encrypt pv (nd_stream e) (ge_pair_ser ge (nd_name e, nd_aliases e)) of
                 Inl _ \<Rightarrow> (Inl (Err ''Failed to encrypt entity payload''), st)
               | Inr b \<Rightarrow>
                   put_string (node_key (nd_id e))
                     (ge_node_ser ge (e\<lparr>nd_name := [], nd_aliases := []\<rparr>, b)) st)
         else put_string (node_key (nd_id e)) (ge_node_ser ge (e, [])) st)"

definition store_edge :: "graph_env \<Rightarrow> graph_edge \<Rightarrow> unit gm" where
  "store_edge ge e = put_string (edge_key (ed_id e)) (ge_edge_ser ge e)"

definition name_token :: "graph_env \<Rightarrow> string \<Rightarrow> string \<Rightarrow> string gm" where
  "name_token ge stream name = gread (\<lambda>_. ge_token ge stream name)"

fun merge_loop :: "graph_env \<Rightarrow> string \<Rightarrow> string list \<Rightarrow> entity_node \<times> bool \<Rightarrow> (entity_node \<times> bool) gm" where
  "merge_loop ge sp [] ec = gret ec"
| "merge_loop ge sp (a # as) (e, changed) =
     (if list_ex (\<lambda>x. ge_lower ge x = ge_lower ge a) (nd_aliases e)
      then merge_loop ge sp as (e, changed)
      else gbind (name_token ge (nd_stream e) a) (\<lambda>tok.
           gbind (put_string (alias_key sp tok) (nd_id e)) (\<lambda>_.
             merge_loop ge sp as (e\<lparr>nd_aliases := nd_aliases e @ [a]\<rparr>, True))))"

definition merge_aliases_if_new :: "graph_env \<Rightarrow> nat \<Rightarrow> entity_node \<Rightarrow> string \<Rightarrow> string list \<Rightarrow> entity_node gm" where
  "merge_aliases_if_new ge now e sp new =
     gbind (merge_loop ge sp new (e, False)) (\<lambda>(e', changed).
       if changed
       then (let e'' = e'\<lparr>nd_updated := now\<rparr> in gbind (store_entity ge e'') (\<lambda>_. gret e''))
       else gret e')"

section \<open>Finding or creating an entity\<close>

datatype resolve_outcome = Resolved entity_node | DanglingId string | NoHit

definition try_resolve_by_name ::
  "graph_env \<Rightarrow> nat \<Rightarrow> string \<Rightarrow> string \<Rightarrow> string \<Rightarrow> string list \<Rightarrow> resolve_outcome gm" where
  "try_resolve_by_name ge now sp stream name aliases =
     gbind (name_token ge stream name) (\<lambda>token.
     gbind (gread (\<lambda>st. Inr (get_string st (name_key sp token)))) (\<lambda>io. case io of
       None \<Rightarrow> gret NoHit
     | Some i \<Rightarrow>
         gbind (gread (\<lambda>st. Inr (get_entity_by_id ge st i))) (\<lambda>eo. case eo of
           Some e \<Rightarrow> gbind (merge_aliases_if_new ge now e sp aliases) (\<lambda>m. gret (Resolved m))
         | None \<Rightarrow> gret (DanglingId i))))"

fun try_resolve_by_alias :: "graph_env \<Rightarrow> string \<Rightarrow> string \<Rightarrow> string list \<Rightarrow> resolve_outcome list gm" where
  "try_resolve_by_alias ge sp stream [] = gret []"
| "try_resolve_by_alias ge sp stream (a # as) =
     gbind (name_token ge stream a) (\<lambda>token.
     gbind (gread (\<lambda>st. Inr (get_string st (alias_key sp token)))) (\<lambda>io. case io of
       None \<Rightarrow> try_resolve_by_alias ge sp stream as
     | Some i \<Rightarrow>
         gbind (gread (\<lambda>st. Inr (get_entity_by_id ge st i))) (\<lambda>eo. case eo of
           Some e \<Rightarrow> gret [Resolved e]
         | None \<Rightarrow> gbind (try_resolve_by_alias ge sp stream as) (\<lambda>os. gret (DanglingId i # os)))))"

fun first_resolved :: "resolve_outcome list \<Rightarrow> string list \<Rightarrow> entity_node option \<times> string list" where
  "first_resolved [] ids = (None, ids)"
| "first_resolved (Resolved e # os) ids = (Some e, [])"
| "first_resolved (DanglingId i # os) ids = first_resolved os (ids @ [i])"
| "first_resolved (NoHit # os) ids = first_resolved os ids"

definition probe_entity_indexes ::
  "graph_env \<Rightarrow> nat \<Rightarrow> string \<Rightarrow> string \<Rightarrow> string \<Rightarrow> string list \<Rightarrow> (entity_node option \<times> string list) gm" where
  "probe_entity_indexes ge now sp stream name aliases =
     gbind (try_resolve_by_name ge now sp stream name aliases) (\<lambda>r.
       case r of
         Resolved e \<Rightarrow> gret (Some e, [])
       | _ \<Rightarrow>
           gbind (try_resolve_by_alias ge sp stream aliases) (\<lambda>os.
             case first_resolved os (case r of DanglingId i \<Rightarrow> [i] | _ \<Rightarrow> []) of
               (Some e, _) \<Rightarrow> gret (Some e, [])
             | (None, ids) \<Rightarrow> gret (None, remdups_adj (sort ids))))"

definition refuse_if_any_unreadable_present :: "string list \<Rightarrow> unit gm" where
  "refuse_if_any_unreadable_present ids =
     gread (\<lambda>st. ensure (\<not> list_ex (entity_key_present st) ids)
       ''graph: refusing get_or_create: index target entity present but unreadable'')"

text \<open>\<^verbatim>\<open>split_whitespace\<close>: the maximal runs of characters that are not white space.\<close>

function split_ws_acc :: "string \<Rightarrow> string \<Rightarrow> string list" where
  "split_ws_acc cur s =
     (if s = [] then (if cur = [] then [] else [cur])
      else if ws_len s = 0 then split_ws_acc (cur @ [hd s]) (tl s)
      else (if cur = [] then [] else [cur]) @ split_ws_acc [] (drop (ws_len s) s))"
  by pat_completeness auto

termination by (relation "measure (\<lambda>(cur, s). length s)") auto

declare split_ws_acc.simps [simp del]

definition split_whitespace :: "string \<Rightarrow> string list" where
  "split_whitespace s = split_ws_acc [] s"

definition scan_entities_in_stream :: "graph_env \<Rightarrow> store \<Rightarrow> string \<Rightarrow> entity_node list" where
  "scan_entities_in_stream ge st stream =
     sort_key nd_created
       (List.map_filter (\<lambda>(_, r). get_entity_by_id ge st (from_utf8_lossy (row_text r)))
          (kv_prefix (stream_prefix stream @ ''name:'') (st_db st)))"

definition person_tokens :: "graph_env \<Rightarrow> string \<Rightarrow> string list" where
  "person_tokens ge name = split_whitespace (ge_lower ge (trim name))"

definition person_match :: "string list \<Rightarrow> string list \<Rightarrow> bool" where
  "person_match incoming existing \<longleftrightarrow>
     existing \<noteq> [] \<and>
     (if length incoming \<le> length existing then sublist incoming existing else sublist existing incoming)"

definition find_person_alias :: "graph_env \<Rightarrow> store \<Rightarrow> string \<Rightarrow> string \<Rightarrow> string \<Rightarrow> entity_node option" where
  "find_person_alias ge st name ty stream =
     (if ty \<noteq> ''Person'' \<or> trim name = [] \<or> person_tokens ge name = [] then None
      else find (\<lambda>e. nd_type e = ''Person'' \<and> person_match (person_tokens ge name) (person_tokens ge (nd_name e)))
             (scan_entities_in_stream ge st stream))"

definition create_new_entity_with_indexes ::
  "graph_env \<Rightarrow> nat \<Rightarrow> string \<Rightarrow> string \<Rightarrow> string \<Rightarrow> string \<Rightarrow> string list \<Rightarrow> string \<Rightarrow> entity_node gm" where
  "create_new_entity_with_indexes ge now u sp name ty aliases stream =
     (let e = \<lparr>nd_id = u, nd_name = name, nd_type = ty, nd_aliases = aliases, nd_chunks = [],
               nd_stream = stream, nd_created = now, nd_updated = now\<rparr>
      in gbind (store_entity ge e) (\<lambda>_.
         gbind (name_token ge stream name) (\<lambda>token.
         gbind (put_string (name_key sp token) u) (\<lambda>_.
         gbind (geach (\<lambda>a. gbind (name_token ge stream a) (\<lambda>t. put_string (alias_key sp t) u)) aliases) (\<lambda>_.
         gbind (put_string (alias_key sp token) u) (\<lambda>_.
           gret e))))))"

definition get_or_create_entity ::
  "graph_env \<Rightarrow> nat \<Rightarrow> string \<Rightarrow> string \<Rightarrow> string \<Rightarrow> string list \<Rightarrow> string \<Rightarrow> entity_node gm" where
  "get_or_create_entity ge now u name ty aliases stream =
     (let sp = stream_prefix stream
      in gbind (probe_entity_indexes ge now sp stream name aliases) (\<lambda>(resolved, ids).
           case resolved of
             Some e \<Rightarrow> gret e
           | None \<Rightarrow>
               gbind (refuse_if_any_unreadable_present ids) (\<lambda>_.
               gbind (gread (\<lambda>st. Inr (find_person_alias ge st name ty stream))) (\<lambda>eo.
                 case eo of
                   Some existing \<Rightarrow> merge_aliases_if_new ge now existing sp (name # aliases)
                 | None \<Rightarrow> create_new_entity_with_indexes ge now u sp name ty aliases stream))))"

section \<open>Relations and edges\<close>

datatype relation_type =
    WorksAt | Uses | Manages | MemberOf | Implements | LocatedIn | RelatedTo | Created | LoggedInVia
  | PaysFor | DeployedIn | Accepted | ConfirmedParticipation

fun relation_as_str :: "relation_type \<Rightarrow> string" where
  "relation_as_str WorksAt = ''works_at''"
| "relation_as_str Uses = ''uses''"
| "relation_as_str Manages = ''manages''"
| "relation_as_str MemberOf = ''member_of''"
| "relation_as_str Implements = ''implements''"
| "relation_as_str LocatedIn = ''located_in''"
| "relation_as_str RelatedTo = ''related_to''"
| "relation_as_str Created = ''created''"
| "relation_as_str LoggedInVia = ''logged_in_via''"
| "relation_as_str PaysFor = ''pays_for''"
| "relation_as_str DeployedIn = ''deployed_in''"
| "relation_as_str Accepted = ''accepted''"
| "relation_as_str ConfirmedParticipation = ''confirmed_participation''"

definition normalize_relation :: "graph_env \<Rightarrow> string \<Rightarrow> relation_type" where
  "normalize_relation ge raw =
     (if trim raw = [] then RelatedTo
      else (let l = ge_lower ge (trim raw)
            in if l = ''works_at'' then WorksAt
               else if l = ''uses'' then Uses
               else if l = ''manages'' then Manages
               else if l = ''member_of'' then MemberOf
               else if l = ''implements'' then Implements
               else if l = ''located_in'' then LocatedIn
               else if l = ''related_to'' then RelatedTo
               else if l = ''created'' then Created
               else if l = ''logged_in_via'' then LoggedInVia
               else if l = ''pays_for'' then PaysFor
               else if l = ''deployed_in'' then DeployedIn
               else if l = ''accepted'' then Accepted
               else if l = ''confirmed_participation'' then ConfirmedParticipation
               else RelatedTo))"

text \<open>The existing edge between the entities: the adjacency rows in key order.\<close>

fun find_edge :: "graph_env \<Rightarrow> store \<Rightarrow> string \<Rightarrow> string \<Rightarrow> string \<Rightarrow> row cf \<Rightarrow> graph_edge option res" where
  "find_edge ge st p target rel [] = Inr None"
| "find_edge ge st p target rel ((k, r) # rs) =
     (if from_utf8_lossy (row_text r) \<noteq> target then find_edge ge st p target rel rs
      else (case strip_prefix p (from_utf8_lossy k) of
              None \<Rightarrow> find_edge ge st p target rel rs
            | Some i \<Rightarrow>
                rbind (get_edge_by_id ge st i) (\<lambda>eo. case eo of
                  Some e \<Rightarrow>
                    if relation_as_str (normalize_relation ge (ed_relation e)) = rel then Inr (Some e)
                    else find_edge ge st p target rel rs
                | None \<Rightarrow> find_edge ge st p target rel rs)))"

definition get_or_create_edge ::
  "graph_env \<Rightarrow> nat \<Rightarrow> string \<Rightarrow> string \<Rightarrow> string \<Rightarrow> string \<Rightarrow> string \<Rightarrow> graph_edge gm" where
  "get_or_create_edge ge now u source target relation stream =
     (let rel = relation_as_str (normalize_relation ge relation);
          p = adj_prefix source;
          e = \<lparr>ed_id = u, ed_source = source, ed_target = target, ed_relation = rel, ed_chunks = [],
               ed_stream = stream, ed_created = now, ed_updated = now\<rparr>
      in gbind (gread (\<lambda>st. find_edge ge st p target rel (kv_prefix p (st_db st)))) (\<lambda>eo. case eo of
           Some found \<Rightarrow> gret found
         | None \<Rightarrow>
             gbind (store_edge ge e) (\<lambda>_.
             gbind (put_string (adj_prefix source @ u) target) (\<lambda>_.
             gbind (put_string (radj_prefix target @ u) source) (\<lambda>_.
               gret e)))))"

section \<open>Links to chunks\<close>

definition add_to_chunk_index :: "graph_env \<Rightarrow> string \<Rightarrow> string \<Rightarrow> unit gm" where
  "add_to_chunk_index ge c i =
     gbind (gread (\<lambda>st. get_entities_for_chunk ge st c)) (\<lambda>ids.
       if i \<in> set ids then gret () else put_string (chunk_index_key c) (ge_ids_ser ge (ids @ [i])))"

definition add_chunk_to_entity :: "graph_env \<Rightarrow> nat \<Rightarrow> string \<Rightarrow> string \<Rightarrow> unit gm" where
  "add_chunk_to_entity ge now i c =
     gbind (gread (\<lambda>st. Inr (get_entity_by_id ge st i))) (\<lambda>eo. case eo of
       None \<Rightarrow> gret ()
     | Some e \<Rightarrow>
         if c \<in> set (nd_chunks e) then gret ()
         else gbind (store_entity ge (e\<lparr>nd_chunks := nd_chunks e @ [c], nd_updated := now\<rparr>)) (\<lambda>_.
              add_to_chunk_index ge c i))"

definition add_chunk_to_edge :: "graph_env \<Rightarrow> nat \<Rightarrow> string \<Rightarrow> string \<Rightarrow> unit gm" where
  "add_chunk_to_edge ge now i c =
     gbind (gread (\<lambda>st. get_edge_by_id ge st i)) (\<lambda>eo. case eo of
       None \<Rightarrow> gret ()
     | Some e \<Rightarrow>
         if c \<in> set (ed_chunks e) then gret ()
         else store_edge ge (e\<lparr>ed_chunks := ed_chunks e @ [c], ed_updated := now\<rparr>))"

section \<open>Deletion\<close>

text \<open>The index row of a chunk is split at commas and rewritten without the entity.\<close>

definition unlink_chunk :: "string \<Rightarrow> string \<Rightarrow> unit gm" where
  "unlink_chunk i c st =
     (case kv_get (st_db st) (chunk_index_key c) of
        None \<Rightarrow> (Inr (), st)
      | Some r \<Rightarrow>
          (let remaining = filter (\<lambda>x. x \<noteq> i) (split_on (CHR '','') (from_utf8_lossy (row_text r)))
           in if remaining = [] then delete_key (chunk_index_key c) st
              else put_string (chunk_index_key c) (join '','' remaining) st))"

definition adjacency_rows :: "string \<Rightarrow> store \<Rightarrow> (string \<times> string) list" where
  "adjacency_rows p st =
     map (\<lambda>(k, _). (from_utf8_lossy k,
            case strip_prefix p (from_utf8_lossy k) of None \<Rightarrow> [] | Some i \<Rightarrow> i))
       (kv_prefix p (st_db st))"

definition drop_edge :: "graph_env \<Rightarrow> (graph_edge \<Rightarrow> string \<Rightarrow> string) \<Rightarrow> string \<times> string \<Rightarrow> unit gm" where
  "drop_edge ge other row =
     gbind (delete_key (fst row)) (\<lambda>_.
     gbind (gread (\<lambda>st. Inr (get_edge_by_id ge st (snd row)))) (\<lambda>er. case er of
       Inr (Some e) \<Rightarrow>
         gbind (delete_key (other e (snd row))) (\<lambda>_. delete_key (edge_key (snd row)))
     | _ \<Rightarrow> gret ()))"

definition delete_entity :: "graph_env \<Rightarrow> string \<Rightarrow> bool gm" where
  "delete_entity ge i =
     gbind (gread (\<lambda>st. Inr (get_entity_by_id ge st i))) (\<lambda>eo. case eo of
       None \<Rightarrow> gret False
     | Some e \<Rightarrow>
         (let sp = stream_prefix (nd_stream e)
          in gbind (name_token ge (nd_stream e) (nd_name e)) (\<lambda>token.
             gbind (delete_key (name_key sp token)) (\<lambda>_.
             gbind (geach (\<lambda>a. gbind (name_token ge (nd_stream e) a) (\<lambda>t. delete_key (alias_key sp t)))
                      (nd_aliases e)) (\<lambda>_.
             gbind (delete_key (alias_key sp token)) (\<lambda>_.
             gbind (geach (unlink_chunk i) (nd_chunks e)) (\<lambda>_.
             gbind (gread (\<lambda>st. Inr (adjacency_rows (adj_prefix i) st))) (\<lambda>out_rows.
             gbind (geach (drop_edge ge (\<lambda>ed r. radj_prefix (ed_target ed) @ r)) out_rows) (\<lambda>_.
             gbind (gread (\<lambda>st. Inr (adjacency_rows (radj_prefix i) st))) (\<lambda>in_rows.
             gbind (geach (drop_edge ge (\<lambda>ed r. adj_prefix (ed_source ed) @ r)) in_rows) (\<lambda>_.
             gbind (delete_key (node_key i)) (\<lambda>_.
               gret True))))))))))))"

fun detach_chunk :: "graph_env \<Rightarrow> nat \<Rightarrow> string \<Rightarrow> string list \<Rightarrow> string list \<Rightarrow> string list gm" where
  "detach_chunk ge now c [] prune = gret prune"
| "detach_chunk ge now c (i # is) prune =
     gbind (gread (\<lambda>st. Inr (get_entity_by_id ge st i))) (\<lambda>eo. case eo of
       None \<Rightarrow> detach_chunk ge now c is prune
     | Some e \<Rightarrow>
         (let left = filter (\<lambda>x. x \<noteq> c) (nd_chunks e)
          in if left = [] then detach_chunk ge now c is (prune @ [i])
             else gbind (store_entity ge (e\<lparr>nd_chunks := left, nd_updated := now\<rparr>)) (\<lambda>_.
                  detach_chunk ge now c is prune)))"

text \<open>A failed pruning is logged and skipped.\<close>

definition attempt :: "'a gm \<Rightarrow> unit gm" where
  "attempt m st = (Inr (), snd (m st))"

definition remove_chunk_references :: "graph_env \<Rightarrow> nat \<Rightarrow> string \<Rightarrow> unit gm" where
  "remove_chunk_references ge now c =
     gbind (gread (\<lambda>st. get_entities_for_chunk ge st c)) (\<lambda>ids.
     gbind (detach_chunk ge now c ids []) (\<lambda>prune.
     gbind (delete_key (chunk_index_key c)) (\<lambda>_.
       geach (\<lambda>i. attempt (delete_entity ge i)) prune)))"

section \<open>Counts and the re-keying of the name indexes\<close>

definition get_entity_chunks :: "graph_env \<Rightarrow> store \<Rightarrow> string \<Rightarrow> string list" where
  "get_entity_chunks ge st i = (case get_entity_by_id ge st i of None \<Rightarrow> [] | Some e \<Rightarrow> nd_chunks e)"

definition count_entities :: "store \<Rightarrow> nat" where
  "count_entities st = length (kv_prefix ''graph:entity:'' (st_db st))"

definition count_edges :: "store \<Rightarrow> nat" where
  "count_edges st = length (kv_prefix ''graph:edge:'' (st_db st))"

fun name_tokens :: "graph_env \<Rightarrow> string \<Rightarrow> string list \<Rightarrow> string list gm" where
  "name_tokens ge stream [] = gret []"
| "name_tokens ge stream (n # ns) =
     gbind (name_token ge stream n) (\<lambda>t. gbind (name_tokens ge stream ns) (\<lambda>ts. gret (t # ts)))"

text \<open>Rows under a prefix that point at an entity; the numbers are the deleted and the kept rows.\<close>

fun prune_keys :: "string \<Rightarrow> string list \<Rightarrow> string list \<Rightarrow> (nat \<times> nat) gm" where
  "prune_keys p expected [] = gret (0, 0)"
| "prune_keys p expected (k # ks) =
     (if (case strip_prefix p k of Some s \<Rightarrow> s | None \<Rightarrow> k) \<in> set expected
      then gbind (prune_keys p expected ks) (\<lambda>(m, c). gret (m, Suc c))
      else gbind (delete_key k) (\<lambda>_. gbind (prune_keys p expected ks) (\<lambda>(m, c). gret (Suc m, c))))"

definition prune_index :: "string \<Rightarrow> string list \<Rightarrow> string \<Rightarrow> (nat \<times> nat) gm" where
  "prune_index p expected i =
     gbind (gread (\<lambda>st. Inr (map (\<lambda>(k, _). from_utf8_lossy k)
                                (filter (\<lambda>(_, r). row_text r = i) (kv_prefix p (st_db st)))))) (\<lambda>ks.
       prune_keys p expected ks)"

definition rekey_entity_indexes :: "graph_env \<Rightarrow> entity_node \<Rightarrow> string \<Rightarrow> (nat \<times> nat) gm" where
  "rekey_entity_indexes ge e sp =
     gbind (name_token ge (nd_stream e) (nd_name e)) (\<lambda>token.
     gbind (name_tokens ge (nd_stream e) (nd_aliases e)) (\<lambda>aliases.
     gbind (put_string (name_key sp token) (nd_id e)) (\<lambda>_.
     gbind (geach (\<lambda>t. put_string (alias_key sp t) (nd_id e)) aliases) (\<lambda>_.
     gbind (put_string (alias_key sp token) (nd_id e)) (\<lambda>_.
     gbind (prune_index (sp @ ''name:'') [token] (nd_id e)) (\<lambda>(m1, c1).
     gbind (prune_index (sp @ ''alias:'') (aliases @ [token]) (nd_id e)) (\<lambda>(m2, c2).
       gret (m1 + m2, c1 + c2))))))))"

fun rekey_loop :: "graph_env \<Rightarrow> string list \<Rightarrow> (nat \<times> nat) gm" where
  "rekey_loop ge [] = gret (0, 0)"
| "rekey_loop ge (k # ks) =
     (let i = (case strip_prefix ''graph:entity:'' k of Some s \<Rightarrow> s | None \<Rightarrow> k)
      in gbind (gread (\<lambda>st. Inr (get_entity_by_id ge st i))) (\<lambda>eo. case eo of
           None \<Rightarrow> rekey_loop ge ks
         | Some e \<Rightarrow>
             gbind (rekey_entity_indexes ge e (stream_prefix (nd_stream e))) (\<lambda>(m, c).
             gbind (rekey_loop ge ks) (\<lambda>(m', c'). gret (m + m', c + c')))))"

definition rekey_name_index :: "graph_env \<Rightarrow> (nat \<times> nat) gm" where
  "rekey_name_index ge =
     gbind (gread (\<lambda>st. Inr (map (\<lambda>(k, _). from_utf8_lossy k) (kv_prefix ''graph:entity:'' (st_db st))))) (\<lambda>ks.
       rekey_loop ge ks)"

end
