(* ===== verification/GraphLabels.thy ===== *)
theory GraphLabels
  imports Graph
begin

text \<open>
  Source-attributed graph labels (\<^verbatim>\<open>loomem-core/src/graph/labels.rs\<close>, \<^verbatim>\<open>labels/read.rs\<close>,
  \<^verbatim>\<open>graph/live_retrieval.rs\<close>) and what the server shows of the graph
  (\<^verbatim>\<open>loomem-server/src/handlers/graph_visibility.rs\<close>). A contribution binds labels to one chunk and
  to the fingerprint of its content and generation; live readers show an entity, an alias or a
  relation only on the evidence of chunks that are live now.
\<close>

section \<open>Fingerprints and contribution rows\<close>

record contribution_target =
  ct_chunk :: string
  ct_stream :: string
  ct_fingerprint :: string

record entity_contribution =
  ec_name :: string
  ec_type :: string
  ec_aliases :: "string list"
  ec_stream :: string
  ec_chunk :: string
  ec_content :: string

record relation_contribution =
  rc_source :: string
  rc_target :: string
  rc_relation :: string
  rc_stream :: string
  rc_chunk :: string
  rc_content :: string

definition label_key :: "string \<Rightarrow> string \<Rightarrow> string" where
  "label_key e c = ''graph:labels:'' @ e @ '':'' @ c"

definition relation_key :: "string \<Rightarrow> string \<Rightarrow> string" where
  "relation_key e c = ''graph:edge_labels:'' @ e @ '':'' @ c"

text \<open>The hashed bytes: the content, a zero byte, and a one byte with the generation when there is one.\<close>

definition fingerprint_bytes :: "string \<Rightarrow> row option \<Rightarrow> string" where
  "fingerprint_bytes content g =
     content @ [char_of (0 :: nat)] @ (case g of None \<Rightarrow> [] | Some r \<Rightarrow> char_of (1 :: nat) # row_text r)"

definition support_fingerprint :: "graph_env \<Rightarrow> store \<Rightarrow> chunk \<Rightarrow> string" where
  "support_fingerprint ge st c =
     ge_hash ge (fingerprint_bytes (ch_content c) (kv_get (st_db st) (generation_key (ch_id c))))"

definition contribution_chunk :: "store \<Rightarrow> string \<Rightarrow> string \<Rightarrow> string \<Rightarrow> chunk res" where
  "contribution_chunk st i stream content =
     rbind (get_chunk st i) (\<lambda>co. case co of
       None \<Rightarrow> Inl (Err ''Graph support missing'')
     | Some c \<Rightarrow>
         rbind (ensure (ch_deleted_at c = None \<and> ch_stream c = stream \<and> ch_content c = content)
                  ''Graph support is obsolete or outside stream'') (\<lambda>_. Inr c))"

definition capture_contribution_target ::
  "graph_env \<Rightarrow> store \<Rightarrow> string \<Rightarrow> string \<Rightarrow> string \<Rightarrow> contribution_target res" where
  "capture_contribution_target ge st i stream content =
     rbind (contribution_chunk st i stream content) (\<lambda>c.
       Inr \<lparr>ct_chunk = ch_id c, ct_stream = ch_stream c, ct_fingerprint = support_fingerprint ge st c\<rparr>)"

definition validate_contribution_target ::
  "graph_env \<Rightarrow> store \<Rightarrow> contribution_target option \<Rightarrow> chunk \<Rightarrow> unit res" where
  "validate_contribution_target ge st target c =
     (case target of
        None \<Rightarrow> Inr ()
      | Some t \<Rightarrow>
          ensure (ct_chunk t = ch_id c \<and> ct_stream t = ch_stream c \<and>
                  ct_fingerprint t = support_fingerprint ge st c) ''Graph source incarnation changed'')"

definition validate_binding :: "string \<Rightarrow> chunk \<Rightarrow> string \<Rightarrow> string \<Rightarrow> string \<Rightarrow> unit res" where
  "validate_binding expected c owner chunk_id stream =
     ensure (owner = expected \<and> chunk_id = ch_id c \<and> stream = ch_stream c)
       ''Graph contribution owner or source mismatch''"

definition read_claim :: "(string \<Rightarrow> 'a option) \<Rightarrow> store \<Rightarrow> string \<Rightarrow> string \<Rightarrow> 'a option res" where
  "read_claim de st key stream =
     (case kv_get (st_db st) key of
        None \<Rightarrow> Inr None
      | Some r \<Rightarrow>
          rbind (ensure (pv_is_encrypted (st_prov st) (row_text r) = pv_enabled (st_prov st))
                   ''Graph contribution encryption unavailable or inconsistent'') (\<lambda>_.
          rbind (pv_decrypt (st_prov st) stream (row_text r)) (\<lambda>p.
            case de p of None \<Rightarrow> Inl (Err ''Decode graph contribution'') | Some x \<Rightarrow> Inr (Some x))))"

definition write_claim :: "string \<Rightarrow> string \<Rightarrow> string \<Rightarrow> unit gm" where
  "write_claim key stream plain =
     gbind (gread (\<lambda>st. rbind (pv_encrypt (st_prov st) stream plain) (\<lambda>b.
                          rbind (ensure (pv_is_encrypted (st_prov st) b = pv_enabled (st_prov st))
                                   ''Graph contribution encryption failed'') (\<lambda>_. Inr b)))) (\<lambda>b.
       put_string key b)"

section \<open>Reading with live support\<close>

definition live_chunk :: "store \<Rightarrow> string \<Rightarrow> string \<Rightarrow> chunk option res" where
  "live_chunk st i stream =
     rbind (get_chunk st i) (\<lambda>co.
       Inr (case co of
              None \<Rightarrow> None
            | Some c \<Rightarrow> if ch_deleted_at c = None \<and> ch_stream c = stream then Some c else None))"

definition matches_label :: "graph_env \<Rightarrow> entity_node \<Rightarrow> string \<Rightarrow> bool" where
  "matches_label ge e label \<longleftrightarrow>
     ge_lower ge (nd_name e) = ge_lower ge label \<or>
     list_ex (\<lambda>a. ge_lower ge a = ge_lower ge label) (nd_aliases e)"

definition endpoints_match :: "entity_node \<Rightarrow> graph_edge \<Rightarrow> entity_node \<Rightarrow> bool" where
  "endpoints_match e edge t \<longleftrightarrow>
     ed_source edge = nd_id e \<and> ed_target edge = nd_id t \<or> ed_target edge = nd_id e \<and> ed_source edge = nd_id t"

definition entity_claims :: "graph_env \<Rightarrow> store \<Rightarrow> entity_node \<Rightarrow> chunk \<Rightarrow> label_claim list res" where
  "entity_claims ge st e c =
     rbind (read_claim (ge_labels_de ge) st (label_key (nd_id e) (ch_id c)) (ch_stream c)) (\<lambda>lo. case lo of
       Some k \<Rightarrow>
         rbind (ensure (lk_version k = 1) ''Unsupported graph contribution version'') (\<lambda>_.
         rbind (validate_binding (nd_id e) c (lk_owner k) (lk_chunk k) (lk_stream k)) (\<lambda>_.
           if lk_fingerprint k \<noteq> support_fingerprint ge st c then Inr []
           else Inr (filter (\<lambda>x. lc_name x \<noteq> [] \<and> lc_type x \<noteq> []) (lk_claims k))))
     | None \<Rightarrow>
         rbind (get_entities st (ch_id c) (ch_stream c)) (\<lambda>names.
           Inr (map (\<lambda>n. \<lparr>lc_name = n, lc_type = ''Unknown'', lc_aliases = []\<rparr>)
                  (filter (matches_label ge e) names))))"

definition claim_key :: "graph_env \<Rightarrow> label_claim \<Rightarrow> string \<times> string \<times> string" where
  "claim_key ge x = (ge_lower ge (lc_name x), lc_name x, lc_type x)"

text \<open>The stable sort of the claims by their key, as insertion sort.\<close>

definition key_le :: "string \<times> string \<times> string \<Rightarrow> string \<times> string \<times> string \<Rightarrow> bool" where
  "key_le a b =
     (case (a, b) of ((a1, a2, a3), (b1, b2, b3)) \<Rightarrow>
        a1 < b1 \<or> a1 = b1 \<and> (a2 < b2 \<or> a2 = b2 \<and> a3 \<le> b3))"

fun insert_claim :: "graph_env \<Rightarrow> label_claim \<Rightarrow> label_claim list \<Rightarrow> label_claim list" where
  "insert_claim ge x [] = [x]"
| "insert_claim ge x (y # ys) =
     (if key_le (claim_key ge x) (claim_key ge y) then x # y # ys else y # insert_claim ge x ys)"

definition sort_claims :: "graph_env \<Rightarrow> label_claim list \<Rightarrow> label_claim list" where
  "sort_claims ge xs = foldr (insert_claim ge) xs []"

definition apply_claims :: "graph_env \<Rightarrow> entity_node \<Rightarrow> label_claim list \<Rightarrow> entity_node" where
  "apply_claims ge e claims =
     (let cs = sort_claims ge claims;
          canonical =
            (case find (\<lambda>x. to_ascii_lowercase (lc_name x) = to_ascii_lowercase (nd_name e)) cs of
               Some x \<Rightarrow> x | None \<Rightarrow> hd cs);
          labels = sort (remdups (concat (map (\<lambda>x. lc_name x # lc_aliases x) cs)))
      in e\<lparr>nd_name := lc_name canonical, nd_type := lc_type canonical,
           nd_aliases := filter (\<lambda>l. to_ascii_lowercase l \<noteq> to_ascii_lowercase (lc_name canonical)) labels\<rparr>)"

fun collect_claims :: "graph_env \<Rightarrow> store \<Rightarrow> entity_node \<Rightarrow> string list \<Rightarrow> (label_claim list \<times> string list) res" where
  "collect_claims ge st e [] = Inr ([], [])"
| "collect_claims ge st e (i # is) =
     rbind (live_chunk st i (nd_stream e)) (\<lambda>co.
     rbind (case co of None \<Rightarrow> Inr [] | Some c \<Rightarrow> entity_claims ge st e c) (\<lambda>labels.
     rbind (collect_claims ge st e is) (\<lambda>(claims, supported).
       Inr (labels @ claims, if labels = [] then supported else i # supported))))"

definition project_entity :: "graph_env \<Rightarrow> store \<Rightarrow> entity_node \<Rightarrow> entity_node option res" where
  "project_entity ge st e =
     rbind (collect_claims ge st e (nd_chunks e)) (\<lambda>(claims, supported).
       Inr (if claims = [] then None else Some ((apply_claims ge e claims)\<lparr>nd_chunks := supported\<rparr>)))"

definition get_live_entity_by_id :: "graph_env \<Rightarrow> store \<Rightarrow> string \<Rightarrow> entity_node option res" where
  "get_live_entity_by_id ge st i =
     (case get_entity_by_id ge st i of None \<Rightarrow> Inr None | Some raw \<Rightarrow> project_entity ge st raw)"

definition get_live_entity_by_name :: "graph_env \<Rightarrow> store \<Rightarrow> string \<Rightarrow> string \<Rightarrow> entity_node option res" where
  "get_live_entity_by_name ge st name stream =
     rbind (get_entity_by_name ge st name stream) (\<lambda>ro. case ro of
       None \<Rightarrow> Inr None
     | Some raw \<Rightarrow>
         rbind (project_entity ge st raw) (\<lambda>eo. case eo of
           None \<Rightarrow> Inr None
         | Some e \<Rightarrow> Inr (if nd_stream e = stream \<and> matches_label ge e name then Some e else None)))"

definition relation_label :: "graph_env \<Rightarrow> string \<Rightarrow> string" where
  "relation_label ge raw =
     (let l = ge_lower ge (trim raw)
      in if l \<in> {''works_at'', ''uses'', ''manages'', ''member_of'', ''implements'', ''located_in'', ''created'',
                 ''logged_in_via'', ''pays_for'', ''deployed_in'', ''accepted'', ''confirmed_participation''}
         then l else ''related_to'')"

definition attributed_relation_supported ::
  "graph_env \<Rightarrow> store \<Rightarrow> graph_edge \<Rightarrow> chunk \<Rightarrow> string \<Rightarrow> bool option res" where
  "attributed_relation_supported ge st edge c relation =
     rbind (read_claim (ge_rels_de ge) st (relation_key (ed_id edge) (ch_id c)) (ch_stream c)) (\<lambda>ro. case ro of
       None \<Rightarrow> Inr None
     | Some k \<Rightarrow>
         rbind (ensure (rk_version k = 1) ''Unsupported graph relation contribution version'') (\<lambda>_.
         rbind (validate_binding (ed_id edge) c (rk_owner k) (rk_chunk k) (rk_stream k)) (\<lambda>_.
           Inr (Some (rk_fingerprint k = support_fingerprint ge st c \<and> relation \<in> rk_relations k)))))"

definition legacy_relation_supported ::
  "graph_env \<Rightarrow> store \<Rightarrow> entity_node \<Rightarrow> entity_node \<Rightarrow> graph_edge \<Rightarrow> chunk \<Rightarrow> string \<Rightarrow> bool res" where
  "legacy_relation_supported ge st e t edge c relation =
     (let (source, destination) = (if ed_source edge = nd_id e then (e, t) else (t, e))
      in rbind (get_relations st (ch_id c) (ch_stream c)) (\<lambda>rs.
           Inr (list_ex (\<lambda>(left, kind, right).
             matches_label ge source left \<and> matches_label ge destination right \<and>
             relation_label ge kind = relation) rs)))"

definition relation_supported ::
  "graph_env \<Rightarrow> store \<Rightarrow> entity_node \<Rightarrow> entity_node \<Rightarrow> graph_edge \<Rightarrow> string \<Rightarrow> string \<Rightarrow> bool res" where
  "relation_supported ge st e t edge i relation =
     (if i \<notin> set (nd_chunks e) \<or> i \<notin> set (nd_chunks t) then Inr False
      else rbind (live_chunk st i (ed_stream edge)) (\<lambda>co. case co of
        None \<Rightarrow> Inr False
      | Some c \<Rightarrow>
          rbind (attributed_relation_supported ge st edge c relation) (\<lambda>a. case a of
            Some b \<Rightarrow> Inr b
          | None \<Rightarrow> legacy_relation_supported ge st e t edge c relation)))"

fun supported_ids :: "(string \<Rightarrow> bool res) \<Rightarrow> string list \<Rightarrow> string list res" where
  "supported_ids f [] = Inr []"
| "supported_ids f (i # is) =
     rbind (f i) (\<lambda>b. rbind (supported_ids f is) (\<lambda>rest. Inr (if b then i # rest else rest)))"

definition project_neighbor ::
  "graph_env \<Rightarrow> store \<Rightarrow> entity_node \<Rightarrow> graph_edge \<Rightarrow> entity_node \<Rightarrow> (graph_edge \<times> entity_node) option res" where
  "project_neighbor ge st e edge raw =
     (if ed_stream edge \<noteq> nd_stream e \<or> \<not> endpoints_match e edge raw then Inr None
      else rbind (project_entity ge st raw) (\<lambda>to. case to of
        None \<Rightarrow> Inr None
      | Some t \<Rightarrow>
          (let relation = relation_label ge (ed_relation edge)
           in rbind (supported_ids (\<lambda>i. relation_supported ge st e t edge i relation) (ed_chunks edge)) (\<lambda>support.
                Inr (if support = [] then None
                     else Some (edge\<lparr>ed_chunks := support, ed_relation := relation\<rparr>, t))))))"

fun project_neighbors ::
  "graph_env \<Rightarrow> store \<Rightarrow> entity_node \<Rightarrow> (graph_edge \<times> entity_node) list \<Rightarrow> (graph_edge \<times> entity_node) list res" where
  "project_neighbors ge st e [] = Inr []"
| "project_neighbors ge st e ((edge, raw) # rest) =
     rbind (project_neighbor ge st e edge raw) (\<lambda>no.
     rbind (project_neighbors ge st e rest) (\<lambda>more.
       Inr (case no of None \<Rightarrow> more | Some n \<Rightarrow> n # more)))"

definition get_live_neighbors :: "graph_env \<Rightarrow> store \<Rightarrow> string \<Rightarrow> (graph_edge \<times> entity_node) list res" where
  "get_live_neighbors ge st i =
     rbind (get_live_entity_by_id ge st i) (\<lambda>eo. case eo of
       None \<Rightarrow> Inr []
     | Some e \<Rightarrow>
         rbind (get_neighbors ge st i) (\<lambda>ns. project_neighbors ge st e ns))"

section \<open>What the server shows\<close>

definition live_support :: "store \<Rightarrow> string \<Rightarrow> string \<Rightarrow> bool" where
  "live_support st i stream =
     (case get_chunk st i of Inr (Some c) \<Rightarrow> ch_deleted_at c = None \<and> ch_stream c = stream | _ \<Rightarrow> False)"

definition supported_entity :: "store \<Rightarrow> entity_node \<Rightarrow> string \<Rightarrow> entity_node option" where
  "supported_entity st e stream =
     (if nd_stream e \<noteq> stream then None
      else (let e' = e\<lparr>nd_chunks := filter (\<lambda>i. live_support st i stream) (nd_chunks e)\<rparr>
            in if nd_chunks e' = [] then None else Some e'))"

definition supported_neighbor ::
  "store \<Rightarrow> entity_node \<Rightarrow> graph_edge \<times> entity_node \<Rightarrow> (graph_edge \<times> entity_node) option" where
  "supported_neighbor st e n =
     (case n of (edge, t) \<Rightarrow>
        if ed_stream edge \<noteq> nd_stream e \<or> \<not> endpoints_match e edge t then None
        else (case supported_entity st t (nd_stream e) of
                None \<Rightarrow> None
              | Some t' \<Rightarrow>
                  (let kept = filter (\<lambda>i. i \<in> set (nd_chunks e) \<and> i \<in> set (nd_chunks t')) (ed_chunks edge)
                   in if kept = [] then None else Some (edge\<lparr>ed_chunks := kept\<rparr>, t'))))"

definition find_visible ::
  "graph_env \<Rightarrow> store \<Rightarrow> string \<Rightarrow> string \<Rightarrow> (entity_node \<times> (graph_edge \<times> entity_node) list) option res" where
  "find_visible ge st name stream =
     rbind (get_live_entity_by_name ge st name stream) (\<lambda>eo.
       case Option.bind eo (\<lambda>e. supported_entity st e stream) of
         None \<Rightarrow> Inr None
       | Some e \<Rightarrow>
           rbind (get_live_neighbors ge st (nd_id e)) (\<lambda>ns.
             Inr (Some (e, List.map_filter (supported_neighbor st e) ns))))"

definition visible_entities :: "graph_env \<Rightarrow> store \<Rightarrow> entity_node list" where
  "visible_entities ge st =
     List.map_filter (\<lambda>(k, _). Option.bind (strip_prefix ''graph:entity:'' k) (\<lambda>i.
         if \<not> valid_utf8 i then None
         else case get_live_entity_by_id ge st i of Inr eo \<Rightarrow> eo | Inl _ \<Rightarrow> None))
       (kv_prefix ''graph:entity:'' (st_db st))"

section \<open>Retrieval scores\<close>

definition add_chunks :: "rat \<Rightarrow> entity_node \<Rightarrow> (string \<rightharpoonup> rat) \<Rightarrow> (string \<rightharpoonup> rat)" where
  "add_chunks w e m =
     (\<lambda>i. if i \<in> set (nd_chunks e) then Some (case m i of None \<Rightarrow> max 0 w | Some s \<Rightarrow> max s w) else m i)"

fun add_second_hop :: "entity_node \<Rightarrow> (graph_edge \<times> entity_node) list \<Rightarrow> (string \<rightharpoonup> rat) \<Rightarrow> (string \<rightharpoonup> rat)" where
  "add_second_hop e [] m = m"
| "add_second_hop e ((_, t) # ts) m =
     add_second_hop e ts (if nd_id t \<noteq> nd_id e then add_chunks (1/4) t m else m)"

fun add_hops :: "graph_env \<Rightarrow> store \<Rightarrow> nat \<Rightarrow> entity_node \<Rightarrow> (graph_edge \<times> entity_node) list \<Rightarrow> (string \<rightharpoonup> rat) \<Rightarrow>
     (string \<rightharpoonup> rat) res" where
  "add_hops ge st hops e [] m = Inr m"
| "add_hops ge st hops e ((_, n) # ns) m =
     (let m' = add_chunks (1/2) n m
      in if hops < 2 then add_hops ge st hops e ns m'
         else rbind (get_live_neighbors ge st (nd_id n)) (\<lambda>ts.
                add_hops ge st hops e ns (add_second_hop e ts m')))"

fun live_scores :: "graph_env \<Rightarrow> store \<Rightarrow> nat \<Rightarrow> string \<Rightarrow> string list \<Rightarrow> (string \<rightharpoonup> rat) \<Rightarrow> (string \<rightharpoonup> rat) res" where
  "live_scores ge st hops stream [] m = Inr m"
| "live_scores ge st hops stream (name # names) m =
     rbind (get_live_entity_by_name ge st name stream) (\<lambda>eo. case eo of
       None \<Rightarrow> live_scores ge st hops stream names m
     | Some e \<Rightarrow>
         (let m' = add_chunks 1 e m
          in if hops = 0 then live_scores ge st hops stream names m'
             else rbind (get_live_neighbors ge st (nd_id e)) (\<lambda>ns.
                  rbind (add_hops ge st hops e ns m') (\<lambda>m''.
                    live_scores ge st hops stream names m''))))"

definition find_live_related_chunks ::
  "graph_env \<Rightarrow> store \<Rightarrow> string list \<Rightarrow> nat \<Rightarrow> string \<Rightarrow> (string \<rightharpoonup> rat) res" where
  "find_live_related_chunks ge st names max_hops stream = live_scores ge st max_hops stream names Map.empty"

text \<open>The older expansion without the liveness checks: the chunk scores of the named entities.\<close>

fun related_scores :: "graph_env \<Rightarrow> store \<Rightarrow> nat \<Rightarrow> string \<Rightarrow> string list \<Rightarrow> (string \<rightharpoonup> rat) \<Rightarrow> (string \<rightharpoonup> rat) res" where
  "related_scores ge st hops stream [] m = Inr m"
| "related_scores ge st hops stream (name # names) m =
     rbind (get_entity_by_name ge st name stream) (\<lambda>eo. case eo of
       None \<Rightarrow> related_scores ge st hops stream names m
     | Some e \<Rightarrow>
         rbind (if hops \<ge> 1 then get_neighbors ge st (nd_id e) else Inr []) (\<lambda>near.
         rbind (if hops \<ge> 2 then get_neighbors_2hop ge st (nd_id e) else Inr []) (\<lambda>far.
           related_scores ge st hops stream names
             (fold (\<lambda>(_, n). add_chunks (1/4) n) far
               (fold (\<lambda>(_, n). add_chunks (1/2) n) near (add_chunks 1 e m))))))"

definition find_related_chunks :: "graph_env \<Rightarrow> store \<Rightarrow> string list \<Rightarrow> nat \<Rightarrow> string \<Rightarrow> (string \<rightharpoonup> rat) res" where
  "find_related_chunks ge st names max_hops stream = related_scores ge st max_hops stream names Map.empty"

text \<open>The entities shown for a chunk, and the numbers of entities and edges shown per stream.\<close>

definition entity_ids_for_chunk :: "graph_env \<Rightarrow> store \<Rightarrow> chunk \<Rightarrow> string list" where
  "entity_ids_for_chunk ge st c =
     map nd_id
       (filter (\<lambda>e. nd_stream e = ch_stream c \<and> ch_id c \<in> set (nd_chunks e))
         (List.map_filter (\<lambda>i. case get_live_entity_by_id ge st i of Inr eo \<Rightarrow> eo | Inl _ \<Rightarrow> None)
           (case get_entities_for_chunk ge st (ch_id c) of Inr ids \<Rightarrow> ids | Inl _ \<Rightarrow> [])))"

fun count_new_edges :: "(graph_edge \<times> entity_node) list \<Rightarrow> string set \<Rightarrow> nat \<times> string set" where
  "count_new_edges [] seen = (0, seen)"
| "count_new_edges ((e, _) # ns) seen =
     (let (k, seen') = count_new_edges ns (insert (ed_id e) seen)
      in (if ed_id e \<in> seen then k else Suc k, seen'))"

fun count_visible ::
  "graph_env \<Rightarrow> store \<Rightarrow> entity_node list \<Rightarrow> (string \<rightharpoonup> nat \<times> nat) \<Rightarrow> string set \<Rightarrow> (string \<rightharpoonup> nat \<times> nat)" where
  "count_visible ge st [] m seen = m"
| "count_visible ge st (e # es) m seen =
     (let (n, k) = (case m (nd_stream e) of None \<Rightarrow> (0, 0) | Some c \<Rightarrow> c);
          (new, seen') = (case get_live_neighbors ge st (nd_id e) of
                            Inr ns \<Rightarrow> count_new_edges ns seen | Inl _ \<Rightarrow> (0, seen))
      in count_visible ge st es (m(nd_stream e \<mapsto> (Suc n, k + new))) seen')"

definition visible_counts :: "graph_env \<Rightarrow> store \<Rightarrow> (string \<rightharpoonup> nat \<times> nat)" where
  "visible_counts ge st = count_visible ge st (visible_entities ge st) Map.empty {}"

section \<open>Publishing\<close>

fun label_owners_at :: "graph_env \<Rightarrow> store \<Rightarrow> string \<Rightarrow> string list \<Rightarrow> string set \<Rightarrow> string set res" where
  "label_owners_at ge st stream [] owners = Inr owners"
| "label_owners_at ge st stream (key # keys) owners =
     (case get_string st key of
        None \<Rightarrow> label_owners_at ge st stream keys owners
      | Some i \<Rightarrow>
          (case get_entity_by_id ge st i of
             Some n \<Rightarrow>
               rbind (ensure (nd_stream n = stream) ''Graph index crosses streams'') (\<lambda>_.
                 label_owners_at ge st stream keys (insert i owners))
           | None \<Rightarrow>
               rbind (ensure (\<not> entity_key_present st i) ''Graph index target unreadable'') (\<lambda>_.
                 label_owners_at ge st stream keys owners)))"

fun label_owners :: "graph_env \<Rightarrow> store \<Rightarrow> string \<Rightarrow> string list \<Rightarrow> string set \<Rightarrow> string set res" where
  "label_owners ge st stream [] owners = Inr owners"
| "label_owners ge st stream (label # labels) owners =
     rbind (ge_token ge stream label) (\<lambda>token.
     rbind (label_owners_at ge st stream
              [name_key (stream_prefix stream) token, alias_key (stream_prefix stream) token] owners) (\<lambda>owners'.
       label_owners ge st stream labels owners'))"

definition check_label_owners :: "graph_env \<Rightarrow> store \<Rightarrow> label_claim \<Rightarrow> string \<Rightarrow> unit res" where
  "check_label_owners ge st claim stream =
     rbind (label_owners ge st stream (lc_name claim # lc_aliases claim) {}) (\<lambda>owners.
       ensure (card owners \<le> 1) ''Graph label collision across entities'')"

definition retain_claim_name :: "graph_env \<Rightarrow> nat \<Rightarrow> entity_node \<Rightarrow> string \<Rightarrow> entity_node gm" where
  "retain_claim_name ge now e name =
     (if ge_lower ge (nd_name e) = ge_lower ge name then gret e
      else merge_aliases_if_new ge now e (stream_prefix (nd_stream e)) [name])"

definition index_claim :: "graph_env \<Rightarrow> entity_node \<Rightarrow> label_claim \<Rightarrow> unit gm" where
  "index_claim ge e claim =
     geach (\<lambda>label. gbind (name_token ge (nd_stream e) label) (\<lambda>token.
              put_string (alias_key (stream_prefix (nd_stream e)) token) (nd_id e)))
       (lc_name claim # lc_aliases claim)"

definition empty_label_claims :: label_claims where
  "empty_label_claims = \<lparr>lk_version = 0, lk_owner = [], lk_chunk = [], lk_stream = [], lk_fingerprint = [],
     lk_claims = []\<rparr>"

definition empty_relation_claims :: relation_claims where
  "empty_relation_claims = \<lparr>rk_version = 0, rk_owner = [], rk_chunk = [], rk_stream = [], rk_fingerprint = [],
     rk_relations = {}\<rparr>"

definition store_label_claim :: "graph_env \<Rightarrow> entity_node \<Rightarrow> chunk \<Rightarrow> label_claim \<Rightarrow> unit gm" where
  "store_label_claim ge e c claim =
     gbind (gread (\<lambda>st. read_claim (ge_labels_de ge) st (label_key (nd_id e) (ch_id c)) (ch_stream c))) (\<lambda>ex.
     gbind (case ex of
              None \<Rightarrow> gret ()
            | Some k \<Rightarrow>
                gbind (gensure (lk_version k = 1) ''Unsupported graph contribution version'') (\<lambda>_.
                  gread (\<lambda>st. validate_binding (nd_id e) c (lk_owner k) (lk_chunk k) (lk_stream k)))) (\<lambda>_.
     gbind (gread (\<lambda>st. Inr (support_fingerprint ge st c))) (\<lambda>fp.
       let k = (case ex of None \<Rightarrow> empty_label_claims | Some k \<Rightarrow> k);
           k = (if lk_fingerprint k \<noteq> fp then empty_label_claims else k);
           k' = \<lparr>lk_version = 1, lk_owner = nd_id e, lk_chunk = ch_id c, lk_stream = ch_stream c,
                 lk_fingerprint = fp,
                 lk_claims = (if claim \<in> set (lk_claims k) then lk_claims k else lk_claims k @ [claim])\<rparr>
       in write_claim (label_key (nd_id e) (ch_id c)) (ch_stream c) (ge_labels_ser ge k'))))"

definition store_relation_claim :: "graph_env \<Rightarrow> graph_edge \<Rightarrow> chunk \<Rightarrow> string \<Rightarrow> unit gm" where
  "store_relation_claim ge edge c relation =
     gbind (gread (\<lambda>st. read_claim (ge_rels_de ge) st (relation_key (ed_id edge) (ch_id c)) (ch_stream c))) (\<lambda>ex.
     gbind (case ex of
              None \<Rightarrow> gret ()
            | Some k \<Rightarrow>
                gbind (gensure (rk_version k = 1) ''Unsupported graph relation contribution version'') (\<lambda>_.
                  gread (\<lambda>st. validate_binding (ed_id edge) c (rk_owner k) (rk_chunk k) (rk_stream k)))) (\<lambda>_.
     gbind (gread (\<lambda>st. Inr (support_fingerprint ge st c))) (\<lambda>fp.
       let k = (case ex of None \<Rightarrow> empty_relation_claims | Some k \<Rightarrow> k);
           k = (if rk_fingerprint k \<noteq> fp then empty_relation_claims else k);
           k' = \<lparr>rk_version = 1, rk_owner = ed_id edge, rk_chunk = ch_id c, rk_stream = ch_stream c,
                 rk_fingerprint = fp, rk_relations = insert relation (rk_relations k)\<rparr>
       in write_claim (relation_key (ed_id edge) (ch_id c)) (ch_stream c) (ge_rels_ser ge k'))))"

definition contribution_claim :: "graph_env \<Rightarrow> entity_contribution \<Rightarrow> label_claim" where
  "contribution_claim ge input =
     \<lparr>lc_name = trim (ge_redact ge (ec_name input)), lc_type = trim (ge_redact ge (ec_type input)),
      lc_aliases = filter (\<lambda>a. trim a \<noteq> []) (map (ge_redact ge) (ec_aliases input))\<rparr>"

definition publish_entity_claim :: "graph_env \<Rightarrow> nat \<Rightarrow> string \<Rightarrow> entity_contribution \<Rightarrow> chunk \<Rightarrow> entity_node gm" where
  "publish_entity_claim ge now u input c =
     (let claim = contribution_claim ge input
      in gbind (gensure (lc_name claim \<noteq> [] \<and> lc_type claim \<noteq> []) ''Empty graph label'') (\<lambda>_.
         gbind (gread (\<lambda>st. check_label_owners ge st claim (ec_stream input))) (\<lambda>_.
         gbind (get_or_create_entity ge now u (lc_name claim) (lc_type claim) (lc_aliases claim) (ec_stream input)) (\<lambda>e0.
         gbind (gensure (nd_stream e0 = ec_stream input) ''Graph entity crosses streams'') (\<lambda>_.
         gbind (retain_claim_name ge now e0 (lc_name claim)) (\<lambda>e.
         gbind (store_label_claim ge e c claim) (\<lambda>_.
         gbind (add_chunk_to_entity ge now (nd_id e) (ch_id c)) (\<lambda>_.
         gbind (index_claim ge e claim) (\<lambda>_.
         gread (\<lambda>st. case get_entity_by_id ge st (nd_id e) of
                       None \<Rightarrow> Inl (Err ''Published graph entity missing'')
                     | Some n \<Rightarrow> Inr n))))))))))"

definition publish_entity ::
  "graph_env \<Rightarrow> nat \<Rightarrow> string \<Rightarrow> entity_contribution \<Rightarrow> contribution_target option \<Rightarrow> entity_node gm" where
  "publish_entity ge now u input target =
     gbind (gread (\<lambda>st. contribution_chunk st (ec_chunk input) (ec_stream input) (ec_content input))) (\<lambda>c.
     gbind (gread (\<lambda>st. validate_contribution_target ge st target c)) (\<lambda>_.
       publish_entity_claim ge now u input c))"

definition link_entity :: "graph_env \<Rightarrow> nat \<Rightarrow> string \<Rightarrow> entity_contribution \<Rightarrow> entity_node gm" where
  "link_entity ge now u input = publish_entity ge now u input None"

definition link_entity_if_current ::
  "graph_env \<Rightarrow> nat \<Rightarrow> string \<Rightarrow> entity_contribution \<Rightarrow> contribution_target \<Rightarrow> entity_node gm" where
  "link_entity_if_current ge now u input t = publish_entity ge now u input (Some t)"

definition contributing_endpoint :: "graph_env \<Rightarrow> string \<Rightarrow> chunk \<Rightarrow> unit gm" where
  "contributing_endpoint ge i c =
     gread (\<lambda>st. rbind (get_live_entity_by_id ge st i) (\<lambda>eo. case eo of
       None \<Rightarrow> Inl (Err ''Graph endpoint unsupported'')
     | Some n \<Rightarrow>
         ensure (nd_stream n = ch_stream c \<and> ch_id c \<in> set (nd_chunks n))
           ''Graph endpoint has no matching source support''))"

definition publish_relation_claim :: "graph_env \<Rightarrow> nat \<Rightarrow> string \<Rightarrow> relation_contribution \<Rightarrow> chunk \<Rightarrow> graph_edge gm" where
  "publish_relation_claim ge now u input c =
     gbind (contributing_endpoint ge (rc_source input) c) (\<lambda>_.
     gbind (contributing_endpoint ge (rc_target input) c) (\<lambda>_.
       let relation = relation_label ge (ge_redact ge (rc_relation input))
       in gbind (get_or_create_edge ge now u (rc_source input) (rc_target input) relation (rc_stream input)) (\<lambda>edge.
          gbind (gensure (ed_stream edge = rc_stream input \<and> ed_source edge = rc_source input \<and>
                          ed_target edge = rc_target input \<and> relation_label ge (ed_relation edge) = relation)
                   ''Graph edge does not match contribution'') (\<lambda>_.
          gbind (store_relation_claim ge edge c relation) (\<lambda>_.
          gbind (add_chunk_to_edge ge now (ed_id edge) (ch_id c)) (\<lambda>_.
          gread (\<lambda>st. rbind (get_edge_by_id ge st (ed_id edge)) (\<lambda>eo. case eo of
            None \<Rightarrow> Inl (Err ''Published graph edge missing'')
          | Some e \<Rightarrow> Inr e))))))))"

definition publish_relation ::
  "graph_env \<Rightarrow> nat \<Rightarrow> string \<Rightarrow> relation_contribution \<Rightarrow> contribution_target option \<Rightarrow> graph_edge gm" where
  "publish_relation ge now u input target =
     gbind (gread (\<lambda>st. contribution_chunk st (rc_chunk input) (rc_stream input) (rc_content input))) (\<lambda>c.
     gbind (gread (\<lambda>st. validate_contribution_target ge st target c)) (\<lambda>_.
       publish_relation_claim ge now u input c))"

definition publish_metadata ::
  "graph_env \<Rightarrow> contribution_target \<Rightarrow> (string \<times> string) list \<Rightarrow> (string \<times> string \<times> string) list \<Rightarrow> bool \<Rightarrow> unit gm" where
  "publish_metadata ge target es rs mark_extracted =
     gbind (gread (\<lambda>st. rbind (get_chunk st (ct_chunk target)) (\<lambda>co. case co of
              None \<Rightarrow> Inl (Err ''Graph support missing'')
            | Some c \<Rightarrow>
                rbind (ensure (ch_deleted_at c = None) ''Graph support deleted'') (\<lambda>_.
                rbind (validate_contribution_target ge st (Some target) c) (\<lambda>_. Inr c))))) (\<lambda>c.
     gbind (\<lambda>st. case store_entities st (ch_id c) (ch_stream c)
                          (map (\<lambda>(n, k). (ge_redact ge n, ge_redact ge k)) es) of
                   Inl x \<Rightarrow> (Inl x, st) | Inr st' \<Rightarrow> (Inr (), st')) (\<lambda>_.
     gbind (\<lambda>st. case store_relations st (ch_id c) (ch_stream c)
                          (map (\<lambda>(l, k, r). (ge_redact ge l, ge_redact ge k, ge_redact ge r)) rs) of
                   Inl x \<Rightarrow> (Inl x, st) | Inr st' \<Rightarrow> (Inr (), st')) (\<lambda>_.
       if mark_extracted then put_string (llm_entities_key (ch_id c)) ''1'' else gret ())))"

end
