(* ===== verification/GraphProps.thy ===== *)
theory GraphProps
  imports GraphLabels StoreProps
begin

text \<open>
  What the graph shows and what it refuses: every entity, label and relation that the server shows
  rests on chunks that are live now and on rows bound to their present content, and a contribution
  whose source changed after it was captured writes nothing.
\<close>

section \<open>Evidence\<close>

definition live_in :: "store \<Rightarrow> string \<Rightarrow> string \<Rightarrow> chunk \<Rightarrow> bool" where
  "live_in st i stream c \<longleftrightarrow> get_chunk st i = Inr (Some c) \<and> ch_deleted_at c = None \<and> ch_stream c = stream"

text \<open>
  A label of an entity is attested by a chunk when a contribution row of version 1, bound to the
  entity and the chunk and to the fingerprint of the present content, carries it, or when there is
  no such row and the chunk's own entity row names it.
\<close>

definition attests :: "graph_env \<Rightarrow> store \<Rightarrow> string \<Rightarrow> chunk \<Rightarrow> string \<Rightarrow> bool" where
  "attests ge st owner c label \<longleftrightarrow>
     (\<exists>k x. read_claim (ge_labels_de ge) st (label_key owner (ch_id c)) (ch_stream c) = Inr (Some k) \<and>
        lk_version k = 1 \<and> lk_owner k = owner \<and> lk_chunk k = ch_id c \<and> lk_stream k = ch_stream c \<and>
        lk_fingerprint k = support_fingerprint ge st c \<and>
        x \<in> set (lk_claims k) \<and> label \<in> set (lc_name x # lc_aliases x)) \<or>
     read_claim (ge_labels_de ge) st (label_key owner (ch_id c)) (ch_stream c) = Inr None \<and>
     (\<exists>names. get_entities st (ch_id c) (ch_stream c) = Inr names \<and> label \<in> set names)"

definition attests_relation :: "graph_env \<Rightarrow> store \<Rightarrow> graph_edge \<Rightarrow> chunk \<Rightarrow> bool" where
  "attests_relation ge st edge c \<longleftrightarrow>
     (\<exists>k. read_claim (ge_rels_de ge) st (relation_key (ed_id edge) (ch_id c)) (ch_stream c) = Inr (Some k) \<and>
        rk_version k = 1 \<and> rk_owner k = ed_id edge \<and> rk_chunk k = ch_id c \<and> rk_stream k = ch_stream c \<and>
        rk_fingerprint k = support_fingerprint ge st c \<and> ed_relation edge \<in> rk_relations k) \<or>
     read_claim (ge_rels_de ge) st (relation_key (ed_id edge) (ch_id c)) (ch_stream c) = Inr None \<and>
     (\<exists>rs l kind r. get_relations st (ch_id c) (ch_stream c) = Inr rs \<and> (l, kind, r) \<in> set rs \<and>
        relation_label ge kind = ed_relation edge)"

definition well_supported :: "graph_env \<Rightarrow> store \<Rightarrow> string \<Rightarrow> entity_node \<Rightarrow> bool" where
  "well_supported ge st stream e \<longleftrightarrow>
     nd_stream e = stream \<and> nd_chunks e \<noteq> [] \<and>
     (\<forall>i \<in> set (nd_chunks e). \<exists>c. live_in st i stream c) \<and>
     (\<forall>label \<in> set (nd_name e # nd_aliases e). \<exists>i \<in> set (nd_chunks e). \<exists>c.
        live_in st i stream c \<and> attests ge st (nd_id e) c label)"

section \<open>Projection\<close>

lemma live_chunk_Some: "live_chunk st i stream = Inr (Some c) \<longleftrightarrow> live_in st i stream c"
  by (auto simp: live_chunk_def live_in_def split: option.splits if_splits)

lemma entity_claims_attest:
  assumes "entity_claims ge st e c = Inr xs" "x \<in> set xs" "label \<in> set (lc_name x # lc_aliases x)"
  shows "attests ge st (nd_id e) c label"
proof -
  obtain lo where lo: "read_claim (ge_labels_de ge) st (label_key (nd_id e) (ch_id c)) (ch_stream c) = Inr lo"
    using assms(1) by (auto simp: entity_claims_def)
  show ?thesis
  proof (cases lo)
    case None
    with assms lo obtain names where n: "get_entities st (ch_id c) (ch_stream c) = Inr names"
        "xs = map (\<lambda>n. \<lparr>lc_name = n, lc_type = ''Unknown'', lc_aliases = []\<rparr>) (filter (matches_label ge e) names)"
      by (auto simp: entity_claims_def)
    with assms(2,3) have "label \<in> set names" by auto
    with n lo None show ?thesis unfolding attests_def by blast
  next
    case (Some k)
    with assms(1) lo have "lk_version k = 1" "lk_owner k = nd_id e" "lk_chunk k = ch_id c" "lk_stream k = ch_stream c"
        "xs = (if lk_fingerprint k \<noteq> support_fingerprint ge st c then []
               else filter (\<lambda>x. lc_name x \<noteq> [] \<and> lc_type x \<noteq> []) (lk_claims k))"
      by (auto simp: entity_claims_def validate_binding_def)
    moreover from this(5) assms(2) have "lk_fingerprint k = support_fingerprint ge st c" "x \<in> set (lk_claims k)"
      by (auto split: if_splits)
    ultimately show ?thesis using assms(3) lo Some unfolding attests_def by blast
  qed
qed

lemma collect_claims_supported:
  assumes "collect_claims ge st e is = Inr (claims, supported)"
  shows "set supported \<subseteq> set is \<and>
    (\<forall>i \<in> set supported. \<exists>c. live_in st i (nd_stream e) c) \<and>
    (\<forall>x \<in> set claims. \<forall>label \<in> set (lc_name x # lc_aliases x). \<exists>i \<in> set supported. \<exists>c.
        live_in st i (nd_stream e) c \<and> attests ge st (nd_id e) c label) \<and>
    (claims \<noteq> [] \<longrightarrow> supported \<noteq> [])"
  using assms
proof (induction "is" arbitrary: claims supported)
  case (Cons i "is")
  from Cons.prems obtain co labels claims' supported' where
    p: "live_chunk st i (nd_stream e) = Inr co"
      "(case co of None \<Rightarrow> Inr [] | Some c \<Rightarrow> entity_claims ge st e c) = Inr labels"
      "collect_claims ge st e is = Inr (claims', supported')"
      "claims = labels @ claims'" "supported = (if labels = [] then supported' else i # supported')"
    by (auto split: prod.splits)
  note IH = Cons.IH [OF p(3)]
  show ?case
  proof (cases "labels = []")
    case True
    with IH p(4,5) show ?thesis by auto
  next
    case False
    with p(2) obtain c where c: "co = Some c" "entity_claims ge st e c = Inr labels"
      by (cases co) auto
    then have l: "live_in st i (nd_stream e) c" using p(1) live_chunk_Some by simp
    have "\<forall>x \<in> set labels. \<forall>label \<in> set (lc_name x # lc_aliases x). attests ge st (nd_id e) c label"
      using entity_claims_attest [OF c(2)] by blast
    with IH l p(4,5) False show ?thesis
      by (intro conjI) (simp_all, blast+)
  qed
qed simp

lemma set_insert_claim: "set (insert_claim ge x ys) = insert x (set ys)"
  by (induction ys) auto

lemma set_sort_claims: "set (sort_claims ge xs) = set xs"
  by (induction xs) (auto simp: sort_claims_def set_insert_claim)

lemma apply_claims_labels:
  assumes "claims \<noteq> []" "e' = apply_claims ge e claims"
  shows "nd_id e' = nd_id e \<and> nd_stream e' = nd_stream e \<and>
    (\<forall>label \<in> set (nd_name e' # nd_aliases e'). \<exists>x \<in> set claims. label \<in> set (lc_name x # lc_aliases x))"
proof -
  let ?cs = "sort_claims ge claims"
  let ?can = "case find (\<lambda>x. to_ascii_lowercase (lc_name x) = to_ascii_lowercase (nd_name e)) ?cs of
      Some x \<Rightarrow> x | None \<Rightarrow> hd ?cs"
  have "?cs \<noteq> []" using assms(1) set_sort_claims [of ge claims] by (metis set_empty)
  moreover have "x \<in> set claims" if "find P ?cs = Some x" for P x
    using that set_sort_claims [of ge claims] by (auto simp: find_Some_iff)
  ultimately have "?can \<in> set claims"
    using set_sort_claims [of ge claims] hd_in_set [of ?cs] by (auto split: option.split)
  then show ?thesis
    using assms(2) by (auto simp: apply_claims_def Let_def set_sort_claims)
qed

lemma project_entity_supported:
  assumes "project_entity ge st raw = Inr (Some e)"
  shows "well_supported ge st (nd_stream raw) e \<and> nd_id e = nd_id raw \<and> set (nd_chunks e) \<subseteq> set (nd_chunks raw)"
proof -
  from assms obtain claims supported where
    c: "collect_claims ge st raw (nd_chunks raw) = Inr (claims, supported)" "claims \<noteq> []"
      "e = (apply_claims ge raw claims)\<lparr>nd_chunks := supported\<rparr>"
    by (auto simp: project_entity_def split: if_splits)
  note a = apply_claims_labels [OF c(2) refl, of ge raw]
  note s = collect_claims_supported [OF c(1)]
  have "\<forall>label \<in> set (nd_name e # nd_aliases e). \<exists>i \<in> set (nd_chunks e). \<exists>c.
      live_in st i (nd_stream raw) c \<and> attests ge st (nd_id e) c label"
  proof
    fix label assume "label \<in> set (nd_name e # nd_aliases e)"
    then have "label \<in> set (nd_name (apply_claims ge raw claims) # nd_aliases (apply_claims ge raw claims))"
      by (simp add: c(3))
    then obtain x where "x \<in> set claims" "label \<in> set (lc_name x # lc_aliases x)" using a by blast
    with s obtain i c where "i \<in> set supported" "live_in st i (nd_stream raw) c" "attests ge st (nd_id raw) c label"
      by blast
    then show "\<exists>i \<in> set (nd_chunks e). \<exists>c. live_in st i (nd_stream raw) c \<and> attests ge st (nd_id e) c label"
      using a by (auto simp: c(3))
  qed
  then show ?thesis using a s c by (auto simp: well_supported_def)
qed

lemma supported_ids_mem: "supported_ids f is = Inr js \<Longrightarrow> i \<in> set js \<Longrightarrow> i \<in> set is \<and> f i = Inr True"
  by (induction "is" arbitrary: js) (auto split: if_splits)

lemma relation_supported_attests:
  assumes "relation_supported ge st e t edge i relation = Inr True" "ed_relation edge' = relation" "ed_id edge' = ed_id edge"
  shows "i \<in> set (nd_chunks e) \<and> i \<in> set (nd_chunks t) \<and>
    (\<exists>c. live_in st i (ed_stream edge) c \<and> attests_relation ge st edge' c)"
proof -
  from assms(1) obtain c a where ca: "i \<in> set (nd_chunks e)" "i \<in> set (nd_chunks t)"
      "live_in st i (ed_stream edge) c" "attributed_relation_supported ge st edge c relation = Inr a"
      "(case a of Some b \<Rightarrow> Inr b | None \<Rightarrow> legacy_relation_supported ge st e t edge c relation) = Inr True"
    by (auto simp: relation_supported_def live_chunk_Some [symmetric] split: if_splits option.splits)
  then have c: "attributed_relation_supported ge st edge c relation = Inr (Some True) \<or>
       attributed_relation_supported ge st edge c relation = Inr None \<and>
       legacy_relation_supported ge st e t edge c relation = Inr True"
    by (cases a) auto
  have "attests_relation ge st edge' c"
    using c
  proof
    assume "attributed_relation_supported ge st edge c relation = Inr (Some True)"
    then show ?thesis
      using assms(2,3)
      by (auto simp: attributed_relation_supported_def attests_relation_def validate_binding_def split: option.splits)
  next
    assume "attributed_relation_supported ge st edge c relation = Inr None \<and>
      legacy_relation_supported ge st e t edge c relation = Inr True"
    then show ?thesis
      using assms(2,3)
      by (fastforce simp: attributed_relation_supported_def legacy_relation_supported_def attests_relation_def
          list_ex_iff Let_def split: option.splits if_splits)
  qed
  with ca show ?thesis by blast
qed

lemma supported_entity_id:
  assumes "well_supported ge st s t" "supported_entity st t stream = Some t'"
  shows "t' = t \<and> s = stream"
proof -
  have st: "nd_stream t = stream" "s = stream" using assms by (auto simp: supported_entity_def well_supported_def split: if_splits)
  then have "\<forall>i \<in> set (nd_chunks t). live_support st i stream"
    using assms(1) by (auto simp: well_supported_def live_in_def live_support_def)
  then have "filter (\<lambda>i. live_support st i stream) (nd_chunks t) = nd_chunks t" by (simp add: filter_id_conv)
  with assms(2) st show ?thesis by (simp add: supported_entity_def split: if_splits)
qed

definition neighbor_supported :: "graph_env \<Rightarrow> store \<Rightarrow> entity_node \<Rightarrow> graph_edge \<Rightarrow> entity_node \<Rightarrow> bool" where
  "neighbor_supported ge st e edge t \<longleftrightarrow>
     ed_stream edge = nd_stream e \<and> endpoints_match e edge t \<and> well_supported ge st (nd_stream t) t \<and>
     (\<forall>i \<in> set (ed_chunks edge). i \<in> set (nd_chunks e) \<and> i \<in> set (nd_chunks t) \<and>
        (\<exists>c. live_in st i (nd_stream e) c \<and> attests_relation ge st edge c))"

lemma live_projection:
  assumes "project_entity ge st raw = Inr (Some e)"
  shows "well_supported ge st (nd_stream e) e"
proof -
  from project_entity_supported [OF assms] have w: "well_supported ge st (nd_stream raw) e" by blast
  then have "nd_stream e = nd_stream raw" by (simp add: well_supported_def)
  with w show ?thesis by (simp only:)
qed

lemma project_neighbor_supported:
  assumes "project_neighbor ge st e edge raw = Inr (Some (edge', t))"
  shows "neighbor_supported ge st e edge' t"
proof -
  from assms have same: "ed_stream edge = nd_stream e" "endpoints_match e edge raw"
    by (auto simp: project_neighbor_def split: if_splits)
  with assms obtain support where s: "project_entity ge st raw = Inr (Some t)"
      "supported_ids (\<lambda>i. relation_supported ge st e t edge i (relation_label ge (ed_relation edge))) (ed_chunks edge) = Inr support"
      "edge' = edge\<lparr>ed_chunks := support, ed_relation := relation_label ge (ed_relation edge)\<rparr>"
    by (auto simp: project_neighbor_def Let_def split: option.splits if_splits)
  have "i \<in> set (nd_chunks e) \<and> i \<in> set (nd_chunks t) \<and> (\<exists>c. live_in st i (ed_stream edge) c \<and> attests_relation ge st edge' c)"
    if "i \<in> set support" for i
  proof -
    have "relation_supported ge st e t edge i (relation_label ge (ed_relation edge)) = Inr True"
      using supported_ids_mem [OF s(2) that] by blast
    from relation_supported_attests [OF this, of edge'] show ?thesis by (simp add: s(3))
  qed
  moreover have "endpoints_match e edge' t"
    using project_entity_supported [OF s(1)] same(2) by (auto simp: endpoints_match_def s(3))
  moreover have "well_supported ge st (nd_stream t) t"
    using live_projection [OF s(1)] .
  ultimately show ?thesis using same(1) by (simp add: neighbor_supported_def s(3))
qed

lemma project_neighbors_supported:
  "project_neighbors ge st e ns = Inr out \<Longrightarrow> (edge, t) \<in> set out \<Longrightarrow> neighbor_supported ge st e edge t"
proof (induction ns arbitrary: out)
  case (Cons n ns)
  then show ?case
    using project_neighbor_supported [of ge st e "fst n" "snd n"] by (cases n) (auto split: option.splits)
qed simp

text \<open>C20. Whatever rows the graph holds, an entity is shown only in its own stream and only with evidence:
  it lists at least one chunk, every listed chunk is live in the stream, and its name and every alias are
  attested by one of them. A relation is shown only between such entities, and every chunk it lists is
  live, listed by both ends and attests the relation.\<close>

theorem visible_graph_supported:
  assumes "find_visible ge st name stream = Inr (Some (e, ns))"
  shows "well_supported ge st stream e \<and> matches_label ge e name \<and>
    (\<forall>(edge, t) \<in> set ns.
       ed_stream edge = stream \<and> endpoints_match e edge t \<and> well_supported ge st stream t \<and> ed_chunks edge \<noteq> [] \<and>
       (\<forall>i \<in> set (ed_chunks edge). i \<in> set (nd_chunks e) \<and> i \<in> set (nd_chunks t) \<and>
          (\<exists>c. live_in st i stream c \<and> attests_relation ge st edge c)))"
proof -
  from assms obtain e0 live where f: "get_live_entity_by_name ge st name stream = Inr (Some e0)"
      "supported_entity st e0 stream = Some e" "get_live_neighbors ge st (nd_id e) = Inr live"
      "ns = List.map_filter (supported_neighbor st e) live"
  proof -
    obtain eo where eo: "get_live_entity_by_name ge st name stream = Inr eo"
      using assms by (auto simp: find_visible_def)
    with assms have v: "(case Option.bind eo (\<lambda>e. supported_entity st e stream) of None \<Rightarrow> Inr None
        | Some e \<Rightarrow> rbind (get_live_neighbors ge st (nd_id e)) (\<lambda>ns.
            Inr (Some (e, List.map_filter (supported_neighbor st e) ns)))) = Inr (Some (e, ns))"
      by (simp add: find_visible_def)
    then obtain e0 where e0: "eo = Some e0" by (cases eo) auto
    with v have "supported_entity st e0 stream = Some e" by (auto split: option.splits)
    with v e0 that [of e0] eo show thesis by auto
  qed
  from f(1) obtain raw where p: "project_entity ge st raw = Inr (Some e0)" "nd_stream e0 = stream" "matches_label ge e0 name"
    by (auto simp: get_live_entity_by_name_def split: option.splits if_splits)
  have w: "well_supported ge st (nd_stream raw) e0" using project_entity_supported [OF p(1)] by blast
  have eq: "e = e0" "nd_stream raw = stream" using supported_entity_id [OF w f(2)] by blast+
  have e: "e = e0" "well_supported ge st stream e" using w eq by (simp_all only:)
  have "ed_stream edge = stream \<and> endpoints_match e edge t \<and> well_supported ge st stream t \<and> ed_chunks edge \<noteq> [] \<and>
       (\<forall>i \<in> set (ed_chunks edge). i \<in> set (nd_chunks e) \<and> i \<in> set (nd_chunks t) \<and>
          (\<exists>c. live_in st i stream c \<and> attests_relation ge st edge c))"
    if "(edge, t) \<in> set ns" for edge t
  proof -
    from that f(4) obtain edge0 t0 where n: "(edge0, t0) \<in> set live" "supported_neighbor st e (edge0, t0) = Some (edge, t)"
      by (auto simp: List.map_filter_def)
    from f(3) n(1) obtain e2 where "get_live_entity_by_id ge st (nd_id e) = Inr (Some e2)"
        "neighbor_supported ge st e2 edge0 t0"
      by (auto simp: get_live_neighbors_def dest: project_neighbors_supported split: option.splits)
    then have ns: "ed_stream edge0 = nd_stream e2" "well_supported ge st (nd_stream t0) t0"
        "\<And>i. i \<in> set (ed_chunks edge0) \<Longrightarrow> \<exists>c. live_in st i (nd_stream e2) c \<and> attests_relation ge st edge0 c"
      by (auto simp: neighbor_supported_def)
    from n(2) have s: "ed_stream edge0 = nd_stream e" "endpoints_match e edge0 t0" "supported_entity st t0 (nd_stream e) = Some t"
        "edge = edge0\<lparr>ed_chunks := filter (\<lambda>i. i \<in> set (nd_chunks e) \<and> i \<in> set (nd_chunks t)) (ed_chunks edge0)\<rparr>"
        "ed_chunks edge \<noteq> []"
      by (auto simp: supported_neighbor_def Let_def split: if_splits option.splits)
    have str: "nd_stream e = stream" using e(2) by (simp add: well_supported_def)
    have teq: "t = t0" "nd_stream t0 = nd_stream e" using supported_entity_id [OF ns(2) s(3)] by blast+
    have t: "t = t0" "well_supported ge st stream t" using ns(2) teq str by (simp_all only:)
    have att: "attests_relation ge st edge c \<longleftrightarrow> attests_relation ge st edge0 c" for c
      by (simp add: attests_relation_def s(4))
    show ?thesis
      using s ns t str att by (auto simp: endpoints_match_def)
  qed
  then show ?thesis using e p(3) by blast
qed

section \<open>Contributions of an obsolete source\<close>

definition plain_generation :: "row option \<Rightarrow> bool" where
  "plain_generation g \<longleftrightarrow> (\<forall>r. g = Some r \<longrightarrow> (\<exists>b. r = VBytes b))"

lemma fingerprint_bytes_inj:
  assumes "plain_generation g" "plain_generation g'" "fingerprint_bytes content g = fingerprint_bytes content g'"
  shows "g = g'"
  using assms by (cases g; cases g') (auto simp: plain_generation_def fingerprint_bytes_def)

lemma contribution_chunk_Inr:
  "contribution_chunk st i stream content = Inr c \<longleftrightarrow>
     get_chunk st i = Inr (Some c) \<and> ch_deleted_at c = None \<and> ch_stream c = stream \<and> ch_content c = content"
  by (auto simp: contribution_chunk_def split: option.splits)

lemma stale_target:
  assumes "stale g i s" "contribution_chunk s i stream content = Inr c" "ch_id c = i"
    "ct_fingerprint t = ge_hash ge (fingerprint_bytes content g)" "plain_generation g" "plain_generation (gen s i)"
    "\<nexists>x y. x \<noteq> y \<and> ge_hash ge x = ge_hash ge y"
  shows "\<exists>e. validate_contribution_target ge s (Some t) c = Inl e"
proof -
  have c: "ch_content c = content" "get_chunk s i = Inr (Some c)"
    using assms(2) by (simp_all add: contribution_chunk_Inr)
  then have "gen s i \<noteq> g" using assms(1) by (simp add: stale_def)
  then have "fingerprint_bytes content (gen s i) \<noteq> fingerprint_bytes content g"
    using fingerprint_bytes_inj assms(5,6) by blast
  then have "ct_fingerprint t \<noteq> support_fingerprint ge s c"
    using assms(3,4,7) c(1) unfolding support_fingerprint_def gen_def by metis
  then show ?thesis by (simp add: validate_contribution_target_def ensure_def)
qed


section \<open>Witnesses\<close>

definition w_node :: "string \<Rightarrow> string \<Rightarrow> entity_node" where
  "w_node i name = \<lparr>nd_id = i, nd_name = name, nd_type = ''Person'', nd_aliases = [], nd_chunks = [w_id],
     nd_stream = ''s'', nd_created = 0, nd_updated = 0\<rparr>"

definition w_edge :: graph_edge where
  "w_edge = \<lparr>ed_id = ''d'', ed_source = ''e'', ed_target = ''f'', ed_relation = ''uses'', ed_chunks = [w_id],
     ed_stream = ''s'', ed_created = 0, ed_updated = 0\<rparr>"

definition w_claims :: "string \<Rightarrow> string \<Rightarrow> label_claims" where
  "w_claims i name = \<lparr>lk_version = 1, lk_owner = i, lk_chunk = w_id, lk_stream = ''s'',
     lk_fingerprint = fingerprint_bytes ''text'' None,
     lk_claims = [\<lparr>lc_name = name, lc_type = ''Person'', lc_aliases = []\<rparr>]\<rparr>"

definition w_rels :: relation_claims where
  "w_rels = \<lparr>rk_version = 1, rk_owner = ''d'', rk_chunk = w_id, rk_stream = ''s'',
     rk_fingerprint = fingerprint_bytes ''text'' None, rk_relations = {''uses''}\<rparr>"

definition w_ge :: graph_env where
  "w_ge = \<lparr>ge_node_ser = (\<lambda>x. []),
     ge_node_de = (\<lambda>b. if b = ''e'' then Some (w_node ''e'' ''bob'', []) else if b = ''f'' then Some (w_node ''f'' ''rust'', []) else None),
     ge_pair_ser = (\<lambda>x. []), ge_pair_de = (\<lambda>b. None),
     ge_edge_ser = (\<lambda>x. []), ge_edge_de = (\<lambda>b. Some w_edge),
     ge_ids_ser = (\<lambda>x. []), ge_ids_de = (\<lambda>b. None),
     ge_labels_ser = (\<lambda>x. []),
     ge_labels_de = (\<lambda>b. Some (if b = ''e'' then w_claims ''e'' ''bob'' else w_claims ''f'' ''rust'')),
     ge_rels_ser = (\<lambda>x. []), ge_rels_de = (\<lambda>b. Some w_rels),
     ge_token = (\<lambda>s name. Inr (to_ascii_lowercase name)), ge_lower = to_ascii_lowercase, ge_hash = (\<lambda>x. x), ge_redact = (\<lambda>x. x)\<rparr>"

definition w_graph :: store where
  "w_graph = (w_store w_source)\<lparr>st_db := st_db (w_store w_source) @
     [(''graph:adj:e:d'', VBytes ''f''), (''graph:edge:d'', VBytes ''d''),
      (relation_key ''d'' w_id, VBytes ''r''),
      (''graph:entity:e'', VBytes ''e''), (''graph:entity:f'', VBytes ''f''),
      (label_key ''e'' w_id, VBytes ''e''), (label_key ''f'' w_id, VBytes ''f''),
      (''graph:s:s:name:bob'', VBytes ''e'')]\<rparr>"

lemma w_graph_rows:
  "kv_get (st_db w_graph) (node_key ''e'') = Some (VBytes ''e'')"
  "kv_get (st_db w_graph) (node_key ''f'') = Some (VBytes ''f'')"
  "kv_get (st_db w_graph) (edge_key ''d'') = Some (VBytes ''d'')"
  "kv_get (st_db w_graph) (label_key ''e'' w_id) = Some (VBytes ''e'')"
  "kv_get (st_db w_graph) (label_key ''f'' w_id) = Some (VBytes ''f'')"
  "kv_get (st_db w_graph) (relation_key ''d'' w_id) = Some (VBytes ''r'')"
  "kv_get (st_db w_graph) (generation_key w_id) = None"
  "kv_get (st_db w_graph) (name_key (stream_prefix ''s'') ''bob'') = Some (VBytes ''e'')"
  "kv_get (st_db w_graph) (chunk_key lv i) = kv_get (st_db (w_store w_source)) (chunk_key lv i)"
  "st_prov w_graph = w_provider"
  by (simp_all add: w_graph_def w_store_def chunk_key_def node_key_def edge_key_def label_key_def relation_key_def
      generation_key_def name_key_def stream_prefix_def)

lemma w_source_ids: "ch_id w_source = w_id" "ch_stream w_source = ''s''"
  by (simp_all add: w_source_def w_chunk_def)

lemma w_node_sel: "nd_chunks (w_node i n) = [w_id]" "nd_stream (w_node i n) = ''s''" "nd_id (w_node i n) = i"
  "nd_name (w_node i n) = n" "nd_aliases (w_node i n) = []"
  by (simp_all add: w_node_def)

lemma w_ge_sel: "ge_labels_de w_ge b = Some (if b = ''e'' then w_claims ''e'' ''bob'' else w_claims ''f'' ''rust'')"
  "ge_rels_de w_ge b = Some w_rels" "ge_lower w_ge = to_ascii_lowercase" "ge_token w_ge s n = Inr (to_ascii_lowercase n)"
  by (simp_all add: w_ge_def)

lemma get_chunk_graph: "get_chunk w_graph i = get_chunk (w_store w_source) i"
  by (rule get_chunk_cong) (simp add: w_graph_rows w_store_def, simp add: w_graph_rows)


theorem visible_graph_supported_witness:
  "\<exists>e ns. find_visible w_ge w_graph ''Bob'' ''s'' = Inr (Some (e, ns)) \<and> ns \<noteq> [] \<and> well_supported w_ge w_graph ''s'' e"
proof -
  have src: "live_chunk w_graph w_id ''s'' = Inr (Some w_source)"
    by (simp add: live_chunk_def get_chunk_graph w_source_def w_chunk_def)
  have bob: "get_entity_by_id w_ge w_graph ''e'' = Some (w_node ''e'' ''bob'')"
    by (simp add: get_entity_by_id_def w_graph_rows decode_entity_def w_ge_def)
  have rust: "get_entity_by_id w_ge w_graph ''f'' = Some (w_node ''f'' ''rust'')"
    by (simp add: get_entity_by_id_def w_graph_rows decode_entity_def w_ge_def)
  have d: "get_edge_by_id w_ge w_graph ''d'' = Inr (Some w_edge)"
    by (simp add: get_edge_by_id_def w_graph_rows w_ge_def)
  have fp: "support_fingerprint w_ge w_graph w_source = fingerprint_bytes ''text'' None"
    by (simp add: support_fingerprint_def w_graph_rows w_source_def w_chunk_def w_ge_def)
  have cl: "entity_claims w_ge w_graph (w_node ''e'' ''bob'') w_source = Inr [\<lparr>lc_name = ''bob'', lc_type = ''Person'', lc_aliases = []\<rparr>]"
     "entity_claims w_ge w_graph (w_node ''f'' ''rust'') w_source = Inr [\<lparr>lc_name = ''rust'', lc_type = ''Person'', lc_aliases = []\<rparr>]"
    by (simp_all add: entity_claims_def read_claim_def w_node_sel w_graph_rows w_source_ids w_provider_def fp ensure_def
        validate_binding_def w_ge_sel w_claims_def)
  have pe: "project_entity w_ge w_graph (w_node ''e'' ''bob'') = Inr (Some (w_node ''e'' ''bob''))"
    "project_entity w_ge w_graph (w_node ''f'' ''rust'') = Inr (Some (w_node ''f'' ''rust''))"
    by (simp_all add: project_entity_def w_node_sel src cl apply_claims_def sort_claims_def)
       (simp_all add: w_node_def Let_def to_ascii_lowercase_def)
  have key: "from_utf8_lossy ''graph:adj:e:d'' = ''graph:adj:e:d''"
    by code_simp
  have adj: "scanned_ids (adj_prefix ''e'') w_graph = [''d'']" "scanned_ids (radj_prefix ''e'') w_graph = []"
    unfolding scanned_ids_def w_graph_def w_store_def kv_prefix_def adj_prefix_def radj_prefix_def node_key_def
      relation_key_def label_key_def chunk_key_def
    by (simp_all add: List.map_filter_def key del: from_utf8_lossy.simps)
  have ns: "get_neighbors w_ge w_graph ''e'' = Inr [(w_edge, w_node ''f'' ''rust'')]"
    by (simp add: get_neighbors_def adj d) (simp add: w_edge_def rust)
  have rs: "relation_supported w_ge w_graph (w_node ''e'' ''bob'') (w_node ''f'' ''rust'') w_edge w_id ''uses'' = Inr True"
    by (simp add: relation_supported_def w_node_sel w_edge_def src attributed_relation_supported_def read_claim_def
       w_graph_rows w_source_ids w_provider_def fp ensure_def validate_binding_def w_ge_sel w_rels_def)
  have rl: "relation_label w_ge ''uses'' = ''uses''"
    by (simp add: relation_label_def w_ge_sel) code_simp
  have pn: "project_neighbors w_ge w_graph (w_node ''e'' ''bob'') [(w_edge, w_node ''f'' ''rust'')] =
      Inr [(w_edge, w_node ''f'' ''rust'')]"
    using rs by (simp add: project_neighbor_def w_node_sel endpoints_match_def pe w_edge_def rl)
  have low: "to_ascii_lowercase ''Bob'' = ''bob''" "to_ascii_lowercase ''bob'' = ''bob''" "from_utf8_lossy ''e'' = ''e''"
    by code_simp+
  have by_name: "get_entity_by_name w_ge w_graph ''Bob'' ''s'' = Inr (Some (w_node ''e'' ''bob''))"
    by (simp add: get_entity_by_name_def w_ge_sel low get_string_def w_graph_rows bob del: from_utf8_lossy.simps)
  have live: "get_live_entity_by_name w_ge w_graph ''Bob'' ''s'' = Inr (Some (w_node ''e'' ''bob''))"
    by (simp add: get_live_entity_by_name_def by_name pe matches_label_def w_ge_sel w_node_sel low)
  have lns: "get_live_neighbors w_ge w_graph ''e'' = Inr [(w_edge, w_node ''f'' ''rust'')]"
    using pn by (simp add: get_live_neighbors_def get_live_entity_by_id_def bob pe ns)
  have sup: "live_support w_graph w_id ''s''"
    by (simp add: live_support_def get_chunk_graph w_source_def w_chunk_def)
  have se: "supported_entity w_graph (w_node i n) ''s'' = Some (w_node i n)" for i n
    by (simp add: supported_entity_def w_node_def sup)
  have sn: "supported_neighbor w_graph (w_node ''e'' ''bob'') (w_edge, w_node ''f'' ''rust'') = Some (w_edge, w_node ''f'' ''rust'')"
    by (simp add: supported_neighbor_def w_node_sel se endpoints_match_def w_edge_def)
  have "find_visible w_ge w_graph ''Bob'' ''s'' = Inr (Some (w_node ''e'' ''bob'', [(w_edge, w_node ''f'' ''rust'')]))"
    by (simp add: find_visible_def live se w_node_sel lns List.map_filter_def sn)
  with visible_graph_supported [OF this] show ?thesis by blast
qed

end
