(* ===== verification/WritePhase.thy ===== *)
theory WritePhase
  imports Prelude
begin

text \<open>
  The cooperative revocation boundary of background work
  (\<^verbatim>\<open>loomem-server/src/handlers/ingest/write_phase.rs\<close>, \<^verbatim>\<open>loomem-core/src/apply_guard.rs\<close>). Every
  tracked task owns a phase behind a mutex; each operation below is one critical section of it. A task
  runs through its operations in any order its program chooses, so the tasks of this model choose
  freely: they open and close an apply section, enter the durable phase, pass a checkpoint, write,
  or end. The test-only holds inside the phases only delay a task and are not modelled.
\<close>

section \<open>The phase\<close>

datatype phase = Pending | Applying | Durable | PhaseRevoked

record write_phase =
  wp_phase :: phase
  wp_revoke_requested :: bool

definition new_phase :: write_phase where
  "new_phase = \<lparr>wp_phase = Pending, wp_revoke_requested = False\<rparr>"

definition revoked :: "write_phase \<Rightarrow> bool" where
  "revoked w \<longleftrightarrow> wp_phase w = PhaseRevoked \<or> wp_revoke_requested w"

definition enter_durable :: "write_phase \<Rightarrow> string + write_phase" where
  "enter_durable w =
     (if revoked w then Inl ''scope revoked before durable write'' else Inr (w\<lparr>wp_phase := Durable\<rparr>))"

text \<open>The answer tells whether the task may be aborted.\<close>

definition revoke_phase :: "write_phase \<Rightarrow> bool \<times> write_phase" where
  "revoke_phase w =
     (case wp_phase w of
        Durable \<Rightarrow> (False, w)
      | Applying \<Rightarrow> (False, w\<lparr>wp_revoke_requested := True\<rparr>)
      | _ \<Rightarrow> (True, w\<lparr>wp_phase := PhaseRevoked\<rparr>))"

definition begin_apply :: "write_phase \<Rightarrow> string + write_phase" where
  "begin_apply w =
     (if revoked w then Inl ''scope revoked before apply section''
      else Inr (if wp_phase w = Pending then w\<lparr>wp_phase := Applying\<rparr> else w))"

definition end_apply :: "write_phase \<Rightarrow> write_phase" where
  "end_apply w =
     (if wp_phase w = Applying
      then w\<lparr>wp_phase := if wp_revoke_requested w then PhaseRevoked else Pending\<rparr> else w)"

definition checkpoint :: "write_phase \<Rightarrow> string + unit" where
  "checkpoint w =
     (if revoked w then Inl ''scope revoked; stopping before the next apply section'' else Inr ())"

section \<open>Tasks\<close>

text \<open>
  A tracked task: the scope and epoch it was accepted under, its phase, whether it stands inside an
  apply section or past the durable mark, whether \<^verbatim>\<open>abort\<close> was called on it, and whether it has ended.
  An ended task that was cancelled keeps the place where the cancellation met it.
\<close>

datatype task_end = Running | Ended | Cancelled | Panicked

record task =
  tk_scope :: string
  tk_epoch :: int
  tk_phase :: write_phase
  tk_section :: bool
  tk_durable :: bool
  tk_abort :: bool
  tk_end :: task_end

definition new_task :: "string \<Rightarrow> int \<Rightarrow> task" where
  "new_task s e = \<lparr>tk_scope = s, tk_epoch = e, tk_phase = new_phase, tk_section = False,
     tk_durable = False, tk_abort = False, tk_end = Running\<rparr>"

text \<open>Dropping the section guard, which every end of the task does.\<close>

definition leave_section :: "task \<Rightarrow> task" where
  "leave_section t =
     (if tk_section t then t\<lparr>tk_section := False, tk_phase := end_apply (tk_phase t)\<rparr> else t)"

definition end_task :: "task \<Rightarrow> task" where
  "end_task t = (leave_section t)\<lparr>tk_end := Ended\<rparr>"

datatype task_act = ABegin | AEnd | ADurable | ACheckpoint | AWrite | AFinish | APanic | ACancel

text \<open>
  One step of a task. An error of the phase ends the task; a second section is never opened inside
  a first one. \<open>AWrite\<close> stands for any change of the scope's data, and \<open>ACancel\<close> for the point where
  an aborted task is dropped.
\<close>

fun task_step :: "task_act \<Rightarrow> task \<Rightarrow> task option" where
  "task_step ABegin t =
     (if tk_end t \<noteq> Running \<or> tk_section t then None
      else case begin_apply (tk_phase t) of
             Inl _ \<Rightarrow> Some (end_task t)
           | Inr w \<Rightarrow> Some (t\<lparr>tk_phase := w, tk_section := True\<rparr>))"
| "task_step AEnd t = (if tk_end t \<noteq> Running \<or> \<not> tk_section t then None else Some (leave_section t))"
| "task_step ADurable t =
     (if tk_end t \<noteq> Running then None
      else case enter_durable (tk_phase t) of
             Inl _ \<Rightarrow> Some (end_task t)
           | Inr w \<Rightarrow> Some (t\<lparr>tk_phase := w, tk_durable := True\<rparr>))"
| "task_step ACheckpoint t =
     (if tk_end t \<noteq> Running then None
      else case checkpoint (tk_phase t) of Inl _ \<Rightarrow> Some (end_task t) | Inr _ \<Rightarrow> Some t)"
| "task_step AWrite t = (if tk_end t \<noteq> Running then None else Some t)"
| "task_step AFinish t = (if tk_end t \<noteq> Running then None else Some (end_task t))"
| "task_step APanic t = (if tk_end t \<noteq> Running then None else Some ((leave_section t)\<lparr>tk_end := Panicked\<rparr>))"
| "task_step ACancel t =
     (if tk_end t \<noteq> Running \<or> \<not> tk_abort t then None else Some (t\<lparr>tk_end := Cancelled\<rparr>))"

text \<open>Revoking a task: it is aborted only when its phase says so.\<close>

definition revoke_task :: "task \<Rightarrow> task" where
  "revoke_task t =
     (case revoke_phase (tk_phase t) of
        (a, w) \<Rightarrow> t\<lparr>tk_phase := w, tk_abort := tk_abort t \<or> a\<rparr>)"

section \<open>Sections are never cut\<close>

text \<open>The mutex and the place of a task agree, and an aborted task stands between its sections.\<close>

definition task_ok :: "task \<Rightarrow> bool" where
  "task_ok t \<longleftrightarrow>
     (tk_durable t \<longleftrightarrow> wp_phase (tk_phase t) = Durable) \<and>
     (tk_end t = Running \<and> tk_section t \<and> \<not> tk_durable t \<longleftrightarrow> wp_phase (tk_phase t) = Applying) \<and>
     (wp_revoke_requested (tk_phase t) \<longrightarrow> wp_phase (tk_phase t) \<in> {Applying, PhaseRevoked}) \<and>
     (tk_abort t \<longrightarrow> wp_phase (tk_phase t) = PhaseRevoked) \<and>
     (tk_end t = Cancelled \<longrightarrow> \<not> tk_section t \<and> \<not> tk_durable t)"

lemmas phase_defs = revoked_def enter_durable_def revoke_phase_def begin_apply_def end_apply_def
  checkpoint_def leave_section_def end_task_def revoke_task_def

lemma task_ok_new [simp]: "task_ok (new_task s e)"
  by (simp add: task_ok_def new_task_def new_phase_def)

lemma task_ok_step:
  assumes "task_ok t" "task_step a t = Some t'"
  shows "task_ok t'"
  using assms
  by (cases a; cases "wp_phase (tk_phase t)"; cases "tk_end t")
    (auto simp: task_ok_def phase_defs split: if_splits)

lemma task_ok_revoke: "task_ok t \<Longrightarrow> task_ok (revoke_task t)"
  by (cases "wp_phase (tk_phase t)"; cases "tk_end t") (auto simp: task_ok_def phase_defs)

lemma task_step_keeps:
  "task_step a t = Some t' \<Longrightarrow> tk_scope t' = tk_scope t \<and> tk_epoch t' = tk_epoch t \<and> tk_end t = Running"
  by (cases a) (auto simp: phase_defs split: if_splits sum.splits)

lemma revoke_task_keeps [simp]:
  "tk_scope (revoke_task t) = tk_scope t" "tk_epoch (revoke_task t) = tk_epoch t" "tk_end (revoke_task t) = tk_end t"
  by (simp_all add: revoke_task_def split: prod.split)

lemma cancel_between_sections:
  assumes "task_ok t" "task_step ACancel t = Some t'"
  shows "\<not> tk_section t \<and> \<not> tk_durable t"
  using assms by (cases "wp_phase (tk_phase t)") (auto simp: task_ok_def split: if_splits)

text \<open>A revoked task that is not durable neither opens a section, nor enters the durable phase, nor
  passes a checkpoint; a durable one is not stopped by its checkpoints.\<close>

lemma revoked_task_stops:
  assumes "task_ok t" "tk_end t = Running" "\<not> tk_durable t" "\<not> tk_section t" "a \<in> {ABegin, ADurable, ACheckpoint}"
  shows "\<exists>t'. task_step a (revoke_task t) = Some t' \<and> tk_end t' = Ended"
  using assms by (cases "wp_phase (tk_phase t)") (auto simp: task_ok_def phase_defs)

lemma durable_task_unaffected:
  assumes "task_ok t" "tk_durable t"
  shows "revoke_task t = t"
  using assms by (auto simp: task_ok_def phase_defs)

end
