(* ===== verification/Scheduler.thy ===== *)
theory Scheduler
  imports Prelude
begin

text \<open>
  The control state of the background scheduler (\<^verbatim>\<open>loomem-core/src/scheduler.rs\<close>,
  \<^verbatim>\<open>workers_registry.rs\<close>): one running flag per worker, the check and the start of a tick, the end of a
  run, and what the shutdown waits for. A tick reads the flag and, in a second atomic access, sets it, so
  a caller that passed the check is part of the state. The run loop is one caller; an explicit trigger
  is another.
\<close>

section \<open>Workers\<close>

datatype worker = Consolidation | Decay | Compaction | Backup | Clustering | Purge | Stats

definition all_workers :: "worker list" where
  "all_workers = [Consolidation, Decay, Compaction, Backup, Clustering, Purge, Stats]"

definition known_worker :: "string \<Rightarrow> worker option" where
  "known_worker name =
     (if name = ''consolidation'' then Some Consolidation
      else if name = ''decay'' then Some Decay
      else if name = ''compaction'' then Some Compaction
      else if name = ''backup'' then Some Backup
      else if name = ''clustering'' then Some Clustering
      else if name = ''purge'' then Some Purge
      else if name = ''stats'' then Some Stats
      else None)"

text \<open>\<open>ws_active\<close> counts the spawned runs that have not ended; the code keeps no such count.\<close>

record worker_state =
  ws_paused :: bool
  ws_running :: bool
  ws_active :: nat

record scheduler =
  sd_worker :: "worker \<Rightarrow> worker_state"
  sd_passed :: "worker list"

definition new_scheduler :: scheduler where
  "new_scheduler = \<lparr>sd_worker = (\<lambda>w. \<lparr>ws_paused = False, ws_running = False, ws_active = 0\<rparr>), sd_passed = []\<rparr>"

definition set_worker :: "worker \<Rightarrow> worker_state \<Rightarrow> scheduler \<Rightarrow> scheduler" where
  "set_worker w x s = s\<lparr>sd_worker := (sd_worker s)(w := x)\<rparr>"

section \<open>Operations\<close>

text \<open>The check of a tick: a paused or running worker is skipped.\<close>

definition tick_check :: "worker \<Rightarrow> scheduler \<Rightarrow> scheduler" where
  "tick_check w s =
     (if ws_paused (sd_worker s w) \<or> ws_running (sd_worker s w) then s
      else s\<lparr>sd_passed := w # sd_passed s\<rparr>)"

definition spawn_run :: "worker \<Rightarrow> scheduler \<Rightarrow> scheduler" where
  "spawn_run w s =
     set_worker w ((sd_worker s w)\<lparr>ws_running := True, ws_active := Suc (ws_active (sd_worker s w))\<rparr>) s"

definition trigger_worker :: "string \<Rightarrow> scheduler \<Rightarrow> string + scheduler" where
  "trigger_worker name s =
     (case known_worker name of
        None \<Rightarrow> Inl (''Unknown scheduler worker: '' @ name)
      | Some w \<Rightarrow> Inr (tick_check w s))"

definition idle :: "scheduler \<Rightarrow> bool" where
  "idle s \<longleftrightarrow> list_all (\<lambda>w. \<not> ws_running (sd_worker s w)) all_workers"

text \<open>
  The events: the check of a tick by some caller, the start of a run by a caller that has passed, the
  regular end of a run, which clears the flag on every path, a run that ends by a panic, which does
  not, and the pause switch.
\<close>

datatype sched_act = Check worker | Start worker | Done worker | RunPanics worker | SetPaused worker bool

fun sched_step :: "sched_act \<Rightarrow> scheduler \<Rightarrow> scheduler option" where
  "sched_step (Check w) s = Some (tick_check w s)"
| "sched_step (Start w) s =
     (if w \<in> set (sd_passed s) then Some (spawn_run w (s\<lparr>sd_passed := remove1 w (sd_passed s)\<rparr>)) else None)"
| "sched_step (Done w) s =
     (let x = sd_worker s w
      in if ws_active x = 0 then None
         else Some (set_worker w (x\<lparr>ws_running := False, ws_active := ws_active x - 1\<rparr>) s))"
| "sched_step (RunPanics w) s =
     (let x = sd_worker s w
      in if ws_active x = 0 then None else Some (set_worker w (x\<lparr>ws_active := ws_active x - 1\<rparr>) s))"
| "sched_step (SetPaused w b) s = Some (set_worker w ((sd_worker s w)\<lparr>ws_paused := b\<rparr>) s)"

fun sched_run :: "sched_act list \<Rightarrow> scheduler \<Rightarrow> scheduler option" where
  "sched_run [] s = Some s"
| "sched_run (a # as) s = Option.bind (sched_step a s) (sched_run as)"

lemma all_workers_complete [simp]: "set all_workers = UNIV"
  by (auto simp: all_workers_def intro: worker.exhaust)

lemma idle_iff: "idle s \<longleftrightarrow> (\<forall>w. \<not> ws_running (sd_worker s w))"
  by (simp add: idle_def list_all_iff)

lemma set_worker_sel [simp]:
  "sd_worker (set_worker w x s) v = (if v = w then x else sd_worker s v)"
  "sd_passed (set_worker w x s) = sd_passed s"
  by (simp_all add: set_worker_def)

section \<open>One caller\<close>

text \<open>With a single caller no check falls between another check and its start.\<close>

fun one_caller :: "sched_act list \<Rightarrow> scheduler \<Rightarrow> bool" where
  "one_caller [] s \<longleftrightarrow> True"
| "one_caller (a # as) s \<longleftrightarrow>
     ((\<exists>w. a = Check w) \<longrightarrow> sd_passed s = []) \<and>
     (case sched_step a s of None \<Rightarrow> True | Some s' \<Rightarrow> one_caller as s')"

definition exclusive :: "scheduler \<Rightarrow> bool" where
  "exclusive s \<longleftrightarrow>
     (\<forall>w. ws_active (sd_worker s w) \<le> 1 \<and>
          (0 < ws_active (sd_worker s w) \<longrightarrow> ws_running (sd_worker s w)) \<and>
          (w \<in> set (sd_passed s) \<longrightarrow> ws_active (sd_worker s w) = 0)) \<and>
     length (sd_passed s) \<le> 1"

lemma exclusive_step:
  assumes "exclusive s" "sched_step a s = Some s'" "\<And>w. a = Check w \<Longrightarrow> sd_passed s = []"
  shows "exclusive s'"
proof (cases a)
  case (Start w)
  with assms(1,2) have "sd_passed s = [w]"
    by (cases "sd_passed s") (auto simp: exclusive_def split: if_splits)
  with assms(1,2) Start show ?thesis by (auto simp: exclusive_def spawn_run_def)
qed (use assms in \<open>auto simp: exclusive_def tick_check_def Let_def split: if_splits\<close>)

lemma exclusive_run:
  "exclusive s \<Longrightarrow> one_caller as s \<Longrightarrow> sched_run as s = Some s' \<Longrightarrow> exclusive s'"
proof (induction as arbitrary: s)
  case (Cons a as)
  then obtain s1 where s1: "sched_step a s = Some s1" "sched_run as s1 = Some s'"
    by (auto simp: Option.bind_eq_Some_conv)
  have "exclusive s1" using exclusive_step [OF Cons.prems(1) s1(1)] Cons.prems(2) by auto
  with Cons.IH s1 Cons.prems(2) show ?case by simp
qed simp

text \<open>When the run loop is the only caller, no worker ever has two runs in progress, and when the
  shutdown finds every flag cleared and the loop has ended, no run is in progress.\<close>

theorem single_caller_excludes:
  assumes "sched_run as new_scheduler = Some s" "one_caller as new_scheduler"
  shows "ws_active (sd_worker s w) \<le> 1 \<and> (idle s \<longrightarrow> ws_active (sd_worker s w) = 0)"
proof -
  have "exclusive new_scheduler" by (simp add: exclusive_def new_scheduler_def)
  from exclusive_run [OF this assms(2,1)] show ?thesis by (auto simp: exclusive_def idle_iff)
qed

theorem single_caller_excludes_witness:
  "\<exists>s. sched_run [Check Purge, Start Purge, Check Purge, Done Purge] new_scheduler = Some s \<and>
     idle s \<and> ws_active (sd_worker s Purge) = 0"
proof -
  obtain s where s: "sched_run [Check Purge, Start Purge, Check Purge, Done Purge] new_scheduler = Some s"
    by (simp add: new_scheduler_def tick_check_def spawn_run_def set_worker_def)
  moreover have "one_caller [Check Purge, Start Purge, Check Purge, Done Purge] new_scheduler"
    by (simp add: new_scheduler_def tick_check_def spawn_run_def set_worker_def)
  moreover have "idle s"
    using s by (auto simp: idle_iff new_scheduler_def tick_check_def spawn_run_def set_worker_def)
  ultimately show ?thesis using single_caller_excludes [of _ s Purge] by blast
qed

section \<open>Two callers and panics\<close>

text \<open>Two callers may both pass the check of a worker before either sets its flag: both runs start, and
  the end of the first clears the flag, so the scheduler counts as idle while the second is running.\<close>

theorem racing_triggers_overlap:
  "\<exists>s. sched_run [Check Consolidation, Check Consolidation, Start Consolidation, Start Consolidation,
          Done Consolidation] new_scheduler = Some s \<and>
     idle s \<and> ws_active (sd_worker s Consolidation) = 1"
  by (simp add: new_scheduler_def tick_check_def spawn_run_def set_worker_def idle_iff)

lemma stuck_step:
  assumes "ws_running (sd_worker s w)" "ws_active (sd_worker s w) = 0" "w \<notin> set (sd_passed s)"
    and "sched_step a s = Some s'"
  shows "ws_running (sd_worker s' w) \<and> ws_active (sd_worker s' w) = 0 \<and> w \<notin> set (sd_passed s')"
  using assms
  by (cases a) (auto simp: tick_check_def spawn_run_def Let_def split: if_splits dest: notin_set_remove1)

text \<open>A run that panics leaves its flag set for ever: the worker never starts again, and the wait of
  the shutdown never ends.\<close>

theorem panicked_worker_blocks_shutdown:
  assumes "sched_step (RunPanics w) s = Some s0" "ws_running (sd_worker s w)" "ws_active (sd_worker s w) = 1"
    and "w \<notin> set (sd_passed s)"
    and "sched_run as s0 = Some s'"
  shows "\<not> idle s' \<and> ws_active (sd_worker s' w) = 0"
proof -
  have "ws_running (sd_worker s0 w) \<and> ws_active (sd_worker s0 w) = 0 \<and> w \<notin> set (sd_passed s0)"
    using assms(1-4) by (auto simp: Let_def)
  then have "ws_running (sd_worker s' w) \<and> ws_active (sd_worker s' w) = 0 \<and> w \<notin> set (sd_passed s')"
    using assms(5)
  proof (induction as arbitrary: s0)
    case (Cons a as)
    from Cons.prems(2) obtain s1 where "sched_step a s0 = Some s1" "sched_run as s1 = Some s'"
      by (auto simp: Option.bind_eq_Some_conv)
    with Cons.prems(1) have "ws_running (sd_worker s1 w) \<and> ws_active (sd_worker s1 w) = 0 \<and> w \<notin> set (sd_passed s1)"
      using stuck_step by metis
    then show ?case using Cons.IH \<open>sched_run as s1 = Some s'\<close> by metis
  qed simp
  then show ?thesis by (auto simp: idle_iff)
qed

theorem panicked_worker_blocks_shutdown_witness:
  "\<exists>s s0 s'. sched_run [Check Decay, Start Decay] new_scheduler = Some s \<and>
     sched_step (RunPanics Decay) s = Some s0 \<and>
     sched_run [Check Decay, Check Stats, Start Stats, Done Stats] s0 = Some s' \<and> \<not> idle s'"
proof -
  obtain s where s: "sched_run [Check Decay, Start Decay] new_scheduler = Some s"
      "ws_running (sd_worker s Decay)" "ws_active (sd_worker s Decay) = 1" "sd_passed s = []"
      "\<not> ws_running (sd_worker s Stats)" "\<not> ws_paused (sd_worker s Stats)" "ws_active (sd_worker s Stats) = 0"
    by (simp add: new_scheduler_def tick_check_def spawn_run_def)
  then obtain s0 where s0: "sched_step (RunPanics Decay) s = Some s0"
    by (simp add: Let_def)
  then have "sd_passed s0 = []" "ws_running (sd_worker s0 Decay)" "\<not> ws_running (sd_worker s0 Stats)"
      "\<not> ws_paused (sd_worker s0 Stats)" "ws_active (sd_worker s0 Stats) = 0"
    using s by (auto simp: Let_def)
  then obtain s' where s': "sched_run [Check Decay, Check Stats, Start Stats, Done Stats] s0 = Some s'"
    by (simp add: tick_check_def spawn_run_def)
  from panicked_worker_blocks_shutdown [OF s0 s(2,3) _ s'] s s0 s' show ?thesis by auto
qed

end
