(* ===== verification/Hosted.thy ===== *)
theory Hosted
  imports WritePhase Scheduler "HOL-Library.AList"
begin

text \<open>
  The Hosted engine: independently addressed scopes with an epoch each
  (\<^verbatim>\<open>loomem-server/src/hosted/engine.rs\<close>, \<^verbatim>\<open>engine/shard.rs\<close>, \<^verbatim>\<open>engine/compat.rs\<close>, \<^verbatim>\<open>protocol.rs\<close>), the
  runtime of a scope with its quiescence (\<^verbatim>\<open>hosted/state.rs\<close>) and the registry of deferred work
  (\<^verbatim>\<open>deferred.rs\<close>). A handler owns the engine until it answers, but it waits in the middle, and the
  tasks run meanwhile: \<open>pc\<close> is the place where the handler waits, and the events interleave its stages
  with the steps of jobs, deferred tasks and scheduler runs. What the file system, the store and the
  queues answer is part of the event.
\<close>

section \<open>Requests\<close>

record scope_context =
  cx_actor :: string
  cx_scope :: string
  cx_epoch :: int

record request =
  rq_cmd :: string
  rq_context :: "scope_context option"
  rq_generation :: "string option"
  rq_op_id :: "string option"
  rq_name :: "string option"
  rq_root :: "string option"
  rq_records :: bool

definition name_char :: "char \<Rightarrow> bool" where
  "name_char c \<longleftrightarrow>
     (let n = of_char c :: nat in n \<in> {48..57} \<or> n \<in> {65..90} \<or> n \<in> {97..122}) \<or> c \<in> {CHR ''_'', CHR ''-''}"

definition safe_name :: "string \<Rightarrow> bool" where
  "safe_name v \<longleftrightarrow> v \<noteq> [] \<and> length v \<le> 128 \<and> list_all name_char v"

definition valid_context :: "scope_context \<Rightarrow> bool" where
  "valid_context c \<longleftrightarrow> safe_name (cx_actor c) \<and> safe_name (cx_scope c) \<and> 0 \<le> cx_epoch c"

definition request_context :: "request \<Rightarrow> scope_context option" where
  "request_context rq = (case rq_context rq of None \<Rightarrow> None | Some c \<Rightarrow> if valid_context c then Some c else None)"

definition safe_field :: "string option \<Rightarrow> string option" where
  "safe_field f = (case f of None \<Rightarrow> None | Some v \<Rightarrow> if safe_name v then Some v else None)"

definition request_operation :: "request \<Rightarrow> string option" where
  "request_operation rq = safe_field (rq_op_id rq)"

definition request_generation :: "request \<Rightarrow> string option" where
  "request_generation rq = safe_field (rq_generation rq)"

definition job_key :: "scope_context \<Rightarrow> string \<Rightarrow> string" where
  "job_key c op = cx_actor c @ '':'' @ cx_scope c @ '':'' @ show_int (cx_epoch c) @ '':'' @ op"

section \<open>State\<close>

text \<open>An open scope: the runtime of one generation.\<close>

record entry =
  se_context :: scope_context
  se_generation :: string
  se_reader :: bool
  se_accepting :: bool
  se_quiesced :: bool
  se_loop :: bool
  se_sched :: scheduler
  se_deferred :: "task list"
  se_closed :: bool

record job =
  jb_context :: scope_context
  jb_serial :: nat
  jb_task :: task
  jb_receiver :: bool

record pending_await =
  aw_context :: scope_context
  aw_operation :: string
  aw_serial :: nat

text \<open>What a handler does once the scope it replaces or quiesces is drained.\<close>

datatype kont =
    KOpen scope_context string bool
  | KRestore scope_context string
  | KRevoke scope_context
  | KClose scope_context
  | KQuiesce scope_context
  | KShutdown "string list"

datatype pc =
    Idle
  | JoinRevoked scope_context
  | JoinDeferred scope_context
  | DrainJobs kont string "string list"
  | StopScheduler kont string
  | DrainDeferred kont string
  | FlushScope kont string
  | Finish kont string

datatype hosted_event =
    Opened scope_context string
  | Revoked scope_context
  | Closed scope_context
  | Quiesced scope_context
  | ShutDown
  | Accepted scope_context string
  | Published scope_context string
  | Served scope_context
  | Refused
  | Wrote string int
  | WorkerWrote string int
  | CutTask task
  | DeferredPanic string

record engine =
  en_bound :: "string option"
  en_epochs :: "string \<rightharpoonup> int"
  en_scopes :: "string \<rightharpoonup> entry"
  en_jobs :: "(string \<times> job) list"
  en_next :: nat
  en_awaits :: "pending_await list"
  en_joining :: "job list"
  en_joining_deferred :: "task list"
  en_detached :: "task list"
  en_orphan_runs :: "(string \<times> int) list"
  en_pc :: pc
  en_log :: "hosted_event list"

definition new_engine :: engine where
  "new_engine = \<lparr>en_bound = None, en_epochs = Map.empty, en_scopes = Map.empty, en_jobs = [], en_next = 0,
     en_awaits = [], en_joining = [], en_joining_deferred = [], en_detached = [], en_orphan_runs = [],
     en_pc = Idle, en_log = []\<rparr>"

definition emit :: "hosted_event \<Rightarrow> engine \<Rightarrow> engine" where
  "emit ev en = en\<lparr>en_log := ev # en_log en\<rparr>"

definition set_entry :: "string \<Rightarrow> entry \<Rightarrow> engine \<Rightarrow> engine" where
  "set_entry s e en = en\<lparr>en_scopes := (en_scopes en)(s \<mapsto> e)\<rparr>"

section \<open>Guards\<close>

definition ensure_bound_context :: "engine \<Rightarrow> scope_context \<Rightarrow> bool" where
  "ensure_bound_context en c \<longleftrightarrow> en_bound en \<in> {None, Some (cx_scope c)}"

definition ensure_epoch :: "engine \<Rightarrow> scope_context \<Rightarrow> bool" where
  "ensure_epoch en c \<longleftrightarrow> ensure_bound_context en c \<and> en_epochs en (cx_scope c) = Some (cx_epoch c)"

definition advance_epoch :: "engine \<Rightarrow> scope_context \<Rightarrow> bool" where
  "advance_epoch en c \<longleftrightarrow>
     ensure_bound_context en c \<and>
     (case en_epochs en (cx_scope c) of None \<Rightarrow> True | Some e \<Rightarrow> e \<le> cx_epoch c)"

definition binds :: "entry \<Rightarrow> scope_context \<Rightarrow> bool" where
  "binds e c \<longleftrightarrow> cx_scope (se_context e) = cx_scope c \<and> cx_epoch (se_context e) = cx_epoch c"

definition accepts_writes :: "entry \<Rightarrow> bool" where
  "accepts_writes e \<longleftrightarrow> se_accepting e \<and> \<not> se_quiesced e"

definition ensure_scope_context :: "engine \<Rightarrow> scope_context \<Rightarrow> bool" where
  "ensure_scope_context en c \<longleftrightarrow>
     ensure_epoch en c \<and> (case en_scopes en (cx_scope c) of None \<Rightarrow> False | Some e \<Rightarrow> binds e c)"

definition ensure_live :: "engine \<Rightarrow> scope_context \<Rightarrow> bool" where
  "ensure_live en c \<longleftrightarrow>
     ensure_scope_context en c \<and>
     (case en_scopes en (cx_scope c) of None \<Rightarrow> False | Some e \<Rightarrow> accepts_writes e)"

definition ensure_job_available :: "engine \<Rightarrow> string \<Rightarrow> scope_context \<Rightarrow> bool" where
  "ensure_job_available en op c \<longleftrightarrow> ensure_live en c \<and> map_of (en_jobs en) (job_key c op) = None"

definition ensure_current_generation :: "engine \<Rightarrow> scope_context \<Rightarrow> string \<Rightarrow> bool" where
  "ensure_current_generation en c g \<longleftrightarrow>
     ensure_live en c \<and>
     (case en_scopes en (cx_scope c) of None \<Rightarrow> False | Some e \<Rightarrow> se_generation e = g)"

section \<open>Deferred work\<close>

text \<open>Finished tasks are reaped, whatever their end; a closed registry drops new work unstarted.\<close>

definition track :: "task \<Rightarrow> entry \<Rightarrow> entry" where
  "track t e =
     (let rest = filter (\<lambda>x. tk_end x = Running) (se_deferred e)
      in if se_closed e then e\<lparr>se_deferred := rest\<rparr> else e\<lparr>se_deferred := rest @ [t]\<rparr>)"

definition begin_abort :: "entry \<Rightarrow> task list \<times> entry" where
  "begin_abort e = (map revoke_task (se_deferred e), e\<lparr>se_deferred := [], se_closed := True\<rparr>)"

section \<open>Handlers\<close>

definition insert_job :: "string \<Rightarrow> scope_context \<Rightarrow> engine \<Rightarrow> engine" where
  "insert_job op c en =
     en\<lparr>en_jobs := (job_key c op, \<lparr>jb_context = c, jb_serial = en_next en,
          jb_task = new_task (cx_scope c) (cx_epoch c), jb_receiver = True\<rparr>) # en_jobs en,
        en_next := Suc (en_next en)\<rparr>"

definition scope_keys :: "engine \<Rightarrow> string \<Rightarrow> string list" where
  "scope_keys en s = map fst (filter (\<lambda>(_, j). cx_scope (jb_context j) = s) (en_jobs en))"

definition replace_scope :: "kont \<Rightarrow> string \<Rightarrow> engine \<Rightarrow> engine" where
  "replace_scope k s en = en\<lparr>en_pc := DrainJobs k s (scope_keys en s)\<rparr>"

definition quiesce :: "kont \<Rightarrow> string \<Rightarrow> engine \<Rightarrow> engine" where
  "quiesce k s en =
     (case en_scopes en s of
        None \<Rightarrow> en\<lparr>en_pc := Finish k s\<rparr>
      | Some e \<Rightarrow>
          if se_quiesced e then en\<lparr>en_pc := Finish k s\<rparr>
          else (set_entry s (e\<lparr>se_accepting := False, se_loop := False\<rparr>) en)\<lparr>en_pc := StopScheduler k s\<rparr>)"

definition signal_jobs :: "string \<Rightarrow> engine \<Rightarrow> engine" where
  "signal_jobs s en =
     (let mine = filter (\<lambda>(_, j). cx_scope (jb_context j) = s) (en_jobs en)
      in en\<lparr>en_jobs := filter (\<lambda>(_, j). cx_scope (jb_context j) \<noteq> s) (en_jobs en),
            en_joining := map (\<lambda>(_, j). j\<lparr>jb_task := revoke_task (jb_task j)\<rparr>) mine\<rparr>)"

definition revoke :: "scope_context \<Rightarrow> engine \<Rightarrow> engine" where
  "revoke c en =
     (let current = (case en_epochs en (cx_scope c) of None \<Rightarrow> -1 | Some e \<Rightarrow> e)
      in if \<not> ensure_bound_context en c \<or> cx_epoch c \<le> current then emit Refused en
         else (let en1 = signal_jobs (cx_scope c) en;
                   en2 = (case en_scopes en1 (cx_scope c) of
                            None \<Rightarrow> en1
                          | Some e \<Rightarrow>
                              (let (ts, e') = begin_abort e
                               in (set_entry (cx_scope c) e' en1)\<lparr>en_joining_deferred := ts\<rparr>))
               in en2\<lparr>en_pc := JoinRevoked c\<rparr>))"

definition open_scope :: "scope_context \<Rightarrow> string \<Rightarrow> engine \<Rightarrow> engine" where
  "open_scope c g en =
     (if \<not> advance_epoch en c then emit Refused en
      else (case en_scopes en (cx_scope c) of
              Some e \<Rightarrow>
                if binds e c \<and> se_generation e = g
                then (if accepts_writes e then emit (Opened c g) en else emit Refused en)
                else replace_scope (KOpen c g False) (cx_scope c) en
            | None \<Rightarrow> replace_scope (KOpen c g False) (cx_scope c) en))"

definition open_reader :: "scope_context \<Rightarrow> string \<Rightarrow> bool \<Rightarrow> engine \<Rightarrow> engine" where
  "open_reader c g root_ok en =
     (if \<not> root_ok \<or> \<not> advance_epoch en c then emit Refused en
      else replace_scope (KOpen c g True) (cx_scope c) en)"

definition restore_scope :: "scope_context \<Rightarrow> string \<Rightarrow> bool \<Rightarrow> engine \<Rightarrow> engine" where
  "restore_scope c g source_ok en =
     (if \<not> source_ok \<or> \<not> advance_epoch en c then emit Refused en
      else replace_scope (KRestore c g) (cx_scope c) en)"

definition start_job :: "scope_context \<Rightarrow> string \<Rightarrow> bool \<Rightarrow> engine \<Rightarrow> engine" where
  "start_job c op input_ok en =
     (if \<not> ensure_job_available en op c \<or> \<not> input_ok then emit Refused en
      else emit (Accepted c op) (insert_job op c en))"

definition begin_await :: "scope_context \<Rightarrow> string \<Rightarrow> engine \<Rightarrow> engine" where
  "begin_await c op en =
     (if \<not> ensure_epoch en c then emit Refused en
      else (case map_of (en_jobs en) (job_key c op) of
              None \<Rightarrow> emit Refused en
            | Some j \<Rightarrow>
                if jb_context j \<noteq> c \<or> \<not> jb_receiver j then emit Refused en
                else en\<lparr>en_jobs := AList.update (job_key c op) (j\<lparr>jb_receiver := False\<rparr>) (en_jobs en),
                        en_awaits := \<lparr>aw_context = c, aw_operation = op, aw_serial = jb_serial j\<rparr> # en_awaits en\<rparr>))"

text \<open>The outcome of an awaited job is there once its task has ended.\<close>

definition job_running :: "engine \<Rightarrow> nat \<Rightarrow> bool" where
  "job_running en n \<longleftrightarrow>
     (\<exists>j \<in> set (map snd (en_jobs en) @ en_joining en). jb_serial j = n \<and> tk_end (jb_task j) = Running)"

definition finish_await :: "pending_await \<Rightarrow> bool \<Rightarrow> engine \<Rightarrow> engine" where
  "finish_await a outcome_ok en =
     (let key = job_key (aw_context a) (aw_operation a);
          en1 = en\<lparr>en_awaits := remove1 a (en_awaits en),
                   en_jobs := (case map_of (en_jobs en) key of
                                 Some j \<Rightarrow> if jb_serial j = aw_serial a then AList.delete key (en_jobs en) else en_jobs en
                               | None \<Rightarrow> en_jobs en)\<rparr>
      in if ensure_epoch en (aw_context a) \<and> outcome_ok
         then emit (Published (aw_context a) (aw_operation a)) en1 else emit Refused en1)"

definition quiesce_scope :: "scope_context \<Rightarrow> engine \<Rightarrow> engine" where
  "quiesce_scope c en =
     (if \<not> ensure_scope_context en c \<or> scope_keys en (cx_scope c) \<noteq> [] then emit Refused en
      else quiesce (KQuiesce c) (cx_scope c) en)"

definition close_scope :: "scope_context \<Rightarrow> engine \<Rightarrow> engine" where
  "close_scope c en =
     (if \<not> ensure_live en c then emit Refused en else replace_scope (KClose c) (cx_scope c) en)"

definition status_scope :: "scope_context \<Rightarrow> engine \<Rightarrow> engine" where
  "status_scope c en =
     (if ensure_epoch en c \<and> en_scopes en (cx_scope c) \<noteq> None then emit (Served c) en else emit Refused en)"

text \<open>The dispatch of one request; \<open>ok\<close> says whether the parts of it that this model leaves out are well formed.\<close>

definition handle :: "request \<Rightarrow> string list \<Rightarrow> bool \<Rightarrow> engine \<Rightarrow> engine" where
  "handle rq order ok en =
     (let cmd = rq_cmd rq
      in if cmd = ''shutdown''
         then (case order of
                 [] \<Rightarrow> emit ShutDown en
               | s # rest \<Rightarrow> replace_scope (KShutdown rest) s en)
         else (case request_context rq of
                 None \<Rightarrow> emit Refused en
               | Some c \<Rightarrow>
                   if cmd \<in> {''prepare'', ''search'', ''read''}
                   then (case request_generation rq of
                           None \<Rightarrow> emit Refused en
                         | Some g \<Rightarrow> if ensure_current_generation en c g \<and> ok then emit (Served c) en else emit Refused en)
                   else if cmd = ''build_async''
                   then (case request_generation rq of
                           None \<Rightarrow> emit Refused en
                         | Some g \<Rightarrow>
                             if ensure_current_generation en c g then start_job c g (ok \<and> rq_records rq) en
                             else emit Refused en)
                   else if cmd = ''close_scope'' then close_scope c en
                   else if cmd = ''open_scope'' \<and> rq_root rq \<noteq> None
                   then (case request_generation rq of None \<Rightarrow> emit Refused en | Some g \<Rightarrow> open_reader c g ok en)
                   else if cmd = ''open_scope''
                   then (case request_generation rq of None \<Rightarrow> emit Refused en | Some g \<Rightarrow> open_scope c g en)
                   else if cmd = ''restore_scope''
                   then (case request_generation rq of None \<Rightarrow> emit Refused en | Some g \<Rightarrow> restore_scope c g ok en)
                   else if cmd \<in> {''tool_async'', ''worker_async''}
                   then (case (request_operation rq, rq_name rq) of
                           (Some op, Some _) \<Rightarrow> start_job c op ok en
                         | _ \<Rightarrow> emit Refused en)
                   else if cmd = ''await''
                   then (case request_operation rq of None \<Rightarrow> emit Refused en | Some op \<Rightarrow> begin_await c op en)
                   else if cmd = ''quiesce'' then quiesce_scope c en
                   else if cmd = ''tools/list'' then (if ensure_live en c then emit (Served c) en else emit Refused en)
                   else if cmd = ''revoke'' then revoke c en
                   else if cmd = ''status'' then status_scope c en
                   else emit Refused en))"

section \<open>Stages of a waiting handler\<close>

definition all_ended :: "task list \<Rightarrow> bool" where
  "all_ended ts \<longleftrightarrow> list_all (\<lambda>t. tk_end t \<noteq> Running) ts"

definition active_runs :: "entry \<Rightarrow> nat" where
  "active_runs e = sum_list (map (\<lambda>w. ws_active (sd_worker (se_sched e) w)) all_workers)"

text \<open>The runs of the scheduler are not owned by the runtime: one that is still active goes on.\<close>

definition drop_scope :: "string \<Rightarrow> engine \<Rightarrow> engine" where
  "drop_scope s en =
     (case en_scopes en s of
        None \<Rightarrow> en
      | Some e \<Rightarrow>
          en\<lparr>en_scopes := (en_scopes en)(s := None),
             en_orphan_runs := replicate (active_runs e) (s, cx_epoch (se_context e)) @ en_orphan_runs en\<rparr>)"

definition new_entry :: "scope_context \<Rightarrow> string \<Rightarrow> bool \<Rightarrow> entry" where
  "new_entry c g reader = \<lparr>se_context = c, se_generation = g, se_reader = reader, se_accepting = True,
     se_quiesced = False, se_loop = \<not> reader, se_sched = new_scheduler, se_deferred = [], se_closed = False\<rparr>"

definition install_scope :: "scope_context \<Rightarrow> string \<Rightarrow> bool \<Rightarrow> engine \<Rightarrow> engine" where
  "install_scope c g reader en =
     emit (Opened c g)
       (set_entry (cx_scope c) (new_entry c g reader)
         (en\<lparr>en_epochs := (en_epochs en)(cx_scope c \<mapsto> cx_epoch c)\<rparr>))"

fun finish :: "kont \<Rightarrow> string \<Rightarrow> bool \<Rightarrow> engine \<Rightarrow> engine" where
  "finish (KOpen c g reader) s ok en =
     (let en1 = (drop_scope s en)\<lparr>en_pc := Idle\<rparr>
      in if ok then install_scope c g reader en1 else emit Refused en1)"
| "finish (KRestore c g) s ok en =
     (let en1 = (drop_scope s en)\<lparr>en_pc := Idle\<rparr>
      in if ok then install_scope c g False en1 else emit Refused en1)"
| "finish (KRevoke c) s ok en =
     (let en1 = (drop_scope s en)\<lparr>en_pc := Idle\<rparr>
      in emit (Revoked c) (en1\<lparr>en_epochs := (en_epochs en1)(cx_scope c \<mapsto> cx_epoch c)\<rparr>))"
| "finish (KClose c) s ok en = emit (Closed c) ((drop_scope s en)\<lparr>en_pc := Idle\<rparr>)"
| "finish (KQuiesce c) s ok en = emit (Quiesced c) (en\<lparr>en_pc := Idle\<rparr>)"
| "finish (KShutdown []) s ok en = emit ShutDown ((drop_scope s en)\<lparr>en_pc := Idle\<rparr>)"
| "finish (KShutdown (s' # rest)) s ok en = replace_scope (KShutdown rest) s' (drop_scope s en)"

text \<open>
  The next stage of the handler, when what it waits for has happened. \<open>drain\<close> gives up at the first
  deferred task that did not end regularly, and dropping the set aborts the rest of it.
\<close>

fun continue :: "bool \<Rightarrow> engine \<Rightarrow> engine option" where
  "continue ok en =
     (case en_pc en of
        Idle \<Rightarrow> None
      | JoinRevoked c \<Rightarrow>
          if all_ended (map jb_task (en_joining en))
          then Some (en\<lparr>en_joining := [], en_pc := JoinDeferred c\<rparr>) else None
      | JoinDeferred c \<Rightarrow>
          if all_ended (en_joining_deferred en)
          then Some (replace_scope (KRevoke c) (cx_scope c) (en\<lparr>en_joining_deferred := []\<rparr>)) else None
      | DrainJobs k s keys \<Rightarrow>
          if \<not> all_ended (map jb_task (en_joining en)) then None
          else (case keys of
                  [] \<Rightarrow> Some (quiesce k s (en\<lparr>en_joining := []\<rparr>))
                | key # rest \<Rightarrow>
                    (case map_of (en_jobs en) key of
                       None \<Rightarrow> Some (en\<lparr>en_joining := [], en_pc := DrainJobs k s rest\<rparr>)
                     | Some j \<Rightarrow>
                         Some (en\<lparr>en_jobs := AList.delete key (en_jobs en), en_joining := [j],
                                  en_pc := DrainJobs k s rest\<rparr>)))
      | StopScheduler k s \<Rightarrow>
          (case en_scopes en s of
             None \<Rightarrow> None
           | Some e \<Rightarrow>
               if idle (se_sched e) \<and> sd_passed (se_sched e) = []
               then Some ((set_entry s (e\<lparr>se_deferred := []\<rparr>) en)
                            \<lparr>en_joining_deferred := se_deferred e, en_pc := DrainDeferred k s\<rparr>)
               else None)
      | DrainDeferred k s \<Rightarrow>
          if list_ex (\<lambda>t. tk_end t \<in> {Cancelled, Panicked}) (en_joining_deferred en)
          then Some (emit Refused (en\<lparr>en_joining_deferred := [], en_pc := Idle,
                 en_detached := map (\<lambda>t. t\<lparr>tk_abort := True\<rparr>)
                                  (filter (\<lambda>t. tk_end t = Running) (en_joining_deferred en)) @ en_detached en\<rparr>))
          else if all_ended (en_joining_deferred en)
          then Some (en\<lparr>en_joining_deferred := [], en_pc := FlushScope k s\<rparr>)
          else None
      | FlushScope k s \<Rightarrow>
          (case en_scopes en s of
             None \<Rightarrow> None
           | Some e \<Rightarrow>
               if ok then Some ((set_entry s (e\<lparr>se_quiesced := True\<rparr>) en)\<lparr>en_pc := Finish k s\<rparr>)
               else Some (emit Refused (en\<lparr>en_pc := Idle\<rparr>)))
      | Finish k s \<Rightarrow> Some (finish k s ok en))"

section \<open>Events\<close>

text \<open>What a step of a task leaves in the log.\<close>

definition log_task :: "bool \<Rightarrow> task_act \<Rightarrow> task \<Rightarrow> engine \<Rightarrow> engine" where
  "log_task deferred a t en =
     (case a of
        AWrite \<Rightarrow> emit (Wrote (tk_scope t) (tk_epoch t)) en
      | ACancel \<Rightarrow> emit (CutTask t) en
      | APanic \<Rightarrow> if deferred then emit (DeferredPanic (tk_scope t)) en else en
      | _ \<Rightarrow> en)"

datatype hosted_act =
    Request request "string list" bool
  | Continue bool
  | FinishAwait nat bool
  | JobStep string task_act
  | JoiningStep nat task_act
  | DeferredStep string nat task_act
  | JoiningDeferredStep nat task_act
  | DetachedStep nat task_act
  | JobTracks string
  | JoiningTracks nat
  | SchedStep string sched_act
  | WorkerWrites string
  | OrphanWrites nat

text \<open>
  A shutdown visits the open scopes in any order. A job tracks deferred work in the registry of the
  runtime it was started on, which is the open one as long as the job runs.

  A check of the scheduler comes from the run loop or from a running job that triggers a worker.
\<close>

definition may_check :: "engine \<Rightarrow> string \<Rightarrow> entry \<Rightarrow> bool" where
  "may_check en s e \<longleftrightarrow>
     se_loop e \<or>
     (\<exists>j \<in> set (map snd (en_jobs en) @ en_joining en). tk_scope (jb_task j) = s \<and> tk_end (jb_task j) = Running)"

definition track_for :: "task \<Rightarrow> engine \<Rightarrow> engine option" where
  "track_for t en =
     (if tk_end t \<noteq> Running then None
      else map_option (\<lambda>e. set_entry (tk_scope t) (track (new_task (tk_scope t) (tk_epoch t)) e) en)
             (en_scopes en (tk_scope t)))"

fun hosted_step :: "hosted_act \<Rightarrow> engine \<Rightarrow> engine option" where
  "hosted_step (Request rq order ok) en =
     (if en_pc en = Idle \<and>
         (rq_cmd rq = ''shutdown'' \<longrightarrow> distinct order \<and> (\<forall>s. s \<in> set order \<longleftrightarrow> en_scopes en s \<noteq> None))
      then Some (handle rq order ok en) else None)"
| "hosted_step (Continue ok) en = continue ok en"
| "hosted_step (FinishAwait i ok) en =
     (if i < length (en_awaits en) \<and> en_pc en = Idle \<and> \<not> job_running en (aw_serial (en_awaits en ! i))
      then Some (finish_await (en_awaits en ! i) ok en) else None)"
| "hosted_step (JobStep key a) en =
     (case map_of (en_jobs en) key of
        None \<Rightarrow> None
      | Some j \<Rightarrow>
          map_option (\<lambda>t. log_task False a (jb_task j)
              (en\<lparr>en_jobs := AList.update key (j\<lparr>jb_task := t\<rparr>) (en_jobs en)\<rparr>))
            (task_step a (jb_task j)))"
| "hosted_step (JoiningStep i a) en =
     (if i < length (en_joining en)
      then map_option (\<lambda>t. log_task False a (jb_task (en_joining en ! i))
             (en\<lparr>en_joining := (en_joining en)[i := (en_joining en ! i)\<lparr>jb_task := t\<rparr>]\<rparr>))
             (task_step a (jb_task (en_joining en ! i)))
      else None)"
| "hosted_step (DeferredStep s i a) en =
     (case en_scopes en s of
        None \<Rightarrow> None
      | Some e \<Rightarrow>
          if i < length (se_deferred e)
          then map_option (\<lambda>t. log_task True a (se_deferred e ! i)
                 (set_entry s (e\<lparr>se_deferred := (se_deferred e)[i := t]\<rparr>) en))
                 (task_step a (se_deferred e ! i))
          else None)"
| "hosted_step (JoiningDeferredStep i a) en =
     (if i < length (en_joining_deferred en)
      then map_option (\<lambda>t. log_task True a (en_joining_deferred en ! i)
             (en\<lparr>en_joining_deferred := (en_joining_deferred en)[i := t]\<rparr>))
             (task_step a (en_joining_deferred en ! i))
      else None)"
| "hosted_step (DetachedStep i a) en =
     (if i < length (en_detached en)
      then map_option (\<lambda>t. log_task True a (en_detached en ! i)
             (en\<lparr>en_detached := (en_detached en)[i := t]\<rparr>))
             (task_step a (en_detached en ! i))
      else None)"
| "hosted_step (JobTracks key) en =
     (case map_of (en_jobs en) key of None \<Rightarrow> None | Some j \<Rightarrow> track_for (jb_task j) en)"
| "hosted_step (JoiningTracks i) en =
     (if i < length (en_joining en) then track_for (jb_task (en_joining en ! i)) en else None)"
| "hosted_step (SchedStep s a) en =
     (case en_scopes en s of
        None \<Rightarrow> None
      | Some e \<Rightarrow>
          if (\<exists>w. a = Check w) \<and> \<not> may_check en s e then None
          else map_option (\<lambda>x. set_entry s (e\<lparr>se_sched := x\<rparr>) en) (sched_step a (se_sched e)))"
| "hosted_step (WorkerWrites s) en =
     (case en_scopes en s of
        None \<Rightarrow> None
      | Some e \<Rightarrow>
          if 0 < active_runs e then Some (emit (WorkerWrote s (cx_epoch (se_context e))) en) else None)"
| "hosted_step (OrphanWrites i) en =
     (if i < length (en_orphan_runs en)
      then Some (emit (WorkerWrote (fst (en_orphan_runs en ! i)) (snd (en_orphan_runs en ! i))) en) else None)"

fun hosted_run :: "hosted_act list \<Rightarrow> engine \<Rightarrow> engine option" where
  "hosted_run [] en = Some en"
| "hosted_run (a # as) en = Option.bind (hosted_step a en) (hosted_run as)"

end
