(* ===== verification/HostedProps.thy ===== *)
theory HostedProps
  imports Hosted
begin

text \<open>
  What the revocation of a scope guarantees: in every interleaving of handlers, jobs, deferred tasks
  and scheduler runs no tracked work of an older epoch is accepted, writes or publishes after the
  acknowledgement, and no task is cancelled inside an apply section or a durable write. A panic of a
  deferred task breaks the second guarantee, and racing scheduler triggers leave a run outside both.
\<close>

section \<open>The invariant\<close>

definition event_at :: "hosted_event \<Rightarrow> (string \<times> int) option" where
  "event_at ev =
     (case ev of
        Wrote s e \<Rightarrow> Some (s, e)
      | Opened c g \<Rightarrow> Some (cx_scope c, cx_epoch c)
      | Accepted c op \<Rightarrow> Some (cx_scope c, cx_epoch c)
      | Published c op \<Rightarrow> Some (cx_scope c, cx_epoch c)
      | Served c \<Rightarrow> Some (cx_scope c, cx_epoch c)
      | _ \<Rightarrow> None)"

fun fenced :: "hosted_event list \<Rightarrow> bool" where
  "fenced [] \<longleftrightarrow> True"
| "fenced (ev # evs) \<longleftrightarrow>
     (\<forall>s e c. event_at ev = Some (s, e) \<longrightarrow> Revoked c \<in> set evs \<longrightarrow> cx_scope c = s \<longrightarrow> cx_epoch c \<le> e) \<and> fenced evs"

definition log_ok :: "(string \<rightharpoonup> int) \<Rightarrow> hosted_event list \<Rightarrow> bool" where
  "log_ok eps evs \<longleftrightarrow>
     (\<forall>c. Revoked c \<in> set evs \<longrightarrow> (\<exists>e. eps (cx_scope c) = Some e \<and> cx_epoch c \<le> e)) \<and>
     fenced evs \<and> (\<forall>t. CutTask t \<in> set evs \<longrightarrow> \<not> tk_section t \<and> \<not> tk_durable t)"

definition good_task :: "(string \<rightharpoonup> int) \<Rightarrow> task \<Rightarrow> bool" where
  "good_task eps t \<longleftrightarrow> task_ok t \<and> (tk_end t = Running \<longrightarrow> eps (tk_scope t) = Some (tk_epoch t))"

definition good_job :: "(string \<rightharpoonup> int) \<Rightarrow> job \<Rightarrow> bool" where
  "good_job eps j \<longleftrightarrow> good_task eps (jb_task j) \<and> tk_scope (jb_task j) = cx_scope (jb_context j)"

definition plain_task :: "task \<Rightarrow> bool" where
  "plain_task t \<longleftrightarrow> \<not> tk_abort t \<and> tk_end t \<in> {Running, Ended}"

definition no_jobs :: "engine \<Rightarrow> string \<Rightarrow> bool" where
  "no_jobs en s \<longleftrightarrow> (\<forall>j \<in> snd ` set (en_jobs en). cx_scope (jb_context j) \<noteq> s)"

definition good_entry :: "engine \<Rightarrow> string \<Rightarrow> entry \<Rightarrow> bool" where
  "good_entry en s e \<longleftrightarrow>
     cx_scope (se_context e) = s \<and>
     (\<forall>t \<in> set (se_deferred e). good_task (en_epochs en) t \<and> tk_scope t = s \<and> plain_task t) \<and>
     (se_quiesced e \<longrightarrow> se_deferred e = [] \<and> no_jobs en s \<and> (\<forall>j \<in> set (en_joining en). cx_scope (jb_context j) \<noteq> s))"

fun kont_ok :: "(string \<rightharpoonup> int) \<Rightarrow> kont \<Rightarrow> string \<Rightarrow> bool" where
  "kont_ok eps (KOpen c g r) s \<longleftrightarrow> s = cx_scope c \<and> (\<forall>e. eps s = Some e \<longrightarrow> e \<le> cx_epoch c)"
| "kont_ok eps (KRestore c g) s \<longleftrightarrow> s = cx_scope c \<and> (\<forall>e. eps s = Some e \<longrightarrow> e \<le> cx_epoch c)"
| "kont_ok eps (KRevoke c) s \<longleftrightarrow> s = cx_scope c \<and> (\<forall>e. eps s = Some e \<longrightarrow> e \<le> cx_epoch c)"
| "kont_ok eps (KClose c) s \<longleftrightarrow> s = cx_scope c"
| "kont_ok eps (KQuiesce c) s \<longleftrightarrow> s = cx_scope c"
| "kont_ok eps (KShutdown ss) s \<longleftrightarrow> True"

definition joining_in :: "engine \<Rightarrow> string \<Rightarrow> bool" where
  "joining_in en s \<longleftrightarrow> (\<forall>j \<in> set (en_joining en). cx_scope (jb_context j) = s)"

definition deferred_gone :: "engine \<Rightarrow> string \<Rightarrow> bool" where
  "deferred_gone en s \<longleftrightarrow> (\<forall>e. en_scopes en s = Some e \<longrightarrow> se_deferred e = [])"

definition stage_ok :: "engine \<Rightarrow> bool" where
  "stage_ok en \<longleftrightarrow>
     (case en_pc en of
        Idle \<Rightarrow> en_joining en = [] \<and> en_joining_deferred en = []
      | JoinRevoked c \<Rightarrow> kont_ok (en_epochs en) (KRevoke c) (cx_scope c) \<and> no_jobs en (cx_scope c) \<and> joining_in en (cx_scope c)
      | JoinDeferred c \<Rightarrow> kont_ok (en_epochs en) (KRevoke c) (cx_scope c) \<and> no_jobs en (cx_scope c) \<and> en_joining en = []
      | DrainJobs k s keys \<Rightarrow>
          kont_ok (en_epochs en) k s \<and> en_joining_deferred en = [] \<and> joining_in en s \<and>
          (\<forall>(key, j) \<in> set (en_jobs en). cx_scope (jb_context j) = s \<longleftrightarrow> key \<in> set keys)
      | StopScheduler k s \<Rightarrow>
          kont_ok (en_epochs en) k s \<and> en_joining_deferred en = [] \<and> en_joining en = [] \<and> no_jobs en s
      | DrainDeferred k s \<Rightarrow>
          kont_ok (en_epochs en) k s \<and> en_joining en = [] \<and> no_jobs en s \<and> deferred_gone en s \<and>
          list_all plain_task (en_joining_deferred en)
      | FlushScope k s \<Rightarrow>
          kont_ok (en_epochs en) k s \<and> en_joining_deferred en = [] \<and> en_joining en = [] \<and> no_jobs en s \<and> deferred_gone en s
      | Finish k s \<Rightarrow>
          kont_ok (en_epochs en) k s \<and> en_joining_deferred en = [] \<and> en_joining en = [] \<and> no_jobs en s \<and> deferred_gone en s)"

definition hosted_ok :: "engine \<Rightarrow> bool" where
  "hosted_ok en \<longleftrightarrow>
     distinct (map fst (en_jobs en)) \<and>
     (\<forall>j \<in> snd ` set (en_jobs en). good_job (en_epochs en) j) \<and>
     (\<forall>j \<in> set (en_joining en). good_job (en_epochs en) j) \<and>
     (\<forall>t \<in> set (en_joining_deferred en). good_task (en_epochs en) t) \<and>
     (\<forall>s e. en_scopes en s = Some e \<longrightarrow> good_entry en s e) \<and>
     stage_ok en \<and> en_detached en = [] \<and> log_ok (en_epochs en) (en_log en)"

definition panic_free :: "engine \<Rightarrow> bool" where
  "panic_free en \<longleftrightarrow> (\<forall>s. DeferredPanic s \<notin> set (en_log en))"

section \<open>Tasks and logs\<close>

lemma good_task_step: "good_task eps t \<Longrightarrow> task_step a t = Some t' \<Longrightarrow> good_task eps t'"
  using task_ok_step task_step_keeps unfolding good_task_def by metis

lemma good_task_revoke: "good_task eps t \<Longrightarrow> good_task eps (revoke_task t)"
  by (simp add: good_task_def task_ok_revoke)

lemma good_task_new: "eps s = Some e \<Longrightarrow> good_task eps (new_task s e)"
  by (simp add: good_task_def) (simp add: new_task_def)

lemma new_task_scope [simp]: "tk_scope (new_task s e) = s"
  by (simp add: new_task_def)

lemma plain_task_new [simp]: "plain_task (new_task s e)"
  by (simp add: plain_task_def new_task_def)

lemma plain_task_step: "plain_task t \<Longrightarrow> task_step a t = Some t' \<Longrightarrow> a \<noteq> APanic \<Longrightarrow> plain_task t'"
  by (cases a) (auto simp: plain_task_def phase_defs split: if_splits sum.splits)

lemma log_ok_quiet: "log_ok eps evs \<Longrightarrow> event_at ev = None \<Longrightarrow> (\<And>c. ev \<noteq> Revoked c) \<Longrightarrow>
    (\<And>t. ev = CutTask t \<Longrightarrow> \<not> tk_section t \<and> \<not> tk_durable t) \<Longrightarrow> log_ok eps (ev # evs)"
  by (auto simp: log_ok_def)

lemma log_ok_current:
  assumes "log_ok eps evs" "event_at ev = Some (s, e)" "\<And>e'. eps s = Some e' \<Longrightarrow> e' \<le> e"
  shows "log_ok eps (ev # evs)"
proof -
  have "cx_epoch c \<le> e" if "Revoked c \<in> set evs" "cx_scope c = s" for c
    using assms(1,3) that order_trans unfolding log_ok_def by blast
  moreover have "ev \<noteq> Revoked c" "ev \<noteq> CutTask t" for c t using assms(2) by (auto simp: event_at_def)
  ultimately show ?thesis using assms(1,2) by (auto simp: log_ok_def)
qed

lemma log_ok_epochs:
  assumes "log_ok eps evs" "\<And>e. eps s = Some e \<Longrightarrow> e \<le> e'"
  shows "log_ok (eps(s \<mapsto> e')) evs"
  using assms unfolding log_ok_def by (auto intro: order_trans)

lemma log_ok_task:
  assumes "log_ok eps (en_log en)" "good_task eps t" "task_step a t = Some t'"
  shows "log_ok eps (en_log (log_task b a t en))"
proof (cases a)
  case AWrite
  then show ?thesis
    using log_ok_current [OF assms(1), of "Wrote (tk_scope t) (tk_epoch t)"] assms(2,3)
    by (auto simp: log_task_def emit_def event_at_def good_task_def dest: task_step_keeps)
next
  case ACancel
  then show ?thesis
    using log_ok_quiet [OF assms(1), of "CutTask t"] cancel_between_sections assms(2,3)
    by (auto simp: log_task_def emit_def event_at_def good_task_def)
next
  case APanic
  then show ?thesis
    using log_ok_quiet [OF assms(1), of "DeferredPanic (tk_scope t)"] assms(1)
    by (auto simp: log_task_def emit_def event_at_def)
qed (use assms(1) in \<open>simp_all add: log_task_def\<close>)

lemma log_task_sel [simp]:
  "en_bound (log_task b a t en) = en_bound en" "en_epochs (log_task b a t en) = en_epochs en"
  "en_scopes (log_task b a t en) = en_scopes en" "en_jobs (log_task b a t en) = en_jobs en"
  "en_joining (log_task b a t en) = en_joining en" "en_joining_deferred (log_task b a t en) = en_joining_deferred en"
  "en_detached (log_task b a t en) = en_detached en" "en_pc (log_task b a t en) = en_pc en"
  by (simp_all add: log_task_def emit_def split: task_act.splits)

section \<open>Steps of tasks and runs\<close>

lemma set_alist_update: "set (AList.update k v xs) \<subseteq> insert (k, v) (set xs)"
  by (induction xs) auto

lemma set_alist_delete: "set (AList.delete k xs) \<subseteq> set xs"
  by (auto simp: AList.delete_eq)

lemma alist_delete_gone: "(k', v) \<in> set (AList.delete k xs) \<Longrightarrow> k' \<noteq> k"
  by (auto simp: AList.delete_eq)

text \<open>An update of the jobs, the joined tasks, the entries and the log that keeps contexts and stages.\<close>

lemma hosted_ok_frame:
  assumes ok: "hosted_ok en"
    and same: "en_epochs en' = en_epochs en" "en_pc en' = en_pc en" "en_detached en' = en_detached en"
    and jobs: "distinct (map fst (en_jobs en'))"
      "\<And>k j. (k, j) \<in> set (en_jobs en') \<Longrightarrow>
         good_job (en_epochs en) j \<and> (\<exists>j0. (k, j0) \<in> set (en_jobs en) \<and> jb_context j0 = jb_context j)"
    and joining: "\<And>j. j \<in> set (en_joining en') \<Longrightarrow>
         good_job (en_epochs en) j \<and> (\<exists>j0 \<in> set (en_joining en). jb_context j0 = jb_context j)"
      "en_joining_deferred en = [] \<Longrightarrow> en_joining_deferred en' = []"
      "\<And>t. t \<in> set (en_joining_deferred en') \<Longrightarrow> good_task (en_epochs en) t"
      "list_all plain_task (en_joining_deferred en) \<Longrightarrow> list_all plain_task (en_joining_deferred en')"
    and entries: "\<And>s e. en_scopes en' s = Some e \<Longrightarrow> \<exists>e0. en_scopes en s = Some e0 \<and> se_context e = se_context e0 \<and>
         (se_quiesced e \<longrightarrow> se_quiesced e0) \<and> (se_deferred e0 = [] \<longrightarrow> no_jobs en s \<longrightarrow> en_joining en = [] \<longrightarrow> se_deferred e = []) \<and>
         (se_quiesced e \<longrightarrow> se_deferred e = []) \<and>
         (\<forall>t \<in> set (se_deferred e). good_task (en_epochs en) t \<and> tk_scope t = s \<and> plain_task t)"
    and lg: "log_ok (en_epochs en) (en_log en')"
  shows "hosted_ok en'"
proof -
  have nj: "no_jobs en s \<Longrightarrow> no_jobs en' s" for s using jobs(2) unfolding no_jobs_def by fastforce
  have ji: "joining_in en s \<Longrightarrow> joining_in en' s" for s using joining(1) unfolding joining_in_def by fastforce
  have je: "en_joining en = [] \<Longrightarrow> en_joining en' = []" using joining(1) by (cases "en_joining en'") auto
  have keys: "(\<forall>(key, j) \<in> set (en_jobs en). cx_scope (jb_context j) = s \<longleftrightarrow> key \<in> set keys) \<Longrightarrow>
      (\<forall>(key, j) \<in> set (en_jobs en'). cx_scope (jb_context j) = s \<longleftrightarrow> key \<in> set keys)" for s keys
    using jobs(2) by fastforce
  have dg: "deferred_gone en s \<Longrightarrow> no_jobs en s \<Longrightarrow> en_joining en = [] \<Longrightarrow> deferred_gone en' s" for s
    using entries [of s] unfolding deferred_gone_def by metis
  have "stage_ok en'"
    using ok nj ji je keys dg joining(2,4) same unfolding hosted_ok_def stage_ok_def
    by (cases "en_pc en") auto
  moreover have "good_entry en' s e" if "en_scopes en' s = Some e" for s e
  proof -
    from entries [OF that] obtain e0 where e0: "en_scopes en s = Some e0" "se_context e = se_context e0"
        "se_quiesced e \<longrightarrow> se_quiesced e0 \<and> se_deferred e = []"
        "\<forall>t \<in> set (se_deferred e). good_task (en_epochs en) t \<and> tk_scope t = s \<and> plain_task t" by blast
    then have g: "good_entry en s e0" using ok by (auto simp: hosted_ok_def)
    have "\<forall>j \<in> set (en_joining en'). cx_scope (jb_context j) \<noteq> s"
      if "\<forall>j \<in> set (en_joining en). cx_scope (jb_context j) \<noteq> s"
      using that joining(1) by fastforce
    with e0 g nj show ?thesis by (auto simp: good_entry_def same)
  qed
  ultimately show ?thesis
    using ok jobs joining(1,3) lg same by (auto simp: hosted_ok_def)
qed

lemma entry_self:
  assumes "hosted_ok en" "en_scopes en s = Some e"
  shows "\<exists>e0. en_scopes en s = Some e0 \<and> se_context e = se_context e0 \<and>
         (se_quiesced e \<longrightarrow> se_quiesced e0) \<and> (se_deferred e0 = [] \<longrightarrow> no_jobs en s \<longrightarrow> en_joining en = [] \<longrightarrow> se_deferred e = []) \<and>
         (se_quiesced e \<longrightarrow> se_deferred e = []) \<and>
         (\<forall>t \<in> set (se_deferred e). good_task (en_epochs en) t \<and> tk_scope t = s \<and> plain_task t)"
  using assms by (auto simp: hosted_ok_def good_entry_def)

lemma jobs_self:
  "hosted_ok en \<Longrightarrow> (k, j) \<in> set (en_jobs en) \<Longrightarrow>
     good_job (en_epochs en) j \<and> (\<exists>j0. (k, j0) \<in> set (en_jobs en) \<and> jb_context j0 = jb_context j)"
  by (force simp: hosted_ok_def)

lemma joining_self:
  "hosted_ok en \<Longrightarrow> j \<in> set (en_joining en) \<Longrightarrow>
     good_job (en_epochs en) j \<and> (\<exists>j0 \<in> set (en_joining en). jb_context j0 = jb_context j)"
  by (auto simp: hosted_ok_def)

lemma hosted_ok_facts:
  assumes "hosted_ok en"
  shows "distinct (map fst (en_jobs en))" "t \<in> set (en_joining_deferred en) \<Longrightarrow> good_task (en_epochs en) t"
    "log_ok (en_epochs en) (en_log en)" "en_detached en = []" "stage_ok en"
  using assms by (simp_all add: hosted_ok_def)

lemma hosted_ok_job:
  assumes ok: "hosted_ok en" and j: "map_of (en_jobs en) key = Some j" and t: "task_step a (jb_task j) = Some t"
  shows "hosted_ok (log_task False a (jb_task j) (en\<lparr>en_jobs := AList.update key (j\<lparr>jb_task := t\<rparr>) (en_jobs en)\<rparr>))"
proof -
  have m: "(key, j) \<in> set (en_jobs en)" using j by (rule map_of_SomeD)
  then have g: "good_job (en_epochs en) j" using ok by (force simp: hosted_ok_def)
  then have g': "good_job (en_epochs en) (j\<lparr>jb_task := t\<rparr>)"
    using good_task_step [OF _ t] task_step_keeps [OF t] by (simp add: good_job_def)
  show ?thesis
  proof (rule hosted_ok_frame [OF ok])
    fix k j1 assume "(k, j1) \<in> set (en_jobs (log_task False a (jb_task j)
        (en\<lparr>en_jobs := AList.update key (j\<lparr>jb_task := t\<rparr>) (en_jobs en)\<rparr>)))"
    then have "(k, j1) \<in> insert (key, j\<lparr>jb_task := t\<rparr>) (set (en_jobs en))"
      using set_alist_update by fastforce
    then show "good_job (en_epochs en) j1 \<and> (\<exists>j0. (k, j0) \<in> set (en_jobs en) \<and> jb_context j0 = jb_context j1)"
      using g' m ok by (force simp: hosted_ok_def)
  next
    have "good_task (en_epochs en) (jb_task j)" using g by (simp add: good_job_def)
    from log_ok_task [OF _ this t] show "log_ok (en_epochs en) (en_log (log_task False a (jb_task j)
        (en\<lparr>en_jobs := AList.update key (j\<lparr>jb_task := t\<rparr>) (en_jobs en)\<rparr>)))"
      using hosted_ok_facts(3) [OF ok] by simp
  qed (use hosted_ok_facts [OF ok] joining_self [OF ok] entry_self [OF ok] in \<open>simp_all add: distinct_update\<close>)
qed

lemma hosted_ok_joining:
  assumes ok: "hosted_ok en" and i: "i < length (en_joining en)" and t: "task_step a (jb_task (en_joining en ! i)) = Some t"
  shows "hosted_ok (log_task False a (jb_task (en_joining en ! i))
    (en\<lparr>en_joining := (en_joining en)[i := (en_joining en ! i)\<lparr>jb_task := t\<rparr>]\<rparr>))"
proof -
  let ?j = "en_joining en ! i"
  have m: "?j \<in> set (en_joining en)" using i by simp
  then have g: "good_job (en_epochs en) ?j" using joining_self [OF ok] by blast
  then have gt: "good_task (en_epochs en) (jb_task ?j)" by (simp add: good_job_def)
  have g': "good_job (en_epochs en) (?j\<lparr>jb_task := t\<rparr>)"
    using g good_task_step [OF gt t] task_step_keeps [OF t] by (simp add: good_job_def)
  show ?thesis
  proof (rule hosted_ok_frame [OF ok])
    fix j1 assume "j1 \<in> set (en_joining (log_task False a (jb_task ?j)
        (en\<lparr>en_joining := (en_joining en)[i := ?j\<lparr>jb_task := t\<rparr>]\<rparr>)))"
    then have "j1 \<in> insert (?j\<lparr>jb_task := t\<rparr>) (set (en_joining en))"
      using set_update_subset_insert by fastforce
    then show "good_job (en_epochs en) j1 \<and> (\<exists>j0 \<in> set (en_joining en). jb_context j0 = jb_context j1)"
      using g' m joining_self [OF ok] by fastforce
  next
    from log_ok_task [OF _ gt t] show "log_ok (en_epochs en) (en_log (log_task False a (jb_task ?j)
        (en\<lparr>en_joining := (en_joining en)[i := ?j\<lparr>jb_task := t\<rparr>]\<rparr>)))"
      using hosted_ok_facts(3) [OF ok] by simp
  qed (use hosted_ok_facts [OF ok] jobs_self [OF ok] entry_self [OF ok] in \<open>simp_all\<close>)
qed

lemma hosted_ok_deferred:
  assumes ok: "hosted_ok en" and e: "en_scopes en s = Some e" and i: "i < length (se_deferred e)"
    and t: "task_step a (se_deferred e ! i) = Some t" and np: "a \<noteq> APanic"
  shows "hosted_ok (log_task True a (se_deferred e ! i)
    (set_entry s (e\<lparr>se_deferred := (se_deferred e)[i := t]\<rparr>) en))"
proof -
  let ?t = "se_deferred e ! i"
  have m: "?t \<in> set (se_deferred e)" using i by simp
  have ge: "good_entry en s e" using ok e by (simp add: hosted_ok_def)
  with m have g: "good_task (en_epochs en) ?t" "tk_scope ?t = s" "plain_task ?t" by (auto simp: good_entry_def)
  have g': "good_task (en_epochs en) t" "tk_scope t = s" "plain_task t"
    using good_task_step [OF g(1) t] task_step_keeps [OF t] plain_task_step [OF g(3) t np] g(2) by simp_all
  have all: "\<forall>x \<in> set ((se_deferred e)[i := t]). good_task (en_epochs en) x \<and> tk_scope x = s \<and> plain_task x"
    using ge g' set_update_subset_insert [of "se_deferred e" i t] unfolding good_entry_def by blast
  have nq: "\<not> se_quiesced e" using ge m by (auto simp: good_entry_def)
  have ne: "se_deferred e \<noteq> []" using m by auto
  show ?thesis
  proof (rule hosted_ok_frame [OF ok])
    fix s1 e1 assume "en_scopes (log_task True a ?t (set_entry s (e\<lparr>se_deferred := (se_deferred e)[i := t]\<rparr>) en)) s1 = Some e1"
    then consider "s1 = s" "e1 = e\<lparr>se_deferred := (se_deferred e)[i := t]\<rparr>" | "s1 \<noteq> s" "en_scopes en s1 = Some e1"
      by (auto simp: set_entry_def split: if_splits)
    then show "\<exists>e0. en_scopes en s1 = Some e0 \<and> se_context e1 = se_context e0 \<and>
         (se_quiesced e1 \<longrightarrow> se_quiesced e0) \<and> (se_deferred e0 = [] \<longrightarrow> no_jobs en s1 \<longrightarrow> en_joining en = [] \<longrightarrow> se_deferred e1 = []) \<and>
         (se_quiesced e1 \<longrightarrow> se_deferred e1 = []) \<and>
         (\<forall>t \<in> set (se_deferred e1). good_task (en_epochs en) t \<and> tk_scope t = s1 \<and> plain_task t)"
    proof cases
      case 1
      then show ?thesis using e all nq ne by simp
    next
      case 2
      then show ?thesis using entry_self [OF ok 2(2)] by simp
    qed
  next
    from log_ok_task [OF _ g(1) t] show "log_ok (en_epochs en) (en_log (log_task True a ?t
        (set_entry s (e\<lparr>se_deferred := (se_deferred e)[i := t]\<rparr>) en)))"
      using hosted_ok_facts(3) [OF ok] by (simp add: set_entry_def)
  qed (use hosted_ok_facts [OF ok] jobs_self [OF ok] joining_self [OF ok] in \<open>simp_all add: set_entry_def\<close>)
qed

lemma hosted_ok_joining_deferred:
  assumes ok: "hosted_ok en" and i: "i < length (en_joining_deferred en)"
    and t: "task_step a (en_joining_deferred en ! i) = Some t" and np: "a \<noteq> APanic"
  shows "hosted_ok (log_task True a (en_joining_deferred en ! i)
    (en\<lparr>en_joining_deferred := (en_joining_deferred en)[i := t]\<rparr>))"
proof -
  let ?t = "en_joining_deferred en ! i"
  have m: "?t \<in> set (en_joining_deferred en)" using i by simp
  have g: "good_task (en_epochs en) ?t" using hosted_ok_facts(2) [OF ok m] .
  note g' = good_task_step [OF g t]
  show ?thesis
  proof (rule hosted_ok_frame [OF ok])
    fix x assume "x \<in> set (en_joining_deferred (log_task True a ?t
        (en\<lparr>en_joining_deferred := (en_joining_deferred en)[i := t]\<rparr>)))"
    then have "x \<in> insert t (set (en_joining_deferred en))" using set_update_subset_insert by fastforce
    then show "good_task (en_epochs en) x" using g' hosted_ok_facts(2) [OF ok] by blast
  next
    assume "list_all plain_task (en_joining_deferred en)"
    then have "\<forall>x \<in> insert t (set (en_joining_deferred en)). plain_task x"
      using plain_task_step [OF _ t np] m by (auto simp: list_all_iff)
    then show "list_all plain_task (en_joining_deferred (log_task True a ?t
        (en\<lparr>en_joining_deferred := (en_joining_deferred en)[i := t]\<rparr>)))"
      using set_update_subset_insert [of "en_joining_deferred en" i t] by (auto simp: list_all_iff)
  next
    from log_ok_task [OF _ g t] show "log_ok (en_epochs en) (en_log (log_task True a ?t
        (en\<lparr>en_joining_deferred := (en_joining_deferred en)[i := t]\<rparr>)))"
      using hosted_ok_facts(3) [OF ok] by simp
  qed (use hosted_ok_facts [OF ok] jobs_self [OF ok] joining_self [OF ok] entry_self [OF ok] in \<open>simp_all\<close>)
qed

text \<open>New deferred work of a running job, and the steps of the scheduler.\<close>

lemma hosted_ok_entry:
  assumes ok: "hosted_ok en" and e: "en_scopes en s = Some e"
    and e1: "se_context e1 = se_context e" "se_quiesced e1 = se_quiesced e"
      "se_deferred e = [] \<Longrightarrow> no_jobs en s \<Longrightarrow> en_joining en = [] \<Longrightarrow> se_deferred e1 = []"
      "se_quiesced e \<Longrightarrow> se_deferred e1 = []"
      "\<And>t. t \<in> set (se_deferred e1) \<Longrightarrow> good_task (en_epochs en) t \<and> tk_scope t = s \<and> plain_task t"
  shows "hosted_ok (set_entry s e1 en)"
proof (rule hosted_ok_frame [OF ok])
  fix s1 e2 assume "en_scopes (set_entry s e1 en) s1 = Some e2"
  then consider "s1 = s" "e2 = e1" | "s1 \<noteq> s" "en_scopes en s1 = Some e2"
    by (auto simp: set_entry_def split: if_splits)
  then show "\<exists>e0. en_scopes en s1 = Some e0 \<and> se_context e2 = se_context e0 \<and>
         (se_quiesced e2 \<longrightarrow> se_quiesced e0) \<and> (se_deferred e0 = [] \<longrightarrow> no_jobs en s1 \<longrightarrow> en_joining en = [] \<longrightarrow> se_deferred e2 = []) \<and>
         (se_quiesced e2 \<longrightarrow> se_deferred e2 = []) \<and>
         (\<forall>t \<in> set (se_deferred e2). good_task (en_epochs en) t \<and> tk_scope t = s1 \<and> plain_task t)"
  proof cases
    case 1
    then show ?thesis using e e1 by simp
  next
    case 2
    then show ?thesis using entry_self [OF ok 2(2)] by simp
  qed
qed (use hosted_ok_facts [OF ok] jobs_self [OF ok] joining_self [OF ok] in \<open>simp_all add: set_entry_def\<close>)

lemma hosted_ok_track:
  assumes ok: "hosted_ok en" and t: "track_for t en = Some en'" "good_task (en_epochs en) t"
    and src: "\<exists>j \<in> snd ` set (en_jobs en) \<union> set (en_joining en). jb_task j = t \<and> cx_scope (jb_context j) = tk_scope t"
  shows "hosted_ok en'"
proof -
  from t obtain e where r: "tk_end t = Running" "en_scopes en (tk_scope t) = Some e"
      "en' = set_entry (tk_scope t) (track (new_task (tk_scope t) (tk_epoch t)) e) en"
    by (auto simp: track_for_def split: if_splits)
  have ge: "good_entry en (tk_scope t) e" using ok r(2) by (simp add: hosted_ok_def)
  have new: "good_task (en_epochs en) (new_task (tk_scope t) (tk_epoch t))"
    using t(2) r(1) by (intro good_task_new) (simp add: good_task_def)
  have nq: "\<not> se_quiesced e"
    using ge src by (auto simp: good_entry_def no_jobs_def)
  show ?thesis
    unfolding r(3)
  proof (rule hosted_ok_entry [OF ok r(2)])
    assume "no_jobs en (tk_scope t)" "en_joining en = []"
    then show "se_deferred (track (new_task (tk_scope t) (tk_epoch t)) e) = []"
      using src by (auto simp: no_jobs_def)
  qed (use ge nq new in \<open>auto simp: track_def Let_def good_entry_def split: if_splits\<close>)
qed

lemma hosted_ok_emit:
  assumes ok: "hosted_ok en" and lg: "log_ok (en_epochs en) (ev # en_log en)"
  shows "hosted_ok (emit ev en)"
  by (rule hosted_ok_frame [OF ok])
    (use hosted_ok_facts [OF ok] jobs_self [OF ok] joining_self [OF ok] entry_self [OF ok] lg in
      \<open>simp_all add: emit_def\<close>)

lemma hosted_ok_refuse: "hosted_ok en \<Longrightarrow> hosted_ok (emit Refused en)"
  by (intro hosted_ok_emit log_ok_quiet) (auto simp: hosted_ok_def event_at_def)

section \<open>Stages of the handler\<close>

lemma hosted_ok_stage:
  assumes ok: "hosted_ok en"
    and same: "en_epochs en' = en_epochs en" "en_detached en' = []"
    and jobs: "distinct (map fst (en_jobs en'))"
      "\<And>k j. (k, j) \<in> set (en_jobs en') \<Longrightarrow>
         good_job (en_epochs en) j \<and> (\<exists>j0 \<in> snd ` set (en_jobs en). jb_context j0 = jb_context j)"
    and joining: "\<And>j. j \<in> set (en_joining en') \<Longrightarrow>
         good_job (en_epochs en) j \<and> (\<exists>j0 \<in> snd ` set (en_jobs en) \<union> set (en_joining en). jb_context j0 = jb_context j)"
      "\<And>t. t \<in> set (en_joining_deferred en') \<Longrightarrow> good_task (en_epochs en) t"
    and entries: "\<And>s e. en_scopes en' s = Some e \<Longrightarrow> cx_scope (se_context e) = s \<and>
         (\<forall>t \<in> set (se_deferred e). good_task (en_epochs en) t \<and> tk_scope t = s \<and> plain_task t) \<and>
         (se_quiesced e \<longrightarrow> se_deferred e = [] \<and> no_jobs en s \<and> (\<forall>j \<in> set (en_joining en). cx_scope (jb_context j) \<noteq> s))"
    and st: "stage_ok en'"
    and lg: "log_ok (en_epochs en) (en_log en')"
  shows "hosted_ok en'"
proof -
  have "good_entry en' s e" if "en_scopes en' s = Some e" for s e
  proof -
    have nj: "no_jobs en s \<Longrightarrow> no_jobs en' s" using jobs(2) unfolding no_jobs_def by fastforce
    have "\<forall>j \<in> set (en_joining en'). cx_scope (jb_context j) \<noteq> s"
      if "no_jobs en s" "\<forall>j \<in> set (en_joining en). cx_scope (jb_context j) \<noteq> s"
      using that joining(1) unfolding no_jobs_def by fastforce
    with entries [OF that] nj show ?thesis by (auto simp: good_entry_def same)
  qed
  then show ?thesis
    using jobs joining st lg same by (auto simp: hosted_ok_def)
qed

lemma entry_facts:
  assumes "hosted_ok en" "en_scopes en s = Some e"
  shows "cx_scope (se_context e) = s \<and>
         (\<forall>t \<in> set (se_deferred e). good_task (en_epochs en) t \<and> tk_scope t = s \<and> plain_task t) \<and>
         (se_quiesced e \<longrightarrow> se_deferred e = [] \<and> no_jobs en s \<and> (\<forall>j \<in> set (en_joining en). cx_scope (jb_context j) \<noteq> s))"
  using assms by (auto simp: hosted_ok_def good_entry_def)

lemma jobs_facts:
  assumes "hosted_ok en" "(k, j) \<in> set (en_jobs en)"
  shows "good_job (en_epochs en) j \<and> (\<exists>j0 \<in> snd ` set (en_jobs en). jb_context j0 = jb_context j)"
proof -
  from assms(2) have "j \<in> snd ` set (en_jobs en)" by (rule rev_image_eqI) simp
  then show ?thesis using assms(1) unfolding hosted_ok_def by blast
qed

lemma joining_facts:
  "hosted_ok en \<Longrightarrow> j \<in> set (en_joining en) \<Longrightarrow>
     good_job (en_epochs en) j \<and> (\<exists>j0 \<in> snd ` set (en_jobs en) \<union> set (en_joining en). jb_context j0 = jb_context j)"
  by (auto simp: hosted_ok_def)

lemma hosted_ok_same:
  assumes ok: "hosted_ok en"
    and same: "en_epochs en' = en_epochs en" "en_jobs en' = en_jobs en" "en_scopes en' = en_scopes en"
      "en_log en' = en_log en" "en_detached en' = en_detached en"
      "set (en_joining en') \<subseteq> set (en_joining en)" "set (en_joining_deferred en') \<subseteq> set (en_joining_deferred en)"
    and st: "stage_ok en'"
  shows "hosted_ok en'"
proof -
  have "good_entry en' s e" if "good_entry en s e" for s e
    using that same unfolding good_entry_def no_jobs_def by auto
  then show ?thesis using ok same st unfolding hosted_ok_def by auto
qed

lemma hosted_ok_pc: "hosted_ok en \<Longrightarrow> stage_ok (en\<lparr>en_pc := p\<rparr>) \<Longrightarrow> hosted_ok (en\<lparr>en_pc := p\<rparr>)"
  by (rule hosted_ok_same) auto

text \<open>Lists that are emptied once their tasks have ended.\<close>

lemma hosted_ok_joined:
  "hosted_ok en \<Longrightarrow> stage_ok (en\<lparr>en_joining := [], en_pc := p\<rparr>) \<Longrightarrow> hosted_ok (en\<lparr>en_joining := [], en_pc := p\<rparr>)"
  by (rule hosted_ok_same) auto

lemma hosted_ok_joined_deferred:
  "hosted_ok en \<Longrightarrow> stage_ok (en\<lparr>en_joining_deferred := [], en_pc := p\<rparr>) \<Longrightarrow>
     hosted_ok (en\<lparr>en_joining_deferred := [], en_pc := p\<rparr>)"
  by (rule hosted_ok_same) auto

lemma scope_keys_all:
  assumes "distinct (map fst (en_jobs en))" "(key, j) \<in> set (en_jobs en)"
  shows "cx_scope (jb_context j) = s \<longleftrightarrow> key \<in> set (scope_keys en s)"
proof
  assume "key \<in> set (scope_keys en s)"
  then obtain j1 where "(key, j1) \<in> set (en_jobs en)" "cx_scope (jb_context j1) = s"
    by (auto simp: scope_keys_def)
  with assms show "cx_scope (jb_context j) = s" by (metis map_of_is_SomeI option.inject)
qed (use assms(2) in \<open>force simp: scope_keys_def\<close>)

lemma hosted_ok_replace:
  assumes ok: "hosted_ok en" and k: "kont_ok (en_epochs en) k s" and j: "en_joining en = []" "en_joining_deferred en = []"
  shows "hosted_ok (replace_scope k s en)"
  unfolding replace_scope_def
  by (rule hosted_ok_pc [OF ok]) (use k j scope_keys_all [OF hosted_ok_facts(1) [OF ok], of _ _ s] in \<open>auto simp: stage_ok_def joining_in_def\<close>)

lemma hosted_ok_quiesce:
  assumes ok: "hosted_ok en" and k: "kont_ok (en_epochs en) k s" and nj: "no_jobs en s"
    and j: "en_joining en = []" "en_joining_deferred en = []"
  shows "hosted_ok (quiesce k s en)"
proof (cases "en_scopes en s")
  case None
  then have "stage_ok (en\<lparr>en_pc := Finish k s\<rparr>)" using k nj j by (simp add: stage_ok_def deferred_gone_def no_jobs_def)
  from hosted_ok_pc [OF ok this] None show ?thesis by (simp add: quiesce_def)
next
  case (Some e)
  show ?thesis
  proof (cases "se_quiesced e")
    case True
    then have "stage_ok (en\<lparr>en_pc := Finish k s\<rparr>)"
      using k nj j Some entry_facts [OF ok Some] by (simp add: stage_ok_def deferred_gone_def no_jobs_def)
    from hosted_ok_pc [OF ok this] Some True show ?thesis by (simp add: quiesce_def)
  next
    case False
    let ?e = "e\<lparr>se_accepting := False, se_loop := False\<rparr>"
    have "hosted_ok (set_entry s ?e en)"
      by (rule hosted_ok_entry [OF ok Some]) (use entry_facts [OF ok Some] False in simp_all)
    moreover have "stage_ok ((set_entry s ?e en)\<lparr>en_pc := StopScheduler k s\<rparr>)"
      using k nj j by (simp add: stage_ok_def set_entry_def no_jobs_def)
    ultimately show ?thesis using hosted_ok_pc Some False by (simp add: quiesce_def)
  qed
qed

section \<open>Requests\<close>

lemma hosted_ok_event:
  assumes "hosted_ok en" "ensure_epoch en c" "event_at ev = Some (cx_scope c, cx_epoch c)"
  shows "hosted_ok (emit ev en)"
  using assms by (intro hosted_ok_emit log_ok_current [OF _ assms(3)]) (auto simp: hosted_ok_def ensure_epoch_def)

lemma idle_stage: "hosted_ok en \<Longrightarrow> en_pc en = Idle \<Longrightarrow> en_joining en = [] \<and> en_joining_deferred en = []"
  by (simp add: hosted_ok_def stage_ok_def)

lemma ensure_liveD:
  assumes "ensure_live en c"
  shows "ensure_epoch en c" "\<exists>e. en_scopes en (cx_scope c) = Some e \<and> \<not> se_quiesced e"
  using assms by (auto simp: ensure_live_def ensure_scope_context_def accepts_writes_def split: option.splits)

lemma hosted_ok_insert:
  assumes ok: "hosted_ok en" and pc: "en_pc en = Idle" and av: "ensure_job_available en op c"
  shows "hosted_ok (insert_job op c en)"
proof -
  from av have live: "ensure_live en c" and fresh: "map_of (en_jobs en) (job_key c op) = None"
    by (simp_all add: ensure_job_available_def)
  from ensure_liveD [OF live] obtain e0 where e0: "en_scopes en (cx_scope c) = Some e0" "\<not> se_quiesced e0" by blast
  have eps: "en_epochs en (cx_scope c) = Some (cx_epoch c)" using ensure_liveD(1) [OF live] by (simp add: ensure_epoch_def)
  have "good_entry (insert_job op c en) s e" if "en_scopes en s = Some e" for s e
  proof -
    have "good_entry en s e" using ok that by (simp add: hosted_ok_def)
    moreover have "s = cx_scope c \<Longrightarrow> e = e0" using that e0(1) by simp
    ultimately show ?thesis using e0(2) by (auto simp: good_entry_def insert_job_def no_jobs_def)
  qed
  moreover have "stage_ok (insert_job op c en)" using idle_stage [OF ok pc] pc by (simp add: stage_ok_def insert_job_def)
  ultimately show ?thesis
    using ok fresh good_task_new [of "en_epochs en", OF eps]
    by (auto simp: hosted_ok_def insert_job_def good_job_def map_of_eq_None_iff)
qed

lemma hosted_ok_start:
  assumes "hosted_ok en" "en_pc en = Idle"
  shows "hosted_ok (start_job c op b en)"
proof (cases "ensure_job_available en op c \<and> b")
  case True
  then have "ensure_epoch (insert_job op c en) c"
    using ensure_liveD(1) by (auto simp: ensure_job_available_def ensure_epoch_def ensure_bound_context_def insert_job_def)
  then have "hosted_ok (emit (Accepted c op) (insert_job op c en))"
    using hosted_ok_event [OF hosted_ok_insert] assms True by (simp add: event_at_def)
  then show ?thesis using True by (simp add: start_job_def)
qed (use assms hosted_ok_refuse in \<open>auto simp: start_job_def\<close>)

lemma hosted_ok_begin_await:
  assumes ok: "hosted_ok en" and pc: "en_pc en = Idle"
  shows "hosted_ok (begin_await c op en)"
proof (cases "ensure_epoch en c \<and> (\<exists>j. map_of (en_jobs en) (job_key c op) = Some j \<and> jb_context j = c \<and> jb_receiver j)")
  case True
  then obtain j where j: "map_of (en_jobs en) (job_key c op) = Some j" "jb_context j = c" "jb_receiver j" "ensure_epoch en c"
    by blast
  have m: "(job_key c op, j) \<in> set (en_jobs en)" using j(1) by (rule map_of_SomeD)
  have g: "good_job (en_epochs en) (j\<lparr>jb_receiver := False\<rparr>)"
    using jobs_facts [OF ok m] by (simp add: good_job_def)
  let ?en = "en\<lparr>en_jobs := AList.update (job_key c op) (j\<lparr>jb_receiver := False\<rparr>) (en_jobs en),
     en_awaits := \<lparr>aw_context = c, aw_operation = op, aw_serial = jb_serial j\<rparr> # en_awaits en\<rparr>"
  have sub: "(k, j1) \<in> set (en_jobs ?en) \<Longrightarrow> (k, j1) = (job_key c op, j\<lparr>jb_receiver := False\<rparr>) \<or> (k, j1) \<in> set (en_jobs en)"
    for k j1 using set_alist_update by fastforce
  have "hosted_ok ?en"
  proof (rule hosted_ok_frame [OF ok])
    fix k j1 assume "(k, j1) \<in> set (en_jobs ?en)"
    from sub [OF this] show "good_job (en_epochs en) j1 \<and> (\<exists>j0. (k, j0) \<in> set (en_jobs en) \<and> jb_context j0 = jb_context j1)"
      using g m jobs_self [OF ok] by auto
  qed (use hosted_ok_facts [OF ok] joining_self [OF ok] entry_self [OF ok] in \<open>simp_all add: distinct_update\<close>)
  then show ?thesis using j by (simp add: begin_await_def)
qed (use ok hosted_ok_refuse in \<open>auto simp: begin_await_def split: option.splits\<close>)

lemma hosted_ok_finish_await:
  assumes ok: "hosted_ok en" and pc: "en_pc en = Idle"
  shows "hosted_ok (finish_await a b en)"
proof -
  let ?key = "job_key (aw_context a) (aw_operation a)"
  define jobs where "jobs = (case map_of (en_jobs en) ?key of
       Some j \<Rightarrow> if jb_serial j = aw_serial a then AList.delete ?key (en_jobs en) else en_jobs en
     | None \<Rightarrow> en_jobs en)"
  let ?en = "en\<lparr>en_awaits := remove1 a (en_awaits en), en_jobs := jobs\<rparr>"
  have sub: "set jobs \<subseteq> set (en_jobs en)"
    using set_alist_delete [of ?key "en_jobs en"] by (auto simp: jobs_def split: option.split)
  have dist: "distinct (map fst jobs)"
    using hosted_ok_facts(1) [OF ok] by (auto simp: jobs_def distinct_delete split: option.split)
  have en: "hosted_ok ?en"
  proof (rule hosted_ok_frame [OF ok])
    fix k j assume "(k, j) \<in> set (en_jobs ?en)"
    then have "(k, j) \<in> set (en_jobs en)" using sub by auto
    then show "good_job (en_epochs en) j \<and> (\<exists>j0. (k, j0) \<in> set (en_jobs en) \<and> jb_context j0 = jb_context j)"
      by (rule jobs_self [OF ok])
  qed (use dist hosted_ok_facts [OF ok] joining_self [OF ok] entry_self [OF ok] in simp_all)
  have eq: "finish_await a b en =
     (if ensure_epoch en (aw_context a) \<and> b then emit (Published (aw_context a) (aw_operation a)) ?en else emit Refused ?en)"
    by (simp add: finish_await_def Let_def jobs_def)
  have "hosted_ok (emit (Published (aw_context a) (aw_operation a)) ?en)" if "ensure_epoch en (aw_context a)"
    using that by (intro hosted_ok_event [OF en]) (simp_all add: ensure_epoch_def ensure_bound_context_def event_at_def)
  with hosted_ok_refuse [OF en] show ?thesis unfolding eq by simp
qed

lemma hosted_ok_revoke:
  assumes ok: "hosted_ok en" and pc: "en_pc en = Idle"
  shows "hosted_ok (revoke c en)"
proof (cases "ensure_bound_context en c \<and> (case en_epochs en (cx_scope c) of None \<Rightarrow> -1 | Some e \<Rightarrow> e) < cx_epoch c")
  case True
  let ?s = "cx_scope c"
  let ?mine = "filter (\<lambda>(_, j). cx_scope (jb_context j) = ?s) (en_jobs en)"
  let ?rest = "filter (\<lambda>(_, j). cx_scope (jb_context j) \<noteq> ?s) (en_jobs en)"
  let ?joining = "map (\<lambda>(_, j). j\<lparr>jb_task := revoke_task (jb_task j)\<rparr>) ?mine"
  define en2 where "en2 = (case en_scopes en ?s of
       None \<Rightarrow> en\<lparr>en_jobs := ?rest, en_joining := ?joining\<rparr>
     | Some e \<Rightarrow> en\<lparr>en_jobs := ?rest, en_joining := ?joining,
         en_scopes := (en_scopes en)(?s \<mapsto> e\<lparr>se_deferred := [], se_closed := True\<rparr>),
         en_joining_deferred := map revoke_task (se_deferred e)\<rparr>)"
  have eq: "revoke c en = en2\<lparr>en_pc := JoinRevoked c\<rparr>"
    using True by (auto simp: revoke_def signal_jobs_def begin_abort_def set_entry_def Let_def en2_def split: option.split)
  note idle = idle_stage [OF ok pc]
  have sel: "en_epochs en2 = en_epochs en" "en_detached en2 = en_detached en" "en_log en2 = en_log en"
      "en_jobs en2 = ?rest" "en_joining en2 = ?joining"
    by (simp_all add: en2_def split: option.split)
  have e_le: "\<And>e. en_epochs en ?s = Some e \<Longrightarrow> e \<le> cx_epoch c" using True by auto
  show ?thesis unfolding eq
  proof (rule hosted_ok_stage [OF ok])
    show "distinct (map fst (en_jobs (en2\<lparr>en_pc := JoinRevoked c\<rparr>)))"
      using hosted_ok_facts(1) [OF ok] by (simp add: sel distinct_map_filter)
    show "good_job (en_epochs en) j \<and> (\<exists>j0 \<in> snd ` set (en_jobs en). jb_context j0 = jb_context j)"
      if "(k, j) \<in> set (en_jobs (en2\<lparr>en_pc := JoinRevoked c\<rparr>))" for k j
      using that jobs_facts [OF ok, of k j] by (simp add: sel)
    show "good_job (en_epochs en) j \<and> (\<exists>j0 \<in> snd ` set (en_jobs en) \<union> set (en_joining en). jb_context j0 = jb_context j)"
      if "j \<in> set (en_joining (en2\<lparr>en_pc := JoinRevoked c\<rparr>))" for j
    proof -
      from that obtain k j1 where j1: "(k, j1) \<in> set (en_jobs en)" "j = j1\<lparr>jb_task := revoke_task (jb_task j1)\<rparr>"
        by (auto simp: sel)
      then have "good_job (en_epochs en) j1" using jobs_facts [OF ok j1(1)] by blast
      then have "good_job (en_epochs en) j" by (simp add: good_job_def good_task_revoke j1(2))
      moreover have "j1 \<in> snd ` set (en_jobs en)" using j1(1) by (rule rev_image_eqI) simp
      ultimately show ?thesis using j1(2) by (intro conjI bexI [of _ j1]) simp_all
    qed
    show "good_task (en_epochs en) t" if "t \<in> set (en_joining_deferred (en2\<lparr>en_pc := JoinRevoked c\<rparr>))" for t
      using that idle entry_facts [OF ok, of ?s] good_task_revoke
      by (auto simp: en2_def split: option.splits)
    show "cx_scope (se_context e) = s \<and>
         (\<forall>t \<in> set (se_deferred e). good_task (en_epochs en) t \<and> tk_scope t = s \<and> plain_task t) \<and>
         (se_quiesced e \<longrightarrow> se_deferred e = [] \<and> no_jobs en s \<and> (\<forall>j \<in> set (en_joining en). cx_scope (jb_context j) \<noteq> s))"
      if a: "en_scopes (en2\<lparr>en_pc := JoinRevoked c\<rparr>) s = Some e" for s e
    proof (cases "s = ?s")
      case True
      with a obtain e0 where "en_scopes en s = Some e0" "e = e0\<lparr>se_deferred := [], se_closed := True\<rparr>"
        by (auto simp: en2_def split: option.splits)
      then show ?thesis using entry_facts [OF ok, of s e0] by simp
    next
      case False
      with a have "en_scopes en s = Some e" by (auto simp: en2_def split: option.splits)
      then show ?thesis by (rule entry_facts [OF ok])
    qed
    show "stage_ok (en2\<lparr>en_pc := JoinRevoked c\<rparr>)"
      using e_le by (auto simp: stage_ok_def sel no_jobs_def joining_in_def)
  qed (use hosted_ok_facts [OF ok] in \<open>simp_all add: sel\<close>)
next
  case False
  then have "revoke c en = emit Refused en" by (auto simp: revoke_def Let_def not_less)
  then show ?thesis using hosted_ok_refuse [OF ok] by simp
qed

lemma hosted_ok_handle:
  assumes ok: "hosted_ok en" and pc: "en_pc en = Idle"
  shows "hosted_ok (handle rq order b en)"
proof -
  note r = hosted_ok_refuse [OF ok]
  note idle = idle_stage [OF ok pc]
  have repl: "hosted_ok (replace_scope k s en)" if "kont_ok (en_epochs en) k s" for k s
    using hosted_ok_replace [OF ok that] idle by blast
  have adv: "advance_epoch en c \<Longrightarrow> \<forall>e. en_epochs en (cx_scope c) = Some e \<longrightarrow> e \<le> cx_epoch c" for c
    by (auto simp: advance_epoch_def)
  have opn: "hosted_ok (open_scope c g en)" for c g
  proof -
    have "hosted_ok (emit (Opened c g) en)" if "advance_epoch en c"
      using that by (intro hosted_ok_emit [OF ok] log_ok_current [OF hosted_ok_facts(3) [OF ok]])
        (auto simp: event_at_def advance_epoch_def)
    then show ?thesis using r repl adv by (auto simp: open_scope_def split: option.split)
  qed
  have rd: "hosted_ok (open_reader c g b en)" for c g using r repl adv by (auto simp: open_reader_def)
  have rs: "hosted_ok (restore_scope c g b en)" for c g using r repl adv by (auto simp: restore_scope_def)
  have served: "hosted_ok (emit (Served c) en)" if "ensure_epoch en c" for c
    using hosted_ok_event [OF ok that] by (simp add: event_at_def)
  have stat: "hosted_ok (status_scope c en)" for c using served r by (simp add: status_scope_def)
  have cl: "hosted_ok (close_scope c en)" for c using r repl by (simp add: close_scope_def)
  have qu: "hosted_ok (quiesce_scope c en)" for c
  proof (cases "scope_keys en (cx_scope c) = []")
    case True
    then have "no_jobs en (cx_scope c)" by (auto simp: scope_keys_def no_jobs_def filter_empty_conv)
    then show ?thesis using r hosted_ok_quiesce [OF ok, of "KQuiesce c"] idle by (simp add: quiesce_scope_def)
  qed (use r in \<open>simp add: quiesce_scope_def\<close>)
  have cg: "ensure_current_generation en c g \<Longrightarrow> ensure_epoch en c" for c g
    using ensure_liveD(1) by (auto simp: ensure_current_generation_def)
  have shut: "hosted_ok (emit ShutDown en)"
    by (intro hosted_ok_emit [OF ok] log_ok_quiet hosted_ok_facts(3) [OF ok]) (auto simp: event_at_def)
  have "hosted_ok (replace_scope (KShutdown rest) s en)" for rest s by (rule repl) simp
  with shut r opn rd rs stat cl qu cg served hosted_ok_revoke [OF ok pc] hosted_ok_begin_await [OF ok pc]
    hosted_ok_start [OF ok pc] ensure_liveD(1) [of en]
  show ?thesis unfolding handle_def Let_def
    by (simp split: option.split list.split)
qed

section \<open>The last stage\<close>

lemma drop_scope_sel [simp]:
  "en_epochs (drop_scope s en) = en_epochs en" "en_jobs (drop_scope s en) = en_jobs en"
  "en_joining (drop_scope s en) = en_joining en" "en_joining_deferred (drop_scope s en) = en_joining_deferred en"
  "en_detached (drop_scope s en) = en_detached en" "en_log (drop_scope s en) = en_log en"
  "en_scopes (drop_scope s en) = (en_scopes en)(s := None)" "en_pc (drop_scope s en) = en_pc en"
  by (auto simp: drop_scope_def split: option.split)

lemma drop_scope_good: "good_entry en s1 e \<Longrightarrow> good_entry (drop_scope s en) s1 e"
  by (simp add: good_entry_def no_jobs_def)

lemma hosted_ok_drop:
  assumes ok: "hosted_ok en" and j: "en_joining en = []" "en_joining_deferred en = []"
  shows "hosted_ok ((drop_scope s en)\<lparr>en_pc := Idle\<rparr>)"
proof -
  have "good_entry ((drop_scope s en)\<lparr>en_pc := Idle\<rparr>) s1 e" if "good_entry en s1 e" for s1 e
    using that by (simp add: good_entry_def no_jobs_def)
  then show ?thesis using ok j by (auto simp: hosted_ok_def stage_ok_def)
qed

lemma hosted_ok_epoch:
  assumes ok: "hosted_ok en" and pc: "en_pc en = Idle" and s: "no_jobs en s" "en_scopes en s = None"
    and le: "\<And>e. en_epochs en s = Some e \<Longrightarrow> e \<le> e'"
  shows "hosted_ok (en\<lparr>en_epochs := (en_epochs en)(s \<mapsto> e')\<rparr>)"
proof -
  let ?en = "en\<lparr>en_epochs := (en_epochs en)(s \<mapsto> e')\<rparr>"
  note idle = idle_stage [OF ok pc]
  have other: "good_task ((en_epochs en)(s \<mapsto> e')) t" if "good_task (en_epochs en) t" "tk_scope t \<noteq> s" for t
    using that by (simp add: good_task_def)
  have jobs: "good_job ((en_epochs en)(s \<mapsto> e')) j" if "j \<in> snd ` set (en_jobs en)" for j
  proof -
    from that ok s(1) have "good_job (en_epochs en) j" "cx_scope (jb_context j) \<noteq> s"
      unfolding hosted_ok_def no_jobs_def by blast+
    with other show ?thesis by (simp add: good_job_def)
  qed
  have entries: "good_entry ?en s1 e" if "en_scopes en s1 = Some e" for s1 e
  proof -
    have "s1 \<noteq> s" using that s(2) by auto
    moreover have "good_entry en s1 e" using ok that by (simp add: hosted_ok_def)
    ultimately show ?thesis using other by (auto simp: good_entry_def no_jobs_def)
  qed
  show ?thesis
    using hosted_ok_facts [OF ok] idle jobs entries log_ok_epochs [OF hosted_ok_facts(3) [OF ok], of s e'] le pc
    by (auto simp: hosted_ok_def stage_ok_def)
qed

lemma hosted_ok_install:
  assumes ok: "hosted_ok en" and pc: "en_pc en = Idle" and s: "no_jobs en (cx_scope c)" "en_scopes en (cx_scope c) = None"
    and le: "\<And>e. en_epochs en (cx_scope c) = Some e \<Longrightarrow> e \<le> cx_epoch c"
  shows "hosted_ok (install_scope c g r en)"
proof -
  let ?en = "en\<lparr>en_epochs := (en_epochs en)(cx_scope c \<mapsto> cx_epoch c)\<rparr>"
  let ?e = "new_entry c g r"
  have en: "hosted_ok ?en" by (rule hosted_ok_epoch [OF ok pc s le])
  have "good_entry (set_entry (cx_scope c) ?e ?en) s1 e" if "en_scopes (set_entry (cx_scope c) ?e ?en) s1 = Some e" for s1 e
  proof (cases "s1 = cx_scope c")
    case True
    with that show ?thesis by (auto simp: set_entry_def good_entry_def new_entry_def)
  next
    case False
    with that have "good_entry ?en s1 e" using en by (auto simp: set_entry_def hosted_ok_def)
    then show ?thesis by (simp add: good_entry_def set_entry_def no_jobs_def)
  qed
  moreover have "stage_ok (set_entry (cx_scope c) ?e ?en)"
    using hosted_ok_facts(5) [OF en] pc by (simp add: stage_ok_def set_entry_def)
  ultimately have "hosted_ok (set_entry (cx_scope c) ?e ?en)"
    using en by (simp add: hosted_ok_def set_entry_def)
  moreover from this have "log_ok ((en_epochs en)(cx_scope c \<mapsto> cx_epoch c)) (en_log en)"
    using hosted_ok_facts(3) by (fastforce simp: set_entry_def)
  then have "log_ok ((en_epochs en)(cx_scope c \<mapsto> cx_epoch c)) (Opened c g # en_log en)"
    by (rule log_ok_current) (auto simp: event_at_def)
  ultimately show ?thesis unfolding install_scope_def
    by (intro hosted_ok_emit) (simp_all add: set_entry_def)
qed

lemma hosted_ok_finish:
  assumes ok: "hosted_ok en" and pc: "en_pc en = Finish k s"
  shows "hosted_ok (finish k s b en)"
proof -
  have st: "kont_ok (en_epochs en) k s" "en_joining_deferred en = []" "en_joining en = []" "no_jobs en s"
    using hosted_ok_facts(5) [OF ok] pc by (simp_all add: stage_ok_def)
  let ?en = "(drop_scope s en)\<lparr>en_pc := Idle\<rparr>"
  have en1: "hosted_ok ?en" by (rule hosted_ok_drop [OF ok st(3,2)])
  have nj: "no_jobs ?en s" using st(4) by (simp add: no_jobs_def)
  have q: "hosted_ok (emit ev e1)" if "hosted_ok e1" "event_at ev = None" "\<And>c. ev \<noteq> Revoked c" "\<And>t. ev \<noteq> CutTask t" for ev e1
    using that by (intro hosted_ok_emit log_ok_quiet hosted_ok_facts(3)) auto
  show ?thesis
  proof (cases k)
    case (KOpen c g r)
    then have "hosted_ok (install_scope c g r ?en)"
      using en1 nj st(1) by (intro hosted_ok_install) auto
    then show ?thesis using KOpen hosted_ok_refuse [OF en1] by (simp add: Let_def)
  next
    case (KRestore c g)
    then have "hosted_ok (install_scope c g False ?en)"
      using en1 nj st(1) by (intro hosted_ok_install) auto
    then show ?thesis using KRestore hosted_ok_refuse [OF en1] by (simp add: Let_def)
  next
    case (KRevoke c)
    then have s: "s = cx_scope c" "\<forall>e. en_epochs en s = Some e \<longrightarrow> e \<le> cx_epoch c" using st(1) by auto
    let ?en2 = "?en\<lparr>en_epochs := (en_epochs ?en)(s \<mapsto> cx_epoch c)\<rparr>"
    have en2: "hosted_ok ?en2" using s(2) nj by (intro hosted_ok_epoch [OF en1]) auto
    have "log_ok (en_epochs ?en2) (Revoked c # en_log ?en2)"
      using hosted_ok_facts(3) [OF en2] s(1) by (auto simp: log_ok_def event_at_def)
    from hosted_ok_emit [OF en2 this] show ?thesis using KRevoke s(1) by (simp add: Let_def)
  next
    case (KClose c)
    then show ?thesis using q [OF en1, of "Closed c"] by (simp add: event_at_def)
  next
    case (KQuiesce c)
    have "hosted_ok (en\<lparr>en_pc := Idle\<rparr>)" by (rule hosted_ok_pc [OF ok]) (simp add: stage_ok_def st)
    then show ?thesis using KQuiesce q [of _ "Quiesced c"] by (simp add: event_at_def)
  next
    case (KShutdown ss)
    show ?thesis
    proof (cases ss)
      case Nil
      then show ?thesis using KShutdown q [OF en1, of ShutDown] by (simp add: event_at_def)
    next
      case (Cons s' rest)
      have "hosted_ok (replace_scope (KShutdown rest) s' ?en)"
        using st by (intro hosted_ok_replace [OF en1]) auto
      then show ?thesis using KShutdown Cons by (simp add: replace_scope_def scope_keys_def)
    qed
  qed
qed

section \<open>All steps\<close>

lemma hosted_ok_continue:
  assumes ok: "hosted_ok en" and c: "continue b en = Some en'"
  shows "hosted_ok en'"
proof -
  note st = hosted_ok_facts(5) [OF ok, unfolded stage_ok_def]
  show ?thesis
  proof (cases "en_pc en")
    case Idle
    with c show ?thesis by simp
  next
    case (JoinRevoked cx)
    then have "hosted_ok (en\<lparr>en_joining := [], en_pc := JoinDeferred cx\<rparr>)"
      using st by (intro hosted_ok_joined [OF ok]) (simp add: stage_ok_def no_jobs_def)
    with c JoinRevoked show ?thesis by (simp split: if_splits)
  next
    case (JoinDeferred cx)
    let ?en = "en\<lparr>en_joining_deferred := []\<rparr>"
    have "hosted_ok (?en\<lparr>en_pc := DrainJobs (KRevoke cx) (cx_scope cx) (scope_keys ?en (cx_scope cx))\<rparr>)"
      using st JoinDeferred scope_keys_all [OF hosted_ok_facts(1) [OF ok]]
      by (intro hosted_ok_joined_deferred [OF ok, simplified]) (auto simp: stage_ok_def joining_in_def scope_keys_def)
    with c JoinDeferred show ?thesis by (simp add: replace_scope_def split: if_splits)
  next
    case (DrainJobs k s keys)
    then have s: "kont_ok (en_epochs en) k s" "en_joining_deferred en = []" "joining_in en s"
        "\<And>key j. (key, j) \<in> set (en_jobs en) \<Longrightarrow> cx_scope (jb_context j) = s \<longleftrightarrow> key \<in> set keys"
      using st by auto
    show ?thesis
    proof (cases keys)
      case Nil
      let ?en = "en\<lparr>en_joining := []\<rparr>"
      have nj: "no_jobs ?en s" using s(4) Nil by (force simp: no_jobs_def)
      have "hosted_ok ?en"
        using st DrainJobs by (intro hosted_ok_same [OF ok]) (auto simp: stage_ok_def joining_in_def)
      from hosted_ok_quiesce [OF this _ nj, of k] s(1,2) c DrainJobs Nil show ?thesis by (simp split: if_splits)
    next
      case (Cons key rest)
      show ?thesis
      proof (cases "map_of (en_jobs en) key")
        case None
        then have "\<And>k' j. (k', j) \<in> set (en_jobs en) \<Longrightarrow> k' \<noteq> key" by (force simp: map_of_eq_None_iff)
        then have "hosted_ok (en\<lparr>en_joining := [], en_pc := DrainJobs k s rest\<rparr>)"
          using s Cons by (intro hosted_ok_joined [OF ok]) (fastforce simp: stage_ok_def joining_in_def)
        with c DrainJobs Cons None show ?thesis by (simp split: if_splits)
      next
        case (Some j)
        have m: "(key, j) \<in> set (en_jobs en)" using Some by (rule map_of_SomeD)
        let ?en = "en\<lparr>en_jobs := AList.delete key (en_jobs en), en_joining := [j], en_pc := DrainJobs k s rest\<rparr>"
        have eq: "en' = ?en" using c DrainJobs Cons Some by (simp split: if_splits)
        have js: "cx_scope (jb_context j) = s" using s(4) [OF m] Cons by simp
        show ?thesis unfolding eq
        proof (rule hosted_ok_stage [OF ok])
          have "cx_scope (jb_context j1) = s \<longleftrightarrow> k1 \<in> set rest"
            if "(k1, j1) \<in> set (AList.delete key (en_jobs en))" for k1 j1
          proof -
            have "(k1, j1) \<in> set (en_jobs en)" using that set_alist_delete [of key "en_jobs en"] by blast
            from s(4) [OF this] show ?thesis using alist_delete_gone [OF that] Cons by simp
          qed
          then have "\<forall>(k1, j1) \<in> set (AList.delete key (en_jobs en)). cx_scope (jb_context j1) = s \<longleftrightarrow> k1 \<in> set rest"
            by blast
          then show "stage_ok ?en" using s(1,2) js by (simp add: stage_ok_def joining_in_def)
          show "good_job (en_epochs en) j1 \<and> (\<exists>j0 \<in> snd ` set (en_jobs en). jb_context j0 = jb_context j1)"
            if "(k1, j1) \<in> set (en_jobs ?en)" for k1 j1
            using jobs_facts [OF ok, of k1 j1] that set_alist_delete [of key "en_jobs en"] by auto
          show "good_job (en_epochs en) j1 \<and>
              (\<exists>j0 \<in> snd ` set (en_jobs en) \<union> set (en_joining en). jb_context j0 = jb_context j1)"
            if "j1 \<in> set (en_joining ?en)" for j1
            using jobs_facts [OF ok m] that by auto
        qed (use hosted_ok_facts [OF ok] entry_facts [OF ok] in \<open>simp_all add: distinct_delete\<close>)
      qed
    qed
  next
    case (StopScheduler k s)
    then obtain e where e: "en_scopes en s = Some e"
        "en' = (set_entry s (e\<lparr>se_deferred := []\<rparr>) en)\<lparr>en_joining_deferred := se_deferred e, en_pc := DrainDeferred k s\<rparr>"
      using c by (auto split: option.splits if_splits)
    note ge = entry_facts [OF ok e(1)]
    have s: "kont_ok (en_epochs en) k s" "en_joining_deferred en = []" "en_joining en = []" "no_jobs en s"
      using st StopScheduler by auto
    show ?thesis unfolding e(2)
    proof (rule hosted_ok_stage [OF ok])
      show "stage_ok ((set_entry s (e\<lparr>se_deferred := []\<rparr>) en)
          \<lparr>en_joining_deferred := se_deferred e, en_pc := DrainDeferred k s\<rparr>)"
        using s ge by (simp add: stage_ok_def set_entry_def no_jobs_def deferred_gone_def list_all_iff)
      show "cx_scope (se_context e1) = s1 \<and>
         (\<forall>t \<in> set (se_deferred e1). good_task (en_epochs en) t \<and> tk_scope t = s1 \<and> plain_task t) \<and>
         (se_quiesced e1 \<longrightarrow> se_deferred e1 = [] \<and> no_jobs en s1 \<and> (\<forall>j \<in> set (en_joining en). cx_scope (jb_context j) \<noteq> s1))"
        if "en_scopes ((set_entry s (e\<lparr>se_deferred := []\<rparr>) en)
          \<lparr>en_joining_deferred := se_deferred e, en_pc := DrainDeferred k s\<rparr>) s1 = Some e1" for s1 e1
        using that ge s(3,4) entry_facts [OF ok, of s1 e1] by (auto simp: set_entry_def split: if_splits)
      show "good_job (en_epochs en) j \<and> (\<exists>j0 \<in> snd ` set (en_jobs en). jb_context j0 = jb_context j)"
        if "(k1, j) \<in> set (en_jobs ((set_entry s (e\<lparr>se_deferred := []\<rparr>) en)
          \<lparr>en_joining_deferred := se_deferred e, en_pc := DrainDeferred k s\<rparr>))" for k1 j
        using jobs_facts [OF ok, of k1 j] that by (simp add: set_entry_def)
    qed (use hosted_ok_facts [OF ok] ge s in \<open>simp_all add: set_entry_def\<close>)
  next
    case (DrainDeferred k s)
    then have s: "kont_ok (en_epochs en) k s" "en_joining en = []" "no_jobs en s" "deferred_gone en s"
        "list_all plain_task (en_joining_deferred en)"
      using st by auto
    then have "\<not> list_ex (\<lambda>t. tk_end t \<in> {Cancelled, Panicked}) (en_joining_deferred en)"
      by (auto simp: list_ex_iff list_all_iff plain_task_def)
    then have "en' = en\<lparr>en_joining_deferred := [], en_pc := FlushScope k s\<rparr>"
      using c DrainDeferred by (simp split: if_splits)
    moreover have "hosted_ok (en\<lparr>en_joining_deferred := [], en_pc := FlushScope k s\<rparr>)"
      using s by (intro hosted_ok_joined_deferred [OF ok]) (simp add: stage_ok_def no_jobs_def deferred_gone_def)
    ultimately show ?thesis by simp
  next
    case (FlushScope k s)
    then have s: "kont_ok (en_epochs en) k s" "en_joining_deferred en = []" "en_joining en = []" "no_jobs en s"
        "deferred_gone en s"
      using st by auto
    from c FlushScope obtain e where e: "en_scopes en s = Some e"
        "en' = (if b then (set_entry s (e\<lparr>se_quiesced := True\<rparr>) en)\<lparr>en_pc := Finish k s\<rparr>
                else emit Refused (en\<lparr>en_pc := Idle\<rparr>))"
      by (cases "en_scopes en s"; cases b) auto
    have d: "se_deferred e = []" using s(5) e(1) by (simp add: deferred_gone_def)
    show ?thesis
    proof (cases b)
      case True
      show ?thesis unfolding e(2) if_P [OF True]
      proof (rule hosted_ok_stage [OF ok])
        show "stage_ok ((set_entry s (e\<lparr>se_quiesced := True\<rparr>) en)\<lparr>en_pc := Finish k s\<rparr>)"
          using s d by (simp add: stage_ok_def set_entry_def no_jobs_def deferred_gone_def)
        show "cx_scope (se_context e1) = s1 \<and>
           (\<forall>t \<in> set (se_deferred e1). good_task (en_epochs en) t \<and> tk_scope t = s1 \<and> plain_task t) \<and>
           (se_quiesced e1 \<longrightarrow> se_deferred e1 = [] \<and> no_jobs en s1 \<and> (\<forall>j \<in> set (en_joining en). cx_scope (jb_context j) \<noteq> s1))"
          if "en_scopes ((set_entry s (e\<lparr>se_quiesced := True\<rparr>) en)\<lparr>en_pc := Finish k s\<rparr>) s1 = Some e1" for s1 e1
          using that d s entry_facts [OF ok e(1)] entry_facts [OF ok, of s1 e1]
          by (auto simp: set_entry_def split: if_splits)
        show "good_job (en_epochs en) j \<and> (\<exists>j0 \<in> snd ` set (en_jobs en). jb_context j0 = jb_context j)"
          if "(k1, j) \<in> set (en_jobs ((set_entry s (e\<lparr>se_quiesced := True\<rparr>) en)\<lparr>en_pc := Finish k s\<rparr>))" for k1 j
          using jobs_facts [OF ok, of k1 j] that by (simp add: set_entry_def)
      qed (use hosted_ok_facts [OF ok] s in \<open>simp_all add: set_entry_def\<close>)
    next
      case False
      have "hosted_ok (en\<lparr>en_pc := Idle\<rparr>)" using s by (intro hosted_ok_pc [OF ok]) (simp add: stage_ok_def)
      with False e(2) hosted_ok_refuse show ?thesis by simp
    qed
  next
    case (Finish k s)
    then have "en' = finish k s b en" using c by simp
    with hosted_ok_finish [OF ok Finish] show ?thesis by simp
  qed
qed

lemma hosted_ok_step:
  assumes ok: "hosted_ok en" and st: "hosted_step a en = Some en'" and pf: "panic_free en'"
  shows "hosted_ok en'"
proof (cases a)
  case (Request rq order b)
  with st hosted_ok_handle [OF ok] show ?thesis by (auto split: if_splits)
next
  case (Continue b)
  with st hosted_ok_continue [OF ok] show ?thesis by simp
next
  case (FinishAwait i b)
  with st hosted_ok_finish_await [OF ok] show ?thesis by (auto split: if_splits)
next
  case (JobStep key x)
  with st hosted_ok_job [OF ok] show ?thesis by (auto split: option.splits)
next
  case (JoiningStep i x)
  with st hosted_ok_joining [OF ok] show ?thesis by (auto split: if_splits)
next
  case (DeferredStep s i x)
  then obtain e t where e: "en_scopes en s = Some e" "i < length (se_deferred e)"
      "task_step x (se_deferred e ! i) = Some t"
      "en' = log_task True x (se_deferred e ! i) (set_entry s (e\<lparr>se_deferred := (se_deferred e)[i := t]\<rparr>) en)"
    using st by (auto split: option.splits if_splits)
  then have "x \<noteq> APanic" using pf by (auto simp: panic_free_def log_task_def emit_def)
  with hosted_ok_deferred [OF ok e(1-3)] e(4) show ?thesis by simp
next
  case (JoiningDeferredStep i x)
  then obtain t where e: "i < length (en_joining_deferred en)" "task_step x (en_joining_deferred en ! i) = Some t"
      "en' = log_task True x (en_joining_deferred en ! i)
         (en\<lparr>en_joining_deferred := (en_joining_deferred en)[i := t]\<rparr>)"
    using st by (auto split: if_splits)
  then have "x \<noteq> APanic" using pf by (auto simp: panic_free_def log_task_def emit_def)
  with hosted_ok_joining_deferred [OF ok e(1,2)] e(3) show ?thesis by simp
next
  case (DetachedStep i x)
  with st hosted_ok_facts(4) [OF ok] show ?thesis by simp
next
  case (JobTracks key)
  then obtain j where j: "map_of (en_jobs en) key = Some j" "track_for (jb_task j) en = Some en'"
    using st by (auto split: option.splits)
  have m: "(key, j) \<in> set (en_jobs en)" using j(1) by (rule map_of_SomeD)
  then have "j \<in> snd ` set (en_jobs en)" by (rule rev_image_eqI) simp
  with jobs_facts [OF ok m] show ?thesis
    by (intro hosted_ok_track [OF ok j(2)]) (auto simp: good_job_def)
next
  case (JoiningTracks i)
  then have i: "en_joining en ! i \<in> set (en_joining en)" "track_for (jb_task (en_joining en ! i)) en = Some en'"
    using st by (auto split: if_splits)
  with joining_facts [OF ok i(1)] show ?thesis
    by (intro hosted_ok_track [OF ok i(2)]) (auto simp: good_job_def)
next
  case (SchedStep s x)
  then obtain e y where e: "en_scopes en s = Some e" "en' = set_entry s (e\<lparr>se_sched := y\<rparr>) en"
    using st by (auto split: option.splits if_splits)
  show ?thesis unfolding e(2)
    using entry_facts [OF ok e(1)] by (intro hosted_ok_entry [OF ok e(1)]) auto
next
  case (WorkerWrites s)
  then obtain e where "en' = emit (WorkerWrote s e) en" using st by (auto split: option.splits if_splits)
  then show ?thesis
    using hosted_ok_emit [OF ok log_ok_quiet [OF hosted_ok_facts(3) [OF ok], of "WorkerWrote s e"]]
    by (simp add: event_at_def)
next
  case (OrphanWrites i)
  then obtain s e where "en' = emit (WorkerWrote s e) en" using st by (auto split: if_splits)
  then show ?thesis
    using hosted_ok_emit [OF ok log_ok_quiet [OF hosted_ok_facts(3) [OF ok], of "WorkerWrote s e"]]
    by (simp add: event_at_def)
qed

section \<open>The log only grows\<close>

definition log_grows :: "engine \<Rightarrow> engine \<Rightarrow> bool" where
  "log_grows en en' \<longleftrightarrow> set (en_log en) \<subseteq> set (en_log en')"

lemma log_grows_same [simp]: "en_log en' = en_log en \<Longrightarrow> log_grows en en'"
  by (simp add: log_grows_def)

lemma log_grows_emit [simp]: "log_grows en en' \<Longrightarrow> log_grows en (emit ev en')"
  by (auto simp: log_grows_def emit_def)

lemma en_log_sel [simp]:
  "en_log (set_entry s e en) = en_log en" "en_log (replace_scope k s en) = en_log en"
  "en_log (insert_job op c en) = en_log en" "en_log (signal_jobs s en) = en_log en"
  "en_log (drop_scope s en) = en_log en" "en_log (quiesce k s en) = en_log en"
  by (simp_all add: set_entry_def replace_scope_def insert_job_def signal_jobs_def drop_scope_def quiesce_def Let_def
      split: option.split)

lemma log_grows_log_task: "en_log en' = en_log en \<Longrightarrow> log_grows en (log_task b a t en')"
  by (auto simp: log_task_def log_grows_def emit_def split: task_act.split)

lemma log_grows_revoke: "log_grows en (revoke c en)"
  by (simp add: revoke_def Let_def begin_abort_def split: option.split)

lemma log_grows_begin_await: "log_grows en (begin_await c op en)"
  by (simp add: begin_await_def split: option.split)

lemma log_grows_finish: "log_grows en (finish k s b en)"
  by (cases "(k, s, b, en)" rule: finish.cases) (simp_all add: install_scope_def Let_def)

lemma log_grows_handlers:
  "log_grows en (open_scope c g en)" "log_grows en (open_reader c g b en)" "log_grows en (restore_scope c g b en)"
  "log_grows en (start_job c op b en)" "log_grows en (close_scope c en)" "log_grows en (quiesce_scope c en)"
  "log_grows en (status_scope c en)" "log_grows en (finish_await a b en)"
  by (simp_all add: open_scope_def open_reader_def restore_scope_def start_job_def close_scope_def
      quiesce_scope_def status_scope_def finish_await_def Let_def split: option.split)

lemma log_grows_if: "log_grows en x \<Longrightarrow> log_grows en y \<Longrightarrow> log_grows en (if b then x else y)"
  by simp

lemma log_grows_option:
  "log_grows en x \<Longrightarrow> (\<And>v. log_grows en (f v)) \<Longrightarrow> log_grows en (case m of None \<Rightarrow> x | Some v \<Rightarrow> f v)"
  by (simp split: option.split)

lemma log_grows_list:
  "log_grows en x \<Longrightarrow> (\<And>v vs. log_grows en (f v vs)) \<Longrightarrow> log_grows en (case m of [] \<Rightarrow> x | v # vs \<Rightarrow> f v vs)"
  by (simp split: list.split)

lemma log_grows_pair:
  "(\<And>v w. log_grows en (f v w)) \<Longrightarrow> log_grows en (case m of (v, w) \<Rightarrow> f v w)"
  by (simp split: prod.split)

lemma log_grows_self: "log_grows en en" "log_grows en (replace_scope k s en)"
  by simp_all

lemma log_grows_handle: "log_grows en (handle rq order b en)"
  unfolding handle_def Let_def
  by (intro log_grows_if log_grows_option log_grows_list log_grows_pair log_grows_handlers log_grows_revoke
      log_grows_begin_await log_grows_emit log_grows_self)

lemma log_grows_continue: "continue b en = Some en' \<Longrightarrow> log_grows en en'"
  by (cases "en_pc en") (auto simp: log_grows_finish split: option.splits list.splits if_splits)

lemma log_grows_step:
  assumes "hosted_step a en = Some en'"
  shows "log_grows en en'"
  using assms
  by (cases a)
    (auto simp: log_grows_handle log_grows_handlers log_grows_continue log_grows_log_task track_for_def
      split: option.splits if_splits)

lemma panic_free_step: "hosted_step a en = Some en' \<Longrightarrow> panic_free en' \<Longrightarrow> panic_free en"
  using log_grows_step unfolding log_grows_def panic_free_def by blast

lemma panic_free_run: "hosted_run as en = Some en' \<Longrightarrow> panic_free en' \<Longrightarrow> panic_free en"
proof (induction as arbitrary: en)
  case (Cons a as)
  then obtain en1 where "hosted_step a en = Some en1" "hosted_run as en1 = Some en'"
    by (auto simp: Option.bind_eq_Some_conv)
  with Cons panic_free_step show ?case by blast
qed simp

section \<open>All runs\<close>

lemma hosted_ok_new: "hosted_ok new_engine"
  by (simp add: hosted_ok_def new_engine_def stage_ok_def log_ok_def)

lemma hosted_ok_run:
  "hosted_run as en = Some en' \<Longrightarrow> panic_free en' \<Longrightarrow> hosted_ok en \<Longrightarrow> hosted_ok en'"
proof (induction as arbitrary: en)
  case (Cons a as)
  then obtain en1 where r: "hosted_step a en = Some en1" "hosted_run as en1 = Some en'"
    by (auto simp: Option.bind_eq_Some_conv)
  have "hosted_ok en1" using hosted_ok_step [OF Cons.prems(3) r(1)] panic_free_run [OF r(2)] Cons.prems(2) by blast
  with Cons.IH r(2) Cons.prems(2) show ?case by blast
qed simp

lemma fenced_split: "fenced (newer @ ev # older) \<Longrightarrow> e1 \<in> set newer \<Longrightarrow> event_at e1 = Some (s, e) \<Longrightarrow>
    ev = Revoked c \<Longrightarrow> cx_scope c = s \<Longrightarrow> cx_epoch c \<le> e"
  by (induction newer) auto

section \<open>Concrete runs\<close>

definition demo_context :: "int \<Rightarrow> scope_context" where
  "demo_context e = \<lparr>cx_actor = ''a'', cx_scope = ''s'', cx_epoch = e\<rparr>"

definition demo_request :: "string \<Rightarrow> int \<Rightarrow> hosted_act" where
  "demo_request cmd e = Request \<lparr>rq_cmd = cmd, rq_context = Some (demo_context e), rq_generation = Some ''g'',
     rq_op_id = Some ''o'', rq_name = Some ''n'', rq_root = None, rq_records = True\<rparr> [] True"

definition demo_job :: "int \<Rightarrow> string" where
  "demo_job e = job_key (demo_context e) ''o''"

definition demo_open :: "int \<Rightarrow> hosted_act list" where
  "demo_open e = [demo_request ''open_scope'' e, Continue True, Continue True, demo_request ''worker_async'' e]"

text \<open>A job is revoked inside an apply section, ends there, and the next epoch opens and writes.\<close>

definition fence_run :: "hosted_act list" where
  "fence_run = demo_open 0 @
     [JobStep (demo_job 0) ABegin, JobStep (demo_job 0) AWrite, demo_request ''revoke'' 1, JoiningStep 0 AWrite,
      JoiningStep 0 AEnd, JoiningStep 0 ACheckpoint] @
     replicate 7 (Continue True) @ demo_open 1 @ [JobStep (demo_job 1) AWrite]"

text \<open>A job is revoked before its first section and cancelled.\<close>

definition cut_run :: "hosted_act list" where
  "cut_run = demo_open 0 @ [demo_request ''revoke'' 1, JoiningStep 0 ACancel]"

text \<open>Two deferred tasks: the first panics, the second stands in its section when the scope is closed.\<close>

definition panic_run :: "hosted_act list" where
  "panic_run = demo_open 0 @
     [JobTracks (demo_job 0), JobTracks (demo_job 0), JobStep (demo_job 0) AFinish, DeferredStep ''s'' 0 APanic,
      DeferredStep ''s'' 1 ABegin, demo_request ''close_scope'' 0] @
     replicate 4 (Continue True) @ [DetachedStep 0 ACancel]"

text \<open>The tick of the run loop and the trigger of a job race for the same worker.\<close>

definition orphan_run :: "hosted_act list" where
  "orphan_run = demo_open 0 @
     [SchedStep ''s'' (Check Consolidation), SchedStep ''s'' (Check Consolidation), SchedStep ''s'' (Start Consolidation),
      SchedStep ''s'' (Start Consolidation), SchedStep ''s'' (Done Consolidation), JobStep (demo_job 0) AFinish,
      demo_request ''revoke'' 1] @
     replicate 7 (Continue True) @ [OrphanWrites 0]"

lemmas run_defs = demo_context_def demo_request_def demo_job_def demo_open_def job_key_def eval_nat_numeral
  new_engine_def handle_def request_context_def valid_context_def
  safe_name_def name_char_def request_generation_def request_operation_def safe_field_def open_scope_def
  advance_epoch_def ensure_bound_context_def replace_scope_def scope_keys_def quiesce_def drop_scope_def
  install_scope_def emit_def set_entry_def new_entry_def start_job_def ensure_job_available_def ensure_live_def
  ensure_scope_context_def ensure_epoch_def binds_def accepts_writes_def insert_job_def log_task_def revoke_def
  signal_jobs_def begin_abort_def all_ended_def new_task_def phase_defs new_phase_def new_scheduler_def idle_def
  all_workers_def active_runs_def close_scope_def track_for_def track_def may_check_def tick_check_def spawn_run_def
  set_worker_def

lemma fence_run_log:
  "map_option en_log (hosted_run fence_run new_engine) = Some
     ([Wrote ''s'' 1, Accepted (demo_context 1) ''o'', Opened (demo_context 1) ''g''] @ Revoked (demo_context 1) #
      [Wrote ''s'' 0, Wrote ''s'' 0, Accepted (demo_context 0) ''o'', Opened (demo_context 0) ''g''])"
  by (simp add: fence_run_def run_defs show_int_def)

lemma cut_run_log:
  "\<exists>t. map_option en_log (hosted_run cut_run new_engine) = Some
     [CutTask t, Accepted (demo_context 0) ''o'', Opened (demo_context 0) ''g'']"
  by (simp add: cut_run_def run_defs show_int_def)

section \<open>Guarantees\<close>

text \<open>C28. Revocation is a fence: once the revocation of a scope at an epoch is acknowledged, no older
  epoch of that scope is opened, served, accepted, published or written to by a job or a deferred
  task, in any interleaving of requests, stages, tasks and scheduler runs in which no deferred task
  panics.\<close>

theorem revocation_fences_writes:
  assumes "hosted_run as new_engine = Some en" "panic_free en"
    and "en_log en = newer @ Revoked c # older"
    and "ev \<in> set newer" "event_at ev = Some (cx_scope c, e)"
  shows "cx_epoch c \<le> e"
proof -
  have "hosted_ok en" using hosted_ok_run [OF assms(1,2) hosted_ok_new] .
  then have "fenced (newer @ Revoked c # older)" using assms(3) by (simp add: hosted_ok_def log_ok_def)
  from fenced_split [OF this assms(4,5) refl refl] show ?thesis .
qed

theorem revocation_fences_writes_witness:
  "\<exists>en newer older. hosted_run fence_run new_engine = Some en \<and>
     en_log en = newer @ Revoked (demo_context 1) # older \<and> newer \<noteq> [] \<and>
     (\<forall>ev \<in> set newer. \<forall>e. event_at ev = Some (''s'', e) \<longrightarrow> 1 \<le> e)"
proof -
  let ?newer = "[Wrote ''s'' 1, Accepted (demo_context 1) ''o'', Opened (demo_context 1) ''g'']"
  obtain en older where en: "hosted_run fence_run new_engine = Some en"
      "en_log en = ?newer @ Revoked (demo_context 1) # older" "panic_free en"
    using fence_run_log by (auto simp: panic_free_def)
  have "1 \<le> e" if "ev \<in> set ?newer" "event_at ev = Some (''s'', e)" for ev e
    using revocation_fences_writes [OF en(1,3,2) that(1), of e] that(2) by (simp add: demo_context_def)
  with en(1,2) show ?thesis by blast
qed

text \<open>C29. No job and no deferred task is cancelled inside an apply section or a durable write, as long as
  no deferred task panics.\<close>

theorem sections_never_cut:
  assumes "hosted_run as new_engine = Some en" "panic_free en" "CutTask t \<in> set (en_log en)"
  shows "\<not> tk_section t \<and> \<not> tk_durable t"
  using hosted_ok_run [OF assms(1,2) hosted_ok_new] assms(3) by (simp add: hosted_ok_def log_ok_def)

theorem sections_never_cut_witness:
  "\<exists>en t. hosted_run cut_run new_engine = Some en \<and> CutTask t \<in> set (en_log en) \<and> \<not> tk_section t"
proof -
  obtain en t where en: "hosted_run cut_run new_engine = Some en" "CutTask t \<in> set (en_log en)" "panic_free en"
    using cut_run_log by (auto simp: panic_free_def)
  from sections_never_cut [OF en(1,3,2)] en show ?thesis by blast
qed

section \<open>What escapes\<close>

text \<open>When a deferred task has panicked, closing the scope gives up at it and cancels another deferred
  task inside its apply section.\<close>

theorem drain_panic_cuts_section:
  "\<exists>en t. hosted_run panic_run new_engine = Some en \<and> CutTask t \<in> set (en_log en) \<and> tk_section t"
proof -
  have "\<exists>t evs. map_option en_log (hosted_run panic_run new_engine) = Some (CutTask t # evs) \<and> tk_section t"
    by (simp add: panic_run_def run_defs show_int_def)
  then show ?thesis by auto
qed

text \<open>When two callers race for a worker, a run of it outlives the revocation of its scope and writes at
  the revoked epoch.\<close>

theorem worker_outlives_revocation:
  "\<exists>en older. hosted_run orphan_run new_engine = Some en \<and>
     en_log en = WorkerWrote ''s'' 0 # Revoked (demo_context 1) # older"
proof -
  have "\<exists>evs. map_option en_log (hosted_run orphan_run new_engine) =
      Some (WorkerWrote ''s'' 0 # Revoked (demo_context 1) # evs)"
    by (simp add: orphan_run_def run_defs show_int_def)
  then show ?thesis by auto
qed

end
