(* ===== verification/CostLedger.thy ===== *)
theory CostLedger
  imports Prelude
begin

text \<open>
  Cost accounting (\<^verbatim>\<open>loomem-core/src/cost_tracker.rs\<close>, \<^verbatim>\<open>cost_tracker/selector.rs\<close>): the daily rows,
  the recorded model calls, the budget checks and tiers, and the ledger of the context selector, which
  reserves a conservative charge before a call and reconciles it with the billed usage. One lock makes
  each read-modify-write of the selector a single step. Amounts are exact rationals; the rounding of
  \<^verbatim>\<open>f64\<close> and the alert messages are not modelled. Rows live in one column family, so a row may hold a
  daily cost, a pending amount, or bytes that parse as neither.
\<close>

section \<open>Rows\<close>

record daily_cost =
  dc_date :: string
  dc_total :: rat
  dc_embed_calls :: nat
  dc_compress_calls :: nat
  dc_input_tokens :: nat
  dc_output_tokens :: nat
  dc_selector_calls :: nat
  dc_unknown_calls :: nat
  dc_reserved :: rat

datatype cost_cell = Daily daily_cost | Amount rat | Garbage

type_synonym cost_rows = "string \<rightharpoonup> cost_cell"

record cost_config =
  cc_daily_cap :: rat
  cc_persist :: bool

definition empty_daily :: "string \<Rightarrow> daily_cost" where
  "empty_daily date = \<lparr>dc_date = date, dc_total = 0, dc_embed_calls = 0, dc_compress_calls = 0, dc_input_tokens = 0,
     dc_output_tokens = 0, dc_selector_calls = 0, dc_unknown_calls = 0, dc_reserved = 0\<rparr>"

definition day_key :: "string option \<Rightarrow> string \<Rightarrow> string" where
  "day_key ws date = (case ws of Some w \<Rightarrow> ''cost:'' @ w @ '':'' @ date | None \<Rightarrow> ''cost:'' @ date)"

section \<open>Recorded calls and budget checks\<close>

definition get_cost :: "cost_rows \<Rightarrow> string option \<Rightarrow> string \<Rightarrow> daily_cost res" where
  "get_cost rows ws date =
     (case rows (day_key ws date) of
        None \<Rightarrow> Inr (empty_daily date)
      | Some (Daily c) \<Rightarrow> Inr c
      | Some _ \<Rightarrow> Inl (Err ''Failed to deserialize daily cost''))"

definition save_cost :: "cost_config \<Rightarrow> daily_cost \<Rightarrow> string option \<Rightarrow> string \<Rightarrow> cost_rows \<Rightarrow> cost_rows" where
  "save_cost cfg c ws date rows = (if cc_persist cfg then rows(day_key ws date \<mapsto> Daily c) else rows)"

text \<open>The row is read under the day of one clock reading and written under the day of a second one.\<close>

definition record_internal ::
  "cost_config \<Rightarrow> string \<Rightarrow> string \<Rightarrow> nat \<Rightarrow> nat \<Rightarrow> string \<Rightarrow> string option \<Rightarrow> cost_rows \<Rightarrow> cost_rows res" where
  "record_internal cfg day_read day_write tokens_in tokens_out model ws rows =
     rbind (get_cost rows ws day_read) (\<lambda>c.
       let (c1, usd) =
             (if starts_with model ''text-embedding''
              then (c\<lparr>dc_embed_calls := wrap64 (dc_embed_calls c + 1)\<rparr>, of_nat tokens_in / 1000000 * (2 / 100))
              else if model \<in> {''gpt-4o-mini'', ''gpt-4.1-mini''}
              then (c\<lparr>dc_compress_calls := wrap64 (dc_compress_calls c + 1)\<rparr>,
                    of_nat tokens_in / 1000000 * (15 / 100) + of_nat tokens_out / 1000000 * (60 / 100))
              else (c, 0));
           c2 = c1\<lparr>dc_total := dc_total c1 + usd,
                    dc_input_tokens := wrap64 (dc_input_tokens c1 + tokens_in),
                    dc_output_tokens := wrap64 (dc_output_tokens c1 + tokens_out)\<rparr>
       in Inr (save_cost cfg c2 ws day_write rows))"

definition check_budget :: "cost_config \<Rightarrow> string option \<Rightarrow> string \<Rightarrow> cost_rows \<Rightarrow> (rat \<times> rat) + unit" where
  "check_budget cfg ws date rows =
     (case get_cost rows ws date of
        Inl _ \<Rightarrow> Inl (0, cc_daily_cap cfg)
      | Inr c \<Rightarrow> if cc_daily_cap cfg \<le> dc_total c then Inl (dc_total c, cc_daily_cap cfg) else Inr ())"

datatype budget_status = NormalBudget | RerankerDisabled | AssociationsDisabled | LogOnly

definition allow_reranker :: "budget_status \<Rightarrow> bool" where
  "allow_reranker s \<longleftrightarrow> s = NormalBudget"

definition allow_associations :: "budget_status \<Rightarrow> bool" where
  "allow_associations s \<longleftrightarrow> s \<in> {NormalBudget, RerankerDisabled}"

definition allow_llm_calls :: "budget_status \<Rightarrow> bool" where
  "allow_llm_calls s \<longleftrightarrow> s \<noteq> LogOnly"

definition usage_tier :: "rat \<Rightarrow> budget_status" where
  "usage_tier pct =
     (if 1 \<le> pct then LogOnly
      else if 95 / 100 \<le> pct then AssociationsDisabled
      else if 80 / 100 \<le> pct then RerankerDisabled
      else NormalBudget)"

text \<open>The two functions of the code differ in the row they read: the global one and that of a stream.\<close>

definition check_cost_budget :: "cost_rows \<Rightarrow> string option \<Rightarrow> string \<Rightarrow> rat \<Rightarrow> budget_status" where
  "check_cost_budget rows ws date budget =
     (let today = (case rows (day_key ws date) of Some (Daily c) \<Rightarrow> dc_total c | _ \<Rightarrow> 0)
      in if budget \<le> 0 then NormalBudget else usage_tier (today / budget))"

section \<open>The selector ledger\<close>

text \<open>What the provider reports; a missing or malformed JSON field is \<open>None\<close>.\<close>

datatype cached_field = NoDetails | Details "nat option"

record usage_field =
  uf_prompt :: "nat option"
  uf_completion :: "nat option"
  uf_total :: "nat option"
  uf_details :: cached_field

record provider_response =
  pr_tier :: "string option"
  pr_model :: "string option"
  pr_usage :: "usage_field option"

record selector_reservation =
  sr_keys :: "string list"
  sr_reserved :: rat
  sr_prices :: "rat \<times> rat"
  sr_pending_keys :: "string list"
  sr_input_bound :: nat
  sr_model :: string

definition prices :: "string \<Rightarrow> (rat \<times> rat) option" where
  "prices model =
     (if model \<in> {''gpt-4o-mini'', ''gpt-4o-mini-2024-07-18''} then Some (15 / 100, 60 / 100)
      else if model \<in> {''gpt-4.1-mini'', ''gpt-4.1-mini-2025-04-14''} then Some (40 / 100, 160 / 100)
      else if model \<in> {''gpt-4.1'', ''gpt-4.1-2025-04-14''} then Some (2, 8)
      else None)"

definition charge :: "nat \<Rightarrow> nat \<Rightarrow> rat \<times> rat \<Rightarrow> rat" where
  "charge input output p = (of_nat input * fst p + of_nat output * snd p) / 1000000"

definition same_model :: "string \<Rightarrow> string \<Rightarrow> bool" where
  "same_model requested returned \<longleftrightarrow>
     requested = returned \<or>
     (requested, returned) \<in> {(''gpt-4.1'', ''gpt-4.1-2025-04-14''),
       (''gpt-4.1-mini'', ''gpt-4.1-mini-2025-04-14''), (''gpt-4o-mini'', ''gpt-4o-mini-2024-07-18'')}"

definition as_u32 :: "nat option \<Rightarrow> nat option" where
  "as_u32 v = (case v of None \<Rightarrow> None | Some n \<Rightarrow> if n \<le> u32_max then Some n else None)"

definition from_response :: "provider_response \<Rightarrow> (nat \<times> nat) option" where
  "from_response r =
     (case pr_usage r of
        None \<Rightarrow> None
      | Some u \<Rightarrow>
          (case (as_u32 (uf_prompt u), as_u32 (uf_completion u), uf_total u) of
             (Some i, Some out, Some t) \<Rightarrow> if i + out = t then Some (i, out) else None
           | _ \<Rightarrow> None))"

definition cached_tokens :: "provider_response \<Rightarrow> nat option" where
  "cached_tokens r =
     (case pr_usage r of
        None \<Rightarrow> Some 0
      | Some u \<Rightarrow> (case uf_details u of NoDetails \<Rightarrow> Some 0 | Details v \<Rightarrow> as_u32 v))"

definition selector_keys :: "string option \<Rightarrow> string \<Rightarrow> string list" where
  "selector_keys stream date = (''cost:'' @ date) # (case stream of None \<Rightarrow> [] | Some s \<Rightarrow> [''cost:'' @ s @ '':'' @ date])"

definition pending_keys :: "string option \<Rightarrow> string list" where
  "pending_keys stream =
     ''selector:pending:global'' # (case stream of None \<Rightarrow> [] | Some s \<Rightarrow> [''selector:pending:stream:'' @ s])"

fun collect_res :: "('a \<Rightarrow> 'b res) \<Rightarrow> 'a list \<Rightarrow> 'b list res" where
  "collect_res f [] = Inr []"
| "collect_res f (x # xs) = rbind (f x) (\<lambda>y. rbind (collect_res f xs) (\<lambda>ys. Inr (y # ys)))"

definition read_cost :: "cost_rows \<Rightarrow> string \<Rightarrow> daily_cost res" where
  "read_cost rows key =
     rbind (case rows key of
              Some (Daily c) \<Rightarrow> Inr c
            | Some _ \<Rightarrow> Inl (Err ''Invalid cost data'')
            | None \<Rightarrow> Inr (empty_daily (case rsplit_once CHR '':'' key of None \<Rightarrow> key | Some (_, d) \<Rightarrow> d)))
       (\<lambda>c. if 0 \<le> dc_total c \<and> 0 \<le> dc_reserved c \<and> dc_reserved c \<le> dc_total c then Inr c
            else Inl (Err ''Invalid cost totals''))"

definition read_pending :: "cost_rows \<Rightarrow> string \<Rightarrow> rat res" where
  "read_pending rows key =
     rbind (case rows key of
              Some (Amount a) \<Rightarrow> Inr a
            | Some _ \<Rightarrow> Inl (Err ''Invalid selector pending cost'')
            | None \<Rightarrow> Inr 0)
       (\<lambda>a. if 0 \<le> a then Inr a else Inl (Err ''Invalid pending amount''))"

definition save_costs :: "string list \<Rightarrow> daily_cost list \<Rightarrow> string list \<Rightarrow> rat list \<Rightarrow> cost_rows \<Rightarrow> cost_rows" where
  "save_costs keys costs pkeys pending rows =
     fold (\<lambda>(k, v) m. m(k \<mapsto> v)) (zip keys (map Daily costs) @ zip pkeys (map Amount pending)) rows"

definition reserve_row :: "rat \<Rightarrow> rat \<Rightarrow> daily_cost \<times> rat \<Rightarrow> daily_cost res" where
  "reserve_row cap reserved = (\<lambda>(c, pending).
     let committed = dc_total c - dc_reserved c + pending
     in if committed + reserved \<le> cap
        then Inr (c\<lparr>dc_total := dc_total c + reserved, dc_selector_calls := wrap64 (dc_selector_calls c + 1),
                    dc_unknown_calls := wrap64 (dc_unknown_calls c + 1), dc_reserved := dc_reserved c + reserved\<rparr>)
        else Inl (Err ''Selector budget unavailable''))"

definition reserve_on_day ::
  "cost_config \<Rightarrow> string option \<Rightarrow> string \<Rightarrow> string \<Rightarrow> cost_rows \<Rightarrow> (selector_reservation \<times> cost_rows) res" where
  "reserve_on_day cfg stream model date rows =
     (case prices model of
        None \<Rightarrow> Inl (Err ''Selector model pricing unavailable'')
      | Some p \<Rightarrow>
          if cc_daily_cap cfg \<le> 0 then Inl (Err ''Selector budget invalid'')
          else if \<not> cc_persist cfg then Inl (Err ''Selector accounting requires persistence'')
          else (let bound = (if starts_with model ''gpt-4o-mini'' then 128000 else 1047576);
                    reserved = charge bound 1024 p;
                    keys = selector_keys stream date;
                    pkeys = pending_keys stream
                in rbind (collect_res (read_pending rows) pkeys) (\<lambda>pending.
                     rbind (collect_res (read_cost rows) keys) (\<lambda>costs.
                     rbind (collect_res (reserve_row (cc_daily_cap cfg) reserved) (zip costs pending)) (\<lambda>costs'.
                     Inr (\<lparr>sr_keys = keys, sr_reserved = reserved, sr_prices = p, sr_pending_keys = pkeys,
                           sr_input_bound = bound, sr_model = model\<rparr>,
                          save_costs keys costs' pkeys (map (\<lambda>a. a + reserved) pending) rows))))))"

definition billed :: "selector_reservation \<Rightarrow> provider_response \<Rightarrow> ((nat \<times> nat) \<times> rat) res" where
  "billed r resp =
     (if pr_tier resp \<noteq> Some ''default'' then Inl (Err ''Selector processing tier unavailable or unsupported'')
      else case from_response resp of
        None \<Rightarrow> Inl (Err ''Selector usage unavailable'')
      | Some (input, output) \<Rightarrow>
          if input = 0 then Inl (Err ''Selector prompt usage invalid'')
          else case pr_model resp of
            None \<Rightarrow> Inl (Err ''Selector model unavailable'')
          | Some m \<Rightarrow>
              if \<not> same_model (sr_model r) m then Inl (Err ''Selector model mismatch'')
              else case cached_tokens resp of
                None \<Rightarrow> Inl (Err ''Selector cached usage invalid'')
              | Some cached \<Rightarrow>
                  if input < cached then Inl (Err ''Selector cached usage exceeds input'')
                  else (let discount = (if fst (sr_prices r) = 15 / 100 then 1 / 2 else 3 / 4)
                        in Inr ((input, output),
                             charge input output (sr_prices r) - of_nat cached * fst (sr_prices r) * discount / 1000000)))"

definition settle_row :: "rat \<Rightarrow> nat \<times> nat \<Rightarrow> rat \<Rightarrow> daily_cost \<Rightarrow> daily_cost" where
  "settle_row reserved usage actual c =
     c\<lparr>dc_total := max (dc_total c - reserved) 0 + actual, dc_reserved := max (dc_reserved c - reserved) 0,
       dc_unknown_calls := dc_unknown_calls c - 1,
       dc_input_tokens := wrap64 (dc_input_tokens c + fst usage),
       dc_output_tokens := wrap64 (dc_output_tokens c + snd usage)\<rparr>"

definition settle :: "selector_reservation \<Rightarrow> nat \<times> nat \<Rightarrow> rat \<Rightarrow> cost_rows \<Rightarrow> cost_rows res" where
  "settle r usage actual rows =
     rbind (collect_res (read_cost rows) (sr_keys r)) (\<lambda>costs.
     rbind (collect_res (read_pending rows) (sr_pending_keys r)) (\<lambda>pending.
     Inr (save_costs (sr_keys r) (map (settle_row (sr_reserved r) usage actual) costs)
            (sr_pending_keys r) (map (\<lambda>a. max (a - sr_reserved r) 0) pending) rows)))"

text \<open>The answer, with the rows when the reservation was settled; an overrun is reported after that.\<close>

definition reconcile :: "selector_reservation \<Rightarrow> provider_response \<Rightarrow> cost_rows \<Rightarrow> cost_rows option \<times> unit res" where
  "reconcile r resp rows =
     (case billed r resp of
        Inl e \<Rightarrow> (None, Inl e)
      | Inr (usage, actual) \<Rightarrow>
          (case settle r usage actual rows of
             Inl e \<Rightarrow> (None, Inl e)
           | Inr rows' \<Rightarrow>
               (Some rows', if fst usage \<le> sr_input_bound r \<and> snd usage \<le> 1024 then Inr ()
                            else Inl (Err ''Selector reported usage exceeds reservation estimate''))))"

section \<open>Runs\<close>

text \<open>
  The reservations in the hands of callers, and those that were dropped or whose usage stayed unknown:
  their charge is never given back.
\<close>

record cost_system =
  cs_rows :: cost_rows
  cs_open :: "selector_reservation list"
  cs_kept :: "selector_reservation list"

datatype cost_act =
    Reserve "string option" string string
  | Reconcile nat provider_response
  | Abandon nat
  | RecordCall string string nat nat string "string option"

definition remove_at :: "nat \<Rightarrow> 'a list \<Rightarrow> 'a list" where
  "remove_at i xs = take i xs @ drop (Suc i) xs"

definition new_cost_system :: cost_system where
  "new_cost_system = \<lparr>cs_rows = Map.empty, cs_open = [], cs_kept = []\<rparr>"

fun cost_step :: "cost_config \<Rightarrow> cost_act \<Rightarrow> cost_system \<Rightarrow> cost_system" where
  "cost_step cfg (Reserve stream model date) s =
     (case reserve_on_day cfg stream model date (cs_rows s) of
        Inl _ \<Rightarrow> s
      | Inr (r, rows) \<Rightarrow> s\<lparr>cs_rows := rows, cs_open := r # cs_open s\<rparr>)"
| "cost_step cfg (Reconcile i resp) s =
     (if length (cs_open s) \<le> i then s
      else (let r = cs_open s ! i
            in case fst (reconcile r resp (cs_rows s)) of
                 None \<Rightarrow> s\<lparr>cs_open := remove_at i (cs_open s), cs_kept := r # cs_kept s\<rparr>
               | Some rows \<Rightarrow> s\<lparr>cs_rows := rows, cs_open := remove_at i (cs_open s)\<rparr>))"
| "cost_step cfg (Abandon i) s =
     (if length (cs_open s) \<le> i then s
      else s\<lparr>cs_open := remove_at i (cs_open s), cs_kept := cs_open s ! i # cs_kept s\<rparr>)"
| "cost_step cfg (RecordCall day_read day_write tokens_in tokens_out model ws) s =
     (case record_internal cfg day_read day_write tokens_in tokens_out model ws (cs_rows s) of
        Inl _ \<Rightarrow> s
      | Inr rows \<Rightarrow> s\<lparr>cs_rows := rows\<rparr>)"

definition cost_run :: "cost_config \<Rightarrow> cost_act list \<Rightarrow> cost_system" where
  "cost_run cfg as = fold (cost_step cfg) as new_cost_system"

end
