(* ===== verification/CostProps.thy ===== *)
theory CostProps
  imports CostLedger
begin

text \<open>
  What the selector ledger guarantees over all its runs: the pending amounts are exactly the charges
  of the reservations whose usage is not known, every row stays valid, and the total of a day never
  exceeds the cap while the billed usage stays within the reservations. Recording a call around
  midnight breaks the balance.
\<close>

section \<open>Held charges\<close>

definition sr_all :: "selector_reservation \<Rightarrow> string set" where
  "sr_all r = set (sr_keys r) \<union> set (sr_pending_keys r)"

definition contribution :: "string \<Rightarrow> selector_reservation \<Rightarrow> rat" where
  "contribution k r = (if k \<in> sr_all r then sr_reserved r else 0)"

definition held :: "selector_reservation list \<Rightarrow> string \<Rightarrow> rat" where
  "held rs k = sum_list (map (contribution k) rs)"

lemma held_simps [simp]: "held [] k = 0" "held (r # rs) k = contribution k r + held rs k"
  by (simp_all add: held_def)

lemma held_append [simp]: "held (rs @ rs') k = held rs k + held rs' k"
  by (simp add: held_def)

lemma held_remove:
  assumes "i < length rs"
  shows "held rs k = contribution k (rs ! i) + held (remove_at i rs) k"
proof -
  have "held rs k = held (take i rs @ rs ! i # drop (Suc i) rs) k" using id_take_nth_drop [OF assms] by simp
  then show ?thesis by (simp add: remove_at_def)
qed

lemma remove_at_subset: "set (remove_at i rs) \<subseteq> set rs"
  by (auto simp: remove_at_def dest: in_set_takeD in_set_dropD)

lemma charge_mono: "a \<le> c \<Longrightarrow> b \<le> d \<Longrightarrow> 0 \<le> fst p \<Longrightarrow> 0 \<le> snd p \<Longrightarrow> charge a b p \<le> charge c d p"
  unfolding charge_def by (intro divide_right_mono add_mono mult_right_mono) auto

lemma charge_nonneg: "0 \<le> fst p \<Longrightarrow> 0 \<le> snd p \<Longrightarrow> 0 \<le> charge a b p"
  by (simp add: charge_def)

lemma prices_cases: "prices model \<in> {None, Some (15 / 100, 60 / 100), Some (40 / 100, 160 / 100), Some (2, 8)}"
  unfolding prices_def by (simp only: insert_iff simp_thms split: if_split)

lemma prices_pos: "prices model = Some p \<Longrightarrow> 0 \<le> fst p \<and> 0 \<le> snd p"
  using prices_cases [of model] by auto

section \<open>The invariant\<close>

definition reservation_ok :: "selector_reservation \<Rightarrow> bool" where
  "reservation_ok r \<longleftrightarrow>
     (\<exists>stream date. sr_keys r = selector_keys stream date \<and> sr_pending_keys r = pending_keys stream) \<and>
     0 \<le> fst (sr_prices r) \<and> 0 \<le> snd (sr_prices r) \<and> sr_reserved r = charge (sr_input_bound r) 1024 (sr_prices r)"

lemma reservation_nonneg: "reservation_ok r \<Longrightarrow> 0 \<le> sr_reserved r"
  by (simp add: reservation_ok_def charge_nonneg)

lemma held_nonneg: "\<forall>r \<in> set rs. reservation_ok r \<Longrightarrow> 0 \<le> held rs k"
  by (induction rs) (auto simp: contribution_def reservation_nonneg)

fun cell_ok :: "string \<Rightarrow> rat \<Rightarrow> cost_cell option \<Rightarrow> bool" where
  "cell_ok k h None \<longleftrightarrow> h = 0"
| "cell_ok k h (Some (Amount a)) \<longleftrightarrow> starts_with k ''selector:'' \<and> a = h"
| "cell_ok k h (Some (Daily c)) \<longleftrightarrow> starts_with k ''cost:'' \<and> dc_reserved c = h \<and> h \<le> dc_total c"
| "cell_ok k h (Some Garbage) \<longleftrightarrow> False"

definition rows_ok :: "selector_reservation list \<Rightarrow> cost_rows \<Rightarrow> bool" where
  "rows_ok rs rows \<longleftrightarrow> (\<forall>r \<in> set rs. reservation_ok r) \<and> (\<forall>k. cell_ok k (held rs k) (rows k))"

lemma key_kinds [simp]:
  "\<not> starts_with (''cost:'' @ s) ''selector:''" "\<not> starts_with (''selector:pending:stream:'' @ s) ''cost:''"
  "\<not> starts_with ''selector:pending:global'' ''cost:''"
  by simp_all

lemma read_cost_ok:
  assumes "rows_ok rs rows" "starts_with k ''cost:''"
  obtains c where "read_cost rows k = Inr c" "dc_reserved c = held rs k" "held rs k \<le> dc_total c"
    "rows k = Some (Daily c) \<or> rows k = None \<and> dc_total c = 0"
proof -
  have "\<not> starts_with k ''selector:''" using assms(2) by (auto elim!: prefixE)
  with assms have "(\<exists>c. rows k = Some (Daily c) \<and> dc_reserved c = held rs k \<and> held rs k \<le> dc_total c) \<or>
      rows k = None \<and> held rs k = 0"
    unfolding rows_ok_def by (cases "(k, held rs k, rows k)" rule: cell_ok.cases) (auto dest: spec [of _ k])
  moreover have "0 \<le> held rs k" using assms(1) held_nonneg by (simp add: rows_ok_def)
  ultimately show ?thesis using that by (auto simp: read_cost_def empty_daily_def)
qed

lemma read_pending_ok:
  assumes "rows_ok rs rows" "starts_with k ''selector:''"
  shows "read_pending rows k = Inr (held rs k)"
proof -
  have "\<not> starts_with k ''cost:''" using assms(2) by (auto elim!: prefixE)
  with assms have "rows k = Some (Amount (held rs k)) \<or> rows k = None \<and> held rs k = 0"
    unfolding rows_ok_def by (cases "(k, held rs k, rows k)" rule: cell_ok.cases) (auto dest: spec [of _ k])
  moreover have "0 \<le> held rs k" using assms(1) held_nonneg by (simp add: rows_ok_def)
  ultimately show ?thesis by (auto simp: read_pending_def)
qed

text \<open>The rows a batch of the ledger writes, one or two days and one or two pending amounts.\<close>

lemma selector_keys_distinct [simp]: "''cost:'' @ d \<noteq> ''cost:'' @ s @ '':'' @ d" "''cost:'' @ s @ '':'' @ d \<noteq> ''cost:'' @ d"
proof -
  have "length d \<noteq> length (s @ '':'' @ d)" by simp
  then show "''cost:'' @ d \<noteq> ''cost:'' @ s @ '':'' @ d" "''cost:'' @ s @ '':'' @ d \<noteq> ''cost:'' @ d"
    by (metis append_eq_append_conv same_append_eq)+
qed

lemma selector_kinds:
  "k \<in> set (selector_keys stream date) \<Longrightarrow> starts_with k ''cost:''"
  "k \<in> set (pending_keys stream) \<Longrightarrow> starts_with k ''selector:''"
  "k \<in> set (pending_keys stream) \<Longrightarrow> k \<notin> set (selector_keys stream' date)"
  by (auto simp: selector_keys_def pending_keys_def split: option.splits)

lemma selector_distinct: "distinct (selector_keys stream date)" "distinct (pending_keys stream)"
  "length (selector_keys stream date) = length (pending_keys stream)"
  by (auto simp: selector_keys_def pending_keys_def split: option.splits)

lemma fold_put_map:
  "distinct (map fst xs) \<Longrightarrow> fold (\<lambda>(k, v) m. m(k \<mapsto> v)) xs m = m ++ map_of xs"
proof (induction xs arbitrary: m)
  case (Cons x xs)
  then have "fst x \<notin> dom (map_of xs)" by (auto simp: dom_map_of_conv_image_fst)
  with Cons show ?case by (cases x) (auto simp: map_add_def fun_eq_iff split: option.splits)
qed simp

lemma save_costs_lookup:
  assumes "distinct keys" "distinct pkeys" "set keys \<inter> set pkeys = {}" "length costs = length keys" "length pend = length pkeys"
  shows "save_costs keys costs pkeys pend rows k =
    (case map_of (zip pkeys pend) k of Some a \<Rightarrow> Some (Amount a)
     | None \<Rightarrow> (case map_of (zip keys costs) k of Some c \<Rightarrow> Some (Daily c) | None \<Rightarrow> rows k))"
proof -
  let ?xs = "zip keys (map Daily costs) @ zip pkeys (map Amount pend)"
  have "distinct (map fst ?xs)" using assms by auto
  then have "save_costs keys costs pkeys pend rows = rows ++ map_of ?xs" unfolding save_costs_def by (rule fold_put_map)
  moreover have "map_of (zip pkeys pend) k = None" if "map_of (zip keys costs) k = Some c" for c
  proof -
    have "k \<in> set keys" using that by (auto dest: map_of_SomeD set_zip_leftD)
    then show ?thesis using assms(3,5) by (auto simp: map_of_zip_is_None)
  qed
  ultimately show ?thesis
    by (auto simp: map_add_def map_of_append zip_map2 map_of_map split: option.splits)
qed

lemma collect_res_iff: "collect_res f xs = Inr ys \<longleftrightarrow> list_all2 (\<lambda>x y. f x = Inr y) xs ys"
  by (induction xs arbitrary: ys) (auto simp: list_all2_Cons1)

lemma map_of_zip_nth:
  assumes "map_of (zip xs ys) k = Some v" 
  obtains i where "i < length xs" "i < length ys" "xs ! i = k" "ys ! i = v"
  using map_of_SomeD [OF assms] by (auto simp: set_zip)

lemma rows_ok_save:
  assumes ok: "rows_ok rs rows" and k: "keys = selector_keys stream date" "pkeys = pending_keys stream"
    and len: "length costs = length keys" "length pend = length pkeys"
    and rs': "\<forall>r \<in> set rs'. reservation_ok r"
    and frame: "\<And>k. k \<notin> set keys \<Longrightarrow> k \<notin> set pkeys \<Longrightarrow> held rs' k = held rs k"
    and costs: "\<And>i. i < length keys \<Longrightarrow> dc_reserved (costs ! i) = held rs' (keys ! i) \<and> held rs' (keys ! i) \<le> dc_total (costs ! i)"
    and pend: "\<And>i. i < length pkeys \<Longrightarrow> pend ! i = held rs' (pkeys ! i)"
  shows "rows_ok rs' (save_costs keys costs pkeys pend rows)"
proof -
  have disj: "set keys \<inter> set pkeys = {}" using selector_kinds(3) k by blast
  note look = save_costs_lookup [OF selector_distinct(1,2) disj [unfolded k] len [unfolded k], folded k]
  have "cell_ok key (held rs' key) (save_costs keys costs pkeys pend rows key)" for key
  proof (cases "map_of (zip pkeys pend) key")
    case (Some a)
    then obtain i where i: "i < length pkeys" "pkeys ! i = key" "pend ! i = a" by (rule map_of_zip_nth)
    then have "starts_with key ''selector:''" using selector_kinds(2) k(2) nth_mem by blast
    with i pend [OF i(1)] Some show ?thesis by (simp add: look)
  next
    case None
    then have np: "key \<notin> set pkeys" using len by (simp add: map_of_zip_is_None)
    show ?thesis
    proof (cases "map_of (zip keys costs) key")
      case (Some c)
      then obtain i where i: "i < length keys" "keys ! i = key" "costs ! i = c" by (rule map_of_zip_nth)
      then have "starts_with key ''cost:''" using selector_kinds(1) k(1) nth_mem by blast
      with i costs [OF i(1)] Some None show ?thesis by (simp add: look)
    next
      case None2: None
      then have "key \<notin> set keys" using len by (simp add: map_of_zip_is_None)
      with frame [OF _ np] ok None None2 show ?thesis by (simp add: look rows_ok_def)
    qed
  qed
  then show ?thesis using rs' by (simp add: rows_ok_def)
qed

lemma reads_ok:
  assumes "rows_ok rs rows" "collect_res (read_pending rows) (pending_keys stream) = Inr pending"
    "collect_res (read_cost rows) (selector_keys stream date) = Inr costs"
  shows "length pending = length (pending_keys stream)" "length costs = length (selector_keys stream date)"
    "i < length (pending_keys stream) \<Longrightarrow> pending ! i = held rs (pending_keys stream ! i)"
    "i < length (selector_keys stream date) \<Longrightarrow> dc_reserved (costs ! i) = held rs (selector_keys stream date ! i) \<and>
       held rs (selector_keys stream date ! i) \<le> dc_total (costs ! i) \<and>
       (rows (selector_keys stream date ! i) = Some (Daily (costs ! i)) \<or> dc_total (costs ! i) = 0)"
proof -
  note l = assms(2,3) [unfolded collect_res_iff]
  show "length pending = length (pending_keys stream)" "length costs = length (selector_keys stream date)"
    using l by (auto dest: list_all2_lengthD)
  show "pending ! i = held rs (pending_keys stream ! i)" if "i < length (pending_keys stream)"
    using list_all2_nthD [OF l(1) that] read_pending_ok [OF assms(1) selector_kinds(2) [OF nth_mem [OF that]]] by simp
  show "dc_reserved (costs ! i) = held rs (selector_keys stream date ! i) \<and>
       held rs (selector_keys stream date ! i) \<le> dc_total (costs ! i) \<and>
       (rows (selector_keys stream date ! i) = Some (Daily (costs ! i)) \<or> dc_total (costs ! i) = 0)"
    if "i < length (selector_keys stream date)"
    using list_all2_nthD [OF l(2) that] read_cost_ok [OF assms(1) selector_kinds(1) [OF nth_mem [OF that]]]
    by (metis sum.inject(2))
qed

section \<open>Steps\<close>

lemma reserve_inv:
  assumes "reserve_on_day cfg stream model date rows = Inr (r, rows')"
  obtains pending costs costs' where
    "collect_res (read_pending rows) (pending_keys stream) = Inr pending"
    "collect_res (read_cost rows) (selector_keys stream date) = Inr costs"
    "collect_res (reserve_row (cc_daily_cap cfg) (sr_reserved r)) (zip costs pending) = Inr costs'"
    "sr_keys r = selector_keys stream date" "sr_pending_keys r = pending_keys stream"
    "rows' = save_costs (sr_keys r) costs' (sr_pending_keys r) (map (\<lambda>a. a + sr_reserved r) pending) rows"
    "reservation_ok r"
  using assms prices_pos
  by (auto simp: reserve_on_day_def Let_def reservation_ok_def split: option.splits if_split_asm) blast+

lemma reserve_row_ok:
  "reserve_row cap x cp = Inr c' \<longleftrightarrow> dc_total (fst cp) - dc_reserved (fst cp) + snd cp + x \<le> cap \<and>
     c' = (fst cp)\<lparr>dc_total := dc_total (fst cp) + x, dc_selector_calls := wrap64 (dc_selector_calls (fst cp) + 1),
       dc_unknown_calls := wrap64 (dc_unknown_calls (fst cp) + 1), dc_reserved := dc_reserved (fst cp) + x\<rparr>"
  by (cases cp) (auto simp: reserve_row_def Let_def)

lemma reserve_ok:
  assumes ok: "rows_ok rs rows" and r: "reserve_on_day cfg stream model date rows = Inr (r, rows')"
  shows "rows_ok (r # rs) rows'"
proof -
  from reserve_inv [OF r] obtain pending costs costs' where
    p: "collect_res (read_pending rows) (pending_keys stream) = Inr pending" and
    c: "collect_res (read_cost rows) (selector_keys stream date) = Inr costs" and
    c': "collect_res (reserve_row (cc_daily_cap cfg) (sr_reserved r)) (zip costs pending) = Inr costs'" and
    keys: "sr_keys r = selector_keys stream date" "sr_pending_keys r = pending_keys stream" and
    rows': "rows' = save_costs (sr_keys r) costs' (sr_pending_keys r) (map (\<lambda>a. a + sr_reserved r) pending) rows" and
    rok: "reservation_ok r" .
  note reads = reads_ok [OF ok p c]
  note l = c' [unfolded collect_res_iff reserve_row_ok]
  have len: "length costs' = length (sr_keys r)" "length pending = length (sr_pending_keys r)"
    using list_all2_lengthD [OF l] reads(1,2) selector_distinct(3) [of stream date] by (simp_all add: keys)
  show ?thesis unfolding rows'
  proof (rule rows_ok_save [OF ok keys])
    fix i assume i: "i < length (sr_keys r)"
    then have "i < length (zip costs pending)" using reads(1,2) selector_distinct(3) [of stream date] by (simp add: keys)
    from list_all2_nthD [OF l this] reads(4) [of i] i
    show "dc_reserved (costs' ! i) = held (r # rs) (sr_keys r ! i) \<and> held (r # rs) (sr_keys r ! i) \<le> dc_total (costs' ! i)"
      using nth_mem [OF i] \<open>i < length (zip costs pending)\<close> by (auto simp: keys contribution_def sr_all_def)
  next
    fix i assume i: "i < length (sr_pending_keys r)"
    then show "map (\<lambda>a. a + sr_reserved r) pending ! i = held (r # rs) (sr_pending_keys r ! i)"
      using reads(1) reads(3) [of i] nth_mem [OF i] by (simp add: keys contribution_def sr_all_def)
  qed (use ok rok len in \<open>auto simp: rows_ok_def contribution_def sr_all_def\<close>)
qed

text \<open>The known spending of each row, together with every charge that is still held, fits the cap.\<close>

lemma reserve_bound:
  assumes ok: "rows_ok rs rows" and r: "reserve_on_day cfg stream model date rows = Inr (r, rows')"
    and i: "i < length (selector_keys stream date)"
  shows "\<exists>c. rows' (selector_keys stream date ! i) = Some (Daily c) \<and>
    dc_total c - dc_reserved c + held (r # rs) (pending_keys stream ! i) \<le> cc_daily_cap cfg"
proof -
  from reserve_inv [OF r] obtain pending costs costs' where
    p: "collect_res (read_pending rows) (pending_keys stream) = Inr pending" and
    c: "collect_res (read_cost rows) (selector_keys stream date) = Inr costs" and
    c': "collect_res (reserve_row (cc_daily_cap cfg) (sr_reserved r)) (zip costs pending) = Inr costs'" and
    keys: "sr_keys r = selector_keys stream date" "sr_pending_keys r = pending_keys stream" and
    rows': "rows' = save_costs (sr_keys r) costs' (sr_pending_keys r) (map (\<lambda>a. a + sr_reserved r) pending) rows" and
    rok: "reservation_ok r" .
  note reads = reads_ok [OF ok p c]
  note l = c' [unfolded collect_res_iff reserve_row_ok]
  let ?k = "selector_keys stream date ! i"
  have len: "length costs' = length (sr_keys r)" "length pending = length (sr_pending_keys r)"
    using list_all2_lengthD [OF l] reads(1,2) selector_distinct(3) [of stream date] by (simp_all add: keys)
  have i2: "i < length (zip costs pending)" using i reads(1,2) selector_distinct(3) [of stream date] by simp
  have disj: "set (selector_keys stream date) \<inter> set (pending_keys stream) = {}" using selector_kinds(3) by blast
  have np: "?k \<notin> set (pending_keys stream)" using selector_kinds(3) nth_mem [OF i] by blast
  have m: "map_of (zip (selector_keys stream date) costs') ?k = Some (costs' ! i)"
    using i len(1) selector_distinct(1) [of stream date] by (intro map_of_is_SomeI) (auto simp: keys set_zip)
  have none: "map_of (zip (pending_keys stream) (map (\<lambda>a. a + sr_reserved r) pending)) ?k = None"
    using np len(2) by (simp add: keys map_of_zip_is_None)
  have "rows' ?k = Some (Daily (costs' ! i))"
    using save_costs_lookup [OF selector_distinct(1,2) disj, of costs' "map (\<lambda>a. a + sr_reserved r) pending" rows ?k]
      len m none by (simp add: rows' keys)
  moreover have "dc_total (costs' ! i) - dc_reserved (costs' ! i) + (pending ! i + sr_reserved r) \<le> cc_daily_cap cfg"
    using list_all2_nthD [OF l i2] i2 by simp
  moreover have "held (r # rs) (pending_keys stream ! i) = pending ! i + sr_reserved r"
    using reads(3) [of i] i selector_distinct(3) [of stream date] nth_mem [of i "pending_keys stream"]
    by (simp add: keys contribution_def sr_all_def)
  ultimately show ?thesis by auto
qed

lemma settle_balances:
  assumes ok: "rows_ok rs rows" and r: "reservation_ok r" and st: "settle r usage actual rows = Inr rows'"
    and rs: "\<And>k. held rs k = contribution k r + held rs' k" "set rs' \<subseteq> set rs" and a: "0 \<le> actual"
  shows "rows_ok rs' rows'"
proof -
  from r obtain stream date where keys: "sr_keys r = selector_keys stream date" "sr_pending_keys r = pending_keys stream"
    by (auto simp: reservation_ok_def)
  from st obtain costs pending where
    c: "collect_res (read_cost rows) (selector_keys stream date) = Inr costs" and
    p: "collect_res (read_pending rows) (pending_keys stream) = Inr pending" and
    rows': "rows' = save_costs (sr_keys r) (map (settle_row (sr_reserved r) usage actual) costs)
            (sr_pending_keys r) (map (\<lambda>a. max (a - sr_reserved r) 0) pending) rows"
    by (auto simp: settle_def keys)
  note reads = reads_ok [OF ok p c]
  have rs': "\<forall>r \<in> set rs'. reservation_ok r" using ok rs(2) by (auto simp: rows_ok_def)
  have nn: "0 \<le> held rs' k" for k using held_nonneg [OF rs'] .
  show ?thesis unfolding rows'
  proof (rule rows_ok_save [OF ok keys])
    fix i assume i: "i < length (sr_keys r)"
    then have "held rs (sr_keys r ! i) = sr_reserved r + held rs' (sr_keys r ! i)"
      using rs(1) nth_mem [OF i] by (simp add: contribution_def sr_all_def)
    with reads(2) reads(4) [of i] i nn [of "sr_keys r ! i"] a
    show "dc_reserved (map (settle_row (sr_reserved r) usage actual) costs ! i) = held rs' (sr_keys r ! i) \<and>
       held rs' (sr_keys r ! i) \<le> dc_total (map (settle_row (sr_reserved r) usage actual) costs ! i)"
      by (simp add: keys settle_row_def)
  next
    fix i assume i: "i < length (sr_pending_keys r)"
    then have "held rs (sr_pending_keys r ! i) = sr_reserved r + held rs' (sr_pending_keys r ! i)"
      using rs(1) nth_mem [OF i] by (simp add: contribution_def sr_all_def)
    with reads(1) reads(3) [of i] i nn [of "sr_pending_keys r ! i"]
    show "map (\<lambda>a. max (a - sr_reserved r) 0) pending ! i = held rs' (sr_pending_keys r ! i)"
      by (simp add: keys)
  qed (use rs' rs(1) reads(1,2) in \<open>auto simp: keys contribution_def sr_all_def\<close>)
qed

lemma billed_charge:
  assumes "billed r resp = Inr (usage, actual)" "0 \<le> fst (sr_prices r)" "0 \<le> snd (sr_prices r)"
  shows "0 \<le> actual \<and> actual \<le> charge (fst usage) (snd usage) (sr_prices r)"
proof -
  define cached where "cached = (of_nat (the (cached_tokens resp)) :: rat)"
  define discount where "discount = (if fst (sr_prices r) = 15 / 100 then 1 / 2 else 3 / 4 :: rat)"
  have d: "discount \<in> {1 / 2, 3 / 4}" "0 \<le> cached" by (simp_all add: discount_def cached_def)
  have d': "cached \<le> of_nat (fst usage)"
      "actual = charge (fst usage) (snd usage) (sr_prices r) - cached * fst (sr_prices r) * discount / 1000000"
    using assms(1) by (auto simp: billed_def Let_def cached_def discount_def split: if_split_asm option.splits)
  have "cached * (fst (sr_prices r) * discount) \<le> of_nat (fst usage) * (fst (sr_prices r) * 1)"
    using d(1) d'(1) assms(2) by (intro mult_mono) (auto intro: mult_left_le)
  moreover have "0 \<le> of_nat (snd usage) * snd (sr_prices r)" "0 \<le> cached * (fst (sr_prices r) * discount)"
    using assms(2,3) d(1,2) by auto
  ultimately show ?thesis unfolding d'(2) charge_def by (simp add: field_simps)
qed

lemma get_cost_ok:
  assumes "rows_ok rs rows" "get_cost rows ws date = Inr c"
  shows "dc_reserved c = held rs (day_key ws date) \<and> held rs (day_key ws date) \<le> dc_total c"
proof -
  have "starts_with (day_key ws date) ''cost:''" by (simp add: day_key_def split: option.split)
  from read_cost_ok [OF assms(1) this] obtain c' where "dc_reserved c' = held rs (day_key ws date)"
      "held rs (day_key ws date) \<le> dc_total c'"
      "rows (day_key ws date) = Some (Daily c') \<or> rows (day_key ws date) = None \<and> dc_total c' = 0" .
  moreover have "0 \<le> held rs (day_key ws date)" using assms(1) held_nonneg by (simp add: rows_ok_def)
  ultimately show ?thesis using assms(2) by (auto simp: get_cost_def empty_daily_def)
qed

lemma rows_ok_put:
  "rows_ok rs rows \<Longrightarrow> starts_with k ''cost:'' \<Longrightarrow> dc_reserved c = held rs k \<Longrightarrow> held rs k \<le> dc_total c \<Longrightarrow>
     rows_ok rs (rows(k \<mapsto> Daily c))"
  by (simp add: rows_ok_def)

lemma save_ok:
  assumes ok: "rows_ok rs rows" and c: "get_cost rows ws day = Inr c" "dc_reserved c2 = dc_reserved c" "dc_total c \<le> dc_total c2"
  shows "rows_ok rs (save_cost cfg c2 ws day rows)"
proof -
  have "starts_with (day_key ws day) ''cost:''" by (simp add: day_key_def split: option.split)
  with rows_ok_put [OF ok this] get_cost_ok [OF ok c(1)] c(2,3) ok show ?thesis by (simp add: save_cost_def)
qed

lemma record_ok:
  assumes ok: "rows_ok rs rows" and r: "record_internal cfg day day i n model ws rows = Inr rows'"
  shows "rows_ok rs rows'"
proof -
  from r obtain c where c: "get_cost rows ws day = Inr c" by (auto simp: record_internal_def)
  with r save_ok [OF ok c] show ?thesis
    by (auto simp: record_internal_def Let_def split: if_split_asm)
qed

section \<open>Runs\<close>

abbreviation cs_all :: "cost_system \<Rightarrow> selector_reservation list" where
  "cs_all s \<equiv> cs_open s @ cs_kept s"

text \<open>Calls are recorded under a single day.\<close>

fun one_day :: "cost_act \<Rightarrow> bool" where
  "one_day (RecordCall day_read day_write i n model ws) \<longleftrightarrow> day_read = day_write"
| "one_day _ \<longleftrightarrow> True"

lemma rows_ok_permute:
  "rows_ok rs rows \<Longrightarrow> (\<And>k. held rs' k = held rs k) \<Longrightarrow> set rs' \<subseteq> set rs \<Longrightarrow> rows_ok rs' rows"
  by (auto simp: rows_ok_def)

lemma drop_open:
  assumes "i < length (cs_open s)"
  shows "held (cs_all s) k = contribution k (cs_open s ! i) + held (remove_at i (cs_open s) @ cs_kept s) k"
    "set (remove_at i (cs_open s) @ cs_kept s) \<subseteq> set (cs_all s)" "cs_open s ! i \<in> set (cs_all s)"
  using held_remove [OF assms, of k] remove_at_subset [of i "cs_open s"] assms by auto

lemma keep_ok:
  assumes "rows_ok (cs_all s) rows" "i < length (cs_open s)"
  shows "rows_ok (remove_at i (cs_open s) @ cs_open s ! i # cs_kept s) rows"
  by (rule rows_ok_permute [OF assms(1)]) (use drop_open [OF assms(2)] in auto)

lemma cost_step_ok:
  assumes ok: "rows_ok (cs_all s) (cs_rows s)" and d: "one_day a"
  shows "rows_ok (cs_all (cost_step cfg a s)) (cs_rows (cost_step cfg a s))"
proof (cases a)
  case (Reserve stream model date)
  then show ?thesis using ok reserve_ok [OF ok] by (auto split: sum.split)
next
  case (Reconcile i resp)
  show ?thesis
  proof (cases "i < length (cs_open s)")
    case True
    let ?r = "cs_open s ! i"
    have r: "reservation_ok ?r" using ok drop_open(3) [OF True] by (auto simp: rows_ok_def)
    show ?thesis
    proof (cases "fst (reconcile ?r resp (cs_rows s))")
      case None
      with Reconcile True keep_ok [OF ok True] show ?thesis by (simp add: Let_def)
    next
      case (Some rows)
      then obtain usage actual where "billed ?r resp = Inr (usage, actual)" "settle ?r usage actual (cs_rows s) = Inr rows"
        by (auto simp: reconcile_def split: sum.splits)
      with settle_balances [OF ok r _ drop_open(1,2) [OF True]] billed_charge r
      have "rows_ok (remove_at i (cs_open s) @ cs_kept s) rows" by (auto simp: reservation_ok_def)
      with Reconcile True Some show ?thesis by (simp add: Let_def)
    qed
  qed (use Reconcile ok in simp)
next
  case (Abandon i)
  with keep_ok [OF ok] ok show ?thesis by auto
next
  case (RecordCall d1 d2 i n model ws)
  with ok record_ok [OF ok] d show ?thesis by (auto split: sum.split)
qed

lemma cost_fold_ok:
  "rows_ok (cs_all s) (cs_rows s) \<Longrightarrow> list_all one_day as \<Longrightarrow>
     rows_ok (cs_all (fold (cost_step cfg) as s)) (cs_rows (fold (cost_step cfg) as s))"
  by (induction as arbitrary: s) (simp_all add: cost_step_ok)

lemma cost_run_ok: "list_all one_day as \<Longrightarrow> rows_ok (cs_all (cost_run cfg as)) (cs_rows (cost_run cfg as))"
  unfolding cost_run_def by (rule cost_fold_ok) (simp_all add: new_cost_system_def rows_ok_def)

lemma held_global: "\<forall>r \<in> set rs. reservation_ok r \<Longrightarrow> held rs ''selector:pending:global'' = sum_list (map sr_reserved rs)"
  by (induction rs) (auto simp: contribution_def sr_all_def reservation_ok_def pending_keys_def)

lemma held_stream: "\<forall>r \<in> set rs. reservation_ok r \<Longrightarrow> held rs (''selector:pending:stream:'' @ x) =
    sum_list (map sr_reserved (filter (\<lambda>r. ''selector:pending:stream:'' @ x \<in> set (sr_pending_keys r)) rs))"
proof (induction rs)
  case (Cons r rs)
  then obtain stream date where "sr_keys r = selector_keys stream date" by (auto simp: reservation_ok_def)
  then have "''selector:pending:stream:'' @ x \<notin> set (sr_keys r)"
    using selector_kinds(1) key_kinds(2) by metis
  with Cons show ?case by (simp add: contribution_def sr_all_def)
qed simp

text \<open>A reservation that is reconciled, one that is abandoned, and one of the same day under a stream.\<close>

definition ledger_config :: cost_config where
  "ledger_config = \<lparr>cc_daily_cap = 1 / 2, cc_persist = True\<rparr>"

definition ledger_response :: provider_response where
  "ledger_response = \<lparr>pr_tier = Some ''default'', pr_model = Some ''gpt-4o-mini'',
     pr_usage = Some \<lparr>uf_prompt = Some 1000, uf_completion = Some 100, uf_total = Some 1100, uf_details = NoDetails\<rparr>\<rparr>"

definition ledger_demo :: "cost_act list" where
  "ledger_demo = [Reserve None ''gpt-4o-mini'' ''d'', Reconcile 0 ledger_response,
     Reserve (Some ''s'') ''gpt-4o-mini'' ''d'', Abandon 0]"

lemmas ledger_defs = ledger_config_def ledger_response_def ledger_demo_def cost_run_def new_cost_system_def
  reserve_on_day_def prices_def selector_keys_def pending_keys_def charge_def Let_def read_pending_def read_cost_def
  empty_daily_def reserve_row_def save_costs_def remove_at_def reconcile_def billed_def from_response_def as_u32_def
  same_model_def cached_tokens_def settle_def settle_row_def



section \<open>The cap\<close>

definition within_estimate :: "selector_reservation \<Rightarrow> provider_response \<Rightarrow> bool" where
  "within_estimate r resp \<longleftrightarrow>
     (case billed r resp of Inl _ \<Rightarrow> True | Inr (usage, _) \<Rightarrow> fst usage \<le> sr_input_bound r \<and> snd usage \<le> 1024)"

text \<open>Runs of the selector alone whose billed usage stays within the reservations.\<close>

fun selector_run :: "cost_config \<Rightarrow> cost_act list \<Rightarrow> cost_system \<Rightarrow> bool" where
  "selector_run cfg [] s \<longleftrightarrow> True"
| "selector_run cfg (a # as) s \<longleftrightarrow>
     (case a of
        Reserve stream model date \<Rightarrow> CHR '':'' \<notin> set date
      | Reconcile i resp \<Rightarrow> length (cs_open s) \<le> i \<or> within_estimate (cs_open s ! i) resp
      | Abandon i \<Rightarrow> True
      | RecordCall d1 d2 i n model ws \<Rightarrow> False) \<and>
     selector_run cfg as (cost_step cfg a s)"

definition dated :: "selector_reservation \<Rightarrow> bool" where
  "dated r \<longleftrightarrow> (\<exists>stream date. sr_keys r = selector_keys stream date \<and> sr_pending_keys r = pending_keys stream \<and> CHR '':'' \<notin> set date)"

definition capped :: "cost_config \<Rightarrow> cost_rows \<Rightarrow> bool" where
  "capped cfg rows \<longleftrightarrow> (\<forall>k c. rows k = Some (Daily c) \<longrightarrow> dc_total c \<le> cc_daily_cap cfg)"

lemma contribution_pair:
  assumes r: "dated r" "reservation_ok r" and i: "i < length (selector_keys stream date)" and d: "CHR '':'' \<notin> set date"
  shows "contribution (selector_keys stream date ! i) r \<le> contribution (pending_keys stream ! i) r"
proof -
  let ?k = "selector_keys stream date ! i"
  from r(1) obtain stream' date' where r': "sr_keys r = selector_keys stream' date'" "sr_pending_keys r = pending_keys stream'"
      "CHR '':'' \<notin> set date'" by (auto simp: dated_def)
  have np: "?k \<notin> set (sr_pending_keys r)" using selector_kinds(3) nth_mem [OF i] r'(2) by metis
  have "pending_keys stream ! i \<in> set (sr_pending_keys r)" if k: "?k \<in> set (sr_keys r)"
  proof (cases i)
    case 0
    then show ?thesis by (simp add: r' pending_keys_def)
  next
    case (Suc j)
    with i obtain s where s: "stream = Some s" "i = 1" by (auto simp: selector_keys_def split: option.splits)
    have "''cost:'' @ s @ '':'' @ date \<noteq> ''cost:'' @ date'" using r'(3) by auto
    with k s obtain s' where s': "stream' = Some s'" "s @ CHR '':'' # date = s' @ CHR '':'' # date'"
      by (auto simp: r' selector_keys_def split: option.splits)
    have "rsplit_once CHR '':'' (s @ CHR '':'' # date) = rsplit_once CHR '':'' (s' @ CHR '':'' # date')" by (simp add: s'(2))
    then have "s = s'" using d r'(3) by (simp add: rsplit_once_append)
    with s s' show ?thesis by (simp add: r' pending_keys_def)
  qed
  with np reservation_nonneg [OF r(2)] show ?thesis by (auto simp: contribution_def sr_all_def)
qed

lemma held_pair:
  assumes "\<forall>r \<in> set rs. dated r \<and> reservation_ok r" "i < length (selector_keys stream date)" "CHR '':'' \<notin> set date"
  shows "held rs (selector_keys stream date ! i) \<le> held rs (pending_keys stream ! i)"
  using assms(1)
proof (induction rs)
  case (Cons r rs)
  with contribution_pair [OF _ _ assms(2,3), of r] show ?case by (force intro: add_mono)
qed simp

lemma save_capped:
  assumes "capped cfg rows" "\<forall>c \<in> set costs. dc_total c \<le> cc_daily_cap cfg"
  shows "capped cfg (save_costs keys costs pkeys pend rows)"
proof -
  have "capped cfg (fold (\<lambda>(k, v) m. m(k \<mapsto> v)) xs rows)"
    if "\<forall>c. Daily c \<in> snd ` set xs \<longrightarrow> dc_total c \<le> cc_daily_cap cfg" "capped cfg rows" for xs rows
    using that
  proof (induction xs arbitrary: rows)
    case (Cons x xs)
    have step: "fold (\<lambda>(k, v) m. m(k \<mapsto> v)) (x # xs) rows = fold (\<lambda>(k, v) m. m(k \<mapsto> v)) xs (rows(fst x \<mapsto> snd x))"
      by (simp add: case_prod_beta)
    have put: "capped cfg (rows(fst x \<mapsto> snd x))" using Cons.prems by (auto simp: capped_def)
    have "\<forall>c. Daily c \<in> snd ` set xs \<longrightarrow> dc_total c \<le> cc_daily_cap cfg" using Cons.prems(1) by simp
    from Cons.IH [OF this put] show ?case unfolding step .
  qed simp
  moreover have "Daily c \<in> snd ` set (zip keys (map Daily costs) @ zip pkeys (map Amount pend)) \<Longrightarrow> c \<in> set costs" for c
    by (auto dest: set_zip_rightD)
  ultimately show ?thesis using assms unfolding save_costs_def by blast
qed

lemma reserve_capped:
  assumes ok: "rows_ok rs rows" and dt: "\<forall>r \<in> set rs. dated r" and cap: "capped cfg rows" and d: "CHR '':'' \<notin> set date"
    and r: "reserve_on_day cfg stream model date rows = Inr (r, rows')"
  shows "capped cfg rows' \<and> dated r"
proof -
  from reserve_inv [OF r] obtain pending costs costs' where
    p: "collect_res (read_pending rows) (pending_keys stream) = Inr pending" and
    c: "collect_res (read_cost rows) (selector_keys stream date) = Inr costs" and
    c': "collect_res (reserve_row (cc_daily_cap cfg) (sr_reserved r)) (zip costs pending) = Inr costs'" and
    keys: "sr_keys r = selector_keys stream date" "sr_pending_keys r = pending_keys stream" and
    rows': "rows' = save_costs (sr_keys r) costs' (sr_pending_keys r) (map (\<lambda>a. a + sr_reserved r) pending) rows" .
  note reads = reads_ok [OF ok p c]
  note l = c' [unfolded collect_res_iff reserve_row_ok]
  have rs: "\<forall>r \<in> set rs. dated r \<and> reservation_ok r" using ok dt by (simp add: rows_ok_def)
  have "dc_total x \<le> cc_daily_cap cfg" if "x \<in> set costs'" for x
  proof -
    from that obtain i where i: "i < length costs'" "x = costs' ! i" by (auto simp: in_set_conv_nth)
    have i2: "i < length (zip costs pending)" using i(1) list_all2_lengthD [OF l] by simp
    have i3: "i < length (selector_keys stream date)" "i < length (pending_keys stream)" using i2 reads(1,2) by simp_all
    have "dc_reserved (costs ! i) \<le> pending ! i"
      using reads(3) [OF i3(2)] reads(4) [OF i3(1)] held_pair [OF rs i3(1) d] by simp
    with list_all2_nthD [OF l i2] i(2) i2 show ?thesis by simp
  qed
  with save_capped [OF cap] keys d show ?thesis unfolding rows' by (auto simp: dated_def)
qed

lemma settle_capped:
  assumes ok: "rows_ok rs rows" and r: "r \<in> set rs" and cap: "capped cfg rows" "0 \<le> cc_daily_cap cfg"
    and b: "billed r resp = Inr (usage, actual)" "within_estimate r resp"
    and st: "settle r usage actual rows = Inr rows'"
  shows "capped cfg rows'"
proof -
  from ok r have rok: "reservation_ok r" by (simp add: rows_ok_def)
  then obtain stream date where keys: "sr_keys r = selector_keys stream date" "sr_pending_keys r = pending_keys stream"
    by (auto simp: reservation_ok_def)
  from st obtain costs pending where
    c: "collect_res (read_cost rows) (selector_keys stream date) = Inr costs" and
    p: "collect_res (read_pending rows) (pending_keys stream) = Inr pending" and
    rows': "rows' = save_costs (sr_keys r) (map (settle_row (sr_reserved r) usage actual) costs)
            (sr_pending_keys r) (map (\<lambda>a. max (a - sr_reserved r) 0) pending) rows"
    by (auto simp: settle_def keys)
  note reads = reads_ok [OF ok p c]
  have pr: "0 \<le> fst (sr_prices r)" "0 \<le> snd (sr_prices r)" using rok by (simp_all add: reservation_ok_def)
  have "charge (fst usage) (snd usage) (sr_prices r) \<le> sr_reserved r"
    using rok charge_mono [OF _ _ pr, of "fst usage" "sr_input_bound r" "snd usage" 1024] b
    by (simp add: reservation_ok_def within_estimate_def)
  then have actual: "actual \<le> sr_reserved r" using billed_charge [OF b(1) pr] by linarith
  have nn: "\<forall>r \<in> set rs. reservation_ok r" using ok by (simp add: rows_ok_def)
  have "dc_total x \<le> cc_daily_cap cfg" if "x \<in> set (map (settle_row (sr_reserved r) usage actual) costs)" for x
  proof -
    from that obtain i where i: "i < length costs" "x = settle_row (sr_reserved r) usage actual (costs ! i)"
      by (auto simp: in_set_conv_nth)
    then have i2: "i < length (selector_keys stream date)" using reads(2) by simp
    let ?k = "selector_keys stream date ! i"
    obtain j where j: "j < length rs" "rs ! j = r" using r by (auto simp: in_set_conv_nth)
    have "contribution ?k r = sr_reserved r" using nth_mem [OF i2] by (simp add: contribution_def sr_all_def keys)
    then have "sr_reserved r \<le> held rs ?k"
      using held_remove [OF j(1), of ?k] held_nonneg [of "remove_at j rs" ?k] remove_at_subset [of j rs] nn j(2) by fastforce
    then have "sr_reserved r \<le> dc_total (costs ! i)" "dc_total (costs ! i) \<le> cc_daily_cap cfg"
      using reads(4) [OF i2] cap by (auto simp: capped_def)
    with i(2) actual show ?thesis by (simp add: settle_row_def)
  qed
  with save_capped [OF cap(1)] show ?thesis unfolding rows' by blast
qed

lemma selector_fold_capped:
  assumes "0 \<le> cc_daily_cap cfg"
  shows "rows_ok (cs_all s) (cs_rows s) \<Longrightarrow> \<forall>r \<in> set (cs_all s). dated r \<Longrightarrow> capped cfg (cs_rows s) \<Longrightarrow>
    selector_run cfg as s \<Longrightarrow> capped cfg (cs_rows (fold (cost_step cfg) as s))"
proof (induction as arbitrary: s)
  case (Cons a as)
  let ?s = "cost_step cfg a s"
  have od: "one_day a" using Cons.prems(4) by (cases a) auto
  have "(\<forall>r \<in> set (cs_all ?s). dated r) \<and> capped cfg (cs_rows ?s)"
  proof (cases a)
    case (Reserve stream model date)
    with Cons.prems reserve_capped [OF Cons.prems(1-3)] show ?thesis by (auto split: sum.split)
  next
    case (Reconcile i resp)
    show ?thesis
    proof (cases "i < length (cs_open s)")
      case True
      note dr = drop_open(2,3) [OF True]
      show ?thesis
      proof (cases "fst (reconcile (cs_open s ! i) resp (cs_rows s))")
        case None
        with Reconcile True dr Cons.prems(2,3) show ?thesis by (auto simp: Let_def)
      next
        case (Some rows)
        then obtain usage actual where b: "billed (cs_open s ! i) resp = Inr (usage, actual)"
            "settle (cs_open s ! i) usage actual (cs_rows s) = Inr rows"
          by (auto simp: reconcile_def split: sum.splits)
        have "within_estimate (cs_open s ! i) resp" using Cons.prems(4) Reconcile True by simp
        from settle_capped [OF Cons.prems(1) dr(2) Cons.prems(3) assms b(1) this b(2)]
        show ?thesis using Reconcile True Some dr(1) Cons.prems(2) by (auto simp: Let_def)
      qed
    qed (use Reconcile Cons.prems in simp)
  next
    case (Abandon i)
    then show ?thesis using Cons.prems(2,3) drop_open(2,3) [of i s] by (auto simp: not_le)
  next
    case RecordCall
    with Cons.prems(4) show ?thesis by simp
  qed
  with Cons.IH cost_step_ok [OF Cons.prems(1) od] Cons.prems(4) show ?case by simp
qed simp

text \<open>C30. The selector never overspends: in every run whose billed usage stays within the reservations
  the recorded total of each day, globally and for each stream, stays within the daily cap, however
  many calls are in flight, fail, or are reconciled on a later day.\<close>

theorem day_total_capped:
  assumes "0 \<le> cc_daily_cap cfg" "selector_run cfg as new_cost_system"
    and "cs_rows (cost_run cfg as) k = Some (Daily c)"
  shows "dc_total c \<le> cc_daily_cap cfg"
  using selector_fold_capped [OF assms(1) _ _ _ assms(2)] assms(3)
  by (simp add: new_cost_system_def rows_ok_def capped_def cost_run_def)

theorem day_total_capped_witness:
  "\<exists>c. cs_rows (cost_run ledger_config ledger_demo) ''cost:d'' = Some (Daily c) \<and> 0 < dc_total c \<and> dc_total c \<le> 1 / 2"
proof -
  have run: "selector_run ledger_config ledger_demo new_cost_system"
    by (simp add: ledger_defs within_estimate_def)
  have "\<exists>c. cs_rows (cost_run ledger_config ledger_demo) ''cost:d'' = Some (Daily c) \<and> 0 < dc_total c"
    by (simp add: ledger_defs)
  then obtain c where "cs_rows (cost_run ledger_config ledger_demo) ''cost:d'' = Some (Daily c)" "0 < dc_total c" by blast
  with day_total_capped [OF _ run this(1)] show ?thesis by (auto simp: ledger_config_def)
qed

section \<open>Budgets\<close>

lemma usage_tier_mono:
  assumes "p \<le> p'"
  shows "allow_llm_calls (usage_tier p') \<Longrightarrow> allow_llm_calls (usage_tier p)"
    "allow_associations (usage_tier p') \<Longrightarrow> allow_associations (usage_tier p)"
    "allow_reranker (usage_tier p') \<Longrightarrow> allow_reranker (usage_tier p)"
  using assms by (auto simp: usage_tier_def allow_llm_calls_def allow_associations_def allow_reranker_def split: if_splits)

text \<open>The tiers only tighten as the spending of a day grows: what a tier forbids, no higher spending allows.\<close>

theorem budget_tiers_monotone:
  assumes "rows (day_key ws date) = Some (Daily c)" "rows' (day_key ws date) = Some (Daily c')" "dc_total c \<le> dc_total c'"
  shows "(allow_llm_calls (check_cost_budget rows' ws date b) \<longrightarrow> allow_llm_calls (check_cost_budget rows ws date b)) \<and>
    (allow_associations (check_cost_budget rows' ws date b) \<longrightarrow> allow_associations (check_cost_budget rows ws date b)) \<and>
    (allow_reranker (check_cost_budget rows' ws date b) \<longrightarrow> allow_reranker (check_cost_budget rows ws date b))"
proof (cases "b \<le> 0")
  case True
  then show ?thesis by (simp add: check_cost_budget_def)
next
  case False
  then have "dc_total c / b \<le> dc_total c' / b" using assms(3) by (simp add: divide_right_mono)
  with usage_tier_mono assms(1,2) False show ?thesis
    unfolding check_cost_budget_def Let_def by (simp only: option.case cost_cell.case if_False) blast
qed

text \<open>A call recorded while the day changes replaces the row of the new day by the one of the old day.\<close>

theorem record_across_midnight:
  assumes "cc_persist cfg" "rows (day_key ws d1) = Some (Daily c)"
  shows "\<exists>rows' c'. record_internal cfg d1 d2 i n model ws rows = Inr rows' \<and>
    rows' (day_key ws d2) = Some (Daily c') \<and> dc_date c' = dc_date c \<and> dc_total c \<le> dc_total c'"
  using assms by (simp add: record_internal_def get_cost_def save_cost_def Let_def)

end
