(* ===== verification/HybridSearch.thy ===== *)
theory HybridSearch
  imports SearchIndex "HOL-Library.Product_Lexorder"
begin

text \<open>
  Candidate fusion (\<^verbatim>\<open>loomem-core/src/hybrid_search.rs\<close> with \<^verbatim>\<open>clock.rs\<close> and
  \<^verbatim>\<open>candidate_budget.rs\<close>, \<^verbatim>\<open>vector_search.rs\<close>, \<^verbatim>\<open>search/fusion.rs\<close>, \<^verbatim>\<open>search/signals\<close>,
  \<^verbatim>\<open>search/query_taxonomy.rs\<close>): cosine ranking, the weighted fusion of lexical and dense scores with
  decay and authority, the pool cut with guaranteed members, and reciprocal rank fusion. Scores are
  real numbers: the rounding of \<^verbatim>\<open>f32\<close> and \<^verbatim>\<open>f64\<close> is not modelled, and a division by a zero
  maximum, which the code turns into a NaN, gives zero here; BM25 scores are positive. Sorting is stable, as \<^verbatim>\<open>sort_by\<close> is.
\<close>

section \<open>Results and configuration\<close>

record search_result =
  sh_id :: string
  sh_content :: string
  sh_user_id :: string
  sh_app_id :: string
  sh_level :: int
  sh_timestamp :: int
  sh_score :: real

record hybrid_result =
  hr_id :: string
  hr_content :: string
  hr_user_id :: string
  hr_app_id :: string
  hr_level :: int
  hr_timestamp :: int
  hr_score :: real
  hr_bm25 :: real
  hr_vector :: real
  hr_decay :: real

record search_config =
  sg_bm25_weight :: real
  sg_vector_weight :: real
  sg_l0_lambda :: real
  sg_l1_lambda :: real
  sg_top_k :: nat
  sg_similarity_floor :: real
  sg_match_relief :: real
  sg_user_state_boost :: real
  sg_agent_fact_damp :: real

definition sort_desc :: "('a \<Rightarrow> real) \<Rightarrow> 'a list \<Rightarrow> 'a list" where
  "sort_desc f xs = sort_key (\<lambda>x. - f x) xs"

text \<open>\<^verbatim>\<open>store.get_chunk(id).ok().flatten()\<close>.\<close>

definition fetch :: "store \<Rightarrow> string \<Rightarrow> chunk option" where
  "fetch st i = (case get_chunk st i of Inr (Some c) \<Rightarrow> Some c | _ \<Rightarrow> None)"

section \<open>Vector search\<close>

type_synonym embedding = "string \<times> real list"

definition dot :: "real list \<Rightarrow> real list \<Rightarrow> real" where
  "dot xs ys = sum_list (map (\<lambda>(x, y). x * y) (zip xs ys))"

definition cosine_similarity :: "real list \<Rightarrow> real list \<Rightarrow> real" where
  "cosine_similarity xs ys =
     (if length xs \<noteq> length ys then 0
      else (let na = sqrt (dot xs xs); nb = sqrt (dot ys ys)
            in if na = 0 \<or> nb = 0 then 0 else dot xs ys / (na * nb)))"

definition vector_search :: "embedding list \<Rightarrow> real list \<Rightarrow> nat \<Rightarrow> (string \<times> real) list" where
  "vector_search embeddings query top_k =
     (if embeddings = [] \<or> query = [] then []
      else take top_k (sort_desc snd (map (\<lambda>(i, e). (i, cosine_similarity query e)) embeddings)))"

section \<open>Score factors\<close>

definition compute_time_decay :: "search_config \<Rightarrow> int \<Rightarrow> int \<Rightarrow> int \<Rightarrow> real" where
  "compute_time_decay cfg now timestamp level =
     (let lambda = (if level = 0 then sg_l0_lambda cfg else sg_l1_lambda cfg)
      in exp (- lambda * (of_int (now - timestamp) / 86400)))"

definition relieve_decay :: "real \<Rightarrow> real \<Rightarrow> real \<Rightarrow> real" where
  "relieve_decay decay strength relief =
     (if relief \<le> 0 then decay
      else decay + (1 - decay) * min relief 1 * min (max strength 0) 1)"

definition trust_provenance_multiplier :: "chunk \<Rightarrow> real" where
  "trust_provenance_multiplier c =
     (case ch_provenance_role c of Claim \<Rightarrow> 1 | Cue \<Rightarrow> 80 / 100 | Evidence \<Rightarrow> 50 / 100) *
     (if ch_trust_level c \<in> {Some ''a1'', None} then 1
      else if ch_trust_level c = Some ''a2'' then 92 / 100 else 80 / 100)"

definition is_user_state_fact_type :: "fact_type option \<Rightarrow> bool" where
  "is_user_state_fact_type t \<longleftrightarrow> t \<in> {Some PreferenceOrDecision, Some ProjectState}"

definition attribution_multiplier :: "string option \<Rightarrow> fact_type option \<Rightarrow> search_config \<Rightarrow> real" where
  "attribution_multiplier author t cfg =
     (if author = Some ''user'' \<and> is_user_state_fact_type t then sg_user_state_boost cfg
      else if author = Some ''assistant'' \<and> is_user_state_fact_type t then sg_agent_fact_damp cfg
      else 1)"

definition attribution_of :: "search_config \<Rightarrow> chunk \<Rightarrow> real" where
  "attribution_of cfg c =
     (case ch_extraction_meta c of
        None \<Rightarrow> 1
      | Some m \<Rightarrow> attribution_multiplier (em_attributed_to m) (Some (em_fact_type m)) cfg)"

section \<open>Candidate budget\<close>

record candidate_budget =
  cb_dense :: nat
  cb_scoped_dense :: nat
  cb_fused :: nat

abbreviation usize_max :: nat where "usize_max \<equiv> u64_max"

definition checked_mul :: "string \<Rightarrow> nat \<Rightarrow> nat \<Rightarrow> nat res" where
  "checked_mul msg a b = (if a * b \<le> usize_max then Inr (a * b) else Inl (Err msg))"

definition new_budget :: "nat \<Rightarrow> nat \<Rightarrow> candidate_budget res" where
  "new_budget configured requested =
     (let effective = max configured requested
      in rbind (checked_mul ''dense candidate budget overflow'' effective 2) (\<lambda>dense.
         rbind (checked_mul ''scoped candidate budget overflow'' effective 4) (\<lambda>scoped.
         rbind (checked_mul ''fusion candidate budget overflow'' effective 3) (\<lambda>fused.
         Inr \<lparr>cb_dense = dense, cb_scoped_dense = scoped, cb_fused = fused\<rparr>))))"

definition vector_fetch :: "candidate_budget \<Rightarrow> bool \<Rightarrow> nat" where
  "vector_fetch b filtered = (if filtered then cb_scoped_dense b else cb_dense b)"

text \<open>The head of the pool and, beyond it, the members that are guaranteed.\<close>

definition retain_pool :: "hybrid_result list \<Rightarrow> nat \<Rightarrow> string set option \<Rightarrow> hybrid_result list" where
  "retain_pool rs pool guaranteed =
     (if length rs \<le> pool then rs
      else (case guaranteed of
              None \<Rightarrow> take pool rs
            | Some ids \<Rightarrow> take pool rs @ filter (\<lambda>r. hr_id r \<in> ids) (drop pool rs)))"

section \<open>Weighted fusion\<close>

definition max_score :: "real list \<Rightarrow> real" where
  "max_score xs = (case xs of [] \<Rightarrow> 1 | x # ys \<Rightarrow> fold max ys x)"

text \<open>A map built by inserting in order keeps the last value of a key.\<close>

definition last_value :: "('k \<times> 'v) list \<Rightarrow> 'k \<Rightarrow> 'v option" where
  "last_value kvs k = map_of (rev kvs) k"

definition fuse_one ::
  "search_config \<Rightarrow> int \<Rightarrow> store option \<Rightarrow> (string \<Rightarrow> (real \<times> search_result) option) \<Rightarrow> (string \<Rightarrow> real option) \<Rightarrow>
     string \<Rightarrow> hybrid_result option" where
  "fuse_one cfg now st bm vm i =
     (let (bm25, doc) = (case bm i of Some (s, d) \<Rightarrow> (s, Some d) | None \<Rightarrow> (0, None));
          vector = (case vm i of Some s \<Rightarrow> s | None \<Rightarrow> 0);
          fusion = sg_bm25_weight cfg * bm25 + sg_vector_weight cfg * vector;
          co = Option.bind st (\<lambda>s. fetch s i);
          data = (case doc of
                    Some d \<Rightarrow> Some (sh_content d, sh_user_id d, sh_app_id d, sh_level d, sh_timestamp d)
                  | None \<Rightarrow> map_option (\<lambda>c. (ch_content c, ''default'', ''default'', ch_level c, as_i64 (ch_timestamp c))) co)
      in case data of
           None \<Rightarrow> None
         | Some (content, user, app, level, timestamp) \<Rightarrow>
             (let decay = relieve_decay (compute_time_decay cfg now timestamp level) (max bm25 vector) (sg_match_relief cfg);
                  trust = (case co of Some c \<Rightarrow> trust_provenance_multiplier c | None \<Rightarrow> 1);
                  attrib = (case co of Some c \<Rightarrow> attribution_of cfg c | None \<Rightarrow> 1)
              in Some \<lparr>hr_id = i, hr_content = content, hr_user_id = user, hr_app_id = app, hr_level = level,
                   hr_timestamp = timestamp, hr_score = fusion * decay * trust * attrib, hr_bm25 = bm25,
                   hr_vector = vector, hr_decay = decay\<rparr>))"

definition fuse_with_vector_budget ::
  "search_config \<Rightarrow> int \<Rightarrow> search_result list \<Rightarrow> (string \<times> real) list \<Rightarrow> store option \<Rightarrow> string set option \<Rightarrow>
     candidate_budget \<Rightarrow> hybrid_result list" where
  "fuse_with_vector_budget cfg now bm25 vector st guaranteed budget =
     (let vec = (if 0 < sg_similarity_floor cfg then filter (\<lambda>(_, s). sg_similarity_floor cfg \<le> s) vector else vector);
          max_bm25 = max_score (map sh_score bm25);
          max_vector = max_score (map snd vec);
          bm = last_value (map (\<lambda>h. (sh_id h, (sh_score h / max_bm25, h))) bm25);
          vm = last_value (map (\<lambda>(i, s). (i, if 0 < max_vector then s / max_vector else 0)) vec);
          ids = remdups_adj (sort (map sh_id bm25 @ map fst vec));
          fused = List.map_filter (fuse_one cfg now st bm vm) ids
      in retain_pool (sort_desc hr_score fused) (cb_fused budget) guaranteed)"

definition in_streams :: "store \<Rightarrow> string list \<Rightarrow> string \<Rightarrow> bool" where
  "in_streams st streams i \<longleftrightarrow> (case fetch st i of Some c \<Rightarrow> ch_stream c \<in> set streams | None \<Rightarrow> False)"

record vector_options =
  vo_store :: "store option"
  vo_streams :: "string list option"
  vo_guaranteed :: "string set option"
  vo_budget :: candidate_budget

definition search_with_vector_inner ::
  "search_config \<Rightarrow> int \<Rightarrow> search_result list \<Rightarrow> embedding list \<Rightarrow> real list \<Rightarrow> vector_options \<Rightarrow> hybrid_result list" where
  "search_with_vector_inner cfg now bm25 embeddings query opts =
     (let found = vector_search embeddings query (vector_fetch (vo_budget opts) (vo_streams opts \<noteq> None));
          vec = (case (vo_streams opts, vo_store opts) of
                   (Some streams, Some st) \<Rightarrow> filter (\<lambda>(i, _). in_streams st streams i) found
                 | _ \<Rightarrow> found)
      in fuse_with_vector_budget cfg now bm25 vec (vo_store opts) (vo_guaranteed opts) (vo_budget opts))"

definition search_with_vector_budget ::
  "search_config \<Rightarrow> int \<Rightarrow> search_result list \<Rightarrow> embedding list \<Rightarrow> real list \<Rightarrow> vector_options \<Rightarrow> hybrid_result list res" where
  "search_with_vector_budget cfg now bm25 embeddings query opts =
     (if vo_streams opts = None \<or> vo_store opts \<noteq> None
      then Inr (search_with_vector_inner cfg now bm25 embeddings query opts)
      else Inl (Err ''stream-filtered vector retrieval requires storage''))"

definition bm25_only_with_budget ::
  "search_config \<Rightarrow> int \<Rightarrow> search_result list \<Rightarrow> string set option \<Rightarrow> candidate_budget \<Rightarrow> hybrid_result list" where
  "bm25_only_with_budget cfg now bm25 guaranteed budget =
     (let max_bm25 = max_score (map sh_score bm25);
          result = (\<lambda>d. let s = sh_score d / max_bm25;
                            decay = relieve_decay (compute_time_decay cfg now (sh_timestamp d) (sh_level d)) s (sg_match_relief cfg)
                        in \<lparr>hr_id = sh_id d, hr_content = sh_content d, hr_user_id = sh_user_id d, hr_app_id = sh_app_id d,
                            hr_level = sh_level d, hr_timestamp = sh_timestamp d, hr_score = s * decay, hr_bm25 = s,
                            hr_vector = 0, hr_decay = decay\<rparr>)
      in retain_pool (sort_desc hr_score (map result bm25)) (cb_fused budget) guaranteed)"

section \<open>Reciprocal rank fusion\<close>

datatype query_type = FactualQuery | TemporalQuery | RelationalQuery | RecentQuery | DocumentLookupQuery

record weight_vector =
  wv_dense :: real
  wv_lexical :: real
  wv_entity :: real
  wv_graph :: real
  wv_recency :: real

definition tier_h :: real where "tier_h = 35 / 100"
definition tier_m :: real where "tier_m = 20 / 100"
definition tier_l :: real where "tier_l = 8 / 100"

definition normalize_weights :: "real list \<Rightarrow> weight_vector" where
  "normalize_weights raw = \<lparr>wv_dense = raw ! 0 / sum_list raw, wv_lexical = raw ! 1 / sum_list raw,
     wv_entity = raw ! 2 / sum_list raw, wv_graph = raw ! 3 / sum_list raw, wv_recency = raw ! 4 / sum_list raw\<rparr>"

definition for_type :: "query_type \<Rightarrow> weight_vector" where
  "for_type t = normalize_weights
     (case t of
        FactualQuery \<Rightarrow> [tier_h, tier_h, tier_m, tier_l, tier_l]
      | TemporalQuery \<Rightarrow> [tier_m, tier_l, tier_l, tier_l, tier_m]
      | RelationalQuery \<Rightarrow> [tier_m, tier_l, tier_h, tier_h, tier_l]
      | RecentQuery \<Rightarrow> [tier_l, tier_l, tier_l, 0, tier_h]
      | DocumentLookupQuery \<Rightarrow> [tier_h, tier_h, tier_l, 0, tier_l])"

definition recency_raw :: "int \<Rightarrow> real \<Rightarrow> hybrid_result list \<Rightarrow> real list" where
  "recency_raw now tau_days cands =
     (let tau = max tau_days (1 / 1000) * 86400
      in map (\<lambda>c. exp (- (of_int (max (now - hr_timestamp c) 0) / tau))) cands)"

text \<open>The ranks of a channel: the positive scores count up from one, ties go by id.\<close>

fun assign_ranks :: "real list \<Rightarrow> nat list \<Rightarrow> nat \<Rightarrow> nat option list \<Rightarrow> nat option list" where
  "assign_ranks raw [] next ranks = ranks"
| "assign_ranks raw (i # is) next ranks =
     (if 0 < raw ! i then assign_ranks raw is (next + 1) (ranks[i := Some next]) else assign_ranks raw is next ranks)"

definition ranks_from_raw :: "real list \<Rightarrow> string list \<Rightarrow> nat option list" where
  "ranks_from_raw raw ids =
     assign_ranks raw (sort_key (\<lambda>i. (- raw ! i, ids ! i)) [0..<length raw]) 1 (replicate (length raw) None)"

definition is_all_zero :: "real list \<Rightarrow> bool" where
  "is_all_zero raw \<longleftrightarrow> list_all (\<lambda>s. s \<le> 0) raw"

text \<open>The weights of the channels in the order dense, lexical, entity, recency.\<close>

definition renormalize :: "real list \<Rightarrow> bool list \<Rightarrow> real list" where
  "renormalize weights empties =
     (let active = sum_list (map fst (filter (\<lambda>(_, e). \<not> e) (zip weights empties)))
      in map (\<lambda>(w, e). if e \<or> active \<le> 0 then 0 else w / active) (zip weights empties))"

definition rrf_term :: "real \<Rightarrow> nat option \<Rightarrow> real \<Rightarrow> real" where
  "rrf_term weight rank k = (case rank of Some r \<Rightarrow> weight / (k + of_nat r) | None \<Rightarrow> 0)"

record fusion_result =
  fr_ranks :: "nat option list list"
  fr_raws :: "real list list"
  fr_order :: "nat list"
  fr_scores :: "real list"

definition channel_raws :: "int \<Rightarrow> real \<Rightarrow> hybrid_result list \<Rightarrow> real list list" where
  "channel_raws now tau cands =
     [map hr_vector cands, map hr_bm25 cands, replicate (length cands) 0, recency_raw now tau cands]"

definition fused_score :: "real list \<Rightarrow> nat option list list \<Rightarrow> real \<Rightarrow> nat \<Rightarrow> real" where
  "fused_score active ranks k i = sum_list (map (\<lambda>(w, rs). rrf_term w (rs ! i) k) (zip active ranks))"

definition fuse :: "hybrid_result list \<Rightarrow> weight_vector \<Rightarrow> int \<Rightarrow> real \<Rightarrow> real \<Rightarrow> fusion_result" where
  "fuse cands w now tau k =
     (if cands = [] then \<lparr>fr_ranks = [], fr_raws = [], fr_order = [], fr_scores = []\<rparr>
      else (let raws = channel_raws now tau cands;
                ids = map hr_id cands;
                ranks = map (\<lambda>raw. ranks_from_raw raw ids) raws;
                active = renormalize [wv_dense w, wv_lexical w, wv_entity w, wv_recency w] (map is_all_zero raws);
                scores = map (fused_score active ranks k) [0..<length cands]
            in \<lparr>fr_ranks = ranks, fr_raws = raws,
                fr_order = sort_key (\<lambda>i. (- scores ! i, ids ! i)) [0..<length cands], fr_scores = scores\<rparr>))"

end
