(* ===== verification/SearchPipeline.thy ===== *)
theory SearchPipeline
  imports HybridSearch GraphLabels "HOL-Library.AList"
begin

text \<open>
  The search request (\<^verbatim>\<open>loomem-server/src/handlers/search.rs\<close> with \<^verbatim>\<open>search/candidates.rs\<close>,
  \<^verbatim>\<open>event_date.rs\<close>, \<^verbatim>\<open>rejections.rs\<close>, \<^verbatim>\<open>prefix_dedup.rs\<close>, \<^verbatim>\<open>evidence.rs\<close>,
  \<^verbatim>\<open>cache_hit.rs\<close>, \<^verbatim>\<open>cache_policy.rs\<close>, and \<^verbatim>\<open>loomem-core/src/search/rare_term.rs\<close>, \<^verbatim>\<open>tier1.rs\<close>):
  lexical retrieval over the searched streams, the rare-term lane, vector retrieval, scoring, the
  filters, the cut, and what a cached answer may show. The index and its tokenizer, the embedder,
  lowercasing, the stemmer, the entity extractor and the iteration order of a hash map are arguments; the query has been classified and its dates resolved. The
  operation policies beyond the plain one are left out. A \<^verbatim>\<open>HashMap\<close> lists its values in the order of
  their first insertion here; the code leaves the order of equal scores open.
\<close>

section \<open>Requests\<close>

datatype complexity = SimpleQuery | MediumQuery | ComplexQuery | TimelineQuery | AggregationQuery | ProfileQuery

record search_request =
  sq_query :: string
  sq_entity :: "string option"
  sq_top_k :: "nat option"
  sq_valid_at :: "nat option"
  sq_include_superseded :: bool
  sq_fact_type :: "string option"
  sq_subject :: "string option"
  sq_min_confidence :: "rat option"
  sq_source_agent :: "string option"
  sq_exclude_agents :: "string list option"

record query_context =
  qx_query :: string
  qx_original :: string
  qx_expanded :: string
  qx_complexity :: complexity
  qx_dates :: "(int \<times> int) option"
  qx_streams :: "string list option"
  qx_limit :: nat

record search_settings = search_config +
  ss_max_request_top_k :: nat
  ss_multi_query :: bool
  ss_vector_multi_query :: bool
  ss_vector_enabled :: bool
  ss_counting_l0 :: bool
  ss_graph_enabled :: bool
  ss_max_hops :: nat
  ss_graph_boost :: real
  ss_max_graph_additions :: nat
  ss_importance_medium :: real
  ss_access_weight :: real
  ss_lane_enabled :: bool
  ss_lane_df_max :: nat
  ss_lane_df_ratio :: real
  ss_lane_cap :: nat
  ss_tier1_enabled :: bool
  ss_tier1_cap :: nat
  ss_rerank_candidates :: nat

record search_leaf =
  lf_query :: string
  lf_stream :: "string option"
  lf_entity :: "string option"
  lf_dates :: "(int \<times> int) option"
  lf_limit :: nat

text \<open>The index as the search sees it.\<close>

record search_index =
  si_leaf :: "search_request \<Rightarrow> search_leaf \<Rightarrow> search_result list res"
  si_tokens :: "string \<Rightarrow> string list res"
  si_count :: "string option \<Rightarrow> nat res"
  si_doc_freq :: "string \<Rightarrow> string option \<Rightarrow> nat res"
  si_candidates :: "string list \<Rightarrow> string option \<Rightarrow> nat \<Rightarrow> search_result list res"
  si_agent_ids :: "search_request \<Rightarrow> string set res"

record search_env =
  ev_settings :: search_settings
  ev_store :: store
  ev_index :: search_index
  ev_chrono :: chrono
  ev_graph :: graph_env
  ev_names :: "string \<Rightarrow> string list"
  ev_order :: "(string \<rightharpoonup> rat) \<Rightarrow> string list"
  ev_lower :: "string \<Rightarrow> string"
  ev_stem :: "string \<Rightarrow> string"
  ev_embed :: "string \<Rightarrow> real list res"
  ev_embeddings :: "embedding list res"
  ev_now :: int

abbreviation ev_config :: "search_env \<Rightarrow> search_config" where
  "ev_config ev \<equiv> search_config.truncate (ev_settings ev)"

definition request_limit :: "search_settings \<Rightarrow> search_request \<Rightarrow> nat res" where
  "request_limit ss rq =
     (if (case sq_top_k rq of None \<Rightarrow> False | Some k \<Rightarrow> k = 0 \<or> ss_max_request_top_k ss < k)
      then Inl (Err (''top_k must be between 1 and '' @ show_nat (ss_max_request_top_k ss)))
      else (let limit = (case sq_top_k rq of Some k \<Rightarrow> k | None \<Rightarrow> sg_top_k ss)
            in case new_budget (sg_top_k ss) limit of
                 Inl _ \<Rightarrow> Inl (Err ''top_k candidate budget overflow'')
               | Inr _ \<Rightarrow> Inr limit))"

definition has_agent_filter :: "search_request \<Rightarrow> bool" where
  "has_agent_filter rq \<longleftrightarrow> sq_source_agent rq \<noteq> None \<or> sq_exclude_agents rq \<noteq> None"

section \<open>Lexical retrieval\<close>

text \<open>A merge by id: the first hit is kept, its score raised to the best one.\<close>

definition merge_hit :: "search_result \<Rightarrow> (string \<times> search_result) list \<Rightarrow> (string \<times> search_result) list" where
  "merge_hit r m =
     (case map_of m (sh_id r) of
        None \<Rightarrow> m @ [(sh_id r, r)]
      | Some e \<Rightarrow> if sh_score e < sh_score r then AList.update (sh_id r) (e\<lparr>sh_score := sh_score r\<rparr>) m else m)"

definition insert_hit :: "search_result \<Rightarrow> (string \<times> search_result) list \<Rightarrow> (string \<times> search_result) list" where
  "insert_hit r m = AList.update (sh_id r) r m"

fun concat_res :: "('a \<Rightarrow> 'b list res) \<Rightarrow> 'a list \<Rightarrow> 'b list res" where
  "concat_res f [] = Inr []"
| "concat_res f (x # xs) = rbind (f x) (\<lambda>ys. rbind (concat_res f xs) (\<lambda>zs. Inr (ys @ zs)))"

definition merge_streams :: "(string option \<Rightarrow> search_result list res) \<Rightarrow> string list \<Rightarrow> search_result list res" where
  "merge_streams run streams =
     rbind (concat_res (\<lambda>s. run (Some s)) streams) (\<lambda>hits.
       Inr (sort_desc sh_score (map snd (fold merge_hit hits []))))"

definition bm25_over_streams ::
  "string list option \<Rightarrow> (string option \<Rightarrow> search_result list res) \<Rightarrow> search_result list res" where
  "bm25_over_streams streams run =
     (case streams of
        Some [s] \<Rightarrow> run (Some s)
      | Some ss \<Rightarrow> merge_streams run ss
      | None \<Rightarrow> run None)"

definition merge_weighted_results :: "search_result list \<Rightarrow> search_result list \<Rightarrow> search_result list" where
  "merge_weighted_results original expanded =
     sort_desc sh_score (map snd
       (fold (\<lambda>r. merge_hit (r\<lparr>sh_score := sh_score r * (1 / 2)\<rparr>)) expanded (fold insert_hit original [])))"

definition plain_leaf :: "string \<Rightarrow> nat \<Rightarrow> string option \<Rightarrow> search_leaf" where
  "plain_leaf q limit s = \<lparr>lf_query = q, lf_stream = s, lf_entity = None, lf_dates = None, lf_limit = limit\<rparr>"

definition primary_leaves :: "search_env \<Rightarrow> query_context \<Rightarrow> search_request \<Rightarrow> search_result list res" where
  "primary_leaves ev cx rq =
     (let run = si_leaf (ev_index ev) rq; lim = qx_limit cx * 2; streams = qx_streams cx
      in case qx_dates cx of
           Some d \<Rightarrow> bm25_over_streams streams (\<lambda>s. run ((plain_leaf (qx_original cx) lim s)\<lparr>lf_dates := Some d\<rparr>))
         | None \<Rightarrow>
             (case sq_entity rq of
                Some e \<Rightarrow> bm25_over_streams streams (\<lambda>s. run ((plain_leaf (qx_original cx) lim s)\<lparr>lf_entity := Some e\<rparr>))
              | None \<Rightarrow>
                  rbind (bm25_over_streams streams (\<lambda>s. run (plain_leaf (qx_original cx) lim s))) (\<lambda>original.
                    if qx_original cx = qx_expanded cx then Inr original
                    else rbind (bm25_over_streams streams (\<lambda>s. run (plain_leaf (qx_expanded cx) lim s))) (\<lambda>expanded.
                           Inr (merge_weighted_results original expanded)))))"

text \<open>The hits of one sub-query; a failing leaf adds nothing.\<close>

definition sub_hits :: "search_env \<Rightarrow> query_context \<Rightarrow> search_request \<Rightarrow> string \<Rightarrow> search_result list" where
  "sub_hits ev cx rq sub =
     (let run = (\<lambda>s. case si_leaf (ev_index ev) rq (plain_leaf (ev_stem ev sub) (qx_limit cx * 2) s) of
                       Inl _ \<Rightarrow> [] | Inr hits \<Rightarrow> hits)
      in case qx_streams cx of
           Some streams \<Rightarrow> map snd (fold merge_hit (concat (map (\<lambda>s. run (Some s)) streams)) [])
         | None \<Rightarrow> run None)"

definition bm25_retrieve :: "search_env \<Rightarrow> query_context \<Rightarrow> search_request \<Rightarrow> string list \<Rightarrow> search_result list res" where
  "bm25_retrieve ev cx rq subs =
     rbind (primary_leaves ev cx rq) (\<lambda>hits.
       if ss_multi_query (ev_settings ev) \<and> subs \<noteq> []
       then Inr (sort_desc sh_score (map snd
              (fold merge_hit (concat (map (sub_hits ev cx rq) (filter (\<lambda>q. q \<noteq> qx_query cx) subs)))
                 (fold insert_hit hits []))))
       else Inr hits)"

section \<open>Rare terms\<close>

definition rare_df_threshold :: "search_settings \<Rightarrow> nat \<Rightarrow> nat" where
  "rare_df_threshold ss n =
     (let cut = of_int \<lceil>ss_lane_df_ratio ss * of_nat (min n u32_max)\<rceil> :: real
      in max (ss_lane_df_max ss)
           (if cut \<le> 0 then 0 else if 9007199254740992 \<le> cut then u64_max else nat \<lfloor>cut\<rfloor>))"

fun select_rare_tokens :: "string list \<Rightarrow> nat \<Rightarrow> (string \<Rightarrow> nat res) \<Rightarrow> string set \<Rightarrow> string list res" where
  "select_rare_tokens [] threshold df seen = Inr []"
| "select_rare_tokens (t # ts) threshold df seen =
     (if t = [] \<or> t \<in> seen then select_rare_tokens ts threshold df seen
      else rbind (df t) (\<lambda>n. rbind (select_rare_tokens ts threshold df (insert t seen)) (\<lambda>rest.
             Inr (if 0 < n \<and> n \<le> threshold then t # rest else rest))))"

definition sum_over :: "string list option \<Rightarrow> (string option \<Rightarrow> nat res) \<Rightarrow> nat res" where
  "sum_over scope f =
     (case scope of
        None \<Rightarrow> f None
      | Some streams \<Rightarrow> rbind (concat_res (\<lambda>s. rbind (f (Some s)) (\<lambda>n. Inr [n])) streams) (\<lambda>ns. Inr (fold sat_add64 ns 0)))"

definition lane_candidates_for_streams ::
  "search_index \<Rightarrow> string list \<Rightarrow> string list option \<Rightarrow> nat \<Rightarrow> search_result list res" where
  "lane_candidates_for_streams ix tokens streams cap =
     (case streams of
        None \<Rightarrow> si_candidates ix tokens None cap
      | Some [s] \<Rightarrow> si_candidates ix tokens (Some s) cap
      | Some ss \<Rightarrow> rbind (merge_streams (\<lambda>s. si_candidates ix tokens s cap) ss) (\<lambda>hits. Inr (take cap hits)))"

definition rare_term_lane :: "search_env \<Rightarrow> query_context \<Rightarrow> search_result list option" where
  "rare_term_lane ev cx =
     (if \<not> ss_lane_enabled (ev_settings ev) then None
      else (case
        (let ix = ev_index ev; ss = ev_settings ev
         in rbind (sum_over (qx_streams cx) (si_count ix)) (\<lambda>n.
            rbind (si_tokens ix (qx_original cx)) (\<lambda>tokens.
            rbind (select_rare_tokens tokens (rare_df_threshold ss n) (\<lambda>t. sum_over (qx_streams cx) (si_doc_freq ix t)) {}) (\<lambda>rare.
              if rare = [] then Inr None
              else rbind (lane_candidates_for_streams ix rare (qx_streams cx) (ss_lane_cap ss)) (\<lambda>cands. Inr (Some cands))))))
        of Inl _ \<Rightarrow> None | Inr lane \<Rightarrow> lane))"

definition merge_lane_candidates :: "search_result list \<Rightarrow> search_result list option \<Rightarrow> search_result list" where
  "merge_lane_candidates hits lane =
     (case lane of
        None \<Rightarrow> hits
      | Some cands \<Rightarrow> hits @ filter (\<lambda>c. sh_id c \<notin> set (map sh_id hits)) cands)"

definition lane_ids :: "search_result list option \<Rightarrow> string set option" where
  "lane_ids lane = map_option (\<lambda>cands. set (map sh_id cands)) lane"

definition rerank_slice_with_lane ::
  "hybrid_result list \<Rightarrow> nat \<Rightarrow> search_result list option \<Rightarrow> nat \<Rightarrow> hybrid_result list" where
  "rerank_slice_with_lane ranked head lane cap =
     (case lane of
        None \<Rightarrow> take head ranked
      | Some cands \<Rightarrow> take head ranked @
          take cap (filter (\<lambda>r. hr_id r \<in> set (map sh_id cands)) (drop head ranked)))"

section \<open>Dates\<close>

definition date_allows :: "search_env \<Rightarrow> chunk \<Rightarrow> (int \<times> int) option \<Rightarrow> bool" where
  "date_allows ev c dates \<longleftrightarrow>
     (case dates of
        None \<Rightarrow> True
      | Some (lo, hi) \<Rightarrow>
          \<not> owned c \<or>
          (case event_timestamp_for_chunk (ev_chrono ev) c of None \<Rightarrow> False | Some e \<Rightarrow> lo \<le> e \<and> e \<le> hi))"

definition allows_id :: "search_env \<Rightarrow> query_context \<Rightarrow> string \<Rightarrow> bool" where
  "allows_id ev cx i \<longleftrightarrow>
     qx_dates cx = None \<or>
     (case fetch (ev_store ev) i of None \<Rightarrow> False | Some c \<Rightarrow> date_allows ev c (qx_dates cx))"

section \<open>Vector retrieval\<close>

definition agent_id_set :: "search_env \<Rightarrow> search_request \<Rightarrow> string set option" where
  "agent_id_set ev rq =
     (if \<not> has_agent_filter rq then None
      else case si_agent_ids (ev_index ev) rq of Inl _ \<Rightarrow> None | Inr ids \<Rightarrow> Some ids)"

definition retain_by_agent_set :: "string set option \<Rightarrow> embedding list \<Rightarrow> embedding list" where
  "retain_by_agent_set agents es = (case agents of None \<Rightarrow> es | Some ids \<Rightarrow> filter (\<lambda>(i, _). i \<in> ids) es)"

definition filter_stream_embeddings :: "store \<Rightarrow> string list option \<Rightarrow> embedding list \<Rightarrow> embedding list" where
  "filter_stream_embeddings st streams es =
     (case streams of None \<Rightarrow> es | Some ss \<Rightarrow> filter (\<lambda>(i, _). in_streams st ss i) es)"

definition eligible_embeddings ::
  "search_env \<Rightarrow> query_context \<Rightarrow> string set option \<Rightarrow> embedding list \<Rightarrow> embedding list" where
  "eligible_embeddings ev cx agents es =
     filter_stream_embeddings (ev_store ev) (qx_streams cx)
       (filter (\<lambda>(i, _). allows_id ev cx i) (retain_by_agent_set agents es))"

definition vector_inputs ::
  "search_env \<Rightarrow> query_context \<Rightarrow> search_request \<Rightarrow> string set option \<Rightarrow> (embedding list \<times> real list) option" where
  "vector_inputs ev cx rq agents =
     (case ev_embed ev (sq_query rq) of
        Inl _ \<Rightarrow> None
      | Inr q \<Rightarrow>
          (case ev_embeddings ev of
             Inl _ \<Rightarrow> None
           | Inr all \<Rightarrow>
               (let es = eligible_embeddings ev cx agents all in if es = [] then None else Some (es, q))))"

definition retrieve_primary ::
  "search_env \<Rightarrow> query_context \<Rightarrow> search_request \<Rightarrow> search_result list \<Rightarrow> string set option \<Rightarrow> string set option \<Rightarrow>
     hybrid_result list res" where
  "retrieve_primary ev cx rq bm25 agents guaranteed =
     rbind (new_budget (sg_top_k (ev_settings ev)) (qx_limit cx)) (\<lambda>budget.
       case (if ss_vector_enabled (ev_settings ev) \<and> qx_complexity cx \<noteq> SimpleQuery
             then vector_inputs ev cx rq agents else None) of
         None \<Rightarrow> Inr (bm25_only_with_budget (ev_config ev) (ev_now ev) bm25 guaranteed budget)
       | Some (es, q) \<Rightarrow>
           search_with_vector_budget (ev_config ev) (ev_now ev) bm25 es q
             \<lparr>vo_store = Some (ev_store ev), vo_streams = None, vo_guaranteed = guaranteed, vo_budget = budget\<rparr>)"

definition server_cosine :: "real list \<Rightarrow> real list \<Rightarrow> real" where
  "server_cosine xs ys =
     (if length xs \<noteq> length ys \<or> xs = [] then 0
      else (let d = sqrt (dot xs xs) * sqrt (dot ys ys) in if d = 0 then 0 else dot xs ys / d))"

definition sub_vector_hit :: "store \<Rightarrow> string \<times> real \<Rightarrow> (string \<times> hybrid_result) list \<Rightarrow> (string \<times> hybrid_result) list" where
  "sub_vector_hit st = (\<lambda>(i, sim) m.
     case map_of m i of
       Some e \<Rightarrow> AList.update i (e\<lparr>hr_vector := max (hr_vector e) sim, hr_score := hr_score e + sim * (1 / 2)\<rparr>) m
     | None \<Rightarrow>
         (let co = fetch st i
          in m @ [(i, \<lparr>hr_id = i, hr_content = (case co of Some c \<Rightarrow> ch_content c | None \<Rightarrow> []), hr_user_id = [],
               hr_app_id = [], hr_level = (case co of Some c \<Rightarrow> ch_level c | None \<Rightarrow> 0),
               hr_timestamp = (case co of Some c \<Rightarrow> as_i64 (ch_timestamp c) | None \<Rightarrow> 0), hr_score = sim * (1 / 2),
               hr_bm25 = 0, hr_vector = sim, hr_decay = 1\<rparr>)]))"

definition merge_sub_hits :: "store \<Rightarrow> (string \<times> real) list \<Rightarrow> hybrid_result list \<Rightarrow> hybrid_result list" where
  "merge_sub_hits st hits primary =
     sort_desc hr_score (map snd (fold (sub_vector_hit st) hits (fold (\<lambda>r. AList.update (hr_id r) r) primary [])))"

definition sub_vector_hits :: "search_env \<Rightarrow> query_context \<Rightarrow> embedding list \<Rightarrow> string \<Rightarrow> (string \<times> real) list" where
  "sub_vector_hits ev cx es sub =
     (case ev_embed ev sub of
        Inl _ \<Rightarrow> []
      | Inr q \<Rightarrow> takeWhile (\<lambda>(_, sim). 3 / 10 \<le> sim)
          (take (qx_limit cx) (sort_desc snd (map (\<lambda>(i, e). (i, server_cosine q e)) es))))"

definition vector_retrieve ::
  "search_env \<Rightarrow> query_context \<Rightarrow> search_request \<Rightarrow> string list \<Rightarrow> search_result list \<Rightarrow> string set option \<Rightarrow>
     hybrid_result list res" where
  "vector_retrieve ev cx rq subs bm25 guaranteed =
     (let agents = agent_id_set ev rq; ss = ev_settings ev
      in rbind (retrieve_primary ev cx rq (filter (\<lambda>h. allows_id ev cx (sh_id h)) bm25) agents guaranteed) (\<lambda>primary.
           if ss_vector_multi_query ss \<and> ss_multi_query ss \<and> subs \<noteq> [] \<and> ss_vector_enabled ss \<and>
              qx_complexity cx \<noteq> SimpleQuery
           then (let es = eligible_embeddings ev cx agents (case ev_embeddings ev of Inl _ \<Rightarrow> [] | Inr all \<Rightarrow> all);
                     hits = (if es = [] then []
                             else concat (map (sub_vector_hits ev cx es) (filter (\<lambda>q. q \<noteq> qx_query cx) subs)))
                 in Inr (merge_sub_hits (ev_store ev) hits primary))
           else Inr primary))"

end
