(* ===== verification/SearchAnswer.thy ===== *)
theory SearchAnswer
  imports SearchPipeline QueryCache
begin

text \<open>
  From ranked candidates to the answer (\<^verbatim>\<open>loomem-server/src/handlers/search.rs\<close> with
  \<^verbatim>\<open>search/event_date.rs\<close>, \<^verbatim>\<open>rejections.rs\<close>, \<^verbatim>\<open>prefix_dedup.rs\<close>, \<^verbatim>\<open>evidence.rs\<close>,
  \<^verbatim>\<open>cache_hit.rs\<close>, \<^verbatim>\<open>cache_policy.rs\<close>): the graph boost and the score adjustments, the filters, the
  cut, the direct entity lookup, the order a reranker proposes, and the handler with its cache. The
  operation policy is the plain one, for which its reordering and its supplemental lane do nothing.
  A request takes the store at one instant.
\<close>

section \<open>Scores\<close>

definition contains_any :: "string list \<Rightarrow> string \<Rightarrow> bool" where
  "contains_any pats q \<longleftrightarrow> list_ex (\<lambda>p. sublist p q) pats"

definition is_counting_query :: "(string \<Rightarrow> string) \<Rightarrow> string \<Rightarrow> bool" where
  "is_counting_query lower query =
     (let q = lower query
      in \<not> contains_any [''prefer'', ''favorite'', ''favourite'', ''like more'', ''like best'', ''rather'',
             ''which do i like'', ''what do i enjoy'', ''what do i like'', ''do i enjoy'', ''do i prefer''] q \<and>
         contains_any [''how many'', ''how much'', ''how often'', ''total'', ''count'', ''all the'', ''every'', ''each'',
             ''list all'', ''in total'', ''combined'', ''sum'', ''altogether''] q)"

definition graph_boost :: "real \<Rightarrow> (string \<rightharpoonup> rat) \<Rightarrow> hybrid_result \<Rightarrow> hybrid_result" where
  "graph_boost factor m r =
     (case m (hr_id r) of None \<Rightarrow> r | Some s \<Rightarrow> r\<lparr>hr_score := hr_score r * (1 + of_rat s * factor)\<rparr>)"

definition in_scope :: "string list option \<Rightarrow> chunk \<Rightarrow> bool" where
  "in_scope streams c \<longleftrightarrow> (case streams of None \<Rightarrow> True | Some ss \<Rightarrow> ch_stream c \<in> set ss)"

definition graph_result :: "real \<Rightarrow> rat \<Rightarrow> chunk \<Rightarrow> hybrid_result" where
  "graph_result factor s c = \<lparr>hr_id = ch_id c, hr_content = ch_content c, hr_user_id = [], hr_app_id = [],
     hr_level = ch_level c, hr_timestamp = as_i64 (ch_timestamp c), hr_score = of_rat s * factor, hr_bm25 = 0,
     hr_vector = 0, hr_decay = 1\<rparr>"

fun graph_additions ::
  "store \<Rightarrow> string list option \<Rightarrow> real \<Rightarrow> string set \<Rightarrow> nat \<Rightarrow> (string \<rightharpoonup> rat) \<Rightarrow> string list \<Rightarrow> hybrid_result list" where
  "graph_additions st streams factor existing cap m [] = []"
| "graph_additions st streams factor existing cap m (i # is) =
     (if cap = 0 then []
      else if i \<in> existing then graph_additions st streams factor existing cap m is
      else case (m i, fetch st i) of
             (Some s, Some c) \<Rightarrow>
               if ch_dormant c \<or> \<not> in_scope streams c then graph_additions st streams factor existing cap m is
               else graph_result factor s c # graph_additions st streams factor existing (cap - 1) m is
           | _ \<Rightarrow> graph_additions st streams factor existing cap m is)"

definition with_graph :: "search_env \<Rightarrow> query_context \<Rightarrow> search_request \<Rightarrow> string \<Rightarrow> hybrid_result list \<Rightarrow> hybrid_result list" where
  "with_graph ev cx rq auth_stream rs =
     (let ss = ev_settings ev; names = ev_names ev (sq_query rq)
      in if \<not> ss_graph_enabled ss \<or> names = [] then rs
         else case find_live_related_chunks (ev_graph ev) (ev_store ev) names (ss_max_hops ss) auth_stream of
                Inl _ \<Rightarrow> rs
              | Inr m \<Rightarrow> map (graph_boost (ss_graph_boost ss) m) rs @
                  graph_additions (ev_store ev) (qx_streams cx) (ss_graph_boost ss) (set (map hr_id rs))
                    (ss_max_graph_additions ss) m (ev_order ev m))"

definition level_boost :: "bool \<Rightarrow> int \<Rightarrow> real" where
  "level_boost counting level =
     (if counting then (if level = 0 then 3 / 2 else if level = 1 then 7 / 10 else 8 / 10)
      else (if level = 1 then 3 / 2 else if level = 0 then 1 else 8 / 10))"

definition compute_access_boost_multiplier :: "nat \<Rightarrow> real \<Rightarrow> real" where
  "compute_access_boost_multiplier count weight =
     (let w = max weight 0 in if w = 0 \<or> count = 0 then 1 else 1 + ln (1 + of_nat count) * w)"

definition tier_of :: "chunk \<Rightarrow> string" where
  "tier_of c =
     (case Option.bind (Option.bind (ch_metadata c) (\<lambda>m. json_get m ''tier'')) json_as_str of
        Some t \<Rightarrow> t | None \<Rightarrow> ''default'')"

definition tier_factor :: "string \<Rightarrow> real \<Rightarrow> real" where
  "tier_factor tier decay =
     (if tier = ''core'' then (if 0 < decay then 1 / decay else 1) * 2
      else if tier = ''pinned'' then (if decay < 8 / 10 \<and> 0 < decay then 8 / 10 / decay else 1) * (3 / 2)
      else if tier = ''ephemeral'' then decay * (1 / 2)
      else 1)"

definition apply_chunk_score_adjustments :: "search_settings \<Rightarrow> chunk \<Rightarrow> hybrid_result \<Rightarrow> hybrid_result" where
  "apply_chunk_score_adjustments ss c r = r\<lparr>hr_score :=
     hr_score r * tier_factor (tier_of c) (hr_decay r) *
     (case ch_importance c of Some i \<Rightarrow> of_rat i | None \<Rightarrow> ss_importance_medium ss) *
     compute_access_boost_multiplier (ch_access_count c) (ss_access_weight ss) *
     (case ch_extraction_meta c of
        Some m \<Rightarrow> if em_fact_type m = PreferenceOrDecision then 3 / 2 else 1
      | None \<Rightarrow> 1)\<rparr>"

definition adjust_score :: "search_env \<Rightarrow> hybrid_result \<Rightarrow> hybrid_result" where
  "adjust_score ev r =
     (case fetch (ev_store ev) (hr_id r) of
        None \<Rightarrow> r
      | Some c \<Rightarrow> apply_chunk_score_adjustments (ev_settings ev) c r)"

definition score_and_rank :: "search_env \<Rightarrow> query_context \<Rightarrow> search_request \<Rightarrow> string \<Rightarrow> hybrid_result list \<Rightarrow> hybrid_result list" where
  "score_and_rank ev cx rq auth_stream rs =
     (let counting = ss_counting_l0 (ev_settings ev) \<and> is_counting_query (ev_lower ev) (sq_query rq);
          boosted = map (\<lambda>r. r\<lparr>hr_score := hr_score r * level_boost counting (hr_level r)\<rparr>)
                      (with_graph ev cx rq auth_stream rs);
          adjusted = map (adjust_score ev) (sort_desc hr_score boosted)
      in if qx_complexity cx = TimelineQuery then sort_key hr_timestamp adjusted else sort_desc hr_score adjusted)"

section \<open>Filters\<close>

definition is_deleted_in_store :: "store \<Rightarrow> string \<Rightarrow> bool" where
  "is_deleted_in_store st i = (case fetch st i of Some c \<Rightarrow> ch_deleted_at c \<noteq> None | None \<Rightarrow> True)"

definition filter_bitemporal :: "store \<Rightarrow> nat \<Rightarrow> hybrid_result list \<Rightarrow> hybrid_result list" where
  "filter_bitemporal st valid_at = filter (\<lambda>r. case fetch st (hr_id r) of
       None \<Rightarrow> True
     | Some c \<Rightarrow> (case ch_valid_from c of None \<Rightarrow> True | Some f \<Rightarrow> f \<le> valid_at) \<and>
                 (case ch_valid_until c of None \<Rightarrow> True | Some u \<Rightarrow> valid_at \<le> u))"

definition filter_superseded :: "store \<Rightarrow> hybrid_result list \<Rightarrow> hybrid_result list" where
  "filter_superseded st = filter (\<lambda>r. case fetch st (hr_id r) of None \<Rightarrow> False | Some c \<Rightarrow> ch_is_latest c)"

definition apply_dates :: "search_env \<Rightarrow> query_context \<Rightarrow> search_request \<Rightarrow> hybrid_result list \<Rightarrow> hybrid_result list" where
  "apply_dates ev cx rq rs =
     (let dated = filter (\<lambda>r. allows_id ev cx (hr_id r)) rs;
          valid = (case sq_valid_at rq of None \<Rightarrow> dated | Some t \<Rightarrow> filter_bitemporal (ev_store ev) t dated)
      in if sq_include_superseded rq then valid else filter_superseded (ev_store ev) valid)"

datatype rejection = ExtractionMetaMissing | FactTypeFilter | SubjectFilter | MinConfidence

definition fact_type_str :: "fact_type \<Rightarrow> string" where
  "fact_type_str t = (case t of PreferenceOrDecision \<Rightarrow> ''preference_or_decision'' | ProjectState \<Rightarrow> ''project_state''
     | Fact \<Rightarrow> ''fact'' | Event \<Rightarrow> ''event'' | Experience \<Rightarrow> ''experience'')"

definition extraction_filter_rejection ::
  "(string \<Rightarrow> string) \<Rightarrow> extraction_meta option \<Rightarrow> search_request \<Rightarrow> rejection option" where
  "extraction_filter_rejection lower meta rq =
     (case meta of
        None \<Rightarrow> Some ExtractionMetaMissing
      | Some m \<Rightarrow>
          if \<not> (case sq_fact_type rq of None \<Rightarrow> True
                 | Some ft \<Rightarrow> fact_type_str (em_fact_type m) = ft \<or> em_topic m = Some ft) then Some FactTypeFilter
          else if \<not> (case sq_subject rq of None \<Rightarrow> True
                 | Some s \<Rightarrow> (case em_subject m of None \<Rightarrow> False | Some t \<Rightarrow> sublist (lower s) (lower t))) then Some SubjectFilter
          else if \<not> (case sq_min_confidence rq of None \<Rightarrow> True | Some mc \<Rightarrow> mc \<le> em_confidence m) then Some MinConfidence
          else None)"

definition filter_extraction :: "search_env \<Rightarrow> search_request \<Rightarrow> hybrid_result list \<Rightarrow> hybrid_result list" where
  "filter_extraction ev rq rs =
     (if sq_fact_type rq = None \<and> sq_subject rq = None \<and> sq_min_confidence rq = None then rs
      else filter (\<lambda>r. case fetch (ev_store ev) (hr_id r) of
             None \<Rightarrow> True
           | Some c \<Rightarrow> extraction_filter_rejection (ev_lower ev) (ch_extraction_meta c) rq = None) rs)"

record fingerprint =
  fp_id :: string
  fp_prefix :: string
  fp_source :: "string option"

definition char_list :: "string \<Rightarrow> string list" where
  "char_list s = (case chars_of s of Some cs \<Rightarrow> cs | None \<Rightarrow> map (\<lambda>c. [c]) s)"

definition fragment_source :: "store \<Rightarrow> string \<Rightarrow> string option" where
  "fragment_source st i = Option.bind (fetch st i) (\<lambda>c. map_option fm_source_id (ch_fragment c))"

definition new_fingerprint :: "(string \<Rightarrow> string) \<Rightarrow> string \<Rightarrow> string \<Rightarrow> string option \<Rightarrow> fingerprint" where
  "new_fingerprint lower i content source =
     \<lparr>fp_id = i, fp_prefix = lower (concat (take 150 (char_list content))), fp_source = source\<rparr>"

definition is_source_of :: "fingerprint \<Rightarrow> fingerprint \<Rightarrow> bool" where
  "is_source_of a b \<longleftrightarrow> fp_source b = Some (fp_id a)"

definition common_chars :: "string \<Rightarrow> string \<Rightarrow> nat" where
  "common_chars s t = length (takeWhile (\<lambda>(a, b). a = b) (zip (char_list s) (char_list t)))"

definition dominated_by :: "fingerprint \<Rightarrow> fingerprint \<Rightarrow> bool" where
  "dominated_by a b \<longleftrightarrow>
     \<not> is_source_of a b \<and> \<not> is_source_of b a \<and>
     \<not> (fp_source a \<noteq> None \<and> fp_source b \<noteq> None \<and> fp_source a \<noteq> fp_source b) \<and>
     (let n = min (length (fp_prefix a)) (length (fp_prefix b))
      in 30 \<le> n \<and> n * 4 < common_chars (fp_prefix a) (fp_prefix b) * 5)"

definition result_fingerprint :: "search_env \<Rightarrow> hybrid_result \<Rightarrow> fingerprint" where
  "result_fingerprint ev r =
     new_fingerprint (ev_lower ev) (hr_id r) (hr_content r) (fragment_source (ev_store ev) (hr_id r))"

fun prefix_dedup :: "('a \<Rightarrow> fingerprint) \<Rightarrow> fingerprint list \<Rightarrow> 'a list \<Rightarrow> 'a list" where
  "prefix_dedup fp seen [] = []"
| "prefix_dedup fp seen (r # rs) =
     (if list_ex (\<lambda>e. dominated_by (fp r) e) seen then prefix_dedup fp seen rs
      else r # prefix_dedup fp (seen @ [fp r]) rs)"

definition subject_key :: "search_env \<Rightarrow> hybrid_result \<Rightarrow> string option" where
  "subject_key ev r =
     map_option (ev_lower ev) (Option.bind (Option.bind (fetch (ev_store ev) (hr_id r)) ch_extraction_meta) em_subject)"

fun subject_dedup :: "('a \<Rightarrow> string option) \<Rightarrow> string set \<Rightarrow> 'a list \<Rightarrow> 'a list" where
  "subject_dedup key seen [] = []"
| "subject_dedup key seen (r # rs) =
     (case key r of
        None \<Rightarrow> r # subject_dedup key seen rs
      | Some k \<Rightarrow> if k \<in> seen then subject_dedup key seen rs else r # subject_dedup key (insert k seen) rs)"

definition filter_agents :: "store \<Rightarrow> search_request \<Rightarrow> hybrid_result list \<Rightarrow> hybrid_result list" where
  "filter_agents st rq rs =
     (let kept = (case sq_source_agent rq of
                    None \<Rightarrow> rs
                  | Some a \<Rightarrow> filter (\<lambda>r. case fetch st (hr_id r) of
                        None \<Rightarrow> True
                      | Some c \<Rightarrow> (case ch_source c of None \<Rightarrow> False | Some t \<Rightarrow> tag_agent t = a)) rs)
      in case sq_exclude_agents rq of
           None \<Rightarrow> kept
         | Some ex \<Rightarrow> filter (\<lambda>r. case fetch st (hr_id r) of
               None \<Rightarrow> True
             | Some c \<Rightarrow> (case ch_source c of None \<Rightarrow> True | Some t \<Rightarrow> tag_agent t \<notin> set ex)) kept)"

definition guard_streams :: "store \<Rightarrow> string list option \<Rightarrow> hybrid_result list \<Rightarrow> hybrid_result list" where
  "guard_streams st streams rs =
     (case streams of None \<Rightarrow> rs | Some ss \<Rightarrow> filter (\<lambda>r. in_streams st ss (hr_id r)) rs)"

definition filter_candidates :: "search_env \<Rightarrow> query_context \<Rightarrow> search_request \<Rightarrow> hybrid_result list \<Rightarrow> hybrid_result list" where
  "filter_candidates ev cx rq rs =
     (let distinct_rs = prefix_dedup (result_fingerprint ev) [] (filter_extraction ev rq (apply_dates ev cx rq rs));
          subjects = (if qx_complexity cx = AggregationQuery then subject_dedup (subject_key ev) {} distinct_rs else distinct_rs)
      in guard_streams (ev_store ev) (qx_streams cx) (filter_agents (ev_store ev) rq subjects))"

definition final_top_k :: "search_settings \<Rightarrow> query_context \<Rightarrow> search_request \<Rightarrow> nat" where
  "final_top_k ss cx rq =
     (case sq_top_k rq of Some k \<Rightarrow> k | None \<Rightarrow> if qx_complexity cx = AggregationQuery then 30 else sg_top_k ss)"

section \<open>The full search\<close>

definition eligible_results :: "search_env \<Rightarrow> query_context \<Rightarrow> search_request \<Rightarrow> hybrid_result list \<Rightarrow> hybrid_result list" where
  "eligible_results ev cx rq rs =
     filter_candidates ev cx rq (filter (\<lambda>r. \<not> is_deleted_in_store (ev_store ev) (hr_id r)) rs)"

definition finish_results :: "search_env \<Rightarrow> query_context \<Rightarrow> search_request \<Rightarrow> hybrid_result list \<Rightarrow> hybrid_result list" where
  "finish_results ev cx rq rs =
     filter (\<lambda>r. allows_id ev cx (hr_id r)) (take (final_top_k (ev_settings ev) cx rq) rs)"

definition retrieve :: "search_env \<Rightarrow> query_context \<Rightarrow> search_request \<Rightarrow> string list \<Rightarrow> hybrid_result list res" where
  "retrieve ev cx rq subs =
     rbind (bm25_retrieve ev cx rq subs) (\<lambda>hits.
       (let lane = rare_term_lane ev cx
        in vector_retrieve ev cx rq subs (merge_lane_candidates hits lane) (lane_ids lane)))"

definition full_search :: "search_env \<Rightarrow> query_context \<Rightarrow> search_request \<Rightarrow> string \<Rightarrow> string list \<Rightarrow> hybrid_result list res" where
  "full_search ev cx rq auth_stream subs =
     rbind (retrieve ev cx rq subs) (\<lambda>rs.
       Inr (finish_results ev cx rq (eligible_results ev cx rq (score_and_rank ev cx rq auth_stream rs))))"

section \<open>The direct entity lookup\<close>

definition content_matches :: "(string \<Rightarrow> string) \<Rightarrow> string \<Rightarrow> string list \<Rightarrow> bool" where
  "content_matches lower content terms = list_ex (\<lambda>t. sublist t (lower content)) terms"

text \<open>The chunk ids of the named entities, up to the cap; \<open>None\<close> when a graph read fails.\<close>

fun take_new :: "nat \<Rightarrow> string list \<Rightarrow> string list \<Rightarrow> string list \<times> bool" where
  "take_new cap ids [] = (ids, False)"
| "take_new cap ids (i # is) =
     (if cap \<le> length ids then (ids, True) else take_new cap (if i \<in> set ids then ids else ids @ [i]) is)"

fun collect_candidates ::
  "graph_env \<Rightarrow> store \<Rightarrow> nat \<Rightarrow> (string \<times> string) list \<Rightarrow> string list \<Rightarrow> string list option" where
  "collect_candidates ge st cap [] ids = Some ids"
| "collect_candidates ge st cap ((stream, name) # rest) ids =
     (case get_live_entity_by_name ge st name stream of
        Inl _ \<Rightarrow> None
      | Inr None \<Rightarrow> collect_candidates ge st cap rest ids
      | Inr (Some e) \<Rightarrow>
          (case take_new cap ids (nd_chunks e) of
             (ids', full) \<Rightarrow> if full then Some ids' else collect_candidates ge st cap rest ids'))"

definition tier1_result :: "search_env \<Rightarrow> string list \<Rightarrow> string list \<Rightarrow> string \<Rightarrow> hybrid_result option" where
  "tier1_result ev streams terms i =
     (case fetch (ev_store ev) i of
        None \<Rightarrow> None
      | Some c \<Rightarrow>
          if ch_dormant c \<or> ch_stream c \<notin> set streams \<or> is_deleted_in_store (ev_store ev) i \<or>
             \<not> content_matches (ev_lower ev) (ch_content c) terms
          then None
          else Some \<lparr>hr_id = ch_id c, hr_content = ch_content c, hr_user_id = [], hr_app_id = [],
                 hr_level = ch_level c, hr_timestamp = min (int (ch_timestamp c)) 9223372036854775807,
                 hr_score = 0, hr_bm25 = 0, hr_vector = 0, hr_decay = 1\<rparr>)"

definition rank_markers :: "hybrid_result list \<Rightarrow> hybrid_result list" where
  "rank_markers rs = map (\<lambda>(n, r). r\<lparr>hr_score := 1 - of_nat n / 1000\<rparr>) (enumerate 0 rs)"

text \<open>What the classifier and the request flags allow is a precondition of the call, \<open>applies\<close>.\<close>

definition tier1_lookup ::
  "search_env \<Rightarrow> query_context \<Rightarrow> search_request \<Rightarrow> string \<Rightarrow> bool \<Rightarrow> string list \<Rightarrow> string list \<Rightarrow> hybrid_result list option" where
  "tier1_lookup ev cx rq auth_stream applies entities terms =
     (let streams = (case qx_streams cx of Some ss \<Rightarrow> ss | None \<Rightarrow> [auth_stream]); ss = ev_settings ev
      in if \<not> ss_tier1_enabled ss \<or> \<not> applies \<or> qx_dates cx \<noteq> None \<or> sq_entity rq \<noteq> None \<or> entities = [] \<or> terms = []
         then None
         else (case collect_candidates (ev_graph ev) (ev_store ev) (ss_tier1_cap ss)
                      (concat (map (\<lambda>s. map (Pair s) entities) streams)) [] of
                 None \<Rightarrow> None
               | Some ids \<Rightarrow>
                   (let matched = List.map_filter (tier1_result ev streams terms) ids;
                        ranked = rank_markers (sort_key (\<lambda>r. - hr_timestamp r) matched);
                        answer = take (final_top_k ss cx rq) (filter_candidates ev cx rq ranked)
                    in if answer = [] then None else Some answer)))"

section \<open>Reranking\<close>

text \<open>The first occurrence of every id.\<close>

fun first_by_id :: "string set \<Rightarrow> hybrid_result list \<Rightarrow> hybrid_result list" where
  "first_by_id seen [] = []"
| "first_by_id seen (r # rs) =
     (if hr_id r \<in> seen then first_by_id seen rs else r # first_by_id (insert (hr_id r) seen) rs)"

definition reranked_results ::
  "nat list \<Rightarrow> hybrid_result list \<Rightarrow> hybrid_result list \<Rightarrow> nat \<Rightarrow> hybrid_result list" where
  "reranked_results indices candidates whole top_k =
     take top_k (first_by_id {} (map (nth candidates) (filter (\<lambda>i. i < length candidates) indices) @ whole))"

definition publish_reranked ::
  "nat \<Rightarrow> 64 word \<times> 64 word \<Rightarrow> nat list \<Rightarrow> hybrid_result list \<Rightarrow> hybrid_result list \<Rightarrow> nat \<Rightarrow>
     hybrid_result list query_cache \<Rightarrow> hybrid_result list query_cache" where
  "publish_reranked now identity indices candidates whole top_k cache =
     (let rs = reranked_results indices candidates whole top_k
      in if rs = [] then cache
         else snd (insert_reranked_if_current now (fst identity) (snd identity) rs cache))"

section \<open>Cached answers\<close>

definition visible :: "search_env \<Rightarrow> query_context \<Rightarrow> search_request \<Rightarrow> chunk \<Rightarrow> bool" where
  "visible ev cx rq c \<longleftrightarrow>
     date_allows ev c (qx_dates cx) \<and> ch_deleted_at c = None \<and> \<not> ch_dormant c \<and> \<not> ch_in_progress c \<and>
     in_scope (qx_streams cx) c \<and> (sq_include_superseded rq \<or> ch_is_latest c \<and> ch_superseded_by c = None)"

definition cached_results :: "search_env \<Rightarrow> query_context \<Rightarrow> search_request \<Rightarrow> hybrid_result list \<Rightarrow> hybrid_result list" where
  "cached_results ev cx rq cached =
     filter (\<lambda>r. case fetch (ev_store ev) (hr_id r) of None \<Rightarrow> False | Some c \<Rightarrow> visible ev cx rq c) cached"

section \<open>The handler\<close>

datatype answered_by = FromCache bool | DirectLookup | FullPipeline

text \<open>
  One request: the cached answer, the direct lookup, or the full pipeline, whose answer is then
  stored. \<open>other\<close> is what other requests do to the cache while this one retrieves.
\<close>

definition search_handler ::
  "search_env \<Rightarrow> query_context \<Rightarrow> search_request \<Rightarrow> string \<Rightarrow> bool \<Rightarrow> string list \<Rightarrow> string list \<Rightarrow> string list \<Rightarrow>
     64 word option \<Rightarrow> nat \<Rightarrow> (hybrid_result list query_cache \<Rightarrow> hybrid_result list query_cache) \<Rightarrow>
     hybrid_result list query_cache \<Rightarrow> (answered_by \<times> hybrid_result list) res \<times> hybrid_result list query_cache" where
  "search_handler ev cx rq auth_stream applies entities terms subs key now other cache =
     (let generation = qc_generation cache;
          (hit, cache1) = (case key of None \<Rightarrow> (None, cache) | Some k \<Rightarrow> get_best now k cache)
      in case hit of
           Some (reranked, cached) \<Rightarrow> (Inr (FromCache reranked, cached_results ev cx rq cached), cache1)
         | None \<Rightarrow>
             (case tier1_lookup ev cx rq auth_stream applies entities terms of
                Some rs \<Rightarrow> (Inr (DirectLookup, rs), cache1)
              | None \<Rightarrow>
                  (case full_search ev cx rq auth_stream subs of
                     Inl e \<Rightarrow> (Inl e, cache1)
                   | Inr rs \<Rightarrow>
                       (Inr (FullPipeline, rs),
                        case key of None \<Rightarrow> other cache1
                        | Some k \<Rightarrow> snd (insert_if_current now k generation rs (other cache1))))))"

end
