(* ===== verification/SearchProps.thy ===== *)
theory SearchProps
  imports SearchAnswer StoreProps "HOL-Library.Multiset"
begin

text \<open>
  Properties of the search: what an answer may hold, that the answer is ranked and cut, the rare-term
  guarantee, reciprocal ranks against their definition, the order a reranker may give, the duplicate
  filter, and the answer of a repeated request.
\<close>

section \<open>Stages that only drop results\<close>

lemma subseq_filterI: "subseq xs ys \<Longrightarrow> subseq (filter P xs) ys"
  by (rule subseq_order.trans [OF subseq_filter_left])

lemma subseq_in: "subseq xs ys \<Longrightarrow> x \<in> set xs \<Longrightarrow> x \<in> set ys"
  by (erule (1) list_emb_set [of "(=)"]) simp

lemma subseq_sorted_wrt: "subseq xs ys \<Longrightarrow> sorted_wrt R ys \<Longrightarrow> sorted_wrt R xs"
proof (induction rule: list_emb.induct)
  case (list_emb_Cons2 x y xs ys)
  then show ?case using subseq_in [of xs ys] by auto
qed auto

locale narrowing =
  fixes stage :: "'a list \<Rightarrow> 'a list"
  assumes narrow: "subseq (stage xs) xs"
begin

lemma members: "x \<in> set (stage xs) \<Longrightarrow> x \<in> set xs"
  by (rule subseq_in [OF narrow])

lemma shorter: "length (stage xs) \<le> length xs"
  using narrow by (rule list_emb_length)

lemma keeps_distinct: "distinct (map f xs) \<Longrightarrow> distinct (map f (stage xs))"
  using subseq_map [OF narrow, of f xs] by (auto simp: subseq_conv_nths distinct_nthsI)

lemma keeps_order: "sorted_wrt R xs \<Longrightarrow> sorted_wrt R (stage xs)"
  by (rule subseq_sorted_wrt [OF narrow])

end

lemma prefix_dedup_subseq: "subseq (prefix_dedup fp seen rs) rs"
  by (induction fp seen rs rule: prefix_dedup.induct) auto

lemma subject_dedup_subseq: "subseq (subject_dedup key seen rs) rs"
  by (induction key seen rs rule: subject_dedup.induct) (auto split: option.splits)

lemma apply_dates_subseq: "subseq (apply_dates ev cx rq rs) rs"
  by (cases "sq_valid_at rq")
    (simp_all add: apply_dates_def Let_def filter_superseded_def filter_bitemporal_def subseq_filterI
      del: filter_filter)

lemma filter_extraction_subseq: "subseq (filter_extraction ev rq rs) rs"
  by (simp add: filter_extraction_def)

lemma filter_agents_subseq: "subseq (filter_agents st rq rs) rs"
  by (cases "sq_source_agent rq"; cases "sq_exclude_agents rq")
    (simp_all add: filter_agents_def Let_def subseq_filterI del: filter_filter)

lemma guard_streams_subseq: "subseq (guard_streams st streams rs) rs"
  by (simp add: guard_streams_def split: option.split)

interpretation dates: narrowing "apply_dates ev cx rq" for ev cx rq
  by unfold_locales (rule apply_dates_subseq)

interpretation agents: narrowing "filter_agents st rq" for st rq
  by unfold_locales (rule filter_agents_subseq)

interpretation dedup: narrowing "prefix_dedup fp seen" for fp seen
  by unfold_locales (rule prefix_dedup_subseq)

lemma filter_candidates_subseq: "subseq (filter_candidates ev cx rq rs) rs"
proof -
  let ?d = "prefix_dedup (result_fingerprint ev) [] (filter_extraction ev rq (apply_dates ev cx rq rs))"
  let ?s = "if qx_complexity cx = AggregationQuery then subject_dedup (subject_key ev) {} ?d else ?d"
  have "subseq ?d rs"
    by (rule subseq_order.trans [OF prefix_dedup_subseq])
      (rule subseq_order.trans [OF filter_extraction_subseq apply_dates_subseq])
  moreover have "subseq ?s ?d" by (simp add: subject_dedup_subseq)
  moreover have "subseq (guard_streams (ev_store ev) (qx_streams cx) (filter_agents (ev_store ev) rq ?s)) ?s"
    by (rule subseq_order.trans [OF guard_streams_subseq filter_agents_subseq])
  ultimately show ?thesis unfolding filter_candidates_def Let_def by (meson subseq_order.trans)
qed

interpretation cands: narrowing "filter_candidates ev cx rq" for ev cx rq
  by unfold_locales (rule filter_candidates_subseq)

lemma answer_subseq: "subseq (finish_results ev cx rq (eligible_results ev cx rq rs)) rs"
proof -
  have "subseq (finish_results ev cx rq xs) xs" for xs
    unfolding finish_results_def by (meson subseq_order.trans subseq_filter_left take_is_prefix prefix_imp_subseq)
  moreover have "subseq (eligible_results ev cx rq rs) rs"
    unfolding eligible_results_def by (meson subseq_order.trans subseq_filter_left filter_candidates_subseq)
  ultimately show ?thesis by (meson subseq_order.trans)
qed

interpretation answer: narrowing "\<lambda>rs. finish_results ev cx rq (eligible_results ev cx rq rs)" for ev cx rq
  by unfold_locales (rule answer_subseq)

section \<open>Answers\<close>

lemma sort_desc_sorted: "sorted_wrt (\<lambda>a b. f b \<le> f a) (sort_desc f xs)"
  using sorted_sort_key [of "\<lambda>x. - f x" xs] by (simp add: sort_desc_def sorted_map)

lemma set_sort_desc [simp]: "set (sort_desc f xs) = set xs"
  by (simp add: sort_desc_def)

lemma score_and_rank_sorted:
  "if qx_complexity cx = TimelineQuery
   then sorted_wrt (\<lambda>a b. hr_timestamp a \<le> hr_timestamp b) (score_and_rank ev cx rq auth rs)
   else sorted_wrt (\<lambda>a b. hr_score b \<le> hr_score a) (score_and_rank ev cx rq auth rs)"
proof -
  have "sorted_wrt (\<lambda>a b. hr_timestamp a \<le> hr_timestamp b) (sort_key hr_timestamp xs)" for xs :: "hybrid_result list"
    using sorted_sort_key [of hr_timestamp xs] by (simp add: sorted_map)
  then show ?thesis by (simp add: score_and_rank_def Let_def sort_desc_sorted)
qed

lemma filter_candidates_member:
  assumes "r \<in> set (filter_candidates ev cx rq rs)"
  shows "r \<in> set rs" "allows_id ev cx (hr_id r)"
    "\<not> sq_include_superseded rq \<Longrightarrow> \<exists>c. fetch (ev_store ev) (hr_id r) = Some c \<and> ch_is_latest c"
    "qx_streams cx = Some ss \<Longrightarrow> in_streams (ev_store ev) ss (hr_id r)"
proof -
  let ?d = "prefix_dedup (result_fingerprint ev) [] (filter_extraction ev rq (apply_dates ev cx rq rs))"
  let ?s = "if qx_complexity cx = AggregationQuery then subject_dedup (subject_key ev) {} ?d else ?d"
  show "r \<in> set rs" by (rule cands.members [OF assms])
  have g: "r \<in> set (guard_streams (ev_store ev) (qx_streams cx) (filter_agents (ev_store ev) rq ?s))"
    using assms by (simp only: filter_candidates_def Let_def)
  then show "in_streams (ev_store ev) ss (hr_id r)" if "qx_streams cx = Some ss"
    using that by (simp add: guard_streams_def)
  have "r \<in> set ?s" by (rule agents.members [OF subseq_in [OF guard_streams_subseq g]])
  moreover have "subseq ?s ?d" by (simp add: subject_dedup_subseq)
  ultimately have "r \<in> set ?d" by (rule subseq_in [rotated])
  then have d: "r \<in> set (apply_dates ev cx rq rs)"
    by (rule subseq_in [OF filter_extraction_subseq dedup.members])
  then show "allows_id ev cx (hr_id r)"
    by (cases "sq_valid_at rq") (auto simp: apply_dates_def Let_def filter_superseded_def filter_bitemporal_def split: if_splits)
  show "\<exists>c. fetch (ev_store ev) (hr_id r) = Some c \<and> ch_is_latest c" if "\<not> sq_include_superseded rq"
    using d that by (auto simp: apply_dates_def Let_def filter_superseded_def split: option.splits)
qed

text \<open>What an answer may show of the store.\<close>

definition may_show :: "search_env \<Rightarrow> query_context \<Rightarrow> search_request \<Rightarrow> chunk \<Rightarrow> bool" where
  "may_show ev cx rq c \<longleftrightarrow> ch_deleted_at c = None \<and> in_scope (qx_streams cx) c \<and>
     date_allows ev c (qx_dates cx) \<and> (sq_include_superseded rq \<or> ch_is_latest c)"

lemma may_showI:
  assumes "r \<in> set (filter_candidates ev cx rq rs)" "fetch (ev_store ev) (hr_id r) = Some c" "ch_deleted_at c = None"
  shows "may_show ev cx rq c"
  using filter_candidates_member [OF assms(1)] assms(2,3)
  by (auto simp: may_show_def in_scope_def allows_id_def date_allows_def in_streams_def split: option.splits)

lemma full_search_shows:
  assumes "full_search ev cx rq auth subs = Inr rs" "r \<in> set rs"
  shows "\<exists>c. fetch (ev_store ev) (hr_id r) = Some c \<and> may_show ev cx rq c"
proof -
  obtain xs where "rs = finish_results ev cx rq (eligible_results ev cx rq xs)"
    using assms(1) by (auto simp: full_search_def)
  with assms(2) have r: "r \<in> set (eligible_results ev cx rq xs)"
    by (auto simp: finish_results_def dest: in_set_takeD)
  then have "r \<in> set (filter (\<lambda>r. \<not> is_deleted_in_store (ev_store ev) (hr_id r)) xs)"
    unfolding eligible_results_def by (rule cands.members)
  then obtain c where c: "fetch (ev_store ev) (hr_id r) = Some c" "ch_deleted_at c = None"
    by (auto simp: is_deleted_in_store_def split: option.splits)
  with may_showI [OF r [unfolded eligible_results_def]] show ?thesis by blast
qed

lemma full_search_cut:
  "full_search ev cx rq auth subs = Inr rs \<Longrightarrow> length rs \<le> final_top_k (ev_settings ev) cx rq"
  by (auto simp: full_search_def finish_results_def intro!: order_trans [OF length_filter_le])

lemma rank_markers_member: "r \<in> set (rank_markers xs) \<Longrightarrow> \<exists>r0 \<in> set xs. hr_id r = hr_id r0"
  by (auto simp: rank_markers_def in_set_enumerate_eq intro!: bexI [OF _ nth_mem])

lemma tier1_shows:
  assumes ok: "store_ok (ev_store ev)" and t: "tier1_lookup ev cx rq auth applies entities terms = Some rs" and r: "r \<in> set rs"
  shows "\<exists>c. fetch (ev_store ev) (hr_id r) = Some c \<and> may_show ev cx rq c \<and> \<not> ch_dormant c"
proof -
  obtain ids streams where "rs = take (final_top_k (ev_settings ev) cx rq) (filter_candidates ev cx rq
      (rank_markers (sort_key (\<lambda>r. - hr_timestamp r) (List.map_filter (tier1_result ev streams terms) ids))))"
    using t by (auto simp: tier1_lookup_def Let_def split: if_splits option.splits)
  with r have m: "r \<in> set (filter_candidates ev cx rq
      (rank_markers (sort_key (\<lambda>r. - hr_timestamp r) (List.map_filter (tier1_result ev streams terms) ids))))"
    by (auto dest: in_set_takeD)
  from filter_candidates_member(1) [OF m] obtain r0 where r0: "hr_id r = hr_id r0"
      "r0 \<in> set (List.map_filter (tier1_result ev streams terms) ids)"
    by (metis rank_markers_member set_sort)
  then obtain i where "tier1_result ev streams terms i = Some r0" by (auto simp: List.map_filter_def)
  then obtain c where c: "fetch (ev_store ev) i = Some c" "\<not> ch_dormant c" "\<not> is_deleted_in_store (ev_store ev) i"
      "hr_id r0 = ch_id c"
    by (auto simp: tier1_result_def split: option.splits if_splits)
  have "get_chunk (ev_store ev) i = Inr (Some c)" using c(1) by (auto simp: fetch_def split: sum.splits option.splits)
  from get_chunk_id [OF ok this] c(1,4) r0(1) have f: "fetch (ev_store ev) (hr_id r) = Some c" by simp
  moreover have "ch_deleted_at c = None" using c(1,3) by (simp add: is_deleted_in_store_def)
  ultimately show ?thesis using may_showI [OF m f] c(2) by blast
qed

text \<open>
  C0. Whatever the candidates, the caches and the index hold: every result of an answer names a stored
  chunk that is not deleted, lies in the searched streams, passes the date filter, and is the latest
  version unless superseded ones were asked for. A cached or direct answer shows no dormant chunk. A
  fresh answer is no longer than the requested number of results.
\<close>

theorem answers_confined:
  assumes "store_ok (ev_store ev)"
    and "fst (search_handler ev cx rq auth applies entities terms subs key now other cache) = Inr (by_what, rs)"
  shows "(\<forall>r \<in> set rs. \<exists>c. fetch (ev_store ev) (hr_id r) = Some c \<and> ch_deleted_at c = None \<and>
       (case qx_streams cx of None \<Rightarrow> True | Some ss \<Rightarrow> ch_stream c \<in> set ss) \<and>
       date_allows ev c (qx_dates cx) \<and> (sq_include_superseded rq \<or> ch_is_latest c) \<and>
       (by_what = FullPipeline \<or> \<not> ch_dormant c)) \<and>
     (by_what \<in> {DirectLookup, FullPipeline} \<longrightarrow> length rs \<le> final_top_k (ev_settings ev) cx rq)"
proof -
  have shows_all: "(\<forall>r \<in> set rs. \<exists>c. fetch (ev_store ev) (hr_id r) = Some c \<and> may_show ev cx rq c \<and>
       (by_what = FullPipeline \<or> \<not> ch_dormant c)) \<and>
     (by_what \<in> {DirectLookup, FullPipeline} \<longrightarrow> length rs \<le> final_top_k (ev_settings ev) cx rq)"
  proof -
    consider (cache) b cached where "by_what = FromCache b" "rs = cached_results ev cx rq cached"
      | (direct) "by_what = DirectLookup" "tier1_lookup ev cx rq auth applies entities terms = Some rs"
      | (full) "by_what = FullPipeline" "full_search ev cx rq auth subs = Inr rs"
      using assms(2) by (auto simp: search_handler_def Let_def split: prod.splits option.splits sum.splits)
    then show ?thesis
    proof cases
      case cache
      then show ?thesis by (auto simp: cached_results_def visible_def may_show_def split: option.splits)
    next
      case direct
      have "length rs \<le> final_top_k (ev_settings ev) cx rq"
        using direct(2) by (auto simp: tier1_lookup_def Let_def split: option.splits if_splits)
      with direct(1) tier1_shows [OF assms(1) direct(2)] show ?thesis by blast
    next
      case full
      then show ?thesis using full_search_shows [OF full(2)] full_search_cut [OF full(2)] by blast
    qed
  qed
  then show ?thesis unfolding may_show_def in_scope_def by blast
qed

text \<open>
  The answer of the full pipeline is ranked: its scores do not increase, or, for a timeline query,
  its timestamps do not decrease.
\<close>

theorem answers_ranked:
  assumes "full_search ev cx rq auth subs = Inr rs"
  shows "if qx_complexity cx = TimelineQuery
    then sorted_wrt (\<lambda>a b. hr_timestamp a \<le> hr_timestamp b) rs
    else sorted_wrt (\<lambda>a b. hr_score b \<le> hr_score a) rs"
proof -
  obtain xs where "rs = finish_results ev cx rq (eligible_results ev cx rq (score_and_rank ev cx rq auth xs))"
    using assms by (auto simp: full_search_def)
  with score_and_rank_sorted [of cx ev rq auth xs] show ?thesis
    by (auto split: if_splits intro: answer.keeps_order)
qed

section \<open>The rare-term guarantee\<close>

lemma retain_pool_member:
  assumes "r \<in> set rs" "hr_id r \<in> ids"
  shows "r \<in> set (retain_pool rs n (Some ids))"
proof -
  have "r \<in> set (take n rs) \<or> r \<in> set (drop n rs)"
    using assms(1) by (metis Un_iff append_take_drop_id set_append)
  with assms show ?thesis by (auto simp: retain_pool_def)
qed

lemma fuse_one_id: "fuse_one cfg now st bm vm i = Some r \<Longrightarrow> hr_id r = i"
  by (auto simp: fuse_one_def Let_def split: option.splits prod.splits)

lemma fuse_one_found: "bm i = Some x \<Longrightarrow> \<exists>r. fuse_one cfg now st bm vm i = Some r"
  by (cases x) (simp add: fuse_one_def Let_def)

lemma last_value_found: "k \<in> set (map fst kvs) \<Longrightarrow> \<exists>v. last_value kvs k = Some v"
  unfolding last_value_def by (metis map_of_eq_None_iff not_Some_eq set_map set_rev rev_map)

lemma fuse_keeps:
  assumes "i \<in> sh_id ` set bm25" "i \<in> g"
  shows "i \<in> hr_id ` set (fuse_with_vector_budget cfg now bm25 vec st (Some g) budget)"
proof -
  let ?vec = "if 0 < sg_similarity_floor cfg then filter (\<lambda>(_, s). sg_similarity_floor cfg \<le> s) vec else vec"
  define bm where "bm = last_value (map (\<lambda>h. (sh_id h, (sh_score h / max_score (map sh_score bm25), h))) bm25)"
  define vm where "vm = last_value (map (\<lambda>(i, s). (i, if 0 < max_score (map snd ?vec) then s / max_score (map snd ?vec) else 0)) ?vec)"
  define ids where "ids = remdups_adj (sort (map sh_id bm25 @ map fst ?vec))"
  have fused: "fuse_with_vector_budget cfg now bm25 vec st (Some g) budget =
      retain_pool (sort_desc hr_score (List.map_filter (fuse_one cfg now st bm vm) ids)) (cb_fused budget) (Some g)"
    by (simp add: fuse_with_vector_budget_def Let_def bm_def vm_def ids_def)
  have "i \<in> set (map fst (map (\<lambda>h. (sh_id h, (sh_score h / max_score (map sh_score bm25), h))) bm25))"
    using assms(1) by (auto simp: image_iff)
  from last_value_found [OF this] obtain x where "bm i = Some x" unfolding bm_def by blast
  from fuse_one_found [where bm = bm, OF this] obtain r where r: "fuse_one cfg now st bm vm i = Some r" by blast
  have "i \<in> set ids" using assms(1) by (auto simp: ids_def)
  with r have "r \<in> set (sort_desc hr_score (List.map_filter (fuse_one cfg now st bm vm) ids))"
    by (force simp: List.map_filter_def)
  from retain_pool_member [OF this, of g] fuse_one_id [OF r] assms(2) show ?thesis
    unfolding fused by force
qed

lemma bm25_only_keeps:
  assumes "i \<in> sh_id ` set bm25" "i \<in> g"
  shows "i \<in> hr_id ` set (bm25_only_with_budget cfg now bm25 (Some g) budget)"
proof -
  obtain h where h: "h \<in> set bm25" "sh_id h = i" using assms(1) by blast
  obtain f where f: "bm25_only_with_budget cfg now bm25 (Some g) budget =
      retain_pool (sort_desc hr_score (map f bm25)) (cb_fused budget) (Some g)" "\<And>x. hr_id (f x) = sh_id x"
    by (auto simp: bm25_only_with_budget_def Let_def)
  have "f h \<in> set (sort_desc hr_score (map f bm25))" using h by simp
  from retain_pool_member [OF this, of g] f(2) [of h] h(2) assms(2) show ?thesis unfolding f(1) by force
qed

lemma primary_keeps:
  assumes "retrieve_primary ev cx rq bm25 agents (Some g) = Inr rs" "i \<in> sh_id ` set bm25" "i \<in> g"
  shows "i \<in> hr_id ` set rs"
  using assms(1) bm25_only_keeps [OF assms(2,3)] fuse_keeps [OF assms(2,3)]
  by (auto simp: retrieve_primary_def search_with_vector_budget_def search_with_vector_inner_def Let_def
      split: option.splits prod.splits if_splits)

text \<open>The merge of sub-query hits never loses an id.\<close>

definition keyed :: "(string \<times> hybrid_result) list \<Rightarrow> bool" where
  "keyed m \<longleftrightarrow> (\<forall>(k, r) \<in> set m. hr_id r = k)"

lemma update_member: "x \<in> set (AList.update k v m) \<Longrightarrow> x = (k, v) \<or> x \<in> set m"
  by (induction m) (auto split: if_splits)

lemma update_keys: "fst ` set (AList.update k v m) = insert k (fst ` set m)"
  by (induction m) (auto split: if_splits)

lemma keyed_update: "keyed m \<Longrightarrow> hr_id r = k \<Longrightarrow> keyed (AList.update k r m)"
  unfolding keyed_def by (auto dest!: update_member)

lemma keyed_ids: "keyed m \<Longrightarrow> hr_id ` set (map snd m) = fst ` set m"
  by (force simp: keyed_def image_iff)

lemma insert_all_keyed:
  "keyed m \<Longrightarrow> keyed (fold (\<lambda>r. AList.update (hr_id r) r) rs m) \<and>
     fst ` set (fold (\<lambda>r. AList.update (hr_id r) r) rs m) = hr_id ` set rs \<union> fst ` set m"
  by (induction rs arbitrary: m) (auto simp: keyed_update update_keys)

lemma sub_hit_keyed:
  assumes "keyed m"
  shows "keyed (sub_vector_hit st h m) \<and> fst ` set m \<subseteq> fst ` set (sub_vector_hit st h m)"
proof (cases h)
  case (Pair i sim)
  show ?thesis
  proof (cases "map_of m i")
    case None
    with assms show ?thesis by (auto simp: Pair sub_vector_hit_def keyed_def Let_def)
  next
    case (Some e)
    with assms have "hr_id e = i" by (auto simp: keyed_def dest: map_of_SomeD)
    with Some show ?thesis
      by (auto simp: Pair sub_vector_hit_def update_keys intro!: keyed_update [OF assms])
  qed
qed

lemma sub_hits_keyed:
  "keyed m \<Longrightarrow> keyed (fold (sub_vector_hit st) hs m) \<and> fst ` set m \<subseteq> fst ` set (fold (sub_vector_hit st) hs m)"
proof (induction hs arbitrary: m)
  case (Cons h hs)
  have k: "keyed (sub_vector_hit st h m)" "fst ` set m \<subseteq> fst ` set (sub_vector_hit st h m)"
    using sub_hit_keyed [OF Cons.prems, of st h] by simp_all
  from Cons.IH [OF k(1)] k(2) show ?case unfolding fold.simps comp_apply by blast
qed simp

lemma merge_sub_hits_keeps: "hr_id ` set primary \<subseteq> hr_id ` set (merge_sub_hits st hits primary)"
proof -
  have k: "keyed (fold (\<lambda>r. AList.update (hr_id r) r) primary [])"
      "fst ` set (fold (\<lambda>r. AList.update (hr_id r) r) primary []) = hr_id ` set primary"
    using insert_all_keyed [of "[]" primary] by (simp_all add: keyed_def)
  note f = sub_hits_keyed [OF k(1), of st hits]
  from keyed_ids [OF conjunct1 [OF f]] conjunct2 [OF f] show ?thesis
    by (simp only: merge_sub_hits_def set_sort_desc k(2))
qed

lemma vector_retrieve_cases:
  assumes "vector_retrieve ev cx rq subs bm25 g = Inr rs"
  obtains primary where
    "retrieve_primary ev cx rq (filter (\<lambda>h. allows_id ev cx (sh_id h)) bm25) (agent_id_set ev rq) g = Inr primary"
    "rs = primary \<or> rs \<in> range (\<lambda>hits. merge_sub_hits (ev_store ev) hits primary)"
proof (cases "retrieve_primary ev cx rq (filter (\<lambda>h. allows_id ev cx (sh_id h)) bm25) (agent_id_set ev rq) g")
  case (Inl e)
  with assms show thesis by (simp add: vector_retrieve_def)
next
  case (Inr primary)
  have "rs = primary \<or> rs \<in> range (\<lambda>hits. merge_sub_hits (ev_store ev) hits primary)"
    using assms unfolding vector_retrieve_def Let_def Inr rbind.simps
    by (simp only: split: if_splits) (simp_all only: sum.inject, (blast | simp)+)
  with Inr that show thesis by blast
qed

lemma vector_retrieve_keeps:
  assumes "vector_retrieve ev cx rq subs bm25 (Some g) = Inr rs" "i \<in> sh_id ` set bm25" "i \<in> g" "allows_id ev cx i"
  shows "i \<in> hr_id ` set rs"
proof -
  have "i \<in> sh_id ` set (filter (\<lambda>h. allows_id ev cx (sh_id h)) bm25)" using assms(2,4) by auto
  note p = primary_keeps [OF _ this assms(3)]
  obtain primary where pr: "retrieve_primary ev cx rq (filter (\<lambda>h. allows_id ev cx (sh_id h)) bm25) (agent_id_set ev rq) (Some g) = Inr primary"
    and "rs = primary \<or> rs \<in> range (\<lambda>hits. merge_sub_hits (ev_store ev) hits primary)"
    using assms(1) by (rule vector_retrieve_cases)
  with p [OF pr] merge_sub_hits_keeps [of primary "ev_store ev"] show ?thesis by blast
qed

lemma with_graph_ids: "hr_id ` set rs \<subseteq> hr_id ` set (with_graph ev cx rq auth rs)"
proof -
  have "hr_id (graph_boost f m r) = hr_id r" for f m r
    by (simp add: graph_boost_def split: option.split)
  then show ?thesis by (auto simp: with_graph_def Let_def image_Un image_image split: sum.split)
qed

lemma ranked_ids: "hr_id ` set rs \<subseteq> hr_id ` set (score_and_rank ev cx rq auth rs)"
proof -
  have "hr_id (adjust_score ev r) = hr_id r" for r
    by (simp add: adjust_score_def apply_chunk_score_adjustments_def split: option.split)
  then show ?thesis using with_graph_ids [of rs ev cx rq auth]
    by (simp add: score_and_rank_def Let_def image_image)
qed

text \<open>
  C0. Every candidate of the rare-term lane that passes the date filter is among the ranked
  candidates, whatever the fusion pool cut off.
\<close>

theorem rare_terms_survive_fusion:
  assumes "rare_term_lane ev cx = Some cands" "retrieve ev cx rq subs = Inr rs"
    and "c \<in> set cands" "allows_id ev cx (sh_id c)"
  shows "\<exists>r \<in> set (score_and_rank ev cx rq auth rs). hr_id r = sh_id c"
proof -
  obtain hits where v: "vector_retrieve ev cx rq subs (merge_lane_candidates hits (Some cands)) (Some (sh_id ` set cands)) = Inr rs"
    using assms(1,2) by (auto simp: retrieve_def Let_def lane_ids_def)
  have "sh_id c \<in> sh_id ` set (merge_lane_candidates hits (Some cands))"
    using assms(3) by (auto simp: merge_lane_candidates_def)
  from vector_retrieve_keeps [OF v this] assms(3,4) have "sh_id c \<in> hr_id ` set rs" by blast
  with ranked_ids [of rs ev cx rq auth] show ?thesis by force
qed

section \<open>Reciprocal ranks\<close>

lemma assign_ranks_length [simp]: "length (assign_ranks raw is n ranks) = length ranks"
  by (induction raw "is" n ranks rule: assign_ranks.induct) auto

lemma assign_ranks_other: "i \<notin> set is \<or> \<not> 0 < raw ! i \<Longrightarrow> assign_ranks raw is n ranks ! i = ranks ! i"
proof (induction raw "is" n ranks rule: assign_ranks.induct)
  case (2 raw a "is" n ranks)
  then show ?case by (cases "a = i") auto
qed simp

lemma assign_ranks_nth:
  "distinct is \<Longrightarrow> i \<in> set is \<Longrightarrow> i < length ranks \<Longrightarrow> 0 < raw ! i \<Longrightarrow>
     \<forall>j \<in> set (takeWhile (\<lambda>j. j \<noteq> i) is). 0 < raw ! j \<Longrightarrow>
     assign_ranks raw is n ranks ! i = Some (n + length (takeWhile (\<lambda>j. j \<noteq> i) is))"
  by (induction raw "is" n ranks rule: assign_ranks.induct) (auto simp: assign_ranks_other split: if_splits)

lemma takeWhile_below:
  fixes f :: "'a \<Rightarrow> 'b::linorder"
  assumes "sorted (map f xs)" "inj_on f (set xs)" "x \<in> set xs"
  shows "set (takeWhile (\<lambda>y. y \<noteq> x) xs) = {y \<in> set xs. f y < f x}"
  using assms
proof (induction xs)
  case (Cons a xs)
  show ?case
  proof (cases "a = x")
    case True
    then have "\<not> f y < f x" if "y \<in> set (a # xs)" for y using Cons.prems(1) that by auto
    then show ?thesis using True by auto
  next
    case False
    then have x: "x \<in> set xs" using Cons.prems(3) by simp
    have "f a \<le> f x" "f a \<noteq> f x"
      using Cons.prems x False by (auto simp: inj_on_def)
    moreover have "inj_on f (set xs)" using Cons.prems(2) by simp
    ultimately show ?thesis using Cons.IH Cons.prems(1) x False by auto
  qed
qed simp

text \<open>
  The rank of a candidate in a channel is one more than the number of candidates with a better
  score, or the same score and a smaller id; a candidate without a positive score has no rank. So the
  ranks do not depend on the order in which the candidates arrive.
\<close>

theorem ranks_count_better_candidates:
  assumes "length ids = length raw" "distinct ids" "i < length raw"
  shows "ranks_from_raw raw ids ! i =
    (if 0 < raw ! i
     then Some (Suc (card {j. j < length raw \<and> (raw ! i < raw ! j \<or> raw ! j = raw ! i \<and> ids ! j < ids ! i)}))
     else None)"
proof (cases "0 < raw ! i")
  case False
  then show ?thesis using assms(3) by (simp add: ranks_from_raw_def assign_ranks_other)
next
  case True
  define f where "f = (\<lambda>j. (- raw ! j, ids ! j))"
  define order where "order = sort_key f [0..<length raw]"
  have order: "distinct order" "set order = {0..<length raw}" "sorted (map f order)"
    by (simp_all add: order_def)
  have inj: "inj_on f (set order)"
    using assms(1,2) by (auto simp: inj_on_def f_def order(2) nth_eq_iff_index_eq)
  have i: "i \<in> set order" using assms(3) order(2) by simp
  have less: "f j < f i \<longleftrightarrow> raw ! i < raw ! j \<or> raw ! j = raw ! i \<and> ids ! j < ids ! i" for j
    by (auto simp: f_def)
  have before: "set (takeWhile (\<lambda>j. j \<noteq> i) order) =
      {j. j < length raw \<and> (raw ! i < raw ! j \<or> raw ! j = raw ! i \<and> ids ! j < ids ! i)}"
    using takeWhile_below [OF order(3) inj i] order(2) by (auto simp: less)
  moreover have "distinct (takeWhile (\<lambda>j. j \<noteq> i) order)" using order(1) by (rule distinct_takeWhile)
  ultimately have len: "length (takeWhile (\<lambda>j. j \<noteq> i) order) =
      card {j. j < length raw \<and> (raw ! i < raw ! j \<or> raw ! j = raw ! i \<and> ids ! j < ids ! i)}"
    by (metis distinct_card)
  have "\<forall>j \<in> set (takeWhile (\<lambda>j. j \<noteq> i) order). 0 < raw ! j" unfolding before using True by auto
  from assign_ranks_nth [OF order(1) i _ True this, of "replicate (length raw) None" 1] assms(3) True show ?thesis
    by (simp add: ranks_from_raw_def len flip: f_def order_def)
qed

section \<open>Reranking\<close>

lemma first_by_id_facts:
  "distinct (map hr_id (first_by_id seen rs)) \<and> hr_id ` set (first_by_id seen rs) = hr_id ` set rs - seen \<and>
     set (first_by_id seen rs) \<subseteq> set rs"
  by (induction seen rs rule: first_by_id.induct) auto

lemma slice_member: "x \<in> set (rerank_slice_with_lane rs head lane cap) \<Longrightarrow> x \<in> set rs"
proof (cases lane)
  case None
  then show "x \<in> set (rerank_slice_with_lane rs head lane cap) \<Longrightarrow> x \<in> set rs"
    by (auto simp: rerank_slice_with_lane_def dest: in_set_takeD)
next
  case (Some ids)
  assume "x \<in> set (rerank_slice_with_lane rs head lane cap)"
  with Some have "x \<in> set (take head rs) \<or> x \<in> set (drop head rs)"
    by (auto simp: rerank_slice_with_lane_def dest!: in_set_takeD [of x cap])
  then show "x \<in> set rs" by (auto dest: in_set_takeD in_set_dropD)
qed

text \<open>
  Whatever indices the reranker returns, out of range or repeated ones included, the reranked
  answer is made of the eligible results, each at most once, and as many of them as the plain answer
  has: without a cut it is a permutation of them.
\<close>

theorem reranking_permutes:
  assumes "distinct (map hr_id whole)"
  shows "length (reranked_results indices (rerank_slice_with_lane whole head lane cap) whole k) = min k (length whole) \<and>
    set (reranked_results indices (rerank_slice_with_lane whole head lane cap) whole k) \<subseteq> set whole \<and>
    distinct (map hr_id (reranked_results indices (rerank_slice_with_lane whole head lane cap) whole k)) \<and>
    (length whole \<le> k \<longrightarrow>
       mset (reranked_results indices (rerank_slice_with_lane whole head lane cap) whole k) = mset whole)"
proof -
  let ?slice = "rerank_slice_with_lane whole head lane cap"
  define xs where "xs = first_by_id {} (map (nth ?slice) (filter (\<lambda>i. i < length ?slice) indices) @ whole)"
  have chosen: "set (map (nth ?slice) (filter (\<lambda>i. i < length ?slice) indices)) \<subseteq> set whole"
    using slice_member [of _ whole head lane cap] nth_mem [of _ ?slice] by fastforce
  let ?all = "map (nth ?slice) (filter (\<lambda>i. i < length ?slice) indices) @ whole"
  have all: "set ?all = set whole" using chosen by auto
  have xs: "distinct (map hr_id xs)" "hr_id ` set xs = hr_id ` set whole" "set xs \<subseteq> set whole"
    using first_by_id_facts [of "{}" ?all] unfolding xs_def [symmetric] all by simp_all
  have inj: "inj_on hr_id (set whole)" using assms by (simp add: distinct_map)
  from xs(2,3) have "set xs = set whole" by (simp add: inj_on_image_eq_iff [OF inj])
  moreover have "distinct xs" "distinct whole" using xs(1) assms by (simp_all add: distinct_map)
  ultimately have perm: "mset xs = mset whole" by (simp add: set_eq_iff_mset_eq_distinct)
  then have len: "length xs = length whole" by (metis size_mset)
  have r: "reranked_results indices ?slice whole k = take k xs"
    by (simp add: reranked_results_def xs_def)
  show ?thesis unfolding r
    using xs(1,3) perm len by (auto simp: distinct_take take_map [symmetric] dest: in_set_takeD)
qed

section \<open>Duplicates\<close>

lemma prefix_dedup_facts:
  "(\<forall>r \<in> set (prefix_dedup fp seen rs). \<forall>e \<in> set seen. \<not> dominated_by (fp r) e) \<and>
     sorted_wrt (\<lambda>a b. \<not> dominated_by (fp b) (fp a)) (prefix_dedup fp seen rs) \<and>
     (\<forall>r \<in> set rs - set (prefix_dedup fp seen rs).
        \<exists>e \<in> set seen \<union> fp ` set (prefix_dedup fp seen rs). dominated_by (fp r) e)"
proof (induction fp seen rs rule: prefix_dedup.induct)
  case (2 fp seen r rs)
  show ?case
  proof (cases "list_ex (\<lambda>e. dominated_by (fp r) e) seen")
    case True
    then show ?thesis using 2(1) [OF True] by (auto simp: list_ex_iff)
  next
    case False
    then show ?thesis using 2(2) [OF False] by (auto simp: list_ex_iff)
  qed
qed simp

text \<open>
  The duplicate filter keeps the order, keeps no result that an earlier kept one dominates, and
  drops a result only when a kept one dominates it.
\<close>

theorem duplicates_dropped_exactly:
  "subseq (prefix_dedup fp [] rs) rs \<and>
     sorted_wrt (\<lambda>a b. \<not> dominated_by (fp b) (fp a)) (prefix_dedup fp [] rs) \<and>
     set rs - set (prefix_dedup fp [] rs) \<subseteq>
       {r. \<exists>k \<in> set (prefix_dedup fp [] rs). dominated_by (fp r) (fp k)}"
  using prefix_dedup_subseq [of fp "[]" rs] prefix_dedup_facts [of fp "[]" rs] by auto

section \<open>Repeated requests\<close>

lemma xor_salt: "k XOR RERANKED_SALT \<noteq> k"
proof
  assume "k XOR RERANKED_SALT = k"
  then have "k XOR (k XOR RERANKED_SALT) = k XOR k" by simp
  then show False by (simp add: RERANKED_SALT_def flip: xor.assoc)
qed

lemma get_best_miss:
  assumes "get_best now k c = (None, c')" "cache_ok c"
  shows "cache_ok c'" "qc_generation c' = qc_generation c" "qc_config c' = qc_config c"
    "map_of (qc_entries c') (k XOR RERANKED_SALT) = None"
proof -
  show "cache_ok c'" "qc_generation c' = qc_generation c"
    using get_best_facts [OF assms(2), of now k] assms(1) by simp_all
  have cfg: "qc_config (snd (is_valid now x y)) = qc_config y" for x and y :: "'a query_cache"
    by (simp add: is_valid_def drop_key_def split: option.split)
  have gone: "\<not> fst (is_valid now x y) \<Longrightarrow> map_of (qc_entries (snd (is_valid now x y))) x = None" for x and y :: "'a query_cache"
    by (auto simp: is_valid_def drop_key_def delete_conv' split: option.splits if_splits)
  have other: "map_of (qc_entries y) z = None \<Longrightarrow> map_of (qc_entries (snd (is_valid now x y))) z = None" for x z and y :: "'a query_cache"
    by (auto simp: is_valid_def drop_key_def delete_conv' split: option.split)
  obtain b c1 where v1: "is_valid now (k XOR RERANKED_SALT) c = (b, c1)" by force
  obtain b2 c2 where v2: "is_valid now k c1 = (b2, c2)" by force
  have some: "fst (is_valid now x y) \<Longrightarrow> map_of (qc_entries (snd (is_valid now x y))) x \<noteq> None" for x and y :: "'a query_cache"
    by (auto simp: is_valid_def split: option.splits if_splits)
  have b: "\<not> b" "\<not> b2" "c' = c2"
    using assms(1) some [of "k XOR RERANKED_SALT" c] some [of k c1] v1 v2
    by (auto simp: get_best_def Let_def split: if_splits)
  show "qc_config c' = qc_config c"
    using cfg [of "k XOR RERANKED_SALT" c] cfg [of k c1] v1 v2 b(3) by simp
  have "map_of (qc_entries c1) (k XOR RERANKED_SALT) = None" using gone [of "k XOR RERANKED_SALT" c] v1 b(1) by simp
  from other [OF this, of k] v2 b(3) show "map_of (qc_entries c') (k XOR RERANKED_SALT) = None" by simp
qed

text \<open>
  When a request is repeated within the time to live of its entry, with nothing published or
  invalidated in between, its answer is the fresh one less the results whose chunk is dormant, in
  progress, or marked as replaced: the cached answer is stricter than the fresh one.
\<close>

theorem repeated_search_is_stricter:
  assumes "cache_ok cache"
    and "search_handler ev cx rq auth applies entities terms subs (Some k) now id cache = (Inr (FullPipeline, rs), cache')"
    and "(now' - now) div 1000 < qc_ttl_secs (qc_config cache)"
  shows "fst (search_handler ev cx rq auth applies entities terms subs (Some k) now' other cache') =
    Inr (FromCache False, filter (\<lambda>r. case fetch (ev_store ev) (hr_id r) of
        None \<Rightarrow> False
      | Some c \<Rightarrow> \<not> ch_dormant c \<and> \<not> ch_in_progress c \<and> (sq_include_superseded rq \<or> ch_superseded_by c = None)) rs)"
proof -
  obtain hit c1 where g: "get_best now k cache = (hit, c1)" by force
  have h: "hit = None" and full: "full_search ev cx rq auth subs = Inr rs"
    and c': "cache' = snd (insert_if_current now k (qc_generation cache) rs c1)"
    using assms(2) by (auto simp: search_handler_def Let_def g split: option.splits sum.splits)
  note m = get_best_miss [OF g [unfolded h] assms(1)]
  have c'2: "cache' = cache_insert now k rs c1" using c' m(2) by (simp add: insert_if_current_def)
  note ins = cache_insert_facts [OF m(1), of now k rs]
  have e: "map_of (qc_entries cache') k = Some \<lparr>qe_results = rs, qe_inserted_at = now\<rparr>"
    using ins unfolding c'2 by blast
  have none: "map_of (qc_entries cache') (k XOR RERANKED_SALT) = None"
    using ins m(4) xor_salt [of k] unfolding c'2 by (metis not_Some_eq)
  have cfg: "qc_config cache' = qc_config cache"
    unfolding c'2 using m(3) by (simp add: cache_insert_def split: prod.split)
  have "fst (get_best now' k cache') = Some (False, rs)"
    using assms(3) by (simp add: get_best_def is_valid_def none e cfg elapsed_secs_def)
  then obtain c2 where "get_best now' k cache' = (Some (False, rs), c2)" by (metis prod.collapse)
  then have s: "fst (search_handler ev cx rq auth applies entities terms subs (Some k) now' other cache') =
      Inr (FromCache False, cached_results ev cx rq rs)"
    by (simp add: search_handler_def Let_def)
  have "cached_results ev cx rq rs = filter (\<lambda>r. case fetch (ev_store ev) (hr_id r) of
        None \<Rightarrow> False
      | Some c \<Rightarrow> \<not> ch_dormant c \<and> \<not> ch_in_progress c \<and> (sq_include_superseded rq \<or> ch_superseded_by c = None)) rs"
    unfolding cached_results_def
  proof (rule filter_cong [OF refl])
    fix r assume "r \<in> set rs"
    from full_search_shows [OF full this] show "(case fetch (ev_store ev) (hr_id r) of None \<Rightarrow> False | Some c \<Rightarrow> visible ev cx rq c) =
        (case fetch (ev_store ev) (hr_id r) of None \<Rightarrow> False | Some c \<Rightarrow> \<not> ch_dormant c \<and> \<not> ch_in_progress c \<and>
           (sq_include_superseded rq \<or> ch_superseded_by c = None))"
      by (auto simp: visible_def may_show_def)
  qed
  with s show ?thesis by simp
qed

section \<open>Witnesses\<close>

text \<open>One stored chunk, an index that returns it, and no vectors; with and without the lane.\<close>

definition w_hit :: search_result where
  "w_hit = \<lparr>sh_id = ''x'', sh_content = ''text'', sh_user_id = [], sh_app_id = [], sh_level = 0, sh_timestamp = 0, sh_score = 1\<rparr>"

definition w_settings :: "bool \<Rightarrow> search_settings" where
  "w_settings lane = \<lparr>sg_bm25_weight = 1, sg_vector_weight = 1, sg_l0_lambda = 0, sg_l1_lambda = 0, sg_top_k = 10,
     sg_similarity_floor = 0, sg_match_relief = 0, sg_user_state_boost = 1, sg_agent_fact_damp = 1,
     ss_max_request_top_k = 100, ss_multi_query = False, ss_vector_multi_query = False, ss_vector_enabled = False,
     ss_counting_l0 = False, ss_graph_enabled = False, ss_max_hops = 1, ss_graph_boost = 1,
     ss_max_graph_additions = 1, ss_importance_medium = 1, ss_access_weight = 0, ss_lane_enabled = lane,
     ss_lane_df_max = 5, ss_lane_df_ratio = 0, ss_lane_cap = 5, ss_tier1_enabled = False, ss_tier1_cap = 0,
     ss_rerank_candidates = 5\<rparr>"

definition w_search :: "bool \<Rightarrow> graph_env \<Rightarrow> chrono \<Rightarrow> search_env" where
  "w_search lane ge chr = \<lparr>ev_settings = w_settings lane, ev_store = w_store (w_chunk ''x''),
     ev_index = \<lparr>si_leaf = (\<lambda>_ _. Inr (if lane then [] else [w_hit])), si_tokens = (\<lambda>_. Inr [''rare'']), si_count = (\<lambda>_. Inr 10),
       si_doc_freq = (\<lambda>_ _. Inr 1), si_candidates = (\<lambda>_ _ _. Inr [w_hit]), si_agent_ids = (\<lambda>_. Inr {})\<rparr>,
     ev_chrono = chr, ev_graph = ge, ev_names = (\<lambda>_. []), ev_order = (\<lambda>_. []), ev_lower = id, ev_stem = id,
     ev_embed = (\<lambda>_. Inl (Err ''off'')), ev_embeddings = Inr [], ev_now = 0\<rparr>"

definition w_cx :: query_context where
  "w_cx = \<lparr>qx_query = ''rare'', qx_original = ''rare'', qx_expanded = ''rare'', qx_complexity = SimpleQuery,
     qx_dates = None, qx_streams = Some [''s''], qx_limit = 10\<rparr>"

definition w_rq :: search_request where
  "w_rq = \<lparr>sq_query = ''rare'', sq_entity = None, sq_top_k = None, sq_valid_at = None, sq_include_superseded = False,
     sq_fact_type = None, sq_subject = None, sq_min_confidence = None, sq_source_agent = None, sq_exclude_agents = None\<rparr>"

lemmas w_search_defs = w_hit_def w_settings_def w_search_def w_cx_def w_rq_def

lemma w_fetch: "fetch (w_store (w_chunk ''x'')) i = (if i = ''x'' then Some (w_chunk ''x'') else None)"
  by (simp add: fetch_def w_chunk_def)

lemma w_retrieve: "\<exists>r. retrieve (w_search lane ge chr) w_cx w_rq [] = Inr [r] \<and> hr_id r = ''x'' \<and> hr_content r = ''text''"
  by (cases lane) (simp_all add: retrieve_def bm25_retrieve_def primary_leaves_def bm25_over_streams_def plain_leaf_def
      rare_term_lane_def rare_df_threshold_def sum_over_def lane_candidates_for_streams_def lane_ids_def merge_lane_candidates_def
      vector_retrieve_def retrieve_primary_def new_budget_def checked_mul_def bm25_only_with_budget_def retain_pool_def
      agent_id_set_def has_agent_filter_def allows_id_def sort_desc_def w_search_defs sat_add64_def Let_def)

lemma w_ranked: "\<exists>r'. score_and_rank (w_search lane ge chr) w_cx w_rq auth [r] = [r'] \<and> hr_id r' = hr_id r"
proof -
  have g: "with_graph (w_search lane ge chr) w_cx w_rq auth [r] = [r]"
    by (simp add: with_graph_def w_search_def w_settings_def Let_def)
  have "hr_id (adjust_score ev x) = hr_id x" for ev x
    by (simp add: adjust_score_def apply_chunk_score_adjustments_def split: option.split)
  moreover have "qx_complexity w_cx = SimpleQuery" by (simp add: w_cx_def)
  ultimately show ?thesis by (simp add: score_and_rank_def g Let_def sort_desc_def)
qed

lemma w_answer:
  assumes "hr_id r = ''x''"
  shows "finish_results (w_search lane ge chr) w_cx w_rq (eligible_results (w_search lane ge chr) w_cx w_rq [r]) = [r]"
proof -
  have st: "ev_store (w_search lane ge chr) = w_store (w_chunk ''x'')" by (simp add: w_search_def)
  have f: "fetch (w_store (w_chunk ''x'')) (hr_id r) = Some (w_chunk ''x'')" by (simp add: w_fetch assms)
  have c: "ch_deleted_at (w_chunk ''x'') = None" "ch_is_latest (w_chunk ''x'')" "ch_stream (w_chunk ''x'') = ''s''"
    by (simp_all add: w_chunk_def)
  have q: "sq_valid_at w_rq = None" "\<not> sq_include_superseded w_rq" "sq_fact_type w_rq = None" "sq_subject w_rq = None"
      "sq_min_confidence w_rq = None" "sq_source_agent w_rq = None" "sq_exclude_agents w_rq = None" "sq_top_k w_rq = None"
      "qx_dates w_cx = None" "qx_streams w_cx = Some [''s'']" "qx_complexity w_cx = SimpleQuery"
    by (simp_all add: w_rq_def w_cx_def)
  have "filter_candidates (w_search lane ge chr) w_cx w_rq [r] = [r]"
    by (simp add: filter_candidates_def apply_dates_def filter_superseded_def filter_extraction_def filter_agents_def
        guard_streams_def in_streams_def allows_id_def st f c q)
  then have "eligible_results (w_search lane ge chr) w_cx w_rq [r] = [r]"
    by (simp add: eligible_results_def is_deleted_in_store_def st f c)
  then show ?thesis by (simp add: finish_results_def final_top_k_def allows_id_def q w_search_def w_settings_def)
qed

lemma w_full: "\<exists>r. full_search (w_search lane ge chr) w_cx w_rq auth [] = Inr [r] \<and> hr_id r = ''x''"
proof -
  obtain r where r: "retrieve (w_search lane ge chr) w_cx w_rq [] = Inr [r]" "hr_id r = ''x''"
    using w_retrieve by blast
  obtain r' where r': "score_and_rank (w_search lane ge chr) w_cx w_rq auth [r] = [r']" "hr_id r' = ''x''"
    using w_ranked [of lane ge chr auth r] r(2) by auto
  show ?thesis using r(1) r' w_answer [OF r'(2)] by (auto simp: full_search_def)
qed

lemma w_handler: "\<exists>r. hr_id r = ''x'' \<and> search_handler (w_search lane ge chr) w_cx w_rq auth a es ts [] (Some 7) 0 id
    (new_cache default_query_cache_config) = (Inr (FullPipeline, [r]), cache_insert 0 7 [r] (new_cache default_query_cache_config))"
proof -
  obtain r where r: "full_search (w_search lane ge chr) w_cx w_rq auth [] = Inr [r]" "hr_id r = ''x''"
    using w_full by blast
  then show ?thesis
    by (simp add: search_handler_def tier1_lookup_def get_best_def is_valid_def insert_if_current_def new_cache_def
        w_search_def w_settings_def Let_def)
qed

theorem answers_confined_witness:
  "\<forall>ge chr. \<exists>r. fst (search_handler (w_search False ge chr) w_cx w_rq ''s'' False [] [] [] (Some 7) 0 id
      (new_cache default_query_cache_config)) = Inr (FullPipeline, [r]) \<and>
    (\<exists>c. fetch (w_store (w_chunk ''x'')) (hr_id r) = Some c \<and> ch_deleted_at c = None \<and> ch_stream c = ''s'' \<and> ch_is_latest c)"
proof (intro allI)
  fix ge chr
  obtain r where r: "fst (search_handler (w_search False ge chr) w_cx w_rq ''s'' False [] [] [] (Some 7) 0 id
      (new_cache default_query_cache_config)) = Inr (FullPipeline, [r])"
    using w_handler [of False ge chr "''s''" False "[]" "[]"] by auto
  have st: "ev_store (w_search False ge chr) = w_store (w_chunk ''x'')" by (simp add: w_search_def)
  have q: "qx_streams w_cx = Some [''s'']" "\<not> sq_include_superseded w_rq" by (simp_all add: w_cx_def w_rq_def)
  from answers_confined [OF _ r] r show "\<exists>r. fst (search_handler (w_search False ge chr) w_cx w_rq ''s'' False [] [] [] (Some 7) 0 id
      (new_cache default_query_cache_config)) = Inr (FullPipeline, [r]) \<and>
    (\<exists>c. fetch (w_store (w_chunk ''x'')) (hr_id r) = Some c \<and> ch_deleted_at c = None \<and> ch_stream c = ''s'' \<and> ch_is_latest c)"
    unfolding st by (auto simp: q)
qed

theorem answers_ranked_witness:
  "\<forall>ge chr. \<exists>r. full_search (w_search False ge chr) w_cx w_rq ''s'' [] = Inr [r] \<and>
     sorted_wrt (\<lambda>a b. hr_score b \<le> hr_score a) [r]"
proof (intro allI)
  fix ge chr
  obtain r where r: "full_search (w_search False ge chr) w_cx w_rq ''s'' [] = Inr [r]" using w_full by blast
  from answers_ranked [OF r] r show "\<exists>r. full_search (w_search False ge chr) w_cx w_rq ''s'' [] = Inr [r] \<and>
     sorted_wrt (\<lambda>a b. hr_score b \<le> hr_score a) [r]"
    by (auto simp: w_cx_def)
qed

theorem rare_terms_survive_fusion_witness:
  "\<forall>ge chr. \<exists>r. retrieve (w_search True ge chr) w_cx w_rq [] = Inr [r] \<and>
     (\<exists>x \<in> set (score_and_rank (w_search True ge chr) w_cx w_rq ''s'' [r]). hr_id x = ''x'')"
proof (intro allI)
  fix ge chr
  obtain r where r: "retrieve (w_search True ge chr) w_cx w_rq [] = Inr [r]" using w_retrieve by blast
  have lane: "rare_term_lane (w_search True ge chr) w_cx = Some [w_hit]"
    by (simp add: rare_term_lane_def rare_df_threshold_def sum_over_def lane_candidates_for_streams_def
        w_search_def w_settings_def w_cx_def sat_add64_def Let_def)
  have "allows_id (w_search True ge chr) w_cx (sh_id w_hit)" by (simp add: allows_id_def w_cx_def)
  from rare_terms_survive_fusion [OF lane r _ this] r
  show "\<exists>r. retrieve (w_search True ge chr) w_cx w_rq [] = Inr [r] \<and>
     (\<exists>x \<in> set (score_and_rank (w_search True ge chr) w_cx w_rq ''s'' [r]). hr_id x = ''x'')"
    by (auto simp: w_hit_def)
qed

theorem ranks_count_better_candidates_witness:
  "ranks_from_raw [1, 3, 3] [''a'', ''c'', ''b''] ! 0 = Some 3"
proof -
  have "{j. j < (3 :: nat) \<and> ((1 :: real) < [1, 3, 3] ! j \<or> [1, 3, 3] ! j = (1 :: real) \<and> [''a'', ''c'', ''b''] ! j < ''a'')} = {1, 2}"
    by (auto simp: less_Suc_eq numeral_eq_Suc)
  with ranks_count_better_candidates [of "[''a'', ''c'', ''b'']" "[1, 3, 3]" 0] show ?thesis by (simp add: numeral_eq_Suc)
qed

definition w_result :: "string \<Rightarrow> hybrid_result" where
  "w_result i = graph_result 1 1 (w_chunk i)"

theorem reranking_permutes_witness:
  "map hr_id (reranked_results [7, 1, 1] (rerank_slice_with_lane [w_result ''a'', w_result ''b''] 5 None 5)
     [w_result ''a'', w_result ''b''] 10) = [''b'', ''a''] \<and>
   mset (reranked_results [7, 1, 1] (rerank_slice_with_lane [w_result ''a'', w_result ''b''] 5 None 5)
     [w_result ''a'', w_result ''b''] 10) = mset [w_result ''a'', w_result ''b'']"
proof -
  have i: "hr_id (w_result i) = i" for i by (simp add: w_result_def graph_result_def w_chunk_def)
  have "map hr_id (reranked_results [7, 1, 1] (rerank_slice_with_lane [w_result ''a'', w_result ''b''] 5 None 5)
     [w_result ''a'', w_result ''b''] 10) = [''b'', ''a'']"
    by (simp add: reranked_results_def rerank_slice_with_lane_def i)
  moreover have "distinct (map hr_id [w_result ''a'', w_result ''b''])" by (simp add: i)
  from reranking_permutes [OF this, of "[7, 1, 1]" 5 None 5 10] have
    "mset (reranked_results [7, 1, 1] (rerank_slice_with_lane [w_result ''a'', w_result ''b''] 5 None 5)
     [w_result ''a'', w_result ''b''] 10) = mset [w_result ''a'', w_result ''b'']" by simp
  ultimately show ?thesis by blast
qed

theorem repeated_search_is_stricter_witness:
  "\<forall>ge chr. \<exists>r cache'. hr_id r = ''x'' \<and>
     fst (search_handler (w_search False ge chr) w_cx w_rq ''s'' False [] [] [] (Some 7) 1000 id cache') = Inr (FromCache False, [r])"
proof (intro allI)
  fix ge chr
  let ?c = "new_cache default_query_cache_config :: hybrid_result list query_cache"
  obtain r where r: "hr_id r = ''x''" "search_handler (w_search False ge chr) w_cx w_rq ''s'' False [] [] [] (Some 7) 0 id ?c =
      (Inr (FullPipeline, [r]), cache_insert 0 7 [r] ?c)"
    using w_handler [of False ge chr "''s''" False "[]" "[]"] by blast
  have "cache_ok ?c" by (simp add: cache_ok_def new_cache_def)
  moreover have "(1000 - 0) div 1000 < qc_ttl_secs (qc_config ?c)" by (simp add: new_cache_def default_query_cache_config_def)
  ultimately have "fst (search_handler (w_search False ge chr) w_cx w_rq ''s'' False [] [] [] (Some 7) 1000 id
      (cache_insert 0 7 [r] ?c)) = Inr (FromCache False, [r])"
    using repeated_search_is_stricter [OF _ r(2), of 1000 id] r(1)
    by (simp add: w_search_def w_fetch) (simp add: w_chunk_def)
  with r(1) show "\<exists>r cache'. hr_id r = ''x'' \<and>
     fst (search_handler (w_search False ge chr) w_cx w_rq ''s'' False [] [] [] (Some 7) 1000 id cache') = Inr (FromCache False, [r])"
    by blast
qed

end
