(* ===== verification/Versions.thy ===== *)
theory Versions
  imports HybridSearch AuditLog
begin

text \<open>
  Memory versions: contradiction screening, duplicate detection, the trust guard, the version chain and
  its history (\<^verbatim>\<open>loomem-core/src/contradiction.rs\<close>), the weakest-source rule of derived records
  (\<^verbatim>\<open>derived_safety.rs\<close>), and the replacing store of the MCP tool
  (\<^verbatim>\<open>loomem-server/src/mcp/dispatcher.rs\<close>: \<^verbatim>\<open>plan_supersede\<close>, \<^verbatim>\<open>reload_head\<close>,
  \<^verbatim>\<open>commit_supersede\<close>, \<^verbatim>\<open>unlink_replacement\<close>). The classifier is a language model: its answer is
  an argument, as are the embeddings and lowercasing. Similarities are real numbers.
\<close>

section \<open>Candidates\<close>

record contradiction_config =
  cc_enabled :: bool
  cc_similarity_threshold :: real
  cc_max_candidates :: nat

definition current_in :: "string \<Rightarrow> chunk \<Rightarrow> bool" where
  "current_in stream c \<longleftrightarrow> ch_stream c = stream \<and> ch_is_latest c \<and> ch_deleted_at c = None"

text \<open>Every embedding at or above the threshold whose chunk passes the test; a read error ends the loop.\<close>

fun screen :: "store \<Rightarrow> real list \<Rightarrow> real \<Rightarrow> (chunk \<Rightarrow> bool) \<Rightarrow> embedding list \<Rightarrow> (string \<times> chunk \<times> real) list res" where
  "screen st new threshold ok [] = Inr []"
| "screen st new threshold ok ((i, e) # es) =
     (let sim = cosine_similarity new e
      in if sim < threshold then screen st new threshold ok es
         else rbind (get_chunk st i) (\<lambda>co. rbind (screen st new threshold ok es) (\<lambda>rest.
                Inr (case co of Some c \<Rightarrow> if ok c then (i, c, sim) # rest else rest | None \<Rightarrow> rest))))"

definition ranked :: "(string \<times> chunk \<times> real) list \<Rightarrow> (chunk \<times> real) list" where
  "ranked cs = map snd (sort_desc (\<lambda>x. snd (snd x)) cs)"

definition find_candidates ::
  "store \<Rightarrow> embedding list res \<Rightarrow> real list \<Rightarrow> string \<Rightarrow> contradiction_config \<Rightarrow> (chunk \<times> real) list res" where
  "find_candidates st embs new stream cfg =
     rbind embs (\<lambda>es. rbind (screen st new (cc_similarity_threshold cfg) (current_in stream) es) (\<lambda>cs.
       Inr (take (cc_max_candidates cfg) (ranked cs))))"

definition subject_of :: "chunk \<Rightarrow> string option" where
  "subject_of c = Option.bind (ch_extraction_meta c) em_subject"

definition same_subject :: "(string \<Rightarrow> string) \<Rightarrow> string option \<Rightarrow> string option \<Rightarrow> bool" where
  "same_subject lower a b \<longleftrightarrow>
     (case (a, b) of (Some s, Some t) \<Rightarrow> lower s = lower t | (None, None) \<Rightarrow> True | _ \<Rightarrow> False)"

datatype dedup_result = NewFact | DuplicateOf string

fun best_match :: "(string \<times> chunk \<times> real) list \<Rightarrow> (string \<times> real) option \<Rightarrow> (string \<times> real) option" where
  "best_match [] best = best"
| "best_match ((i, c, sim) # cs) best =
     best_match cs (case best of None \<Rightarrow> Some (i, sim) | Some (j, s) \<Rightarrow> if s < sim then Some (i, sim) else best)"

text \<open>The access counter is a \<^verbatim>\<open>u32\<close> that wraps in release mode.\<close>

definition dedup_check ::
  "(string \<Rightarrow> string) \<Rightarrow> store \<Rightarrow> embedding list res \<Rightarrow> real list \<Rightarrow> string \<Rightarrow> string option \<Rightarrow> real \<Rightarrow> nat \<Rightarrow> string \<Rightarrow>
     (dedup_result \<times> store) res" where
  "dedup_check lower st embs new stream subject threshold now u =
     rbind embs (\<lambda>es.
     rbind (screen st new threshold (\<lambda>c. current_in stream c \<and> same_subject lower subject (subject_of c)) es) (\<lambda>cs.
       case best_match cs None of
         None \<Rightarrow> Inr (NewFact, st)
       | Some (i, _) \<Rightarrow>
           rbind (get_chunk st i) (\<lambda>co. case co of
             None \<Rightarrow> Inr (DuplicateOf i, st)
           | Some c \<Rightarrow>
               rbind (store_chunk st (c\<lparr>ch_access_count := (ch_access_count c + 1) mod (u32_max + 1),
                   ch_updated_at := Some now\<rparr>) u) (\<lambda>st'. Inr (DuplicateOf i, st')))))"

datatype contradiction_result = NoContradiction | Contradiction string | Refinement string

definition detect_contradiction ::
  "(string \<Rightarrow> string) \<Rightarrow> (string \<Rightarrow> string \<Rightarrow> string res) \<Rightarrow> store \<Rightarrow> embedding list res \<Rightarrow> real list \<Rightarrow> string \<Rightarrow> string \<Rightarrow>
     string \<Rightarrow> real \<Rightarrow> string option \<Rightarrow> contradiction_result res" where
  "detect_contradiction lower classify st embs new content fact_kind stream cosine_min subject =
     (if fact_kind = ''fact'' then Inr NoContradiction
      else rbind embs (\<lambda>es.
           rbind (screen st new cosine_min (\<lambda>c. current_in stream c \<and>
               (case (subject, subject_of c) of (Some s, Some t) \<Rightarrow> lower s = lower t | _ \<Rightarrow> True)) es) (\<lambda>cs.
             case take 3 (ranked cs) of
               [] \<Rightarrow> Inr NoContradiction
             | (best, _) # _ \<Rightarrow>
                 (case classify (ch_content best) content of
                    Inl _ \<Rightarrow> Inr NoContradiction
                  | Inr relation \<Rightarrow>
                      if relation = ''updates'' then Inr (Contradiction (ch_id best))
                      else if relation = ''extends'' then Inr (Refinement (ch_id best))
                      else Inr NoContradiction))))"

section \<open>Trust\<close>

definition trust_rank :: "string option \<Rightarrow> nat" where
  "trust_rank t =
     (let s = (case t of Some s \<Rightarrow> s | None \<Rightarrow> ''a1'')
      in if s = ''a1'' then 3 else if s = ''a2'' then 2 else if s = ''b'' then 1 else 0)"

definition derived_trust :: "chunk list \<Rightarrow> string" where
  "derived_trust sources =
     (let rank = (case map (\<lambda>c. trust_rank (ch_trust_level c)) sources of [] \<Rightarrow> 0 | r # rs \<Rightarrow> fold min rs r)
      in if rank = 0 then ''unknown'' else if rank = 1 then ''b'' else ''a2'')"

definition or_a1 :: "string option \<Rightarrow> string" where
  "or_a1 t = (case t of Some s \<Rightarrow> s | None \<Rightarrow> ''a1'')"

definition append_trust_guard_audit ::
  "audit_env \<Rightarrow> audit_state \<Rightarrow> chunk \<Rightarrow> string \<Rightarrow> string option \<Rightarrow> string \<Rightarrow> nat \<Rightarrow> audit_state" where
  "append_trust_guard_audit env s old new_id new_trust context now =
     snd (append_event env s (ch_stream old) (system_event ''trust_guard_blocked''
       (JObj [(''op'', JStr ''trust_guard_blocked''), (''old_chunk_id'', JStr (ch_id old)),
              (''old_trust'', JStr (or_a1 (ch_trust_level old))), (''new_chunk_id'', JStr new_id),
              (''new_trust'', JStr (or_a1 new_trust)), (''context'', JStr context)]) now))"

section \<open>Chains\<close>

definition root_of :: "chunk \<Rightarrow> string" where
  "root_of c = (case ch_root_memory_id c of Some r \<Rightarrow> r | None \<Rightarrow> ch_id c)"

definition link_successor :: "chunk \<Rightarrow> chunk \<Rightarrow> chunk" where
  "link_successor old new = new\<lparr>ch_supersedes_id := Some (ch_id old), ch_root_memory_id := Some (root_of old),
     ch_version := (ch_version old + 1) mod (u32_max + 1)\<rparr>"

definition apply_extend :: "chunk \<Rightarrow> chunk \<Rightarrow> chunk" where
  "apply_extend old new = new\<lparr>ch_root_memory_id := Some (root_of old)\<rparr>"

definition marked_superseded :: "chunk \<Rightarrow> string \<Rightarrow> nat \<Rightarrow> chunk" where
  "marked_superseded old new_id now =
     old\<lparr>ch_is_latest := False, ch_superseded_by := Some new_id, ch_updated_at := Some now\<rparr>"

definition try_supersede_with_guard ::
  "audit_env \<Rightarrow> audit_state \<Rightarrow> chunk \<Rightarrow> string \<Rightarrow> string option \<Rightarrow> string \<Rightarrow> (chunk \<Rightarrow> chunk) \<Rightarrow> nat \<Rightarrow> string \<Rightarrow>
     bool res \<times> audit_state" where
  "try_supersede_with_guard env s old new_id new_trust context extra now u =
     (if trust_rank new_trust < trust_rank (ch_trust_level old)
      then (Inr False, append_trust_guard_audit env s old new_id new_trust context now)
      else case store_chunk (as_store s) (extra (marked_superseded old new_id now)) u of
             Inl e \<Rightarrow> (Inl e, s)
           | Inr st \<Rightarrow> (Inr True, s\<lparr>as_store := st\<rparr>))"

definition apply_supersede ::
  "audit_env \<Rightarrow> audit_state \<Rightarrow> chunk \<Rightarrow> chunk \<Rightarrow> nat \<Rightarrow> string \<Rightarrow> chunk res \<times> audit_state" where
  "apply_supersede env s old new now u =
     (if trust_rank (ch_trust_level new) < trust_rank (ch_trust_level old)
      then (Inr new, append_trust_guard_audit env s old (ch_id new) (ch_trust_level new) ''contradiction'' now)
      else case store_chunk (as_store s) (marked_superseded old (ch_id new) now) u of
             Inl e \<Rightarrow> (Inl e, s)
           | Inr st \<Rightarrow> (Inr (link_successor old new), s\<lparr>as_store := st\<rparr>))"

section \<open>History\<close>

text \<open>One direction of the walk: follow \<open>next\<close>, skip deleted versions, stop at the limit or on a cycle.\<close>

definition stored_ids :: "store \<Rightarrow> string set" where
  "stored_ids st = {i. is_chunk st i}"

lemma finite_stored_ids: "finite (stored_ids st)"
proof -
  have "stored_ids st \<subseteq> (\<Union>lv \<in> {0, 1, 2}. (\<lambda>i. chunk_key lv i) -` (fst ` set (st_db st)))"
  proof
    fix i assume "i \<in> stored_ids st"
    then obtain lv where lv: "lv \<in> {0, 1, 2}" "kv_get (st_db st) (chunk_key lv i) \<noteq> None"
      unfolding stored_ids_def is_chunk_def by blast
    then have "chunk_key lv i \<in> fst ` set (st_db st)" by (simp add: map_of_eq_None_iff)
    with lv(1) show "i \<in> (\<Union>lv \<in> {0, 1, 2}. (\<lambda>i. chunk_key lv i) -` (fst ` set (st_db st)))" by blast
  qed
  moreover have "finite ((\<lambda>i. chunk_key lv i) -` (fst ` set (st_db st)))" for lv
    by (rule finite_vimageI) (auto intro: injI)
  ultimately show ?thesis by (meson finite.emptyI finite_UN finite_insert finite_subset)
qed

lemma get_chunk_stored: "get_chunk st i = Inr (Some c) \<Longrightarrow> i \<in> stored_ids st"
  by (auto simp: get_chunk_def stored_ids_def is_chunk_def split: option.splits)

function walk ::
  "store \<Rightarrow> (chunk \<Rightarrow> string option) \<Rightarrow> nat \<Rightarrow> string option \<Rightarrow> string set \<Rightarrow> nat \<Rightarrow> (chunk list \<times> string set) res" where
  "walk st next limit None visited n = Inr ([], visited)"
| "walk st next limit (Some i) visited n =
     (if limit \<le> n then Inr ([], visited)
      else if i \<in> visited then Inr ([], visited)
      else case get_chunk st i of
             Inl e \<Rightarrow> Inl e
           | Inr None \<Rightarrow> Inr ([], insert i visited)
           | Inr (Some c) \<Rightarrow>
               (case walk st next limit (next c) (insert i visited) (if ch_deleted_at c = None then n + 1 else n) of
                  Inl e \<Rightarrow> Inl e
                | Inr (cs, v) \<Rightarrow> Inr (if ch_deleted_at c = None then c # cs else cs, v)))"
  by pat_completeness auto
termination
proof (relation "measure (\<lambda>(st, next, limit, i, visited, n). card (stored_ids st - visited))")
  fix st :: store and "next" :: "chunk \<Rightarrow> string option" and limit i visited n x2 c
  assume "i \<notin> visited" "get_chunk st i = Inr x2" "x2 = Some c"
  then have "i \<in> stored_ids st - visited" using get_chunk_stored by simp
  then have "card (stored_ids st - insert i visited) < card (stored_ids st - visited)"
    using finite_stored_ids [of st] by (intro psubset_card_mono) auto
  then show "((st, next, limit, next c, insert i visited, if ch_deleted_at c = None then n + 1 else n), st, next, limit, Some i, visited, n)
      \<in> measure (\<lambda>(st, next, limit, i, visited, n). card (stored_ids st - visited))"
    by simp
qed simp

definition get_memory_chain :: "store \<Rightarrow> string \<Rightarrow> nat \<Rightarrow> chunk list res" where
  "get_memory_chain st i limit =
     (if limit = 0 then Inr []
      else rbind (get_chunk st i) (\<lambda>qo. case qo of
        None \<Rightarrow> Inr []
      | Some q \<Rightarrow>
          (let own = (if ch_deleted_at q = None then [q] else [])
           in rbind (walk st ch_supersedes_id limit (ch_supersedes_id q) {ch_id q} (length own)) (\<lambda>(older, visited).
              rbind (walk st ch_superseded_by limit (ch_superseded_by q) visited (length own + length older)) (\<lambda>(newer, _).
                Inr (rev older @ own @ newer))))))"

section \<open>A store that replaces a memory\<close>

datatype supersede_note = Linked | RefusedByTrust | NotLinked bool

record supersede_plan =
  sp_old_id :: string
  sp_new_trust :: "string option"

definition plan_supersede :: "store \<Rightarrow> string \<Rightarrow> string \<Rightarrow> chunk \<Rightarrow> (chunk \<times> supersede_plan) res" where
  "plan_supersede st old_id stream new =
     (case get_chunk st old_id of
        Inl e \<Rightarrow> Inl (Err (''supersedes: lookup of '' @ old_id @ '' failed''))
      | Inr co \<Rightarrow>
          (case co of
             None \<Rightarrow> Inl (Err (''supersedes: memory '' @ old_id @ '' not found in this stream.''))
           | Some old \<Rightarrow>
               if ch_deleted_at old \<noteq> None \<or> ch_stream old \<noteq> stream
               then Inl (Err (''supersedes: memory '' @ old_id @ '' not found in this stream.''))
               else if \<not> ch_is_latest old \<or> ch_superseded_by old \<noteq> None
               then Inl (Err (''supersedes: memory '' @ old_id @ '' already has a newer version''))
               else Inr (if trust_rank (ch_trust_level new) < trust_rank (ch_trust_level old) then new
                         else link_successor old new,
                         \<lparr>sp_old_id = ch_id old, sp_new_trust = ch_trust_level new\<rparr>)))"

definition reload_head :: "store \<Rightarrow> string \<Rightarrow> chunk res" where
  "reload_head st old_id =
     rbind (get_chunk st old_id) (\<lambda>co. case co of
       None \<Rightarrow> Inl (Err (old_id @ '' vanished while storing''))
     | Some c \<Rightarrow>
         if ch_deleted_at c = None \<and> ch_is_latest c \<and> ch_superseded_by c = None then Inr c
         else Inl (Err (old_id @ '' changed while storing'')))"

text \<open>The flag says whether the replacement was detached.\<close>

definition unlink_replacement :: "audit_state \<Rightarrow> string \<Rightarrow> string \<Rightarrow> bool \<times> audit_state" where
  "unlink_replacement s new_id u =
     (case get_chunk (as_store s) new_id of
        Inr (Some c) \<Rightarrow>
          (case store_chunk (as_store s) (c\<lparr>ch_supersedes_id := None, ch_root_memory_id := None, ch_version := 1\<rparr>) u of
             Inl e \<Rightarrow> (False, s)
           | Inr st \<Rightarrow> (True, s\<lparr>as_store := st\<rparr>))
      | _ \<Rightarrow> (False, s))"

definition commit_supersede ::
  "audit_env \<Rightarrow> audit_state \<Rightarrow> supersede_plan \<Rightarrow> string \<Rightarrow> nat \<Rightarrow> string \<Rightarrow> supersede_note \<times> audit_state" where
  "commit_supersede env s plan new_id now u =
     (case reload_head (as_store s) (sp_old_id plan) of
        Inl e \<Rightarrow> (let (detached, s') = unlink_replacement s new_id u in (NotLinked detached, s'))
      | Inr old \<Rightarrow>
          (case try_supersede_with_guard env s old new_id (sp_new_trust plan) ''memory_store'' id now u of
             (Inr True, s') \<Rightarrow> (Linked, s')
           | (Inr False, s') \<Rightarrow> (RefusedByTrust, s')
           | (Inl e, s') \<Rightarrow> (let (detached, s'') = unlink_replacement s' new_id u in (NotLinked detached, s''))))"

text \<open>
  The tool call: plan, store, flip. \<open>persist\<close> is the store of the replacement with whatever other
  callers do meanwhile; its failure ends the call.
\<close>

definition store_replacing ::
  "audit_env \<Rightarrow> (chunk \<Rightarrow> audit_state \<Rightarrow> string res \<times> audit_state) \<Rightarrow> audit_state \<Rightarrow> string \<Rightarrow> string \<Rightarrow> chunk \<Rightarrow>
     nat \<Rightarrow> string \<Rightarrow> (string \<times> supersede_note) res \<times> audit_state" where
  "store_replacing env persist s old_id stream new now u =
     (case plan_supersede (as_store s) old_id stream new of
        Inl e \<Rightarrow> (Inl e, s)
      | Inr (planned, plan) \<Rightarrow>
          (case persist planned s of
             (Inl e, s1) \<Rightarrow> (Inl e, s1)
           | (Inr new_id, s1) \<Rightarrow>
               (let (note, s2) = commit_supersede env s1 plan new_id now u in (Inr (new_id, note), s2))))"

end
