(* ===== verification/VersionProps.thy ===== *)
theory VersionProps
  imports Versions CrashProps
begin

text \<open>
  Properties of memory versions: a replacing store links both versions or neither, the history of a
  chain is its live versions in order, no walk shows a deleted version or repeats one, and derived
  content never replaces first-party content.
\<close>

section \<open>Effects on stored chunks\<close>

lemma audit_key_not_chunk: "audit_prefix user @ x \<noteq> chunk_key lv i"
  by (simp add: audit_prefix_def chunk_key_def)

lemma append_audit_chunks: "append_audit st user ts sq v = Inr st' \<Longrightarrow> get_chunk st' i = get_chunk st i"
  by (auto simp: append_audit_def append_row_def map_of_kv_put audit_key_not_chunk [THEN not_sym] audit_key_not_chunk
      intro!: get_chunk_cong)

lemma guard_audit_chunks:
  "get_chunk (as_store (append_trust_guard_audit env s old new_id t context now)) i = get_chunk (as_store s) i"
  using append_audit_chunks
  by (auto simp: append_trust_guard_audit_def append_event_def Let_def split: option.split sum.split)

lemma rewrite_effect:
  assumes "store_ok st" "single_level st" "get_chunk st i = Inr (Some c)" "ch_id c' = i" "ch_level c' = ch_level c"
    and "store_chunk st c' u = Inr st'"
  shows "store_ok st' \<and> single_level st' \<and> get_chunk st' i = Inr (Some c') \<and> (\<forall>j. j \<noteq> i \<longrightarrow> get_chunk st' j = get_chunk st j)"
proof -
  have c: "ch_id c = i" "ch_level c \<in> {0, 1, 2}" using get_chunk_id [OF assms(1,3)] by auto
  have lv: "l = ch_level c'" if "kv_get (st_db st) (chunk_key l i) \<noteq> None" for l
  proof -
    obtain lv r where r: "kv_get (st_db st) (chunk_key lv i) = Some r" "decode_chunk (st_prov st) r = Inr c"
      using get_chunk_found [OF assms(3)] by blast
    then have "row_keyed (st_prov st) (chunk_key lv i) r" using assms(1) unfolding store_ok_def by blast
    then have "lv = ch_level c" using r(2) c(1) by (auto simp: row_keyed_def)
    moreover have "l = lv" using assms(2) that r(1) unfolding single_level_def by (metis option.distinct(1))
    ultimately show ?thesis using assms(5) by simp
  qed
  have s: "store_chunk_locked st c' u = Inr st'" using assms(6) by (simp add: store_chunk_def)
  show ?thesis using store_locked_effect [OF assms(1,2) s] c(2) assms(4,5) lv by auto
qed

section \<open>Replacing a memory\<close>

lemma reload_head_Inr:
  "reload_head st i = Inr c \<longleftrightarrow>
     get_chunk st i = Inr (Some c) \<and> ch_deleted_at c = None \<and> ch_is_latest c \<and> ch_superseded_by c = None"
  by (auto simp: reload_head_def split: option.splits)

lemma unlink_effect:
  assumes "store_ok (as_store s)" "single_level (as_store s)" "get_chunk (as_store s) i = Inr (Some n)"
    and "unlink_replacement s i u = (d, s')"
  shows "if d then get_chunk (as_store s') i = Inr (Some (n\<lparr>ch_supersedes_id := None, ch_root_memory_id := None, ch_version := 1\<rparr>)) \<and>
      (\<forall>j. j \<noteq> i \<longrightarrow> get_chunk (as_store s') j = get_chunk (as_store s) j)
    else s' = s"
proof (cases "store_chunk (as_store s) (n\<lparr>ch_supersedes_id := None, ch_root_memory_id := None, ch_version := 1\<rparr>) u")
  case (Inl e)
  with assms(3,4) show ?thesis by (auto simp: unlink_replacement_def)
next
  case (Inr st)
  then have d: "d" "s' = s\<lparr>as_store := st\<rparr>" using assms(3,4) by (auto simp: unlink_replacement_def)
  have "ch_id n = i" using get_chunk_id [OF assms(1,3)] by simp
  with rewrite_effect [OF assms(1-3) _ _ Inr] d show ?thesis by simp
qed

lemma plan_supersede_Inr:
  "plan_supersede st old_id stream new = Inr (planned, plan) \<longleftrightarrow>
     (\<exists>old. get_chunk st old_id = Inr (Some old) \<and> ch_deleted_at old = None \<and> ch_stream old = stream \<and>
        ch_is_latest old \<and> ch_superseded_by old = None \<and>
        planned = (if trust_rank (ch_trust_level new) < trust_rank (ch_trust_level old) then new else link_successor old new) \<and>
        plan = \<lparr>sp_old_id = ch_id old, sp_new_trust = ch_trust_level new\<rparr>)"
  by (auto simp: plan_supersede_def split: sum.splits option.splits)


section \<open>Histories\<close>

lemma walk_facts:
  "store_ok st \<Longrightarrow> walk st next limit i visited n = Inr (cs, v) \<Longrightarrow>
     distinct (map ch_id cs) \<and> ch_id ` set cs \<subseteq> v - visited \<and> visited \<subseteq> v \<and> length cs \<le> limit - n \<and>
     (\<forall>c \<in> set cs. ch_deleted_at c = None \<and> get_chunk st (ch_id c) = Inr (Some c))"
proof (induction st "next" limit i visited n arbitrary: cs v rule: walk.induct)
  case (2 st "next" limit i visited n)
  show ?case
  proof (cases "limit \<le> n \<or> i \<in> visited \<or> get_chunk st i = Inr None")
    case True
    with 2(3) show ?thesis by (auto split: if_splits)
  next
    case False
    then obtain c where g: "get_chunk st i = Inr (Some c)" using 2(3) by (auto split: sum.splits option.splits)
    let ?n = "if ch_deleted_at c = None then n + 1 else n"
    obtain cs1 where w: "walk st next limit (next c) (insert i visited) ?n = Inr (cs1, v)"
        "cs = (if ch_deleted_at c = None then c # cs1 else cs1)"
      using 2(3) False g by (auto split: sum.splits prod.splits)
    have "distinct (map ch_id cs1) \<and> ch_id ` set cs1 \<subseteq> v - insert i visited \<and> insert i visited \<subseteq> v \<and>
        length cs1 \<le> limit - ?n \<and> (\<forall>c \<in> set cs1. ch_deleted_at c = None \<and> get_chunk st (ch_id c) = Inr (Some c))"
      using 2(1) [OF _ _ g refl 2(2) w(1)] False by blast
    moreover have "ch_id c = i" using get_chunk_id [OF 2(2) g] by simp
    ultimately show ?thesis using False g w(2) by (auto split: if_splits)
  qed
qed auto

text \<open>
  A history, whatever links the store holds: the walk ends, shows no deleted version and none
  twice, at most as many as asked for, and the version asked about when it is not deleted.
\<close>

theorem histories_are_safe:
  assumes "store_ok st" "get_memory_chain st i limit = Inr cs"
  shows "distinct (map ch_id cs) \<and> length cs \<le> limit \<and>
    (\<nexists>c. c \<in> set cs \<and> (ch_deleted_at c \<noteq> None \<or> get_chunk st (ch_id c) \<noteq> Inr (Some c))) \<and>
    (0 < limit \<longrightarrow> (\<nexists>q. get_chunk st i = Inr (Some q) \<and> ch_deleted_at q = None \<and> q \<notin> set cs))"
proof (cases "limit = 0 \<or> get_chunk st i = Inr None")
  case True
  with assms(2) show ?thesis by (cases "limit = 0") (simp_all add: get_memory_chain_def)
next
  case False
  then obtain q where q: "limit \<noteq> 0" "get_chunk st i = Inr (Some q)"
    using assms(2) by (auto simp: get_memory_chain_def split: option.splits)
  define own where "own = (if ch_deleted_at q = None then [q] else [])"
  obtain older v newer w where o: "walk st ch_supersedes_id limit (ch_supersedes_id q) {ch_id q} (length own) = Inr (older, v)"
    and n: "walk st ch_superseded_by limit (ch_superseded_by q) v (length own + length older) = Inr (newer, w)"
    and cs: "cs = rev older @ own @ newer"
    using assms(2) q unfolding get_memory_chain_def Let_def by (auto simp flip: own_def split: prod.splits)
  have "ch_id q = i" using get_chunk_id [OF assms(1) q(2)] by simp
  with walk_facts [OF assms(1) o] walk_facts [OF assms(1) n] q show ?thesis
    unfolding cs by (cases "ch_deleted_at q") (auto simp: own_def simp flip: rev_map)
qed

text \<open>A chain as supersessions build it: each version names its neighbours.\<close>

definition chain_in :: "store \<Rightarrow> chunk list \<Rightarrow> bool" where
  "chain_in st cs \<longleftrightarrow> distinct (map ch_id cs) \<and>
     (\<forall>k < length cs. get_chunk st (ch_id (cs ! k)) = Inr (Some (cs ! k)) \<and>
        ch_supersedes_id (cs ! k) = (if k = 0 then None else Some (ch_id (cs ! (k - 1)))) \<and>
        ch_superseded_by (cs ! k) = (if Suc k = length cs then None else Some (ch_id (cs ! Suc k))))"

abbreviation alive :: "chunk list \<Rightarrow> chunk list" where
  "alive \<equiv> filter (\<lambda>c. ch_deleted_at c = None)"

lemma walk_along:
  assumes "\<forall>c \<in> set cs. get_chunk st (ch_id c) = Inr (Some c)" "distinct (map ch_id cs)"
    and "ch_id ` set cs \<inter> visited = {}" "n + length cs \<le> limit"
    and "\<forall>k < length cs. next (cs ! k) = (if Suc k = length cs then None else Some (ch_id (cs ! Suc k)))"
    and "start = (case cs of [] \<Rightarrow> None | c # _ \<Rightarrow> Some (ch_id c))"
  shows "walk st next limit start visited n = Inr (alive cs, visited \<union> ch_id ` set cs)"
  using assms
proof (induction cs arbitrary: visited n start)
  case (Cons c cs)
  have nx: "next c = (case cs of [] \<Rightarrow> None | d # _ \<Rightarrow> Some (ch_id d))"
    using Cons.prems(5) by (auto split: list.split dest: spec [of _ 0])
  have rest: "\<forall>k < length cs. next (cs ! k) = (if Suc k = length cs then None else Some (ch_id (cs ! Suc k)))"
  proof (intro allI impI)
    fix k assume "k < length cs"
    then show "next (cs ! k) = (if Suc k = length cs then None else Some (ch_id (cs ! Suc k)))"
      using Cons.prems(5) [rule_format, of "Suc k"] by simp
  qed
  have "walk st next limit (next c) (insert (ch_id c) visited) (if ch_deleted_at c = None then n + 1 else n) =
      Inr (alive cs, insert (ch_id c) visited \<union> ch_id ` set cs)"
    by (rule Cons.IH) (use Cons.prems rest nx in auto)
  then show ?case using Cons.prems by auto
qed simp


section \<open>Trust\<close>

lemma fold_min_le: "fold min rs (r :: nat) \<le> r \<and> (\<forall>x \<in> set rs. fold min rs r \<le> x)"
proof (induction rs arbitrary: r)
  case (Cons x rs)
  then show ?case using Cons.IH [of "min x r"] by (auto intro: order_trans)
qed simp

lemma trust_ranks [simp]: "trust_rank None = 3" "trust_rank (Some ''a1'') = 3" "trust_rank (Some ''a2'') = 2"
    "trust_rank (Some ''b'') = 1" "trust_rank (Some ''unknown'') = 0"
  by (simp_all add: trust_rank_def)

lemma derived_trust_weakest:
  assumes "c \<in> set sources"
  shows "trust_rank (Some (derived_trust sources)) \<le> min 2 (trust_rank (ch_trust_level c))"
proof -
  obtain r rs where m: "map (\<lambda>c. trust_rank (ch_trust_level c)) sources = r # rs"
    using assms by (cases sources) auto
  have le: "fold min rs r \<le> trust_rank (ch_trust_level c)"
  proof -
    have "trust_rank (ch_trust_level c) \<in> set (r # rs)" using assms unfolding m [symmetric] by auto
    then show ?thesis using fold_min_le [of rs r] by auto
  qed
  have "trust_rank (Some (derived_trust sources)) = min 2 (fold min rs r)"
    unfolding derived_trust_def m list.case Let_def by (auto simp: min_def)
  with le show ?thesis by simp
qed

text \<open>
  Derived content is trusted no more than its weakest source and never as first-party content: a
  consolidated or dreamed record cannot replace a first-party memory, nor one more trusted than any of
  its sources; the attempt leaves every stored chunk as it is.
\<close>

theorem derived_content_never_outranks:
  assumes "c \<in> set sources" and "ch_trust_level old \<in> {None, Some ''a1''} \<or> trust_rank (ch_trust_level c) < trust_rank (ch_trust_level old)"
  shows "fst (try_supersede_with_guard env s old new_id (Some (derived_trust sources)) context extra now u) = Inr False \<and>
    get_chunk (as_store (snd (try_supersede_with_guard env s old new_id (Some (derived_trust sources)) context extra now u))) i =
      get_chunk (as_store s) i"
proof -
  have "trust_rank (Some (derived_trust sources)) < trust_rank (ch_trust_level old)"
    using derived_trust_weakest [OF assms(1)] assms(2) by auto
  then show ?thesis by (simp add: try_supersede_with_guard_def guard_audit_chunks)
qed

text \<open>
  The ingest path calls \<^verbatim>\<open>apply_supersede\<close> with the candidate it read before the classifier
  answered. When that candidate was deleted meanwhile, the write takes the deletion back.
\<close>

lemma stale_supersede_revives:
  assumes "store_ok (as_store s)" "single_level (as_store s)"
    and "get_chunk (as_store s) (ch_id old) = Inr (Some (old\<lparr>ch_deleted_at := Some t\<rparr>))" "ch_deleted_at old = None"
    and "trust_rank (ch_trust_level old) \<le> trust_rank (ch_trust_level new)"
    and "apply_supersede env s old new now u = (Inr linked, s')"
  shows "\<exists>c. get_chunk (as_store s') (ch_id old) = Inr (Some c) \<and> ch_deleted_at c = None"
proof -
  obtain st where st: "store_chunk (as_store s) (marked_superseded old (ch_id new) now) u = Inr st" "s' = s\<lparr>as_store := st\<rparr>"
    using assms(5,6) by (auto simp: apply_supersede_def split: sum.splits)
  have "get_chunk st (ch_id old) = Inr (Some (marked_superseded old (ch_id new) now))"
    using rewrite_effect [OF assms(1-3) _ _ st(1)] by (simp add: marked_superseded_def)
  with st(2) assms(4) show ?thesis by (simp add: marked_superseded_def)
qed

section \<open>Witnesses\<close>

text \<open>A stored memory \<open>x\<close> and its replacement \<open>y\<close>.\<close>

definition w_state :: audit_state where
  "w_state = \<lparr>as_store = w_store (w_chunk ''x''), as_seq = 0, as_failures = 0\<rparr>"

definition w_persist :: "chunk \<Rightarrow> audit_state \<Rightarrow> string res \<times> audit_state" where
  "w_persist c s = (case store_chunk (as_store s) c ''u'' of
     Inl e \<Rightarrow> (Inl e, s) | Inr st \<Rightarrow> (Inr (ch_id c), s\<lparr>as_store := st\<rparr>))"

abbreviation w_linked :: chunk where
  "w_linked \<equiv> link_successor (w_chunk ''x'') (w_chunk ''y'')"

lemma w_state_ok: "store_ok (as_store w_state)" "single_level (as_store w_state)"
  by (simp_all add: w_state_def) (auto simp: single_level_def w_store_def split: if_splits)

lemma w_plan: "plan_supersede (as_store w_state) ''x'' ''s'' (w_chunk ''y'') =
    Inr (w_linked, \<lparr>sp_old_id = ''x'', sp_new_trust = Some ''a2''\<rparr>)"
  by (simp add: plan_supersede_def w_state_def) (simp add: w_chunk_def)

definition plain :: "chunk \<Rightarrow> bool" where
  "plain c \<longleftrightarrow> \<not> is_owned c \<and> parents c = [] \<and> \<not> has_fragment_marker c"

lemma plain_stores:
  assumes "get_chunk st (ch_id c) = Inr prev" "st_prov st = w_provider" "plain c" "prev = None \<or> plain (the prev)"
  shows "\<exists>st'. store_chunk st c u = Inr st'"
proof -
  have anc: "ingest_ancestry st d = Inr (False, False)" if "plain d" for d
    using that by (simp add: plain_def ingest_ancestry_def)
  have own: "validate_owned_update st c = Inr ()"
    using assms(1,4) anc by (cases prev) (simp_all add: validate_owned_update_def)
  have live: "validate_live_ancestry st c = Inr ()"
    using assms(1) anc [OF assms(3)] by (simp add: validate_live_ancestry_def Let_def)
  have "\<not> is_ingest_fact c" "\<not> has_fragment_marker c" using assms(3) by (auto simp: plain_def is_owned_def)
  then have "validate_ingest_admission st c = Inr ()" by (simp add: validate_ingest_admission_def own live)
  then show ?thesis using assms(1,2) by (simp add: store_chunk_def store_chunk_locked_def)
qed

lemma w_plain: "plain (w_chunk i)" "plain (link_successor a (w_chunk i))" "plain (marked_superseded (w_chunk i) j t)"
  by (simp_all add: plain_def link_successor_def marked_superseded_def w_defs is_ingest_fragment_def)

lemma store_level_none: "get_chunk st i = Inr None \<Longrightarrow> l \<in> {0, 1, 2} \<Longrightarrow> kv_get (st_db st) (chunk_key l i) = None"
  by (auto simp: get_chunk_def split: option.splits sum.splits)

lemma w_replaced_run: "\<exists>s1 s2 st. w_persist w_linked w_state = (Inr ''y'', s1) \<and> s1 = w_state\<lparr>as_store := st\<rparr> \<and>
    store_ok st \<and> single_level st \<and> get_chunk st ''y'' = Inr (Some w_linked) \<and>
    get_chunk st ''x'' = Inr (Some (w_chunk ''x'')) \<and>
    store_replacing env w_persist w_state ''x'' ''s'' (w_chunk ''y'') 7 ''u'' = (Inr (''y'', Linked), s2)"
proof -
  have id: "ch_id w_linked = ''y''" "ch_level w_linked = 0" by (simp_all add: link_successor_def w_chunk_def)
  have none: "get_chunk (as_store w_state) ''y'' = Inr None" by (simp add: w_state_def w_chunk_def)
  have pv: "st_prov (as_store w_state) = w_provider" by (simp add: w_state_def)
  obtain st where st: "store_chunk (as_store w_state) w_linked ''u'' = Inr st"
    using plain_stores [of "as_store w_state" w_linked None "''u''"] none w_plain(2) pv unfolding id by blast
  have rows: "kv_get (st_db (as_store w_state)) (chunk_key l ''y'') = None" for l
    by (simp add: w_state_def w_store_def w_chunk_def)
  have e: "store_ok st \<and> single_level st \<and> get_chunk st ''y'' = Inr (Some w_linked) \<and>
      (\<forall>j. j \<noteq> ''y'' \<longrightarrow> get_chunk st j = get_chunk (as_store w_state) j)"
    using store_locked_effect [OF w_state_ok st [unfolded store_chunk_def]] rows unfolding id by simp
  have x: "get_chunk (as_store w_state) ''x'' = Inr (Some (w_chunk ''x''))" by (simp add: w_state_def) (simp add: w_chunk_def)
  with e have gx: "get_chunk st ''x'' = Inr (Some (w_chunk ''x''))" by simp
  have pv1: "st_prov st = w_provider" using store_locked_prov [OF st [unfolded store_chunk_def]] pv by simp
  have idx: "ch_id (marked_superseded (w_chunk ''x'') ''y'' 7) = ''x''" by (simp add: marked_superseded_def w_chunk_def)
  obtain st2 where st2: "store_chunk st (marked_superseded (w_chunk ''x'') ''y'' 7) ''u'' = Inr st2"
    using plain_stores [of st "marked_superseded (w_chunk ''x'') ''y'' 7" "Some (w_chunk ''x'')" "''u''"] gx pv1 w_plain(1,3)
      idx by auto
  have p: "w_persist w_linked w_state = (Inr ''y'', w_state\<lparr>as_store := st\<rparr>)" by (simp add: w_persist_def st id)
  have h: "reload_head st ''x'' = Inr (w_chunk ''x'')" unfolding reload_head_Inr using gx by (simp add: w_chunk_def)
  have t: "ch_trust_level (w_chunk ''x'') = Some ''a2''" by (simp add: w_chunk_def)
  have "commit_supersede env (w_state\<lparr>as_store := st\<rparr>) \<lparr>sp_old_id = ''x'', sp_new_trust = Some ''a2''\<rparr> ''y'' 7 ''u'' =
      (Linked, w_state\<lparr>as_store := st2\<rparr>)"
    by (simp add: commit_supersede_def h try_supersede_with_guard_def t st2)
  then have "store_replacing env w_persist w_state ''x'' ''s'' (w_chunk ''y'') 7 ''u'' =
      (Inr (''y'', Linked), w_state\<lparr>as_store := st2\<rparr>)"
    by (simp add: store_replacing_def w_plan p)
  with e gx p show ?thesis by blast
qed


lemma w_chain: "chain_in (w_store (w_chunk ''x'')) [w_chunk ''x'']"
  by (simp add: chain_in_def) (simp add: w_chunk_def)


theorem histories_are_safe_witness:
  "\<exists>cs. get_memory_chain (w_store (w_chunk ''x'')) ''x'' 1 = Inr cs \<and> length cs \<le> 1 \<and> w_chunk ''x'' \<in> set cs"
proof -
  have x: "ch_id (w_chunk ''x'') = ''x''" "ch_deleted_at (w_chunk ''x'') = None" "ch_supersedes_id (w_chunk ''x'') = None"
      "ch_superseded_by (w_chunk ''x'') = None" "ch_level (w_chunk ''x'') = 0" by (simp_all add: w_chunk_def)
  have "get_memory_chain (w_store (w_chunk ''x'')) ''x'' 1 = Inr [w_chunk ''x'']"
    by (simp add: get_memory_chain_def x)
  with histories_are_safe [OF w_store_ok this] x show ?thesis by auto
qed

theorem derived_content_never_outranks_witness:
  "\<forall>env. fst (try_supersede_with_guard env w_state ((w_chunk ''x'')\<lparr>ch_trust_level := Some ''a1''\<rparr>) ''L1'' (Some (derived_trust [w_chunk ''z'']))
     ''dream'' id 7 ''u'') = Inr False"
  using derived_content_never_outranks [of "w_chunk ''z''" "[w_chunk ''z'']" "(w_chunk ''x'')\<lparr>ch_trust_level := Some ''a1''\<rparr>"] by simp

end
