(* ===== verification/Consolidation.thy ===== *)
theory Consolidation
  imports Versions Recovery StoreOps
begin

text \<open>
  The two workers that age memories: decay (\<^verbatim>\<open>loomem-core/src/decay.rs\<close>) and the consolidation of
  L0 chunks into L1 summaries (\<^verbatim>\<open>consolidation.rs\<close>). The language model, the embedder, the PII
  filter, the structured-answer parser, \<^verbatim>\<open>f64::powf\<close> and the entity side outputs are arguments.
  Consolidation awaits three times per group: at each await other callers may change the engine, and
  the scheduler's timeout may drop the future there, which runs the lease guard and nothing else. A
  \<^verbatim>\<open>HashMap\<close> of streams lists them in the order of their first chunk here.
\<close>

section \<open>Decay\<close>

record decay_worker_config =
  dw_l0_factor :: rat
  dw_l1_factor :: rat
  dw_dormant_threshold :: rat
  dw_adaptive_enabled :: bool
  dw_adaptive_dampening :: rat
  dw_adaptive_cap :: nat
  dw_persistent_auto_threshold :: nat
  dw_persistent_auto_enabled :: bool

record decay_report =
  dr_decayed :: nat
  dr_dormant :: nat
  dr_errors :: nat

text \<open>With a cap of zero the code divides zero by zero, and the minimum with a NaN is the other operand.\<close>

definition decay_factor :: "decay_worker_config \<Rightarrow> chunk \<Rightarrow> rat" where
  "decay_factor cfg c =
     (let base = (if ch_level c = 0 then dw_l0_factor cfg else dw_l1_factor cfg)
      in if dw_adaptive_enabled cfg \<and> 0 < ch_access_count c
         then (if dw_adaptive_cap cfg = 0 then 9999 / 10000 else min (base + dw_adaptive_dampening cfg *
                (of_nat (min (ch_access_count c) (dw_adaptive_cap cfg)) / of_nat (dw_adaptive_cap cfg)) * (1 - base))
                (9999 / 10000))
         else base)"

definition decay_since :: "chunk \<Rightarrow> nat" where
  "decay_since c = (case ch_last_decay c of Some t \<Rightarrow> t | None \<Rightarrow> ch_timestamp c)"

definition compute_new_score :: "(rat \<Rightarrow> rat \<Rightarrow> rat) \<Rightarrow> decay_worker_config \<Rightarrow> chunk \<Rightarrow> nat \<Rightarrow> rat" where
  "compute_new_score powf cfg c now =
     ch_score c * powf (decay_factor cfg c) (of_nat (wrapping_sub64 now (decay_since c)) / 3600)"

definition apply_score :: "store \<Rightarrow> chunk \<Rightarrow> rat \<Rightarrow> nat \<Rightarrow> rat \<Rightarrow> string \<Rightarrow> decay_report \<Rightarrow> decay_report \<times> store" where
  "apply_score st c new_score now threshold u rep =
     (if new_score < threshold
      then (case mark_dormant st (ch_id c) u of
              Inr st' \<Rightarrow> (rep\<lparr>dr_dormant := dr_dormant rep + 1\<rparr>, st')
            | Inl e \<Rightarrow> (rep\<lparr>dr_errors := dr_errors rep + 1\<rparr>, st))
      else (case update_score st (ch_id c) new_score now u of
              Inr st' \<Rightarrow> (rep\<lparr>dr_decayed := dr_decayed rep + 1\<rparr>, st')
            | Inl e \<Rightarrow> (rep\<lparr>dr_errors := dr_errors rep + 1\<rparr>, st)))"

definition try_auto_promote :: "store \<Rightarrow> decay_worker_config \<Rightarrow> chunk \<Rightarrow> string \<Rightarrow> (bool \<times> store) res" where
  "try_auto_promote st cfg c u =
     (if \<not> dw_persistent_auto_enabled cfg \<or> ch_access_count c < dw_persistent_auto_threshold cfg then Inr (False, st)
      else rbind (mark_persistent st (ch_id c) u) (\<lambda>st'. Inr (True, st')))"

definition decay_one ::
  "(rat \<Rightarrow> rat \<Rightarrow> rat) \<Rightarrow> decay_worker_config \<Rightarrow> nat \<Rightarrow> string \<Rightarrow> chunk \<Rightarrow> decay_report \<times> store \<Rightarrow> decay_report \<times> store" where
  "decay_one powf cfg now u c = (\<lambda>(rep, st).
     if ch_persistent c then (rep, st)
     else (let decay = (\<lambda>rep. apply_score st c (compute_new_score powf cfg c now) now (dw_dormant_threshold cfg) u rep)
           in case try_auto_promote st cfg c u of
                Inr (True, st') \<Rightarrow> (rep, st')
              | Inr (False, _) \<Rightarrow> decay rep
              | Inl e \<Rightarrow> decay (rep\<lparr>dr_errors := dr_errors rep + 1\<rparr>)))"

fun decay_loop ::
  "(rat \<Rightarrow> rat \<Rightarrow> rat) \<Rightarrow> decay_worker_config \<Rightarrow> nat \<Rightarrow> string \<Rightarrow> (nat \<Rightarrow> bool) \<Rightarrow> nat \<Rightarrow> chunk list \<Rightarrow>
     decay_report \<times> store \<Rightarrow> decay_report \<times> store" where
  "decay_loop powf cfg now u cancelled n [] s = s"
| "decay_loop powf cfg now u cancelled n (c # cs) s =
     (if cancelled n then s else decay_loop powf cfg now u cancelled (Suc n) cs (decay_one powf cfg now u c s))"

definition run_decay ::
  "(rat \<Rightarrow> rat \<Rightarrow> rat) \<Rightarrow> decay_worker_config \<Rightarrow> nat \<Rightarrow> string \<Rightarrow> (nat \<Rightarrow> bool) \<Rightarrow> store \<Rightarrow> decay_report \<times> store" where
  "run_decay powf cfg now u cancelled st =
     decay_loop powf cfg now u cancelled 0 (scan_for_decay st (dw_dormant_threshold cfg))
       (\<lparr>dr_decayed = 0, dr_dormant = 0, dr_errors = 0\<rparr>, st)"

section \<open>Clusters\<close>

definition update_centroid :: "real list \<Rightarrow> real list \<Rightarrow> nat \<Rightarrow> real list" where
  "update_centroid centroid new_emb n =
     map (\<lambda>(c, e). (c * (of_nat n - 1) + e) / of_nat n) (zip centroid new_emb) @ drop (length new_emb) centroid"

text \<open>Here the vectors are zipped without a check of their lengths.\<close>

definition zip_cosine :: "real list \<Rightarrow> real list \<Rightarrow> real" where
  "zip_cosine a b =
     (let na = sqrt (dot a a); nb = sqrt (dot b b) in if na = 0 \<or> nb = 0 then 0 else dot a b / (na * nb))"

text \<open>The first group with the highest similarity above \<open>-1\<close>.\<close>

fun best_group :: "real list \<Rightarrow> (real list \<times> 'a list) list \<Rightarrow> nat \<Rightarrow> real \<times> nat option \<Rightarrow> real \<times> nat option" where
  "best_group emb [] i best = best"
| "best_group emb ((centroid, _) # gs) i best =
     best_group emb gs (Suc i) (let sim = zip_cosine emb centroid in if fst best < sim then (sim, Some i) else best)"

definition place :: "real \<Rightarrow> 'a \<times> real list \<Rightarrow> (real list \<times> 'a list) list \<Rightarrow> (real list \<times> 'a list) list" where
  "place threshold x groups =
     (case best_group (snd x) groups 0 (-1, None) of
        (sim, Some i) \<Rightarrow>
          if threshold \<le> sim
          then groups[i := (let ms = snd (groups ! i) @ [fst x]
                            in (update_centroid (fst (groups ! i)) (snd x) (length ms), ms))]
          else groups @ [(snd x, [fst x])]
      | (sim, None) \<Rightarrow> groups @ [(snd x, [fst x])])"

definition cluster_by_similarity :: "('a \<Rightarrow> real list option) \<Rightarrow> 'a list \<Rightarrow> real \<Rightarrow> 'a list list" where
  "cluster_by_similarity emb chunks threshold =
     (let with_emb = List.map_filter (\<lambda>c. map_option (Pair c) (emb c)) chunks;
          without_emb = filter (\<lambda>c. emb c = None) chunks
      in if with_emb = [] then [chunks]
         else map snd (fold (place threshold) with_emb []) @ (if without_emb = [] then [] else [without_emb]))"

definition quality_gate :: "('a \<Rightarrow> real list option) \<Rightarrow> real list \<Rightarrow> 'a list \<Rightarrow> real \<Rightarrow> bool" where
  "quality_gate emb new_embedding sources threshold =
     (let sims = map (zip_cosine new_embedding) (List.map_filter emb sources)
      in new_embedding = [] \<or> sims = [] \<or> threshold \<le> sum_list sims / of_nat (length sims))"

section \<open>Consolidation\<close>

record consolidation_config =
  cf_batch_size :: nat
  cf_min_chunks :: nat
  cf_min_age_secs :: nat
  cf_similarity_threshold :: real
  cf_quality_gate_threshold :: real

record enrichment =
  er_content :: string
  er_memory_type :: string
  er_meta :: extraction_meta
  er_importance :: "rat option"
  er_event_day :: "int option"

text \<open>Where the future of a group is dropped; a drop while storing comes after some of its effects.\<close>

datatype drop_point = AtCompress | AtEmbed | AtPersist nat

text \<open>
  The outside of one run, by the number of the group: clocks, answers, what other callers do at each
  await, drops, and the side outputs after the store (embedding, entity queue, graph).
\<close>

record cons_world =
  cw_now :: nat
  cw_ctx :: "nat \<Rightarrow> ctx"
  cw_cancelled :: "nat \<Rightarrow> bool"
  cw_budget_ok :: "nat \<Rightarrow> bool"
  cw_sanitize :: "string \<Rightarrow> string"
  cw_compress :: "nat \<Rightarrow> string \<Rightarrow> string res"
  cw_enrich :: "string \<Rightarrow> nat \<Rightarrow> enrichment option"
  cw_protect :: "chunk \<Rightarrow> chunk"
  cw_embed :: "nat \<Rightarrow> string \<Rightarrow> real list res"
  cw_vec :: "nat list \<Rightarrow> real list option"
  cw_uuid :: "nat \<Rightarrow> string"
  cw_doc :: "chunk \<Rightarrow> text_document"
  cw_intent_log :: bool
  cw_other :: "nat \<Rightarrow> nat \<Rightarrow> engine \<Rightarrow> engine"
  cw_drop :: "nat \<Rightarrow> drop_point option"
  cw_outputs :: "nat \<Rightarrow> chunk \<Rightarrow> real list option \<Rightarrow> engine \<Rightarrow> engine"

record cons_report =
  cp_consolidated :: nat
  cp_skipped :: nat
  cp_errors :: nat

text \<open>
  The state of a run: the engine, the report, the groups so far, the ids whose lease the logs report as
  not written or not released, and the summaries stored.
\<close>

record cons_state =
  cn_engine :: engine
  cn_report :: cons_report
  cn_groups :: nat
  cn_unreleased :: "string list"
  cn_stored :: "chunk list"

text \<open>The updates of a list of chunks write one by one; a failure leaves the earlier writes.\<close>

fun modify_run :: "store \<Rightarrow> string list \<Rightarrow> (chunk \<Rightarrow> chunk) \<Rightarrow> string \<Rightarrow> unit res \<times> store" where
  "modify_run st [] f u = (Inr (), st)"
| "modify_run st (i # is) f u =
     (case modify_chunk st i f u of Inl e \<Rightarrow> (Inl e, st) | Inr st' \<Rightarrow> modify_run st' is f u)"

definition set_store :: "cons_state \<Rightarrow> store \<Rightarrow> cons_state" where
  "set_store s st = s\<lparr>cn_engine := (cn_engine s)\<lparr>en_store := st\<rparr>\<rparr>"

abbreviation cn_store :: "cons_state \<Rightarrow> store" where
  "cn_store s \<equiv> en_store (cn_engine s)"

definition add_skipped :: "nat \<Rightarrow> cons_state \<Rightarrow> cons_state" where
  "add_skipped n s = s\<lparr>cn_report := (cn_report s)\<lparr>cp_skipped := cp_skipped (cn_report s) + n\<rparr>\<rparr>"

definition add_errors :: "nat \<Rightarrow> cons_state \<Rightarrow> cons_state" where
  "add_errors n s = s\<lparr>cn_report := (cn_report s)\<lparr>cp_errors := cp_errors (cn_report s) + n\<rparr>\<rparr>"

definition release_lease :: "string list \<Rightarrow> string \<Rightarrow> cons_state \<Rightarrow> cons_state" where
  "release_lease ids u s =
     (case modify_run (cn_store s) ids (\<lambda>c. c\<lparr>ch_in_progress := False\<rparr>) u of
        (Inr _, st) \<Rightarrow> set_store s st
      | (Inl _, st) \<Rightarrow> (set_store s st)\<lparr>cn_unreleased := cn_unreleased s @ ids\<rparr>)"

definition is_consolidation_source :: "chunk \<Rightarrow> bool" where
  "is_consolidation_source c \<longleftrightarrow> ch_is_latest c \<and> ch_deleted_at c = None"

text \<open>\<^verbatim>\<open>str::replace\<close> of a pattern that is not empty, and the fence around untrusted text.\<close>

function replace_all :: "string \<Rightarrow> string \<Rightarrow> string \<Rightarrow> string" where
  "replace_all pat new [] = []"
| "replace_all pat new (c # cs) =
     (if pat \<noteq> [] \<and> prefix pat (c # cs) then new @ replace_all pat new (drop (length pat) (c # cs))
      else c # replace_all pat new cs)"
  by pat_completeness auto
termination by (relation "measure (\<lambda>(pat, new, s). length s)") (auto simp: less_Suc_eq_le neq_Nil_conv)

definition wrap_untrusted :: "string \<Rightarrow> string \<Rightarrow> string" where
  "wrap_untrusted i content =
     ''[CHUNK id='' @ [CHR 0x22] @ i @ [CHR 0x22] @ '']'' @ [CHR 0x0A] @
     replace_all ''[/CHUNK]'' ''[/ CHUNK]'' content @ [CHR 0x0A] @ ''[/CHUNK]''"

definition build_consolidation_input :: "chunk list \<Rightarrow> string" where
  "build_consolidation_input chunks = join [CHR 0x0A, CHR 0x0A] (map (\<lambda>c. wrap_untrusted (ch_id c) (ch_content c)) chunks)"

definition min_timestamp :: "chunk list \<Rightarrow> nat option" where
  "min_timestamp cs = (case map ch_timestamp cs of [] \<Rightarrow> None | t # ts \<Rightarrow> Some (fold min ts t))"

definition max_timestamp :: "chunk list \<Rightarrow> nat option" where
  "max_timestamp cs = (case map ch_timestamp cs of [] \<Rightarrow> None | t # ts \<Rightarrow> Some (fold max ts t))"

definition noon :: "int \<Rightarrow> nat" where
  "noon day = nat ((day * 86400 + 43200) mod (int u64_max + 1))"

definition build_l1_chunk :: "cons_world \<Rightarrow> nat \<Rightarrow> string \<Rightarrow> chunk list \<Rightarrow> string \<Rightarrow> chunk" where
  "build_l1_chunk w n stream grp summary =
     (let anchor = (case min_timestamp grp of Some t \<Rightarrow> t | None \<Rightarrow> 0);
          en = cw_enrich w summary anchor
      in \<lparr>ch_id = ''L1:'' @ cw_uuid w n,
          ch_content = (case en of Some e \<Rightarrow> er_content e | None \<Rightarrow> summary),
          ch_stream = stream, ch_level = 1, ch_score = 1, ch_timestamp = cw_now w, ch_consolidated = False,
          ch_dormant = False, ch_in_progress = False, ch_prompt_version = Some 3,
          ch_source_ids = Some (map ch_id grp), ch_last_decay = None, ch_metadata = None,
          ch_importance = Option.bind en er_importance, ch_persistent = False, ch_last_implicit_boost = None,
          ch_access_count = 0, ch_source = Some (from_agent ''consolidation''),
          ch_created_by = Some ''loomem-consolidation'', ch_updated_at = Some (cw_now w),
          ch_valid_from = (case Option.bind en er_event_day of Some d \<Rightarrow> Some (noon d) | None \<Rightarrow> min_timestamp grp),
          ch_valid_until = max_timestamp grp, ch_is_latest = True, ch_superseded_by = None, ch_supersedes_id = None,
          ch_root_memory_id = None, ch_version = 1, ch_memory_type = map_option er_memory_type en,
          ch_extraction_meta = map_option er_meta en, ch_deleted_at = None,
          ch_trust_level = Some (derived_trust grp), ch_ingester_user_id = None, ch_alpha = 1, ch_beta = 1,
          ch_harmful_count = 0, ch_n_ratings = 0, ch_last_rated_at = None, ch_provenance_role = Claim,
          ch_fragment = None\<rparr>)"

datatype group_end = NextGroup | StopStream | Dropped

text \<open>
  From the answer of the model on: embed, gate, store, side outputs, mark the sources. The drop while
  storing runs the effects of the store up to that point.
\<close>

definition retire_sources :: "cons_world \<Rightarrow> nat \<Rightarrow> chunk list \<Rightarrow> cons_state \<Rightarrow> group_end \<times> cons_state" where
  "retire_sources w n grp s =
     (case modify_run (cn_store s) (map ch_id grp) (\<lambda>c. c\<lparr>ch_consolidated := True, ch_in_progress := False\<rparr>) (cw_uuid w n) of
        (Inl e, st) \<Rightarrow> (NextGroup, release_lease (map ch_id grp) (cw_uuid w n) (add_errors (length grp) (set_store s st)))
      | (Inr _, st) \<Rightarrow>
          (NextGroup, (set_store s st)\<lparr>cn_report := (cn_report s)\<lparr>cp_consolidated :=
             cp_consolidated (cn_report s) + length grp\<rparr>\<rparr>))"

definition store_summary ::
  "cons_world \<Rightarrow> nat \<Rightarrow> chunk list \<Rightarrow> chunk \<Rightarrow> real list option \<Rightarrow> cons_state \<Rightarrow> group_end \<times> cons_state" where
  "store_summary w n grp l1 emb s =
     (let e = cn_engine s;
          args = \<lparr>pa_chunk = l1, pa_doc = cw_doc w l1, pa_intent_log = cw_intent_log w, pa_op = Consolidate\<rparr>;
          steps = persist_steps (cw_ctx w n) args (log_next_seq (en_log e))
      in case cw_drop w n of
           Some (AtPersist k) \<Rightarrow>
             (Dropped, release_lease (map ch_id grp) (cw_uuid w n) (s\<lparr>cn_engine := snd (run_steps (take k steps) e)\<rparr>))
         | _ \<Rightarrow>
             (case run_steps steps e of
                (Inl x, e') \<Rightarrow>
                  (NextGroup, release_lease (map ch_id grp) (cw_uuid w n) (add_errors (length grp) (s\<lparr>cn_engine := e'\<rparr>)))
              | (Inr _, e') \<Rightarrow>
                  retire_sources w n grp (s\<lparr>cn_engine := cw_outputs w n l1 emb e', cn_stored := cn_stored s @ [l1]\<rparr>)))"

definition stored_vector :: "cons_world \<Rightarrow> store \<Rightarrow> chunk \<Rightarrow> real list option" where
  "stored_vector w st c = Option.bind (kv_get (st_emb st) (ch_id c)) (cw_vec w)"

definition finish_group ::
  "consolidation_config \<Rightarrow> cons_world \<Rightarrow> nat \<Rightarrow> chunk list \<Rightarrow> chunk \<Rightarrow> cons_state \<Rightarrow> group_end \<times> cons_state" where
  "finish_group cf w n grp l1 s0 =
     (let s = s0\<lparr>cn_engine := cw_other w n 1 (cn_engine s0)\<rparr>;
          emb = (case cw_embed w n (ch_content l1) of Inr v \<Rightarrow> Some v | Inl e \<Rightarrow> None);
          passes = (case emb of
            None \<Rightarrow> True
          | Some v \<Rightarrow> quality_gate (stored_vector w (cn_store s)) v grp (cf_quality_gate_threshold cf))
      in if cw_drop w n = Some AtEmbed then (Dropped, release_lease (map ch_id grp) (cw_uuid w n) s)
         else if \<not> passes then (NextGroup, add_skipped (length grp) (release_lease (map ch_id grp) (cw_uuid w n) s))
         else store_summary w n grp l1 emb (s\<lparr>cn_engine := cw_other w n 2 (cn_engine s)\<rparr>))"

text \<open>One group: lease the sources, check the budget, ask the model. A lease that cannot be written has
  no guard.\<close>

definition consolidate_group ::
  "consolidation_config \<Rightarrow> cons_world \<Rightarrow> string \<Rightarrow> chunk list \<Rightarrow> cons_state \<Rightarrow> group_end \<times> cons_state" where
  "consolidate_group cf w stream grp s0 =
     (let n = cn_groups s0; s = s0\<lparr>cn_groups := Suc n\<rparr>; ids = map ch_id grp; u = cw_uuid w n
      in if length grp < cf_min_chunks cf then (NextGroup, add_skipped (length grp) s)
         else if cw_cancelled w n then (StopStream, s)
         else case modify_run (cn_store s) ids (\<lambda>c. c\<lparr>ch_in_progress := True\<rparr>) u of
           (Inl e, st) \<Rightarrow> (NextGroup, add_errors (length grp) ((set_store s st)\<lparr>cn_unreleased := cn_unreleased s @ ids\<rparr>))
         | (Inr _, st) \<Rightarrow>
             (let s1 = set_store s st; prompt = cw_sanitize w (build_consolidation_input grp)
              in if \<not> cw_budget_ok w n then (StopStream, release_lease ids u s1)
                 else
                   (let s2 = s1\<lparr>cn_engine := cw_other w n 0 (cn_engine s1)\<rparr>
                    in if cw_drop w n = Some AtCompress then (Dropped, release_lease ids u s2)
                       else case cw_compress w n prompt of
                              Inl e \<Rightarrow> (NextGroup, release_lease ids u (add_errors (length grp) s2))
                            | Inr summary \<Rightarrow>
                                finish_group cf w n grp (cw_protect w (build_l1_chunk w n stream grp summary)) s2)))"

fun consolidate_groups ::
  "consolidation_config \<Rightarrow> cons_world \<Rightarrow> string \<Rightarrow> chunk list list \<Rightarrow> cons_state \<Rightarrow> bool \<times> cons_state" where
  "consolidate_groups cf w stream [] s = (True, s)"
| "consolidate_groups cf w stream (g # gs) s =
     (case consolidate_group cf w stream g s of
        (NextGroup, s') \<Rightarrow> consolidate_groups cf w stream gs s'
      | (StopStream, s') \<Rightarrow> (True, s')
      | (Dropped, s') \<Rightarrow> (False, s'))"

fun consolidate_streams ::
  "consolidation_config \<Rightarrow> cons_world \<Rightarrow> (string \<times> chunk list) list \<Rightarrow> cons_state \<Rightarrow> bool \<times> cons_state" where
  "consolidate_streams cf w [] s = (True, s)"
| "consolidate_streams cf w ((stream, chunks) # rest) s =
     (if cw_cancelled w (cn_groups s) then (True, s)
      else if length chunks < cf_min_chunks cf then consolidate_streams cf w rest (add_skipped (length chunks) s)
      else
        (let batch = take (cf_batch_size cf) chunks
         in case consolidate_groups cf w stream
                   (cluster_by_similarity (stored_vector w (cn_store s)) batch (cf_similarity_threshold cf)) s of
              (True, s') \<Rightarrow> consolidate_streams cf w rest s'
            | (False, s') \<Rightarrow> (False, s')))"

fun group_by_stream :: "chunk list \<Rightarrow> (string \<times> chunk list) list \<Rightarrow> (string \<times> chunk list) list" where
  "group_by_stream [] acc = acc"
| "group_by_stream (c # cs) acc =
     group_by_stream cs
       (case map_of acc (ch_stream c) of
          None \<Rightarrow> acc @ [(ch_stream c, [c])]
        | Some _ \<Rightarrow> map (\<lambda>(k, v). if k = ch_stream c then (k, v @ [c]) else (k, v)) acc)"

definition consolidate :: "consolidation_config \<Rightarrow> cons_world \<Rightarrow> engine \<Rightarrow> bool \<times> cons_state" where
  "consolidate cf w e =
     (let candidates = filter is_consolidation_source
            (scan_l0_unconsolidated (en_store e) (cf_min_age_secs cf) (cf_batch_size cf * 10) (cw_now w))
      in consolidate_streams cf w (group_by_stream candidates [])
           \<lparr>cn_engine = e, cn_report = \<lparr>cp_consolidated = 0, cp_skipped = 0, cp_errors = 0\<rparr>, cn_groups = 0,
            cn_unreleased = [], cn_stored = []\<rparr>)"

end
