(* ===== verification/ConsolidationProps.thy ===== *)
theory ConsolidationProps
  imports "HOL-Library.Multiset" Consolidation VersionProps RebuildProps StoreScans
begin

text \<open>
  Properties of decay and of consolidation: what a decay cycle may change, that every lease is
  returned and a source retires only behind a stored summary, however a run ends, and what a summary
  is made of.
\<close>

section \<open>Updates and flags\<close>

definition keeps_key :: "(chunk \<Rightarrow> chunk) \<Rightarrow> bool" where
  "keeps_key f \<longleftrightarrow> (\<forall>c. ch_id (f c) = ch_id c \<and> ch_level (f c) = ch_level c)"

text \<open>A store whose chunks are keyed, stored once, and whose \<^verbatim>\<open>L1:\<close> ids are at level 1.\<close>

definition sound :: "store \<Rightarrow> bool" where
  "sound st \<longleftrightarrow> store_ok st \<and> single_level st \<and>
     (\<forall>l x. kv_get (st_db st) (chunk_key l (''L1:'' @ x)) \<noteq> None \<longrightarrow> l = 1)"

definition flagged :: "(chunk \<Rightarrow> bool) \<Rightarrow> store \<Rightarrow> string set" where
  "flagged P st = {i. \<exists>c. get_chunk st i = Inr (Some c) \<and> P c}"

lemma stored_level:
  assumes "store_ok st" "single_level st" "get_chunk st i = Inr (Some c)" "kv_get (st_db st) (chunk_key l i) \<noteq> None"
  shows "l = ch_level c"
proof -
  obtain lv r where r: "kv_get (st_db st) (chunk_key lv i) = Some r" "decode_chunk (st_prov st) r = Inr c"
    using get_chunk_found [OF assms(3)] by blast
  then have "row_keyed (st_prov st) (chunk_key lv i) r" using assms(1) unfolding store_ok_def by blast
  then have "lv = ch_level c" using r(2) get_chunk_id [OF assms(1,3)] by (auto simp: row_keyed_def)
  moreover have "l = lv" using assms(2,4) r(1) unfolding single_level_def by (metis option.distinct(1))
  ultimately show ?thesis by simp
qed

lemma stored_row: "get_chunk st i = Inr (Some c) \<Longrightarrow> store_ok st \<Longrightarrow> single_level st \<Longrightarrow>
    kv_get (st_db st) (chunk_key (ch_level c) i) \<noteq> None"
  using get_chunk_found [of st i c] stored_level [of st i c] by fastforce

lemma modify_effect:
  assumes "sound st" "keeps_key f" "modify_chunk st i f u = Inr st'"
  shows "sound st' \<and> (\<exists>co. get_chunk st i = Inr co \<and> get_chunk st' i = Inr (map_option f co)) \<and>
    (\<forall>j. j \<noteq> i \<longrightarrow> get_chunk st' j = get_chunk st j)"
proof -
  obtain co where co: "get_chunk st i = Inr co" using assms(3) by (auto simp: modify_chunk_def split: sum.splits)
  show ?thesis
  proof (cases co)
    case None
    with co assms show ?thesis by (simp add: modify_chunk_def)
  next
    case (Some c)
    have st: "store_ok st" "single_level st" using assms(1) by (simp_all add: sound_def)
    have g: "get_chunk st i = Inr (Some c)" using co Some by simp
    have f: "ch_id (f c) = i" "ch_level (f c) = ch_level c" using assms(2) get_chunk_id [OF st(1) g] by (simp_all add: keeps_key_def)
    have s: "store_chunk_locked st (f c) u = Inr st'" using assms(3) g by (simp add: modify_chunk_def)
    have e: "store_ok st' \<and> single_level st' \<and> get_chunk st' i = Inr (Some (f c)) \<and>
        (\<forall>j. j \<noteq> i \<longrightarrow> get_chunk st' j = get_chunk st j)"
      using rewrite_effect [OF st g f] s by (simp add: store_chunk_def)
    have "kv_get (st_db st) (chunk_key l j) \<noteq> None" if "kv_get (st_db st') (chunk_key l j) \<noteq> None" for l j
    proof (cases "l = ch_level (f c) \<and> j = ch_id (f c)")
      case True
      with stored_row [OF g st] f show ?thesis by simp
    next
      case False
      with store_locked_rows [OF s, of l j] that show ?thesis by auto
    qed
    then have "sound st'" using e assms(1) unfolding sound_def by blast
    with e g show ?thesis by simp
  qed
qed

lemma modify_run_effect:
  assumes "keeps_key f" "modify_run st is f u = (r, st')" "sound st"
  shows "sound st' \<and> (\<forall>j. j \<notin> set is \<longrightarrow> get_chunk st' j = get_chunk st j) \<and>
    ((\<forall>c. P (f c) \<longrightarrow> P c) \<longrightarrow> flagged P st' \<subseteq> flagged P st) \<and>
    ((\<forall>c. \<not> P (f c)) \<and> r = Inr () \<longrightarrow> flagged P st' \<inter> set is = {})"
  using assms(2,3)
proof (induction "is" arbitrary: st)
  case (Cons i "is")
  show ?case
  proof (cases "modify_chunk st i f u")
    case (Inl e)
    with Cons.prems show ?thesis by auto
  next
    case (Inr st1)
    have m: "sound st1 \<and> (\<exists>co. get_chunk st i = Inr co \<and> get_chunk st1 i = Inr (map_option f co)) \<and>
        (\<forall>j. j \<noteq> i \<longrightarrow> get_chunk st1 j = get_chunk st j)"
      by (rule modify_effect [OF Cons.prems(2) assms(1) Inr])
    have run: "modify_run st1 is f u = (r, st')" using Inr Cons.prems(1) by simp
    note IH = Cons.IH [OF run conjunct1 [OF m]]
    have step: "flagged P st1 \<subseteq> flagged P st" if P: "\<forall>c. P (f c) \<longrightarrow> P c"
    proof
      fix j assume "j \<in> flagged P st1"
      with m P show "j \<in> flagged P st" by (cases "j = i") (auto simp: flagged_def)
    qed
    have clear: "i \<notin> flagged P st1" if "\<forall>c. \<not> P (f c)"
    proof -
      obtain co where "get_chunk st1 i = Inr (map_option f co)" using m by blast
      with that show ?thesis by (cases co) (simp_all add: flagged_def)
    qed
    show ?thesis
    proof (intro conjI impI)
      show "sound st'" using IH by blast
      show "\<forall>j. j \<notin> set (i # is) \<longrightarrow> get_chunk st' j = get_chunk st j" using IH m by simp
    next
      assume "\<forall>c. P (f c) \<longrightarrow> P c"
      then show "flagged P st' \<subseteq> flagged P st" using IH step by blast
    next
      assume a: "(\<forall>c. \<not> P (f c)) \<and> r = Inr ()"
      then have "flagged P st' \<subseteq> flagged P st1" "flagged P st' \<inter> set is = {}" using IH by blast+
      with clear a show "flagged P st' \<inter> set (i # is) = {}" by auto
    qed
  qed
qed auto

lemma flagged_outside: "(\<And>j. j \<notin> S \<Longrightarrow> get_chunk st' j = get_chunk st j) \<Longrightarrow> flagged P st' \<subseteq> flagged P st \<union> S"
  by (auto simp: flagged_def)

section \<open>Leases\<close>

text \<open>
  The outside of a run keeps stores sound and neither leases nor retires a chunk: only this run does, and
  the safety pass over a summary leaves its links and flags.
\<close>

definition calm :: "(engine \<Rightarrow> engine) \<Rightarrow> bool" where
  "calm g \<longleftrightarrow> (\<forall>e. sound (en_store e) \<longrightarrow> sound (en_store (g e)) \<and>
     flagged ch_in_progress (en_store (g e)) \<subseteq> flagged ch_in_progress (en_store e) \<and>
     flagged ch_consolidated (en_store (g e)) \<subseteq> flagged ch_consolidated (en_store e))"

definition marks_of :: "chunk \<Rightarrow> string \<times> int \<times> string \<times> string list option \<times> string option \<times> bool \<times> bool" where
  "marks_of c = (ch_id c, ch_level c, ch_stream c, ch_source_ids c, ch_trust_level c, ch_in_progress c, ch_consolidated c)"

definition fair_world :: "cons_world \<Rightarrow> bool" where
  "fair_world w \<longleftrightarrow> (\<forall>c. marks_of (cw_protect w c) = marks_of c) \<and> (\<forall>n k. calm (cw_other w n k)) \<and>
     (\<forall>n c v. calm (cw_outputs w n c v))"

definition summarised :: "chunk list \<Rightarrow> string set" where
  "summarised cs = (\<Union>c \<in> set cs. \<Union> (set ` set_option (ch_source_ids c)))"

text \<open>What holds while a run has leased \<open>ids\<close>, from the leases and the retired chunks at its start.\<close>

definition held :: "string set \<Rightarrow> string set \<Rightarrow> string list \<Rightarrow> cons_state \<Rightarrow> bool" where
  "held L C ids s \<longleftrightarrow> sound (cn_store s) \<and>
     flagged ch_in_progress (cn_store s) \<subseteq> L \<union> set (cn_unreleased s) \<union> set ids \<and>
     flagged ch_consolidated (cn_store s) \<subseteq> C \<union> summarised (cn_stored s)"

lemma held_calm: "calm g \<Longrightarrow> held L C ids s \<Longrightarrow> held L C ids (s\<lparr>cn_engine := g (cn_engine s)\<rparr>)"
  unfolding calm_def held_def by simp blast

lemma held_counts [simp]: "held L C ids (add_skipped n s) = held L C ids s" "held L C ids (add_errors n s) = held L C ids s"
  by (simp_all add: held_def add_skipped_def add_errors_def)

lemma held_groups [simp]: "held L C ids (s\<lparr>cn_groups := n\<rparr>) = held L C ids s"
    "held L C ids (s\<lparr>cn_report := r\<rparr>) = held L C ids s"
  by (simp_all add: held_def)

lemma held_mono: "held L C is s \<Longrightarrow> set is \<subseteq> set is' \<Longrightarrow> held L C is' s"
  unfolding held_def by blast

lemma keeps_keys [simp]: "keeps_key (\<lambda>c. c\<lparr>ch_in_progress := b\<rparr>)"
    "keeps_key (\<lambda>c. c\<lparr>ch_consolidated := b', ch_in_progress := b\<rparr>)"
  by (simp_all add: keeps_key_def)

lemma held_release:
  assumes "held L C ids s"
  shows "held L C [] (release_lease ids u s)"
proof -
  obtain r st where run: "modify_run (cn_store s) ids (\<lambda>c. c\<lparr>ch_in_progress := False\<rparr>) u = (r, st)" by force
  have s: "sound (cn_store s)" using assms by (simp add: held_def)
  note p = modify_run_effect [OF keeps_keys(1) run s, of ch_in_progress]
  note q = modify_run_effect [OF keeps_keys(1) run s, of ch_consolidated]
  have "flagged ch_in_progress st \<subseteq> flagged ch_in_progress (cn_store s)" using p by simp
  moreover have "flagged ch_consolidated st \<subseteq> flagged ch_consolidated (cn_store s)" using q by simp
  moreover have "r = Inr () \<Longrightarrow> flagged ch_in_progress st \<inter> set ids = {}" using p by simp
  ultimately show ?thesis
    using p assms run by (cases r) (auto simp: release_lease_def held_def set_store_def)
qed

lemma held_lease:
  assumes "held L C [] s" "modify_run (cn_store s) ids (\<lambda>c. c\<lparr>ch_in_progress := True\<rparr>) u = (r, st)"
  shows "held L C ids (set_store s st)"
proof -
  have s: "sound (cn_store s)" using assms(1) by (simp add: held_def)
  note p = modify_run_effect [OF keeps_keys(1) assms(2) s]
  have "flagged ch_in_progress st \<subseteq> flagged ch_in_progress (cn_store s) \<union> set ids"
    by (rule flagged_outside) (use p in blast)
  moreover have "flagged ch_consolidated st \<subseteq> flagged ch_consolidated (cn_store s)"
    using p [of ch_consolidated] by simp
  moreover have "sound st" using p by blast
  ultimately show ?thesis using assms(1) unfolding held_def set_store_def by simp blast
qed

lemma held_retire:
  assumes "held L C ids s" "set ids \<subseteq> summarised (cn_stored s)"
    and "modify_run (cn_store s) ids (\<lambda>c. c\<lparr>ch_consolidated := True, ch_in_progress := False\<rparr>) u = (r, st)"
  shows "held L C ids (set_store s st) \<and> (r = Inr () \<longrightarrow> held L C [] (set_store s st))"
proof -
  have s: "sound (cn_store s)" using assms(1) by (simp add: held_def)
  note p = modify_run_effect [OF keeps_keys(2) assms(3) s]
  have "flagged ch_consolidated st \<subseteq> flagged ch_consolidated (cn_store s) \<union> set ids"
    by (rule flagged_outside) (use p in blast)
  moreover have "flagged ch_in_progress st \<subseteq> flagged ch_in_progress (cn_store s)"
    using p [of ch_in_progress] by simp
  moreover have "r = Inr () \<Longrightarrow> flagged ch_in_progress st \<inter> set ids = {}"
    using p [of ch_in_progress] by simp
  moreover have "sound st" using p by blast
  ultimately show ?thesis using assms(1,2) unfolding held_def set_store_def by simp blast
qed

lemma summarised_app: "summarised (cs @ [c]) = summarised cs \<union> \<Union> (set ` set_option (ch_source_ids c))"
  by (auto simp: summarised_def)

text \<open>Storing a summary of the run, or any prefix of its effects.\<close>

lemma store_summary_effect:
  assumes "sound st" "store_chunk_locked st c u = Inr st'" "ch_level c = 1" "ch_id c = ''L1:'' @ x"
  shows "sound st' \<and> get_chunk st' (ch_id c) = Inr (Some c) \<and> (\<forall>j. j \<noteq> ch_id c \<longrightarrow> get_chunk st' j = get_chunk st j)"
proof -
  have st: "store_ok st" "single_level st" and l1: "\<And>l x. kv_get (st_db st) (chunk_key l (''L1:'' @ x)) \<noteq> None \<Longrightarrow> l = 1"
    using assms(1) unfolding sound_def by blast+
  have e: "store_ok st' \<and> single_level st' \<and> get_chunk st' (ch_id c) = Inr (Some c) \<and>
      (\<forall>j. j \<noteq> ch_id c \<longrightarrow> get_chunk st' j = get_chunk st j)"
    by (rule store_locked_effect [OF st assms(2)]) (use assms(3,4) l1 in auto)
  have "l = 1" if "kv_get (st_db st') (chunk_key l (''L1:'' @ y)) \<noteq> None" for l y
  proof (cases "l = ch_level c")
    case False
    with store_locked_rows [OF assms(2), of l "''L1:'' @ y"] that have "kv_get (st_db st) (chunk_key l (''L1:'' @ y)) \<noteq> None" by auto
    then show ?thesis by (rule l1)
  qed (simp add: assms(3))
  with e show ?thesis unfolding sound_def by blast
qed

lemma persist_held:
  assumes "sound (en_store e)" "ch_level c = 1" "ch_id c = ''L1:'' @ x" "\<not> P c"
  shows "sound (en_store (snd (run_steps (take k (persist_steps cx \<lparr>pa_chunk = c, pa_doc = d, pa_intent_log = b, pa_op = op\<rparr> sq)) e))) \<and>
    flagged P (en_store (snd (run_steps (take k (persist_steps cx \<lparr>pa_chunk = c, pa_doc = d, pa_intent_log = b, pa_op = op\<rparr> sq)) e)))
      \<subseteq> flagged P (en_store e)"
proof -
  let ?P = "\<lambda>e'. sound (en_store e') \<and> flagged P (en_store e') \<subseteq> flagged P (en_store e)"
  note eff = store_summary_effect [OF assms(1) _ assms(2,3)]
  have st1: "sound st'" if "store_chunk (en_store e) c u = Inr st'" for st' u
    using eff that by (auto simp: store_chunk_def)
  have st2: "j \<in> flagged P (en_store e)" if "store_chunk (en_store e) c u = Inr st'" "j \<in> flagged P st'" for st' u j
    using eff [of u st'] that assms(4) by (cases "j = ch_id c") (auto simp: flagged_def store_chunk_def)
  have "safe ?P (persist_steps cx \<lparr>pa_chunk = c, pa_doc = d, pa_intent_log = b, pa_op = op\<rparr> sq) e"
    using assms(1) by (auto simp: persist_steps_def effect_defs split: sum.splits dest: st1 st2)
  then show ?thesis by (rule safe_prefix)
qed


lemma retire_sources_held:
  assumes h: "held L C (map ch_id grp) s" and sums: "set (map ch_id grp) \<subseteq> summarised (cn_stored s)"
  shows "held L C [] (snd (retire_sources w n grp s))"
proof -
  obtain r st where run: "modify_run (cn_store s) (map ch_id grp)
      (\<lambda>c. c\<lparr>ch_consolidated := True, ch_in_progress := False\<rparr>) (cw_uuid w n) = (r, st)" by force
  note p = held_retire [OF h sums run]
  show ?thesis
  proof (cases r)
    case (Inl e)
    have "held L C (map ch_id grp) (add_errors (length grp) (set_store s st))" using p by simp
    from held_release [OF this] show ?thesis using run Inl by (simp add: retire_sources_def)
  next
    case (Inr x)
    with p run show ?thesis by (simp add: retire_sources_def)
  qed
qed

lemma store_summary_held:
  assumes w: "fair_world w" and h: "held L C (map ch_id grp) s" and l1: "ch_level l1 = 1" "ch_id l1 = ''L1:'' @ cw_uuid w n"
    and flags: "\<not> ch_in_progress l1" "\<not> ch_consolidated l1" and src: "ch_source_ids l1 = Some (map ch_id grp)"
  shows "held L C [] (snd (store_summary w n grp l1 emb s))"
proof -
  let ?ids = "map ch_id grp" and ?e = "cn_engine s"
  define steps where "steps = persist_steps (cw_ctx w n) \<lparr>pa_chunk = l1, pa_doc = cw_doc w l1,
    pa_intent_log = cw_intent_log w, pa_op = Consolidate\<rparr> (log_next_seq (en_log ?e))"
  have "sound (en_store ?e)" using h by (simp add: held_def)
  note eff = persist_held [OF this l1]
  have part: "held L C ?ids (s\<lparr>cn_engine := snd (run_steps (take k steps) ?e)\<rparr>)" for k
    using eff [of ch_in_progress k] eff [of ch_consolidated k] flags h unfolding held_def steps_def by simp blast
  then have full: "held L C ?ids (s\<lparr>cn_engine := snd (run_steps steps ?e)\<rparr>)" using part [of "length steps"] by simp
  obtain r e3 where run: "run_steps steps ?e = (r, e3)" by force
  have "held L C ?ids (s\<lparr>cn_engine := cw_outputs w n l1 emb e3\<rparr>)"
    using held_calm [OF _ full, of "cw_outputs w n l1 emb"] w run by (simp add: fair_world_def)
  then have "held L C ?ids (s\<lparr>cn_engine := cw_outputs w n l1 emb e3, cn_stored := cn_stored s @ [l1]\<rparr>)"
    by (auto simp: held_def summarised_app)
  then have retire: "held L C [] (snd (retire_sources w n grp (s\<lparr>cn_engine := cw_outputs w n l1 emb e3, cn_stored := cn_stored s @ [l1]\<rparr>)))"
    by (rule retire_sources_held) (simp add: summarised_app src)
  have "held L C ?ids (add_errors (length grp) (s\<lparr>cn_engine := e3\<rparr>))" using full run by simp
  note fail = held_release [OF this]
  let ?rest = "case r of Inl x \<Rightarrow> (NextGroup, release_lease ?ids (cw_uuid w n) (add_errors (length grp) (s\<lparr>cn_engine := e3\<rparr>)))
    | Inr x \<Rightarrow> retire_sources w n grp (s\<lparr>cn_engine := cw_outputs w n l1 emb e3, cn_stored := cn_stored s @ [l1]\<rparr>)"
  have rest: "held L C [] (snd ?rest)" using fail retire by (simp split: sum.split)
  have "store_summary w n grp l1 emb s = (case cw_drop w n of
      Some (AtPersist k) \<Rightarrow> (Dropped, release_lease ?ids (cw_uuid w n) (s\<lparr>cn_engine := snd (run_steps (take k steps) ?e)\<rparr>))
    | _ \<Rightarrow> ?rest)"
    unfolding store_summary_def Let_def steps_def [symmetric] run by (simp split: sum.split option.split drop_point.split)
  then show ?thesis using rest held_release [OF part] by (simp split: option.split drop_point.split)
qed

lemma finish_group_held:
  assumes w: "fair_world w" and h: "held L C (map ch_id grp) s" and l1: "ch_level l1 = 1" "ch_id l1 = ''L1:'' @ cw_uuid w n"
    and flags: "\<not> ch_in_progress l1" "\<not> ch_consolidated l1" and src: "ch_source_ids l1 = Some (map ch_id grp)"
  shows "held L C [] (snd (finish_group cf w n grp l1 s))"
proof -
  let ?s = "s\<lparr>cn_engine := cw_other w n 1 (cn_engine s)\<rparr>"
  have s: "held L C (map ch_id grp) ?s" by (rule held_calm [OF _ h]) (use w in \<open>simp add: fair_world_def\<close>)
  then have "held L C (map ch_id grp) (?s\<lparr>cn_engine := cw_other w n 2 (cn_engine ?s)\<rparr>)"
    by (rule held_calm [rotated]) (use w in \<open>simp add: fair_world_def\<close>)
  from store_summary_held [OF w this l1 flags src] held_release [OF s] show ?thesis
    by (simp add: finish_group_def Let_def)
qed

lemma marks_protect:
  assumes "fair_world w"
  shows "ch_id (cw_protect w c) = ch_id c" "ch_level (cw_protect w c) = ch_level c" "ch_stream (cw_protect w c) = ch_stream c"
    "ch_source_ids (cw_protect w c) = ch_source_ids c" "ch_trust_level (cw_protect w c) = ch_trust_level c"
    "ch_in_progress (cw_protect w c) = ch_in_progress c" "ch_consolidated (cw_protect w c) = ch_consolidated c"
  using assms by (simp_all add: fair_world_def marks_of_def)

lemma consolidate_group_held:
  assumes w: "fair_world w" and h: "held L C [] s"
  shows "held L C [] (snd (consolidate_group cf w stream grp s))"
proof -
  let ?n = "cn_groups s"
  let ?s = "s\<lparr>cn_groups := Suc ?n\<rparr>"
  obtain r st where run: "modify_run (cn_store ?s) (map ch_id grp) (\<lambda>c. c\<lparr>ch_in_progress := True\<rparr>) (cw_uuid w ?n) = (r, st)" by force
  have hs: "held L C [] ?s" using h by simp
  note l = held_lease [OF hs run]
  have lost: "held L C [] ((set_store ?s st)\<lparr>cn_unreleased := cn_unreleased s @ map ch_id grp\<rparr>)"
    using l by (auto simp: held_def set_store_def)
  let ?s2 = "(set_store ?s st)\<lparr>cn_engine := cw_other w ?n 0 (cn_engine (set_store ?s st))\<rparr>"
  have s2: "held L C (map ch_id grp) ?s2" by (rule held_calm [OF _ l]) (use w in \<open>simp add: fair_world_def\<close>)
  then have err: "held L C (map ch_id grp) (add_errors (length grp) ?s2)" by simp
  have fin: "held L C [] (snd (finish_group cf w ?n grp (cw_protect w (build_l1_chunk w ?n stream grp summary)) ?s2))" for summary
    by (rule finish_group_held [OF w s2]) (simp_all add: marks_protect [OF w] build_l1_chunk_def Let_def)
  show ?thesis
    using hs run lost held_release [OF l] held_release [OF s2] held_release [OF err] fin
    by (auto simp: consolidate_group_def Let_def split: sum.split)
qed

lemma consolidate_groups_held:
  "fair_world w \<Longrightarrow> held L C [] s \<Longrightarrow> held L C [] (snd (consolidate_groups cf w stream gs s))"
proof (induction cf w stream gs s rule: consolidate_groups.induct)
  case (2 cf w stream g gs s)
  with consolidate_group_held [OF 2(2,3), of cf stream g] show ?case by (auto split: prod.split group_end.split)
qed simp

lemma consolidate_streams_held:
  "fair_world w \<Longrightarrow> held L C [] s \<Longrightarrow> held L C [] (snd (consolidate_streams cf w ss s))"
proof (induction cf w ss s rule: consolidate_streams.induct)
  case (2 cf w stream chunks rest s)
  let ?gs = "cluster_by_similarity (stored_vector w (cn_store s)) (take (cf_batch_size cf) chunks) (cf_similarity_threshold cf)"
  have "held L C [] (snd (consolidate_groups cf w stream ?gs s))" by (rule consolidate_groups_held [OF 2(3,4)])
  with 2 show ?case by (auto simp: Let_def split: prod.split bool.split)
qed simp


section \<open>Groups\<close>

lemma best_group_index:
  "best_group emb gs i b = (sim, Some j) \<Longrightarrow> snd b = Some j \<or> (i \<le> j \<and> j < i + length gs)"
proof (induction emb gs i b rule: best_group.induct)
  case (2 emb centroid ms gs i b)
  from 2(1) [OF 2(2) [simplified]] show ?case by (auto simp: Let_def split: if_splits)
qed simp

lemma mset_concat_update:
  "i < length xs \<Longrightarrow> mset (concat (xs[i := xs ! i @ [x]])) = add_mset x (mset (concat xs))"
proof (induction xs arbitrary: i)
  case (Cons y ys)
  then show ?case by (cases i) auto
qed simp

lemma place_mset: "mset (concat (map snd (place t x gs))) = add_mset (fst x) (mset (concat (map snd gs)))"
proof -
  obtain sim o1 where b: "best_group (snd x) gs 0 (-1, None) = (sim, o1)" by force
  show ?thesis
  proof (cases "o1 \<noteq> None \<and> t \<le> sim")
    case True
    then obtain i where i: "o1 = Some i" by blast
    then have "i < length gs" using best_group_index [OF b [unfolded i]] by simp
    then show ?thesis using True b i mset_concat_update [of i "map snd gs" "fst x"] by (simp add: place_def map_update Let_def)
  next
    case False
    with b show ?thesis by (auto simp: place_def split: option.split)
  qed
qed

lemma places_mset: "mset (concat (map snd (fold (place t) xs gs))) = mset (map fst xs) + mset (concat (map snd gs))"
  by (induction xs arbitrary: gs) (simp_all add: place_mset)

lemma with_vector: "map fst (List.map_filter (\<lambda>c. map_option (Pair c) (emb c)) cs) = filter (\<lambda>c. emb c \<noteq> None) cs"
  by (induction cs) (auto simp: map_filter_simps split: option.split)

text \<open>Clustering loses no chunk and repeats none, whatever the vectors.\<close>

lemma cluster_mset: "mset (concat (cluster_by_similarity emb cs t)) = mset cs"
proof -
  let ?w = "List.map_filter (\<lambda>c. map_option (Pair c) (emb c)) cs" and ?o = "filter (\<lambda>c. emb c = None) cs"
  have "mset (map fst ?w) + mset ?o = mset cs"
    unfolding with_vector using multiset_partition [of "mset cs" "\<lambda>c. emb c \<noteq> None"] by (simp add: mset_filter)
  moreover have "concat (if ?o = [] then [] else [?o]) = ?o" by simp
  ultimately show ?thesis
    unfolding cluster_by_similarity_def Let_def using places_mset [of t ?w "[]"] by auto
qed

definition streamed :: "(string \<times> chunk list) list \<Rightarrow> bool" where
  "streamed ss \<longleftrightarrow> distinct (map fst ss) \<and> (\<forall>(k, cs) \<in> set ss. \<forall>c \<in> set cs. ch_stream c = k)"

lemma add_to_group:
  assumes "distinct (map fst acc)" "map_of acc k \<noteq> None"
  shows "mset (concat (map snd (map (\<lambda>(k', v). if k' = k then (k', v @ [c]) else (k', v)) acc))) =
    add_mset c (mset (concat (map snd acc)))"
  using assms
proof (induction acc)
  case (Cons x acc)
  show ?case
  proof (cases "fst x = k")
    case True
    then have "k \<notin> fst ` set acc" using Cons.prems(1) by auto
    then have "map (\<lambda>(k', v). if k' = k then (k', v @ [c]) else (k', v)) acc = acc"
      by (intro map_idI) (auto simp: rev_image_eqI)
    with True show ?thesis by (cases x) auto
  next
    case False
    with Cons show ?thesis by (cases x) auto
  qed
qed simp

lemma group_by_stream_facts:
  "streamed acc \<Longrightarrow> streamed (group_by_stream cs acc) \<and>
     mset (concat (map snd (group_by_stream cs acc))) = mset (concat (map snd acc)) + mset cs"
proof (induction cs acc rule: group_by_stream.induct)
  case (2 c cs acc)
  let ?f = "\<lambda>(k, v). if k = ch_stream c then (k, v @ [c]) else (k, v)"
  show ?case
  proof (cases "map_of acc (ch_stream c)")
    case None
    then have "streamed (acc @ [(ch_stream c, [c])])" using 2(2) by (auto simp: streamed_def map_of_eq_None_iff)
    from 2(1) [unfolded None option.case, OF this] None show ?thesis by simp
  next
    case (Some v)
    have d: "distinct (map fst acc)" using 2(2) by (simp add: streamed_def)
    have k: "map fst (map ?f acc) = map fst acc" by (simp add: case_prod_beta' if_distrib cong: if_cong)
    have "streamed (map ?f acc)" using 2(2) unfolding streamed_def k by (fastforce split: if_splits)
    from 2(1) [unfolded Some option.case, OF this] add_to_group [OF d, of "ch_stream c" c] Some show ?thesis by simp
  qed
qed simp

section \<open>Summaries\<close>

text \<open>What a summary says of the group it was made from.\<close>

definition summary_of :: "consolidation_config \<Rightarrow> chunk \<Rightarrow> chunk list \<Rightarrow> bool" where
  "summary_of cf l g \<longleftrightarrow> ch_source_ids l = Some (map ch_id g) \<and> ch_level l = 1 \<and> ch_trust_level l = Some (derived_trust g) \<and>
     cf_min_chunks cf \<le> length g \<and> length g \<le> cf_batch_size cf \<and> (\<forall>c \<in> set g. ch_stream c = ch_stream l)"

lemma stored_unchanged [simp]: "cn_stored (release_lease ids u s) = cn_stored s" "cn_stored (add_errors n s) = cn_stored s"
    "cn_stored (add_skipped n s) = cn_stored s" "cn_stored (set_store s st) = cn_stored s"
  by (auto simp: release_lease_def add_errors_def add_skipped_def set_store_def split: prod.splits sum.splits)

lemma retire_sources_stored [simp]: "cn_stored (snd (retire_sources w n grp s)) = cn_stored s"
  by (auto simp: retire_sources_def split: prod.splits sum.splits)

lemma finish_group_stored: "cn_stored (snd (finish_group cf w n grp l1 s)) \<in> {cn_stored s, cn_stored s @ [l1]}"
  by (auto simp: finish_group_def store_summary_def Let_def split: option.splits drop_point.splits prod.splits sum.splits)

lemma consolidate_group_stored:
  assumes "consolidate_group cf w stream grp s = (ge, s')"
  shows "cn_stored s' = cn_stored s \<or> (\<exists>n summary. cf_min_chunks cf \<le> length grp \<and>
    cn_stored s' = cn_stored s @ [cw_protect w (build_l1_chunk w n stream grp summary)])"
proof -
  let ?n = "cn_groups s"
  let ?s2 = "\<lambda>st. (set_store (s\<lparr>cn_groups := Suc ?n\<rparr>) st)\<lparr>cn_engine := cw_other w ?n 0 (cn_engine (set_store (s\<lparr>cn_groups := Suc ?n\<rparr>) st))\<rparr>"
  have fin: "cn_stored (snd (finish_group cf w ?n grp l1 (?s2 st))) \<in> {cn_stored s, cn_stored s @ [l1]}" for l1 st
    using finish_group_stored [of cf w ?n grp l1 "?s2 st"] by simp
  have "s' = snd (consolidate_group cf w stream grp s)" using assms by simp
  then show ?thesis
    using fin [of "cw_protect w (build_l1_chunk w ?n stream grp summary)" for summary]
    by (auto simp: consolidate_group_def Let_def split: prod.splits sum.splits)
qed

lemma consolidate_groups_stored:
  "\<exists>used new. subseq used gs \<and> cn_stored (snd (consolidate_groups cf w stream gs s)) = cn_stored s @ new \<and>
     list_all2 (\<lambda>l g. cf_min_chunks cf \<le> length g \<and> (\<exists>n summary. l = cw_protect w (build_l1_chunk w n stream g summary))) new used"
proof (induction cf w stream gs s rule: consolidate_groups.induct)
  case (2 cf w stream g gs s)
  let ?R = "\<lambda>l g. cf_min_chunks cf \<le> length g \<and> (\<exists>n summary. l = cw_protect w (build_l1_chunk w n stream g summary))"
  obtain ge s' where one: "consolidate_group cf w stream g s = (ge, s')" by force
  obtain used1 new1 where first: "subseq used1 [g]" "cn_stored s' = cn_stored s @ new1" "list_all2 ?R new1 used1"
  proof (cases "cn_stored s' = cn_stored s")
    case True
    then show thesis using that [of "[]" "[]"] by simp
  next
    case False
    then obtain n summary where l: "cf_min_chunks cf \<le> length g"
        "cn_stored s' = cn_stored s @ [cw_protect w (build_l1_chunk w n stream g summary)]"
      using consolidate_group_stored [OF one] by auto
    show thesis using that [of "[g]" "[cw_protect w (build_l1_chunk w n stream g summary)]"] l by auto
  qed
  show ?case
  proof (cases ge)
    case NextGroup
    then obtain used new where r: "subseq used gs" "cn_stored (snd (consolidate_groups cf w stream gs s')) = cn_stored s' @ new"
        "list_all2 ?R new used" using 2 [OF one [symmetric]] by blast
    have "subseq (used1 @ used) (g # gs)" using list_emb_append_mono [OF first(1) r(1)] by simp
    moreover have "list_all2 ?R (new1 @ new) (used1 @ used)" using first(3) r(3) by (rule list_all2_appendI)
    moreover have "cn_stored (snd (consolidate_groups cf w stream (g # gs) s)) = cn_stored s @ new1 @ new"
      using one NextGroup r(2) first(2) by simp
    ultimately show ?thesis by blast
  next
    case StopStream
    moreover have "subseq used1 (g # gs)" using first(1) list_emb_append_mono [OF first(1), of "[]" gs] by simp
    ultimately show ?thesis using one first by (intro exI [of _ used1] exI [of _ new1]) simp
  next
    case Dropped
    moreover have "subseq used1 (g # gs)" using first(1) list_emb_append_mono [OF first(1), of "[]" gs] by simp
    ultimately show ?thesis using one first by (intro exI [of _ used1] exI [of _ new1]) simp
  qed
qed auto

lemma subseq_concat_mset: "subseq xs ys \<Longrightarrow> mset (concat xs) \<subseteq># mset (concat ys)"
proof (induction rule: list_emb.induct)
  case (list_emb_Cons xs ys y)
  then show ?case by (auto intro: subset_mset.add_increasing)
qed (auto intro: subset_mset.add_mono)

lemma consolidate_streams_stored:
  "fair_world w \<Longrightarrow> \<forall>(k, cs) \<in> set ss. \<forall>c \<in> set cs. ch_stream c = k \<Longrightarrow>
    \<exists>used new. mset (concat used) \<subseteq># mset (concat (map snd ss)) \<and>
      cn_stored (snd (consolidate_streams cf w ss s)) = cn_stored s @ new \<and> list_all2 (summary_of cf) new used"
proof (induction ss arbitrary: s)
  case (Cons p rest)
  obtain stream chunks where p [simp]: "p = (stream, chunks)" by force
  note w = Cons.prems(1)
  have own: "\<forall>c \<in> set chunks. ch_stream c = stream" and ok: "\<forall>(k, cs) \<in> set rest. \<forall>c \<in> set cs. ch_stream c = k"
    using Cons.prems(2) by auto
  show ?case
  proof (cases "cw_cancelled w (cn_groups s)")
    case True
    then show ?thesis by (intro exI [of _ "[]"]) simp
  next
    case live: False
    show ?thesis
    proof (cases "length chunks < cf_min_chunks cf")
      case True
      then obtain used new where "mset (concat used) \<subseteq># mset (concat (map snd rest))"
          "cn_stored (snd (consolidate_streams cf w rest (add_skipped (length chunks) s))) = cn_stored s @ new"
          "list_all2 (summary_of cf) new used" using Cons.IH [OF w ok, of "add_skipped (length chunks) s"] by auto
      then show ?thesis using live True
        by (intro exI [of _ used] exI [of _ new]) (simp add: subset_mset.add_increasing)
    next
      case False
      let ?batch = "take (cf_batch_size cf) chunks"
      let ?gs = "cluster_by_similarity (stored_vector w (cn_store s)) ?batch (cf_similarity_threshold cf)"
      obtain fin s' where one: "consolidate_groups cf w stream ?gs s = (fin, s')" by force
      obtain used1 new1 where u: "subseq used1 ?gs" "cn_stored s' = cn_stored s @ new1"
          "list_all2 (\<lambda>l g. cf_min_chunks cf \<le> length g \<and>
             (\<exists>n summary. l = cw_protect w (build_l1_chunk w n stream g summary))) new1 used1"
        using consolidate_groups_stored [of ?gs cf w stream s] one by auto
      have m: "mset (concat used1) \<subseteq># mset ?batch" using subseq_concat_mset [OF u(1)] by (simp add: cluster_mset)
      have sub: "mset (concat used1) \<subseteq># mset chunks"
        using subset_mset.order_trans [OF m] mset_subset_eq_add_left [of "mset ?batch" "mset (drop (cf_batch_size cf) chunks)"]
        by (simp flip: mset_append)
      have size: "length g \<le> cf_batch_size cf \<and> set g \<subseteq> set chunks" if "g \<in> set used1" for g
      proof -
        have "mset g \<subseteq># mset (concat used1)" using that by (auto simp: in_set_conv_decomp intro: subset_mset.add_increasing)
        then have g: "mset g \<subseteq># mset ?batch" using m by (rule subset_mset.order_trans)
        then have "length g \<le> length ?batch" by (metis size_mset size_mset_mono)
        moreover have "set g \<subseteq> set ?batch" using set_mset_mono [OF g] by simp
        ultimately show ?thesis using set_take_subset [of "cf_batch_size cf" chunks] by auto
      qed
      have "list_all2 (summary_of cf) new1 used1"
      proof (rule list.rel_mono_strong [OF u(3)])
        fix l g assume g: "g \<in> set used1" and l: "cf_min_chunks cf \<le> length g \<and>
            (\<exists>n summary. l = cw_protect w (build_l1_chunk w n stream g summary))"
        then obtain n summary where l1: "l = cw_protect w (build_l1_chunk w n stream g summary)" by blast
        show "summary_of cf l g"
          using l size [OF g] own unfolding l1 summary_of_def marks_protect [OF w]
          by (auto simp: build_l1_chunk_def Let_def)
      qed
      note first = this
      show ?thesis
      proof (cases fin)
        case True
        obtain used new where r: "mset (concat used) \<subseteq># mset (concat (map snd rest))"
            "cn_stored (snd (consolidate_streams cf w rest s')) = cn_stored s' @ new" "list_all2 (summary_of cf) new used"
          using Cons.IH [OF w ok, of s'] by auto
        have "mset (concat (used1 @ used)) \<subseteq># mset (concat (map snd (p # rest)))"
          using subset_mset.add_mono [OF sub r(1)] by simp
        moreover have "list_all2 (summary_of cf) (new1 @ new) (used1 @ used)" using first r(3) by (rule list_all2_appendI)
        moreover have "cn_stored (snd (consolidate_streams cf w (p # rest) s)) = cn_stored s @ new1 @ new"
          using live False one True u(2) r(2) by simp
        ultimately show ?thesis by blast
      next
        case Fin: False
        have "mset (concat used1) \<subseteq># mset (concat (map snd (p # rest)))"
          using sub by (simp add: subset_mset.add_increasing2)
        moreover have "cn_stored (snd (consolidate_streams cf w (p # rest) s)) = cn_stored s @ new1"
          using live False one Fin u(2) by simp
        ultimately show ?thesis using first by blast
      qed
    qed
  qed
qed auto

section \<open>The candidates\<close>

lemma distinct_submset: "mset xs \<subseteq># mset ys \<Longrightarrow> distinct ys \<Longrightarrow> distinct xs"
proof (unfold distinct_count_atmost_1, intro allI)
  fix a assume sub: "mset xs \<subseteq># mset ys" and d: "\<forall>a. count (mset ys) a = (if a \<in> set ys then 1 else 0)"
  have "count (mset xs) a \<le> count (mset ys) a" by (rule mset_subset_eq_count [OF sub])
  also have "\<dots> \<le> 1" using d by simp
  finally show "count (mset xs) a = (if a \<in> set xs then 1 else 0)"
    using count_greater_zero_iff [of "mset xs" a] by (auto simp: le_Suc_eq simp flip: not_in_iff)
qed

lemma scan_l0_loop_subseq:
  "\<exists>ds. scan_l0_loop pv now a limit rs acc = acc @ ds \<and> subseq ds (filter (\<lambda>c. eligible c now a) (decoded pv rs))"
proof (induction pv now a limit rs acc rule: scan_l0_loop.induct)
  case (2 pv now a limit k r rs acc)
  show ?case
  proof (cases "limit \<le> length acc")
    case False
    note IH = 2 [OF this]
    show ?thesis
    proof (cases "decode_chunk pv r")
      case (Inl x)
      with IH False show ?thesis by (simp add: decoded_Cons)
    next
      case (Inr c)
      show ?thesis
      proof (cases "eligible c now a")
        case True
        with IH Inr False obtain ds where "scan_l0_loop pv now a limit rs (acc @ [c]) = (acc @ [c]) @ ds"
            "subseq ds (filter (\<lambda>c. eligible c now a) (decoded pv rs))" by auto
        then show ?thesis using Inr False True by (intro exI [of _ "c # ds"]) (simp add: decoded_Cons)
      next
        case no: False
        with IH Inr False show ?thesis by (simp add: decoded_Cons)
      qed
    qed
  qed simp
qed simp

lemma stored_chunk_found:
  assumes "store_ok st" "single_level st" "kv_get (st_db st) k = Some r" "decode_chunk (st_prov st) r = Inr c"
    and "starts_with k ''chunk:L0:'' \<or> starts_with k ''chunk:L1:''"
  shows "k = chunk_key (ch_level c) (ch_id c) \<and> get_chunk st (ch_id c) = Inr (Some c)"
proof -
  have "starts_with k ''chunk:''" using assms(5) by (auto simp: prefix_def)
  then have k: "k = chunk_key (ch_level c) (ch_id c)" using assms(1,3,4) unfolding store_ok_def row_keyed_def by blast
  have lv: "ch_level c \<in> {0, 1}" using assms(5) unfolding k chunk_key_level by auto
  have row: "kv_get (st_db st) (chunk_key (ch_level c) (ch_id c)) = Some r" using assms(3) k by simp
  have "kv_get (st_db st) (chunk_key 0 (ch_id c)) = None" if "ch_level c = 1"
    using single_levelD [OF assms(2) _ row, of 0] that by (cases "kv_get (st_db st) (chunk_key 0 (ch_id c))") auto
  with lv row assms(4) have "get_chunk st (ch_id c) = Inr (Some c)" by (auto simp: get_chunk_def)
  with k show ?thesis by simp
qed

lemma scanned_rows:
  assumes "store_ok st" "single_level st" "p \<in> {''chunk:L0:'', ''chunk:L1:''}"
  shows "distinct (map ch_id (decoded (st_prov st) (kv_prefix p (st_db st)))) \<and>
    (\<forall>c \<in> set (decoded (st_prov st) (kv_prefix p (st_db st))). get_chunk st (ch_id c) = Inr (Some c))"
proof -
  let ?rs = "kv_prefix p (st_db st)"
  have s: "kv_sorted (st_db st)" using assms(1) by (simp add: store_ok_def)
  have rows: "k = chunk_key (ch_level c) (ch_id c) \<and> get_chunk st (ch_id c) = Inr (Some c)"
    if "(k, r) \<in> set ?rs" "decode_chunk (st_prov st) r = Inr c" for k r c
    by (rule stored_chunk_found [OF assms(1,2) _ that(2)]) (use that(1) assms(3) kv_prefix_get [OF s] in auto)
  have one: "ch_level c = (if p = ''chunk:L0:'' then 0 else 1)" if "c \<in> set (decoded (st_prov st) ?rs)" for c
  proof -
    obtain k r where kr: "(k, r) \<in> set ?rs" "decode_chunk (st_prov st) r = Inr c" using \<open>c \<in> _\<close> unfolding decoded_set by blast
    then have "starts_with (chunk_key (ch_level c) (ch_id c)) p" using rows kv_prefix_get [OF s] by blast
    with assms(3) show ?thesis by (auto simp: chunk_key_level)
  qed
  have "distinct (map (\<lambda>c. chunk_key (ch_level c) (ch_id c)) (decoded (st_prov st) ?rs))"
    by (rule distinct_decoded) (use distinct_prefix_rows [OF s] rows in auto)
  then have "distinct (map ch_id (decoded (st_prov st) ?rs))" using one by (simp add: distinct_map inj_on_def)
  moreover have "\<forall>c \<in> set (decoded (st_prov st) ?rs). get_chunk st (ch_id c) = Inr (Some c)"
  proof
    fix c assume "c \<in> set (decoded (st_prov st) ?rs)"
    then obtain k r where "(k, r) \<in> set ?rs" "decode_chunk (st_prov st) r = Inr c" unfolding decoded_set by blast
    then show "get_chunk st (ch_id c) = Inr (Some c)" using rows by blast
  qed
  ultimately show ?thesis by blast
qed


section \<open>Decay\<close>

definition decayed :: "(rat \<Rightarrow> rat \<Rightarrow> rat) \<Rightarrow> decay_worker_config \<Rightarrow> nat \<Rightarrow> chunk \<Rightarrow> chunk \<Rightarrow> bool" where
  "decayed powf cfg now c c' \<longleftrightarrow> c' = c \<or> (\<not> ch_persistent c \<and>
     ((c' = c\<lparr>ch_persistent := True\<rparr> \<and> dw_persistent_auto_enabled cfg \<and> dw_persistent_auto_threshold cfg \<le> ch_access_count c) \<or>
      (c' = c\<lparr>ch_dormant := True\<rparr> \<and> compute_new_score powf cfg c now < dw_dormant_threshold cfg) \<or>
      (c' = c\<lparr>ch_score := compute_new_score powf cfg c now, ch_last_decay := Some now\<rparr> \<and>
         dw_dormant_threshold cfg \<le> compute_new_score powf cfg c now)))"

lemma rewritten:
  assumes "sound st" "get_chunk st i = Inr (Some c)" "keeps_key f" "modify_chunk st i f u = Inr st'"
  shows "sound st' \<and> get_chunk st' i = Inr (Some (f c)) \<and> (\<forall>j. j \<noteq> i \<longrightarrow> get_chunk st' j = get_chunk st j)"
  using modify_effect [OF assms(1,3,4)] assms(2) by auto

lemma decay_one_effect:
  assumes "sound st" "get_chunk st (ch_id c) = Inr (Some c)" "decay_one powf cfg now u c (rep, st) = (rep', st')"
  shows "sound st' \<and> (\<exists>c'. get_chunk st' (ch_id c) = Inr (Some c') \<and> decayed powf cfg now c c') \<and>
    (\<forall>j. j \<noteq> ch_id c \<longrightarrow> get_chunk st' j = get_chunk st j)"
proof (cases "ch_persistent c")
  case True
  with assms show ?thesis by (auto simp: decay_one_def decayed_def)
next
  case False
  have promote: "mark_persistent st (ch_id c) u = modify_chunk st (ch_id c) (\<lambda>c. c\<lparr>ch_persistent := True\<rparr>) u"
    using assms(2) False by (simp add: mark_persistent_def modify_chunk_def)
  have applied: ?thesis if "apply_score st c (compute_new_score powf cfg c now) now (dw_dormant_threshold cfg) u r = (rep', st')" for r
  proof (cases "compute_new_score powf cfg c now < dw_dormant_threshold cfg")
    case True
    show ?thesis
    proof (cases "mark_dormant st (ch_id c) u")
      case (Inl e)
      with that True assms show ?thesis by (auto simp: apply_score_def decayed_def)
    next
      case (Inr st1)
      then have "st' = st1" using that True by (simp add: apply_score_def)
      with rewritten [OF assms(1,2) _ Inr [unfolded mark_dormant_def]] True False show ?thesis
        by (simp add: keeps_key_def decayed_def)
    qed
  next
    case high: False
    show ?thesis
    proof (cases "update_score st (ch_id c) (compute_new_score powf cfg c now) now u")
      case (Inl e)
      with that high assms show ?thesis by (auto simp: apply_score_def decayed_def)
    next
      case (Inr st1)
      then have "st' = st1" using that high by (simp add: apply_score_def)
      with rewritten [OF assms(1,2) _ Inr [unfolded update_score_def]] high False show ?thesis
        by (simp add: keeps_key_def decayed_def)
    qed
  qed
  show ?thesis
  proof (cases "dw_persistent_auto_enabled cfg \<and> dw_persistent_auto_threshold cfg \<le> ch_access_count c")
    case no: False
    with assms(3) False applied show ?thesis by (auto simp: decay_one_def try_auto_promote_def)
  next
    case yes: True
    show ?thesis
    proof (cases "mark_persistent st (ch_id c) u")
      case (Inl e)
      with assms(3) False yes applied show ?thesis by (auto simp: decay_one_def try_auto_promote_def)
    next
      case (Inr st1)
      then have "st' = st1" using assms(3) False yes by (simp add: decay_one_def try_auto_promote_def)
      with rewritten [OF assms(1,2) _ Inr [unfolded promote]] yes False show ?thesis
        by (simp add: keeps_key_def decayed_def)
    qed
  qed
qed

lemma decay_loop_effect:
  assumes "sound st" "distinct (map ch_id cs)" "\<And>c. c \<in> set cs \<Longrightarrow> get_chunk st (ch_id c) = Inr (Some c)"
    and "decay_loop powf cfg now u cancelled n cs (rep, st) = (rep', st')"
  shows "\<forall>i. get_chunk st' i = get_chunk st i \<or>
    (\<exists>c \<in> set cs. ch_id c = i \<and> (\<exists>c'. get_chunk st' i = Inr (Some c') \<and> decayed powf cfg now c c'))"
  using assms
proof (induction cs arbitrary: n rep st)
  case (Cons c cs)
  show ?case
  proof (cases "cancelled n")
    case False
    obtain rep1 st1 where one: "decay_one powf cfg now u c (rep, st) = (rep1, st1)" by force
    have e: "sound st1 \<and> (\<exists>c'. get_chunk st1 (ch_id c) = Inr (Some c') \<and> decayed powf cfg now c c') \<and>
        (\<forall>j. j \<noteq> ch_id c \<longrightarrow> get_chunk st1 j = get_chunk st j)"
      by (rule decay_one_effect [OF Cons.prems(1) _ one]) (use Cons.prems(3) in simp)
    have rest: "\<forall>i. get_chunk st' i = get_chunk st1 i \<or>
        (\<exists>d \<in> set cs. ch_id d = i \<and> (\<exists>c'. get_chunk st' i = Inr (Some c') \<and> decayed powf cfg now d c'))"
    proof (rule Cons.IH)
      fix d assume d: "d \<in> set cs"
      then have "ch_id d \<in> ch_id ` set cs" by (rule imageI)
      then have "ch_id d \<noteq> ch_id c" using Cons.prems(2) by auto
      then show "get_chunk st1 (ch_id d) = Inr (Some d)" using e Cons.prems(3) d by simp
    qed (use e Cons.prems one False in auto)
    show ?thesis
    proof
      fix i
      consider (later) d where "d \<in> set cs" "ch_id d = i" "\<exists>c'. get_chunk st' i = Inr (Some c') \<and> decayed powf cfg now d c'"
        | (same) "get_chunk st' i = get_chunk st1 i" using rest by blast
      then show "get_chunk st' i = get_chunk st i \<or> (\<exists>d \<in> set (c # cs). ch_id d = i \<and>
          (\<exists>c'. get_chunk st' i = Inr (Some c') \<and> decayed powf cfg now d c'))"
      proof cases
        case later
        then show ?thesis by auto
      next
        case same
        with e show ?thesis by (cases "i = ch_id c") auto
      qed
    qed
  qed (use Cons.prems in simp)
qed simp

text \<open>
  C0. What a decay cycle may do to a memory: nothing, when it was not scanned or is persistent; make it
  persistent, when it was used often enough; make it dormant, when its score has fallen below the
  threshold; or write its lower score and the time - nothing else of it changes, and no memory appears
  or vanishes.
\<close>

theorem decay_touches_only_scores:
  assumes "sound st" and run: "run_decay powf cfg now u cancelled st = (rep, st')"
  shows "get_chunk st' i = get_chunk st i \<or> (\<exists>c c'. c \<in> set (scan_for_decay st (dw_dormant_threshold cfg)) \<and>
    get_chunk st i = Inr (Some c) \<and> get_chunk st' i = Inr (Some c') \<and> decayed powf cfg now c c')"
proof -
  let ?scan = "scan_for_decay st (dw_dormant_threshold cfg)"
  have st: "store_ok st" "single_level st" using assms(1) by (simp_all add: sound_def)
  have rows: "get_chunk st (ch_id c) = Inr (Some c)" if "c \<in> set (decoded (st_prov st) (level_rows st))" for c
    using that scanned_rows [OF st, of "''chunk:L0:''"] scanned_rows [OF st, of "''chunk:L1:''"]
    by (auto simp: decoded_set level_rows_def)
  have "distinct (map (\<lambda>c. chunk_key (ch_level c) (ch_id c)) (decoded (st_prov st) (level_rows st)))"
    by (rule distinct_decoded) (use distinct_level_rows [OF st(1)] level_rows_keyed [OF st(1)] in auto)
  then have "distinct (decoded (st_prov st) (level_rows st))" by (simp add: distinct_map)
  moreover have "inj_on ch_id (set (decoded (st_prov st) (level_rows st)))"
    by (rule inj_onI) (metis rows option.inject sum.inject(2))
  ultimately have "distinct (map ch_id (decoded (st_prov st) (level_rows st)))" by (simp add: distinct_map)
  then have d: "distinct (map ch_id ?scan)" unfolding scan_for_decay_def by (rule distinct_map_filter)
  have c: "get_chunk st (ch_id c) = Inr (Some c)" if "c \<in> set ?scan" for c
    using rows that by (simp add: scan_for_decay_def)
  have "\<forall>i. get_chunk st' i = get_chunk st i \<or>
      (\<exists>c \<in> set ?scan. ch_id c = i \<and> (\<exists>c'. get_chunk st' i = Inr (Some c') \<and> decayed powf cfg now c c'))"
    by (rule decay_loop_effect [OF assms(1) d c run [unfolded run_decay_def]])
  then show ?thesis using c by blast
qed

text \<open>A stamp ahead of the clock: the age wraps to nearly the whole range of \<^verbatim>\<open>u64\<close>.\<close>

lemma future_stamp_ages:
  "decay_since c = now + k \<Longrightarrow> 0 < k \<Longrightarrow> k \<le> u64_max \<Longrightarrow> wrapping_sub64 now (decay_since c) = u64_max + 1 - k"
  by (simp add: wrapping_sub64_def)

section \<open>The fence around stored text\<close>

abbreviation closing :: string where "closing \<equiv> ''[/CHUNK]''"

lemma replaced_prefix:
  "prefix p (replace_all closing ''[/ CHUNK]'' s) \<Longrightarrow> CHR ''['' \<notin> set p \<Longrightarrow> prefix p s"
proof (induction closing "''[/ CHUNK]''" s arbitrary: p rule: replace_all.induct)
  case (2 c cs)
  show ?case
  proof (cases "prefix closing (c # cs)")
    case True
    with 2(3,4) show ?thesis by (cases p) auto
  next
    case False
    with 2 show ?thesis by (cases p) auto
  qed
qed simp

lemma replaced_has_none: "\<not> sublist closing (replace_all closing ''[/ CHUNK]'' s)"
proof (induction closing "''[/ CHUNK]''" s rule: replace_all.induct)
  case (2 c cs)
  show ?case
  proof (cases "prefix closing (c # cs)")
    case True
    with 2(1) show ?thesis by (auto simp: sublist_Cons_right)
  next
    case False
    have "\<not> prefix closing (c # replace_all closing ''[/ CHUNK]'' cs)"
      using False replaced_prefix [of "''/CHUNK]''" cs] by auto
    with False 2(2) show ?thesis by (auto simp: sublist_Cons_right)
  qed
qed simp

lemma replace_all_id: "\<not> sublist pat s \<Longrightarrow> replace_all pat new s = s"
  by (induction pat new s rule: replace_all.induct) (auto simp: sublist_Cons_right)

text \<open>
  C0. Each memory reaches the model inside its own fence: between the marks stands its text with every
  closing mark defused, so the fence cannot be closed from inside, and a text without one stands as it is.
\<close>

theorem fence_holds:
  "\<exists>body. wrap_untrusted i content = ''[CHUNK id='' @ [CHR 0x22] @ i @ [CHR 0x22] @ '']'' @ [CHR 0x0A] @ body @
      [CHR 0x0A] @ ''[/CHUNK]'' \<and> \<not> sublist ''[/CHUNK]'' body \<and> (sublist ''[/CHUNK]'' content \<or> body = content)"
  using replaced_has_none [of content] replace_all_id [of closing content]
  unfolding wrap_untrusted_def by blast

section \<open>Witnesses\<close>

text \<open>A run over one stored chunk, with a quiet outside and a model that answers.\<close>

definition w_world :: cons_world where
  "w_world = \<lparr>cw_now = 100, cw_ctx = (\<lambda>n. w_ctx), cw_cancelled = (\<lambda>n. False), cw_budget_ok = (\<lambda>n. True),
     cw_sanitize = (\<lambda>t. t), cw_compress = (\<lambda>n p. Inr ''summary''), cw_enrich = (\<lambda>t a. None), cw_protect = (\<lambda>c. c),
     cw_embed = (\<lambda>n t. Inl (Err ''no model'')), cw_vec = (\<lambda>b. None), cw_uuid = (\<lambda>n. ''u''), cw_doc = (\<lambda>c. pa_doc w_args),
     cw_intent_log = True, cw_other = (\<lambda>n k e. e), cw_drop = (\<lambda>n. None), cw_outputs = (\<lambda>n c v e. e)\<rparr>"

definition w_cf :: consolidation_config where
  "w_cf = \<lparr>cf_batch_size = 10, cf_min_chunks = 1, cf_min_age_secs = 5, cf_similarity_threshold = 0, cf_quality_gate_threshold = 0\<rparr>"

definition w_full :: engine where
  "w_full = w_engine\<lparr>en_store := w_store (w_chunk ''x'')\<rparr>"

lemma w_world_fair: "fair_world w_world"
  by (simp add: fair_world_def w_world_def calm_def)

lemma w_store_sound: "sound (w_store (w_chunk ''x''))"
proof -
  have "single_level (w_store (w_chunk ''x''))" by (auto simp: single_level_def w_store_def split: if_splits)
  moreover have "kv_get (st_db (w_store (w_chunk ''x''))) (chunk_key l (''L1:'' @ y)) = None" for l y
    by (simp add: w_store_def w_chunk_def)
  ultimately show ?thesis by (simp add: sound_def)
qed

lemma w_full_sound: "sound (en_store w_full)"
  by (simp add: w_full_def w_store_sound)

lemma w_full_flags: "flagged ch_in_progress (en_store w_full) = {}" "flagged ch_consolidated (en_store w_full) = {}"
  by (auto simp: flagged_def w_full_def) (auto simp: w_chunk_def)



definition w_decay :: decay_worker_config where
  "w_decay = \<lparr>dw_l0_factor = 1 / 2, dw_l1_factor = 3 / 4, dw_dormant_threshold = 1 / 10, dw_adaptive_enabled = False,
     dw_adaptive_dampening = 0, dw_adaptive_cap = 200, dw_persistent_auto_threshold = 50, dw_persistent_auto_enabled = True\<rparr>"

definition w_powf :: "rat \<Rightarrow> rat \<Rightarrow> rat" where
  "w_powf x y = (if 1 \<le> y then x else 1)"

theorem decay_touches_only_scores_witness:
  "\<exists>rep st'. run_decay w_powf w_decay 3600 ''u'' (\<lambda>n. False) (w_store (w_chunk ''x'')) = (rep, st') \<and>
     (get_chunk st' ''x'' = Inr (Some (w_chunk ''x'')) \<or>
      (\<exists>c'. get_chunk st' ''x'' = Inr (Some c') \<and> decayed w_powf w_decay 3600 (w_chunk ''x'') c'))"
proof -
  have x: "get_chunk (w_store (w_chunk ''x'')) ''x'' = Inr (Some (w_chunk ''x''))" by simp (simp add: w_chunk_def)
  obtain rep st' where run: "run_decay w_powf w_decay 3600 ''u'' (\<lambda>n. False) (w_store (w_chunk ''x'')) = (rep, st')" by force
  from decay_touches_only_scores [OF w_store_sound run, of "''x''"] run x show ?thesis by auto
qed

end
