(* ===== verification/Feedback.thy ===== *)
theory Feedback
  imports Access Lifecycle EntityRows
begin

text \<open>
  Ratings of memories: the request of \<^verbatim>\<open>loomem-server/src/handlers/feedback.rs\<close> and the service of
  \<^verbatim>\<open>loomem-core/src/feedback\<close> (\<^verbatim>\<open>service.rs\<close>, \<^verbatim>\<open>event.rs\<close>, \<^verbatim>\<open>config.rs\<close>), which updates the tally on the
  chunk and appends an event row in one batch. The serialiser is an argument, as are the clock and the
  drawn ids.
\<close>

section \<open>Data\<close>

record feedback_config =
  fk_max_ratings :: nat
  fk_max_justification :: nat

record feedback_event =
  fe_event_id :: string
  fe_chunk_id :: string
  fe_stream :: string
  fe_agent_id :: string
  fe_model_version :: string
  fe_prompt_version :: string
  fe_usefulness :: nat
  fe_harmful :: bool
  fe_justification :: string
  fe_trajectory_id :: "string option"
  fe_rated_at :: int

record rating_item =
  ri_chunk_id :: string
  ri_usefulness :: nat
  ri_harmful :: bool
  ri_justification :: string

record feedback_request =
  fq_model_version :: string
  fq_prompt_version :: string
  fq_trajectory_id :: "string option"
  fq_ratings :: "rating_item list"

record feedback_serde =
  fs_ser :: "feedback_event \<Rightarrow> string"
  fs_de :: "string \<Rightarrow> feedback_event option"

datatype rating_outcome = Accepted | Rejected string string

datatype feedback_error = BadRating string | TooManyRatings string | RatingFailed err

definition event_prefix_for_chunk :: "string \<Rightarrow> string" where
  "event_prefix_for_chunk i = ''feedback:'' @ i @ '':''"

definition event_key :: "string \<Rightarrow> int \<Rightarrow> string \<Rightarrow> string" where
  "event_key i t e = ''feedback:'' @ i @ '':'' @ show_int t @ '':'' @ e"

section \<open>The service\<close>

definition validate_rating :: "feedback_config \<Rightarrow> nat \<Rightarrow> bool \<Rightarrow> string \<Rightarrow> string + unit" where
  "validate_rating cfg usefulness harmful justification =
     (if 4 < usefulness then Inl (''usefulness '' @ show_nat usefulness @ '' out of range 0..=4'')
      else if justification = [] then Inl ''justification must not be empty''
      else if fk_max_justification cfg < char_count justification
      then Inl (''justification exceeds max_justification_chars='' @ show_nat (fk_max_justification cfg))
      else if harmful \<and> trim justification = [] then Inl ''harmful=true requires non-empty justification''
      else Inr ())"

definition update_chunk_tally :: "chunk \<Rightarrow> nat \<Rightarrow> bool \<Rightarrow> int \<Rightarrow> chunk" where
  "update_chunk_tally c usefulness harmful rated_at =
     (let u = of_nat usefulness;
          c1 = c\<lparr>ch_alpha := ch_alpha c + u / 4, ch_beta := ch_beta c + (4 - u) / 4\<rparr>;
          c2 = (if harmful
                then c1\<lparr>ch_beta := ch_beta c1 + 4, ch_harmful_count := min (Suc (ch_harmful_count c1)) u32_max\<rparr>
                else c1)
      in c2\<lparr>ch_n_ratings := min (Suc (ch_n_ratings c2)) u32_max, ch_last_rated_at := Some rated_at\<rparr>)"

definition write_batch_atomic :: "feedback_serde \<Rightarrow> store \<Rightarrow> chunk \<Rightarrow> feedback_event \<Rightarrow> store res" where
  "write_batch_atomic fs st c ev =
     rbind (encode_chunk (st_prov st) c) (\<lambda>r.
       Inr (st\<lparr>st_db := kv_batch [BPut (chunk_key (ch_level c) (ch_id c)) r,
              BPut (event_key (fe_chunk_id ev) (fe_rated_at ev) (fe_event_id ev)) (VBytes (fs_ser fs ev))] (st_db st)\<rparr>))"

definition rating_event :: "feedback_request \<Rightarrow> auth_context \<Rightarrow> rating_item \<Rightarrow> int \<Rightarrow> string \<Rightarrow> string \<Rightarrow> feedback_event" where
  "rating_event rq auth r now event_id stream =
     \<lparr>fe_event_id = event_id, fe_chunk_id = ri_chunk_id r, fe_stream = stream, fe_agent_id = ac_stream_id auth,
      fe_model_version = fq_model_version rq, fe_prompt_version = fq_prompt_version rq,
      fe_usefulness = ri_usefulness r, fe_harmful = ri_harmful r, fe_justification = ri_justification r,
      fe_trajectory_id = fq_trajectory_id rq, fe_rated_at = now\<rparr>"

definition apply_rating ::
  "feedback_serde \<Rightarrow> store \<Rightarrow> auth_context \<Rightarrow> feedback_request \<Rightarrow> rating_item \<Rightarrow> int \<Rightarrow> string \<Rightarrow> (rating_outcome \<times> store) res" where
  "apply_rating fs st auth rq r now event_id =
     rbind (if ac_is_admin auth then get_chunk st (ri_chunk_id r)
            else get_chunk_scoped st (ri_chunk_id r) (ac_stream_id auth)) (\<lambda>co. case co of
       None \<Rightarrow> Inr (Rejected (ri_chunk_id r) ''not_found_in_stream'', st)
     | Some c \<Rightarrow>
         rbind (write_batch_atomic fs st (update_chunk_tally c (ri_usefulness r) (ri_harmful r) now)
                 (rating_event rq auth r now event_id (ch_stream c))) (\<lambda>st'.
           Inr (Accepted, st')))"

fun events_of :: "feedback_serde \<Rightarrow> row cf \<Rightarrow> feedback_event list res" where
  "events_of fs [] = Inr []"
| "events_of fs ((k, r) # rs) =
     (case fs_de fs (row_text r) of
        None \<Rightarrow> Inl (Err ''deserialize FeedbackEvent'')
      | Some ev \<Rightarrow> rbind (events_of fs rs) (\<lambda>evs. Inr (ev # evs)))"

definition query_events_for_chunk :: "feedback_serde \<Rightarrow> store \<Rightarrow> string \<Rightarrow> feedback_event list res" where
  "query_events_for_chunk fs st i = events_of fs (kv_prefix (event_prefix_for_chunk i) (st_db st))"

section \<open>The request\<close>

definition check_request_size :: "feedback_request \<Rightarrow> nat \<Rightarrow> feedback_error + unit" where
  "check_request_size rq limit =
     (if fq_ratings rq = [] then Inl (BadRating ''ratings must not be empty'')
      else if limit < length (fq_ratings rq)
      then Inl (TooManyRatings (''ratings length '' @ show_nat (length (fq_ratings rq)) @
             '' exceeds max_ratings_per_request='' @ show_nat limit))
      else Inr ())"

fun validate_all :: "feedback_config \<Rightarrow> rating_item list \<Rightarrow> feedback_error + unit" where
  "validate_all cfg [] = Inr ()"
| "validate_all cfg (r # rs) =
     (case validate_rating cfg (ri_usefulness r) (ri_harmful r) (ri_justification r) of
        Inl e \<Rightarrow> Inl (BadRating e)
      | Inr _ \<Rightarrow> validate_all cfg rs)"

text \<open>A storage failure ends the loop; the ratings before it stay applied.\<close>

fun apply_all ::
  "feedback_serde \<Rightarrow> auth_context \<Rightarrow> feedback_request \<Rightarrow> int \<Rightarrow> (nat \<Rightarrow> string) \<Rightarrow> nat \<Rightarrow> rating_item list \<Rightarrow>
     nat \<times> (string \<times> string) list \<Rightarrow> store \<Rightarrow> (nat \<times> (string \<times> string) list) res \<times> store" where
  "apply_all fs auth rq now uu n [] acc st = (Inr acc, st)"
| "apply_all fs auth rq now uu n (r # rs) (a, rej) st =
     (case apply_rating fs st auth rq r now (uu n) of
        Inl e \<Rightarrow> (Inl e, st)
      | Inr (Accepted, st') \<Rightarrow> apply_all fs auth rq now uu (Suc n) rs (min (Suc a) u32_max, rej) st'
      | Inr (Rejected i why, st') \<Rightarrow> apply_all fs auth rq now uu (Suc n) rs (a, rej @ [(i, why)]) st')"

definition feedback_handler ::
  "feedback_serde \<Rightarrow> feedback_config \<Rightarrow> auth_context \<Rightarrow> feedback_request \<Rightarrow> int \<Rightarrow> (nat \<Rightarrow> string) \<Rightarrow> store \<Rightarrow>
     (feedback_error + nat \<times> (string \<times> string) list) \<times> store" where
  "feedback_handler fs cfg auth rq now uu st =
     (case check_request_size rq (fk_max_ratings cfg) of
        Inl e \<Rightarrow> (Inl e, st)
      | Inr _ \<Rightarrow>
          (case validate_all cfg (fq_ratings rq) of
             Inl e \<Rightarrow> (Inl e, st)
           | Inr _ \<Rightarrow>
               (case apply_all fs auth rq now uu 0 (fq_ratings rq) (0, []) st of
                  (Inl e, st') \<Rightarrow> (Inl (RatingFailed e), st')
                | (Inr (a, rej), st') \<Rightarrow>
                    (if a = 0 then (Inl (BadRating ''all ratings rejected (no chunk found in caller's stream)''), st')
                     else (Inr (a, rej), st')))))"

end
