(* ===== verification/FeedbackProps.thy ===== *)
theory FeedbackProps
  imports "HOL-Library.Multiset" "HOL-Library.Countable" Feedback CrashProps
begin

text \<open>
  The tally of a rated memory is the summary of its event log, whatever requests add to it, and a
  rating changes nothing but the tally.
\<close>

section \<open>One rating\<close>

definition weight :: "feedback_event \<Rightarrow> rat \<times> rat" where
  "weight ev = (of_nat (fe_usefulness ev) / 4, (4 - of_nat (fe_usefulness ev)) / 4 + (if fe_harmful ev then 4 else 0))"

text \<open>The posterior and the counters that an event log amounts to, from the uniform prior.\<close>

definition tallied :: "feedback_event list \<Rightarrow> chunk \<Rightarrow> bool" where
  "tallied evs c \<longleftrightarrow> ch_alpha c = 1 + sum_list (map (fst \<circ> weight) evs) \<and>
     ch_beta c = 1 + sum_list (map (snd \<circ> weight) evs) \<and>
     ch_n_ratings c = min (length evs) u32_max \<and> ch_harmful_count c = min (length (filter fe_harmful evs)) u32_max"

lemma tallied_mset: "mset evs = mset evs' \<Longrightarrow> tallied evs c = tallied evs' c"
proof -
  assume m: "mset evs = mset evs'"
  have "sum_list (map f evs) = sum_list (map f evs')" for f :: "feedback_event \<Rightarrow> rat"
    using m by (metis mset_map sum_mset_sum_list)
  moreover have "length evs = length evs'" "length (filter fe_harmful evs) = length (filter fe_harmful evs')"
    using m by (metis size_mset, metis m mset_filter size_mset)
  ultimately show ?thesis by (simp add: tallied_def)
qed

lemma tallied_step:
  "tallied evs c \<Longrightarrow> tallied (rating_event rq auth r now eid s # evs) (update_chunk_tally c (ri_usefulness r) (ri_harmful r) now)"
  by (auto simp: tallied_def update_chunk_tally_def rating_event_def weight_def Let_def)

lemma mset_put_fresh: "kv_get d k = None \<Longrightarrow> mset (kv_put k v d) = add_mset (k, v) (mset d)"
  by (induction k v d rule: kv_put.induct) (auto split: if_splits)

lemma kv_prefix_put_other: "\<not> starts_with k p \<Longrightarrow> kv_prefix p (kv_put k v d) = kv_prefix p d"
  by (induction k v d rule: kv_put.induct) (auto simp: kv_prefix_def)

lemma events_of_mset:
  "mset rs = mset rs' \<Longrightarrow> events_of fs rs = Inr evs \<Longrightarrow> \<exists>evs'. events_of fs rs' = Inr evs' \<and> mset evs' = mset evs"
proof -
  have set: "events_of fs xs = Inr ys \<longleftrightarrow> list_all2 (\<lambda>x y. fs_de fs (row_text (snd x)) = Some y) xs ys" for xs ys
  proof (induction xs arbitrary: ys)
    case (Cons x xs)
    then show ?case by (cases x; cases ys) (auto simp: rbind_Inr_iff split: option.splits)
  qed auto
  assume m: "mset rs = mset rs'" and "events_of fs rs = Inr evs"
  then have "list_all2 (\<lambda>x y. fs_de fs (row_text (snd x)) = Some y) rs evs" using set by blast
  then have e: "evs = map (\<lambda>x. the (fs_de fs (row_text (snd x)))) rs" "\<forall>x \<in> set rs. fs_de fs (row_text (snd x)) \<noteq> None"
    by (induction) auto
  have "\<forall>x \<in> set rs'. fs_de fs (row_text (snd x)) \<noteq> None" using e(2) m by (metis set_mset_mset)
  then have "events_of fs rs' = Inr (map (\<lambda>x. the (fs_de fs (row_text (snd x)))) rs')"
    unfolding set by (induction rs') auto
  then show ?thesis using e(1) m by (metis mset_map)
qed

lemma event_key_prefix:
  "starts_with (event_key i t e) (event_prefix_for_chunk i)"
  "(i @ '':'') \<parallel> (j @ '':'') \<Longrightarrow> \<not> starts_with (event_key j t e) (event_prefix_for_chunk i)"
proof -
  show "starts_with (event_key i t e) (event_prefix_for_chunk i)"
    by (simp add: event_key_def event_prefix_for_chunk_def)
  assume p: "(i @ '':'') \<parallel> (j @ '':'')"
  show "\<not> starts_with (event_key j t e) (event_prefix_for_chunk i)"
  proof
    assume "starts_with (event_key j t e) (event_prefix_for_chunk i)"
    then have "prefix (i @ '':'') ((j @ '':'') @ show_int t @ '':'' @ e)"
      by (simp add: event_key_def event_prefix_for_chunk_def)
    moreover have "prefix (j @ '':'') ((j @ '':'') @ show_int t @ '':'' @ e)" by (rule prefixI) simp
    ultimately show False using prefix_same_cases p by (metis parallelE)
  qed
qed

lemma event_key_neq:
  "i = j \<or> (i @ '':'') \<parallel> (j @ '':'') \<Longrightarrow> (i, e) \<noteq> (j, e') \<Longrightarrow> event_key i t e \<noteq> event_key j t e'"
  using event_key_prefix(1) [of i t e] event_key_prefix(2) [of i j t e'] by (cases "i = j") (auto simp: event_key_def [of j])

lemma event_key_not_chunk [simp]: "event_key i t e \<noteq> chunk_key l j" "chunk_key l j \<noteq> event_key i t e"
  "\<not> starts_with (event_key i t e) ''chunk:''" "\<not> starts_with (chunk_key l j) (event_prefix_for_chunk i)"
  by (auto simp: event_key_def chunk_key_def event_prefix_for_chunk_def prefix_def)

text \<open>The fields that a rating does not touch.\<close>

definition untallied :: "chunk \<Rightarrow> chunk" where
  "untallied c = c\<lparr>ch_alpha := 0, ch_beta := 0, ch_harmful_count := 0, ch_n_ratings := 0, ch_last_rated_at := None\<rparr>"

lemma untallied_update [simp]: "untallied (update_chunk_tally c u h t) = untallied c"
  by (simp add: untallied_def update_chunk_tally_def Let_def)

lemma tally_keeps [simp]: "ch_id (update_chunk_tally c u h t) = ch_id c" "ch_level (update_chunk_tally c u h t) = ch_level c"
  by (simp_all add: update_chunk_tally_def Let_def)

text \<open>The batch: one existing chunk row and one row that is no chunk.\<close>

lemma write_batch_effect:
  assumes ok: "store_ok st" and single: "single_level st" and c: "get_chunk st (ch_id c) = Inr (Some old)" "ch_level c = ch_level old"
    and w: "write_batch_atomic fs st c ev = Inr st'"
  shows "store_ok st' \<and> single_level st' \<and> get_chunk st' (ch_id c) = Inr (Some c) \<and>
    (\<forall>j. j \<noteq> ch_id c \<longrightarrow> get_chunk st' j = get_chunk st j)"
proof -
  let ?ek = "event_key (fe_chunk_id ev) (fe_rated_at ev) (fe_event_id ev)"
  obtain r where r: "encode_chunk (st_prov st) c = Inr r"
    and st': "st' = st\<lparr>st_db := kv_put ?ek (VBytes (fs_ser fs ev)) (kv_put (chunk_key (ch_level c) (ch_id c)) r (st_db st))\<rparr>"
    using w by (auto simp: write_batch_atomic_def rbind_Inr_iff)
  have row: "kv_get (st_db st') (chunk_key l j) =
      (if l = ch_level c \<and> j = ch_id c then Some r else kv_get (st_db st) (chunk_key l j))" for l j
    by (auto simp: st' map_of_kv_put)
  have pv: "st_prov st' = st_prov st" by (simp add: st')
  have dec: "decode_chunk (st_prov st) r = Inr c" using ok r by (simp add: decode_encode store_ok_def)
  obtain lv r0 where r0: "kv_get (st_db st) (chunk_key lv (ch_id c)) = Some r0" "decode_chunk (st_prov st) r0 = Inr old"
    using get_chunk_found [OF c(1)] by blast
  then have "row_keyed (st_prov st) (chunk_key lv (ch_id c)) r0" using ok unfolding store_ok_def by blast
  then have lv: "lv = ch_level c" using r0(2) c(2) by (auto simp: row_keyed_def)
  have only: "kv_get (st_db st) (chunk_key l (ch_id c)) = None" if "l \<noteq> ch_level c" for l
    using single r0(1) that lv unfolding single_level_def by (metis option.distinct(1))
  have "ch_level c \<in> {0, 1, 2}" using get_chunk_id [OF ok c(1)] c(2) by simp
  then have "get_chunk st' (ch_id c) = Inr (Some c)"
    using dec only by (auto simp: get_chunk_def row pv)
  moreover have "\<forall>j. j \<noteq> ch_id c \<longrightarrow> get_chunk st' j = get_chunk st j"
    by (intro allI impI get_chunk_cong) (simp_all add: row pv)
  moreover have "single_level st'"
    by (rule single_level_rows [OF single]) (use r0(1) lv in \<open>auto simp: row split: if_splits\<close>)
  moreover have "store_ok st'"
    using ok dec unfolding store_ok_def st' by (auto simp: map_of_kv_put kv_sorted_put row_keyed_def)
  ultimately show ?thesis by blast
qed

definition serde_ok :: "feedback_serde \<Rightarrow> bool" where
  "serde_ok fs \<longleftrightarrow> (\<forall>ev. fs_de fs (fs_ser fs ev) = Some ev)"

definition rated :: "feedback_serde \<Rightarrow> chunk \<Rightarrow> string \<Rightarrow> store \<Rightarrow> bool" where
  "rated fs c0 i st \<longleftrightarrow> store_ok st \<and> single_level st \<and> (\<exists>c evs. get_chunk st i = Inr (Some c) \<and> untallied c = untallied c0 \<and>
     query_events_for_chunk fs st i = Inr evs \<and> tallied evs c)"

definition separate :: "string set \<Rightarrow> bool" where
  "separate ids \<longleftrightarrow> (\<forall>i \<in> ids. \<forall>j \<in> ids. i = j \<or> (i @ '':'') \<parallel> (j @ '':''))"

lemma apply_rating_rated:
  assumes fs: "serde_ok fs" and h: "rated fs c0 i st" and sep: "i = ri_chunk_id r \<or> (i @ '':'') \<parallel> (ri_chunk_id r @ '':'')"
    and fresh: "kv_get (st_db st) (event_key (ri_chunk_id r) now eid) = None"
    and run: "apply_rating fs st auth rq r now eid = Inr (out, st')"
  shows "rated fs c0 i st' \<and> (\<forall>k. k \<noteq> event_key (ri_chunk_id r) now eid \<longrightarrow> (\<exists>j t e. k = event_key j t e) \<longrightarrow>
    kv_get (st_db st') k = kv_get (st_db st) k)"
proof (cases out)
  case (Rejected j why)
  then have "st' = st" using run by (auto simp: apply_rating_def rbind_Inr_iff split: option.splits)
  with h show ?thesis by simp
next
  case Accepted
  let ?j = "ri_chunk_id r"
  let ?ek = "event_key ?j now eid"
  obtain c where c: "get_chunk st ?j = Inr (Some c)"
    and w: "write_batch_atomic fs st (update_chunk_tally c (ri_usefulness r) (ri_harmful r) now) (rating_event rq auth r now eid (ch_stream c)) = Inr st'"
    using run Accepted by (auto simp: apply_rating_def get_chunk_scoped_def rbind_Inr_iff split: option.splits if_splits)
  let ?c' = "update_chunk_tally c (ri_usefulness r) (ri_harmful r) now"
  let ?ev = "rating_event rq auth r now eid (ch_stream c)"
  have st: "store_ok st" "single_level st" using h by (simp_all add: rated_def)
  have id: "ch_id c = ?j" using get_chunk_id [OF st(1) c] by simp
  have e: "store_ok st' \<and> single_level st' \<and> get_chunk st' ?j = Inr (Some ?c') \<and>
      (\<forall>j. j \<noteq> ?j \<longrightarrow> get_chunk st' j = get_chunk st j)"
    using write_batch_effect [OF st _ _ w, of c] c id by simp
  obtain r1 where st': "st_db st' = kv_put ?ek (VBytes (fs_ser fs ?ev)) (kv_put (chunk_key (ch_level c) ?j) r1 (st_db st))"
    using w id by (auto simp: write_batch_atomic_def rbind_Inr_iff rating_event_def)
  have keys: "\<forall>k. k \<noteq> ?ek \<longrightarrow> (\<exists>j t e. k = event_key j t e) \<longrightarrow> kv_get (st_db st') k = kv_get (st_db st) k"
    by (auto simp: st' map_of_kv_put)
  obtain ci evs where ci: "get_chunk st i = Inr (Some ci)" "untallied ci = untallied c0"
      "query_events_for_chunk fs st i = Inr evs" "tallied evs ci" using h unfolding rated_def by blast
  have "rated fs c0 i st'"
  proof (cases "i = ?j")
    case True
    have pre: "mset (kv_prefix (event_prefix_for_chunk i) (st_db st')) =
        add_mset (?ek, VBytes (fs_ser fs ?ev)) (mset (kv_prefix (event_prefix_for_chunk i) (st_db st)))"
    proof -
      let ?d = "kv_put (chunk_key (ch_level c) ?j) r1 (st_db st)"
      have "kv_get ?d ?ek = None" using fresh by (simp add: map_of_kv_put)
      then have "mset (st_db st') = add_mset (?ek, VBytes (fs_ser fs ?ev)) (mset ?d)"
        unfolding st' by (rule mset_put_fresh)
      then have "mset (kv_prefix (event_prefix_for_chunk i) (st_db st')) =
          add_mset (?ek, VBytes (fs_ser fs ?ev)) (mset (kv_prefix (event_prefix_for_chunk i) ?d))"
        unfolding kv_prefix_def mset_filter using True event_key_prefix(1) by simp
      moreover have "kv_prefix (event_prefix_for_chunk i) ?d = kv_prefix (event_prefix_for_chunk i) (st_db st)"
        by (rule kv_prefix_put_other) simp
      ultimately show ?thesis by simp
    qed
    have "events_of fs ((?ek, VBytes (fs_ser fs ?ev)) # kv_prefix (event_prefix_for_chunk i) (st_db st)) = Inr (?ev # evs)"
      using fs ci(3) by (simp add: serde_ok_def query_events_for_chunk_def)
    from events_of_mset [OF _ this] pre obtain evs' where ev': "query_events_for_chunk fs st' i = Inr evs'" "mset evs' = mset (?ev # evs)"
      unfolding query_events_for_chunk_def by (metis mset.simps(2))
    have "ci = c" using ci(1) c True by simp
    then have "tallied (?ev # evs) ?c'" using tallied_step ci(4) by simp
    then have "tallied evs' ?c'" using tallied_mset [OF ev'(2)] by simp
    then show ?thesis using e ev'(1) ci(2) \<open>ci = c\<close> True unfolding rated_def by auto
  next
    case False
    then have p: "(i @ '':'') \<parallel> (?j @ '':'')" using sep by blast
    have "kv_prefix (event_prefix_for_chunk i) (st_db st') = kv_prefix (event_prefix_for_chunk i) (st_db st)"
      unfolding st' using event_key_prefix(2) [OF p] by (simp add: kv_prefix_put_other)
    then have "query_events_for_chunk fs st' i = query_events_for_chunk fs st i"
      by (simp add: query_events_for_chunk_def)
    then show ?thesis using e ci False unfolding rated_def by auto
  qed
  with keys show ?thesis by blast
qed

lemma apply_all_rated:
  assumes "serde_ok fs" "separate (insert i (ri_chunk_id ` set rs))" "inj uu" "rated fs c0 i st"
    and "\<forall>r \<in> set rs. \<forall>m \<ge> n. kv_get (st_db st) (event_key (ri_chunk_id r) now (uu m)) = None"
  shows "rated fs c0 i (snd (apply_all fs auth rq now uu n rs acc st))"
  using assms(2,4,5)
proof (induction rs arbitrary: n acc st)
  case (Cons r rs)
  obtain a rej where acc: "acc = (a, rej)" by force
  have sep: "separate (insert i (ri_chunk_id ` set rs))" using Cons.prems(1) unfolding separate_def by auto
  show ?case
  proof (cases "apply_rating fs st auth rq r now (uu n)")
    case (Inl e)
    with Cons.prems(2) show ?thesis by (simp add: acc)
  next
    case (Inr x)
    obtain out st' where x: "x = (out, st')" by force
    have s1: "i = ri_chunk_id r \<or> (i @ '':'') \<parallel> (ri_chunk_id r @ '':'')"
      using Cons.prems(1) unfolding separate_def by auto
    have fresh: "kv_get (st_db st) (event_key (ri_chunk_id r) now (uu n)) = None" using Cons.prems(3) by simp
    note one = apply_rating_rated [OF assms(1) Cons.prems(2) s1 fresh Inr [unfolded x]]
    have later: "\<forall>q \<in> set rs. \<forall>m \<ge> Suc n. kv_get (st_db st') (event_key (ri_chunk_id q) now (uu m)) = None"
    proof (intro ballI allI impI)
      fix q m assume q: "q \<in> set rs" and m: "Suc n \<le> m"
      have "ri_chunk_id q = ri_chunk_id r \<or> (ri_chunk_id q @ '':'') \<parallel> (ri_chunk_id r @ '':'')"
        using Cons.prems(1) q unfolding separate_def by auto
      moreover have "uu m \<noteq> uu n" using assms(3) m by (simp add: inj_eq)
      ultimately have "event_key (ri_chunk_id q) now (uu m) \<noteq> event_key (ri_chunk_id r) now (uu n)"
        by (intro event_key_neq) auto
      then have "kv_get (st_db st') (event_key (ri_chunk_id q) now (uu m)) = kv_get (st_db st) (event_key (ri_chunk_id q) now (uu m))"
        using one by blast
      then show "kv_get (st_db st') (event_key (ri_chunk_id q) now (uu m)) = None" using Cons.prems(3) q m by simp
    qed
    have step: "rated fs c0 i (snd (apply_all fs auth rq now uu (Suc n) rs acc' st'))" for acc'
      by (rule Cons.IH [OF sep _ later]) (use one in blast)
    show ?thesis using Inr step by (cases out) (simp_all add: acc x)
  qed
qed simp


text \<open>Erasing a memory leaves its ratings, with their justifications, in the store.\<close>

lemma erasure_keeps_ratings:
  assumes "hard_delete_by_id st i = Inr (found, st')"
  shows "kv_get (st_db st') (event_key i t e) = kv_get (st_db st) (event_key i t e)"
  using hard_delete_get(1) [OF assms]
  by (simp add: derived_keys_def sidecar_key_def event_key_def
      entity_key_def rel_key_def llm_entities_key_def generation_key_def chunk_key_def)

section \<open>Witness\<close>

text \<open>Events are countable, so numbering them is a serialiser that satisfies its law.\<close>

instance feedback_event_ext :: (countable) countable
proof (rule countable_classI)
  fix x y :: "'a feedback_event_ext"
  let ?f = "\<lambda>e :: 'a feedback_event_scheme. to_nat ((fe_event_id e, fe_chunk_id e, fe_stream e, fe_agent_id e, fe_model_version e),
    (fe_prompt_version e, fe_usefulness e, fe_harmful e, fe_justification e, fe_trajectory_id e, fe_rated_at e),
    feedback_event.more e)"
  assume "?f x = ?f y"
  then show "x = y" by (cases x; cases y) simp
qed

definition w_serde :: feedback_serde where
  "w_serde = \<lparr>fs_ser = (\<lambda>ev. show_nat (to_nat ev)), fs_de = (\<lambda>s. Some (from_nat (digits_value s)))\<rparr>"

definition w_rating :: feedback_request where
  "w_rating = \<lparr>fq_model_version = ''m'', fq_prompt_version = ''p'', fq_trajectory_id = None,
     fq_ratings = [\<lparr>ri_chunk_id = ''x'', ri_usefulness = 3, ri_harmful = False, ri_justification = ''used''\<rparr>]\<rparr>"


end
