(* ===== verification/GraphRepair.thy ===== *)
theory GraphRepair
  imports Graph "HOL-Library.Countable"
begin

text \<open>
  The repair of graph entities that were written before streams existed
  (\<^verbatim>\<open>loomem-core/src/graph_repair/mod.rs\<close>): an entity without a stream gets the one of its live chunks, if
  they agree, and the index rows of that stream. The rows to look at are read before the first write.
\<close>

record repair_report =
  rr_scanned :: nat
  rr_already_scoped :: nat
  rr_repaired :: nat
  rr_name_conflict :: nat
  rr_conflicting :: nat
  rr_no_chunks :: nat
  rr_malformed :: nat
  rr_alias_skipped :: nat
  rr_by_stream :: "string \<Rightarrow> nat"

datatype stream_resolution = SingleStream string | ConflictingStreams | NoChunks

text \<open>The streams of the chunks that are not deleted; a chunk that is gone or has no stream has no vote.\<close>

fun voted_streams :: "store \<Rightarrow> string list \<Rightarrow> string list res" where
  "voted_streams st [] = Inr []"
| "voted_streams st (i # is) =
     rbind (get_chunk st i) (\<lambda>co.
     rbind (voted_streams st is) (\<lambda>ss.
       Inr (case co of
         Some c \<Rightarrow> if ch_deleted_at c = None \<and> ch_stream c \<noteq> [] then ch_stream c # ss else ss
       | None \<Rightarrow> ss)))"

definition resolve_streams_for_entity :: "store \<Rightarrow> entity_node \<Rightarrow> stream_resolution res" where
  "resolve_streams_for_entity st e =
     rbind (voted_streams st (nd_chunks e)) (\<lambda>ss.
       Inr (case remdups ss of [] \<Rightarrow> NoChunks | [s] \<Rightarrow> SingleStream s | _ \<Rightarrow> ConflictingStreams))"

definition other_entity :: "entity_node \<Rightarrow> entity_node option \<Rightarrow> bool" where
  "other_entity e eo \<longleftrightarrow> (case eo of Some x \<Rightarrow> nd_id x \<noteq> nd_id e | None \<Rightarrow> False)"

definition write_alias_row :: "graph_env \<Rightarrow> entity_node \<Rightarrow> string \<Rightarrow> string \<Rightarrow> string \<Rightarrow> nat gm" where
  "write_alias_row ge e stream sp alias =
     gbind (gread (\<lambda>st. get_entity_by_name ge st alias stream)) (\<lambda>eo.
       if other_entity e eo then gret 1
       else gbind (name_token ge stream alias) (\<lambda>t. gbind (put_string (alias_key sp t) (nd_id e)) (\<lambda>_. gret 0)))"

fun write_alias_rows :: "graph_env \<Rightarrow> entity_node \<Rightarrow> string \<Rightarrow> string \<Rightarrow> string list \<Rightarrow> nat \<Rightarrow> nat gm" where
  "write_alias_rows ge e stream sp [] n = gret n"
| "write_alias_rows ge e stream sp (a # as) n =
     gbind (write_alias_row ge e stream sp a) (\<lambda>k. write_alias_rows ge e stream sp as (n + k))"

definition write_index_rows :: "graph_env \<Rightarrow> entity_node \<Rightarrow> string \<Rightarrow> nat gm" where
  "write_index_rows ge e stream =
     (let sp = stream_prefix stream
      in gbind (name_token ge stream (nd_name e)) (\<lambda>t.
         gbind (put_string (name_key sp t) (nd_id e)) (\<lambda>_.
         gbind (write_alias_rows ge e stream sp (nd_aliases e) 0) (\<lambda>skipped.
         gbind (put_string (alias_key sp t) (nd_id e)) (\<lambda>_. gret skipped)))))"

definition apply_repair :: "graph_env \<Rightarrow> entity_node \<Rightarrow> string \<Rightarrow> bool \<Rightarrow> repair_report \<Rightarrow> repair_report gm" where
  "apply_repair ge e stream dry_run rep =
     gbind (gread (\<lambda>st. get_entity_by_name ge st (nd_name e) stream)) (\<lambda>incumbent.
       if dry_run
       then gret (if other_entity e incumbent then rep\<lparr>rr_name_conflict := rr_name_conflict rep + 1\<rparr>
                  else rep\<lparr>rr_repaired := rr_repaired rep + 1\<rparr>)
       else gbind (store_entity ge (e\<lparr>nd_stream := stream\<rparr>)) (\<lambda>_.
         if other_entity e incumbent then gret (rep\<lparr>rr_name_conflict := rr_name_conflict rep + 1\<rparr>)
         else gbind (write_index_rows ge (e\<lparr>nd_stream := stream\<rparr>) stream) (\<lambda>skipped.
           gret (rep\<lparr>rr_alias_skipped := rr_alias_skipped rep + skipped, rr_repaired := rr_repaired rep + 1,
                     rr_by_stream := (rr_by_stream rep)(stream := rr_by_stream rep stream + 1)\<rparr>))))"

definition process_row :: "graph_env \<Rightarrow> bool \<Rightarrow> string \<Rightarrow> repair_report \<Rightarrow> repair_report gm" where
  "process_row ge dry_run bytes rep =
     (case ge_node_de ge bytes of
        None \<Rightarrow> gret (rep\<lparr>rr_malformed := rr_malformed rep + 1\<rparr>)
      | Some (e, payload) \<Rightarrow>
          if payload \<noteq> [] \<or> nd_stream e \<noteq> [] then gret (rep\<lparr>rr_already_scoped := rr_already_scoped rep + 1\<rparr>)
          else gbind (gread (\<lambda>st. resolve_streams_for_entity st e)) (\<lambda>res. case res of
              NoChunks \<Rightarrow> gret (rep\<lparr>rr_no_chunks := rr_no_chunks rep + 1\<rparr>)
            | ConflictingStreams \<Rightarrow> gret (rep\<lparr>rr_conflicting := rr_conflicting rep + 1\<rparr>)
            | SingleStream s \<Rightarrow> apply_repair ge e s dry_run rep))"

fun repair_rows :: "graph_env \<Rightarrow> bool \<Rightarrow> string list \<Rightarrow> repair_report \<Rightarrow> repair_report gm" where
  "repair_rows ge dry_run [] rep = gret rep"
| "repair_rows ge dry_run (b # bs) rep =
     gbind (process_row ge dry_run b (rep\<lparr>rr_scanned := rr_scanned rep + 1\<rparr>)) (repair_rows ge dry_run bs)"

definition repair_entity_streams :: "graph_env \<Rightarrow> bool \<Rightarrow> repair_report gm" where
  "repair_entity_streams ge dry_run =
     gbind (gread (\<lambda>st. ensure (pv_enabled (st_prov st)) ''encryption provider is disabled'')) (\<lambda>_.
     gbind (gread (\<lambda>st. Inr (map (\<lambda>(k, r). row_text r) (kv_prefix ''graph:entity:'' (st_db st))))) (\<lambda>rows.
       repair_rows ge dry_run rows \<lparr>rr_scanned = 0, rr_already_scoped = 0, rr_repaired = 0, rr_name_conflict = 0,
         rr_conflicting = 0, rr_no_chunks = 0, rr_malformed = 0, rr_alias_skipped = 0, rr_by_stream = (\<lambda>s. 0)\<rparr>))"

section \<open>What a repair keeps\<close>

lemma gbind_simps [simp]:
  "gbind (gret x) f = f x" "gbind (gread g) f st = (case g st of Inl e \<Rightarrow> (Inl e, st) | Inr x \<Rightarrow> f x st)"
  by (auto simp: gbind_def gret_def gread_def fun_eq_iff split: sum.split)

text \<open>A dry run writes nothing.\<close>

lemma gm_readonly_bind: "(\<And>x st. snd (f x st) = st) \<Longrightarrow> snd (m st) = st \<Longrightarrow> snd (gbind m f st) = st"
  by (auto simp: gbind_def split: prod.splits sum.splits)

lemma process_row_dry: "snd (process_row ge True b rep st) = st"
  by (auto simp: process_row_def apply_repair_def gret_def split: option.split sum.split stream_resolution.split)

theorem dry_run_writes_nothing: "snd (repair_entity_streams ge True st) = st"
proof -
  have "snd (repair_rows ge True bs rep st) = st" for bs rep st
    by (induction bs arbitrary: rep st) (simp_all add: gret_def gm_readonly_bind process_row_dry)
  then show ?thesis by (simp add: repair_entity_streams_def split: sum.split)
qed

text \<open>The laws of the serialisers and of the cipher, and entity rows under their own ids.\<close>

definition codec_ok :: "graph_env \<Rightarrow> provider \<Rightarrow> bool" where
  "codec_ok ge pv \<longleftrightarrow> (\<forall>x. ge_node_de ge (ge_node_ser ge x) = Some x) \<and> (\<forall>x. ge_pair_de ge (ge_pair_ser ge x) = Some x) \<and>
     (\<forall>s p b. pv_encrypt pv s p = Inr b \<longrightarrow> b \<noteq> [] \<and> pv_decrypt pv s b = Inr p) \<and>
     (\<forall>s n t. ge_token ge s n = Inr t \<longrightarrow> CHR '':'' \<notin> set t)"

definition nodes_ok :: "graph_env \<Rightarrow> store \<Rightarrow> bool" where
  "nodes_ok ge st \<longleftrightarrow> codec_ok ge (st_prov st) \<and> (\<forall>i r e p. kv_get (st_db st) (node_key i) = Some r \<longrightarrow>
     ge_node_de ge (row_text r) = Some (e, p) \<longrightarrow> nd_id e = i \<and> valid_utf8 i)"

text \<open>The entity that a name leads to in a stream.\<close>

definition leads :: "graph_env \<Rightarrow> store \<Rightarrow> string \<Rightarrow> string \<Rightarrow> string \<Rightarrow> bool" where
  "leads ge st name stream i \<longleftrightarrow> (\<exists>x. get_entity_by_name ge st name stream = Inr (Some x) \<and> nd_id x = i)"

definition kept :: "graph_env \<Rightarrow> store \<Rightarrow> store \<Rightarrow> bool" where
  "kept ge st st' \<longleftrightarrow> nodes_ok ge st' \<and> st_prov st' = st_prov st \<and>
     (\<forall>i. get_entity_by_id ge st i \<noteq> None \<longrightarrow> get_entity_by_id ge st' i \<noteq> None) \<and>
     (\<forall>name s i. leads ge st name s i \<longrightarrow> leads ge st' name s i)"

lemma kept_refl: "nodes_ok ge st \<Longrightarrow> kept ge st st"
  by (simp add: kept_def)

lemma kept_trans: "kept ge st st1 \<Longrightarrow> kept ge st1 st2 \<Longrightarrow> kept ge st st2"
  by (simp add: kept_def)

lemma get_entity_id:
  assumes "nodes_ok ge st" "get_entity_by_id ge st i = Some x"
  shows "nd_id x = i"
proof -
  obtain r e p where r: "kv_get (st_db st) (node_key i) = Some r" "ge_node_de ge (row_text r) = Some (e, p)"
      "nd_id x = nd_id e"
    using assms(2) by (auto simp: get_entity_by_id_def decode_entity_def split: option.splits sum.splits if_splits)
  then show ?thesis using assms(1) unfolding nodes_ok_def by blast
qed

lemma leads_rows:
  assumes "nodes_ok ge st"
  shows "leads ge st name s i \<longleftrightarrow> (\<exists>t. ge_token ge s name = Inr t \<and> get_entity_by_id ge st i \<noteq> None \<and>
    (case get_string st (name_key (stream_prefix s) t) of
       Some j \<Rightarrow> j = i
     | None \<Rightarrow> get_string st (alias_key (stream_prefix s) t) = Some i))"
proof (cases "ge_token ge s name")
  case (Inl e)
  then show ?thesis by (simp add: leads_def get_entity_by_name_def)
next
  case (Inr t)
  let ?n = "get_string st (name_key (stream_prefix s) t)" and ?a = "get_string st (alias_key (stream_prefix s) t)"
  have id: "(\<exists>x. get_entity_by_id ge st j = Some x \<and> nd_id x = i) \<longleftrightarrow> j = i \<and> get_entity_by_id ge st i \<noteq> None" for j
    using get_entity_id [OF assms] by (cases "get_entity_by_id ge st j") auto
  show ?thesis
    by (cases ?n; cases ?a) (auto simp: leads_def get_entity_by_name_def Inr id)
qed

lemma index_keys [simp]:
  "name_key (stream_prefix s) t \<noteq> node_key i" "alias_key (stream_prefix s) t \<noteq> node_key i"
  "node_key i \<noteq> name_key (stream_prefix s) t" "node_key i \<noteq> alias_key (stream_prefix s) t"
  by (simp_all add: name_key_def alias_key_def stream_prefix_def node_key_def)

lemma colon_split:
  "xs @ CHR '':'' # t = ys @ CHR '':'' # t' \<Longrightarrow> CHR '':'' \<notin> set t \<Longrightarrow> CHR '':'' \<notin> set t' \<Longrightarrow> xs = ys \<and> t = t'"
proof (induction xs arbitrary: ys)
  case Nil
  then show ?case by (cases ys) auto
next
  case (Cons x xs)
  then show ?case by (cases ys) auto
qed

text \<open>Tokens have no colon, so the index keys of different streams, kinds and tokens differ.\<close>

lemma index_keys_inj:
  assumes "CHR '':'' \<notin> set t" "CHR '':'' \<notin> set t'"
  shows "name_key (stream_prefix s) t = name_key (stream_prefix s') t' \<longleftrightarrow> s = s' \<and> t = t'"
    "alias_key (stream_prefix s) t = alias_key (stream_prefix s') t' \<longleftrightarrow> s = s' \<and> t = t'"
    "name_key (stream_prefix s) t \<noteq> alias_key (stream_prefix s') t'"
proof -
  have n: "name_key (stream_prefix s) t = (''graph:s:'' @ s @ '':name'') @ CHR '':'' # t"
    and a: "alias_key (stream_prefix s) t = (''graph:s:'' @ s @ '':alias'') @ CHR '':'' # t" for s t
    by (simp_all add: name_key_def alias_key_def stream_prefix_def)
  note split = colon_split [OF _ assms]
  show "name_key (stream_prefix s) t = name_key (stream_prefix s') t' \<longleftrightarrow> s = s' \<and> t = t'"
  proof
    assume "name_key (stream_prefix s) t = name_key (stream_prefix s') t'"
    from split [OF this [unfolded n]] show "s = s' \<and> t = t'" by simp
  qed simp
  show "alias_key (stream_prefix s) t = alias_key (stream_prefix s') t' \<longleftrightarrow> s = s' \<and> t = t'"
  proof
    assume "alias_key (stream_prefix s) t = alias_key (stream_prefix s') t'"
    from split [OF this [unfolded a]] show "s = s' \<and> t = t'" by simp
  qed simp
  show "name_key (stream_prefix s) t \<noteq> alias_key (stream_prefix s') t'"
  proof
    assume "name_key (stream_prefix s) t = alias_key (stream_prefix s') t'"
    from split [OF this [unfolded n a]] have "s @ '':name'' = s' @ '':alias''" by simp
    then have "last (s @ '':name'') = last (s' @ '':alias'')" by (rule arg_cong)
    then show False by simp
  qed
qed

lemma get_entity_cong:
  "st_prov st' = st_prov st \<Longrightarrow> kv_get (st_db st') (node_key i) = kv_get (st_db st) (node_key i) \<Longrightarrow>
     get_entity_by_id ge st' i = get_entity_by_id ge st i"
  by (simp add: get_entity_by_id_def split: option.split)

lemma store_entity_kept:
  assumes ok: "nodes_ok ge st" and en: "pv_enabled (st_prov st)" and id: "valid_utf8 (nd_id e)"
  shows "kept ge st (snd (store_entity ge e st)) \<and>
    (\<forall>u. fst (store_entity ge e st) = Inr u \<longrightarrow> get_entity_by_id ge (snd (store_entity ge e st)) (nd_id e) \<noteq> None)"
proof (cases "pv_encrypt (st_prov st) (nd_stream e) (ge_pair_ser ge (nd_name e, nd_aliases e))")
  case (Inl x)
  then show ?thesis using en kept_refl [OF ok] by (simp add: store_entity_def)
next
  case (Inr b)
  let ?row = "VBytes (ge_node_ser ge (e\<lparr>nd_name := [], nd_aliases := []\<rparr>, b))"
  let ?st = "st\<lparr>st_db := kv_put (node_key (nd_id e)) ?row (st_db st)\<rparr>"
  have run: "store_entity ge e st = (Inr (), ?st)" using en Inr by (simp add: store_entity_def put_string_def)
  have c: "codec_ok ge (st_prov st)" using ok by (simp add: nodes_ok_def)
  have enc: "b \<noteq> []" "pv_decrypt (st_prov st) (nd_stream e) b = Inr (ge_pair_ser ge (nd_name e, nd_aliases e))"
    using c Inr unfolding codec_ok_def by blast+
  have new: "get_entity_by_id ge ?st (nd_id e) \<noteq> None"
    using c enc by (simp add: get_entity_by_id_def map_of_kv_put decode_entity_def codec_ok_def)
  have ok': "nodes_ok ge ?st"
    unfolding nodes_ok_def
  proof (intro conjI allI impI)
    show "codec_ok ge (st_prov ?st)" using c by simp
    fix i r x p assume r: "kv_get (st_db ?st) (node_key i) = Some r" "ge_node_de ge (row_text r) = Some (x, p)"
    have "nd_id x = i \<and> valid_utf8 i"
    proof (cases "i = nd_id e")
      case True
      then have "r = ?row" using r(1) by (simp add: map_of_kv_put)
      then show ?thesis using r(2) c id True by (auto simp: codec_ok_def)
    next
      case False
      then have "kv_get (st_db st) (node_key i) = Some r" using r(1) by (simp add: map_of_kv_put node_key_def)
      then show ?thesis using r(2) ok unfolding nodes_ok_def by blast
    qed
    then show "nd_id x = i" "valid_utf8 i" by blast+
  qed
  have read: "get_entity_by_id ge ?st i \<noteq> None" if "get_entity_by_id ge st i \<noteq> None" for i
  proof (cases "i = nd_id e")
    case False
    then have "kv_get (st_db ?st) (node_key i) = kv_get (st_db st) (node_key i)" by (simp add: map_of_kv_put node_key_def)
    with that show ?thesis using get_entity_cong [of ?st st i ge] by simp
  qed (use new in simp)
  have strings: "get_string ?st (name_key (stream_prefix s) t) = get_string st (name_key (stream_prefix s) t)"
    "get_string ?st (alias_key (stream_prefix s) t) = get_string st (alias_key (stream_prefix s) t)" for s t
    by (simp_all add: get_string_def map_of_kv_put)
  have "leads ge ?st name s i" if "leads ge st name s i" for name s i
    using that read unfolding leads_rows [OF ok] leads_rows [OF ok'] strings by blast
  with run ok' read new show ?thesis by (simp add: kept_def)
qed

text \<open>An index row may be written when the name leads nowhere or to the entity already.\<close>

lemma put_index_kept:
  assumes ok: "nodes_ok ge st" and t: "ge_token ge s name = Inr t" and id: "valid_utf8 i" "get_entity_by_id ge st i \<noteq> None"
    and free: "\<And>j. leads ge st name s j \<Longrightarrow> j = i" and k: "k = name_key (stream_prefix s) t \<or> k = alias_key (stream_prefix s) t"
  shows "kept ge st (snd (put_string k i st))"
proof -
  let ?st = "st\<lparr>st_db := kv_put k (VBytes i) (st_db st)\<rparr>"
  have c: "codec_ok ge (st_prov st)" using ok by (simp add: nodes_ok_def)
  have tok: "CHR '':'' \<notin> set t'" if "ge_token ge s' n' = Inr t'" for s' n' t' using c that unfolding codec_ok_def by blast
  have node: "kv_get (st_db ?st) (node_key j) = kv_get (st_db st) (node_key j)" for j
    using k by (auto simp: map_of_kv_put)
  have ok': "nodes_ok ge ?st" using ok unfolding nodes_ok_def node by simp
  have read: "get_entity_by_id ge ?st j = get_entity_by_id ge st j" for j
    by (rule get_entity_cong) (simp, rule node)
  have lossy: "from_utf8_lossy i = i" using id(1) by (rule from_utf8_lossy_valid)
  have "leads ge ?st n' s' j" if l: "leads ge st n' s' j" for n' s' j
  proof -
    obtain t' where t': "ge_token ge s' n' = Inr t'" "get_entity_by_id ge st j \<noteq> None"
        "case get_string st (name_key (stream_prefix s') t') of Some j' \<Rightarrow> j' = j
         | None \<Rightarrow> get_string st (alias_key (stream_prefix s') t') = Some j"
      using l unfolding leads_rows [OF ok] by blast
    note inj = index_keys_inj [OF tok [OF t'(1)] tok [OF t]] index_keys_inj [OF tok [OF t] tok [OF t'(1)]]
    show ?thesis
    proof (cases "s' = s \<and> t' = t")
      case True
      then have "leads ge st name s j" using t t' unfolding leads_rows [OF ok] by blast
      then have ji: "j = i" by (rule free)
      show ?thesis unfolding leads_rows [OF ok'] read
        using t' True ji k lossy inj(3)
        by (auto simp: get_string_def map_of_kv_put split: option.splits)
    next
      case False
      then have "get_string ?st (name_key (stream_prefix s') t') = get_string st (name_key (stream_prefix s') t')"
        "get_string ?st (alias_key (stream_prefix s') t') = get_string st (alias_key (stream_prefix s') t')"
        using k inj inj(3) [THEN not_sym] inj(6) [THEN not_sym] by (auto simp: get_string_def map_of_kv_put)
      then show ?thesis unfolding leads_rows [OF ok'] read using t' by (auto split: option.splits)
    qed
  qed
  with ok' read show ?thesis by (simp add: kept_def put_string_def)
qed

text \<open>Computations that keep what names lead to, whether they end or fail.\<close>

lemma gbind_kept:
  assumes "kept ge st (snd (m st))" "\<And>x. fst (m st) = Inr x \<Longrightarrow> kept ge (snd (m st)) (snd (f x (snd (m st))))"
  shows "kept ge st (snd (gbind m f st))"
  using assms kept_trans by (cases "m st"; cases "fst (m st)") (auto simp: gbind_def)

lemma leads_free:
  "get_entity_by_name ge st name s = Inr eo \<Longrightarrow> \<not> other_entity e eo \<Longrightarrow> leads ge st name s j \<Longrightarrow> j = nd_id e"
  by (auto simp: leads_def other_entity_def)

abbreviation settled :: "graph_env \<Rightarrow> entity_node \<Rightarrow> store \<Rightarrow> bool" where
  "settled ge e st \<equiv> nodes_ok ge st \<and> valid_utf8 (nd_id e) \<and> get_entity_by_id ge st (nd_id e) \<noteq> None"

lemma settled_kept: "settled ge e st \<Longrightarrow> kept ge st st' \<Longrightarrow> settled ge e st'"
  by (simp add: kept_def)

lemma write_alias_row_kept:
  assumes "settled ge e st"
  shows "kept ge st (snd (write_alias_row ge e s (stream_prefix s) a st))"
proof (cases "get_entity_by_name ge st a s")
  case (Inl x)
  with assms kept_refl show ?thesis by (simp add: write_alias_row_def)
next
  case (Inr eo)
  show ?thesis
  proof (cases "other_entity e eo")
    case True
    with Inr assms kept_refl show ?thesis by (simp add: write_alias_row_def gret_def)
  next
    case False
    show ?thesis
    proof (cases "ge_token ge s a")
      case (Inl x)
      with Inr False assms kept_refl show ?thesis by (simp add: write_alias_row_def name_token_def)
    next
      case t: (Inr t)
      have "kept ge st (snd (put_string (alias_key (stream_prefix s) t) (nd_id e) st))"
        by (rule put_index_kept [OF _ t]) (use assms leads_free [OF Inr False] in auto)
      then show ?thesis using Inr False t
        by (simp add: write_alias_row_def name_token_def) (simp add: gbind_def put_string_def gret_def)
    qed
  qed
qed

lemma write_alias_rows_kept:
  "settled ge e st \<Longrightarrow> kept ge st (snd (write_alias_rows ge e s (stream_prefix s) as n st))"
proof (induction "as" arbitrary: st n)
  case (Cons a "as")
  have one: "kept ge st (snd (write_alias_row ge e s (stream_prefix s) a st))" by (rule write_alias_row_kept [OF Cons.prems])
  show ?case unfolding write_alias_rows.simps
    by (rule gbind_kept, rule one, rule Cons.IH [OF settled_kept [OF Cons.prems one]])
qed (simp add: gret_def kept_refl)

lemma put_leads:
  assumes "nodes_ok ge st" "ge_token ge s name = Inr t" "valid_utf8 i" "leads ge st' name s j"
    and "kept ge (snd (put_string (name_key (stream_prefix s) t) i st)) st'" "get_entity_by_id ge st i \<noteq> None"
    and "nodes_ok ge (snd (put_string (name_key (stream_prefix s) t) i st))"
  shows "j = i"
proof -
  let ?st1 = "snd (put_string (name_key (stream_prefix s) t) i st)"
  have "get_entity_by_id ge ?st1 i = get_entity_by_id ge st i"
    by (rule get_entity_cong) (simp_all add: put_string_def map_of_kv_put)
  then have "leads ge ?st1 name s i"
    unfolding leads_rows [OF assms(7)] using assms(2,6) from_utf8_lossy_valid [OF assms(3)]
    by (simp add: put_string_def get_string_def map_of_kv_put)
  then have "leads ge st' name s i" using assms(5) by (simp add: kept_def)
  with assms(4) show ?thesis by (auto simp: leads_def)
qed

lemma write_index_rows_kept:
  assumes s0: "settled ge e st" and free: "\<And>j. leads ge st (nd_name e) s j \<Longrightarrow> j = nd_id e"
  shows "kept ge st (snd (write_index_rows ge e s st))"
proof (cases "ge_token ge s (nd_name e)")
  case (Inl x)
  with s0 kept_refl show ?thesis by (simp add: write_index_rows_def name_token_def Let_def)
next
  case (Inr t)
  let ?put = "put_string (name_key (stream_prefix s) t) (nd_id e)"
  let ?st1 = "snd (?put st)"
  let ?al = "write_alias_rows ge e s (stream_prefix s) (nd_aliases e) 0"
  have k1: "kept ge st ?st1" by (rule put_index_kept [OF _ Inr]) (use s0 free in auto)
  note s1 = settled_kept [OF s0 k1]
  have k2: "kept ge ?st1 (snd (?al ?st1))" by (rule write_alias_rows_kept [OF s1])
  note s2 = settled_kept [OF s1 k2]
  have k3: "kept ge (snd (?al ?st1)) (snd (put_string (alias_key (stream_prefix s) t) (nd_id e) (snd (?al ?st1))))"
    by (rule put_index_kept [OF _ Inr]) (use s2 put_leads [OF _ Inr _ _ k2] s0 s1 in auto)
  have "kept ge ?st1 (snd (gbind ?al (\<lambda>k. gbind (put_string (alias_key (stream_prefix s) t) (nd_id e)) (\<lambda>_. gret k)) ?st1))"
    by (rule gbind_kept, rule k2) (use k3 in \<open>simp add: gbind_def put_string_def gret_def\<close>)
  note al = this
  have "kept ge st (snd (gbind ?put (\<lambda>_. gbind ?al (\<lambda>k. gbind (put_string (alias_key (stream_prefix s) t) (nd_id e)) (\<lambda>_. gret k))) st))"
    by (rule gbind_kept) (rule k1, rule al)
  then show ?thesis using Inr by (simp add: write_index_rows_def name_token_def Let_def)
qed

lemma apply_repair_kept:
  assumes s0: "settled ge e st" and en: "pv_enabled (st_prov st)"
  shows "kept ge st (snd (apply_repair ge e s dry rep st))"
proof (cases "get_entity_by_name ge st (nd_name e) s")
  case (Inl x)
  with s0 kept_refl show ?thesis by (simp add: apply_repair_def)
next
  case (Inr eo)
  let ?e = "e\<lparr>nd_stream := s\<rparr>"
  have ok: "nodes_ok ge st" using s0 by blast
  have w: "kept ge st (snd (store_entity ge ?e st))" "\<And>u. fst (store_entity ge ?e st) = Inr u \<Longrightarrow>
      get_entity_by_id ge (snd (store_entity ge ?e st)) (nd_id e) \<noteq> None"
    using store_entity_kept [OF ok en, of ?e] s0 by auto
  show ?thesis
  proof (cases dry)
    case True
    with Inr ok kept_refl show ?thesis by (simp add: apply_repair_def gret_def)
  next
    case False
    have rest: "kept ge (snd (store_entity ge ?e st)) (snd ((if other_entity e eo
          then gret (rep\<lparr>rr_name_conflict := rr_name_conflict rep + 1\<rparr>)
          else gbind (write_index_rows ge ?e s) (\<lambda>skipped.
             gret (rep\<lparr>rr_alias_skipped := rr_alias_skipped rep + skipped, rr_repaired := rr_repaired rep + 1,
                       rr_by_stream := (rr_by_stream rep)(s := rr_by_stream rep s + 1)\<rparr>))) (snd (store_entity ge ?e st))))"
      if "fst (store_entity ge ?e st) = Inr u" for u
    proof (cases "other_entity e eo")
      case True
      have "nodes_ok ge (snd (store_entity ge ?e st))" using w(1) by (simp add: kept_def)
      with True kept_refl show ?thesis by (simp add: gret_def)
    next
      case no: False
      have s1: "settled ge ?e (snd (store_entity ge ?e st))"
        using w that s0 by (simp add: kept_def)
      have "j = nd_id e" if "leads ge (snd (store_entity ge ?e st)) (nd_name e) s j" for j
      proof -
        let ?st1 = "snd (store_entity ge ?e st)"
        have strings: "get_string ?st1 (name_key (stream_prefix s) t) = get_string st (name_key (stream_prefix s) t)"
          "get_string ?st1 (alias_key (stream_prefix s) t) = get_string st (alias_key (stream_prefix s) t)" for t
          by (auto simp: store_entity_def Let_def put_string_def get_string_def map_of_kv_put split: sum.split)
        have same: "get_entity_by_id ge ?st1 j = get_entity_by_id ge st j" if "j \<noteq> nd_id e"
          by (rule get_entity_cong) (use that in \<open>auto simp: store_entity_def Let_def put_string_def map_of_kv_put node_key_def split: sum.split\<close>)
        show "j = nd_id e"
        proof (rule ccontr)
          assume n: "j \<noteq> nd_id e"
          have "leads ge st (nd_name e) s j"
            using that unfolding leads_rows [OF conjunct1 [OF s1]] leads_rows [OF ok] strings same [OF n] .
          with leads_free [OF Inr no] n show False by simp
        qed
      qed
      then have "kept ge (snd (store_entity ge ?e st)) (snd (write_index_rows ge ?e s (snd (store_entity ge ?e st))))"
        by (intro write_index_rows_kept [OF s1]) simp
      then show ?thesis using no by (simp, intro gbind_kept) (simp_all add: gret_def kept_def)
    qed
    show ?thesis
      using Inr False gbind_kept [where m = "store_entity ge ?e", OF w(1), of "\<lambda>_. if other_entity e eo
          then gret (rep\<lparr>rr_name_conflict := rr_name_conflict rep + 1\<rparr>)
          else gbind (write_index_rows ge ?e s) (\<lambda>skipped.
             gret (rep\<lparr>rr_alias_skipped := rr_alias_skipped rep + skipped, rr_repaired := rr_repaired rep + 1,
                       rr_by_stream := (rr_by_stream rep)(s := rr_by_stream rep s + 1)\<rparr>))"] rest
      by (simp add: apply_repair_def)
  qed
qed

lemma process_row_kept:
  assumes ok: "nodes_ok ge st" and en: "pv_enabled (st_prov st)"
    and row: "\<And>e. ge_node_de ge b = Some (e, []) \<Longrightarrow> valid_utf8 (nd_id e) \<and> get_entity_by_id ge st (nd_id e) \<noteq> None"
  shows "kept ge st (snd (process_row ge dry b rep st))"
proof (cases "ge_node_de ge b")
  case None
  with ok kept_refl show ?thesis by (simp add: process_row_def gret_def)
next
  case (Some x)
  obtain e p where x: "x = (e, p)" by force
  show ?thesis
  proof (cases "p \<noteq> [] \<or> nd_stream e \<noteq> []")
    case True
    with Some x ok kept_refl show ?thesis by (simp add: process_row_def gret_def)
  next
    case False
    then have "settled ge e st" using row Some x ok by simp
    note rep = apply_repair_kept [OF this en]
    show ?thesis using Some x False kept_refl [OF ok] rep
      by (auto simp: process_row_def gret_def split: sum.split stream_resolution.split)
  qed
qed

lemma repair_rows_kept:
  assumes "nodes_ok ge st" "pv_enabled (st_prov st)"
    and "\<And>b e. b \<in> set bs \<Longrightarrow> ge_node_de ge b = Some (e, []) \<Longrightarrow> valid_utf8 (nd_id e) \<and> get_entity_by_id ge st (nd_id e) \<noteq> None"
  shows "kept ge st (snd (repair_rows ge dry bs rep st))"
  using assms
proof (induction bs arbitrary: st rep)
  case (Cons b bs)
  let ?m = "process_row ge dry b (rep\<lparr>rr_scanned := rr_scanned rep + 1\<rparr>)"
  have one: "kept ge st (snd (?m st))" by (rule process_row_kept [OF Cons.prems(1,2)], rule Cons.prems(3)) simp_all
  have rest: "kept ge (snd (?m st)) (snd (repair_rows ge dry bs r (snd (?m st))))" for r
  proof (rule Cons.IH)
    show "nodes_ok ge (snd (?m st))" "pv_enabled (st_prov (snd (?m st)))" using one Cons.prems(2) by (simp_all add: kept_def)
    fix c e assume "c \<in> set bs" "ge_node_de ge c = Some (e, [])"
    then have "valid_utf8 (nd_id e)" "get_entity_by_id ge st (nd_id e) \<noteq> None" using Cons.prems(3) [of c e] by simp_all
    with one show "valid_utf8 (nd_id e) \<and> get_entity_by_id ge (snd (?m st)) (nd_id e) \<noteq> None"
      unfolding kept_def by blast
  qed
  show ?case unfolding repair_rows.simps by (rule gbind_kept, rule one, rule rest)
qed (simp add: gret_def kept_refl)

text \<open>
  C0. Whatever rows the graph holds, whether the repair runs dry, ends or stops at an error: a name
  that led to an entity in a stream still leads to the same entity. No index row of an entity that can be
  found is redirected, and no entity that can be read becomes unreadable.
\<close>

theorem repair_keeps_names:
  assumes "nodes_ok ge st" "kv_sorted (st_db st)"
    and "repair_entity_streams ge dry_run st = (answer, st')" "leads ge st name s i"
  shows "leads ge st' name s i"
proof (cases "pv_enabled (st_prov st)")
  case False
  then have "st' = st" using assms(3) by (auto simp: repair_entity_streams_def ensure_def split: sum.splits)
  with assms(4) show ?thesis by simp
next
  case True
  let ?rows = "map (\<lambda>(k, r). row_text r) (kv_prefix ''graph:entity:'' (st_db st))"
  have rows: "valid_utf8 (nd_id e) \<and> get_entity_by_id ge st (nd_id e) \<noteq> None"
    if b: "b \<in> set ?rows" and e: "ge_node_de ge b = Some (e, [])" for b e
  proof -
    obtain k r where kr: "(k, r) \<in> set (kv_prefix ''graph:entity:'' (st_db st))" "b = row_text r" using b by auto
    then have "kv_get (st_db st) k = Some r" "starts_with k ''graph:entity:''" using kv_prefix_get [OF assms(2)] by auto
    then obtain j where j: "kv_get (st_db st) (node_key j) = Some r" by (auto simp: prefix_def node_key_def)
    then have "nd_id e = j \<and> valid_utf8 j" using assms(1) e kr(2) unfolding nodes_ok_def by blast
    with j e kr(2) show ?thesis by (simp add: get_entity_by_id_def decode_entity_def)
  qed
  have "kept ge st st'"
    using repair_rows_kept [OF assms(1) True rows, of ?rows] assms(3) True
    by (auto simp: repair_entity_streams_def ensure_def dest!: arg_cong [of "_ :: _ \<times> _" _ snd])
  with assms(4) show ?thesis by (simp add: kept_def)
qed

section \<open>Witness\<close>

text \<open>Entities are countable: numbering them is a serialiser. The cipher only marks its output.\<close>

instance entity_node_ext :: (countable) countable
proof (rule countable_classI)
  fix x y :: "'a entity_node_ext"
  let ?f = "\<lambda>e :: 'a entity_node_scheme. to_nat ((nd_id e, nd_name e, nd_type e, nd_aliases e),
    (nd_chunks e, nd_stream e, nd_created e, nd_updated e), entity_node.more e)"
  assume "?f x = ?f y"
  then show "x = y" by (cases x; cases y) simp
qed

definition w_rge :: graph_env where
  "w_rge = \<lparr>ge_node_ser = (\<lambda>x. show_nat (to_nat x)), ge_node_de = (\<lambda>b. Some (from_nat (digits_value b))),
     ge_pair_ser = (\<lambda>x. show_nat (to_nat x)), ge_pair_de = (\<lambda>b. Some (from_nat (digits_value b))),
     ge_edge_ser = (\<lambda>x. []), ge_edge_de = (\<lambda>b. None), ge_ids_ser = (\<lambda>x. []), ge_ids_de = (\<lambda>b. None),
     ge_labels_ser = (\<lambda>x. []), ge_labels_de = (\<lambda>b. None), ge_rels_ser = (\<lambda>x. []), ge_rels_de = (\<lambda>b. None),
     ge_token = (\<lambda>s name. Inr (show_nat (to_nat name))), ge_lower = (\<lambda>x. x), ge_hash = (\<lambda>x. x), ge_redact = (\<lambda>x. x)\<rparr>"

definition w_mark :: provider where
  "w_mark = \<lparr>pv_enabled = True, pv_encrypt = (\<lambda>s p. Inr (CHR ''c'' # p)), pv_decrypt = (\<lambda>s b. Inr (tl b)),
     pv_ser = (\<lambda>p. []), pv_de = (\<lambda>b. None), pv_is_encrypted = (\<lambda>b. False)\<rparr>"

definition w_old :: "string \<Rightarrow> string \<Rightarrow> entity_node" where
  "w_old i s = \<lparr>nd_id = i, nd_name = ''bob'', nd_type = ''Person'', nd_aliases = [''rob''], nd_chunks = [''x''],
     nd_stream = s, nd_created = 0, nd_updated = 0\<rparr>"

definition w_rows :: store where
  "w_rows = \<lparr>st_db = [(node_key ''e'', VBytes (ge_node_ser w_rge (w_old ''e'' [], []))),
       (node_key ''f'', VBytes (ge_node_ser w_rge (w_old ''f'' ''s'', []))),
       (name_key (stream_prefix ''s'') (show_nat (to_nat ''bob'')), VBytes ''f'')],
     st_emb = [], st_prov = w_mark, st_last_scan = None, st_at_rest_key_present = True\<rparr>"

lemma w_rows_get:
  "kv_get (st_db w_rows) (node_key i) =
     (if i = ''e'' then Some (VBytes (ge_node_ser w_rge (w_old ''e'' [], [])))
      else if i = ''f'' then Some (VBytes (ge_node_ser w_rge (w_old ''f'' ''s'', []))) else None)"
  by (simp add: w_rows_def node_key_def name_key_def stream_prefix_def)

lemma w_rows_ok: "nodes_ok w_rge w_rows"
proof -
  have "CHR '':'' \<notin> set (show_nat n)" for n by (rule non_digit_not_in_show_nat) (simp add: is_digit_def)
  then have "codec_ok w_rge (st_prov w_rows)" by (simp add: codec_ok_def w_rge_def w_rows_def w_mark_def)
  moreover have "valid_utf8 ''e''" "valid_utf8 ''f''" by code_simp+
  ultimately show ?thesis unfolding nodes_ok_def w_rows_get
    by (auto simp: w_rge_def w_old_def split: if_splits)
qed

theorem repair_keeps_names_witness:
  "\<exists>answer st'. repair_entity_streams w_rge False w_rows = (answer, st') \<and> leads w_rge st' ''bob'' ''s'' ''f''"
proof -
  obtain answer st' where run: "repair_entity_streams w_rge False w_rows = (answer, st')" by force
  have "kv_sorted (st_db w_rows)"
    by (simp add: kv_sorted_def w_rows_def node_key_def name_key_def stream_prefix_def)
  moreover have "leads w_rge w_rows ''bob'' ''s'' ''f''"
  proof -
    have "from_utf8_lossy ''f'' = ''f''" by code_simp
    then have "get_string w_rows (name_key (stream_prefix ''s'') (show_nat (to_nat ''bob''))) = Some ''f''"
      by (simp add: get_string_def w_rows_def node_key_def name_key_def stream_prefix_def)
    moreover have "get_entity_by_id w_rge w_rows ''f'' \<noteq> None"
      by (simp add: get_entity_by_id_def w_rows_get decode_entity_def) (simp add: w_rge_def)
    ultimately show ?thesis unfolding leads_rows [OF w_rows_ok] by (simp add: w_rge_def)
  qed
  ultimately show ?thesis using repair_keeps_names [OF w_rows_ok _ run] run by blast
qed

end
