(* ===== verification/Spec2Isabelle.thy ===== *)
theory Spec2Isabelle
  imports IntentLog StoreScans Crypto FragmentProps AuditProps Users QueryCache EmbedQueue RateLimiter OAuthProps
    RebuildProps Access GraphProps HostedProps CostProps SearchProps VersionProps ConsolidationProps FeedbackProps GraphRepair
begin

text \<open>
  Verification development of loomem, a memory server for language models: clients store texts
  (chunks) in streams and search them; the server keeps chunks in RocksDB, documents in a Tantivy
  index, vectors and a knowledge graph beside them, and ages, merges and replaces memories in the
  background. Paths below are relative to \<^verbatim>\<open>src/\<close>; \<^verbatim>\<open>core\<close> stands for \<^verbatim>\<open>loomem-core/src\<close> and
  \<^verbatim>\<open>server\<close> for \<^verbatim>\<open>loomem-server/src\<close>.
\<close>

section \<open>Parts, theories and code\<close>

text \<open>
  Foundations. \<open>Prelude\<close>: errors as sums, decimal printing and parsing, graph closure. \<open>Utf8\<close>: Rust
  strings as bytes. \<open>KV\<close>: the contract of RocksDB as a locale, interpreted on sorted association lists.

  The store, \<^verbatim>\<open>core/storage.rs\<close> and \<^verbatim>\<open>core/storage/\<close>. \<open>Chunks\<close> has the chunk record, the envelope and
  the reads; \<open>ScanLog\<close> the accounting of rows that do not decode; \<open>Lineage\<close> (\<^verbatim>\<open>ingest_lineage.rs\<close>) the
  admission of sources, facts and fragments and their joint deletion; \<open>Lifecycle\<close> (\<^verbatim>\<open>lifecycle.rs\<close>)
  storing, deletion, purge and conditional publication of vectors; \<open>StoreOps\<close> the flags, scans and
  boosts; \<open>EntityRows\<close>, \<open>Users\<close> and \<open>AuditLog\<close> the other rows. A column family is a sorted list of rows;
  the lifecycle mutex makes each operation one function of the store. \<open>StoreProps\<close> and \<open>StoreScans\<close>
  give the effect of every operation key by key, the invariant \<open>store_ok\<close>, and what lineage, deletion
  and publication guarantee. \<open>Crypto\<close> (\<^verbatim>\<open>core/crypto/\<close>) is encryption at rest over an abstract cipher.

  Index and crash recovery. \<open>SearchIndex\<close> (\<^verbatim>\<open>core/tantivy_index.rs\<close>) keeps staged and committed
  documents, \<open>IntentLog\<close> (\<^verbatim>\<open>core/intent_log.rs\<close>) the write-ahead log, \<open>Recovery\<close> (\<^verbatim>\<open>intent_log/recovery.rs\<close>,
  \<^verbatim>\<open>storage/persist.rs\<close>, the write paths of \<^verbatim>\<open>server/handlers/\<close>) the operations that write store, log
  and index as lists of durable effects, which a stop cuts anywhere. \<open>CrashProps\<close> shows by induction over
  all histories of requests, stops, restarts and recoveries that the index agrees with the store except
  where an intent is open, and everywhere after a recovery; \<open>RebuildProps\<close> the same for a rebuild.

  Background work. \<open>BatchQueue\<close> is the worker shared by \<^verbatim>\<open>core/embedding_queue.rs\<close> and
  \<^verbatim>\<open>core/entity_extraction_queue.rs\<close> as a transition system with interleaved producers; \<open>EmbedQueue\<close> its
  two instances. \<open>Scheduler\<close>, \<open>WritePhase\<close>, \<open>Hosted\<close> (\<^verbatim>\<open>core/scheduler.rs\<close>, \<^verbatim>\<open>server/hosted/\<close>,
  \<^verbatim>\<open>deferred.rs\<close>, \<^verbatim>\<open>handlers/ingest/write_phase.rs\<close>) are the hosted engine with epochs of scopes and their
  revocation; \<open>HostedProps\<close> has its invariants by rule induction over the events. \<open>Consolidation\<close>
  (\<^verbatim>\<open>core/decay.rs\<close>, \<^verbatim>\<open>core/consolidation.rs\<close>) ages and merges memories over the engine of \<open>Recovery\<close>;
  \<open>ConsolidationProps\<close> follows its leases through every way a run can end. \<open>CostLedger\<close>
  (\<^verbatim>\<open>core/cost_tracker.rs\<close>) accounts for model calls.

  Reading. \<open>HybridSearch\<close>, \<open>SearchPipeline\<close>, \<open>SearchAnswer\<close> (\<^verbatim>\<open>core/hybrid_search.rs\<close>, \<^verbatim>\<open>core/search/\<close>,
  \<^verbatim>\<open>server/handlers/search.rs\<close> with its submodules) go from candidate lists to the answer, with
  \<open>QueryCache\<close> (\<^verbatim>\<open>core/query_cache.rs\<close>) in front; \<open>SearchProps\<close> says what an answer may hold, how it is
  ranked, and how a cached answer differs from a fresh one. \<open>Graph\<close> and \<open>GraphLabels\<close> (\<^verbatim>\<open>core/graph/\<close>)
  are the knowledge graph and what of it is shown; \<open>GraphRepair\<close> (\<^verbatim>\<open>core/graph_repair/\<close>) gives old
  entities their stream and keeps where names lead.

  Writing memories. \<open>Fragments\<close> (\<^verbatim>\<open>core/fragments/\<close>) segments long sources. \<open>Versions\<close>
  (\<^verbatim>\<open>core/contradiction.rs\<close>, \<^verbatim>\<open>core/derived_safety.rs\<close>, the replacing store of
  \<^verbatim>\<open>server/mcp/dispatcher.rs\<close>) links versions under the trust guard; its properties allow other callers to
  change the store between the plan and the commit. \<open>Feedback\<close> (\<^verbatim>\<open>core/feedback/\<close>,
  \<^verbatim>\<open>server/handlers/feedback.rs\<close>) rates memories; its tally is shown to summarise its event log.

  Access. \<open>Access\<close> (\<^verbatim>\<open>server/auth.rs\<close>, \<^verbatim>\<open>handlers/scope.rs\<close>, the gate of \<^verbatim>\<open>mcp/dispatcher.rs\<close>) decides who
  reaches which stream, \<open>RateLimiter\<close> how often, \<open>OAuth\<close> with \<open>Sha256\<close> (\<^verbatim>\<open>server/oauth.rs\<close>) how a key is
  handed out, \<open>AuditLog\<close> (\<^verbatim>\<open>core/audit.rs\<close>, \<^verbatim>\<open>core/access_audit/\<close>) what is recorded of it.
\<close>

section \<open>Conventions\<close>

text \<open>
  A string is the list of its UTF-8 bytes. A fallible operation returns \<open>err + 'a\<close>, and where an error
  leaves earlier writes behind the state is returned with it. Unsigned machine integers are naturals with
  saturation or wrap-around written out where the code has it, and words where bits matter. Scores and
  amounts are exact numbers: rounding of \<^verbatim>\<open>f32\<close> and \<^verbatim>\<open>f64\<close> is not modelled. Clocks, drawn UUIDs and keys,
  and everything third-party (ciphers, serialisers, tokenizers, Tantivy, language models, embedders, the
  date library) are arguments; where a proof needs a law of one of them, the law is a hypothesis or the
  assumption of a locale, and a witness instantiates it.

  Locales state the contracts between components and are interpreted on the model: the rows of the
  store in \<open>KV\<close>, the append-only log under the audit chain in \<open>AuditProps\<close>, the encryption provider in
  \<open>Crypto\<close>, the token counter of segmentation in \<open>FragmentProps\<close>, and filters that only narrow in
  \<open>SearchProps\<close>. Concurrency is interleaving of atomic
  steps at the locks and awaits of the code. Loops are structural recursion or functions with a measure;
  the graph walks, whose termination in the code rests on a set of visited ids, use the number of rows not
  yet visited. No definition uses fuel whose exhaustion could hide a result.
\<close>

section \<open>Not modelled\<close>

text \<open>
  Handlers that gather and format (administration, dashboard, statistics, context packs, ambient
  selection, benchmarks, the tool bodies behind the gate of a tool call), the ingest front ends up to the
  store call, the query side of Tantivy and its tokenizer, query classification and expansion, the
  operation policies of the search beyond the plain one, the language-model clients with their prompts and
  parsers, the local models, the PII and prompt-injection filters (an argument where they are called), the
  dreaming and association heuristics, the re-encryption of old rows, the command-line and
  migration programs, configuration and start-up. They hold no state of their own beyond the parts above,
  are input and output, or are heuristics whose result no other part relies on. Also left out are log
  lines, file permissions and \<^verbatim>\<open>fsync\<close>, disk failures, and the alerts of the cost tracker.
\<close>

end
